(* ===== verification/Prelude.thy ===== *)
theory Prelude
  imports Main "HOL-Library.Word"
begin

text \<open>
  Shared vocabulary of the development: bytes, results, the numerals and hexadecimal
  texts that JavaScript's \<open>toString\<close>, \<open>padStart\<close>, \<open>parseInt\<close> and \<open>Buffer\<close> produce,
  and the generic lemmas about them.  Text is a \<^typ>\<open>string\<close>, the list of the UTF-8
  bytes of a JavaScript string; \<open>js_length\<close> counts the UTF-16 code units that
  \<open>.length\<close> counts.
\<close>

section \<open>Collections of facts\<close>

named_theorems hex_simps "hexadecimal text and byte lists"
named_theorems res_simps "results: a value or an error"

section \<open>Results\<close>

type_synonym byte = "8 word"

text \<open>A computation that may throw: \<open>Inl\<close> is the exception, \<open>Inr\<close> the value.\<close>

definition bindR :: "'e + 'a \<Rightarrow> ('a \<Rightarrow> 'e + 'b) \<Rightarrow> 'e + 'b" where
  "bindR m f = (case m of Inl e \<Rightarrow> Inl e | Inr x \<Rightarrow> f x)"

lemma bindR_simps [simp]:
  "bindR (Inl e) f = Inl e"
  "bindR (Inr x) f = f x"
  by (simp_all add: bindR_def)

lemma bindR_cong [fundef_cong]:
  assumes "m = m'" and "\<And>x. m' = Inr x \<Longrightarrow> f x = g x"
  shows "bindR m f = bindR m' g"
  using assms by (cases m') (simp_all add: bindR_def)

lemma bindR_assoc: "bindR (bindR m f) g = bindR m (\<lambda>x. bindR (f x) g)"
  by (cases m) simp_all

lemma bindR_Inr [simp]: "bindR m Inr = m"
  by (cases m) simp_all

lemma bindR_eq_Inr: "bindR m f = Inr y \<longleftrightarrow> (\<exists>x. m = Inr x \<and> f x = Inr y)"
  by (cases m) simp_all

lemma bindR_eq_Inl: "bindR m f = Inl e \<longleftrightarrow> m = Inl e \<or> (\<exists>x. m = Inr x \<and> f x = Inl e)"
  by (cases m) simp_all

text \<open>\<open>xs.map(f)\<close> where \<open>f\<close> may throw: left to right, the first exception wins.\<close>

fun mapR :: "('a \<Rightarrow> 'e + 'b) \<Rightarrow> 'a list \<Rightarrow> 'e + 'b list" where
  "mapR f [] = Inr []"
| "mapR f (x # xs) = bindR (f x) (\<lambda>y. bindR (mapR f xs) (\<lambda>ys. Inr (y # ys)))"

lemma mapR_cong [fundef_cong]:
  assumes "xs = ys" and "\<And>x. x \<in> set ys \<Longrightarrow> f x = g x"
  shows "mapR f xs = mapR g ys"
proof -
  from assms(2) have "mapR f ys = mapR g ys" by (induction ys) simp_all
  with assms(1) show ?thesis by simp
qed

lemma mapR_Inr_map: "(\<And>x. x \<in> set xs \<Longrightarrow> f x = Inr (g x)) \<Longrightarrow> mapR f xs = Inr (map g xs)"
  by (induction xs) simp_all

lemma mapR_length: "mapR f xs = Inr ys \<Longrightarrow> length ys = length xs"
  by (induction xs arbitrary: ys) (auto simp: bindR_eq_Inr)

lemma mapR_append:
  "mapR f (xs @ ys) = bindR (mapR f xs) (\<lambda>us. bindR (mapR f ys) (\<lambda>vs. Inr (us @ vs)))"
proof (induction xs)
  case Nil
  then show ?case by (cases "mapR f ys") simp_all
next
  case (Cons x xs)
  then show ?case
    by (cases "f x"; cases "mapR f xs"; cases "mapR f ys") simp_all
qed

lemma mapR_eq_Inr_Cons:
  "mapR f (x # xs) = Inr zs \<longleftrightarrow> (\<exists>y ys. zs = y # ys \<and> f x = Inr y \<and> mapR f xs = Inr ys)"
  by (auto simp: bindR_eq_Inr)

lemmas results = bindR_eq_Inr bindR_eq_Inl

declare bindR_eq_Inr [res_simps] bindR_eq_Inl [res_simps]

section \<open>Numerals in a base\<close>

definition dig :: "nat \<Rightarrow> char" where
  "dig d = (if d < 36 then ''0123456789abcdefghijklmnopqrstuvwxyz'' ! d else CHR ''?'')"

text \<open>The value of one digit in a base up to 36; \<open>parseInt\<close> accepts both cases.\<close>

definition dig_val :: "char \<Rightarrow> nat option" where
  "dig_val c =
     (let n = of_char c :: nat in
      if 48 \<le> n \<and> n \<le> 57 then Some (n - 48)
      else if 97 \<le> n \<and> n \<le> 122 then Some (n - 87)
      else if 65 \<le> n \<and> n \<le> 90 then Some (n - 55)
      else None)"

lemma dig_val_dig [simp]:
  assumes "d < 36"
  shows "dig_val (dig d) = Some d"
proof -
  have "list_all (\<lambda>d. dig_val (dig d) = Some d) [0..<36]"
    by (simp add: upt_conv_Cons dig_def dig_val_def Let_def)
  with assms show ?thesis by (simp add: list_all_iff)
qed

lemma dig_inj: "a < 36 \<Longrightarrow> b < 36 \<Longrightarrow> dig a = dig b \<longleftrightarrow> a = b"
  using dig_val_dig by (metis option.inject)

text \<open>\<open>n.toString(b)\<close> of a natural number.\<close>

function digits :: "nat \<Rightarrow> nat \<Rightarrow> string" where
  "digits b n = (if n < b \<or> b < 2 then [dig n] else digits b (n div b) @ [dig (n mod b)])"
  by pat_completeness auto
termination
  by (relation "measure snd") (auto intro: div_less_dividend)

declare digits.simps [simp del]

text \<open>The value of a text of digits, most significant first.\<close>

definition of_digits :: "nat \<Rightarrow> string \<Rightarrow> nat" where
  "of_digits b s = foldl (\<lambda>acc c. acc * b + (case dig_val c of Some d \<Rightarrow> d | None \<Rightarrow> 0)) 0 s"

lemma of_digits_Nil [simp]: "of_digits b [] = 0"
  by (simp add: of_digits_def)

lemma of_digits_snoc:
  "of_digits b (s @ [c]) = of_digits b s * b + (case dig_val c of Some d \<Rightarrow> d | None \<Rightarrow> 0)"
  by (simp add: of_digits_def)

lemma of_digits_append: "of_digits b (s @ t) = of_digits b s * b ^ length t + of_digits b t"
proof (induction t rule: rev_induct)
  case Nil
  then show ?case by simp
next
  case (snoc c t)
  have "of_digits b (s @ t @ [c]) = of_digits b ((s @ t) @ [c])" by simp
  also have "\<dots> = of_digits b (s @ t) * b + (case dig_val c of Some d \<Rightarrow> d | None \<Rightarrow> 0)"
    by (rule of_digits_snoc)
  finally show ?case using snoc by (simp add: of_digits_snoc algebra_simps)
qed

lemma of_digits_digits: "2 \<le> b \<Longrightarrow> b \<le> 36 \<Longrightarrow> of_digits b (digits b n) = n"
proof (induction b n rule: digits.induct)
  case (1 b n)
  show ?case
  proof (cases "n < b")
    case True
    with "1.prems" show ?thesis
      by (simp add: digits.simps [of b n] of_digits_def)
  next
    case False
    with "1.prems" have ih: "of_digits b (digits b (n div b)) = n div b"
      using "1.IH" by simp
    have "n mod b < 36" using "1.prems" mod_less_divisor [of b n] by linarith
    with False "1.prems" ih show ?thesis
      by (simp add: digits.simps [of b n] of_digits_snoc)
  qed
qed

lemma digits_ne: "digits b n \<noteq> []"
  by (subst digits.simps) simp

lemma digits_length: "2 \<le> b \<Longrightarrow> 1 \<le> k \<Longrightarrow> length (digits b n) \<le> k \<longleftrightarrow> n < b ^ k"
proof (induction k arbitrary: n)
  case 0
  then show ?case by simp
next
  case (Suc k)
  show ?case
  proof (cases "n < b")
    case True
    have "b ^ 1 \<le> b ^ Suc k" using Suc.prems(1) by (intro power_increasing) auto
    with True have "n < b ^ Suc k" by (metis less_le_trans power_one_right)
    with True show ?thesis by (simp add: digits.simps [of b n])
  next
    case False
    note nlt = this
    show ?thesis
    proof (cases k)
      case 0
      with nlt Suc.prems digits_ne [of b "n div b"] show ?thesis
        by (simp add: digits.simps [of b n])
    next
      case (Suc k')
      then have "length (digits b (n div b)) \<le> k \<longleftrightarrow> n div b < b ^ k"
        using Suc.IH Suc.prems by simp
      moreover have "n div b < b ^ k \<longleftrightarrow> n < b ^ Suc k"
        using Suc.prems(1) by (simp add: div_less_iff_less_mult mult.commute)
      ultimately show ?thesis using nlt Suc.prems by (simp add: digits.simps [of b n])
    qed
  qed
qed

text \<open>Fixed-width numerals, most significant digit first.\<close>

fun fixd :: "nat \<Rightarrow> nat \<Rightarrow> nat \<Rightarrow> string" where
  "fixd b 0 n = []"
| "fixd b (Suc k) n = fixd b k (n div b) @ [dig (n mod b)]"

lemma fixd_length [simp]: "length (fixd b k n) = k"
  by (induction k arbitrary: n) simp_all

lemma of_digits_fixd: "2 \<le> b \<Longrightarrow> b \<le> 36 \<Longrightarrow> of_digits b (fixd b k n) = n mod b ^ k"
proof (induction k arbitrary: n)
  case 0
  then show ?case by simp
next
  case (Suc k)
  have "n mod b < 36" using Suc.prems mod_less_divisor [of b n] by linarith
  with Suc show ?case
    by (simp add: of_digits_snoc mod_mult2_eq)
qed

lemma fixd_zero: "0 < b \<Longrightarrow> fixd b k 0 = replicate k (dig 0)"
  by (induction k) (simp_all add: replicate_append_same)

lemma fixd_append: "0 < b \<Longrightarrow> fixd b (k + l) n = fixd b k (n div b ^ l) @ fixd b l n"
proof (induction l arbitrary: n)
  case 0
  then show ?case by simp
next
  case (Suc l)
  have "n div b div b ^ l = n div b ^ Suc l" by (simp add: div_mult2_eq)
  with Suc show ?case by simp
qed

lemma fixd_mod: "0 < b \<Longrightarrow> fixd b k (n mod b ^ k) = fixd b k n"
proof (induction k arbitrary: n)
  case 0
  then show ?case by simp
next
  case (Suc k)
  have "n mod (b * b ^ k) div b = n div b mod b ^ k"
    using Suc.prems by (simp add: mod_mult2_eq)
  moreover have "n mod (b * b ^ k) mod b = n mod b" by (simp add: mod_mult2_eq)
  ultimately show ?case using Suc by simp
qed

text \<open>\<open>s.padStart(k, '0')\<close>.\<close>

definition padStart :: "nat \<Rightarrow> string \<Rightarrow> string" where
  "padStart k s = replicate (k - length s) (CHR ''0'') @ s"

lemma dig_0 [simp]: "dig 0 = CHR ''0''"
  by (simp add: dig_def)

lemma padStart_digits:
  "2 \<le> b \<Longrightarrow> n < b ^ k \<Longrightarrow> 1 \<le> k \<Longrightarrow> padStart k (digits b n) = fixd b k n"
proof (induction k arbitrary: n)
  case 0
  then show ?case by simp
next
  case (Suc k)
  show ?case
  proof (cases "n < b")
    case True
    then have "n div b = 0" "n mod b = n" by simp_all
    with True Suc.prems show ?thesis
      by (simp add: padStart_def digits.simps [of b n] fixd_zero)
  next
    case False
    have lt: "n div b < b ^ k"
      using Suc.prems by (simp add: div_less_iff_less_mult mult.commute)
    moreover have "1 \<le> k" using False Suc.prems by (cases k) auto
    ultimately have "padStart k (digits b (n div b)) = fixd b k (n div b)"
      using Suc by simp
    with False Suc.prems(1) show ?thesis
      by (simp add: padStart_def digits.simps [of b n])
  qed
qed

lemma padStart_length: "length (padStart k s) = max k (length s)"
  by (simp add: padStart_def)

end
