(* ===== verification/JsText.thy ===== *)
theory JsText
  imports Prelude
begin

text \<open>
  Bytes and text: hexadecimal renderings (\<open>Buffer.toString('hex')\<close>, \<open>buf2hex\<close>), big-endian
  numbers, decimal texts, \<open>parseInt\<close>, the UTF-8 decoder of \<open>Buffer.toString('utf8')\<close> and
  \<open>TextDecoder\<close>, and \<open>String.split\<close>.
\<close>

section \<open>Bytes as hexadecimal text\<close>

definition hex_byte :: "byte \<Rightarrow> string" where
  "hex_byte b = [dig (unat b div 16), dig (unat b mod 16)]"

definition hexOf :: "byte list \<Rightarrow> string" where
  "hexOf bs = concat (map hex_byte bs)"

lemma byte_lt [simp]: "unat (b :: byte) < 256"
  using unsigned_less [of b] by simp

lemma hexOf_simps [simp, hex_simps]:
  "hexOf [] = []"
  "hexOf (b # bs) = hex_byte b @ hexOf bs"
  "hexOf (xs @ ys) = hexOf xs @ hexOf ys"
  by (simp_all add: hexOf_def)

lemma hexOf_concat: "hexOf (concat xss) = concat (map hexOf xss)"
  by (induction xss) simp_all

lemma hex_byte_length [simp]: "length (hex_byte b) = 2"
  by (simp add: hex_byte_def)

lemma hexOf_length [simp, hex_simps]: "length (hexOf bs) = 2 * length bs"
  by (induction bs) simp_all

lemma byte_nibbles_eq:
  assumes "unat (a :: byte) div 16 = unat b div 16" "unat a mod 16 = unat b mod 16"
  shows "a = b"
proof -
  have "unat a = unat b" using assms by (metis div_mult_mod_eq)
  then show ?thesis by (rule unsigned_word_eqI)
qed

lemma nibble_lt [simp]: "unat (b :: byte) div 16 < 36" "unat (b :: byte) mod 16 < 36"
proof -
  have "unat b div 16 < 16" using byte_lt [of b] by (simp add: div_less_iff_less_mult)
  then show "unat b div 16 < 36" by simp
  show "unat b mod 16 < 36" using mod_less_divisor [of 16 "unat b"] by linarith
qed

lemma hex_byte_inj: "hex_byte a = hex_byte b \<longleftrightarrow> a = b"
  by (auto simp: hex_byte_def dig_inj intro: byte_nibbles_eq)

lemma hexOf_inj: "hexOf xs = hexOf ys \<longleftrightarrow> xs = ys"
proof (induction xs arbitrary: ys)
  case Nil
  then show ?case by (cases ys) (simp_all add: hex_byte_def)
next
  case (Cons x xs)
  show ?case
  proof (cases ys)
    case Nil
    then show ?thesis by (simp add: hex_byte_def)
  next
    case (Cons y ys')
    with Cons.IH [of ys'] show ?thesis by (simp add: hex_byte_inj)
  qed
qed

text \<open>Two hexadecimal digits as a byte: \<open>parseInt(byte, 16)\<close> on two digits.\<close>

definition is_hex :: "char \<Rightarrow> bool" where
  "is_hex c = (case dig_val c of Some d \<Rightarrow> d < 16 | None \<Rightarrow> False)"

fun unhex :: "string \<Rightarrow> byte list" where
  "unhex (a # b # cs) = of_nat (of_digits 16 [a, b]) # unhex cs"
| "unhex _ = []"

definition hex_text :: "string \<Rightarrow> bool" where
  "hex_text s \<longleftrightarrow> even (length s) \<and> list_all is_hex s"

lemma of_digits_hex_byte: "of_digits 16 (hex_byte b) = unat b"
  by (simp add: hex_byte_def of_digits_def)

lemma unhex_hexOf [simp, hex_simps]: "unhex (hexOf bs) = bs"
proof (induction bs)
  case Nil
  then show ?case by simp
next
  case (Cons b bs)
  have "of_nat (of_digits 16 (hex_byte b)) = b" by (simp add: of_digits_hex_byte)
  with Cons show ?case by (simp add: hex_byte_def)
qed

lemma unhex_append: "even (length s) \<Longrightarrow> unhex (s @ t) = unhex s @ unhex t"
  by (induction s rule: unhex.induct) simp_all

lemma unhex_length: "length (unhex s) = length s div 2"
  by (induction s rule: unhex.induct) simp_all

lemma is_hex_dig [simp]: "d < 16 \<Longrightarrow> is_hex (dig d)"
  by (simp add: is_hex_def)

lemma nibble_lt16 [simp]: "unat (b :: byte) div 16 < 16"
  using byte_lt [of b] by (simp add: div_less_iff_less_mult)

lemma hex_text_hexOf [simp, hex_simps]: "hex_text (hexOf bs)"
  by (induction bs) (simp_all add: hex_text_def hex_byte_def)

text \<open>Lower-case letters: \<open>s.toLowerCase()\<close> on ASCII text.\<close>

definition lower_char :: "char \<Rightarrow> char" where
  "lower_char c = (let n = of_char c :: nat in
     if 65 \<le> n \<and> n \<le> 90 then char_of (n + 32) else c)"

definition toLowerCase :: "string \<Rightarrow> string" where
  "toLowerCase s = map lower_char s"

lemma lower_char_dig:
  assumes "d < 36"
  shows "lower_char (dig d) = dig d"
proof -
  have "list_all (\<lambda>d. lower_char (dig d) = dig d) [0..<36]"
    by (simp add: upt_conv_Cons dig_def lower_char_def Let_def)
  with assms show ?thesis by (simp add: list_all_iff)
qed

lemma toLowerCase_hexOf [simp, hex_simps]: "toLowerCase (hexOf bs) = hexOf bs"
  by (induction bs) (simp_all add: toLowerCase_def hex_byte_def lower_char_dig)

lemma of_char_dig:
  assumes "d < 16"
  shows "(of_char (dig d) :: nat) = (if d < 10 then 48 + d else 87 + d)"
proof -
  have "list_all (\<lambda>d. (of_char (dig d) :: nat) = (if d < 10 then 48 + d else 87 + d)) [0..<16]"
    by (simp add: upt_conv_Cons dig_def)
  with assms show ?thesis by (simp add: list_all_iff)
qed

lemma dig_of_hex:
  assumes "is_hex c"
  shows "dig (the (dig_val c)) = lower_char c" "the (dig_val c) < 16" "dig_val c \<noteq> None"
proof -
  define n where "n = (of_char c :: nat)"
  have r: "48 \<le> n \<and> n \<le> 57 \<or> 97 \<le> n \<and> n \<le> 102 \<or> 65 \<le> n \<and> n \<le> 70"
    and d: "the (dig_val c) = (if n \<le> 57 then n - 48 else if 97 \<le> n then n - 87 else n - 55)"
    using assms by (auto simp: is_hex_def dig_val_def Let_def n_def split: if_splits)
  have 1: "(of_char (dig (the (dig_val c))) :: nat) = (if n \<le> 57 \<or> 97 \<le> n then n else n + 32)"
    using r d by (auto simp: of_char_dig)
  have 2: "(of_char (lower_char c) :: nat) = (if n \<le> 57 \<or> 97 \<le> n then n else n + 32)"
    using r by (auto simp: lower_char_def Let_def n_def [symmetric])
  show "dig (the (dig_val c)) = lower_char c" using 1 2 of_char_eq_iff by metis
qed (use assms in \<open>auto simp: is_hex_def split: option.splits\<close>)

lemma hexOf_unhex: "hex_text s \<Longrightarrow> hexOf (unhex s) = toLowerCase s"
proof (induction s rule: unhex.induct)
  case (1 a b cs)
  then have h: "is_hex a" "is_hex b" and ih: "hexOf (unhex cs) = toLowerCase cs"
    by (auto simp: hex_text_def)
  obtain x y where xy: "dig_val a = Some x" "dig_val b = Some y" "x < 16" "y < 16"
    "dig x = lower_char a" "dig y = lower_char b"
    using dig_of_hex [OF h(1)] dig_of_hex [OF h(2)] by force
  have d: "of_digits 16 [a, b] = 16 * x + y" using xy by (simp add: of_digits_def)
  have "16 * x + y < 256" using xy by simp
  then have u: "unat (of_nat (16 * x + y) :: byte) = 16 * x + y"
    by (simp add: unat_of_nat take_bit_eq_mod del: of_nat_add of_nat_mult)
  have "hex_byte (of_nat (16 * x + y)) = [lower_char a, lower_char b]"
    using xy by (simp only: hex_byte_def u) simp
  with ih d show ?case by (simp add: toLowerCase_def del: of_nat_add of_nat_mult)
qed (auto simp: hex_text_def toLowerCase_def)

lemma hex_text_lower: "hex_text s \<Longrightarrow> toLowerCase s = s \<Longrightarrow> \<exists>bs. s = hexOf bs"
  by (metis hexOf_unhex)

section \<open>Big-endian numbers\<close>

definition be_val :: "byte list \<Rightarrow> nat" where
  "be_val bs = foldl (\<lambda>a b. a * 256 + unat b) 0 bs"

fun be_bytes :: "nat \<Rightarrow> nat \<Rightarrow> byte list" where
  "be_bytes 0 n = []"
| "be_bytes (Suc k) n = be_bytes k (n div 256) @ [of_nat (n mod 256)]"

lemma be_bytes_length [simp]: "length (be_bytes k n) = k"
  by (induction k arbitrary: n) simp_all

lemma be_val_snoc [simp]: "be_val (bs @ [b]) = be_val bs * 256 + unat b"
  by (simp add: be_val_def)

lemma be_val_Nil [simp]: "be_val [] = 0"
  by (simp add: be_val_def)

lemma be_val_bytes: "be_val (be_bytes k n) = n mod 256 ^ k"
  by (induction k arbitrary: n) (simp_all add: unat_of_nat mod_mult2_eq take_bit_eq_mod)

lemma be_val_bytes_id [simp]: "n < 256 ^ k \<Longrightarrow> be_val (be_bytes k n) = n"
  by (simp add: be_val_bytes)

lemma be_val_lt: "be_val bs < 256 ^ length bs"
proof (induction bs rule: rev_induct)
  case Nil
  then show ?case by simp
next
  case (snoc b bs)
  have "be_val bs * 256 + unat b < be_val bs * 256 + 256" by simp
  also have "\<dots> = (be_val bs + 1) * 256" by simp
  also have "\<dots> \<le> 256 ^ length bs * 256" using snoc by (intro mult_right_mono) auto
  finally show ?case by (simp add: mult.commute)
qed

lemma of_digits_hexOf: "of_digits 16 (hexOf bs) = be_val bs"
  by (induction bs rule: rev_induct) (simp_all add: of_digits_append of_digits_hex_byte)

lemma div_mod_16:
  "n mod 256 div 16 = n div 16 mod (16::nat)" "n div 16 div 16 = n div (256::nat)"
  "n mod 256 mod 16 = n mod (16::nat)"
proof -
  show "n mod 256 div 16 = n div 16 mod (16::nat)"
    using mod_mult2_eq [of n 16 16] by simp
  show "n div 16 div 16 = n div (256::nat)" by (simp add: div_mult2_eq [symmetric])
  show "n mod 256 mod 16 = n mod (16::nat)" by (simp add: mod_mod_cancel)
qed

lemma hexOf_be_bytes: "hexOf (be_bytes k n) = fixd 16 (2 * k) n"
proof (induction k arbitrary: n)
  case 0
  then show ?case by simp
next
  case (Suc k)
  have "unat (of_nat (n mod 256) :: byte) = n mod 256"
    by (simp add: unat_of_nat take_bit_eq_mod)
  with Suc show ?case by (simp add: hex_byte_def div_mod_16)
qed

lemma pow_16_256: "(16::nat) ^ (2 * k) = 256 ^ k"
  by (simp add: power_mult)

lemma padStart_hex:
  "n < 256 ^ k \<Longrightarrow> 1 \<le> k \<Longrightarrow> padStart (2 * k) (digits 16 n) = hexOf (be_bytes k n)"
  by (simp add: hexOf_be_bytes padStart_digits pow_16_256)

lemma hex_byte_digits: "padStart 2 (digits 16 (unat (b :: byte))) = hex_byte b"
  using padStart_hex [of "unat b" 1] by simp

section \<open>Numbers in text\<close>

definition int_to_dec :: "int \<Rightarrow> string" where
  "int_to_dec i = (if i < 0 then CHR ''-'' # digits 10 (nat (- i)) else digits 10 (nat i))"

definition is_digit :: "char \<Rightarrow> bool" where
  "is_digit c = (case dig_val c of Some d \<Rightarrow> d < 10 | None \<Rightarrow> False)"

text \<open>The double nearest to an integer, ties to even; Infinity is any number of 1025 bits.\<close>

function bit_len :: "int \<Rightarrow> nat" where
  "bit_len n = (if n \<le> 0 then 0 else Suc (bit_len (n div 2)))"
  by pat_completeness auto
termination
  by (relation "measure nat") auto

declare bit_len.simps [simp del]

definition round_even :: "int \<Rightarrow> int" where
  "round_even a =
     (if a < 2 ^ 53 then a
      else let k = bit_len a - 53; q = a div 2 ^ k; r = a mod 2 ^ k; h = 2 ^ (k - 1)
           in if h < r \<or> (r = h \<and> odd q) then (q + 1) * 2 ^ k else q * 2 ^ k)"

definition to_double :: "int \<Rightarrow> int" where
  "to_double i = (let d = min (round_even \<bar>i\<bar>) (2 ^ 1024) in if i < 0 then - d else d)"

text \<open>
  \<open>String(n)\<close> of a number without fraction.  From 2 to the 53 the shortest digits are printed
  that still read as the number (\<open>shortest_from k\<close> tries \<open>k\<close> digits and more), and from 10 to the
  21 the exponent form is used.
\<close>

definition closest :: "int \<Rightarrow> int \<Rightarrow> int option" where
  "closest x p =
     (let lo = x div p * p; hi = lo + p; fits = (\<lambda>c. to_double c = x) in
      if fits lo \<and> (x - lo \<le> hi - x \<or> \<not> fits hi) then Some lo else if fits hi then Some hi else None)"

function shortest_from :: "nat \<Rightarrow> int \<Rightarrow> nat \<Rightarrow> int" where
  "shortest_from m x k =
     (if m \<le> k then x
      else case closest x (10 ^ (m - k)) of Some c \<Rightarrow> c | None \<Rightarrow> shortest_from m x (Suc k))"
  by pat_completeness auto
termination
  by (relation "measure (\<lambda>(m, x, k). m - k)") auto

declare shortest_from.simps [simp del]

definition exponent_form :: "string \<Rightarrow> string" where
  "exponent_form ds =
     (let sig = rev (dropWhile (\<lambda>c. c = CHR ''0'') (rev ds)) in
      take 1 sig @ (if length sig \<le> 1 then [] else CHR ''.'' # drop 1 sig) @ ''e+'' @ digits 10 (length ds - 1))"

definition js_number_text :: "int \<Rightarrow> string" where
  "js_number_text n =
     (let x = \<bar>to_double n\<bar> in
      if x \<le> 2 ^ 53 then int_to_dec (to_double n)
      else (if n < 0 then ''-'' else []) @
        (if x = 2 ^ 1024 then ''Infinity''
         else let ds = digits 10 (nat (shortest_from (length (digits 10 (nat x))) x 1)) in
              if length ds \<le> 21 then ds else exponent_form ds))"

lemma round_even_small: "a \<le> 2 ^ 53 \<Longrightarrow> round_even a = a"
proof (cases "a = 2 ^ 53")
  case True
  have "round_even (2 ^ 53) = 2 ^ 53" by code_simp
  with True show ?thesis by simp
qed (simp add: round_even_def)

lemma to_double_small: "\<bar>i\<bar> \<le> 2 ^ 53 \<Longrightarrow> to_double i = i"
  by (simp add: to_double_def round_even_small Let_def)

lemma js_number_text_small [simp]: "\<bar>n\<bar> \<le> 2 ^ 53 \<Longrightarrow> js_number_text n = int_to_dec n"
  by (simp add: js_number_text_def to_double_small)

text \<open>White space that \<open>parseInt\<close> skips, in ASCII.\<close>

definition is_space :: "char \<Rightarrow> bool" where
  "is_space c = (let n = of_char c :: nat in n = 32 \<or> (9 \<le> n \<and> n \<le> 13))"

definition in_base :: "nat \<Rightarrow> char \<Rightarrow> bool" where
  "in_base b c = (case dig_val c of Some d \<Rightarrow> d < b | None \<Rightarrow> False)"

text \<open>
  \<open>parseInt(s, radix)\<close>: skip white space, an optional sign, for radix 16 an optional
  \<open>0x\<close>, then the longest run of digits; \<open>None\<close> is NaN.  The value is exact where
  JavaScript's is, below 2 to the 53.
\<close>

definition parse_sign :: "string \<Rightarrow> bool \<times> string" where
  "parse_sign s = (case s of
      c # r \<Rightarrow> if c = CHR ''-'' then (True, r) else if c = CHR ''+'' then (False, r) else (False, s)
    | [] \<Rightarrow> (False, s))"

definition js_parseInt :: "nat \<Rightarrow> string \<Rightarrow> int option" where
  "js_parseInt b s =
     (let (neg, s2) = parse_sign (dropWhile is_space s);
          s3 = (if b = 16 \<and> (take 2 s2 = ''0x'' \<or> take 2 s2 = ''0X'') then drop 2 s2 else s2);
          ds = takeWhile (in_base b) s3
      in if ds = [] then None
         else Some (if neg then - int (of_digits b ds) else int (of_digits b ds)))"

lemma in_base_dig [simp]: "d < b \<Longrightarrow> b \<le> 36 \<Longrightarrow> in_base b (dig d)"
  by (simp add: in_base_def)

lemma in_base_16: "in_base 16 c = is_hex c"
  by (simp add: in_base_def is_hex_def)

lemma in_base_10: "in_base 10 c = is_digit c"
  by (simp add: in_base_def is_digit_def)

lemma digit_not_special:
  assumes "in_base b c"
  shows "\<not> is_space c \<and> c \<noteq> CHR ''-'' \<and> c \<noteq> CHR ''+''"
proof -
  have "dig_val c \<noteq> None" using assms by (auto simp: in_base_def split: option.splits)
  then have n: "48 \<le> (of_char c :: nat)"
    by (auto simp: dig_val_def Let_def split: if_splits)
  then have "\<not> is_space c" by (auto simp: is_space_def Let_def)
  moreover have "c \<noteq> CHR ''-''" using n by auto
  moreover have "c \<noteq> CHR ''+''" using n by auto
  ultimately show ?thesis by simp
qed

lemma takeWhile_all: "list_all P xs \<Longrightarrow> takeWhile P xs = xs"
  by (induction xs) simp_all

lemma js_parseInt_digits:
  assumes "list_all (in_base b) s" "s \<noteq> []" "b = 16 \<longrightarrow> take 2 s \<noteq> ''0x'' \<and> take 2 s \<noteq> ''0X''"
  shows "js_parseInt b s = Some (int (of_digits b s))"
proof -
  obtain c r where s: "s = c # r" using assms(2) by (cases s) auto
  have "\<not> is_space c \<and> c \<noteq> CHR ''-'' \<and> c \<noteq> CHR ''+''"
    using assms(1) digit_not_special [of b c] by (simp add: s)
  then have d: "dropWhile is_space s = s" "parse_sign s = (False, s)"
    by (simp_all add: s parse_sign_def)
  have i: "(if b = 16 \<and> (take 2 s = ''0x'' \<or> take 2 s = ''0X'') then drop 2 s else s) = s"
    using assms(3) by argo
  have tw: "takeWhile (in_base b) s = s" by (rule takeWhile_all [OF assms(1)])
  show ?thesis
    using assms(2) by (simp only: js_parseInt_def d Let_def prod.case i tw if_False)
qed

lemma hex_not_0x:
  assumes "list_all is_hex s"
  shows "take 2 s \<noteq> ''0x'' \<and> take 2 s \<noteq> ''0X''"
proof -
  have "\<not> is_hex (CHR ''x'')" "\<not> is_hex (CHR ''X'')"
    by (simp_all add: is_hex_def dig_val_def Let_def)
  moreover have "list_all is_hex (take 2 s)" using assms by (auto simp: list_all_iff dest: in_set_takeD)
  ultimately show ?thesis by auto
qed

lemma js_parseInt_hexOf [hex_simps]:
  assumes "bs \<noteq> []"
  shows "js_parseInt 16 (hexOf bs) = Some (int (be_val bs))"
proof -
  have h: "list_all is_hex (hexOf bs)" using hex_text_hexOf [of bs] by (simp add: hex_text_def)
  have "hexOf bs \<noteq> []" using assms by (cases bs) (simp_all add: hex_byte_def)
  moreover have "list_all (in_base 16) (hexOf bs)" using h by (simp add: in_base_16 [abs_def])
  ultimately show ?thesis
    using js_parseInt_digits [of 16 "hexOf bs"] hex_not_0x [OF h] by (simp add: of_digits_hexOf)
qed

lemma list_all_digits: "2 \<le> b \<Longrightarrow> b \<le> 36 \<Longrightarrow> list_all (in_base b) (digits b n)"
proof (induction b n rule: digits.induct)
  case (1 b n)
  have "n mod b < b" using "1.prems" by simp
  with 1 show ?case by (cases "n < b") (simp_all add: digits.simps [of b n])
qed

text \<open>An integer text, \<open>new BigInt\<close>-style: an optional minus sign and decimal digits.\<close>

definition dec_to_int :: "string \<Rightarrow> int option" where
  "dec_to_int s =
     (let (neg, ds) = (case s of c # r \<Rightarrow> if c = CHR ''-'' then (True, r) else (False, s)
                               | [] \<Rightarrow> (False, s))
      in if ds = [] \<or> \<not> list_all is_digit ds then None
         else Some (if neg then - int (of_digits 10 ds) else int (of_digits 10 ds)))"

lemma dec_to_int_to_dec [simp]: "dec_to_int (int_to_dec i) = Some i"
proof -
  have d: "list_all is_digit (digits 10 n)" for n
    using list_all_digits [of 10 n] by (simp add: in_base_10 [abs_def])
  have c: "\<exists>c r. digits 10 n = c # r \<and> c \<noteq> CHR ''-''" for n
  proof -
    obtain c r where cr: "digits 10 n = c # r" using digits_ne by (cases "digits 10 n") auto
    with d [of n] have "in_base 10 c" by (simp add: in_base_10)
    then have "c \<noteq> CHR ''-''" using digit_not_special by blast
    with cr show ?thesis by blast
  qed
  show ?thesis
  proof (cases "i < 0")
    case True
    then show ?thesis using d digits_ne
      by (simp add: int_to_dec_def dec_to_int_def of_digits_digits)
  next
    case False
    obtain c r where "digits 10 (nat i) = c # r \<and> c \<noteq> CHR ''-''" using c by blast
    with False d [of "nat i"] of_digits_digits [of 10 "nat i"] show ?thesis
      by (simp add: int_to_dec_def dec_to_int_def)
  qed
qed

section \<open>UTF-8\<close>

definition byte_of_char :: "char \<Rightarrow> byte" where
  "byte_of_char c = of_nat (of_char c)"

definition char_of_byte :: "byte \<Rightarrow> char" where
  "char_of_byte b = char_of (unat b)"

lemma char_of_byte_of_char [simp]: "char_of_byte (byte_of_char c) = c"
proof -
  have "(of_char c :: nat) < 256" by (rule nat_of_char_less_256)
  then show ?thesis
    by (simp add: char_of_byte_def byte_of_char_def unat_of_nat take_bit_eq_mod)
qed

lemma byte_of_char_of_byte [simp]: "byte_of_char (char_of_byte b) = b"
  by (simp add: char_of_byte_def byte_of_char_def)

text \<open>\<open>Buffer.from(s, 'utf8')\<close>: text is held as its UTF-8 bytes.\<close>

definition utf8_encode :: "string \<Rightarrow> byte list" where
  "utf8_encode s = map byte_of_char s"

text \<open>The text of one U+FFFD replacement character.\<close>

definition utf8_repl :: string where
  "utf8_repl = map char_of [239 :: nat, 191, 189]"

definition in_rng :: "nat \<Rightarrow> nat \<Rightarrow> byte \<Rightarrow> bool" where
  "in_rng lo hi b \<longleftrightarrow> lo \<le> unat b \<and> unat b \<le> hi"

text \<open>
  \<open>buffer.toString('utf8')\<close>: the UTF-8 decoder of the Encoding standard, which replaces
  every maximal prefix of an ill-formed sequence by one U+FFFD.
\<close>

fun utf8_decode :: "byte list \<Rightarrow> string" where
  "utf8_decode [] = []"
| "utf8_decode (b # bs) =
    (if unat b < 128 then char_of_byte b # utf8_decode bs
     else if in_rng 194 223 b then
       (case bs of
          c1 # r1 \<Rightarrow> if in_rng 128 191 c1 then char_of_byte b # char_of_byte c1 # utf8_decode r1
                     else utf8_repl @ utf8_decode bs
        | [] \<Rightarrow> utf8_repl)
     else if in_rng 224 239 b then
       (case bs of
          c1 # r1 \<Rightarrow>
            if in_rng (if unat b = 224 then 160 else 128) (if unat b = 237 then 159 else 191) c1 then
              (case r1 of
                 c2 # r2 \<Rightarrow> if in_rng 128 191 c2
                   then char_of_byte b # char_of_byte c1 # char_of_byte c2 # utf8_decode r2
                   else utf8_repl @ utf8_decode r1
               | [] \<Rightarrow> utf8_repl)
            else utf8_repl @ utf8_decode bs
        | [] \<Rightarrow> utf8_repl)
     else if in_rng 240 244 b then
       (case bs of
          c1 # r1 \<Rightarrow>
            if in_rng (if unat b = 240 then 144 else 128) (if unat b = 244 then 143 else 191) c1 then
              (case r1 of
                 c2 # r2 \<Rightarrow>
                   if in_rng 128 191 c2 then
                     (case r2 of
                        c3 # r3 \<Rightarrow> if in_rng 128 191 c3
                          then char_of_byte b # char_of_byte c1 # char_of_byte c2 # char_of_byte c3
                               # utf8_decode r3
                          else utf8_repl @ utf8_decode r2
                      | [] \<Rightarrow> utf8_repl)
                   else utf8_repl @ utf8_decode r1
               | [] \<Rightarrow> utf8_repl)
            else utf8_repl @ utf8_decode bs
        | [] \<Rightarrow> utf8_repl)
     else utf8_repl @ utf8_decode bs)"

text \<open>Text that is the UTF-8 form of a JavaScript string without lone surrogates.\<close>

definition utf8_ok :: "string \<Rightarrow> bool" where
  "utf8_ok s \<longleftrightarrow> utf8_decode (utf8_encode s) = s"

definition ascii :: "string \<Rightarrow> bool" where
  "ascii s = list_all (\<lambda>c. (of_char c :: nat) < 128) s"

lemma unat_byte_of_char [simp]: "unat (byte_of_char c) = of_char c"
  using nat_of_char_less_256 [of c]
  by (simp add: byte_of_char_def unat_of_nat take_bit_eq_mod)

lemma ascii_utf8_ok: "ascii s \<Longrightarrow> utf8_ok s"
  by (induction s) (simp_all add: ascii_def utf8_ok_def utf8_encode_def)

text \<open>\<open>s.length\<close>: UTF-16 code units, one for every byte that is not a continuation byte
  and one more for every four-byte sequence.\<close>

definition js_length :: "string \<Rightarrow> nat" where
  "js_length s = length (filter (\<lambda>c. \<not> in_rng 128 191 (byte_of_char c)) s)
     + length (filter (\<lambda>c. in_rng 240 255 (byte_of_char c)) s)"

lemma js_length_ascii: "ascii s \<Longrightarrow> js_length s = length s"
  by (induction s) (auto simp: js_length_def ascii_def in_rng_def)

section \<open>Splitting and joining\<close>

definition startsWith :: "string \<Rightarrow> string \<Rightarrow> bool" where
  "startsWith s p \<longleftrightarrow> take (length p) s = p"

fun joinWith :: "string \<Rightarrow> string list \<Rightarrow> string" where
  "joinWith sep [] = []"
| "joinWith sep [x] = x"
| "joinWith sep (x # y # ys) = x @ sep @ joinWith sep (y # ys)"

text \<open>\<open>s.split(sep)\<close> for a non-empty separator: cut at every left-most, non-overlapping
  occurrence; the accumulator is the current piece.\<close>

function split_acc :: "string \<Rightarrow> string \<Rightarrow> string \<Rightarrow> string list" where
  "split_acc sep acc s =
     (if s = [] then [acc]
      else if sep \<noteq> [] \<and> startsWith s sep then acc # split_acc sep [] (drop (length sep) s)
      else split_acc sep (acc @ [hd s]) (tl s))"
  by pat_completeness auto
termination
  by (relation "measure (\<lambda>(sep, acc, s). length s)") (auto simp: length_greater_0_conv)

declare split_acc.simps [simp del]

definition js_split :: "string \<Rightarrow> string \<Rightarrow> string list" where
  "js_split sep s = split_acc sep [] s"

end
