(* ===== verification/Environment.thy ===== *)
theory Environment
  imports JsText
begin

text \<open>
  What the packages throw, and the third-party code they call.  The libraries
  (\<open>bs58check\<close>, \<open>bignumber.js\<close>, \<open>blakejs\<close>) are parameters: a record of functions that
  the definitions using them take as an argument.  What the proofs rely on is stated as
  named hypotheses on that record.
\<close>

section \<open>Exceptions\<close>

text \<open>One constructor per error class of the sources; \<open>PlainError\<close> is \<open>new Error(message)\<close>
  with a short tag for the message, \<open>OutOfFuel\<close> a loop that has not ended.\<close>

datatype (plugins only: size code) js_error =
    TypeErr string
  | PlainError string
  | OutOfFuel
  | NotEnoughBytes nat nat
  | PadLength nat nat
  | InvalidHexStringError string
  | UnexpectedMichelsonValueError
  | InvalidPrim string
  | UnknownOp string
  | Base58Error string
  | InvalidPkhPrefix nat
  | InvalidBallotValueError string
  | DecodeBallotValueError nat
  | UnsupportedPvmKindError string
  | DecodePvmKindError nat
  | InvalidKeyHashError string
  | InvalidPublicKeyError string string
  | InvalidSignatureError string string
  | InvalidMessageError string
  | InvalidAddressError string
  | InvalidContractAddressError string
  | InvalidSmartRollupAddressError string
  | InvalidSmartRollupContractAddressError string
  | OversizedEntryPointError string
  | InvalidOperationKindError string
  | UnsupportedOperationError nat
  | OperationDecodingError
  | OperationEncodingError
  | InvalidBlockHashError string
  | InvalidOperationSchemaError "string list"

type_synonym 'a res = "js_error + 'a"

section \<open>Third-party libraries as parameters\<close>

text \<open>
  \<open>bs58_decode\<close> is \<open>bs58check.decode\<close>, \<open>None\<close> where it throws; \<open>bn_parse\<close> is
  \<open>new BigNumber(text, 10)\<close> on texts that denote an integer, \<open>None\<close> for NaN;
  \<open>bn_toFixed\<close> and \<open>bn_toString\<close> print an integral BigNumber.
\<close>

record libs =
  bs58_encode :: "byte list \<Rightarrow> string"
  bs58_decode :: "string \<Rightarrow> byte list option"
  bn_parse :: "string \<Rightarrow> int option"
  bn_toFixed :: "int \<Rightarrow> string"
  bn_toString :: "int \<Rightarrow> string"
  blake2b :: "byte list \<Rightarrow> nat \<Rightarrow> byte list"

text \<open>A text is the normal decimal form of an integer.\<close>

definition canonical_int :: "libs \<Rightarrow> string \<Rightarrow> bool" where
  "canonical_int L s = (case bn_parse L s of Some i \<Rightarrow> bn_toFixed L i = s | None \<Rightarrow> False)"

text \<open>A text that \<open>toString\<close> gives back, which \<open>bignumber.js\<close> documents for exponents
  below 21.\<close>

definition plain_nat :: "libs \<Rightarrow> string \<Rightarrow> bool" where
  "plain_nat L s = (case bn_parse L s of Some i \<Rightarrow> 0 \<le> i \<and> bn_toString L i = s | None \<Rightarrow> False)"

text \<open>
  A concrete instance, used by the witnesses only: numbers in decimal, scientific
  notation from 10 to the 21 on, and for base 58 an injective toy text that keeps the
  leading letters of the addresses.
\<close>

definition demo_tags :: "(byte list \<times> string) list" where
  "demo_tags = [([6, 161, 159], ''tz1''), ([6, 161, 161], ''tz2''), ([6, 161, 164], ''tz3''),
     ([6, 161, 166], ''tz4''), ([2, 90, 121], ''KT1''), ([1, 52], ''B''), ([2, 170], ''P''),
     ([13, 15, 37, 217], ''edpk''), ([3, 254, 226, 86], ''sppk''), ([3, 178, 139, 127], ''p2pk''),
     ([6, 124, 117], ''sr1''), ([17, 165, 134, 138], ''src1''), ([1, 106, 242], ''vh''),
     ([1, 128, 120, 31], ''txr1'')]"

definition demo_encode :: "byte list \<Rightarrow> string" where
  "demo_encode bs =
     (case find (\<lambda>(p, t). take (length p) bs = p) demo_tags of
        Some (p, t) \<Rightarrow> t @ hexOf (drop (length p) bs)
      | None \<Rightarrow> CHR ''?'' # hexOf bs)"

definition demo_decode :: "string \<Rightarrow> byte list option" where
  "demo_decode s =
     (case find (\<lambda>(p, t). take (length t) s = t \<and> hex_text (drop (length t) s)) demo_tags of
        Some (p, t) \<Rightarrow> Some (p @ unhex (drop (length t) s))
      | None \<Rightarrow> None)"

definition demo_libs :: libs where
  "demo_libs = \<lparr>bs58_encode = demo_encode, bs58_decode = demo_decode,
     bn_parse = dec_to_int, bn_toFixed = int_to_dec,
     bn_toString = (\<lambda>i. if \<bar>i\<bar> < 10 ^ 21 then int_to_dec i else int_to_dec i @ ''e+''),
     blake2b = (\<lambda>bs n. replicate n 0)\<rparr>"

end
