(* ===== verification/Micheline.thy ===== *)
theory Micheline
  imports Environment
begin

text \<open>
  Micheline expressions (\<open>micheline.ts\<close>, and \<open>MichelsonValue\<close> of
  \<open>taquito-local-forging\<close>): literals, primitive applications and sequences.  \<open>args\<close> and
  \<open>annots\<close> are optional properties, absent (\<open>None\<close>) or an array, which the code
  distinguishes.  The source references attached under a symbol are not part of the value.
\<close>

datatype expr =
    Prim string "expr list option" "string list option"
  | StringLit string
  | IntLit string
  | BytesLit string
  | Seq "expr list"

definition prim0 :: "string \<Rightarrow> expr" where
  "prim0 p = Prim p None None"

fun args_of :: "expr list option \<Rightarrow> expr list" where
  "args_of None = []"
| "args_of (Some xs) = xs"

text \<open>\<open>args?.length\<close> and the arguments; all sub-expressions, for statements about a tree.\<close>

fun subexprs :: "expr \<Rightarrow> expr list" where
  "subexprs (Prim p (Some xs) an) = Prim p (Some xs) an # concat (map subexprs xs)"
| "subexprs (Seq xs) = Seq xs # concat (map subexprs xs)"
| "subexprs e = [e]"

text \<open>Structural induction that looks through the optional argument list.\<close>

lemma expr_induct [case_names Prim0 Prim StringLit IntLit BytesLit Seq]:
  assumes "\<And>p an. P (Prim p None an)"
    and "\<And>p xs an. (\<And>x. x \<in> set xs \<Longrightarrow> P x) \<Longrightarrow> P (Prim p (Some xs) an)"
    and "\<And>s. P (StringLit s)" and "\<And>s. P (IntLit s)" and "\<And>s. P (BytesLit s)"
    and "\<And>xs. (\<And>x. x \<in> set xs \<Longrightarrow> P x) \<Longrightarrow> P (Seq xs)"
  shows "P e"
proof (induction e)
  case (Prim p xs an)
  show ?case
  proof (cases xs)
    case None
    then show ?thesis using assms(1) by simp
  next
    case (Some ys)
    have "P y" if "y \<in> set ys" for y using Prim [of ys y] that Some by simp
    then show ?thesis using assms(2) Some by blast
  qed
qed (use assms in auto)

end
