(* ===== verification/ForgeConstants.thy ===== *)
theory ForgeConstants
  imports Micheline
begin

text \<open>
  The tables of \<open>taquito-local-forging/src/constants.ts\<close>: primitives and their codes,
  operation kinds, reserved entrypoints, and the names of the field codecs.
\<close>

definition ENTRYPOINT_MAX_LENGTH :: nat where
  "ENTRYPOINT_MAX_LENGTH = 31"

datatype (plugins only: size code) codec_id =
    CODEC_SECRET
  | CODEC_RAW
  | CODEC_TZ1
  | CODEC_BRANCH
  | CODEC_ZARITH
  | CODEC_PUBLIC_KEY
  | CODEC_PKH
  | CODEC_DELEGATE
  | CODEC_SCRIPT
  | CODEC_BALLOT_STATEMENT
  | CODEC_PROPOSAL
  | CODEC_PROPOSAL_ARR
  | CODEC_INT32
  | CODEC_INT16
  | CODEC_PARAMETERS
  | CODEC_ADDRESS
  | CODEC_SMART_CONTRACT_ADDRESS
  | CODEC_SMART_ROLLUP_ADDRESS
  | CODEC_SMART_ROLLUP_COMMITMENT_HASH
  | CODEC_VALUE
  | CODEC_PADDED_BYTES
  | CODEC_SMART_ROLLUP_MESSAGE
  | CODEC_MANAGER
  | CODEC_BLOCK_PAYLOAD_HASH
  | CODEC_ENTRYPOINT
  | CODEC_OPERATION
  | CODEC_OP_ACTIVATE_ACCOUNT
  | CODEC_OP_DELEGATION
  | CODEC_OP_TRANSACTION
  | CODEC_OP_ORIGINATION
  | CODEC_OP_BALLOT
  | CODEC_OP_ENDORSEMENT
  | CODEC_OP_SEED_NONCE_REVELATION
  | CODEC_OP_REVEAL
  | CODEC_OP_PROPOSALS
  | CODEC_OP_REGISTER_GLOBAL_CONSTANT
  | CODEC_OP_TRANSFER_TICKET
  | CODEC_OP_TX_ROLLUP_ORIGINATION
  | CODEC_OP_TX_ROLLUP_SUBMIT_BATCH
  | CODEC_BURN_LIMIT
  | CODEC_TX_ROLLUP_ORIGINATION_PARAM
  | CODEC_TX_ROLLUP_ID
  | CODEC_TX_ROLLUP_BATCH_CONTENT
  | CODEC_OP_INCREASE_PAID_STORAGE
  | CODEC_OP_UPDATE_CONSENSUS_KEY
  | CODEC_OP_DRAIN_DELEGATE
  | CODEC_DEPOSITS_LIMIT
  | CODEC_OP_SET_DEPOSITS_LIMIT
  | CODEC_OP_SMART_ROLLUP_ORIGINATE
  | CODEC_PVM_KIND
  | CODEC_OP_SMART_ROLLUP_ADD_MESSAGES
  | CODEC_OP_SMART_ROLLUP_EXECUTE_OUTBOX_MESSAGE

definition opMapping :: "(string \<times> string) list" where
  "opMapping = [
   (''00'', ''parameter''), (''01'', ''storage''), (''02'', ''code''), (''03'', ''False''), (''04'', ''Elt''),
   (''05'', ''Left''), (''06'', ''None''), (''07'', ''Pair''), (''08'', ''Right''), (''09'', ''Some''),
   (''0a'', ''True''), (''0b'', ''Unit''), (''0c'', ''PACK''), (''0d'', ''UNPACK''), (''0e'', ''BLAKE2B''),
   (''0f'', ''SHA256''), (''10'', ''SHA512''), (''11'', ''ABS''), (''12'', ''ADD''), (''13'', ''AMOUNT''),
   (''14'', ''AND''), (''15'', ''BALANCE''), (''16'', ''CAR''), (''17'', ''CDR''), (''18'', ''CHECK_SIGNATURE''),
   (''19'', ''COMPARE''), (''1a'', ''CONCAT''), (''1b'', ''CONS''), (''1c'', ''CREATE_ACCOUNT''), (''1d'', ''CREATE_CONTRACT''),
   (''1e'', ''IMPLICIT_ACCOUNT''), (''1f'', ''DIP''), (''20'', ''DROP''), (''21'', ''DUP''), (''22'', ''EDIV''),
   (''23'', ''EMPTY_MAP''), (''24'', ''EMPTY_SET''), (''25'', ''EQ''), (''26'', ''EXEC''), (''27'', ''FAILWITH''),
   (''28'', ''GE''), (''29'', ''GET''), (''2a'', ''GT''), (''2b'', ''HASH_KEY''), (''2c'', ''IF''),
   (''2d'', ''IF_CONS''), (''2e'', ''IF_LEFT''), (''2f'', ''IF_NONE''), (''30'', ''INT''), (''31'', ''LAMBDA''),
   (''32'', ''LE''), (''33'', ''LEFT''), (''34'', ''LOOP''), (''35'', ''LSL''), (''36'', ''LSR''),
   (''37'', ''LT''), (''38'', ''MAP''), (''39'', ''MEM''), (''3a'', ''MUL''), (''3b'', ''NEG''),
   (''3c'', ''NEQ''), (''3d'', ''NIL''), (''3e'', ''NONE''), (''3f'', ''NOT''), (''40'', ''NOW''),
   (''41'', ''OR''), (''42'', ''PAIR''), (''43'', ''PUSH''), (''44'', ''RIGHT''), (''45'', ''SIZE''),
   (''46'', ''SOME''), (''47'', ''SOURCE''), (''48'', ''SENDER''), (''49'', ''SELF''), (''4a'', ''STEPS_TO_QUOTA''),
   (''4b'', ''SUB''), (''4c'', ''SWAP''), (''4d'', ''TRANSFER_TOKENS''), (''4e'', ''SET_DELEGATE''), (''4f'', ''UNIT''),
   (''50'', ''UPDATE''), (''51'', ''XOR''), (''52'', ''ITER''), (''53'', ''LOOP_LEFT''), (''54'', ''ADDRESS''),
   (''55'', ''CONTRACT''), (''56'', ''ISNAT''), (''57'', ''CAST''), (''58'', ''RENAME''), (''59'', ''bool''),
   (''5a'', ''contract''), (''5b'', ''int''), (''5c'', ''key''), (''5d'', ''key_hash''), (''5e'', ''lambda''),
   (''5f'', ''list''), (''60'', ''map''), (''61'', ''big_map''), (''62'', ''nat''), (''63'', ''option''),
   (''64'', ''or''), (''65'', ''pair''), (''66'', ''set''), (''67'', ''signature''), (''68'', ''string''),
   (''69'', ''bytes''), (''6a'', ''mutez''), (''6b'', ''timestamp''), (''6c'', ''unit''), (''6d'', ''operation''),
   (''6e'', ''address''), (''6f'', ''SLICE''), (''70'', ''DIG''), (''71'', ''DUG''), (''72'', ''EMPTY_BIG_MAP''),
   (''73'', ''APPLY''), (''74'', ''chain_id''), (''75'', ''CHAIN_ID''), (''76'', ''LEVEL''), (''77'', ''SELF_ADDRESS''),
   (''78'', ''never''), (''79'', ''NEVER''), (''7a'', ''UNPAIR''), (''7b'', ''VOTING_POWER''), (''7c'', ''TOTAL_VOTING_POWER''),
   (''7d'', ''KECCAK''), (''7e'', ''SHA3''), (''7f'', ''PAIRING_CHECK''), (''80'', ''bls12_381_g1''), (''81'', ''bls12_381_g2''),
   (''82'', ''bls12_381_fr''), (''83'', ''sapling_state''), (''84'', ''sapling_transaction_deprecated''), (''85'', ''SAPLING_EMPTY_STATE''), (''86'', ''SAPLING_VERIFY_UPDATE''),
   (''87'', ''ticket''), (''88'', ''TICKET_DEPRECATED''), (''89'', ''READ_TICKET''), (''8a'', ''SPLIT_TICKET''), (''8b'', ''JOIN_TICKETS''),
   (''8c'', ''GET_AND_UPDATE''), (''8d'', ''chest''), (''8e'', ''chest_key''), (''8f'', ''OPEN_CHEST''), (''90'', ''VIEW''),
   (''91'', ''view''), (''92'', ''constant''), (''93'', ''SUB_MUTEZ''), (''94'', ''tx_rollup_l2_address''), (''95'', ''MIN_BLOCK_TIME''),
   (''96'', ''sapling_transaction''), (''97'', ''EMIT''), (''98'', ''Lambda_rec''), (''99'', ''LAMBDA_REC''), (''9a'', ''TICKET''),
   (''9b'', ''BYTES''), (''9c'', ''NAT'')]"

text \<open>\<open>result[opMapping[key]] = key\<close> for every key: a later key would win.\<close>

definition opMappingReverse :: "(string \<times> string) list" where
  "opMappingReverse = rev (map (\<lambda>(k, v). (v, k)) opMapping)"

definition kindMapping :: "(nat \<times> string) list" where
  "kindMapping = [
   (4, ''activate_account''), (107, ''reveal''), (110, ''delegation''),
   (108, ''transaction''), (109, ''origination''), (6, ''ballot''),
   (21, ''endorsement''), (1, ''seed_nonce_revelation''), (5, ''proposals''),
   (111, ''register_global_constant''), (150, ''tx_rollup_origination''), (151, ''tx_rollup_submit_batch''),
   (158, ''transfer_ticket''), (112, ''set_deposits_limit''), (113, ''increase_paid_storage''),
   (114, ''update_consensus_key''), (9, ''drain_delegate''), (200, ''smart_rollup_originate''),
   (201, ''smart_rollup_add_messages''), (206, ''smart_rollup_execute_outbox_message'')]"

text \<open>\<open>pad(keyNum, 2)\<close> of every key, which all fit.\<close>

definition kindMappingReverse :: "(string \<times> string) list" where
  "kindMappingReverse = rev (map (\<lambda>(k, v). (v, padStart 2 (digits 16 k))) kindMapping)"

definition entrypointMapping :: "(string \<times> string) list" where
  "entrypointMapping = [
   (''00'', ''default''), (''01'', ''root''), (''02'', ''do''),
   (''03'', ''set_delegate''), (''04'', ''remove_delegate''), (''05'', ''deposit'')]"

definition entrypointMappingReverse :: "(string \<times> string) list" where
  "entrypointMappingReverse = rev (map (\<lambda>(k, v). (v, k)) entrypointMapping)"

section \<open>The tables are inverse to each other\<close>

lemma opMapping_length: "length opMapping = 157"
  by (simp add: opMapping_def)

lemma opMapping_keys: "map fst opMapping = map (\<lambda>i. fixd 16 2 i) [0..<157]"
  by (simp add: opMapping_def upt_conv_Cons numeral_2_eq_2 dig_def)

lemma map_of_swap:
  assumes "distinct (map fst xs)" "map_of (rev (map (\<lambda>(k, v). (v, k)) xs)) p = Some k"
  shows "map_of xs k = Some p"
proof -
  have "(p, k) \<in> set (rev (map (\<lambda>(k, v). (v, k)) xs))" using assms(2) by (rule map_of_SomeD)
  then have "(k, p) \<in> set xs" by auto
  with assms(1) show ?thesis by simp
qed

lemma fixd_16_2: "n < 256 \<Longrightarrow> fixd 16 2 n = hex_byte (of_nat n)"
  using hexOf_be_bytes [of 1 n] by simp

lemma opMapping_keys_hex: "map fst opMapping = map (\<lambda>i. hex_byte (of_nat i)) [0..<157]"
  by (simp add: opMapping_keys fixd_16_2)

lemma opMapping_distinct: "distinct (map fst opMapping)"
proof -
  have "inj_on (\<lambda>i. hex_byte (of_nat i)) (set [0..<157])"
  proof (rule inj_onI)
    fix x y assume "x \<in> set [0..<157]" "y \<in> set [0..<157]"
      and "hex_byte (of_nat x) = hex_byte (of_nat y)"
    then have "unat (of_nat x :: byte) = unat (of_nat y :: byte)" by (simp add: hex_byte_inj)
    moreover have "x < 256" "y < 256" using \<open>x \<in> _\<close> \<open>y \<in> _\<close> by simp_all
    ultimately show "x = y" by (simp add: unat_of_nat take_bit_eq_mod)
  qed
  then show ?thesis by (simp add: opMapping_keys_hex distinct_map)
qed

lemma opMappingReverse_sound:
  assumes "map_of opMappingReverse p = Some k"
  shows "map_of opMapping k = Some p" and "\<exists>b. k = hex_byte b"
proof -
  show *: "map_of opMapping k = Some p"
    using assms map_of_swap [OF opMapping_distinct] by (simp add: opMappingReverse_def)
  have "k \<in> set (map fst opMapping)" using map_of_SomeD [OF *] by force
  then show "\<exists>b. k = hex_byte b" by (auto simp: opMapping_keys_hex)
qed

end
