(* ===== verification/Consumer.thy ===== *)
theory Consumer
  imports Environment
begin

text \<open>
  The byte reader of \<open>taquito-local-forging\<close> (\<open>uint8array-consumer.ts\<close>, \<open>utils.ts\<close>), and
  the interface between an encoder and its decoder as the locale \<open>codec\<close>: what is
  written is read back, wherever it stands in the input.
\<close>

section \<open>The reader\<close>

record consumer =
  arr :: "byte list"
  offset :: nat

definition mkConsumer :: "byte list \<Rightarrow> consumer" where
  "mkConsumer bs = \<lparr>arr = bs, offset = 0\<rparr>"

definition fromHexString :: "string \<Rightarrow> consumer res" where
  "fromHexString hex =
     (let lowHex = toLowerCase hex in
      if hex_text lowHex then Inr (mkConsumer (unhex lowHex))
      else Inl (InvalidHexStringError lowHex))"

definition consume :: "nat \<Rightarrow> consumer \<Rightarrow> (byte list \<times> consumer) res" where
  "consume count c =
     (let subArr = take count (drop (offset c) (arr c)) in
      if length subArr \<noteq> count then Inl (NotEnoughBytes count (length subArr))
      else Inr (subArr, c\<lparr>offset := offset c + count\<rparr>))"

text \<open>\<open>get(idx)\<close> reads without moving; past the end it is \<open>undefined\<close>.\<close>

definition cget :: "nat \<Rightarrow> consumer \<Rightarrow> byte option" where
  "cget idx c = (if offset c + idx < length (arr c) then Some (arr c ! (offset c + idx)) else None)"

definition clen :: "consumer \<Rightarrow> nat" where
  "clen c = length (arr c) - offset c"

definition cslice :: "nat \<Rightarrow> consumer \<Rightarrow> consumer" where
  "cslice start c = mkConsumer (drop start (arr c))"

definition consumer_ok :: "consumer \<Rightarrow> bool" where
  "consumer_ok c \<longleftrightarrow> offset c \<le> length (arr c)"

text \<open>\<open>pad(num, paddingLen)\<close>; \<open>pad_half\<close> is \<open>pad(l / 2, paddingLen)\<close> for a text length \<open>l\<close>,
  whose hexadecimal form ends in \<open>.8\<close> when \<open>l\<close> is odd.\<close>

definition pad :: "nat \<Rightarrow> nat \<Rightarrow> string res" where
  "pad num paddingLen =
     (let ret = padStart paddingLen (digits 16 num) in
      if length ret \<noteq> paddingLen then Inl (PadLength paddingLen (length ret)) else Inr ret)"

definition half_text :: "nat \<Rightarrow> string" where
  "half_text l = digits 16 (l div 2) @ (if odd l then ''.8'' else [])"

definition pad_half :: "nat \<Rightarrow> nat \<Rightarrow> string res" where
  "pad_half l paddingLen =
     (let ret = padStart paddingLen (half_text l) in
      if length ret \<noteq> paddingLen then Inl (PadLength paddingLen (length ret)) else Inr ret)"

definition toHexString :: "byte list \<Rightarrow> string" where
  "toHexString bs = foldl (\<lambda>str b. str @ padStart 2 (digits 16 (unat b))) [] bs"

lemma toHexString_hexOf: "toHexString bs = hexOf bs"
proof -
  have "foldl (\<lambda>str b. str @ padStart 2 (digits 16 (unat b))) acc bs = acc @ hexOf bs" for acc
    by (induction bs arbitrary: acc) (simp_all add: hex_byte_digits)
  then show ?thesis by (simp add: toHexString_def)
qed

section \<open>Reading what lies ahead\<close>

definition ahead :: "consumer \<Rightarrow> byte list \<Rightarrow> bool" where
  "ahead c bs \<longleftrightarrow> take (length bs) (drop (offset c) (arr c)) = bs"

definition adv :: "nat \<Rightarrow> consumer \<Rightarrow> consumer" where
  "adv n c = c\<lparr>offset := offset c + n\<rparr>"

named_theorems reading "what a reader sees ahead of it"

lemma adv_simps [simp]:
  "adv 0 c = c" "adv m (adv n c) = adv (n + m) c"
  "arr (adv n c) = arr c" "offset (adv n c) = offset c + n"
  by (simp_all add: adv_def add.assoc)

lemma ahead_Nil [simp]: "ahead c []"
  by (simp add: ahead_def)

lemma ahead_append [reading]:
  "ahead c (xs @ ys) \<longleftrightarrow> ahead c xs \<and> ahead (adv (length xs) c) ys"
proof -
  have "take (length xs + length ys) z = xs @ ys \<longleftrightarrow>
      take (length xs) z = xs \<and> take (length ys) (drop (length xs) z) = ys" for z :: "byte list"
    by (metis add_diff_cancel_left' append_eq_conv_conj append_take_drop_id drop_take
        length_append take_add take_take min.absorb1 le_add1)
  from this [of "drop (offset c) (arr c)"] show ?thesis by (simp add: ahead_def add.commute)
qed

lemma ahead_Cons [reading]: "ahead c (b # bs) \<longleftrightarrow> ahead c [b] \<and> ahead (adv 1 c) bs"
  using ahead_append [of c "[b]" bs] by simp

lemma ahead_mk [simp]: "ahead (mkConsumer bs) bs"
  by (simp add: ahead_def mkConsumer_def)

lemma ahead_len: "ahead c bs \<Longrightarrow> length bs \<le> clen c"
  unfolding ahead_def clen_def by (metis length_drop length_take min.cobounded1 min.commute)

lemma consume_ahead: "ahead c bs \<Longrightarrow> length bs = n \<Longrightarrow> consume n c = Inr (bs, adv n c)"
  by (auto simp: ahead_def consume_def adv_def Let_def)

lemma consume1_ahead: "ahead c [b] \<Longrightarrow> consume (Suc 0) c = Inr ([b], adv (Suc 0) c)"
  by (simp add: consume_ahead)

lemma consume_Inr:
  "consume n c = Inr (bs, c') \<longleftrightarrow> length bs = n \<and> ahead c bs \<and> c' = adv n c"
  by (auto simp: consume_def Let_def ahead_def adv_def)

lemma consume_Inl: "(\<exists>e. consume n c = Inl e) \<longleftrightarrow> clen c < n"
  by (auto simp: consume_def Let_def clen_def)

lemma consume_total: "n \<le> clen c \<Longrightarrow> \<exists>bs. consume n c = Inr (bs, adv n c)"
  by (auto simp: consume_def Let_def clen_def adv_def)

lemma adv_clen [simp]: "clen (adv n c) = clen c - n"
  by (simp add: clen_def)

lemma clen_mk [simp]: "clen (mkConsumer bs) = length bs"
  by (simp add: clen_def mkConsumer_def)

lemma cget_ahead:
  assumes "ahead c bs" "i < length bs"
  shows "cget i c = Some (bs ! i)"
proof -
  have "i < clen c" using ahead_len [OF assms(1)] assms(2) by simp
  then have "offset c + i < length (arr c)" by (simp add: clen_def)
  moreover have "bs ! i = take (length bs) (drop (offset c) (arr c)) ! i"
    using assms(1) by (simp add: ahead_def)
  ultimately show ?thesis using assms(2) by (simp add: cget_def)
qed

lemma fromHexString_hexOf [simp]: "fromHexString (hexOf bs) = Inr (mkConsumer bs)"
  by (simp add: fromHexString_def)

lemma pad_hex: "n < 256 ^ k \<Longrightarrow> 1 \<le> k \<Longrightarrow> pad n (2 * k) = Inr (hexOf (be_bytes k n))"
  by (simp add: pad_def padStart_hex)

lemma pad8 [simp]: "pad n 8 = Inr s \<longleftrightarrow> n < 256 ^ 4 \<and> s = hexOf (be_bytes 4 n)"
proof (cases "n < 256 ^ 4")
  case True
  with pad_hex [of n 4] show ?thesis by auto
next
  case False
  then have "\<not> length (digits 16 n) \<le> 8" using digits_length [of 16 8 n] by simp
  with False show ?thesis by (simp add: pad_def padStart_length Let_def)
qed

lemma pad_half_even: "even l \<Longrightarrow> pad_half l k = pad (l div 2) k"
  by (simp add: pad_half_def pad_def half_text_def)

lemma pad_half_hexOf [simp]: "pad_half (2 * n) k = pad n k"
  by (simp add: pad_half_even)

section \<open>The interface between an encoder and its decoder\<close>

locale codec =
  fixes enc :: "'a \<Rightarrow> string res"
    and dec :: "consumer \<Rightarrow> ('a \<times> consumer) res"
    and good :: "'a \<Rightarrow> bool"
  assumes reads_back: "good v \<Longrightarrow> enc v = Inr s \<Longrightarrow>
    \<exists>bs. s = hexOf bs \<and> (\<forall>c. ahead c bs \<longrightarrow> dec c = Inr (v, adv (length bs) c))"
begin

lemma encoded_is_hex: "good v \<Longrightarrow> enc v = Inr s \<Longrightarrow> hex_text s"
  using reads_back by fastforce

lemma reads_text:
  assumes "good v" "enc v = Inr s"
  shows "\<exists>c c'. fromHexString s = Inr c \<and> dec c = Inr (v, c') \<and> clen c' = 0"
proof -
  obtain bs where bs: "s = hexOf bs" "\<forall>c. ahead c bs \<longrightarrow> dec c = Inr (v, adv (length bs) c)"
    using reads_back [OF assms] by blast
  then have "dec (mkConsumer bs) = Inr (v, adv (length bs) (mkConsumer bs))" by simp
  with bs(1) show ?thesis by (metis adv_clen clen_mk diff_self_eq_0 fromHexString_hexOf)
qed

lemma prefix_free:
  assumes "good v" "enc v = Inr s" "good w" "enc w = Inr t" "s @ x = t @ y"
  shows "v = w"
proof -
  obtain bs where bs: "s = hexOf bs" "\<forall>c. ahead c bs \<longrightarrow> dec c = Inr (v, adv (length bs) c)"
    using reads_back [OF assms(1,2)] by blast
  obtain ds where ds: "t = hexOf ds" "\<forall>c. ahead c ds \<longrightarrow> dec c = Inr (w, adv (length ds) c)"
    using reads_back [OF assms(3,4)] by blast
  have pre: "\<exists>r. q = p @ r" if "hexOf p @ u = hexOf q @ z" "length p \<le> length q"
    for p q :: "byte list" and u z
  proof -
    have "hexOf p = take (length (hexOf p)) (hexOf q)"
      using that by (metis append_eq_append_conv_if append_eq_conv_conj hexOf_length mult_le_mono2 take_all_iff)
    also have "\<dots> = hexOf (take (length p) q)"
    proof -
      have "hexOf q = hexOf (take (length p) q) @ hexOf (drop (length p) q)"
        by (metis append_take_drop_id hexOf_simps(3))
      moreover have "length (hexOf (take (length p) q)) = length (hexOf p)" using that(2) by simp
      ultimately show ?thesis by (metis append_eq_conv_conj)
    qed
    finally have "p = take (length p) q" by (simp add: hexOf_inj)
    then show ?thesis by (metis append_take_drop_id)
  qed
  have both: "\<exists>c. ahead c bs \<and> ahead c ds"
  proof (cases "length bs \<le> length ds")
    case True
    then obtain r where "ds = bs @ r" using pre assms(5) bs(1) ds(1) by metis
    then show ?thesis using ahead_mk [of ds] ahead_append by metis
  next
    case False
    then obtain r where "bs = ds @ r" using pre [of ds y bs x] assms(5) bs(1) ds(1) by auto
    then show ?thesis using ahead_mk [of bs] ahead_append by metis
  qed
  with bs(2) ds(2) show ?thesis by (metis Inr_inject prod.inject)
qed

lemma enc_inj: "good v \<Longrightarrow> enc v = Inr s \<Longrightarrow> good w \<Longrightarrow> enc w = Inr s \<Longrightarrow> v = w"
  using prefix_free [of v s w s "[]" "[]"] by simp

end

text \<open>The interface of a whole document: text in, text out, up to a normal form.\<close>

locale text_codec =
  fixes enc :: "'a \<Rightarrow> 'e + 't"
    and dec :: "'t \<Rightarrow> 'e + 'b"
    and norm :: "'a \<Rightarrow> 'b"
    and good :: "'a \<Rightarrow> bool"
  assumes parses_back: "good v \<Longrightarrow> enc v = Inr s \<Longrightarrow> dec s = Inr (norm v)"
begin

lemma same_text: "good v \<Longrightarrow> enc v = Inr s \<Longrightarrow> good w \<Longrightarrow> enc w = Inr s \<Longrightarrow> norm v = norm w"
  using parses_back by (metis Inr_inject)

lemma never_rejected: "good v \<Longrightarrow> enc v = Inr s \<Longrightarrow> dec s \<noteq> Inl e"
  using parses_back by simp

end

definition decode_text :: "(consumer \<Rightarrow> ('a \<times> consumer) res) \<Rightarrow> string \<Rightarrow> 'a res" where
  "decode_text dec s = bindR (fromHexString s) (\<lambda>c. bindR (dec c) (\<lambda>(v, _). Inr v))"

text \<open>A codec on bytes is a codec on text.\<close>

sublocale codec \<subseteq> whole: text_codec enc "decode_text dec" "\<lambda>v. v" good
proof
  fix v s assume "good v" "enc v = Inr s"
  then obtain c c' where "fromHexString s = Inr c" "dec c = Inr (v, c')" using reads_text by blast
  then show "decode_text dec s = Inr v" by (simp add: decode_text_def)
qed

end
