(* ===== verification/Zarith.thy ===== *)
theory Zarith
  imports Consumer
begin

text \<open>
  The variable-length numbers of the Tezos binary format, as an abstract specification
  on bytes: seven bits per byte, least significant group first, the high bit set on every
  byte but the last; signed numbers keep their sign in bit 6 of the first byte.  The
  encoders and decoders of the packages are proved to compute these.
\<close>

unbundle bit_operations_syntax

section \<open>Specification\<close>

definition byte_of :: "nat \<Rightarrow> byte" where
  "byte_of n = of_nat n"

lemma unat_byte_of [simp]: "unat (byte_of n) = n mod 256"
  by (simp add: byte_of_def unat_of_nat take_bit_eq_mod)

lemma byte_of_unat [simp]: "byte_of (unat b) = b"
  by (simp add: byte_of_def)

function leb :: "nat \<Rightarrow> byte list" where
  "leb m = (if m < 128 then [byte_of m] else byte_of (m mod 128 + 128) # leb (m div 128))"
  by pat_completeness auto
termination
  by (relation "measure id") (auto intro: div_less_dividend)

declare leb.simps [simp del]

definition sleb :: "bool \<Rightarrow> nat \<Rightarrow> byte list" where
  "sleb neg m =
     (if m < 64 then [byte_of (m + (if neg then 64 else 0))]
      else byte_of (m mod 64 + (if neg then 64 else 0) + 128) # leb (m div 64))"

text \<open>Reading back: the groups up to and including the first byte with a clear high bit.\<close>

fun leb_val :: "byte list \<Rightarrow> nat" where
  "leb_val [] = 0"
| "leb_val (b # bs) = unat b mod 128 + 128 * leb_val bs"

definition sleb_val :: "byte list \<Rightarrow> nat" where
  "sleb_val bs = (case bs of [] \<Rightarrow> 0 | b # r \<Rightarrow> unat b mod 64 + 64 * leb_val r)"

definition more :: "byte \<Rightarrow> bool" where
  "more b \<longleftrightarrow> 128 \<le> unat b"

definition chunked :: "byte list \<Rightarrow> bool" where
  "chunked bs \<longleftrightarrow> bs \<noteq> [] \<and> list_all more (butlast bs) \<and> \<not> more (last bs)"

lemma and_128_more: "(b AND 128 \<noteq> (0 :: byte)) = more b"
proof -
  have "b AND 128 = 0 \<longleftrightarrow> \<not> bit b 7"
    using and_exp_eq_0_iff_not_bit [of b 7] by simp
  moreover have "bit b 7 \<longleftrightarrow> 128 \<le> unat b"
  proof -
    have "bit b 7 = bit (unat b) 7" by (simp add: bit_unsigned_iff)
    then have "bit b 7 = odd (unat b div 2 ^ 7)" by (simp only: bit_iff_odd)
    also have "\<dots> \<longleftrightarrow> 128 \<le> unat b"
    proof -
      have "unat b div 128 < 2" using byte_lt [of b] by (simp add: div_less_iff_less_mult)
      then have "unat b div 128 = 0 \<or> unat b div 128 = 1" by linarith
      then show ?thesis by (auto simp: div_eq_0_iff)
    qed
    finally show ?thesis .
  qed
  ultimately show ?thesis by (simp add: more_def)
qed

lemma and_127_mod: "unat (b AND 127 :: byte) = unat b mod 128"
proof -
  have "b AND 127 = take_bit 7 b"
    by (simp add: take_bit_eq_mask mask_eq_exp_minus_1)
  then show ?thesis by (simp add: unsigned_take_bit_eq take_bit_eq_mod [of 7 "unat b"])
qed

lemma leb_chunked: "chunked (leb m)"
proof (induction m rule: leb.induct)
  case (1 m)
  show ?case
  proof (cases "m < 128")
    case True
    then show ?thesis by (simp add: leb.simps [of m] chunked_def more_def)
  next
    case False
    with "1.IH" have ih: "chunked (leb (m div 128))" by simp
    have "(m mod 128 + 128) mod 256 = m mod 128 + 128" by simp
    with False ih show ?thesis
      by (simp add: leb.simps [of m] chunked_def more_def)
  qed
qed

lemma leb_val_leb: "leb_val (leb m) = m"
proof (induction m rule: leb.induct)
  case (1 m)
  show ?case
  proof (cases "m < 128")
    case True
    then show ?thesis by (simp add: leb.simps [of m])
  next
    case False
    with "1.IH" have ih: "leb_val (leb (m div 128)) = m div 128" by simp
    have "(m mod 128 + 128) mod 256 = m mod 128 + 128" by simp
    with False ih show ?thesis
      by (simp add: leb.simps [of m])
  qed
qed

lemma low_group:
  "(m mod 64 + (if neg then 64 else 0) + 128) mod 256 = m mod 64 + (if neg then 64 else 0) + (128 :: nat)"
  "(m mod 64 + (if neg then 64 else 0) + 128) mod 64 = m mod (64 :: nat)"
  "(m mod 64 + (if neg then 64 else 0) + 128) div 64 mod 2 = (if neg then 1 else (0 :: nat))"
proof -
  have r: "m mod 64 < 64" by simp
  then show "(m mod 64 + (if neg then 64 else 0) + 128) mod 256 = m mod 64 + (if neg then 64 else 0) + (128 :: nat)"
    by simp
  have "(m mod 64 + 64 * k) mod 64 = m mod 64" "(m mod 64 + 64 * k) div 64 = k" for k
    using r by simp_all
  from this [of 2] this [of 3] show
    "(m mod 64 + (if neg then 64 else 0) + 128) mod 64 = m mod (64 :: nat)"
    "(m mod 64 + (if neg then 64 else 0) + 128) div 64 mod 2 = (if neg then 1 else (0 :: nat))"
    by (cases neg; simp add: add.assoc)+
qed

lemma sleb_chunked: "chunked (sleb neg m)"
proof (cases "m < 64")
  case True
  then show ?thesis by (simp add: sleb_def chunked_def more_def)
next
  case False
  have "m mod 64 < 64" by simp
  then have "128 \<le> (m mod 64 + (if neg then 64 else 0) + 128) mod 256" by simp
  with False leb_chunked [of "m div 64"] show ?thesis
    by (simp add: sleb_def chunked_def more_def)
qed

lemma sleb_val_sleb: "sleb_val (sleb neg m) = m"
proof (cases "m < 64")
  case True
  then have "(m + (if neg then 64 else 0)) mod 256 mod 64 = m" by auto
  with True show ?thesis by (simp add: sleb_def sleb_val_def)
next
  case False
  then show ?thesis
    by (simp add: sleb_def sleb_val_def leb_val_leb low_group split del: if_split)
qed

lemma sleb_sign: "unat (hd (sleb neg m)) div 64 mod 2 = (if neg then 1 else 0)"
proof (cases "m < 64")
  case True
  then have "(m + 64) div 64 = 1" by (simp add: div_add_self2)
  with True show ?thesis by (simp add: sleb_def)
next
  case False
  then show ?thesis by (simp add: sleb_def low_group split del: if_split)
qed

lemma leb_ne [simp]: "leb m \<noteq> []" "sleb neg m \<noteq> []"
  using leb_chunked [of m] sleb_chunked [of neg m] by (simp_all add: chunked_def)

text \<open>The groups of a number at fixed positions, for the encoders that work on its digits.\<close>

lemma leb_groups:
  assumes "m < 128 ^ k" "128 ^ (k - 1) \<le> m" "0 < k"
  shows "leb m = map (\<lambda>i. byte_of (m div 128 ^ i mod 128 + (if i < k - 1 then 128 else 0))) [0..<k]"
  using assms
proof (induction k arbitrary: m)
  case 0
  then show ?case by simp
next
  case (Suc k)
  show ?case
  proof (cases "k = 0")
    case True
    with Suc.prems show ?thesis by (simp add: leb.simps [of m])
  next
    case False
    then have k: "0 < k" by simp
    have ge: "128 \<le> m"
      using Suc.prems(2) k power_increasing [of 1 k "128 :: nat"] by simp
    have "m div 128 < 128 ^ k" using Suc.prems(1) by (simp add: div_less_iff_less_mult mult.commute)
    moreover have "128 ^ (k - 1) \<le> m div 128"
    proof -
      have "128 ^ k = 128 * (128 :: nat) ^ (k - 1)" using k by (metis Suc_diff_1 power_Suc)
      with Suc.prems(2) show ?thesis by (simp add: less_eq_div_iff_mult_less_eq mult.commute)
    qed
    ultimately have ih: "leb (m div 128) =
        map (\<lambda>i. byte_of (m div 128 div 128 ^ i mod 128 + (if i < k - 1 then 128 else 0))) [0..<k]"
      using Suc.IH k by blast
    have up: "[0..<Suc k] = 0 # map Suc [0..<k]"
      by (simp add: map_Suc_upt upt_conv_Cons)
    have "leb m = byte_of (m mod 128 + 128) # leb (m div 128)"
      using ge by (simp add: leb.simps [of m])
    also have "\<dots> = map (\<lambda>i. byte_of (m div 128 ^ i mod 128 + (if i < Suc k - 1 then 128 else 0))) [0..<Suc k]"
      unfolding up ih using k by (auto simp: div_mult2_eq)
    finally show ?thesis .
  qed
qed

end
