(* ===== verification/ForgeMichelson.thy ===== *)
theory ForgeMichelson
  imports ForgeConstants Zarith
begin

text \<open>
  The binary codec of Micheline values in \<open>taquito-local-forging/src/michelson/codec.ts\<close>:
  the encoder writes hexadecimal text, the decoder reads a consumer.  A decoder that calls
  itself takes fuel, one unit per call; \<open>valueDecoder\<close> is given enough for its input.
\<close>

section \<open>Encoders\<close>

definition isPrim :: "expr \<Rightarrow> bool" where
  "isPrim v = (case v of Prim _ _ _ \<Rightarrow> True | _ \<Rightarrow> False)"

definition isBytes :: "expr \<Rightarrow> bool" where
  "isBytes v = (case v of BytesLit _ \<Rightarrow> True | _ \<Rightarrow> False)"

definition isString :: "expr \<Rightarrow> bool" where
  "isString v = (case v of StringLit _ \<Rightarrow> True | _ \<Rightarrow> False)"

definition isInt :: "expr \<Rightarrow> bool" where
  "isInt v = (case v of IntLit _ \<Rightarrow> True | _ \<Rightarrow> False)"

definition bytesEncoder :: "string \<Rightarrow> string res" where
  "bytesEncoder bytes =
     (if \<not> hex_text bytes then Inl (InvalidHexStringError bytes)
      else bindR (pad_half (length bytes) 8) (\<lambda>len. Inr (''0a'' @ len @ bytes)))"

definition stringEncoder :: "string \<Rightarrow> string res" where
  "stringEncoder string =
     (let str = hexOf (utf8_encode string) in
      bindR (pad_half (length str) 8) (\<lambda>len. Inr (''01'' @ len @ str)))"

text \<open>\<open>match(/\d{6,7}/g)\<close>: from the left, seven digits where there are seven, else six.\<close>

function chunk67 :: "string \<Rightarrow> string list" where
  "chunk67 s = (if 7 \<le> length s then take 7 s # chunk67 (drop 7 s)
                else if length s = 6 then [s] else [])"
  by pat_completeness auto
termination
  by (relation "measure length") auto

declare chunk67.simps [simp del]

text \<open>The chunks, least significant first, as bytes: every one but the last is marked.\<close>

fun mark_chunks :: "string list \<Rightarrow> string list" where
  "mark_chunks [] = []"
| "mark_chunks [x] = [padStart 2 (digits 16 (of_digits 2 (CHR ''0'' # x)))]"
| "mark_chunks (x # y # xs) = padStart 2 (digits 16 (of_digits 2 (CHR ''1'' # x))) # mark_chunks (y # xs)"

definition intEncoder :: "libs \<Rightarrow> string \<Rightarrow> string res" where
  "intEncoder L text =
     (case bn_parse L text of
        None \<Rightarrow> Inl (TypeErr ''reverse of null'')
      | Some num \<Rightarrow>
          let positiveMark = (if num < 0 then CHR ''1'' else CHR ''0'');
              binary = digits 2 (nat \<bar>num\<bar>);
              padn = (if length binary \<le> 6 then 6
                      else if (length binary - 6) mod 7 \<noteq> 0
                        then length binary + 7 - (length binary - 6) mod 7
                      else length binary);
              splitted = chunk67 (padStart padn binary);
              reversed = (case rev splitted of [] \<Rightarrow> [] | r # rs \<Rightarrow> (positiveMark # r) # rs)
          in Inr (''00'' @ concat (mark_chunks reversed)))"

definition encodeAnnots :: "string list \<Rightarrow> string res" where
  "encodeAnnots value =
     (let mergedAnnot = joinWith ''20'' (map (\<lambda>x. hexOf (utf8_encode x)) value) in
      bindR (pad_half (length mergedAnnot) 8) (\<lambda>len. Inr (len @ mergedAnnot)))"

definition is_lambda :: "string \<Rightarrow> bool" where
  "is_lambda p \<longleftrightarrow> p = ''LAMBDA'' \<or> p = ''LAMBDA_REC''"

definition is_pair :: "string \<Rightarrow> bool" where
  "is_pair p \<longleftrightarrow> p = ''pair'' \<or> p = ''Pair''"

text \<open>The tail of \<open>primEncoder\<close>: the arguments are encoded, the length prefixes of
  \<open>LAMBDA\<close>, of long pairs and of \<open>view\<close> are put around them, one after the other.\<close>

definition wrap_len :: "string \<Rightarrow> bool \<Rightarrow> string res" where
  "wrap_len args zero =
     bindR (pad_half (length args) 8) (\<lambda>len.
       if zero then bindR (pad 0 8) (\<lambda>z. Inr (len @ args @ z)) else Inr (len @ args))"

definition finishPrim :: "string \<Rightarrow> nat \<Rightarrow> bool \<Rightarrow> string \<Rightarrow> string \<Rightarrow> string res" where
  "finishPrim prim argsCount hasArgs encodedArgs encodedAnnots =
     bindR (if is_lambda prim \<and> argsCount \<noteq> 0 then wrap_len encodedArgs True else Inr encodedArgs) (\<lambda>a1.
     bindR (if is_pair prim \<and> argsCount > 2 then wrap_len a1 (encodedAnnots = []) else Inr a1) (\<lambda>a2.
     bindR (if prim = ''view'' \<and> hasArgs then wrap_len a2 True else Inr a2) (\<lambda>a3.
     Inr (a3 @ encodedAnnots))))"

fun valueEncoder :: "libs \<Rightarrow> expr \<Rightarrow> string res" where
  "valueEncoder L (Seq xs) =
     bindR (mapR (valueEncoder L) xs) (\<lambda>es.
       let encoded = concat es in
       bindR (pad_half (length encoded) 8) (\<lambda>len. Inr (''02'' @ len @ encoded)))"
| "valueEncoder L (Prim prim args annots) =
     (let hasAnnot = (if annots = None then 0 else 1);
          argsCount = (case args of None \<Rightarrow> 0 | Some xs \<Rightarrow> length xs) in
      bindR (pad (min (2 * argsCount + hasAnnot + 3) 9) 2) (\<lambda>preamble.
        case map_of opMappingReverse prim of
          None \<Rightarrow> Inl (InvalidPrim prim)
        | Some op \<Rightarrow>
            bindR (case args of None \<Rightarrow> Inr [] | Some xs \<Rightarrow> mapR (valueEncoder L) xs) (\<lambda>es.
            bindR (case annots of None \<Rightarrow> Inr [] | Some as \<Rightarrow> encodeAnnots as) (\<lambda>encodedAnnots.
            bindR (finishPrim prim argsCount (args \<noteq> None) (concat es) encodedAnnots) (\<lambda>rest.
            Inr (preamble @ op @ rest))))))"
| "valueEncoder L (BytesLit b) = bytesEncoder b"
| "valueEncoder L (StringLit s) = stringEncoder s"
| "valueEncoder L (IntLit i) = intEncoder L i"

definition scriptEncoder :: "libs \<Rightarrow> expr \<Rightarrow> expr \<Rightarrow> string res" where
  "scriptEncoder L code storage =
     bindR (valueEncoder L code) (\<lambda>c.
     bindR (valueEncoder L storage) (\<lambda>s.
     bindR (pad_half (length c) 8) (\<lambda>lc.
     bindR (pad_half (length s) 8) (\<lambda>ls.
     Inr (lc @ c @ ls @ s)))))"

section \<open>Decoders\<close>

text \<open>\<open>parseInt(Buffer.from(len).toString('hex'), 16)\<close>; on no bytes it is NaN, and
  \<open>consume(NaN)\<close> throws.\<close>

definition extractRequiredLen :: "nat \<Rightarrow> consumer \<Rightarrow> (byte list \<times> consumer) res" where
  "extractRequiredLen bytesLength c =
     bindR (consume bytesLength c) (\<lambda>(len, c1).
       case js_parseInt 16 (hexOf len) of
         None \<Rightarrow> Inl (NotEnoughBytes 0 0)
       | Some valueLen \<Rightarrow> consume (nat valueLen) c1)"

text \<open>The items of an array, each after its length; the reader restarts behind every item.\<close>

fun stripLengthPrefixFromBytes :: "nat \<Rightarrow> nat \<Rightarrow> consumer \<Rightarrow> byte list list res" where
  "stripLengthPrefixFromBytes 0 bytesLength values = Inl OutOfFuel"
| "stripLengthPrefixFromBytes (Suc fuel) bytesLength values =
     (if clen values = 0 then Inr []
      else bindR (consume bytesLength values) (\<lambda>(len, c1).
        case js_parseInt 16 (hexOf len) of
          None \<Rightarrow> Inl (NotEnoughBytes 0 0)
        | Some valueLen \<Rightarrow>
            bindR (consume (nat valueLen) c1) (\<lambda>(item, c2).
            bindR (stripLengthPrefixFromBytes fuel bytesLength (cslice (nat valueLen + bytesLength) c2))
              (\<lambda>ret. Inr (item # ret)))))"

definition bytesDecoder :: "consumer \<Rightarrow> (expr \<times> consumer) res" where
  "bytesDecoder c = bindR (extractRequiredLen 4 c) (\<lambda>(bytes, c1). Inr (BytesLit (hexOf bytes), c1))"

definition stringDecoder :: "consumer \<Rightarrow> (expr \<times> consumer) res" where
  "stringDecoder c = bindR (extractRequiredLen 4 c) (\<lambda>(str, c1). Inr (StringLit (utf8_decode str), c1))"

text \<open>The bytes of a number: up to the first one without the continuation bit.\<close>

function intChunks :: "consumer \<Rightarrow> (byte list \<times> consumer) res" where
  "intChunks c =
     bindR (consume 1 c) (\<lambda>(b, c1).
       if hd b AND 128 \<noteq> 0 then bindR (intChunks c1) (\<lambda>(bs, c2). Inr (hd b # bs, c2))
       else Inr ([hd b], c1))"
  by pat_completeness auto
termination
proof (relation "measure clen", simp)
  fix c :: consumer and x b c1
  assume "consume 1 c = Inr x" and x: "(b, c1) = x" and "hd b AND 128 \<noteq> 0"
  then have "ahead c b" "length b = 1" "c1 = adv 1 c" by (auto simp: consume_Inr)
  then show "(c1, c) \<in> measure clen" using ahead_len [of c b] by simp
qed

declare intChunks.simps [simp del]

definition slice_end :: "nat \<Rightarrow> string \<Rightarrow> string" where
  "slice_end k s = drop (length s - k) s"

text \<open>One group of binary digits: \<open>x.toString(2).slice(-w).padStart(w, '0')\<close>.\<close>

definition group_bits :: "nat \<Rightarrow> byte \<Rightarrow> string" where
  "group_bits w x = padStart w (slice_end w (digits 2 (unat x)))"

definition intDecoder :: "libs \<Rightarrow> consumer \<Rightarrow> (expr \<times> consumer) res" where
  "intDecoder L c =
     bindR (intChunks c) (\<lambda>(hexNumber, c1).
       let isNegative = (64 AND hd hexNumber \<noteq> 0);
           hexNumber' = (hd hexNumber AND 127) # tl hexNumber;
           numBin = rev (group_bits 6 (hd hexNumber') # map (group_bits 7) (tl hexNumber'));
           num = int (of_digits 2 (concat numBin))
       in Inr (IntLit (if isNegative \<and> num = 0 then CHR ''-'' # bn_toFixed L 0
                       else if isNegative then bn_toFixed L (- num) else bn_toFixed L num), c1))"

definition decodeAnnots :: "consumer \<Rightarrow> (string list \<times> consumer) res" where
  "decodeAnnots c =
     bindR (extractRequiredLen 4 c) (\<lambda>(restOfAnnot, c1).
       Inr (map (\<lambda>x. utf8_decode (unhex x)) (js_split ''20'' (hexOf restOfAnnot)), c1))"

text \<open>The end of \<open>primDecoder\<close>: which of the arguments and annotations read end up in the result.\<close>

definition finishDecode ::
    "string \<Rightarrow> bool \<Rightarrow> (expr list \<times> string list) option \<Rightarrow> expr list \<Rightarrow> consumer \<Rightarrow> (expr \<times> consumer) res" where
  "finishDecode prim hasAnnot comb args c =
     (let rargs = (case comb of Some (cargs, _) \<Rightarrow> Some cargs
                   | None \<Rightarrow> if args \<noteq> [] then Some args else None) in
      case comb of
        Some (_, a # as) \<Rightarrow>
          if a \<noteq> [] then Inr (Prim prim rargs (Some (a # as)), c)
          else if hasAnnot then bindR (decodeAnnots c) (\<lambda>(an, c1). Inr (Prim prim rargs (Some an), c1))
          else Inr (Prim prim rargs None, c)
      | _ \<Rightarrow>
          if hasAnnot then bindR (decodeAnnots c) (\<lambda>(an, c1). Inr (Prim prim rargs (Some an), c1))
          else Inr (Prim prim rargs None, c))"

text \<open>
  \<open>valueFuel\<close> is \<open>valueDecoder\<close>, \<open>primFuel\<close> \<open>primDecoder\<close> with its helpers
  \<open>primViewDecoder\<close> and \<open>decodeCombPair\<close> written in place, \<open>manyFuel\<close> the loop
  \<open>while (val.length() > 0)\<close>, \<open>timesFuel\<close> the \<open>map\<close> over an array of known length.
\<close>

fun valueFuel :: "nat \<Rightarrow> libs \<Rightarrow> consumer \<Rightarrow> (expr \<times> consumer) res"
and manyFuel :: "nat \<Rightarrow> libs \<Rightarrow> consumer \<Rightarrow> expr list res"
and timesFuel :: "nat \<Rightarrow> libs \<Rightarrow> nat \<Rightarrow> consumer \<Rightarrow> (expr list \<times> consumer) res"
and primFuel :: "nat \<Rightarrow> libs \<Rightarrow> consumer \<Rightarrow> nat \<Rightarrow> (expr \<times> consumer) res" where
  "valueFuel 0 L c = Inl OutOfFuel"
| "valueFuel (Suc n) L c =
     bindR (consume 1 c) (\<lambda>(preamble, c1).
       let b = unat (hd preamble) in
       if b = 10 then bytesDecoder c1
       else if b = 1 then stringDecoder c1
       else if b = 0 then intDecoder L c1
       else if b = 2 then
         bindR (extractRequiredLen 4 c1) (\<lambda>(val, c2).
         bindR (manyFuel n L (mkConsumer val)) (\<lambda>results. Inr (Seq results, c2)))
       else primFuel n L c1 b)"
| "manyFuel 0 L c = Inl OutOfFuel"
| "manyFuel (Suc n) L c =
     (if clen c > 0 then
        bindR (valueFuel n L c) (\<lambda>(v, c1). bindR (manyFuel n L c1) (\<lambda>vs. Inr (v # vs)))
      else Inr [])"
| "timesFuel 0 L k c = Inl OutOfFuel"
| "timesFuel (Suc n) L k c =
     (case k of 0 \<Rightarrow> Inr ([], c)
      | Suc k' \<Rightarrow> bindR (valueFuel n L c) (\<lambda>(v, c1).
                   bindR (timesFuel n L k' c1) (\<lambda>(vs, c2). Inr (v # vs, c2))))"
| "primFuel 0 L c preamble = Inl OutOfFuel"
| "primFuel (Suc n) L c preamble =
     (let hasAnnot = ((preamble - 3) mod 2 = 1);
          argsCount = (preamble - 3) div 2 in
      bindR (consume 1 c) (\<lambda>(opb, c1).
        case map_of opMapping (padStart 2 (digits 16 (unat (hd opb)))) of
          None \<Rightarrow> Inl (UnknownOp (padStart 2 (digits 16 (unat (hd opb)))))
        | Some prim \<Rightarrow>
            bindR (if is_lambda prim \<and> argsCount > 0 then bindR (consume 4 c1) (\<lambda>(_, c2). Inr c2)
                   else Inr c1) (\<lambda>c2.
            if prim = ''view'' then
              (if argsCount \<noteq> 0 then
                 bindR (consume 4 c2) (\<lambda>(_, c3).
                 bindR (timesFuel n L 4 c3) (\<lambda>(args, c4).
                 bindR (consume 4 c4) (\<lambda>(_, c5). Inr (Prim prim (Some args) None, c5))))
               else Inr (Prim prim None None, c2))
            else if is_pair prim \<and> argsCount > 2 then
              bindR (extractRequiredLen 4 c2) (\<lambda>(inner, c3).
              bindR (manyFuel n L (mkConsumer inner)) (\<lambda>cargs.
              bindR (decodeAnnots c3) (\<lambda>(cannots, c4).
              finishDecode prim hasAnnot (Some (cargs, cannots)) [] c4)))
            else
              bindR (timesFuel n L argsCount c2) (\<lambda>(args, c3).
              bindR (if is_lambda prim \<and> argsCount > 0 then bindR (consume 4 c3) (\<lambda>(_, c4). Inr c4)
                     else Inr c3) (\<lambda>c4.
              finishDecode prim hasAnnot None args c4)))))"

definition valueDecoder :: "libs \<Rightarrow> consumer \<Rightarrow> (expr \<times> consumer) res" where
  "valueDecoder L c = valueFuel (2 * clen c + 4) L c"

definition scriptDecoder :: "libs \<Rightarrow> consumer \<Rightarrow> ((expr \<times> expr) \<times> consumer) res" where
  "scriptDecoder L c =
     bindR (extractRequiredLen 4 c) (\<lambda>(code, c1).
     bindR (extractRequiredLen 4 c1) (\<lambda>(storage, c2).
     bindR (valueDecoder L (mkConsumer code)) (\<lambda>(vc, _).
     bindR (valueDecoder L (mkConsumer storage)) (\<lambda>(vs, _).
     Inr ((vc, vs), c2)))))"

end
