(* ===== verification/TezosPrefix.thy ===== *)
theory TezosPrefix
  imports Consumer
begin

text \<open>
  The base-58 values of \<open>taquito-utils\<close>: the tables of \<open>constants.ts\<close>, the conversions of
  \<open>taquito-utils.ts\<close>, the validators of \<open>validators.ts\<close> and the checks of
  \<open>verify-signature.ts\<close>.  The base-58 library is the parameter \<^typ>\<open>libs\<close>;
  \<open>b58_value\<close> says that a text is a well-formed value of a prefix.
\<close>

section \<open>Prefixes\<close>

definition prefix :: "(string \<times> byte list) list" where
  "prefix = [
   (''tz1'', [6, 161, 159]), (''tz2'', [6, 161, 161]), (''tz3'', [6, 161, 164]), (''tz4'', [6, 161, 166]),
   (''KT'', [2, 90, 121]), (''KT1'', [2, 90, 121]),
   (''edsk'', [43, 246, 78, 7]), (''edsk2'', [13, 15, 58, 7]), (''spsk'', [17, 162, 224, 201]),
   (''p2sk'', [16, 81, 238, 189]),
   (''edpk'', [13, 15, 37, 217]), (''sppk'', [3, 254, 226, 86]), (''p2pk'', [3, 178, 139, 127]),
   (''BLpk'', [6, 149, 135, 204]),
   (''edesk'', [7, 90, 60, 179, 41]), (''spesk'', [9, 237, 241, 174, 150]), (''p2esk'', [9, 48, 57, 115, 171]),
   (''edsig'', [9, 245, 205, 134, 18]), (''spsig'', [13, 115, 101, 19, 63]), (''p2sig'', [54, 240, 44, 52]),
   (''sig'', [4, 130, 43]),
   (''Net'', [87, 82, 0]), (''nce'', [69, 220, 169]), (''B'', [1, 52]), (''o'', [5, 116]), (''Lo'', [133, 233]),
   (''LLo'', [29, 159, 109]), (''P'', [2, 170]), (''Co'', [79, 179]), (''id'', [153, 103]),
   (''expr'', [13, 44, 64, 27]), (''TZ'', [2, 90, 121]),
   (''vh'', [1, 106, 242]), (''sask'', [11, 237, 20, 92]), (''zet1'', [18, 71, 40, 223]),
   (''txr1'', [1, 128, 120, 31]), (''txi'', [79, 148, 196]), (''txm'', [79, 149, 30]), (''txc'', [79, 148, 17]),
   (''txmr'', [18, 7, 206, 87]), (''txM'', [79, 146, 82]), (''txw'', [79, 150, 72]),
   (''sr1'', [6, 124, 117]), (''src1'', [17, 165, 134, 138])]"

definition prefixLength :: "(string \<times> nat) list" where
  "prefixLength = [
   (''tz1'', 20), (''tz2'', 20), (''tz3'', 20), (''tz4'', 20), (''KT'', 20), (''KT1'', 20),
   (''edpk'', 32), (''sppk'', 33), (''p2pk'', 33), (''BLpk'', 48),
   (''edsig'', 64), (''spsig'', 64), (''p2sig'', 64), (''sig'', 64),
   (''Net'', 4), (''B'', 32), (''P'', 32), (''o'', 32), (''vh'', 32), (''sask'', 169), (''zet1'', 43),
   (''txr1'', 20), (''txi'', 32), (''txm'', 32), (''txc'', 32), (''txmr'', 32), (''txM'', 32), (''txw'', 32),
   (''sr1'', 20), (''src1'', 32)]"

text \<open>The entries of a prefix that is in the tables, as every prefix the code names is.\<close>

definition prefix_bytes :: "string \<Rightarrow> byte list" where
  "prefix_bytes p = (case map_of prefix p of Some b \<Rightarrow> b | None \<Rightarrow> [])"

definition prefix_len :: "string \<Rightarrow> nat" where
  "prefix_len p = (case map_of prefixLength p of Some n \<Rightarrow> n | None \<Rightarrow> 0)"

lemma prefix_bytes_simps [simp]:
  "prefix_bytes ''tz1'' = [6, 161, 159]" "prefix_bytes ''tz2'' = [6, 161, 161]"
  "prefix_bytes ''tz3'' = [6, 161, 164]" "prefix_bytes ''tz4'' = [6, 161, 166]"
  "prefix_bytes ''KT'' = [2, 90, 121]" "prefix_bytes ''KT1'' = [2, 90, 121]"
  "prefix_bytes ''edpk'' = [13, 15, 37, 217]" "prefix_bytes ''sppk'' = [3, 254, 226, 86]"
  "prefix_bytes ''p2pk'' = [3, 178, 139, 127]" "prefix_bytes ''BLpk'' = [6, 149, 135, 204]"
  "prefix_bytes ''B'' = [1, 52]" "prefix_bytes ''P'' = [2, 170]" "prefix_bytes ''vh'' = [1, 106, 242]"
  "prefix_bytes ''txr1'' = [1, 128, 120, 31]" "prefix_bytes ''sr1'' = [6, 124, 117]"
  "prefix_bytes ''src1'' = [17, 165, 134, 138]" "prefix_bytes ''o'' = [5, 116]"
  "prefix_bytes ''expr'' = [13, 44, 64, 27]"
  by (simp_all add: prefix_bytes_def prefix_def)

lemma prefix_len_simps [simp]:
  "prefix_len ''tz1'' = 20" "prefix_len ''tz2'' = 20" "prefix_len ''tz3'' = 20" "prefix_len ''tz4'' = 20"
  "prefix_len ''KT'' = 20" "prefix_len ''KT1'' = 20" "prefix_len ''edpk'' = 32" "prefix_len ''sppk'' = 33"
  "prefix_len ''p2pk'' = 33" "prefix_len ''BLpk'' = 48" "prefix_len ''B'' = 32" "prefix_len ''P'' = 32"
  "prefix_len ''vh'' = 32" "prefix_len ''txr1'' = 20" "prefix_len ''sr1'' = 20" "prefix_len ''src1'' = 32"
  "prefix_len ''o'' = 32"
  by (simp_all add: prefix_len_def prefixLength_def)

section \<open>Base 58 with a prefix\<close>

definition b58cencode :: "libs \<Rightarrow> byte list \<Rightarrow> byte list \<Rightarrow> string" where
  "b58cencode L payload pre = bs58_encode L (pre @ payload)"

definition b58cdecode :: "libs \<Rightarrow> string \<Rightarrow> byte list \<Rightarrow> byte list res" where
  "b58cdecode L enc pre =
     (case bs58_decode L enc of None \<Rightarrow> Inl (Base58Error enc) | Some bs \<Rightarrow> Inr (drop (length pre) bs))"

text \<open>A well-formed value of a prefix: it decodes to the bytes of the prefix and a payload of
  its length, and the library gives the text back.\<close>

definition b58_value :: "libs \<Rightarrow> string \<Rightarrow> string \<Rightarrow> bool" where
  "b58_value L p s \<longleftrightarrow>
     (case bs58_decode L s of None \<Rightarrow> False
      | Some bs \<Rightarrow> take (length (prefix_bytes p)) bs = prefix_bytes p
          \<and> length bs = length (prefix_bytes p) + prefix_len p \<and> bs58_encode L bs = s)"

lemma b58_valueD:
  assumes "b58_value L p s"
  obtains h where "length h = prefix_len p" "bs58_decode L s = Some (prefix_bytes p @ h)"
    "b58cdecode L s (prefix_bytes p) = Inr h" "b58cencode L h (prefix_bytes p) = s"
proof -
  obtain bs where bs: "bs58_decode L s = Some bs" "take (length (prefix_bytes p)) bs = prefix_bytes p"
    "length bs = length (prefix_bytes p) + prefix_len p" "bs58_encode L bs = s"
    using assms by (auto simp: b58_value_def split: option.splits)
  define h where "h = drop (length (prefix_bytes p)) bs"
  have "bs = prefix_bytes p @ h" using bs(2) by (metis append_take_drop_id h_def)
  with bs that [of h] show thesis by (simp add: b58cdecode_def b58cencode_def)
qed

section \<open>Hexadecimal text\<close>

definition hex2buf :: "string \<Rightarrow> byte list res" where
  "hex2buf hex =
     (let hex' = (if startsWith hex ''0x'' then drop 2 hex else hex) in
      if hex' \<noteq> [] \<and> hex_text hex' then Inr (unhex hex') else Inl (InvalidHexStringError hex'))"

definition buf2hex :: "byte list \<Rightarrow> string" where
  "buf2hex bs = concat (map (\<lambda>b. let padded = ''00'' @ digits 16 (unat b) in drop (length padded - 2) padded) bs)"

definition mergebuf :: "byte list \<Rightarrow> byte list \<Rightarrow> byte list" where
  "mergebuf b1 b2 = b1 @ b2"

definition char2Bytes :: "string \<Rightarrow> string" where
  "char2Bytes str = hexOf (utf8_encode str)"

definition bytes2Char :: "string \<Rightarrow> string res" where
  "bytes2Char hex = bindR (hex2buf hex) (\<lambda>bs. Inr (utf8_decode bs))"

definition stripHexPrefix :: "string \<Rightarrow> string" where
  "stripHexPrefix hex = (if startsWith hex ''0x'' then drop 2 hex else hex)"

text \<open>\<open>num2PaddedHex\<close> on an integer; zero counts as positive.\<close>

definition padHexWithZero :: "string \<Rightarrow> nat \<Rightarrow> string" where
  "padHexWithZero hex targetLength =
     (if targetLength \<le> length hex then hex else replicate (targetLength - length hex) (CHR ''0'') @ hex)"

definition num2PaddedHex :: "int \<Rightarrow> nat \<Rightarrow> string" where
  "num2PaddedHex val bitLength =
     (if 0 \<le> val then
        let nibbleLength = (bitLength + 3) div 4;
            hex = digits 16 (nat val);
            t = (if nibbleLength \<le> length hex then length hex else nibbleLength);
            targetLength = (if t mod 2 = 0 then t else t + 1)
        in padHexWithZero hex targetLength
      else let v = 2 ^ bitLength - \<bar>val\<bar> in
        if v < 0 then CHR ''-'' # digits 16 (nat (- v)) else digits 16 (nat v))"

lemma buf2hex_hexOf: "buf2hex bs = hexOf bs"
proof -
  have "(let padded = ''00'' @ digits 16 (unat b) in drop (length padded - 2) padded) = hex_byte b" for b
  proof -
    have l: "length (digits 16 (unat b)) \<le> 2" using digits_length [of 16 2 "unat b"] by simp
    then have "hex_byte b = replicate (2 - length (digits 16 (unat b))) (CHR ''0'') @ digits 16 (unat b)"
      using hex_byte_digits [of b] by (simp add: padStart_def)
    moreover have "length (digits 16 (unat b)) = 1 \<or> length (digits 16 (unat b)) = 2"
      using l digits_ne [of 16 "unat b"] by (cases "digits 16 (unat b)"; cases "tl (digits 16 (unat b))") auto
    ultimately show ?thesis by (auto simp: Let_def)
  qed
  then show ?thesis by (simp add: buf2hex_def hexOf_def)
qed

lemma not_0x_hexOf: "\<not> startsWith (hexOf bs) ''0x''"
  using hex_text_hexOf [of bs] hex_not_0x [of "hexOf bs"] by (simp add: startsWith_def hex_text_def numeral_2_eq_2)

lemma hexOf_Nil_iff [simp]: "hexOf bs = [] \<longleftrightarrow> bs = []"
  by (cases bs) (simp_all add: hex_byte_def)

lemma hex2buf_hexOf: "bs \<noteq> [] \<Longrightarrow> hex2buf (hexOf bs) = Inr bs"
  using not_0x_hexOf [of bs] by (simp add: hex2buf_def)

lemma hex2buf_0x: "hex2buf (''0x'' @ s) = (if s \<noteq> [] \<and> hex_text s then Inr (unhex s) else Inl (InvalidHexStringError s))"
  by (simp add: hex2buf_def startsWith_def)

lemma bytes2Char_char2Bytes: "s \<noteq> [] \<Longrightarrow> utf8_ok s \<Longrightarrow> bytes2Char (char2Bytes s) = Inr s"
  by (simp add: bytes2Char_def char2Bytes_def hex2buf_hexOf utf8_ok_def utf8_encode_def)

section \<open>Addresses and keys\<close>

text \<open>\<open>substring\<close> swaps its arguments when they are out of order.  The lookup \<open>pref[...]\<close> may find nothing, and then reading its length throws.\<close>

definition b58decode :: "libs \<Rightarrow> string \<Rightarrow> string res" where
  "b58decode L payload =
     (case bs58_decode L payload of
        None \<Rightarrow> Inl (Base58Error payload)
      | Some buf \<Rightarrow>
          (case map_of [(prefix_bytes ''tz1'', ''0000''), (prefix_bytes ''tz2'', ''0001''),
                        (prefix_bytes ''tz3'', ''0002'')] (take 3 buf) of
             Some pref \<Rightarrow> Inr (pref @ buf2hex (drop 3 buf))
           | None \<Rightarrow>
               if take 4 buf = prefix_bytes ''txr1'' then Inr (''02'' @ buf2hex (drop 4 buf) @ ''00'')
               else Inr (''01'' @ buf2hex (take 39 (drop 3 buf)) @ ''00'')))"

definition b58decodeL2Address :: "libs \<Rightarrow> string \<Rightarrow> string res" where
  "b58decodeL2Address L payload =
     (case bs58_decode L payload of None \<Rightarrow> Inl (Base58Error payload)
      | Some buf \<Rightarrow> Inr (buf2hex (take 39 (drop 3 buf))))"

text \<open>\<open>Buffer.from(value, 'hex')\<close>: the leading pairs of hexadecimal digits.\<close>

fun buffer_hex :: "string \<Rightarrow> byte list" where
  "buffer_hex (a # b # cs) = (if is_hex a \<and> is_hex b then unhex [a, b] @ buffer_hex cs else [])"
| "buffer_hex _ = []"

definition js_substring :: "string \<Rightarrow> nat \<Rightarrow> nat \<Rightarrow> string" where
  "js_substring s a b = take (max a b - min a b) (drop (min a b) s)"

definition encodePubKey :: "libs \<Rightarrow> string \<Rightarrow> string res" where
  "encodePubKey L value =
     (if take 2 value = ''00'' then
        (case map_of [(''0000'', prefix_bytes ''tz1''), (''0001'', prefix_bytes ''tz2''),
                      (''0002'', prefix_bytes ''tz3'')] (take 4 value) of
           Some pre \<Rightarrow> Inr (b58cencode L (buffer_hex (drop 4 value)) pre)
         | None \<Rightarrow> Inl (TypeErr ''prefix of undefined''))
      else if take 2 value = ''02'' then
        Inr (b58cencode L (buffer_hex (js_substring value 2 (length value - 2))) (prefix_bytes ''txr1''))
      else Inr (b58cencode L (buffer_hex (take 40 (drop 2 value))) (prefix_bytes ''KT'')))"

definition encodeL2Address :: "libs \<Rightarrow> string \<Rightarrow> string" where
  "encodeL2Address L value = b58cencode L (buffer_hex value) (prefix_bytes ''tz4'')"

text \<open>Both return \<open>undefined\<close> on a text that does not start with a zero.\<close>

definition encodeKey :: "libs \<Rightarrow> string \<Rightarrow> string option res" where
  "encodeKey L value =
     (if take 1 value = ''0'' then
        (case map_of [(''00'', [13, 15, 37, 217]), (''01'', [3, 254, 226, 86]), (''02'', [3, 178, 139, 127])]
              (take 2 value) of
           Some pre \<Rightarrow> Inr (Some (b58cencode L (buffer_hex (drop 2 value)) pre))
         | None \<Rightarrow> Inl (TypeErr ''prefix of undefined''))
      else Inr None)"

definition encodeKeyHash :: "libs \<Rightarrow> string \<Rightarrow> string option res" where
  "encodeKeyHash L value =
     (if take 1 value = ''0'' then
        (case map_of [(''00'', [6, 161, 159]), (''01'', [6, 161, 161]), (''02'', [6, 161, 164])]
              (take 2 value) of
           Some pre \<Rightarrow> Inr (Some (b58cencode L (buffer_hex (drop 2 value)) pre))
         | None \<Rightarrow> Inl (TypeErr ''prefix of undefined''))
      else Inr None)"

definition encodeExpr :: "libs \<Rightarrow> string \<Rightarrow> string res" where
  "encodeExpr L value = bindR (hex2buf value) (\<lambda>bs. Inr (b58cencode L (blake2b L bs 32) (prefix_bytes ''expr'')))"

definition encodeOpHash :: "libs \<Rightarrow> string \<Rightarrow> string res" where
  "encodeOpHash L value = bindR (hex2buf value) (\<lambda>bs. Inr (b58cencode L (blake2b L bs 32) (prefix_bytes ''o'')))"

lemma buffer_hex_hexOf [simp]: "buffer_hex (hexOf bs) = bs"
proof (induction bs)
  case Nil
  then show ?case by simp
next
  case (Cons b bs)
  have "unhex (hex_byte b) = [b]" using unhex_hexOf [of "[b]"] by simp
  with Cons show ?case by (simp add: hex_byte_def)
qed

lemma hexOf_take: "take (2 * n) (hexOf bs) = hexOf (take n bs)"
proof -
  have "hexOf bs = hexOf (take n bs) @ hexOf (drop n bs)"
    by (metis append_take_drop_id hexOf_simps(3))
  then show ?thesis
    by (cases "n \<le> length bs") (simp_all add: append_eq_conv_conj [symmetric])
qed

section \<open>Validators\<close>

datatype ValidationResult = NO_PREFIX_MATCHED | INVALID_CHECKSUM | INVALID_LENGTH | VALID

definition isValidPrefix :: "string \<Rightarrow> bool" where
  "isValidPrefix value \<longleftrightarrow> map_of prefix value \<noteq> None"

definition word_char :: "char \<Rightarrow> bool" where
  "word_char c = (let n = of_char c :: nat in
     48 \<le> n \<and> n \<le> 57 \<or> 65 \<le> n \<and> n \<le> 90 \<or> 97 \<le> n \<and> n \<le> 122 \<or> n = 95)"

text \<open>\<open>/^(KT1\w{33})$/\<close>.\<close>

definition kt1Regex :: "string \<Rightarrow> bool" where
  "kt1Regex value \<longleftrightarrow> take 3 value = ''KT1'' \<and> length value = 36 \<and> list_all word_char (drop 3 value)"

definition before_percent :: "string \<Rightarrow> string" where
  "before_percent value = takeWhile (\<lambda>c. c \<noteq> CHR ''%'') value"

definition validatePrefixedValue :: "libs \<Rightarrow> string \<Rightarrow> string list \<Rightarrow> ValidationResult" where
  "validatePrefixedValue L value0 prefixes =
     (case find (\<lambda>p. startsWith value0 p) prefixes of
        None \<Rightarrow> NO_PREFIX_MATCHED
      | Some prefixKey \<Rightarrow>
          if \<not> isValidPrefix prefixKey then NO_PREFIX_MATCHED
          else let value = before_percent value0 in
            if \<not> kt1Regex value \<and> prefixKey = ''KT1'' then INVALID_CHECKSUM
            else (case bs58_decode L value of
                None \<Rightarrow> INVALID_CHECKSUM
              | Some decoded \<Rightarrow>
                  if map_of prefixLength prefixKey = Some (length (drop (length (prefix_bytes prefixKey)) decoded))
                  then VALID else INVALID_LENGTH))"

definition implicitPrefix :: "string list" where
  "implicitPrefix = [''tz1'', ''tz2'', ''tz3'', ''tz4'']"
definition contractPrefix :: "string list" where
  "contractPrefix = [''KT1'', ''txr1'']"
definition signaturePrefix :: "string list" where
  "signaturePrefix = [''edsig'', ''p2sig'', ''spsig'', ''sig'']"
definition pkPrefix :: "string list" where
  "pkPrefix = [''edpk'', ''sppk'', ''p2pk'', ''BLpk'']"

definition validateAddress :: "libs \<Rightarrow> string \<Rightarrow> ValidationResult" where
  "validateAddress L value = validatePrefixedValue L value (implicitPrefix @ contractPrefix)"
definition validateChain :: "libs \<Rightarrow> string \<Rightarrow> ValidationResult" where
  "validateChain L value = validatePrefixedValue L value [''Net'']"
definition validateContractAddress :: "libs \<Rightarrow> string \<Rightarrow> ValidationResult" where
  "validateContractAddress L value = validatePrefixedValue L value contractPrefix"
definition validateKeyHash :: "libs \<Rightarrow> string \<Rightarrow> ValidationResult" where
  "validateKeyHash L value = validatePrefixedValue L value implicitPrefix"
definition validateSignature :: "libs \<Rightarrow> string \<Rightarrow> ValidationResult" where
  "validateSignature L value = validatePrefixedValue L value signaturePrefix"
definition validatePublicKey :: "libs \<Rightarrow> string \<Rightarrow> ValidationResult" where
  "validatePublicKey L value = validatePrefixedValue L value pkPrefix"
definition validateOperation :: "libs \<Rightarrow> string \<Rightarrow> ValidationResult" where
  "validateOperation L value = validatePrefixedValue L value [''o'']"
definition validateProtocol :: "libs \<Rightarrow> string \<Rightarrow> ValidationResult" where
  "validateProtocol L value = validatePrefixedValue L value [''P'']"
definition validateBlock :: "libs \<Rightarrow> string \<Rightarrow> ValidationResult" where
  "validateBlock L value = validatePrefixedValue L value [''B'']"
definition validateSpendingKey :: "libs \<Rightarrow> string \<Rightarrow> ValidationResult" where
  "validateSpendingKey L value = validatePrefixedValue L value [''sask'']"

section \<open>Public keys and signatures\<close>

text \<open>The elliptic-curve libraries: \<open>None\<close> is an exception.\<close>

record 'k curves =
  nacl_verify :: "byte list \<Rightarrow> byte list \<Rightarrow> byte list \<Rightarrow> bool option"
  sp_key :: "byte list \<Rightarrow> 'k option"
  p2_key :: "byte list \<Rightarrow> 'k option"
  key_verify :: "'k \<Rightarrow> byte list \<Rightarrow> string \<Rightarrow> string option \<Rightarrow> bool option"

definition validatePkAndExtractPrefix :: "libs \<Rightarrow> string \<Rightarrow> string res" where
  "validatePkAndExtractPrefix L publicKey =
     (if publicKey = [] then Inl (InvalidPublicKeyError publicKey ''empty'')
      else case validatePublicKey L publicKey of
          INVALID_CHECKSUM \<Rightarrow> Inl (InvalidPublicKeyError publicKey ''invalid checksum'')
        | INVALID_LENGTH \<Rightarrow> Inl (InvalidPublicKeyError publicKey ''invalid length'')
        | NO_PREFIX_MATCHED \<Rightarrow> Inl (InvalidPublicKeyError publicKey ''unsupported prefix'')
        | VALID \<Rightarrow> Inr (take 4 publicKey))"

definition validateSigAndExtractPrefix :: "libs \<Rightarrow> string \<Rightarrow> string res" where
  "validateSigAndExtractPrefix L signature =
     (let sigPrefix = (if startsWith signature ''sig'' then take 3 signature else take 5 signature) in
      case validateSignature L signature of
          INVALID_CHECKSUM \<Rightarrow> Inl (InvalidSignatureError signature ''invalid checksum'')
        | INVALID_LENGTH \<Rightarrow> Inl (InvalidSignatureError signature ''invalid length'')
        | NO_PREFIX_MATCHED \<Rightarrow> Inl (InvalidSignatureError sigPrefix ''unsupported prefix'')
        | VALID \<Rightarrow> Inr sigPrefix)"

definition validateMessageNotEmpty :: "string \<Rightarrow> string res" where
  "validateMessageNotEmpty message = (if message = [] then Inl (InvalidMessageError message) else Inr message)"

text \<open>\<open>match(/([a-f\d]{64})/gi)\<close> on hexadecimal text.\<close>

function chunks64 :: "string \<Rightarrow> string list" where
  "chunks64 s = (if 64 \<le> length s then take 64 s # chunks64 (drop 64 s) else [])"
  by pat_completeness auto
termination
  by (relation "measure length") auto

declare chunks64.simps [simp del]

definition verifyEdSignature :: "'k curves \<Rightarrow> byte list \<Rightarrow> byte list \<Rightarrow> byte list \<Rightarrow> bool" where
  "verifyEdSignature C decodedSig bytesHash decodedPublicKey =
     (case nacl_verify C bytesHash decodedSig decodedPublicKey of Some b \<Rightarrow> b | None \<Rightarrow> False)"

definition verifySpOrP2Sig :: "'k curves \<Rightarrow> byte list \<Rightarrow> byte list \<Rightarrow> 'k \<Rightarrow> bool" where
  "verifySpOrP2Sig C decodedSig bytesHash key =
     (case chunks64 (buf2hex decodedSig) of
        [] \<Rightarrow> False
      | r # rest \<Rightarrow>
          (case key_verify C key bytesHash r (case rest of [] \<Rightarrow> None | s # _ \<Rightarrow> Some s) of
             Some b \<Rightarrow> b | None \<Rightarrow> False))"

definition verifySpSignature :: "'k curves \<Rightarrow> byte list \<Rightarrow> byte list \<Rightarrow> byte list \<Rightarrow> bool res" where
  "verifySpSignature C decodedSig bytesHash decodedPublicKey =
     (case sp_key C decodedPublicKey of None \<Rightarrow> Inl (PlainError ''keyFromPublic'')
      | Some key \<Rightarrow> Inr (verifySpOrP2Sig C decodedSig bytesHash key))"

definition verifyP2Signature :: "'k curves \<Rightarrow> byte list \<Rightarrow> byte list \<Rightarrow> byte list \<Rightarrow> bool res" where
  "verifyP2Signature C decodedSig bytesHash decodedPublicKey =
     (case p2_key C decodedPublicKey of None \<Rightarrow> Inl (PlainError ''keyFromPublic'')
      | Some key \<Rightarrow> Inr (verifySpOrP2Sig C decodedSig bytesHash key))"

definition verifySignature :: "libs \<Rightarrow> 'k curves \<Rightarrow> string \<Rightarrow> string \<Rightarrow> string \<Rightarrow> bool res" where
  "verifySignature L C messageBytes publicKey signature =
     bindR (validatePkAndExtractPrefix L publicKey) (\<lambda>pkPre.
     bindR (validateSigAndExtractPrefix L signature) (\<lambda>sigPre.
     bindR (b58cdecode L publicKey (prefix_bytes pkPre)) (\<lambda>decodedPublicKey.
     bindR (b58cdecode L signature (prefix_bytes sigPre)) (\<lambda>decodedSig.
     bindR (validateMessageNotEmpty messageBytes) (\<lambda>message.
     bindR (hex2buf message) (\<lambda>bytes.
       let bytesHash = blake2b L bytes 32 in
       if pkPre = ''edpk'' then Inr (verifyEdSignature C decodedSig bytesHash decodedPublicKey)
       else if pkPre = ''sppk'' then verifySpSignature C decodedSig bytesHash decodedPublicKey
       else if pkPre = ''p2pk'' then verifyP2Signature C decodedSig bytesHash decodedPublicKey
       else Inr False))))))"

definition getPkhfromPk :: "libs \<Rightarrow> string \<Rightarrow> string res" where
  "getPkhfromPk L publicKey =
     bindR (validatePkAndExtractPrefix L publicKey) (\<lambda>keyPrefix.
     bindR (b58cdecode L publicKey (prefix_bytes keyPrefix)) (\<lambda>decoded.
       let target = (if keyPrefix = ''edpk'' then ''tz1'' else if keyPrefix = ''sppk'' then ''tz2''
                     else if keyPrefix = ''p2pk'' then ''tz3'' else ''tz4'')
       in Inr (b58cencode L (blake2b L decoded (prefix_len target)) (prefix_bytes target))))"

section \<open>What the conversions and validators guarantee\<close>

lemma pubkey_tz:
  assumes "b58_value L p s" "(p, t) \<in> {(''tz1'', ''0000''), (''tz2'', ''0001''), (''tz3'', ''0002'')}"
  shows "bindR (b58decode L s) (encodePubKey L) = Inr s"
proof -
  obtain h where h: "length h = prefix_len p" "bs58_decode L s = Some (prefix_bytes p @ h)"
    "b58cencode L h (prefix_bytes p) = s"
    using b58_valueD [OF assms(1)] by metis
  have l: "length (prefix_bytes p) = 3" and t: "length t = 4" "take 2 t = ''00''"
    and m: "map_of [(prefix_bytes ''tz1'', ''0000''), (prefix_bytes ''tz2'', ''0001''),
      (prefix_bytes ''tz3'', ''0002'')] (prefix_bytes p) = Some t"
      "map_of [(''0000'', prefix_bytes ''tz1''), (''0001'', prefix_bytes ''tz2''), (''0002'', prefix_bytes ''tz3'')] t
        = Some (prefix_bytes p)"
    using assms(2) by auto
  have "b58decode L s = Inr (t @ hexOf h)"
    using h(2) l by (simp only: b58decode_def option.case buf2hex_hexOf) (simp add: m(1) [simplified])
  moreover have "encodePubKey L (t @ hexOf h) = Inr s"
    using t h(3) by (simp only: encodePubKey_def) (simp add: m(2) [simplified])
  ultimately show ?thesis by simp
qed

lemma pubkey_kt1:
  assumes "b58_value L ''KT1'' s"
  shows "bindR (b58decode L s) (encodePubKey L) = Inr s"
proof -
  obtain h where h: "length h = 20" "bs58_decode L s = Some ([2, 90, 121] @ h)" "b58cencode L h [2, 90, 121] = s"
    using b58_valueD [OF assms] by (metis prefix_bytes_simps(6) prefix_len_simps(6))
  have "take 40 (hexOf h) = hexOf h" using h(1) by simp
  with h show ?thesis
    by (simp add: b58decode_def buf2hex_hexOf encodePubKey_def)
qed

lemma pubkey_txr1:
  assumes "b58_value L ''txr1'' s"
  shows "bindR (b58decode L s) (encodePubKey L) = Inr s"
proof -
  obtain h where h: "length h = 20" "bs58_decode L s = Some ([1, 128, 120, 31] @ h)"
    "b58cencode L h [1, 128, 120, 31] = s"
    using b58_valueD [OF assms] by (metis prefix_bytes_simps(14) prefix_len_simps(14))
  then show ?thesis
    by (simp add: b58decode_def buf2hex_hexOf encodePubKey_def js_substring_def)
qed

lemma validate_VALID:
  "validatePrefixedValue L v ps = VALID \<longleftrightarrow>
     (\<exists>p bs. find (startsWith v) ps = Some p \<and> isValidPrefix p
        \<and> (p = ''KT1'' \<longrightarrow> kt1Regex (before_percent v)) \<and> bs58_decode L (before_percent v) = Some bs
        \<and> map_of prefixLength p = Some (length bs - length (prefix_bytes p)))"
  by (auto simp: validatePrefixedValue_def Let_def split: option.splits)

lemma prefix_known:
  assumes "map_of prefixLength p = Some n"
  shows "isValidPrefix p" "prefix_len p = n" "0 < n"
proof -
  have "list_all (\<lambda>(p, n). isValidPrefix p \<and> 0 < n) prefixLength"
    by (simp add: prefixLength_def isValidPrefix_def prefix_def)
  with map_of_SomeD [OF assms] show "isValidPrefix p" "0 < n" by (auto simp: list_all_iff)
  show "prefix_len p = n" using assms by (simp add: prefix_len_def)
qed

lemma before_percent_id: "CHR ''%'' \<notin> set v \<Longrightarrow> before_percent v = v"
  by (simp add: before_percent_def takeWhile_eq_all_conv) metis

text \<open>A well-formed value of an accepted prefix is accepted.\<close>

lemma validate_complete:
  assumes "b58_value L p v" "find (startsWith v) ps = Some p" "map_of prefixLength p = Some n"
    "CHR ''%'' \<notin> set v" "p = ''KT1'' \<Longrightarrow> kt1Regex v"
  shows "validatePrefixedValue L v ps = VALID"
proof -
  obtain h where h: "length h = prefix_len p" "bs58_decode L v = Some (prefix_bytes p @ h)"
    using b58_valueD [OF assms(1)] by metis
  with assms prefix_known [OF assms(3)] before_percent_id [OF assms(4)] show ?thesis
    unfolding validate_VALID by auto
qed

text \<open>What is accepted has an accepted prefix, and a payload of the length of that prefix.\<close>

lemma validate_sound:
  assumes "validatePrefixedValue L v ps = VALID"
  shows "\<exists>p\<in>set ps. startsWith v p \<and>
    (\<exists>h. b58cdecode L (before_percent v) (prefix_bytes p) = Inr h \<and> length h = prefix_len p)"
proof -
  obtain p bs where p: "find (startsWith v) ps = Some p" "bs58_decode L (before_percent v) = Some bs"
    "map_of prefixLength p = Some (length bs - length (prefix_bytes p))"
    using assms unfolding validate_VALID by blast
  have "p \<in> set ps" "startsWith v p" using p(1) by (auto simp: find_Some_iff)
  moreover have "length bs - length (prefix_bytes p) = prefix_len p" using prefix_known(2) [OF p(3)] by simp
  ultimately show ?thesis using p(2) by (auto simp: b58cdecode_def)
qed

lemma startsWith_iff: "startsWith v p \<longleftrightarrow> (\<exists>r. v = p @ r)"
  unfolding startsWith_def by (metis append_eq_conv_conj append_take_drop_id)

lemma startsWith_self [simp]: "startsWith (p @ r) p"
  by (simp add: startsWith_def)

lemma find_Some_sound: "find P xs = Some x \<Longrightarrow> x \<in> set xs \<and> P x"
  by (auto simp: find_Some_iff)

lemma pk_length: "p \<in> set pkPrefix \<Longrightarrow> length p = 4"
  by (auto simp: pkPrefix_def)

lemma pk_in_table:
  assumes "p \<in> set pkPrefix"
  shows "map_of prefixLength p = Some (prefix_len p)"
proof -
  have "list_all (\<lambda>p. map_of prefixLength p = Some (prefix_len p)) pkPrefix"
    by (simp add: pkPrefix_def prefixLength_def)
  with assms show ?thesis by (auto simp: list_all_iff)
qed

lemma find_pk: "find (startsWith v) pkPrefix = Some p \<Longrightarrow> p \<in> set pkPrefix \<and> take 4 v = p"
  using find_Some_sound [of "startsWith v" pkPrefix p] pk_length [of p] by (auto simp: startsWith_def)

lemma find_pk_of: "p \<in> set pkPrefix \<Longrightarrow> find (startsWith (p @ r)) pkPrefix = Some p"
  by (auto simp: pkPrefix_def startsWith_def)

lemma pk_extract:
  assumes "validatePkAndExtractPrefix L pk = Inr p"
  shows "p \<in> set pkPrefix" "validatePublicKey L pk = VALID" "take 4 pk = p"
proof -
  show v: "validatePublicKey L pk = VALID" and t: "take 4 pk = p"
    using assms by (simp_all add: validatePkAndExtractPrefix_def split: if_splits ValidationResult.splits)
  obtain q where "find (startsWith pk) pkPrefix = Some q"
    using v unfolding validatePublicKey_def validate_VALID by blast
  with t find_pk [of pk q] show "p \<in> set pkPrefix" by simp
qed

lemma pk_accepted:
  assumes "b58_value L p pk" "p \<in> set pkPrefix" "startsWith pk p" "CHR ''%'' \<notin> set pk"
  shows "validatePkAndExtractPrefix L pk = Inr p"
proof -
  obtain r where r: "pk = p @ r" using assms(3) startsWith_iff by blast
  then have f: "find (startsWith pk) pkPrefix = Some p" using find_pk_of [OF assms(2)] by simp
  have m: "map_of prefixLength p = Some (prefix_len p)" and k: "p \<noteq> ''KT1''"
    using pk_in_table [OF assms(2)] pk_length [OF assms(2)] by auto
  from k have "validatePublicKey L pk = VALID"
    unfolding validatePublicKey_def by (intro validate_complete [OF assms(1) f m assms(4)]) simp
  moreover have "take 4 pk = p" "pk \<noteq> []" using pk_length [OF assms(2)] r by auto
  ultimately show ?thesis by (simp add: validatePkAndExtractPrefix_def)
qed

definition pkh_prefix :: "string \<Rightarrow> string" where
  "pkh_prefix p = (if p = ''edpk'' then ''tz1'' else if p = ''sppk'' then ''tz2''
                   else if p = ''p2pk'' then ''tz3'' else ''tz4'')"

lemma pkh_of_key:
  assumes "b58_value L p pk" "p \<in> set pkPrefix" "startsWith pk p" "CHR ''%'' \<notin> set pk"
    and hash: "\<And>bs n. length (blake2b L bs n) = n"
    and b58: "\<And>h. length h = 20 \<Longrightarrow>
      bs58_decode L (bs58_encode L (prefix_bytes (pkh_prefix p) @ h)) = Some (prefix_bytes (pkh_prefix p) @ h)"
  shows "\<exists>pkh. getPkhfromPk L pk = Inr pkh \<and> b58_value L (pkh_prefix p) pkh"
proof -
  obtain h where h: "b58cdecode L pk (prefix_bytes p) = Inr h" using b58_valueD [OF assms(1)] by metis
  let ?t = "pkh_prefix p"
  have len: "prefix_len ?t = 20" by (simp add: pkh_prefix_def)
  have g: "getPkhfromPk L pk = Inr (b58cencode L (blake2b L h 20) (prefix_bytes ?t))"
    using pk_accepted [OF assms(1-4)] h by (simp add: getPkhfromPk_def Let_def pkh_prefix_def)
  have "b58_value L ?t (b58cencode L (blake2b L h 20) (prefix_bytes ?t))"
    using b58 [of "blake2b L h 20"] hash len by (simp add: b58_value_def b58cencode_def)
  with g show ?thesis by blast
qed

lemma chunks64_hexOf:
  assumes "length bs = 64"
  shows "chunks64 (hexOf bs) = [hexOf (take 32 bs), hexOf (drop 32 bs)]"
proof -
  have "hexOf bs = hexOf (take 32 bs) @ hexOf (drop 32 bs)"
    by (metis append_take_drop_id hexOf_simps(3))
  moreover have "length (hexOf (take 32 bs)) = 64" "length (hexOf (drop 32 bs)) = 64" using assms by simp_all
  ultimately show ?thesis
    by (simp add: chunks64.simps [of "hexOf (take 32 bs) @ hexOf (drop 32 bs)"] chunks64.simps [of "hexOf (drop 32 bs)"]
        chunks64.simps [of "[]"])
qed

lemma sig_extract:
  assumes "validateSigAndExtractPrefix L sg = Inr q" "CHR ''%'' \<notin> set sg"
  shows "q \<in> set signaturePrefix" "validateSignature L sg = VALID"
    "\<exists>d. b58cdecode L sg (prefix_bytes q) = Inr d \<and> length d = 64"
proof -
  show v: "validateSignature L sg = VALID"
    using assms(1) by (simp add: validateSigAndExtractPrefix_def Let_def split: ValidationResult.splits)
  then obtain p bs where f: "find (startsWith sg) signaturePrefix = Some p" "bs58_decode L sg = Some bs"
    "map_of prefixLength p = Some (length bs - length (prefix_bytes p))"
    unfolding validateSignature_def validate_VALID before_percent_id [OF assms(2)] by blast
  have p: "p \<in> set signaturePrefix" "startsWith sg p" using find_Some_sound [OF f(1)] by auto
  then obtain r where r: "sg = p @ r" using startsWith_iff by blast
  have "q = (if startsWith sg ''sig'' then take 3 sg else take 5 sg)"
    using assms(1) v by (simp add: validateSigAndExtractPrefix_def Let_def split: if_splits)
  then have "q = p" using p(1) unfolding r by (auto simp: signaturePrefix_def startsWith_def)
  with p f show "q \<in> set signaturePrefix" "\<exists>d. b58cdecode L sg (prefix_bytes q) = Inr d \<and> length d = 64"
    by (auto simp: b58cdecode_def signaturePrefix_def prefixLength_def)
qed

text \<open>A curve key is asked about exactly the two halves of the signature.\<close>

lemma verify_curve_halves:
  assumes "length sg = 64"
  shows "verifySpOrP2Sig C sg hash key \<longleftrightarrow>
    key_verify C key hash (hexOf (take 32 sg)) (Some (hexOf (drop 32 sg))) = Some True"
  using assms by (auto simp: verifySpOrP2Sig_def buf2hex_hexOf chunks64_hexOf split: option.splits)

end
