(* ===== verification/ForgeCodec.thy ===== *)
theory ForgeCodec
  imports ForgeMichelson TezosPrefix
begin

text \<open>
  The field codecs of \<open>taquito-local-forging/src/codec.ts\<close>, one definition per function.
  \<open>fval\<close> is a property of an operation object; an encoder gets it as the code does, and a
  value outside the type that the code declares is a type error.
\<close>

section \<open>Field values\<close>

datatype fval =
    VUndef
  | VStr string
  | VNum int
  | VMich expr
  | VParam string expr
  | VScript expr expr
  | VArr "fval list"
  | VObj "(string \<times> fval) list"

definition ill_typed :: js_error where
  "ill_typed = TypeErr ''ill-typed''"

fun as_str :: "fval \<Rightarrow> string res" where
  "as_str (VStr s) = Inr s"
| "as_str _ = Inl ill_typed"

fun as_mich :: "fval \<Rightarrow> expr res" where
  "as_mich (VMich e) = Inr e"
| "as_mich _ = Inl ill_typed"

definition as_strs :: "fval \<Rightarrow> string list res" where
  "as_strs v = (case v of VArr vs \<Rightarrow> mapR as_str vs | _ \<Rightarrow> Inl ill_typed)"

section \<open>Hashes, keys and addresses\<close>

definition prefixEncoder :: "libs \<Rightarrow> string \<Rightarrow> string \<Rightarrow> string res" where
  "prefixEncoder L p str = bindR (b58cdecode L str (prefix_bytes p)) (\<lambda>bs. Inr (buf2hex bs))"

definition prefixDecoder :: "libs \<Rightarrow> string \<Rightarrow> consumer \<Rightarrow> (string \<times> consumer) res" where
  "prefixDecoder L p c =
     bindR (consume (prefix_len p) c) (\<lambda>(val, c1). Inr (b58cencode L val (prefix_bytes p), c1))"

definition pkhDecoder :: "libs \<Rightarrow> consumer \<Rightarrow> (string \<times> consumer) res" where
  "pkhDecoder L c =
     bindR (consume 1 c) (\<lambda>(p, c1).
       let b = unat (hd p) in
       if b = 0 then prefixDecoder L ''tz1'' c1
       else if b = 1 then prefixDecoder L ''tz2'' c1
       else if b = 2 then prefixDecoder L ''tz3'' c1
       else Inl (InvalidPkhPrefix b))"

definition pkhEncoder :: "libs \<Rightarrow> string \<Rightarrow> string res" where
  "pkhEncoder L val =
     (let p = take 3 val in
      if p = ''tz1'' then bindR (prefixEncoder L ''tz1'' val) (\<lambda>s. Inr (''00'' @ s))
      else if p = ''tz2'' then bindR (prefixEncoder L ''tz2'' val) (\<lambda>s. Inr (''01'' @ s))
      else if p = ''tz3'' then bindR (prefixEncoder L ''tz3'' val) (\<lambda>s. Inr (''02'' @ s))
      else if p = ''tz4'' then bindR (prefixEncoder L ''tz4'' val) (\<lambda>s. Inr (''03'' @ s))
      else Inl (InvalidKeyHashError val))"

definition publicKeyEncoder :: "libs \<Rightarrow> string \<Rightarrow> string res" where
  "publicKeyEncoder L val =
     (let p = take 4 val in
      if p = ''edpk'' then bindR (prefixEncoder L ''edpk'' val) (\<lambda>s. Inr (''00'' @ s))
      else if p = ''sppk'' then bindR (prefixEncoder L ''sppk'' val) (\<lambda>s. Inr (''01'' @ s))
      else if p = ''p2pk'' then bindR (prefixEncoder L ''p2pk'' val) (\<lambda>s. Inr (''02'' @ s))
      else Inl (InvalidPublicKeyError val []))"

definition publicKeyDecoder :: "libs \<Rightarrow> consumer \<Rightarrow> (string \<times> consumer) res" where
  "publicKeyDecoder L c =
     bindR (consume 1 c) (\<lambda>(p, c1).
       let b = unat (hd p) in
       if b = 0 then prefixDecoder L ''edpk'' c1
       else if b = 1 then prefixDecoder L ''sppk'' c1
       else if b = 2 then prefixDecoder L ''p2pk'' c1
       else Inl (InvalidPublicKeyError ''[object Object]'' []))"

definition addressEncoder :: "libs \<Rightarrow> string \<Rightarrow> string res" where
  "addressEncoder L val =
     (let p = take 3 val in
      if p = ''tz1'' \<or> p = ''tz2'' \<or> p = ''tz3'' \<or> p = ''tz4'' then
        bindR (pkhEncoder L val) (\<lambda>s. Inr (''00'' @ s))
      else if p = ''KT1'' then bindR (prefixEncoder L ''KT1'' val) (\<lambda>s. Inr (''01'' @ s @ ''00''))
      else Inl (InvalidAddressError val))"

definition addressDecoder :: "libs \<Rightarrow> consumer \<Rightarrow> (string \<times> consumer) res" where
  "addressDecoder L c =
     bindR (consume 1 c) (\<lambda>(p, c1).
       let b = unat (hd p) in
       if b = 0 then pkhDecoder L c1
       else if b = 1 then
         bindR (prefixDecoder L ''KT1'' c1) (\<lambda>(address, c2).
         bindR (consume 1 c2) (\<lambda>(_, c3). Inr (address, c3)))
       else Inl (InvalidAddressError ''[object Object]''))"

definition smartRollupAddressEncoder :: "libs \<Rightarrow> string \<Rightarrow> string res" where
  "smartRollupAddressEncoder L val =
     (if take 3 val \<noteq> ''sr1'' then Inl (InvalidSmartRollupAddressError val) else prefixEncoder L ''sr1'' val)"

definition smartRollupAddressDecoder :: "libs \<Rightarrow> consumer \<Rightarrow> (string \<times> consumer) res" where
  "smartRollupAddressDecoder L c =
     bindR (prefixDecoder L ''sr1'' c) (\<lambda>(address, c1).
       if take 3 address \<noteq> ''sr1'' then Inl (InvalidAddressError address) else Inr (address, c1))"

definition smartContractAddressEncoder :: "libs \<Rightarrow> string \<Rightarrow> string res" where
  "smartContractAddressEncoder L val =
     (if take 3 val = ''KT1'' then bindR (prefixEncoder L ''KT1'' val) (\<lambda>s. Inr (''01'' @ s @ ''00''))
      else Inl (InvalidContractAddressError val))"

definition smartContractAddressDecoder :: "libs \<Rightarrow> consumer \<Rightarrow> (string \<times> consumer) res" where
  "smartContractAddressDecoder L c =
     bindR (consume 1 c) (\<lambda>(p, c1).
       if unat (hd p) = 1 then
         bindR (prefixDecoder L ''KT1'' c1) (\<lambda>(address, c2).
         bindR (consume 1 c2) (\<lambda>(_, c3). Inr (address, c3)))
       else Inl (InvalidContractAddressError ''[object Object]''))"

definition smartRollupContractAddressEncoder :: "libs \<Rightarrow> string \<Rightarrow> string res" where
  "smartRollupContractAddressEncoder L val =
     (if take 4 val = ''src1'' then prefixEncoder L ''src1'' val
      else Inl (InvalidSmartRollupContractAddressError val))"

definition smartRollupCommitmentHashDecoder :: "libs \<Rightarrow> consumer \<Rightarrow> (string \<times> consumer) res" where
  "smartRollupCommitmentHashDecoder L c =
     bindR (prefixDecoder L ''src1'' c) (\<lambda>(address, c1).
       if take 4 address \<noteq> ''src1'' then Inl (InvalidSmartRollupContractAddressError address)
       else Inr (address, c1))"

definition boolEncoder :: "bool \<Rightarrow> string" where
  "boolEncoder b = (if b then ''ff'' else ''00'')"

definition boolDecoder :: "consumer \<Rightarrow> (bool \<times> consumer) res" where
  "boolDecoder c = bindR (consume 1 c) (\<lambda>(b, c1). Inr (unat (hd b) = 255, c1))"

text \<open>An absent or empty delegate is no delegate.\<close>

definition delegateEncoder :: "libs \<Rightarrow> fval \<Rightarrow> string res" where
  "delegateEncoder L v =
     (if v = VUndef \<or> v = VStr [] then Inr (boolEncoder False)
      else bindR (as_str v) (\<lambda>val. bindR (pkhEncoder L val) (\<lambda>s. Inr (boolEncoder True @ s))))"

definition delegateDecoder :: "libs \<Rightarrow> consumer \<Rightarrow> (fval \<times> consumer) res" where
  "delegateDecoder L c =
     bindR (boolDecoder c) (\<lambda>(hasDelegate, c1).
       if hasDelegate then bindR (pkhDecoder L c1) (\<lambda>(s, c2). Inr (VStr s, c2)) else Inr (VUndef, c1))"

section \<open>Votes\<close>

definition proposalsEncoder :: "libs \<Rightarrow> string list \<Rightarrow> string res" where
  "proposalsEncoder L proposals =
     bindR (pad (32 * length proposals) 8) (\<lambda>len.
     bindR (mapR (prefixEncoder L ''P'') proposals) (\<lambda>xs. Inr (len @ concat xs)))"

text \<open>The loop ends because every proposal takes 32 bytes.\<close>

function proposalsLoop :: "libs \<Rightarrow> consumer \<Rightarrow> (string list \<times> consumer) res" where
  "proposalsLoop L c =
     (if clen c > 0 then
        bindR (prefixDecoder L ''P'' c) (\<lambda>(p, c1). bindR (proposalsLoop L c1) (\<lambda>(ps, c2). Inr (p # ps, c2)))
      else Inr ([], c))"
  by pat_completeness auto
termination
proof (relation "measure (\<lambda>(L, c). clen c)", simp)
  fix L c x p c1 assume "0 < clen c" "prefixDecoder L ''P'' c = Inr x" "(p, c1) = x"
  then show "((L, c1), L, c) \<in> measure (\<lambda>(L, c). clen c)"
    by (auto simp: prefixDecoder_def bindR_eq_Inr consume_Inr)
qed

declare proposalsLoop.simps [simp del]

definition proposalsDecoder :: "libs \<Rightarrow> consumer \<Rightarrow> (string list \<times> consumer) res" where
  "proposalsDecoder L c = bindR (consume 4 c) (\<lambda>(_, c1). proposalsLoop L c1)"

definition ballotEncoder :: "fval \<Rightarrow> string res" where
  "ballotEncoder v =
     (if v = VStr ''yay'' then Inr ''00'' else if v = VStr ''nay'' then Inr ''01''
      else if v = VStr ''pass'' then Inr ''02''
      else Inl (InvalidBallotValueError (case v of VStr s \<Rightarrow> s | _ \<Rightarrow> ''undefined'')))"

definition ballotDecoder :: "consumer \<Rightarrow> (string \<times> consumer) res" where
  "ballotDecoder c =
     bindR (consume 1 c) (\<lambda>(value, c1).
       let b = unat (hd value) in
       if b = 0 then Inr (''yay'', c1) else if b = 1 then Inr (''nay'', c1)
       else if b = 2 then Inr (''pass'', c1) else Inl (DecodeBallotValueError b))"

definition pvmKindEncoder :: "fval \<Rightarrow> string res" where
  "pvmKindEncoder v =
     (if v = VStr ''arith'' then Inr ''00'' else if v = VStr ''wasm_2_0_0'' then Inr ''01''
      else Inl (UnsupportedPvmKindError (case v of VStr s \<Rightarrow> s | _ \<Rightarrow> ''undefined'')))"

definition pvmKindDecoder :: "consumer \<Rightarrow> (string \<times> consumer) res" where
  "pvmKindDecoder c =
     bindR (consume 1 c) (\<lambda>(value, c1).
       let b = unat (hd value) in
       if b = 0 then Inr (''arith'', c1) else if b = 1 then Inr (''wasm_2_0_0'', c1)
       else Inl (DecodePvmKindError b))"

section \<open>Integers of fixed width\<close>

text \<open>\<open>parseInt(String(val), 10)\<close> in bit operations: its value is a double, of which the lowest 32
  bits count, and NaN counts as 0.  A number from 10 to the 21 prints in exponent form, of which
  \<open>parseInt\<close> reads the digits before the full stop.\<close>

definition int32_of_text :: "string \<Rightarrow> 32 word" where
  "int32_of_text s = (case js_parseInt 10 s of Some i \<Rightarrow> word_of_int (to_double i) | None \<Rightarrow> 0)"

definition to_int32 :: "fval \<Rightarrow> 32 word res" where
  "to_int32 v =
     (case v of
        VStr s \<Rightarrow> Inr (int32_of_text s)
      | VNum n \<Rightarrow> Inr (int32_of_text (js_number_text n))
      | VUndef \<Rightarrow> Inr (int32_of_text ''undefined'')
      | _ \<Rightarrow> Inl ill_typed)"

text \<open>\<open>(num & (0xff << shiftBy)) >> shiftBy\<close> on 32-bit integers, then a byte of a buffer.\<close>

definition byte_at :: "32 word \<Rightarrow> nat \<Rightarrow> byte" where
  "byte_at num shiftBy = ucast (signed_drop_bit shiftBy (num AND push_bit shiftBy 255))"

definition int32Encoder :: "fval \<Rightarrow> string res" where
  "int32Encoder v =
     bindR (to_int32 v) (\<lambda>num. Inr (hexOf (map (\<lambda>i. byte_at num ((4 - (i + 1)) * 8)) [0..<4])))"

definition int16Encoder :: "fval \<Rightarrow> string res" where
  "int16Encoder v =
     bindR (to_int32 v) (\<lambda>num. Inr (hexOf (map (\<lambda>i. byte_at num ((2 - (i + 1)) * 8)) [0..<2])))"

text \<open>\<open>finalNum | (num[i] << ...)\<close>, whose result is a signed 32-bit integer.\<close>

definition or_bytes :: "byte list \<Rightarrow> 32 word" where
  "or_bytes num =
     foldl (\<lambda>acc i. acc OR push_bit ((length num - (i + 1)) * 8) (ucast (num ! i))) 0 [0..<length num]"

definition int32Decoder :: "consumer \<Rightarrow> (int \<times> consumer) res" where
  "int32Decoder c = bindR (consume 4 c) (\<lambda>(num, c1). Inr (sint (or_bytes num), c1))"

definition int16Decoder :: "consumer \<Rightarrow> (int \<times> consumer) res" where
  "int16Decoder c = bindR (consume 2 c) (\<lambda>(num, c1). Inr (sint (or_bytes num), c1))"

section \<open>Numbers of variable length\<close>

text \<open>\<open>nn.toString(16)\<close> of an integer.\<close>

definition bn_hex :: "int \<Rightarrow> string" where
  "bn_hex i = (if i < 0 then CHR ''-'' # digits 16 (nat (- i)) else digits 16 (nat i))"

function zarithLoop :: "int \<Rightarrow> string" where
  "zarithLoop nn =
     (if nn < 128 then (if nn < 16 then ''0'' else []) @ bn_hex nn
      else bn_hex (nn mod 128 + 128) @ zarithLoop ((nn - nn mod 128) div 128))"
  by pat_completeness auto
termination
proof (relation "measure nat", simp)
  fix nn :: int assume "\<not> nn < 128"
  moreover have "(nn - nn mod 128) div 128 = nn div 128"
    by (metis div_mult_mod_eq add_diff_cancel_right' nonzero_mult_div_cancel_right zero_neq_numeral)
  moreover have "nn div 128 < nn" if "128 \<le> nn" using that by (intro int_div_less_self) auto
  ultimately show "((nn - nn mod 128) div 128, nn) \<in> measure nat" by simp
qed

declare zarithLoop.simps [simp del]

definition zarithEncoder :: "libs \<Rightarrow> string \<Rightarrow> string res" where
  "zarithEncoder L n =
     (case bn_parse L n of None \<Rightarrow> Inl (TypeErr ''Invalid zarith number'') | Some nn \<Rightarrow> Inr (zarithLoop nn))"

text \<open>The index of the last byte of the number: the first without the continuation bit.\<close>

function msb_index :: "consumer \<Rightarrow> nat \<Rightarrow> nat" where
  "msb_index c i =
     (if i < clen c \<and> (case cget i c of Some b \<Rightarrow> b AND 128 \<noteq> 0 | None \<Rightarrow> False)
      then msb_index c (i + 1) else i)"
  by pat_completeness auto
termination
  by (relation "measure (\<lambda>(c, i). clen c - i)") auto

declare msb_index.simps [simp del]

text \<open>The loop over \<open>i\<close> from the last byte down to 0; past the end \<open>get\<close> is \<open>undefined\<close>, a 0.\<close>

definition zarith_num :: "consumer \<Rightarrow> nat \<Rightarrow> int" where
  "zarith_num c msb =
     foldl (\<lambda>num i. num * 128 + (case cget i c of Some b \<Rightarrow> int (unat (b AND 127)) | None \<Rightarrow> 0)) 0
       (rev [0..<msb + 1])"

definition zarithDecoder :: "libs \<Rightarrow> consumer \<Rightarrow> (string \<times> consumer) res" where
  "zarithDecoder L c =
     (let msb = msb_index c 0; num = zarith_num c msb in
      bindR (consume (msb + 1) c) (\<lambda>(_, c1). Inr (bn_toString L num, c1)))"

text \<open>\<open>burnLimit\<close> and \<open>depositsLimit\<close>: absent or empty, or a number.\<close>

definition burnLimitEncoder :: "libs \<Rightarrow> fval \<Rightarrow> string res" where
  "burnLimitEncoder L v =
     (if v = VUndef \<or> v = VStr [] then Inr ''00''
      else bindR (as_str v) (\<lambda>val. bindR (zarithEncoder L val) (\<lambda>s. Inr (''ff'' @ s))))"

definition burnLimitDecoder :: "libs \<Rightarrow> consumer \<Rightarrow> (fval \<times> consumer) res" where
  "burnLimitDecoder L c =
     bindR (consume 1 c) (\<lambda>(p, c1).
       if hexOf p \<noteq> ''00'' then bindR (zarithDecoder L c1) (\<lambda>(s, c2). Inr (VStr s, c2))
       else Inr (VUndef, c1))"

definition depositsLimitEncoder :: "libs \<Rightarrow> fval \<Rightarrow> string res" where
  "depositsLimitEncoder L v =
     (if v = VUndef \<or> v = VStr [] then Inr ''00''
      else bindR (as_str v) (\<lambda>val. bindR (zarithEncoder L val) (\<lambda>s. Inr (''ff'' @ s))))"

definition depositsLimitDecoder :: "libs \<Rightarrow> consumer \<Rightarrow> (fval \<times> consumer) res" where
  "depositsLimitDecoder L c =
     bindR (consume 1 c) (\<lambda>(p, c1).
       if hexOf p \<noteq> ''00'' then bindR (zarithDecoder L c1) (\<lambda>(s, c2). Inr (VStr s, c2))
       else Inr (VUndef, c1))"

section \<open>Entrypoints and parameters\<close>

text \<open>The table is a plain object, so \<open>in\<close> also finds the properties every object has; the
  template prints them.\<close>

definition object_properties :: "(string \<times> string) list" where
  "object_properties =
     (''__proto__'', ''[object Object]'') # (''constructor'', ''function Object() { [native code] }'') #
     map (\<lambda>n. (n, ''function '' @ n @ ''() { [native code] }''))
       [''__defineGetter__'', ''__defineSetter__'', ''hasOwnProperty'', ''__lookupGetter__'',
        ''__lookupSetter__'', ''isPrototypeOf'', ''propertyIsEnumerable'', ''toString'', ''valueOf'',
        ''toLocaleString'']"

definition entrypointEncoder :: "string \<Rightarrow> string res" where
  "entrypointEncoder entrypoint =
     (case map_of (entrypointMappingReverse @ object_properties) entrypoint of
        Some s \<Rightarrow> Inr s
      | None \<Rightarrow>
          if js_length entrypoint > ENTRYPOINT_MAX_LENGTH then Inl (OversizedEntryPointError entrypoint)
          else bindR (stringEncoder entrypoint) (\<lambda>s. Inr (''ff'' @ drop 8 s)))"

definition entrypointDecoder :: "consumer \<Rightarrow> (string \<times> consumer) res" where
  "entrypointDecoder c =
     bindR (consume 1 c) (\<lambda>(b, c1).
     bindR (pad (unat (hd b)) 2) (\<lambda>preamble.
       case map_of entrypointMapping preamble of
         Some e \<Rightarrow> Inr (e, c1)
       | None \<Rightarrow>
           bindR (extractRequiredLen 1 c1) (\<lambda>(entry, c2).
             let entrypoint = utf8_decode entry in
             if js_length entrypoint > ENTRYPOINT_MAX_LENGTH then Inl (OversizedEntryPointError entrypoint)
             else Inr (entrypoint, c2))))"

text \<open>The length of the value is padded but not checked to fit.\<close>

definition parametersEncoder :: "libs \<Rightarrow> fval \<Rightarrow> string res" where
  "parametersEncoder L v =
     (case v of
        VUndef \<Rightarrow> Inr ''00''
      | VParam entrypoint value \<Rightarrow>
          if entrypoint = ''default'' \<and> (case value of Prim p _ _ \<Rightarrow> p = ''Unit'' | _ \<Rightarrow> False) then Inr ''00''
          else bindR (entrypointEncoder entrypoint) (\<lambda>encodedEntrypoint.
               bindR (valueEncoder L value) (\<lambda>parameters.
               Inr (''ff'' @ encodedEntrypoint @ padStart 8 (half_text (length parameters)) @ parameters)))
      | _ \<Rightarrow> Inl ill_typed)"

definition parametersDecoder :: "libs \<Rightarrow> consumer \<Rightarrow> (fval \<times> consumer) res" where
  "parametersDecoder L c =
     bindR (consume 1 c) (\<lambda>(preamble, c1).
       if unat (hd preamble) = 0 then Inr (VUndef, c1)
       else bindR (entrypointDecoder c1) (\<lambda>(encodedEntrypoint, c2).
            bindR (extractRequiredLen 4 c2) (\<lambda>(params, c3).
            bindR (valueDecoder L (mkConsumer params)) (\<lambda>(parameters, _).
            Inr (VParam encodedEntrypoint parameters, c3)))))"

definition valueParameterEncoder :: "libs \<Rightarrow> expr \<Rightarrow> string res" where
  "valueParameterEncoder L value =
     bindR (valueEncoder L value) (\<lambda>valueEncoded.
     bindR (pad_half (length valueEncoded) 8) (\<lambda>len. Inr (len @ valueEncoded)))"

definition valueParameterDecoder :: "libs \<Rightarrow> consumer \<Rightarrow> (expr \<times> consumer) res" where
  "valueParameterDecoder L c =
     bindR (extractRequiredLen 4 c) (\<lambda>(value, c1).
     bindR (valueDecoder L (mkConsumer value)) (\<lambda>(v, _). Inr (v, c1)))"

definition entrypointNameEncoder :: "string \<Rightarrow> string res" where
  "entrypointNameEncoder entrypoint = bindR (stringEncoder entrypoint) (\<lambda>s. Inr (drop 2 s))"

definition entrypointNameDecoder :: "consumer \<Rightarrow> (string \<times> consumer) res" where
  "entrypointNameDecoder c = bindR (extractRequiredLen 4 c) (\<lambda>(entry, c1). Inr (utf8_decode entry, c1))"

section \<open>Bytes and messages\<close>

definition txRollupOriginationParamEncoder :: "fval \<Rightarrow> string res" where
  "txRollupOriginationParamEncoder v = Inr []"

definition txRollupOriginationParamDecoder :: "consumer \<Rightarrow> (fval \<times> consumer) res" where
  "txRollupOriginationParamDecoder c = Inr (VObj [], c)"

definition txRollupBatchContentEncoder :: "string \<Rightarrow> string res" where
  "txRollupBatchContentEncoder value = bindR (pad_half (length value) 8) (\<lambda>len. Inr (len @ value))"

definition txRollupBatchContentDecoder :: "consumer \<Rightarrow> (string \<times> consumer) res" where
  "txRollupBatchContentDecoder c = bindR (extractRequiredLen 4 c) (\<lambda>(value, c1). Inr (hexOf value, c1))"

definition paddedBytesEncoder :: "string \<Rightarrow> nat \<Rightarrow> string res" where
  "paddedBytesEncoder val paddingLength =
     bindR (pad_half (length val) paddingLength) (\<lambda>len. Inr (len @ val))"

definition paddedBytesDecoder :: "consumer \<Rightarrow> (string \<times> consumer) res" where
  "paddedBytesDecoder c = bindR (extractRequiredLen 4 c) (\<lambda>(value, c1). Inr (hexOf value, c1))"

definition smartRollupMessageEncoder :: "string list \<Rightarrow> string res" where
  "smartRollupMessageEncoder val =
     bindR (mapR (\<lambda>curr. bindR (pad_half (length curr) 8) (\<lambda>len. Inr (len @ curr))) val) (\<lambda>ms.
       let message = concat ms in
       bindR (pad_half (length message) 8) (\<lambda>len. Inr (len @ message)))"

definition smartRollupMessageDecoder :: "consumer \<Rightarrow> (string list \<times> consumer) res" where
  "smartRollupMessageDecoder c =
     bindR (extractRequiredLen 4 c) (\<lambda>(valueArray, c1).
     bindR (stripLengthPrefixFromBytes (length valueArray + 1) 4 (mkConsumer valueArray)) (\<lambda>ret.
     Inr (map hexOf ret, c1)))"

text \<open>\<open>passthroughFixedLengthDecoder\<close> of \<open>encoder.ts\<close>, and the raw decoders of \<open>decoder.ts\<close>.\<close>

definition passthroughFixedLengthDecoder :: "nat \<Rightarrow> fval \<Rightarrow> string res" where
  "passthroughFixedLengthDecoder byteLength v =
     bindR (case v of VUndef \<Rightarrow> Inr ''undefined'' | _ \<Rightarrow> as_str v) (\<lambda>val.
       if \<not> list_all is_hex val then Inl (PlainError ''not a valid hex string'')
       else if length val \<noteq> byteLength * 2 then Inl (PlainError ''wrong length'')
       else Inr val)"

definition rawDecoder :: "nat \<Rightarrow> consumer \<Rightarrow> (string \<times> consumer) res" where
  "rawDecoder n c = bindR (consume n c) (\<lambda>(bs, c1). Inr (toHexString bs, c1))"

end
