(* ===== verification/ForgeSchema.thy ===== *)
theory ForgeSchema
  imports ForgeCodec
begin

text \<open>
  Operations as sequences of fields: the schemas of \<open>schema/operation.ts\<close>, the tables of
  encoders and decoders of \<open>encoder.ts\<close> and \<open>decoder.ts\<close>, and the functions that walk a
  schema.  An object is the list of its own properties, in order.
\<close>

section \<open>Schemas\<close>

datatype schema_field = One codec_id | Many codec_id

type_synonym schema = "(string \<times> schema_field) list"

definition manager_fields :: schema where
  "manager_fields = [(''source'', One CODEC_PKH), (''fee'', One CODEC_ZARITH), (''counter'', One CODEC_ZARITH),
     (''gas_limit'', One CODEC_ZARITH), (''storage_limit'', One CODEC_ZARITH)]"

definition ManagerOperationSchema :: schema where
  "ManagerOperationSchema = [(''branch'', One CODEC_BRANCH), (''contents'', Many CODEC_OPERATION)]"
definition ActivationSchema :: schema where
  "ActivationSchema = [(''pkh'', One CODEC_TZ1), (''secret'', One CODEC_SECRET)]"
definition RevealSchema :: schema where
  "RevealSchema = manager_fields @ [(''public_key'', One CODEC_PUBLIC_KEY)]"
definition DelegationSchema :: schema where
  "DelegationSchema = manager_fields @ [(''delegate'', One CODEC_DELEGATE)]"
definition TransactionSchema :: schema where
  "TransactionSchema = manager_fields @ [(''amount'', One CODEC_ZARITH), (''destination'', One CODEC_ADDRESS),
     (''parameters'', One CODEC_PARAMETERS)]"
definition OriginationSchema :: schema where
  "OriginationSchema = manager_fields @ [(''balance'', One CODEC_ZARITH), (''delegate'', One CODEC_DELEGATE),
     (''script'', One CODEC_SCRIPT)]"
definition BallotSchema :: schema where
  "BallotSchema = [(''source'', One CODEC_PKH), (''period'', One CODEC_INT32), (''proposal'', One CODEC_PROPOSAL),
     (''ballot'', One CODEC_BALLOT_STATEMENT)]"
definition EndorsementSchema :: schema where
  "EndorsementSchema = [(''slot'', One CODEC_INT16), (''level'', One CODEC_INT32), (''round'', One CODEC_INT32),
     (''block_payload_hash'', One CODEC_BLOCK_PAYLOAD_HASH)]"
definition SeedNonceRevelationSchema :: schema where
  "SeedNonceRevelationSchema = [(''level'', One CODEC_INT32), (''nonce'', One CODEC_RAW)]"
definition ProposalsSchema :: schema where
  "ProposalsSchema = [(''source'', One CODEC_PKH), (''period'', One CODEC_INT32), (''proposals'', One CODEC_PROPOSAL_ARR)]"
definition RegisterGlobalConstantSchema :: schema where
  "RegisterGlobalConstantSchema = manager_fields @ [(''value'', One CODEC_VALUE)]"
definition TransferTicketSchema :: schema where
  "TransferTicketSchema = manager_fields @ [(''ticket_contents'', One CODEC_VALUE), (''ticket_ty'', One CODEC_VALUE),
     (''ticket_ticketer'', One CODEC_ADDRESS), (''ticket_amount'', One CODEC_ZARITH),
     (''destination'', One CODEC_ADDRESS), (''entrypoint'', One CODEC_ENTRYPOINT)]"
definition TxRollupOriginationSchema :: schema where
  "TxRollupOriginationSchema = manager_fields @ [(''tx_rollup_origination'', One CODEC_TX_ROLLUP_ORIGINATION_PARAM)]"
definition TxRollupSubmitBatchSchema :: schema where
  "TxRollupSubmitBatchSchema = manager_fields @ [(''rollup'', One CODEC_TX_ROLLUP_ID),
     (''content'', One CODEC_TX_ROLLUP_BATCH_CONTENT), (''burn_limit'', One CODEC_BURN_LIMIT)]"
definition IncreasePaidStorageSchema :: schema where
  "IncreasePaidStorageSchema = manager_fields @ [(''amount'', One CODEC_ZARITH),
     (''destination'', One CODEC_SMART_CONTRACT_ADDRESS)]"
definition UpdateConsensusKeySchema :: schema where
  "UpdateConsensusKeySchema = manager_fields @ [(''pk'', One CODEC_PUBLIC_KEY)]"
definition DrainDelegateSchema :: schema where
  "DrainDelegateSchema = [(''consensus_key'', One CODEC_PKH), (''delegate'', One CODEC_PKH), (''destination'', One CODEC_PKH)]"
definition SetDepositsLimitSchema :: schema where
  "SetDepositsLimitSchema = manager_fields @ [(''limit'', One CODEC_DEPOSITS_LIMIT)]"
definition SmartRollupOriginateSchema :: schema where
  "SmartRollupOriginateSchema = manager_fields @ [(''pvm_kind'', One CODEC_PVM_KIND), (''kernel'', One CODEC_PADDED_BYTES),
     (''origination_proof'', One CODEC_PADDED_BYTES), (''parameters_ty'', One CODEC_VALUE)]"
definition SmartRollupAddMessagesSchema :: schema where
  "SmartRollupAddMessagesSchema = manager_fields @ [(''message'', One CODEC_SMART_ROLLUP_MESSAGE)]"
definition SmartRollupExecuteOutboxMessageSchema :: schema where
  "SmartRollupExecuteOutboxMessageSchema = manager_fields @ [(''rollup'', One CODEC_SMART_ROLLUP_ADDRESS),
     (''cemented_commitment'', One CODEC_SMART_ROLLUP_COMMITMENT_HASH), (''output_proof'', One CODEC_PADDED_BYTES)]"

lemmas schema_defs = manager_fields_def ManagerOperationSchema_def ActivationSchema_def RevealSchema_def
  DelegationSchema_def TransactionSchema_def OriginationSchema_def BallotSchema_def EndorsementSchema_def
  SeedNonceRevelationSchema_def ProposalsSchema_def RegisterGlobalConstantSchema_def TransferTicketSchema_def
  TxRollupOriginationSchema_def TxRollupSubmitBatchSchema_def IncreasePaidStorageSchema_def
  UpdateConsensusKeySchema_def DrainDelegateSchema_def SetDepositsLimitSchema_def SmartRollupOriginateSchema_def
  SmartRollupAddMessagesSchema_def SmartRollupExecuteOutboxMessageSchema_def

section \<open>The field encoders and decoders\<close>

definition on_str :: "(string \<Rightarrow> string res) \<Rightarrow> fval \<Rightarrow> string res" where
  "on_str enc v = bindR (as_str v) enc"

definition to_str :: "(consumer \<Rightarrow> (string \<times> consumer) res) \<Rightarrow> consumer \<Rightarrow> (fval \<times> consumer) res" where
  "to_str dec c = bindR (dec c) (\<lambda>(s, c1). Inr (VStr s, c1))"

definition to_num :: "(consumer \<Rightarrow> (int \<times> consumer) res) \<Rightarrow> consumer \<Rightarrow> (fval \<times> consumer) res" where
  "to_num dec c = bindR (dec c) (\<lambda>(n, c1). Inr (VNum n, c1))"

definition to_strs :: "(consumer \<Rightarrow> (string list \<times> consumer) res) \<Rightarrow> consumer \<Rightarrow> (fval \<times> consumer) res" where
  "to_strs dec c = bindR (dec c) (\<lambda>(ss, c1). Inr (VArr (map VStr ss), c1))"

definition field_encoders :: "libs \<Rightarrow> (codec_id \<times> (fval \<Rightarrow> string res)) list" where
  "field_encoders L = [
   (CODEC_SECRET, passthroughFixedLengthDecoder 20),
   (CODEC_RAW, passthroughFixedLengthDecoder 32),
   (CODEC_TZ1, on_str (prefixEncoder L ''tz1'')),
   (CODEC_BRANCH, on_str (prefixEncoder L ''B'')),
   (CODEC_ZARITH, on_str (zarithEncoder L)),
   (CODEC_PUBLIC_KEY, on_str (publicKeyEncoder L)),
   (CODEC_PKH, on_str (pkhEncoder L)),
   (CODEC_DELEGATE, delegateEncoder L),
   (CODEC_SCRIPT, \<lambda>v. case v of VScript code storage \<Rightarrow> scriptEncoder L code storage | _ \<Rightarrow> Inl ill_typed),
   (CODEC_BALLOT_STATEMENT, ballotEncoder),
   (CODEC_PROPOSAL, on_str (prefixEncoder L ''P'')),
   (CODEC_PROPOSAL_ARR, \<lambda>v. bindR (as_strs v) (proposalsEncoder L)),
   (CODEC_INT32, int32Encoder),
   (CODEC_PARAMETERS, parametersEncoder L),
   (CODEC_ADDRESS, on_str (addressEncoder L)),
   (CODEC_SMART_ROLLUP_ADDRESS, on_str (smartRollupAddressEncoder L)),
   (CODEC_SMART_CONTRACT_ADDRESS, on_str (smartContractAddressEncoder L)),
   (CODEC_SMART_ROLLUP_COMMITMENT_HASH, on_str (smartRollupContractAddressEncoder L)),
   (CODEC_VALUE, \<lambda>v. bindR (as_mich v) (valueParameterEncoder L)),
   (CODEC_INT16, int16Encoder),
   (CODEC_BLOCK_PAYLOAD_HASH, on_str (prefixEncoder L ''vh'')),
   (CODEC_ENTRYPOINT, on_str entrypointNameEncoder),
   (CODEC_TX_ROLLUP_ORIGINATION_PARAM, txRollupOriginationParamEncoder),
   (CODEC_TX_ROLLUP_ID, on_str (prefixEncoder L ''txr1'')),
   (CODEC_TX_ROLLUP_BATCH_CONTENT, on_str txRollupBatchContentEncoder),
   (CODEC_BURN_LIMIT, burnLimitEncoder L),
   (CODEC_DEPOSITS_LIMIT, depositsLimitEncoder L),
   (CODEC_PVM_KIND, pvmKindEncoder),
   (CODEC_PADDED_BYTES, on_str (\<lambda>v. paddedBytesEncoder v 8)),
   (CODEC_SMART_ROLLUP_MESSAGE, \<lambda>v. bindR (as_strs v) smartRollupMessageEncoder)]"

definition field_decoders :: "libs \<Rightarrow> (codec_id \<times> (consumer \<Rightarrow> (fval \<times> consumer) res)) list" where
  "field_decoders L = [
   (CODEC_SECRET, to_str (rawDecoder 20)),
   (CODEC_RAW, to_str (rawDecoder 32)),
   (CODEC_TZ1, to_str (prefixDecoder L ''tz1'')),
   (CODEC_BRANCH, to_str (prefixDecoder L ''B'')),
   (CODEC_ZARITH, to_str (zarithDecoder L)),
   (CODEC_PUBLIC_KEY, to_str (publicKeyDecoder L)),
   (CODEC_PKH, to_str (pkhDecoder L)),
   (CODEC_DELEGATE, delegateDecoder L),
   (CODEC_INT32, to_num int32Decoder),
   (CODEC_SCRIPT, \<lambda>c. bindR (scriptDecoder L c) (\<lambda>((code, storage), c1). Inr (VScript code storage, c1))),
   (CODEC_BALLOT_STATEMENT, to_str ballotDecoder),
   (CODEC_PROPOSAL, to_str (prefixDecoder L ''P'')),
   (CODEC_PROPOSAL_ARR, to_strs (proposalsDecoder L)),
   (CODEC_PARAMETERS, parametersDecoder L),
   (CODEC_ADDRESS, to_str (addressDecoder L)),
   (CODEC_SMART_ROLLUP_ADDRESS, to_str (smartRollupAddressDecoder L)),
   (CODEC_SMART_CONTRACT_ADDRESS, to_str (smartContractAddressDecoder L)),
   (CODEC_SMART_ROLLUP_COMMITMENT_HASH, to_str (smartRollupCommitmentHashDecoder L)),
   (CODEC_VALUE, \<lambda>c. bindR (valueParameterDecoder L c) (\<lambda>(v, c1). Inr (VMich v, c1))),
   (CODEC_INT16, to_num int16Decoder),
   (CODEC_BLOCK_PAYLOAD_HASH, to_str (prefixDecoder L ''vh'')),
   (CODEC_ENTRYPOINT, to_str entrypointNameDecoder),
   (CODEC_TX_ROLLUP_ORIGINATION_PARAM, txRollupOriginationParamDecoder),
   (CODEC_TX_ROLLUP_ID, to_str (prefixDecoder L ''txr1'')),
   (CODEC_TX_ROLLUP_BATCH_CONTENT, to_str txRollupBatchContentDecoder),
   (CODEC_BURN_LIMIT, burnLimitDecoder L),
   (CODEC_DEPOSITS_LIMIT, depositsLimitDecoder L),
   (CODEC_PVM_KIND, to_str pvmKindDecoder),
   (CODEC_PADDED_BYTES, to_str paddedBytesDecoder),
   (CODEC_SMART_ROLLUP_MESSAGE, to_strs smartRollupMessageDecoder)]"

section \<open>Walking a schema\<close>

text \<open>\<open>value[key]\<close>.\<close>

definition get_prop :: "fval \<Rightarrow> string \<Rightarrow> fval res" where
  "get_prop v key =
     (case v of
        VObj props \<Rightarrow> Inr (case map_of props key of Some x \<Rightarrow> x | None \<Rightarrow> VUndef)
      | VUndef \<Rightarrow> Inl (TypeErr key)
      | _ \<Rightarrow> Inr VUndef)"

definition no_function :: js_error where
  "no_function = TypeErr ''not a function''"

fun schemaEncoder :: "(codec_id \<Rightarrow> (fval \<Rightarrow> string res) option) \<Rightarrow> schema \<Rightarrow> fval \<Rightarrow> string res" where
  "schemaEncoder encs [] v = Inr []"
| "schemaEncoder encs ((key, Many k) # sch) v =
     bindR (get_prop v key) (\<lambda>values.
     case values of
       VArr vs \<Rightarrow>
         bindR (mapR (case encs k of Some enc \<Rightarrow> enc | None \<Rightarrow> (\<lambda>_. Inl no_function)) vs) (\<lambda>bytes.
         bindR (schemaEncoder encs sch v) (\<lambda>rest. Inr (concat bytes @ rest)))
     | _ \<Rightarrow> Inl OperationEncodingError)"
| "schemaEncoder encs ((key, One k) # sch) v =
     bindR (get_prop v key) (\<lambda>x.
     bindR (case encs k of Some enc \<Rightarrow> enc x | None \<Rightarrow> Inl no_function) (\<lambda>bytes.
     bindR (schemaEncoder encs sch v) (\<lambda>rest. Inr (bytes @ rest))))"

text \<open>The loop \<open>while (value.length() > 0)\<close>; it compares with the length before the loop only.\<close>

fun decodeMany ::
    "nat \<Rightarrow> (consumer \<Rightarrow> (fval \<times> consumer) res) \<Rightarrow> nat \<Rightarrow> consumer \<Rightarrow> (fval list \<times> consumer) res" where
  "decodeMany 0 dec lastLength c = Inl OutOfFuel"
| "decodeMany (Suc fuel) dec lastLength c =
     (if clen c > 0 then
        bindR (dec c) (\<lambda>(v, c1).
          if lastLength = clen c1 then Inl OperationDecodingError
          else bindR (decodeMany fuel dec lastLength c1) (\<lambda>(vs, c2). Inr (v # vs, c2)))
      else Inr ([], c))"

fun schemaDecoder ::
    "(codec_id \<Rightarrow> (consumer \<Rightarrow> (fval \<times> consumer) res) option) \<Rightarrow> schema \<Rightarrow> consumer
      \<Rightarrow> ((string \<times> fval) list \<times> consumer) res" where
  "schemaDecoder decs [] c = Inr ([], c)"
| "schemaDecoder decs ((key, Many k) # sch) c =
     bindR (decodeMany (clen c + 1) (case decs k of Some d \<Rightarrow> d | None \<Rightarrow> (\<lambda>_. Inl no_function)) (clen c) c)
       (\<lambda>(vs, c1).
     bindR (schemaDecoder decs sch c1) (\<lambda>(obj, c2). Inr ((key, VArr vs) # obj, c2)))"
| "schemaDecoder decs ((key, One k) # sch) c =
     bindR (case decs k of Some d \<Rightarrow> d c | None \<Rightarrow> Inl no_function) (\<lambda>(v, c1).
     bindR (schemaDecoder decs sch c1) (\<lambda>(obj, c2). Inr (if v = VUndef then obj else (key, v) # obj, c2)))"

section \<open>Operations\<close>

text \<open>The schema that \<open>encoder.ts\<close> and \<open>decoder.ts\<close> install under the name of a kind.\<close>

definition kind_schemas :: "(string \<times> schema) list" where
  "kind_schemas = [
   (''activate_account'', ActivationSchema), (''delegation'', DelegationSchema),
   (''transaction'', TransactionSchema), (''origination'', OriginationSchema), (''ballot'', BallotSchema),
   (''endorsement'', EndorsementSchema), (''seed_nonce_revelation'', SeedNonceRevelationSchema),
   (''proposals'', ProposalsSchema), (''reveal'', RevealSchema),
   (''register_global_constant'', RegisterGlobalConstantSchema), (''transfer_ticket'', TransferTicketSchema),
   (''tx_rollup_origination'', TxRollupOriginationSchema),
   (''tx_rollup_submit_batch'', TxRollupSubmitBatchSchema),
   (''increase_paid_storage'', IncreasePaidStorageSchema),
   (''update_consensus_key'', UpdateConsensusKeySchema), (''drain_delegate'', DrainDelegateSchema),
   (''smart_rollup_originate'', SmartRollupOriginateSchema),
   (''smart_rollup_add_messages'', SmartRollupAddMessagesSchema),
   (''smart_rollup_execute_outbox_message'', SmartRollupExecuteOutboxMessageSchema),
   (''set_deposits_limit'', SetDepositsLimitSchema)]"

definition operationEncoder :: "libs \<Rightarrow> fval \<Rightarrow> string res" where
  "operationEncoder L operation =
     bindR (get_prop operation ''kind'') (\<lambda>kind.
       case kind of
         VStr k \<Rightarrow>
           (case (map_of kind_schemas k, map_of kindMappingReverse k) of
              (Some sch, Some tag) \<Rightarrow>
                bindR (schemaEncoder (map_of (field_encoders L)) sch operation) (\<lambda>s. Inr (tag @ s))
            | _ \<Rightarrow> Inl (InvalidOperationKindError k))
       | _ \<Rightarrow> Inl (InvalidOperationKindError ''undefined''))"

definition operationDecoder :: "libs \<Rightarrow> consumer \<Rightarrow> (fval \<times> consumer) res" where
  "operationDecoder L c =
     bindR (consume 1 c) (\<lambda>(op, c1).
       case map_of kindMapping (unat (hd op)) of
         None \<Rightarrow> Inl (UnsupportedOperationError (unat (hd op)))
       | Some operationName \<Rightarrow>
           (case map_of kind_schemas operationName of
              None \<Rightarrow> Inl no_function
            | Some sch \<Rightarrow>
                bindR (schemaDecoder (map_of (field_decoders L)) sch c1) (\<lambda>(obj, c2).
                Inr (VObj ((''kind'', VStr operationName) # obj), c2))))"

text \<open>\<open>encoders[CODEC.MANAGER]\<close> and \<open>decoders[CODEC.MANAGER]\<close>.\<close>

definition managerEncoder :: "libs \<Rightarrow> fval \<Rightarrow> string res" where
  "managerEncoder L = schemaEncoder (map_of ((CODEC_OPERATION, operationEncoder L) # field_encoders L))
     ManagerOperationSchema"

definition managerDecoder :: "libs \<Rightarrow> consumer \<Rightarrow> ((string \<times> fval) list \<times> consumer) res" where
  "managerDecoder L = schemaDecoder (map_of ((CODEC_OPERATION, operationDecoder L) # field_decoders L))
     ManagerOperationSchema"

end
