(* ===== verification/Forger.thy ===== *)
theory Forger
  imports ForgeSchema
begin

text \<open>
  The local forger: the validators of \<open>validator.ts\<close> and the class \<open>LocalForger\<close> of
  \<open>taquito-local-forging.ts\<close> with its two operations \<open>forge\<close> and \<open>parse\<close>.
\<close>

section \<open>Validators\<close>

definition OperationKindMapping :: "(string \<times> schema) list" where
  "OperationKindMapping = [
   (''activate_account'', ActivationSchema), (''reveal'', RevealSchema), (''delegation'', DelegationSchema),
   (''transaction'', TransactionSchema), (''origination'', OriginationSchema), (''ballot'', BallotSchema),
   (''endorsement'', EndorsementSchema), (''seed_nonce_revelation'', SeedNonceRevelationSchema),
   (''proposals'', ProposalsSchema), (''register_global_constant'', RegisterGlobalConstantSchema),
   (''transfer_ticket'', TransferTicketSchema), (''tx_rollup_origination'', TxRollupOriginationSchema),
   (''tx_rollup_submit_batch'', TxRollupSubmitBatchSchema),
   (''increase_paid_storage'', IncreasePaidStorageSchema),
   (''update_consensus_key'', UpdateConsensusKeySchema), (''drain_delegate'', DrainDelegateSchema),
   (''set_deposits_limit'', SetDepositsLimitSchema), (''smart_rollup_originate'', SmartRollupOriginateSchema),
   (''smart_rollup_add_messages'', SmartRollupAddMessagesSchema),
   (''smart_rollup_execute_outbox_message'', SmartRollupExecuteOutboxMessageSchema)]"

definition getArrayDifference :: "string list \<Rightarrow> string list \<Rightarrow> string list" where
  "getArrayDifference arr1 arr2 = filter (\<lambda>x. x \<notin> set arr1) arr2"

definition deleteArrayElementByValue :: "string list \<Rightarrow> string \<Rightarrow> string list" where
  "deleteArrayElementByValue array item = filter (\<lambda>e. e \<noteq> item) array"

definition validateOperationKind :: "string \<Rightarrow> bool" where
  "validateOperationKind opKind \<longleftrightarrow> opKind \<in> set (map fst OperationKindMapping)"

text \<open>On an object with its kind.  A kind without a schema throws; \<open>forge\<close> never asks for one.\<close>

definition validateMissingProperty :: "string \<Rightarrow> (string \<times> fval) list \<Rightarrow> string list res" where
  "validateMissingProperty kind props =
     (case map_of OperationKindMapping kind of
        None \<Rightarrow> Inl (TypeErr ''Object.keys of undefined'')
      | Some sch \<Rightarrow>
          Inr (getArrayDifference (deleteArrayElementByValue (map fst props) ''kind'') (map fst sch)))"

section \<open>The forger\<close>

record ForgeParams =
  branch :: string
  contents :: "fval list"

definition params_obj :: "ForgeParams \<Rightarrow> fval" where
  "params_obj p = VObj [(''branch'', VStr (branch p)), (''contents'', VArr (contents p))]"

text \<open>The one property that may be missing, by kind.\<close>

definition may_miss :: "string \<Rightarrow> string \<Rightarrow> bool" where
  "may_miss kind property \<longleftrightarrow>
     kind = ''delegation'' \<and> property = ''delegate'' \<or>
     kind = ''origination'' \<and> property = ''delegate'' \<or>
     kind = ''transaction'' \<and> property = ''parameters'' \<or>
     kind = ''set_deposits_limit'' \<and> property = ''limit'' \<or>
     kind = ''tx_rollup_submit_batch'' \<and> property = ''burn_limit''"

text \<open>The body of the loop over \<open>params.contents\<close>.\<close>

definition check_content :: "fval \<Rightarrow> unit res" where
  "check_content content =
     bindR (get_prop content ''kind'') (\<lambda>k.
       case (k, content) of
         (VStr kind, VObj props) \<Rightarrow>
           if \<not> validateOperationKind kind then Inl (InvalidOperationKindError kind)
           else bindR (validateMissingProperty kind props) (\<lambda>diff.
             case diff of
               [] \<Rightarrow> Inr ()
             | [d] \<Rightarrow> if may_miss kind d then Inr () else Inl (InvalidOperationSchemaError [d])
             | _ \<Rightarrow> Inl (InvalidOperationSchemaError diff))
       | _ \<Rightarrow> Inl (InvalidOperationKindError ''undefined''))"

fun check_contents :: "fval list \<Rightarrow> unit res" where
  "check_contents [] = Inr ()"
| "check_contents (c # cs) = bindR (check_content c) (\<lambda>_. check_contents cs)"

definition forge :: "libs \<Rightarrow> ForgeParams \<Rightarrow> string res" where
  "forge L params =
     (if validateBlock L (branch params) \<noteq> VALID then Inl (InvalidBlockHashError (branch params))
      else bindR (check_contents (contents params)) (\<lambda>_.
           bindR (managerEncoder L (params_obj params)) (\<lambda>s. Inr (toLowerCase s))))"

text \<open>The decoder of \<open>getCodec(CODEC.MANAGER)\<close>: bytes after the operations cannot remain.\<close>

definition parse :: "libs \<Rightarrow> string \<Rightarrow> fval res" where
  "parse L hex =
     bindR (fromHexString hex) (\<lambda>consumer.
     bindR (managerDecoder L consumer) (\<lambda>(obj, _). Inr (VObj obj)))"

end
