(* ===== verification/ForgeMichelsonProofs.thy ===== *)
theory ForgeMichelsonProofs
  imports ForgeMichelson
begin

text \<open>
  Correctness of the Micheline codec: the numbers are the variable-length numbers of
  \<open>Zarith\<close>, and every well-formed value is read back from its encoding, wherever it stands.
\<close>

section \<open>Numbers: the encoder\<close>

fun marks :: "string list \<Rightarrow> byte list" where
  "marks [] = []"
| "marks [x] = [byte_of (of_digits 2 x)]"
| "marks (x # y # xs) = byte_of (of_digits 2 x + 128) # marks (y # xs)"

lemma of_digits_Cons:
  "of_digits b (c # s) = (case dig_val c of Some d \<Rightarrow> d | None \<Rightarrow> 0) * b ^ length s + of_digits b s"
  using of_digits_append [of b "[c]" s] by (simp add: of_digits_def)

lemma dig_val_01 [simp]: "dig_val (CHR ''0'') = Some 0" "dig_val (CHR ''1'') = Some 1"
  by (simp_all add: dig_val_def Let_def)

lemma of_digits_2_lt:
  "list_all (in_base 2) s \<Longrightarrow> of_digits 2 s < 2 ^ length s"
proof (induction s)
  case Nil
  then show ?case by simp
next
  case (Cons c s)
  then obtain d where d: "dig_val c = Some d" "d < 2"
    by (auto simp: in_base_def split: option.splits)
  from d(2) have "d = 0 \<or> d = 1" by auto
  with Cons d(1) show ?case by (auto simp: of_digits_Cons)
qed

lemma hex_chunk:
  assumes "n < 256"
  shows "padStart 2 (digits 16 n) = hex_byte (byte_of n)"
  using hex_byte_digits [of "byte_of n"] assms by simp

lemma mark_chunks_marks:
  assumes "\<forall>x\<in>set xs. length x = 7 \<and> list_all (in_base 2) x"
  shows "concat (mark_chunks xs) = hexOf (marks xs)"
  using assms
proof (induction xs rule: mark_chunks.induct)
  case (2 x)
  then have "of_digits 2 x < 128" using of_digits_2_lt [of x] by simp
  then show ?case by (simp add: of_digits_Cons hex_chunk)
next
  case (3 x y xs)
  then have "of_digits 2 x < 128" using of_digits_2_lt [of x] by simp
  with 3 show ?case by (simp add: of_digits_Cons hex_chunk add.commute)
qed simp

lemma marks_snoc:
  "marks (xs @ [x]) = map (\<lambda>x. byte_of (of_digits 2 x + 128)) xs @ [byte_of (of_digits 2 x)]"
proof (induction xs)
  case Nil
  then show ?case by simp
next
  case (Cons y ys)
  then show ?case by (cases ys) simp_all
qed

lemma in_base_fixd: "2 \<le> b \<Longrightarrow> b \<le> 36 \<Longrightarrow> list_all (in_base b) (fixd b k n)"
  by (induction k arbitrary: n) simp_all

lemma chunk67_groups:
  "rev (chunk67 (fixd 2 (6 + 7 * k) m)) =
     fixd 2 6 m # map (\<lambda>i. fixd 2 7 (m div 2 ^ (6 + 7 * i))) [0..<k]"
proof (induction k)
  case 0
  then show ?case by (simp add: chunk67.simps [of "fixd 2 6 m"])
next
  case (Suc k)
  have sp: "fixd 2 (6 + 7 * Suc k) m = fixd 2 7 (m div 2 ^ (6 + 7 * k)) @ fixd 2 (6 + 7 * k) m"
    using fixd_append [of 2 7 "6 + 7 * k" m] by (simp add: algebra_simps)
  have "chunk67 (fixd 2 (6 + 7 * Suc k) m) =
      fixd 2 7 (m div 2 ^ (6 + 7 * k)) # chunk67 (fixd 2 (6 + 7 * k) m)"
    unfolding sp by (subst chunk67.simps) simp
  with Suc show ?case by simp
qed

lemma sleb_marks:
  assumes "m < 2 ^ (6 + 7 * k)" "0 < k \<longrightarrow> 2 ^ (6 + 7 * (k - 1)) \<le> m"
  shows "marks ((dig (if neg then 1 else 0) # fixd 2 6 m)
            # map (\<lambda>i. fixd 2 7 (m div 2 ^ (6 + 7 * i))) [0..<k]) = sleb neg m"
proof -
  have hd: "of_digits 2 (dig (if neg then 1 else 0) # fixd 2 6 m) = m mod 64 + (if neg then 64 else 0)"
    by (simp add: of_digits_Cons of_digits_fixd)
  show ?thesis
  proof (cases "k = 0")
    case True
    with assms(1) hd show ?thesis by (simp add: sleb_def)
  next
    case False
    then obtain j where k: "k = Suc j" by (cases k) auto
    have ge: "64 \<le> m"
    proof -
      have "(2::nat) ^ 6 \<le> 2 ^ (6 + 7 * j)" by (intro power_increasing) auto
      with assms(2) k show ?thesis by simp
    qed
    have p: "(2::nat) ^ (6 + 7 * i) = 64 * 128 ^ i" for i
      by (simp add: power_add power_mult)
    have lt: "m div 64 < 128 ^ k"
      using assms(1) p by (simp add: div_less_iff_less_mult mult.commute)
    have le: "128 ^ (k - 1) \<le> m div 64"
      using assms(2) p k by (simp add: less_eq_div_iff_mult_less_eq mult.commute)
    have g: "of_digits 2 (fixd 2 7 (m div 2 ^ (6 + 7 * i))) = m div 64 div 128 ^ i mod 128" for i
      by (simp add: of_digits_fixd p div_mult2_eq)
    have "sleb neg m = byte_of (m mod 64 + (if neg then 64 else 0) + 128) # leb (m div 64)"
      using ge by (simp add: sleb_def)
    also have "leb (m div 64) =
        map (\<lambda>i. byte_of (m div 64 div 128 ^ i mod 128 + (if i < k - 1 then 128 else 0))) [0..<k]"
      using leb_groups [OF lt le] False by simp
    also have "\<dots> = map (\<lambda>i. byte_of (m div 64 div 128 ^ i mod 128 + 128)) [0..<j]
        @ [byte_of (m div 64 div 128 ^ j mod 128)]"
      by (simp add: k)
    finally have s: "sleb neg m = byte_of (m mod 64 + (if neg then 64 else 0) + 128) #
        map (\<lambda>i. byte_of (m div 64 div 128 ^ i mod 128 + 128)) [0..<j]
        @ [byte_of (m div 64 div 128 ^ j mod 128)]" .
    let ?f = "\<lambda>i. fixd 2 7 (m div 2 ^ (6 + 7 * i))"
    let ?h = "dig (if neg then 1 else 0) # fixd 2 6 m"
    have "marks (?h # map ?f [0..<k]) = marks ((?h # map ?f [0..<j]) @ [?f j])"
      by (simp add: k)
    also have "\<dots> = sleb neg m"
      unfolding marks_snoc s by (simp add: hd g o_def split del: if_split)
    finally show ?thesis .
  qed
qed

lemma pad_groups:
  fixes l :: nat
  defines "k \<equiv> (if l \<le> 6 then 0 else (l - 6 + 6) div 7)"
  shows "(if l \<le> 6 then 6 else if (l - 6) mod 7 \<noteq> 0 then l + 7 - (l - 6) mod 7 else l) = 6 + 7 * k"
    and "l \<le> 6 + 7 * k" and "0 < k \<longrightarrow> 6 + 7 * (k - 1) < l"
proof -
  have a: "r + 7 - r mod 7 = 7 * ((r + 6) div 7) \<and> r \<le> 7 * ((r + 6) div 7)"
    if "r mod 7 \<noteq> 0" for r :: nat
  proof -
    obtain q t where r: "r = 7 * q + t" "t < 7" by (metis mod_less_divisor mult_div_mod_eq zero_less_numeral)
    with that have t: "0 < t" by simp
    have "(r + 6) div 7 = q + 1" using r t by simp
    with r show ?thesis by simp
  qed
  have b: "r = 7 * ((r + 6) div 7)" if "r mod 7 = 0" for r :: nat
    using that by auto
  have c: "7 * ((r + 6) div 7 - 1) < r" if "0 < r" for r :: nat
    using that by linarith
  show "(if l \<le> 6 then 6 else if (l - 6) mod 7 \<noteq> 0 then l + 7 - (l - 6) mod 7 else l) = 6 + 7 * k"
    and "l \<le> 6 + 7 * k" and "0 < k \<longrightarrow> 6 + 7 * (k - 1) < l"
  proof (atomize (full), cases "l \<le> 6")
    case True
    then show "(if l \<le> 6 then 6 else if (l - 6) mod 7 \<noteq> 0 then l + 7 - (l - 6) mod 7 else l) = 6 + 7 * k
        \<and> l \<le> 6 + 7 * k \<and> (0 < k \<longrightarrow> 6 + 7 * (k - 1) < l)"
      by (simp add: k_def)
  next
    case False
    define r where "r = l - 6"
    then have l: "l = r + 6" "0 < r" and k: "k = (r + 6) div 7" using False by (simp_all add: k_def)
    have lt: "r mod 7 < 7" by simp
    show "(if l \<le> 6 then 6 else if (l - 6) mod 7 \<noteq> 0 then l + 7 - (l - 6) mod 7 else l) = 6 + 7 * k
        \<and> l \<le> 6 + 7 * k \<and> (0 < k \<longrightarrow> 6 + 7 * (k - 1) < l)"
    proof (cases "r mod 7 = 0")
      case True
      with b [OF True] c [OF l(2)] l show ?thesis unfolding k [symmetric] by simp
    next
      case False
      then have a': "r + 7 - r mod 7 = 7 * k" "r \<le> 7 * k" using a k by simp_all
      have "r mod 7 \<le> r" by simp
      with a' have "13 + r - r mod 7 = 6 + 7 * k" by linarith
      with False a' c [OF l(2)] l show ?thesis unfolding k [symmetric] by (simp add: add.commute)
    qed
  qed
qed

theorem intEncoder_sleb:
  assumes "bn_parse L text = Some i"
  shows "intEncoder L text = Inr (''00'' @ hexOf (sleb (i < 0) (nat \<bar>i\<bar>)))"
proof -
  define m where "m = nat \<bar>i\<bar>"
  define l where "l = length (digits 2 m)"
  define k where "k = (if l \<le> 6 then 0 else (l - 6 + 6) div 7)"
  note pg = pad_groups [of l, folded k_def]
  have lt: "m < 2 ^ (6 + 7 * k)"
    using digits_length [of 2 "6 + 7 * k" m] pg(2) by (simp add: l_def)
  have ge: "0 < k \<longrightarrow> 2 ^ (6 + 7 * (k - 1)) \<le> m"
  proof
    assume "0 < k"
    with pg(3) have "\<not> length (digits 2 m) \<le> 6 + 7 * (k - 1)" by (simp add: l_def)
    then show "2 ^ (6 + 7 * (k - 1)) \<le> m" using digits_length [of 2 "6 + 7 * (k - 1)" m] by simp
  qed
  have pd: "padStart (6 + 7 * k) (digits 2 m) = fixd 2 (6 + 7 * k) m"
    using lt by (simp add: padStart_digits)
  let ?ch = "map (\<lambda>i. fixd 2 7 (m div 2 ^ (6 + 7 * i))) [0..<k]"
  let ?h = "dig (if i < 0 then 1 else 0) # fixd 2 6 m"
  have sign: "(if i < 0 then CHR ''1'' else CHR ''0'') = dig (if i < 0 then 1 else 0)"
    by (simp add: dig_def)
  have b: "list_all (in_base 2) (dig (if i < 0 then 1 else 0) # fixd 2 6 m)"
    using in_base_fixd [of 2 6 m] by simp
  have "concat (mark_chunks (?h # ?ch)) = hexOf (marks (?h # ?ch))"
    using b by (intro mark_chunks_marks) (auto simp: in_base_fixd)
  also have "\<dots> = hexOf (sleb (i < 0) m)" using sleb_marks [OF lt ge] by simp
  finally have c: "concat (mark_chunks (?h # ?ch)) = hexOf (sleb (i < 0) m)" .
  have "intEncoder L text = Inr (''00'' @ concat (mark_chunks (?h # ?ch)))"
    using assms unfolding intEncoder_def Let_def m_def [symmetric] l_def [symmetric]
    by (simp only: option.case pg(1) m_def [symmetric] l_def [symmetric] pd chunk67_groups list.case sign)
  with c show ?thesis by (simp only: m_def)
qed

section \<open>Numbers: the decoder\<close>

lemma digits_fixd: "2 \<le> b \<Longrightarrow> digits b n = fixd b (length (digits b n)) n"
proof -
  assume b: "2 \<le> b"
  have l: "1 \<le> length (digits b n)" using digits_ne [of b n] by (cases "digits b n") simp_all
  then have "n < b ^ length (digits b n)" using digits_length [OF b l, of n] by simp
  from padStart_digits [OF b this l] show ?thesis by (simp add: padStart_def)
qed

lemma slice_end_digits:
  assumes "2 \<le> b" "1 \<le> w"
  shows "padStart w (slice_end w (digits b n)) = fixd b w n"
proof (cases "length (digits b n) \<le> w")
  case True
  then have "slice_end w (digits b n) = digits b n" by (simp add: slice_end_def)
  moreover have "n < b ^ w" using True digits_length assms by simp
  ultimately show ?thesis using padStart_digits assms by simp
next
  case False
  define l where "l = length (digits b n) - w"
  have "digits b n = fixd b (l + w) n" using digits_fixd [OF assms(1), of n] False by (simp add: l_def)
  also have "\<dots> = fixd b l (n div b ^ w) @ fixd b w n" using assms by (simp add: fixd_append)
  finally have "slice_end w (digits b n) = fixd b w n" by (simp add: slice_end_def)
  then show ?thesis by (simp add: padStart_def)
qed

lemma group_bits_fixd: "1 \<le> w \<Longrightarrow> group_bits w x = fixd 2 w (unat x)"
  by (simp add: group_bits_def slice_end_digits)

lemma leb_val_digits: "of_digits 2 (concat (rev (map (group_bits 7) bs))) = leb_val bs"
  by (induction bs) (simp_all add: of_digits_append group_bits_fixd of_digits_fixd mult.commute)

lemma intChunks_ahead:
  assumes "ahead c bs" "chunked bs"
  shows "intChunks c = Inr (bs, adv (length bs) c)"
  using assms
proof (induction bs arbitrary: c)
  case Nil
  then show ?case by (simp add: chunked_def)
next
  case (Cons b bs)
  have a: "ahead c [b]" "ahead (adv 1 c) bs" using Cons.prems(1) ahead_Cons by blast+
  show ?case
  proof (cases "more b")
    case True
    then have ch: "chunked bs" using Cons.prems(2) by (cases bs) (auto simp: chunked_def)
    with a Cons.IH True show ?thesis
      by (simp add: intChunks.simps [of c] consume1_ahead and_128_more)
  next
    case False
    then have "bs = []" using Cons.prems(2) by (cases bs) (auto simp: chunked_def)
    with a False show ?thesis
      by (simp add: intChunks.simps [of c] consume1_ahead and_128_more)
  qed
qed

lemma and_64_sign: "(64 AND b \<noteq> (0 :: byte)) \<longleftrightarrow> unat b div 64 mod 2 = 1"
proof -
  have "64 AND b = 0 \<longleftrightarrow> \<not> bit b 6"
    using and_exp_eq_0_iff_not_bit [of b 6] by (simp add: and.commute)
  moreover have "bit b 6 = bit (unat b) 6" by (simp add: bit_unsigned_iff)
  ultimately show ?thesis by (simp add: bit_iff_odd odd_iff_mod_2_eq_one)
qed

lemma mod_128_64: "n mod 128 mod 64 = n mod (64 :: nat)"
  by (simp add: mod_mod_cancel)

theorem intDecoder_sleb:
  assumes "ahead c (sleb neg m)" "neg \<longrightarrow> 0 < m"
  shows "intDecoder L c =
    Inr (IntLit (bn_toFixed L (if neg then - int m else int m)), adv (length (sleb neg m)) c)"
proof -
  obtain b bs where s: "sleb neg m = b # bs" using leb_ne(2) [of neg m] by (cases "sleb neg m") auto
  have val: "of_digits 2 (concat (rev (group_bits 6 (b AND 127) # map (group_bits 7) bs))) = m"
    using sleb_val_sleb [of neg m] s
    by (simp add: of_digits_append leb_val_digits group_bits_fixd of_digits_fixd and_127_mod
        mod_128_64 sleb_val_def mult.commute)
  have sign: "(64 AND b \<noteq> 0) = neg"
    using sleb_sign [of neg m] s by (simp add: and_64_sign split: if_splits)
  have "intChunks c = Inr (b # bs, adv (length (b # bs)) c)"
    using assms(1) sleb_chunked [of neg m] s intChunks_ahead by metis
  with val sign assms(2) s show ?thesis
    by (simp only: intDecoder_def bindR_simps prod.case list.sel Let_def) auto
qed

section \<open>Annotations\<close>

definition annot_ok :: "string \<Rightarrow> bool" where
  "annot_ok a \<longleftrightarrow> a \<noteq> [] \<and> utf8_ok a \<and> list_all (\<lambda>c. 33 \<le> (of_char c :: nat)) a"

definition visible :: "byte list \<Rightarrow> bool" where
  "visible bs \<longleftrightarrow> list_all (\<lambda>b. 33 \<le> unat b) bs"

text \<open>The separator \<open>20\<close> is never found across two bytes, because a byte whose high digit
  is 0 does not occur.\<close>

lemma hex_byte_32: "hex_byte b = ''20'' \<longleftrightarrow> b = 32"
proof -
  have "hex_byte (32 :: byte) = ''20''" by (simp add: hex_byte_def dig_def)
  then show ?thesis using hex_byte_inj by metis
qed

lemma dig_eq_0: "d < 36 \<Longrightarrow> dig d = CHR ''0'' \<longleftrightarrow> d = 0"
  using dig_inj [of d 0] by simp

lemma split_acc_byte:
  assumes "16 \<le> unat b" "b \<noteq> 32" "s = [] \<or> hd s \<noteq> CHR ''0''"
  shows "split_acc ''20'' acc (hex_byte b @ s) = split_acc ''20'' (acc @ hex_byte b) s"
proof -
  have 1: "\<not> startsWith (hex_byte b @ s) ''20''"
    using assms(2) hex_byte_32 [of b] by (simp add: startsWith_def hex_byte_def)
  have 2: "\<not> startsWith (dig (unat b mod 16) # s) ''20''"
    using assms(3) by (cases s) (auto simp: startsWith_def)
  have "split_acc ''20'' acc (hex_byte b @ s)
      = split_acc ''20'' (acc @ [dig (unat b div 16)]) (dig (unat b mod 16) # s)"
    using 1 by (simp add: split_acc.simps [of "''20''" acc] hex_byte_def)
  also have "\<dots> = split_acc ''20'' (acc @ hex_byte b) s"
    using 2 by (simp add: split_acc.simps [of "''20''" "acc @ [dig (unat b div 16)]"] hex_byte_def)
  finally show ?thesis .
qed

lemma split_acc_word:
  assumes "visible w" "s = [] \<or> hd s \<noteq> CHR ''0''"
  shows "split_acc ''20'' acc (hexOf w @ s) = split_acc ''20'' (acc @ hexOf w) s"
  using assms
proof (induction w arbitrary: acc)
  case Nil
  then show ?case by simp
next
  case (Cons b w)
  then have b: "33 \<le> unat b" and w: "visible w" by (simp_all add: visible_def)
  from b have b32: "b \<noteq> 32" by auto
  have nz: "hexOf w @ s = [] \<or> hd (hexOf w @ s) \<noteq> CHR ''0''"
  proof (cases w)
    case Nil
    with Cons.prems show ?thesis by simp
  next
    case (Cons b' w')
    with w have "33 \<le> unat b'" by (simp add: visible_def)
    then have "unat b' div 16 \<noteq> 0" by auto
    with Cons show ?thesis by (simp add: hex_byte_def dig_eq_0)
  qed
  from Cons.IH [OF w Cons.prems(2)] split_acc_byte [OF _ b32 nz] b show ?case by simp
qed

lemma js_split_join:
  "ws \<noteq> [] \<Longrightarrow> list_all visible ws \<Longrightarrow>
     split_acc ''20'' acc (joinWith ''20'' (map hexOf ws)) = (acc @ hexOf (hd ws)) # map hexOf (tl ws)"
proof (induction ws arbitrary: acc)
  case Nil
  then show ?case by simp
next
  case (Cons w ws)
  then have w: "visible w" by simp
  show ?case
  proof (cases ws)
    case Nil
    with split_acc_word [OF w, of "[]"] show ?thesis
      by (simp add: split_acc.simps [of _ _ "[]"])
  next
    case (Cons w' ws')
    have "split_acc ''20'' acc (joinWith ''20'' (map hexOf (w # ws)))
        = split_acc ''20'' (acc @ hexOf w) (''20'' @ joinWith ''20'' (map hexOf ws))"
      using split_acc_word [OF w, of "''20'' @ joinWith ''20'' (map hexOf ws)"] Cons by simp
    also have "\<dots> = (acc @ hexOf w) # split_acc ''20'' [] (joinWith ''20'' (map hexOf ws))"
      by (simp add: split_acc.simps [of _ "acc @ hexOf w"] startsWith_def)
    finally show ?thesis using Cons.IH [of "[]"] Cons.prems Cons by simp
  qed
qed

fun join_bytes :: "byte list list \<Rightarrow> byte list" where
  "join_bytes [] = []"
| "join_bytes [w] = w"
| "join_bytes (w # v # ws) = w @ 32 # join_bytes (v # ws)"

lemma joinWith_hex: "joinWith ''20'' (map hexOf ws) = hexOf (join_bytes ws)"
proof (induction ws rule: join_bytes.induct)
  case (3 w v ws)
  have "hex_byte (32 :: byte) = ''20''" using hex_byte_32 by blast
  with 3 show ?case by simp
qed simp_all

section \<open>Length-prefixed data\<close>

lemma extract_ahead:
  assumes "ahead c (be_bytes k (length bs) @ bs)" "length bs < 256 ^ k" "0 < k"
  shows "extractRequiredLen k c = Inr (bs, adv (k + length bs) c)"
proof -
  have a: "ahead c (be_bytes k (length bs))" "ahead (adv k c) bs"
    using assms(1) by (simp_all add: ahead_append)
  have "be_bytes k (length bs) \<noteq> []" using assms(3) by (metis be_bytes_length length_0_conv less_irrefl)
  then have "js_parseInt 16 (hexOf (be_bytes k (length bs))) = Some (int (length bs))"
    using assms(2) by (simp add: js_parseInt_hexOf)
  with a show ?thesis by (simp add: extractRequiredLen_def consume_ahead)
qed

lemma extract4_ahead:
  "ahead c (be_bytes 4 (length bs) @ bs) \<Longrightarrow> length bs < 256 ^ 4 \<Longrightarrow>
     extractRequiredLen 4 c = Inr (bs, adv (4 + length bs) c)"
  by (rule extract_ahead) simp_all

lemma visible_annot: "annot_ok a \<Longrightarrow> visible (utf8_encode a)"
  by (simp add: annot_ok_def visible_def utf8_encode_def list_all_iff)

lemma decode_annots_text:
  assumes "value \<noteq> []" "list_all annot_ok value"
  shows "map (\<lambda>x. utf8_decode (unhex x)) (js_split ''20'' (hexOf (join_bytes (map utf8_encode value)))) = value"
proof -
  obtain v vs where v: "value = v # vs" using assms(1) by (cases "value") auto
  have vis: "list_all visible (map utf8_encode value)"
    using assms(2) by (simp add: list_all_iff visible_annot)
  have "js_split ''20'' (hexOf (join_bytes (map utf8_encode value))) = map hexOf (map utf8_encode value)"
    unfolding js_split_def joinWith_hex [symmetric]
    using js_split_join [of "map utf8_encode value" "[]"] vis v by (cases vs) simp_all
  moreover have "utf8_decode (utf8_encode a) = a" if "a \<in> set value" for a
    using assms(2) that by (auto simp: list_all_iff annot_ok_def utf8_ok_def)
  ultimately show ?thesis by (simp add: map_idI)
qed

lemma encodeAnnots_Inr:
  assumes "encodeAnnots value = Inr s"
  shows "s = hexOf (be_bytes 4 (length (join_bytes (map utf8_encode value))) @ join_bytes (map utf8_encode value))
    \<and> length (join_bytes (map utf8_encode value)) < 256 ^ 4"
proof -
  have "joinWith ''20'' (map (\<lambda>x. hexOf (utf8_encode x)) value) = hexOf (join_bytes (map utf8_encode value))"
    using joinWith_hex [of "map utf8_encode value"] by (simp add: o_def)
  with assms show ?thesis by (auto simp: encodeAnnots_def Let_def bindR_eq_Inr)
qed

interpretation annots: codec encodeAnnots decodeAnnots "\<lambda>as. as \<noteq> [] \<and> list_all annot_ok as"
proof
  fix as s assume ok: "as \<noteq> [] \<and> list_all annot_ok as" and "encodeAnnots as = Inr s"
  let ?j = "join_bytes (map utf8_encode as)"
  from \<open>encodeAnnots as = Inr s\<close> have s: "s = hexOf (be_bytes 4 (length ?j) @ ?j)" "length ?j < 256 ^ 4"
    using encodeAnnots_Inr by blast+
  have "decodeAnnots c = Inr (as, adv (length (be_bytes 4 (length ?j) @ ?j)) c)"
    if "ahead c (be_bytes 4 (length ?j) @ ?j)" for c
    using extract4_ahead [OF that s(2)] decode_annots_text [of as] ok
    by (simp add: decodeAnnots_def add.commute)
  with s(1) show "\<exists>bs. s = hexOf bs \<and> (\<forall>c. ahead c bs \<longrightarrow> decodeAnnots c = Inr (as, adv (length bs) c))"
    by blast
qed

section \<open>Well-formed values\<close>

text \<open>Which numbers of arguments the encoding can carry, with and without annotations.\<close>

definition shape_ok :: "string \<Rightarrow> nat \<Rightarrow> bool \<Rightarrow> bool" where
  "shape_ok p n annotated \<longleftrightarrow>
     (if p = ''view'' then \<not> annotated \<and> (n = 0 \<or> n = 4)
      else is_pair p \<and> 2 < n \<or> n \<le> 2 \<or> n = 3 \<and> \<not> annotated)"

fun micheline_ok :: "libs \<Rightarrow> expr \<Rightarrow> bool" where
  "micheline_ok L (Prim p args annots) \<longleftrightarrow>
     (case args of None \<Rightarrow> True | Some xs \<Rightarrow> xs \<noteq> [] \<and> list_all (micheline_ok L) xs) \<and>
     (case annots of None \<Rightarrow> True | Some as \<Rightarrow> as \<noteq> [] \<and> list_all annot_ok as) \<and>
     shape_ok p (length (args_of args)) (annots \<noteq> None)"
| "micheline_ok L (Seq xs) \<longleftrightarrow> list_all (micheline_ok L) xs"
| "micheline_ok L (BytesLit b) \<longleftrightarrow> toLowerCase b = b"
| "micheline_ok L (StringLit s) \<longleftrightarrow> utf8_ok s"
| "micheline_ok L (IntLit i) \<longleftrightarrow> canonical_int L i"

text \<open>The bytes of a value, and that the decoder reads them with enough fuel.\<close>

definition decodes :: "libs \<Rightarrow> expr \<Rightarrow> byte list \<Rightarrow> bool" where
  "decodes L v bs \<longleftrightarrow> bs \<noteq> [] \<and>
     (\<forall>c n. ahead c bs \<longrightarrow> 2 * length bs + 2 \<le> n \<longrightarrow> valueFuel n L c = Inr (v, adv (length bs) c))"

definition encodes :: "libs \<Rightarrow> expr \<Rightarrow> bool" where
  "encodes L v \<longleftrightarrow> (\<forall>s. valueEncoder L v = Inr s \<longrightarrow> (\<exists>bs. s = hexOf bs \<and> decodes L v bs))"

lemma decodesD:
  "decodes L v bs \<Longrightarrow> ahead c bs \<Longrightarrow> 2 * length bs + 2 \<le> n \<Longrightarrow>
     valueFuel n L c = Inr (v, adv (length bs) c)"
  by (simp add: decodes_def)

lemma mapR_encodes:
  assumes "\<forall>x\<in>set xs. encodes L x" "mapR (valueEncoder L) xs = Inr es"
  shows "\<exists>bss. es = map hexOf bss \<and> list_all2 (decodes L) xs bss"
  using assms
proof (induction xs arbitrary: es)
  case Nil
  then show ?case by simp
next
  case (Cons x xs)
  then obtain e es' where e: "valueEncoder L x = Inr e" "mapR (valueEncoder L) xs = Inr es'" "es = e # es'"
    by (auto simp: bindR_eq_Inr)
  then obtain bs bss where "e = hexOf bs" "decodes L x bs" "es' = map hexOf bss" "list_all2 (decodes L) xs bss"
    using Cons by (auto simp: encodes_def)
  with e(3) show ?case by (intro exI [of _ "bs # bss"]) simp
qed

lemma manyFuel_reads:
  assumes "list_all2 (decodes L) xs bss" "ahead c (concat bss)" "clen c = length (concat bss)"
    "2 * length (concat bss) + 3 \<le> n"
  shows "manyFuel n L c = Inr xs"
  using assms
proof (induction xs bss arbitrary: c n rule: list_all2_induct)
  case Nil
  then show ?case by (cases n) simp_all
next
  case (Cons x xs bs bss)
  obtain m where n: "n = Suc m" using Cons.prems(3) by (cases n) auto
  have ne: "0 < length bs" using Cons.hyps(1) by (simp add: decodes_def)
  have a: "ahead c bs" "ahead (adv (length bs) c) (concat bss)"
    using Cons.prems(1) by (simp_all add: ahead_append)
  have m: "2 * length bs + 2 * length (concat bss) + 2 \<le> m" using Cons.prems(3) n by simp
  have "valueFuel m L c = Inr (x, adv (length bs) c)"
    using m by (intro decodesD [OF Cons.hyps(1) a(1)]) simp
  moreover have "manyFuel m L (adv (length bs) c) = Inr xs"
  proof (rule Cons.IH [OF a(2)])
    show "2 * length (concat bss) + 3 \<le> m" using m ne by linarith
  qed (use Cons.prems(2) in simp)
  ultimately show ?case using Cons.prems(2) ne n by simp
qed

lemma timesFuel_reads:
  assumes "list_all2 (decodes L) xs bss" "ahead c (concat bss)" "2 * length (concat bss) + 3 \<le> n"
  shows "timesFuel n L (length xs) c = Inr (xs, adv (length (concat bss)) c)"
  using assms
proof (induction xs bss arbitrary: c n rule: list_all2_induct)
  case Nil
  then show ?case by (cases n) simp_all
next
  case (Cons x xs bs bss)
  obtain m where n: "n = Suc m" using Cons.prems(2) by (cases n) auto
  have ne: "0 < length bs" using Cons.hyps(1) by (simp add: decodes_def)
  have a: "ahead c bs" "ahead (adv (length bs) c) (concat bss)"
    using Cons.prems(1) by (simp_all add: ahead_append)
  have m: "2 * length bs + 2 * length (concat bss) + 2 \<le> m" using Cons.prems(2) n by simp
  have "valueFuel m L c = Inr (x, adv (length bs) c)"
    using m by (intro decodesD [OF Cons.hyps(1) a(1)]) simp
  moreover have "timesFuel m L (length xs) (adv (length bs) c)
      = Inr (xs, adv (length (concat bss)) (adv (length bs) c))"
  proof (rule Cons.IH [OF a(2)])
    show "2 * length (concat bss) + 3 \<le> m" using m ne by linarith
  qed
  ultimately show ?case using n by simp
qed

section \<open>Primitive applications\<close>

text \<open>What stands between the opcode and the annotations.\<close>

definition prim_body :: "string \<Rightarrow> nat \<Rightarrow> byte list \<Rightarrow> bool \<Rightarrow> byte list" where
  "prim_body p n body annotated =
     (if is_lambda p \<and> n \<noteq> 0 \<or> p = ''view'' \<and> n \<noteq> 0
        then be_bytes 4 (length body) @ body @ be_bytes 4 0
      else if is_pair p \<and> 2 < n
        then be_bytes 4 (length body) @ body @ (if annotated then [] else be_bytes 4 0)
      else body)"

lemma prim_kinds [simp]:
  "is_lambda p \<Longrightarrow> \<not> is_pair p" "is_lambda p \<Longrightarrow> p \<noteq> ''view''" "is_pair p \<Longrightarrow> p \<noteq> ''view''"
  "is_pair p \<Longrightarrow> \<not> is_lambda p" "\<not> is_pair ''view''" "\<not> is_lambda ''view''"
  by (auto simp: is_lambda_def is_pair_def)

lemma wrap_len_hex:
  assumes "wrap_len (hexOf body) z = Inr s"
  shows "s = hexOf (be_bytes 4 (length body) @ body @ (if z then be_bytes 4 0 else []))
    \<and> length body < 256 ^ 4"
  using assms by (auto simp: wrap_len_def bindR_eq_Inr split: if_splits)

lemma finishPrim_hex:
  assumes "finishPrim p n hasArgs (hexOf body) (hexOf ann) = Inr s" "hasArgs = (n \<noteq> 0)"
  shows "s = hexOf (prim_body p n body (ann \<noteq> []) @ ann)
    \<and> ((is_lambda p \<or> p = ''view'') \<and> n \<noteq> 0 \<or> is_pair p \<and> 2 < n \<longrightarrow> length body < 256 ^ 4)"
proof -
  have e: "hexOf ann = [] \<longleftrightarrow> ann = []" by (cases ann) (simp_all add: hex_byte_def)
  consider "is_lambda p" "n \<noteq> 0" | "is_pair p" "2 < n" | "p = ''view''" "n \<noteq> 0"
    | "\<not> (is_lambda p \<and> n \<noteq> 0)" "\<not> (is_pair p \<and> 2 < n)" "\<not> (p = ''view'' \<and> n \<noteq> 0)" by blast
  then show ?thesis
    by cases (use assms e in \<open>auto simp: finishPrim_def prim_body_def bindR_eq_Inr dest!: wrap_len_hex\<close>)
qed

text \<open>The bytes \<open>bs\<close> stand for the annotations \<open>an\<close>.\<close>

definition annots_at :: "string list option \<Rightarrow> byte list \<Rightarrow> bool" where
  "annots_at an bs \<longleftrightarrow>
     (case an of None \<Rightarrow> bs = []
      | Some as \<Rightarrow> bs \<noteq> [] \<and> as \<noteq> [] \<and> hd as \<noteq> [] \<and>
          (\<forall>c. ahead c bs \<longrightarrow> decodeAnnots c = Inr (as, adv (length bs) c)))"

lemma annots_encoded:
  assumes "(case an of None \<Rightarrow> Inr [] | Some as \<Rightarrow> encodeAnnots as) = Inr s"
    "case an of None \<Rightarrow> True | Some as \<Rightarrow> as \<noteq> [] \<and> list_all annot_ok as"
  shows "\<exists>bs. s = hexOf bs \<and> annots_at an bs"
proof (cases an)
  case None
  with assms(1) show ?thesis by (simp add: annots_at_def)
next
  case (Some as)
  with assms have ok: "as \<noteq> [] \<and> list_all annot_ok as" and e: "encodeAnnots as = Inr s" by simp_all
  then obtain bs where bs: "s = hexOf bs" "\<forall>c. ahead c bs \<longrightarrow> decodeAnnots c = Inr (as, adv (length bs) c)"
    using annots.reads_back by blast
  have "bs \<noteq> []"
  proof
    assume "bs = []"
    then have "decodeAnnots (mkConsumer []) = Inr (as, mkConsumer [])" using bs(2) by simp
    then show False by (simp add: decodeAnnots_def extractRequiredLen_def consume_def mkConsumer_def)
  qed
  moreover have "hd as \<noteq> []" using ok by (cases as) (auto simp: annot_ok_def)
  ultimately show ?thesis using bs ok Some by (auto simp: annots_at_def)
qed

lemma finish_plain:
  assumes "annots_at an bs" "ahead c bs" "xs \<noteq> [] \<longleftrightarrow> args = Some xs" "xs = [] \<longleftrightarrow> args = None"
  shows "finishDecode p (an \<noteq> None) None xs c = Inr (Prim p args an, adv (length bs) c)"
  using assms by (auto simp: finishDecode_def annots_at_def split: option.splits)

text \<open>The tag byte: three, twice the number of arguments, and one for annotations, at most nine.\<close>

definition prim_tag :: "nat \<Rightarrow> bool \<Rightarrow> nat" where
  "prim_tag n annotated = min (2 * n + (if annotated then 1 else 0) + 3) 9"

lemma prim_tag_simps:
  "n \<le> 2 \<Longrightarrow> (prim_tag n a - 3) mod 2 = (if a then 1 else 0)" "n \<le> 2 \<Longrightarrow> (prim_tag n a - 3) div 2 = n"
  "3 \<le> n \<Longrightarrow> (prim_tag n a - 3) mod 2 = 0" "3 \<le> n \<Longrightarrow> (prim_tag n a - 3) div 2 = 3"
  "3 \<le> prim_tag n a" "prim_tag n a < 10"
proof -
  show "n \<le> 2 \<Longrightarrow> (prim_tag n a - 3) mod 2 = (if a then 1 else 0)"
    by (cases a) (simp_all add: prim_tag_def)
  show "n \<le> 2 \<Longrightarrow> (prim_tag n a - 3) div 2 = n" by (cases a) (simp_all add: prim_tag_def)
qed (auto simp: prim_tag_def)

text \<open>A primitive lies ahead: its opcode, its arguments, its annotations, and there is fuel.\<close>

definition prim_ahead ::
    "libs \<Rightarrow> string \<Rightarrow> expr list \<Rightarrow> string list option \<Rightarrow> byte list list \<Rightarrow> byte list \<Rightarrow> byte \<Rightarrow> consumer \<Rightarrow> nat \<Rightarrow> bool" where
  "prim_ahead L p xs an bss ab b c m \<longleftrightarrow>
     map_of opMapping (hex_byte b) = Some p \<and> list_all2 (decodes L) xs bss \<and> annots_at an ab \<and>
     ahead c (b # prim_body p (length xs) (concat bss) (an \<noteq> None) @ ab) \<and>
     2 * length (concat bss) + 3 \<le> m"

lemma prim_aheadD:
  assumes "prim_ahead L p xs an bss ab b c m"
  shows "map_of opMapping (padStart 2 (digits 16 (unat b))) = Some p" "list_all2 (decodes L) xs bss"
    "annots_at an ab" "consume (Suc 0) c = Inr ([b], adv (Suc 0) c)"
    "ahead (adv (Suc 0) c) (prim_body p (length xs) (concat bss) (an \<noteq> None) @ ab)"
    "2 * length (concat bss) + 3 \<le> m"
proof -
  let ?r = "prim_body p (length xs) (concat bss) (an \<noteq> None) @ ab"
  have a: "ahead c [b]" "ahead (adv 1 c) ?r"
    using assms ahead_Cons [of c b ?r] unfolding prim_ahead_def by blast+
  then show "consume (Suc 0) c = Inr ([b], adv (Suc 0) c)" "ahead (adv (Suc 0) c) ?r"
    by (simp_all add: consume1_ahead)
qed (use assms in \<open>simp_all add: prim_ahead_def hex_byte_digits\<close>)

text \<open>The four ways \<open>primDecoder\<close> goes on after the opcode.\<close>

lemma primFuel_cases:
  assumes "map_of opMapping (padStart 2 (digits 16 (unat b))) = Some p"
    "consume (Suc 0) c = Inr ([b], c1)" "(t - 3) div 2 = k" "((t - 3) mod 2 = 1) = h"
  shows "\<not> (is_lambda p \<and> k \<noteq> 0) \<Longrightarrow> p \<noteq> ''view'' \<Longrightarrow> \<not> (is_pair p \<and> 2 < k) \<Longrightarrow>
      primFuel (Suc m) L c t =
        bindR (timesFuel m L k c1) (\<lambda>(args, c3). finishDecode p h None args c3)"
    and "is_lambda p \<Longrightarrow> k \<noteq> 0 \<Longrightarrow>
      primFuel (Suc m) L c t =
        bindR (consume 4 c1) (\<lambda>(_, c2). bindR (timesFuel m L k c2) (\<lambda>(args, c3).
        bindR (consume 4 c3) (\<lambda>(_, c4). finishDecode p h None args c4)))"
    and "is_pair p \<Longrightarrow> 2 < k \<Longrightarrow>
      primFuel (Suc m) L c t =
        bindR (extractRequiredLen 4 c1) (\<lambda>(inner, c3). bindR (manyFuel m L (mkConsumer inner)) (\<lambda>cargs.
        bindR (decodeAnnots c3) (\<lambda>(cannots, c4). finishDecode p h (Some (cargs, cannots)) [] c4)))"
    and "p = ''view'' \<Longrightarrow> k \<noteq> 0 \<Longrightarrow>
      primFuel (Suc m) L c t =
        bindR (consume 4 c1) (\<lambda>(_, c3). bindR (timesFuel m L 4 c3) (\<lambda>(args, c4).
        bindR (consume 4 c4) (\<lambda>(_, c5). Inr (Prim p (Some args) None, c5))))"
    and "p = ''view'' \<Longrightarrow> k = 0 \<Longrightarrow> primFuel (Suc m) L c t = Inr (Prim p None None, c1)"
proof -
  note eqs = assms(1,2) assms(3,4) [symmetric]
  show "\<not> (is_lambda p \<and> k \<noteq> 0) \<Longrightarrow> p \<noteq> ''view'' \<Longrightarrow> \<not> (is_pair p \<and> 2 < k) \<Longrightarrow>
      primFuel (Suc m) L c t =
        bindR (timesFuel m L k c1) (\<lambda>(args, c3). finishDecode p h None args c3)"
    by (auto simp: eqs Let_def intro!: bindR_cong)
  show "is_lambda p \<Longrightarrow> k \<noteq> 0 \<Longrightarrow>
      primFuel (Suc m) L c t =
        bindR (consume 4 c1) (\<lambda>(_, c2). bindR (timesFuel m L k c2) (\<lambda>(args, c3).
        bindR (consume 4 c3) (\<lambda>(_, c4). finishDecode p h None args c4)))"
    by (simp add: eqs Let_def bindR_assoc case_prod_unfold)
qed (simp_all add: assms(1,2) assms(3,4) [symmetric] Let_def)

lemma prim_reads_plain:
  assumes "prim_ahead L p xs an bss ab b c m"
    and n: "(t - 3) div 2 = length xs" "((t - 3) mod 2 = 1) = (an \<noteq> None)"
    and kind: "\<not> (is_lambda p \<and> length xs \<noteq> 0)" "p \<noteq> ''view''" "\<not> (is_pair p \<and> 2 < length xs)"
    and args: "args = (if xs = [] then None else Some xs)"
  shows "primFuel (Suc m) L c t =
    Inr (Prim p args an, adv (Suc (length (prim_body p (length xs) (concat bss) (an \<noteq> None) @ ab))) c)"
proof -
  note D = prim_aheadD [OF assms(1)]
  have body: "prim_body p (length xs) (concat bss) (an \<noteq> None) = concat bss"
    using kind by (auto simp: prim_body_def)
  then have a: "ahead (adv (Suc 0) c) (concat bss)" "ahead (adv (Suc (length (concat bss))) c) ab"
    using D(5) by (simp_all add: ahead_append)
  have t: "timesFuel m L (length xs) (adv (Suc 0) c) = Inr (xs, adv (Suc (length (concat bss))) c)"
    using timesFuel_reads [OF D(2) a(1) D(6)] by simp
  have "finishDecode p (an \<noteq> None) None xs (adv (Suc (length (concat bss))) c)
      = Inr (Prim p args an, adv (length ab) (adv (Suc (length (concat bss))) c))"
    by (rule finish_plain [OF D(3) a(2)]) (use args in auto)
  then show ?thesis
    unfolding primFuel_cases(1) [OF D(1,4) n kind] t body by simp
qed

lemma prim_reads_lambda:
  assumes "prim_ahead L p xs an bss ab b c m"
    and n: "(t - 3) div 2 = length xs" "((t - 3) mod 2 = 1) = (an \<noteq> None)"
    and kind: "is_lambda p" "length xs \<noteq> 0"
  shows "primFuel (Suc m) L c t =
    Inr (Prim p (Some xs) an, adv (Suc (length (prim_body p (length xs) (concat bss) (an \<noteq> None) @ ab))) c)"
proof -
  note D = prim_aheadD [OF assms(1)]
  let ?k = "length (concat bss)"
  have body: "prim_body p (length xs) (concat bss) (an \<noteq> None)
      = be_bytes 4 ?k @ concat bss @ be_bytes 4 0"
    using kind by (simp add: prim_body_def)
  have a: "ahead (adv (Suc 0) c) (be_bytes 4 ?k)" "ahead (adv 5 c) (concat bss)"
    "ahead (adv (5 + ?k) c) (be_bytes 4 0)" "ahead (adv (9 + ?k) c) ab"
    using D(5) unfolding body by (simp_all add: ahead_append add.commute)
  have t: "timesFuel m L (length xs) (adv 5 c) = Inr (xs, adv (5 + ?k) c)"
    using timesFuel_reads [OF D(2) a(2) D(6)] by simp
  have f: "finishDecode p (an \<noteq> None) None xs (adv (9 + ?k) c)
      = Inr (Prim p (Some xs) an, adv (length ab) (adv (9 + ?k) c))"
    by (rule finish_plain [OF D(3) a(4)]) (use kind in auto)
  have c4: "consume 4 (adv (Suc 0) c) = Inr (be_bytes 4 ?k, adv 5 c)"
    "consume 4 (adv (5 + ?k) c) = Inr (be_bytes 4 0, adv (9 + ?k) c)"
    using a(1,3) by (simp_all add: consume_ahead add.commute)
  show ?thesis
    unfolding primFuel_cases(2) [OF D(1,4) n kind] body bindR_simps c4 t prod.case f by simp
qed

lemma prim_reads_view:
  assumes "prim_ahead L ''view'' xs an bss ab b c m" "an = None" "length xs = 4"
    and n: "(t - 3) div 2 = Suc k" "((t - 3) mod 2 = 1) = h"
  shows "primFuel (Suc m) L c t =
    Inr (Prim ''view'' (Some xs) an, adv (Suc (length (prim_body ''view'' (length xs) (concat bss) (an \<noteq> None) @ ab))) c)"
proof -
  note D = prim_aheadD [OF assms(1)]
  let ?k = "length (concat bss)"
  have body: "prim_body ''view'' (length xs) (concat bss) (an \<noteq> None)
      = be_bytes 4 ?k @ concat bss @ be_bytes 4 0" and ab: "ab = []"
    using D(3) assms(2,3) by (simp_all add: prim_body_def annots_at_def)
  have a: "ahead (adv (Suc 0) c) (be_bytes 4 ?k)" "ahead (adv 5 c) (concat bss)"
    "ahead (adv (5 + ?k) c) (be_bytes 4 0)"
    using D(5) unfolding body by (simp_all add: ahead_append add.commute)
  have t: "timesFuel m L 4 (adv 5 c) = Inr (xs, adv (5 + ?k) c)"
    using timesFuel_reads [OF D(2) a(2) D(6)] assms(3) by simp
  have c4: "consume 4 (adv (Suc 0) c) = Inr (be_bytes 4 ?k, adv 5 c)"
    "consume 4 (adv (5 + ?k) c) = Inr (be_bytes 4 0, adv (9 + ?k) c)"
    using a(1,3) by (simp_all add: consume_ahead add.commute)
  show ?thesis
    unfolding primFuel_cases(4) [OF D(1,4) n refl Suc_not_Zero] body bindR_simps c4 t prod.case ab
    using assms(2) by simp
qed

text \<open>A long pair: the annotations are always read, and stand for none when their text is empty.\<close>

lemma decodeAnnots_empty: "ahead c (be_bytes 4 0) \<Longrightarrow> decodeAnnots c = Inr ([[]], adv 4 c)"
  using extract4_ahead [of c "[]"]
  by (simp add: decodeAnnots_def js_split_def split_acc.simps)

lemma prim_reads_pair:
  assumes "prim_ahead L p xs an bss ab b c m" "is_pair p" "2 < length xs"
    and len: "length (concat bss) < 256 ^ 4"
    and n: "(t - 3) div 2 = 3" "((t - 3) mod 2 = 1) = False"
  shows "primFuel (Suc m) L c t =
    Inr (Prim p (Some xs) an, adv (Suc (length (prim_body p (length xs) (concat bss) (an \<noteq> None) @ ab))) c)"
proof -
  note D = prim_aheadD [OF assms(1)]
  let ?k = "length (concat bss)"
  let ?z = "if an \<noteq> None then [] else be_bytes 4 0"
  have body: "prim_body p (length xs) (concat bss) (an \<noteq> None)
      = (be_bytes 4 ?k @ concat bss) @ ?z"
    using assms(2,3) by (simp add: prim_body_def)
  have a: "ahead (adv (Suc 0) c) (be_bytes 4 ?k @ concat bss)" "ahead (adv (5 + ?k) c) (?z @ ab)"
    using D(5) unfolding body by (simp_all add: ahead_append add.commute)
  have e: "extractRequiredLen 4 (adv (Suc 0) c) = Inr (concat bss, adv (5 + ?k) c)"
    using extract4_ahead [OF a(1) len] by simp
  have mn: "manyFuel m L (mkConsumer (concat bss)) = Inr xs"
    using manyFuel_reads [OF D(2) ahead_mk clen_mk D(6)] .
  have three: "2 < (3 :: nat)" by simp
  have "bindR (decodeAnnots (adv (5 + ?k) c)) (\<lambda>(cannots, c4). finishDecode p False (Some (xs, cannots)) [] c4)
      = Inr (Prim p (Some xs) an, adv (length (?z @ ab)) (adv (5 + ?k) c))"
  proof (cases an)
    case None
    with a(2) D(3) show ?thesis
      by (simp add: decodeAnnots_empty annots_at_def finishDecode_def)
  next
    case (Some as)
    with a(2) D(3) show ?thesis
      by (cases as) (simp_all add: annots_at_def finishDecode_def)
  qed
  then show ?thesis
    unfolding primFuel_cases(3) [OF D(1,4) n assms(2) three] body e bindR_simps prod.case mn by simp
qed

section \<open>Every well-formed value is read back\<close>

lemma pad_tag: "pad (prim_tag n a) 2 = Inr (hex_byte (byte_of (prim_tag n a)))"
  using pad_hex [of "prim_tag n a" 1] prim_tag_simps(6) [of n a] by (simp add: byte_of_def)

lemma byte_of_small: "n < 10 \<Longrightarrow> unat (byte_of n) = n"
  by (simp add: take_bit_eq_mod unat_of_nat)

lemma valueFuel_prim:
  assumes "ahead c (byte_of (prim_tag n a) # r)"
  shows "valueFuel (Suc m) L c = primFuel m L (adv 1 c) (prim_tag n a)"
proof -
  have "ahead c [byte_of (prim_tag n a)]" using assms ahead_Cons [of c _ r] by blast
  moreover have "3 \<le> prim_tag n a" "prim_tag n a < 10" by (rule prim_tag_simps)+
  ultimately show ?thesis by (simp add: consume1_ahead byte_of_small Let_def)
qed

lemma prim_reads:
  assumes pa: "prim_ahead L p xs an bss ab b c m"
    and shape: "shape_ok p (length xs) (an \<noteq> None)" and args: "args = (if xs = [] then None else Some xs)"
    and len: "(is_lambda p \<or> p = ''view'') \<and> length xs \<noteq> 0 \<or> is_pair p \<and> 2 < length xs
      \<longrightarrow> length (concat bss) < 256 ^ 4"
  shows "primFuel (Suc m) L c (prim_tag (length xs) (an \<noteq> None)) =
    Inr (Prim p args an, adv (Suc (length (prim_body p (length xs) (concat bss) (an \<noteq> None) @ ab))) c)"
proof -
  let ?n = "length xs" and ?t = "prim_tag (length xs) (an \<noteq> None)"
  note D = prim_aheadD [OF pa]
  consider (view0) "p = ''view''" "xs = []" "an = None" | (view4) "p = ''view''" "?n = 4" "an = None"
    | (pair) "is_pair p" "2 < ?n"
    | (few) "p \<noteq> ''view''" "\<not> (is_pair p \<and> 2 < ?n)" "?n \<le> 2 \<or> ?n = 3 \<and> an = None"
    using shape by (auto simp: shape_ok_def split: if_splits)
  then show ?thesis
  proof cases
    case view0
    then have "ab = []" "concat bss = []" using D(2,3) by (simp_all add: annots_at_def)
    moreover have t: "(?t - 3) div 2 = 0" "((?t - 3) mod 2 = 1) = False"
      using prim_tag_simps(1,2) [of ?n "an \<noteq> None"] view0 by simp_all
    ultimately show ?thesis
      using primFuel_cases(5) [OF D(1,4) t view0(1) refl] view0 args by (simp add: prim_body_def)
  next
    case view4
    have t: "(?t - 3) div 2 = Suc 2" "((?t - 3) mod 2 = 1) = False"
      using prim_tag_simps(3,4) [of ?n "an \<noteq> None"] view4(2) by simp_all
    have a: "args = Some xs" using view4(2) args by auto
    show ?thesis using prim_reads_view [OF pa [unfolded view4(1)] view4(3,2) t] view4(1) a by simp
  next
    case pair
    have t: "(?t - 3) div 2 = 3" "((?t - 3) mod 2 = 1) = False"
      using prim_tag_simps(3,4) [of ?n "an \<noteq> None"] pair(2) by simp_all
    have a: "args = Some xs" using pair(2) args by auto
    have l: "length (concat bss) < 256 ^ 4" using len pair by blast
    show ?thesis using prim_reads_pair [OF pa pair l t] a by simp
  next
    case few
    have t: "(?t - 3) div 2 = ?n" "((?t - 3) mod 2 = 1) = (an \<noteq> None)"
      using few(3) prim_tag_simps [of ?n "an \<noteq> None"] by (cases "?n \<le> 2"; simp)+
    show ?thesis
    proof (cases "is_lambda p \<and> ?n \<noteq> 0")
      case True
      then have "args = Some xs" using args by auto
      with prim_reads_lambda [OF pa t] True show ?thesis by simp
    next
      case False
      then show ?thesis using prim_reads_plain [OF pa t False few(1,2) args] by simp
    qed
  qed
qed

lemma prim_decodes:
  assumes "map_of opMapping (hex_byte b) = Some p" "list_all2 (decodes L) xs bss" "annots_at an ab"
    and shape: "shape_ok p (length xs) (an \<noteq> None)" and args: "args = (if xs = [] then None else Some xs)"
    and len: "(is_lambda p \<or> p = ''view'') \<and> length xs \<noteq> 0 \<or> is_pair p \<and> 2 < length xs
      \<longrightarrow> length (concat bss) < 256 ^ 4"
  shows "decodes L (Prim p args an) (byte_of (prim_tag (length xs) (an \<noteq> None)) # b
    # prim_body p (length xs) (concat bss) (an \<noteq> None) @ ab)"
  unfolding decodes_def
proof (intro conjI allI impI)
  let ?t = "prim_tag (length xs) (an \<noteq> None)"
  let ?r = "prim_body p (length xs) (concat bss) (an \<noteq> None) @ ab"
  fix c n assume a: "ahead c (byte_of ?t # b # ?r)" and n: "2 * length (byte_of ?t # b # ?r) + 2 \<le> n"
  obtain m where m: "n = Suc (Suc m)" using n by (cases n; cases "n - 1") auto
  have "length (concat bss) \<le> length ?r" by (auto simp: prim_body_def)
  then have "2 * length (concat bss) + 3 \<le> m" using n m by simp
  moreover have "ahead (adv 1 c) (b # ?r)" using a ahead_Cons by blast
  ultimately have "prim_ahead L p xs an bss ab b (adv 1 c) m" using assms(1-3) by (simp add: prim_ahead_def)
  from prim_reads [OF this shape args len] show "valueFuel n L c =
      Inr (Prim p args an, adv (length (byte_of ?t # b # ?r)) c)"
    unfolding m valueFuel_prim [OF a] by simp
qed simp

lemma encoded_by:
  assumes "s = hexOf bs" "bs \<noteq> []"
    and "\<And>c n. ahead c bs \<Longrightarrow> 2 * length bs + 2 \<le> n \<Longrightarrow> valueFuel n L c = Inr (v, adv (length bs) c)"
  shows "\<exists>bs. s = hexOf bs \<and> decodes L v bs"
  using assms by (auto simp: decodes_def)

lemma encodes_bytes:
  assumes "toLowerCase b = b"
  shows "encodes L (BytesLit b)"
  unfolding encodes_def
proof (intro allI impI)
  fix s assume e: "valueEncoder L (BytesLit b) = Inr s"
  have "\<exists>bs. b = hexOf bs" using e assms hex_text_lower [of b]
    by (auto simp: bytesEncoder_def split: if_splits)
  then obtain bs where b: "b = hexOf bs" by blast
  have s: "s = hexOf (10 # be_bytes 4 (length bs) @ bs)" "length bs < 256 ^ 4"
    using e b by (auto simp: bytesEncoder_def bindR_eq_Inr hex_byte_def dig_def)
  have "valueFuel n L c = Inr (BytesLit b, adv (length (10 # be_bytes 4 (length bs) @ bs)) c)"
    if a: "ahead c (10 # be_bytes 4 (length bs) @ bs)" and n: "2 \<le> n" for c n
  proof -
    have "ahead c [10]" "ahead (adv 1 c) (be_bytes 4 (length bs) @ bs)"
      using a ahead_Cons [of c _ "be_bytes 4 (length bs) @ bs"] by blast+
    with n extract4_ahead [of "adv 1 c" bs] s(2) b show ?thesis
      by (cases n) (simp_all add: consume1_ahead bytesDecoder_def)
  qed
  then show "\<exists>bs. s = hexOf bs \<and> decodes L (BytesLit b) bs" by (intro encoded_by [OF s(1)]) simp_all
qed

lemma encodes_string:
  assumes "utf8_ok str"
  shows "encodes L (StringLit str)"
  unfolding encodes_def
proof (intro allI impI)
  fix s assume e: "valueEncoder L (StringLit str) = Inr s"
  define bs where "bs = utf8_encode str"
  have s: "s = hexOf (1 # be_bytes 4 (length bs) @ bs)" "length bs < 256 ^ 4"
    using e by (auto simp: stringEncoder_def bindR_eq_Inr hex_byte_def dig_def Let_def bs_def)
  have "valueFuel n L c = Inr (StringLit str, adv (length (1 # be_bytes 4 (length bs) @ bs)) c)"
    if a: "ahead c (1 # be_bytes 4 (length bs) @ bs)" and n: "2 \<le> n" for c n
  proof -
    have "ahead c [1]" "ahead (adv 1 c) (be_bytes 4 (length bs) @ bs)"
      using a ahead_Cons [of c _ "be_bytes 4 (length bs) @ bs"] by blast+
    moreover have "utf8_decode bs = str" using assms by (simp add: utf8_ok_def bs_def)
    ultimately show ?thesis using n extract4_ahead [of "adv 1 c" bs] s(2)
      by (cases n) (simp_all add: consume1_ahead stringDecoder_def)
  qed
  then show "\<exists>bs. s = hexOf bs \<and> decodes L (StringLit str) bs" by (intro encoded_by [OF s(1)]) simp_all
qed

lemma encodes_int:
  assumes "canonical_int L t"
  shows "encodes L (IntLit t)"
  unfolding encodes_def
proof (intro allI impI)
  fix s assume e: "valueEncoder L (IntLit t) = Inr s"
  obtain i where i: "bn_parse L t = Some i" "bn_toFixed L i = t"
    using assms by (auto simp: canonical_int_def split: option.splits)
  define bs where "bs = sleb (i < 0) (nat \<bar>i\<bar>)"
  have s: "s = hexOf (0 # bs)"
    using e intEncoder_sleb [OF i(1)] by (simp add: hex_byte_def bs_def)
  have "valueFuel n L c = Inr (IntLit t, adv (length (0 # bs)) c)"
    if a: "ahead c (0 # bs)" and n: "2 \<le> n" for c n
  proof -
    have a': "ahead c [0]" "ahead (adv 1 c) bs" using a ahead_Cons [of c _ bs] by blast+
    have v: "(if i < 0 then - int (nat \<bar>i\<bar>) else int (nat \<bar>i\<bar>)) = i" by simp
    have "i < 0 \<longrightarrow> 0 < nat \<bar>i\<bar>" by simp
    from intDecoder_sleb [OF a'(2) [unfolded bs_def] this, of L]
    have "intDecoder L (adv 1 c) = Inr (IntLit t, adv (length bs) (adv 1 c))"
      unfolding v i(2) bs_def .
    with a'(1) n show ?thesis by (cases n) (simp_all add: consume1_ahead)
  qed
  then show "\<exists>bs. s = hexOf bs \<and> decodes L (IntLit t) bs" by (intro encoded_by [OF s]) simp_all
qed

lemma encodes_seq:
  assumes "\<forall>x\<in>set xs. encodes L x"
  shows "encodes L (Seq xs)"
  unfolding encodes_def
proof (intro allI impI)
  fix s assume e: "valueEncoder L (Seq xs) = Inr s"
  then obtain es where es: "mapR (valueEncoder L) xs = Inr es" by (auto simp: bindR_eq_Inr)
  then obtain bss where bss: "es = map hexOf bss" "list_all2 (decodes L) xs bss"
    using mapR_encodes [OF assms] by blast
  let ?b = "concat bss"
  have s: "s = hexOf (2 # be_bytes 4 (length ?b) @ ?b)" "length ?b < 256 ^ 4"
    using e es bss by (auto simp: bindR_eq_Inr Let_def hex_byte_def dig_def hexOf_concat [symmetric])
  have "valueFuel n L c = Inr (Seq xs, adv (length (2 # be_bytes 4 (length ?b) @ ?b)) c)"
    if a: "ahead c (2 # be_bytes 4 (length ?b) @ ?b)"
      and n: "2 * length (2 # be_bytes 4 (length ?b) @ ?b) + 2 \<le> n" for c n
  proof -
    obtain m where m: "n = Suc m" using n by (cases n) auto
    have a': "ahead c [2]" "ahead (adv 1 c) (be_bytes 4 (length ?b) @ ?b)"
      using a ahead_Cons [of c _ "be_bytes 4 (length ?b) @ ?b"] by blast+
    have "manyFuel m L (mkConsumer ?b) = Inr xs"
      by (rule manyFuel_reads [OF bss(2) ahead_mk clen_mk]) (use n m in simp)
    with a'(1) extract4_ahead [OF a'(2) s(2)] show ?thesis
      unfolding m by (simp add: consume1_ahead)
  qed
  then show "\<exists>bs. s = hexOf bs \<and> decodes L (Seq xs) bs" by (intro encoded_by [OF s(1)]) simp_all
qed

lemma encodes_prim:
  assumes ok: "micheline_ok L (Prim p args an)" and subs: "\<forall>x\<in>set (args_of args). encodes L x"
  shows "encodes L (Prim p args an)"
  unfolding encodes_def
proof (intro allI impI)
  fix s assume e: "valueEncoder L (Prim p args an) = Inr s"
  define xs where "xs = args_of args"
  have args: "args = (if xs = [] then None else Some xs)"
    using ok by (cases args) (auto simp: xs_def)
  have n: "(case args of None \<Rightarrow> 0 | Some ys \<Rightarrow> length ys) = length xs"
    by (cases args) (simp_all add: xs_def)
  have mp: "(case args of None \<Rightarrow> Inr [] | Some ys \<Rightarrow> mapR (valueEncoder L) ys) = mapR (valueEncoder L) xs"
    by (cases args) (simp_all add: xs_def)
  have tag: "pad (min (2 * length xs + (if an = None then 0 else 1) + 3) 9) 2
      = Inr (hex_byte (byte_of (prim_tag (length xs) (an \<noteq> None))))"
    using pad_tag [of "length xs" "an \<noteq> None"] unfolding prim_tag_def by (cases an) simp_all
  note e' = e [unfolded valueEncoder.simps Let_def n mp tag bindR_simps]
  obtain op where op: "map_of opMappingReverse p = Some op"
    using e' by (cases "map_of opMappingReverse p") simp_all
  obtain es ann rest where es: "mapR (valueEncoder L) xs = Inr es"
    and ann: "(case an of None \<Rightarrow> Inr [] | Some as \<Rightarrow> encodeAnnots as) = Inr ann"
    and rest: "finishPrim p (length xs) (args \<noteq> None) (concat es) ann = Inr rest"
    and s: "s = hex_byte (byte_of (prim_tag (length xs) (an \<noteq> None))) @ op @ rest"
    using e' unfolding op option.case by (simp only: bindR_eq_Inr) blast
  obtain b where b: "op = hex_byte b" "map_of opMapping (hex_byte b) = Some p"
    using opMappingReverse_sound [OF op] by blast
  obtain bss where bss: "es = map hexOf bss" "list_all2 (decodes L) xs bss"
    using mapR_encodes [OF subs [folded xs_def] es] by blast
  obtain ab where ab: "ann = hexOf ab" "annots_at an ab"
    using annots_encoded [OF ann] ok by auto
  have an_ne: "(ab \<noteq> []) = (an \<noteq> None)" using ab(2) by (auto simp: annots_at_def split: option.splits)
  have ha: "(args \<noteq> None) = (length xs \<noteq> 0)" using args by simp
  have shape: "shape_ok p (length xs) (an \<noteq> None)" using ok by (simp add: xs_def)
  have f: "rest = hexOf (prim_body p (length xs) (concat bss) (an \<noteq> None) @ ab)"
    and len: "(is_lambda p \<or> p = ''view'') \<and> length xs \<noteq> 0 \<or> is_pair p \<and> 2 < length xs
      \<longrightarrow> length (concat bss) < 256 ^ 4"
    using finishPrim_hex [OF rest [unfolded ab(1) bss(1) hexOf_concat [symmetric]] ha, unfolded an_ne]
    by blast+
  from prim_decodes [OF b(2) bss(2) ab(2) shape args len]
  show "\<exists>bs. s = hexOf bs \<and> decodes L (Prim p args an) bs"
    unfolding s b(1) f hexOf_simps(2) [symmetric] by blast
qed

theorem value_encodes: "micheline_ok L v \<Longrightarrow> encodes L v"
proof (induction v rule: expr_induct)
  case (Prim p xs an)
  then show ?case by (intro encodes_prim) (simp_all add: list_all_iff)
qed (auto intro: encodes_string encodes_int encodes_bytes encodes_seq encodes_prim simp: list_all_iff)

interpretation michelson: codec "valueEncoder L" "valueDecoder L" "micheline_ok L" for L
proof
  fix v s assume "micheline_ok L v" "valueEncoder L v = Inr s"
  then obtain bs where bs: "s = hexOf bs" "decodes L v bs"
    using value_encodes [of L v] unfolding encodes_def by blast
  have "valueDecoder L c = Inr (v, adv (length bs) c)" if "ahead c bs" for c
    using decodesD [OF bs(2) that] ahead_len [OF that] by (simp add: valueDecoder_def)
  with bs(1) show "\<exists>bs. s = hexOf bs \<and> (\<forall>c. ahead c bs \<longrightarrow> valueDecoder L c = Inr (v, adv (length bs) c))"
    by blast
qed

section \<open>The decoder ends: its fuel is enough for every input\<close>

lemma consume_less: "consume n c = Inr (bs, c') \<Longrightarrow> clen c' = clen c - n \<and> n \<le> clen c"
  using ahead_len by (fastforce simp: consume_Inr)

lemma extract_less:
  assumes "extractRequiredLen n c = Inr (bs, c')"
  shows "clen c' \<le> clen c - n" "length bs \<le> clen c - n" "n \<le> clen c"
proof -
  obtain len c1 l where 1: "consume n c = Inr (len, c1)" and 2: "consume l c1 = Inr (bs, c')"
    using assms by (auto simp: extractRequiredLen_def bindR_eq_Inr split: option.splits)
  show "clen c' \<le> clen c - n" "length bs \<le> clen c - n" "n \<le> clen c"
    using consume_less [OF 1] consume_less [OF 2] 2 by (auto simp: consume_Inr)
qed

lemma intChunks_less: "intChunks c = Inr (bs, c') \<Longrightarrow> clen c' < clen c"
proof (induction c arbitrary: bs rule: intChunks.induct)
  case (1 c)
  obtain b c1 where 2: "consume 1 c = Inr (b, c1)"
    using "1.prems" by (subst (asm) intChunks.simps) (auto simp: bindR_eq_Inr)
  show ?case
  proof (cases "hd b AND 128 \<noteq> 0")
    case True
    then obtain r where "intChunks c1 = Inr (r, c')"
      using "1.prems" 2 by (subst (asm) intChunks.simps) (auto simp: bindR_eq_Inr)
    with "1.IH" [OF 2 refl True] consume_less [OF 2] show ?thesis by simp
  next
    case False
    then have "c' = c1" using "1.prems" 2 by (subst (asm) intChunks.simps) (simp add: bindR_eq_Inr)
    with consume_less [OF 2] show ?thesis by simp
  qed
qed

lemma decoders_less:
  "bytesDecoder c = Inr (v, c') \<Longrightarrow> clen c' \<le> clen c"
  "stringDecoder c = Inr (v, c') \<Longrightarrow> clen c' \<le> clen c"
  "intDecoder L c = Inr (v, c') \<Longrightarrow> clen c' \<le> clen c"
  "decodeAnnots c = Inr (an, c') \<Longrightarrow> clen c' \<le> clen c"
  by (fastforce simp: bytesDecoder_def stringDecoder_def intDecoder_def decodeAnnots_def bindR_eq_Inr Let_def
      dest: extract_less intChunks_less)+

lemma finishDecode_less: "finishDecode p h comb args c = Inr (v, c') \<Longrightarrow> clen c' \<le> clen c"
  by (fastforce simp: finishDecode_def Let_def bindR_eq_Inr split: option.splits prod.splits list.splits if_splits
      dest: decoders_less(4))

lemma intChunks_no_fuel: "intChunks c \<noteq> Inl OutOfFuel"
proof (induction c rule: intChunks.induct)
  case (1 c)
  then show ?case
    by (subst intChunks.simps) (auto simp: bindR_eq_Inl consume_def Let_def split: if_splits)
qed

lemma leaf_no_fuel:
  "consume n c \<noteq> Inl OutOfFuel" "extractRequiredLen n c \<noteq> Inl OutOfFuel"
  "bytesDecoder c \<noteq> Inl OutOfFuel" "stringDecoder c \<noteq> Inl OutOfFuel" "intDecoder L c \<noteq> Inl OutOfFuel"
  "decodeAnnots c \<noteq> Inl OutOfFuel" "finishDecode p h comb args c \<noteq> Inl OutOfFuel"
proof -
  show 1: "consume n c \<noteq> Inl OutOfFuel" for n c by (simp add: consume_def Let_def)
  show 2: "extractRequiredLen n c \<noteq> Inl OutOfFuel" for n c
    by (auto simp: extractRequiredLen_def bindR_eq_Inl 1 split: option.splits)
  show "bytesDecoder c \<noteq> Inl OutOfFuel" "stringDecoder c \<noteq> Inl OutOfFuel" "intDecoder L c \<noteq> Inl OutOfFuel"
    by (auto simp: bytesDecoder_def stringDecoder_def intDecoder_def Let_def bindR_eq_Inl 2 intChunks_no_fuel)
  show 3: "decodeAnnots c \<noteq> Inl OutOfFuel" for c by (auto simp: decodeAnnots_def bindR_eq_Inl 2)
  show "finishDecode p h comb args c \<noteq> Inl OutOfFuel"
    by (auto simp: finishDecode_def Let_def bindR_eq_Inl 3 split: option.splits list.splits)
qed

text \<open>What \<open>primDecoder\<close> does after its opcode, as one case distinction.\<close>

lemma primFuel_shape:
  assumes "consume 1 c = Inr (bs, c1)"
  obtains "primFuel (Suc m) L c t = Inl (UnknownOp (padStart 2 (digits 16 (unat (hd bs)))))"
  | (plain) p h k where "primFuel (Suc m) L c t =
        bindR (timesFuel m L k c1) (\<lambda>(args, c3). finishDecode p h None args c3)"
  | (lambda) p h k where "primFuel (Suc m) L c t =
        bindR (consume 4 c1) (\<lambda>(_, c2). bindR (timesFuel m L k c2) (\<lambda>(args, c3).
        bindR (consume 4 c3) (\<lambda>(_, c4). finishDecode p h None args c4)))"
  | (pair) p h where "primFuel (Suc m) L c t =
        bindR (extractRequiredLen 4 c1) (\<lambda>(inner, c3). bindR (manyFuel m L (mkConsumer inner)) (\<lambda>cargs.
        bindR (decodeAnnots c3) (\<lambda>(cannots, c4). finishDecode p h (Some (cargs, cannots)) [] c4)))"
  | (view) p where "primFuel (Suc m) L c t =
        bindR (consume 4 c1) (\<lambda>(_, c3). bindR (timesFuel m L 4 c3) (\<lambda>(args, c4).
        bindR (consume 4 c4) (\<lambda>(_, c5). Inr (Prim p (Some args) None, c5))))"
  | (view0) p where "primFuel (Suc m) L c t = Inr (Prim p None None, c1)"
proof -
  obtain b where b: "bs = [b]" "consume (Suc 0) c = Inr ([b], c1)"
    using assms by (auto simp: consume_Inr length_Suc_conv)
  show thesis
  proof (cases "map_of opMapping (padStart 2 (digits 16 (unat b)))")
    case None
    then show ?thesis using b that(1) by (simp add: Let_def)
  next
    case (Some p)
    note pc = primFuel_cases [OF Some b(2) refl refl]
    show ?thesis
    proof (cases "p = ''view''")
      case True
      then show ?thesis using pc(4,5) that(5,6) by blast
    next
      case False
      then show ?thesis using pc(1-3) that(2-4) by blast
    qed
  qed
qed

lemma fuel_less:
  "(\<forall>c v c'. valueFuel n L c = Inr (v, c') \<longrightarrow> clen c' < clen c) \<and>
   (\<forall>k c vs c'. timesFuel n L k c = Inr (vs, c') \<longrightarrow> clen c' \<le> clen c) \<and>
   (\<forall>c t v c'. primFuel n L c t = Inr (v, c') \<longrightarrow> clen c' < clen c)"
proof (induction n)
  case 0
  then show ?case by simp
next
  case (Suc n)
  then have V: "\<And>c v c'. valueFuel n L c = Inr (v, c') \<Longrightarrow> clen c' < clen c"
    and T: "\<And>k c vs c'. timesFuel n L k c = Inr (vs, c') \<Longrightarrow> clen c' \<le> clen c"
    and P: "\<And>c t v c'. primFuel n L c t = Inr (v, c') \<Longrightarrow> clen c' < clen c" by blast+
  have "clen c' < clen c" if v: "valueFuel (Suc n) L c = Inr (v, c')" for c v c'
  proof -
    obtain p c1 where p: "consume 1 c = Inr (p, c1)" using v by (auto simp: bindR_eq_Inr)
    note less = consume_less [OF p]
    consider "bytesDecoder c1 = Inr (v, c')" | "stringDecoder c1 = Inr (v, c')"
      | "intDecoder L c1 = Inr (v, c')" | val where "extractRequiredLen 4 c1 = Inr (val, c')"
      | t where "primFuel n L c1 t = Inr (v, c')"
      using v p by (auto simp: bindR_eq_Inr Let_def split: if_splits)
    then show ?thesis by cases (use less decoders_less extract_less P in \<open>fastforce+\<close>)
  qed
  moreover have "clen c' \<le> clen c" if "timesFuel (Suc n) L k c = Inr (vs, c')" for k c vs c'
    using that V T by (fastforce simp: bindR_eq_Inr split: nat.splits)
  moreover have "clen c' < clen c" if t: "primFuel (Suc n) L c t = Inr (v, c')" for c t v c'
  proof -
    obtain b c1 where b: "consume 1 c = Inr (b, c1)" using t by (auto simp: bindR_eq_Inr Let_def)
    note less = consume_less [OF b]
    have "clen c' \<le> clen c1"
      using t by (cases rule: primFuel_shape [OF b, where m = n and L = L and t = t])
        (fastforce simp: bindR_eq_Inr simp del: primFuel.simps dest: T consume_less extract_less finishDecode_less decoders_less)+
    with less show ?thesis by arith
  qed
  ultimately show ?case by blast
qed

lemma fuel_enough:
  "(\<forall>c. 2 * clen c + 2 \<le> n \<longrightarrow> valueFuel n L c \<noteq> Inl OutOfFuel) \<and>
   (\<forall>c. 2 * clen c + 3 \<le> n \<longrightarrow> manyFuel n L c \<noteq> Inl OutOfFuel) \<and>
   (\<forall>k c. 2 * clen c + 3 \<le> n \<longrightarrow> timesFuel n L k c \<noteq> Inl OutOfFuel) \<and>
   (\<forall>c t. 2 * clen c + 3 \<le> n \<longrightarrow> primFuel n L c t \<noteq> Inl OutOfFuel)"
proof (induction n)
  case 0
  then show ?case by simp
next
  case (Suc n)
  then have V: "\<And>c. 2 * clen c + 2 \<le> n \<Longrightarrow> valueFuel n L c \<noteq> Inl OutOfFuel"
    and M: "\<And>c. 2 * clen c + 3 \<le> n \<Longrightarrow> manyFuel n L c \<noteq> Inl OutOfFuel"
    and T: "\<And>k c. 2 * clen c + 3 \<le> n \<Longrightarrow> timesFuel n L k c \<noteq> Inl OutOfFuel"
    and P: "\<And>c t. 2 * clen c + 3 \<le> n \<Longrightarrow> primFuel n L c t \<noteq> Inl OutOfFuel" by blast+
  note less = fuel_less [of n L]
  have "valueFuel (Suc n) L c \<noteq> Inl OutOfFuel" if n: "2 * clen c + 2 \<le> Suc n" for c
  proof
    assume "valueFuel (Suc n) L c = Inl OutOfFuel"
    note o = this
    obtain p c1 where p: "consume 1 c = Inr (p, c1)"
      using o by (auto simp: bindR_eq_Inl leaf_no_fuel)
    consider val c2 where "extractRequiredLen 4 c1 = Inr (val, c2)" "manyFuel n L (mkConsumer val) = Inl OutOfFuel"
      | t where "primFuel n L c1 t = Inl OutOfFuel"
      using o p by (auto simp: bindR_eq_Inl Let_def leaf_no_fuel split: if_splits)
    note cases = this
    have "2 * clen c1 + 3 \<le> n" using consume_less [OF p] n by arith
    moreover have "manyFuel n L (mkConsumer val) \<noteq> Inl OutOfFuel"
      if "extractRequiredLen 4 c1 = Inr (val, c2)" for val c2
      using extract_less(2,3) [OF that] \<open>2 * clen c1 + 3 \<le> n\<close> by (intro M) simp
    ultimately show False by (cases rule: cases) (use P in blast)+
  qed
  moreover have "manyFuel (Suc n) L c \<noteq> Inl OutOfFuel" if n: "2 * clen c + 3 \<le> Suc n" for c
  proof
    assume "manyFuel (Suc n) L c = Inl OutOfFuel"
    then obtain v c1 where v: "valueFuel n L c = Inr (v, c1)" and m: "manyFuel n L c1 = Inl OutOfFuel"
      using V [of c] n by (auto simp: bindR_eq_Inl split: if_splits)
    have "clen c1 < clen c" using less v by blast
    then show False using M [of c1] m n by simp
  qed
  moreover have "timesFuel (Suc n) L k c \<noteq> Inl OutOfFuel" if n: "2 * clen c + 3 \<le> Suc n" for k c
  proof
    assume "timesFuel (Suc n) L k c = Inl OutOfFuel"
    then obtain k' v c1 where v: "valueFuel n L c = Inr (v, c1)" and m: "timesFuel n L k' c1 = Inl OutOfFuel"
      using V [of c] n by (auto simp: bindR_eq_Inl split: nat.splits)
    have "clen c1 < clen c" using less v by blast
    then show False using T [of c1 k'] m n by simp
  qed
  moreover have "primFuel (Suc n) L c t \<noteq> Inl OutOfFuel" if n: "2 * clen c + 3 \<le> Suc n" for c t
  proof
    assume o: "primFuel (Suc n) L c t = Inl OutOfFuel"
    then obtain b c1 where b: "consume 1 c = Inr (b, c1)"
      by (auto simp: bindR_eq_Inl Let_def leaf_no_fuel)
    have n1: "2 * clen c1 + 3 \<le> n" using consume_less [OF b] n by arith
    have T1: "timesFuel n L k c2 \<noteq> Inl OutOfFuel" if "clen c2 \<le> clen c1" for k c2
      using that n1 by (intro T) simp
    have T2: "timesFuel n L k c2 \<noteq> Inl OutOfFuel" if "consume 4 c1 = Inr (x, c2)" for k c2 x
      using consume_less [OF that] by (intro T1) simp
    have M1: "manyFuel n L (mkConsumer inner) \<noteq> Inl OutOfFuel"
      if "extractRequiredLen 4 c1 = Inr (inner, c2)" for inner c2
      using extract_less(2) [OF that] n1 by (intro M) simp
    show False
      using o by (cases rule: primFuel_shape [OF b, where m = n and L = L and t = t])
        (auto simp: bindR_eq_Inl leaf_no_fuel T1 T2 M1 simp del: primFuel.simps)
  qed
  ultimately show ?case by blast
qed

theorem valueDecoder_ends: "valueDecoder L c \<noteq> Inl OutOfFuel"
  using fuel_enough [of "2 * clen c + 4" L] by (simp add: valueDecoder_def)

section \<open>Scripts\<close>

interpretation script: codec "\<lambda>(code, storage). scriptEncoder L code storage" "scriptDecoder L"
  "\<lambda>(code, storage). micheline_ok L code \<and> micheline_ok L storage" for L
proof
  fix v s
  assume ok: "case v of (code, storage) \<Rightarrow> micheline_ok L code \<and> micheline_ok L storage"
    and e: "(case v of (code, storage) \<Rightarrow> scriptEncoder L code storage) = Inr s"
  obtain code storage where v: "v = (code, storage)" by (cases v)
  obtain ec es where ec: "valueEncoder L code = Inr ec" and es: "valueEncoder L storage = Inr es"
    using e v by (auto simp: scriptEncoder_def bindR_eq_Inr)
  obtain bc where bc: "ec = hexOf bc" "\<And>c. ahead c bc \<Longrightarrow> valueDecoder L c = Inr (code, adv (length bc) c)"
    using michelson.reads_back [OF _ ec] ok v by auto
  obtain bs where bs: "es = hexOf bs" "\<And>c. ahead c bs \<Longrightarrow> valueDecoder L c = Inr (storage, adv (length bs) c)"
    using michelson.reads_back [OF _ es] ok v by auto
  let ?b = "(be_bytes 4 (length bc) @ bc) @ (be_bytes 4 (length bs) @ bs)"
  have s: "s = hexOf ?b" and len: "length bc < 256 ^ 4" "length bs < 256 ^ 4"
    using e v ec es bc(1) bs(1) by (auto simp: scriptEncoder_def bindR_eq_Inr)
  have "scriptDecoder L c = Inr (v, adv (length ?b) c)" if a: "ahead c ?b" for c
  proof -
    have "ahead c (be_bytes 4 (length bc) @ bc)"
      "ahead (adv (4 + length bc) c) (be_bytes 4 (length bs) @ bs)"
      using a by (simp_all add: ahead_append add.commute)
    from extract4_ahead [OF this(1) len(1)] extract4_ahead [OF this(2) len(2)] bc(2) [OF ahead_mk] bs(2) [OF ahead_mk]
    show ?thesis by (simp add: scriptDecoder_def v add.commute add.left_commute)
  qed
  with s show "\<exists>b. s = hexOf b \<and> (\<forall>c. ahead c b \<longrightarrow> scriptDecoder L c = Inr (v, adv (length b) c))" by blast
qed

end
