(* ===== verification/ForgeCodecProofs.thy ===== *)
theory ForgeCodecProofs
  imports ForgeCodec ForgeMichelsonProofs
begin

text \<open>
  Every field codec reads back what it writes: each is an instance of the locale
  \<open>codec\<close> of \<open>Consumer\<close>, for the values that the binary format can carry.  The proofs
  compose readers: \<open>reads d v bs\<close> says that \<open>d\<close> reads \<open>v\<close> where \<open>bs\<close> lies ahead.
\<close>

section \<open>Composing readers\<close>

definition reads :: "(consumer \<Rightarrow> ('a \<times> consumer) res) \<Rightarrow> 'a \<Rightarrow> byte list \<Rightarrow> bool" where
  "reads d v bs \<longleftrightarrow> (\<forall>c. ahead c bs \<longrightarrow> d c = Inr (v, adv (length bs) c))"

named_theorems reader "readers and what they read"

lemma codecI:
  assumes "\<And>v s. good v \<Longrightarrow> enc v = Inr s \<Longrightarrow> \<exists>bs. s = hexOf bs \<and> reads dec v bs"
  shows "codec enc dec good"
  by unfold_locales (use assms in \<open>auto simp: reads_def\<close>)

lemma codecD: "codec enc dec good \<Longrightarrow> good v \<Longrightarrow> enc v = Inr s \<Longrightarrow> \<exists>bs. s = hexOf bs \<and> reads dec v bs"
  unfolding reads_def by (rule codec.reads_back)

lemma reads_return [reader]: "reads (\<lambda>c. Inr (v, c)) v []"
  by (simp add: reads_def)

lemma reads_bind [reader]:
  "reads d x b1 \<Longrightarrow> reads (k x) v b2 \<Longrightarrow> reads (\<lambda>c. bindR (d c) (\<lambda>(x, c1). k x c1)) v (b1 @ b2)"
  by (simp add: reads_def ahead_append)

lemma reads_final:
  "reads d x bs \<Longrightarrow> v = f x \<Longrightarrow> reads (\<lambda>c. bindR (d c) (\<lambda>(x, c1). Inr (f x, c1))) v bs"
  by (simp add: reads_def)

lemma reads_consume [reader]: "length bs = n \<Longrightarrow> reads (consume n) bs bs"
  by (simp add: reads_def consume_ahead)

lemma reads_extract [reader]:
  "length bs < 256 ^ k \<Longrightarrow> 0 < k \<Longrightarrow> reads (extractRequiredLen k) bs (be_bytes k (length bs) @ bs)"
  by (simp add: reads_def extract_ahead)

lemma reads_tag:
  "reads (k [b]) v bs \<Longrightarrow> reads (\<lambda>c. bindR (consume 1 c) (\<lambda>(p, c1). k p c1)) v (b # bs)"
  using reads_bind [of "consume 1" "[b]" "[b]" k v bs] by (simp add: reads_consume)

lemma reads_cong: "reads d v bs \<Longrightarrow> (\<And>c. d c = d' c) \<Longrightarrow> reads d' v bs"
  by (simp add: reads_def)

text \<open>A reader at the start of a fresh consumer reads all of it.\<close>

lemma reads_mk: "reads d v bs \<Longrightarrow> d (mkConsumer bs) = Inr (v, adv (length bs) (mkConsumer bs))"
  by (simp add: reads_def)

section \<open>Hashes, keys and addresses\<close>

lemma prefix_reads: "b58_value L p s \<Longrightarrow> prefixEncoder L p s = Inr t \<Longrightarrow>
    \<exists>bs. t = hexOf bs \<and> length bs = prefix_len p \<and> reads (prefixDecoder L p) s bs"
proof -
  assume v: "b58_value L p s" and e: "prefixEncoder L p s = Inr t"
  obtain h where h: "length h = prefix_len p" "b58cdecode L s (prefix_bytes p) = Inr h"
    "b58cencode L h (prefix_bytes p) = s"
    using b58_valueD [OF v] by metis
  have "reads (\<lambda>c. bindR (consume (prefix_len p) c) (\<lambda>(val, c1). Inr (b58cencode L val (prefix_bytes p), c1))) s h"
    by (rule reads_final [OF reads_consume [OF h(1)]]) (simp add: h(3))
  then have "reads (prefixDecoder L p) s h" by (rule reads_cong) (simp add: prefixDecoder_def)
  with e h show ?thesis by (auto simp: prefixEncoder_def buf2hex_hexOf)
qed

lemma codec_prefix: "codec (prefixEncoder L p) (prefixDecoder L p) (b58_value L p)"
  by (rule codecI) (use prefix_reads in blast)

text \<open>A tag byte chooses the prefix.\<close>

lemma tagged_reads:
  assumes "b58_value L p s" "bindR (prefixEncoder L p s) (\<lambda>t. Inr (tag @ t)) = Inr u"
    and "tag = hexOf [b]" "\<And>c. k [b] c = prefixDecoder L p c"
  shows "\<exists>bs. u = hexOf bs \<and> reads (\<lambda>c. bindR (consume 1 c) (\<lambda>(p, c1). k p c1)) s bs"
proof -
  obtain t where t: "prefixEncoder L p s = Inr t" "u = tag @ t" using assms(2) by (auto simp: bindR_eq_Inr)
  obtain bs where bs: "t = hexOf bs" "reads (prefixDecoder L p) s bs" using prefix_reads [OF assms(1) t(1)] by blast
  have "reads (k [b]) s bs" using bs(2) assms(4) reads_cong by metis
  from reads_tag [where k = k, OF this] show ?thesis using t(2) bs(1) assms(3)
    by (intro exI [of _ "b # bs"]) simp
qed

definition pkh_ok :: "libs \<Rightarrow> string \<Rightarrow> bool" where
  "pkh_ok L s \<longleftrightarrow> (\<exists>p\<in>{''tz1'', ''tz2'', ''tz3''}. take 3 s = p \<and> b58_value L p s)"

lemma codec_pkh: "codec (pkhEncoder L) (pkhDecoder L) (pkh_ok L)"
proof (rule codecI)
  fix v s assume ok: "pkh_ok L v" and e: "pkhEncoder L v = Inr s"
  have "\<exists>bs. s = hexOf bs \<and> reads (pkhDecoder L) v bs"
    if p: "take 3 v = p" "b58_value L p v" "t = hexOf [b]" and cases: "(p, t, b) \<in> {(''tz1'', ''00'', 0), (''tz2'', ''01'', 1), (''tz3'', ''02'', 2)}" for p t b
  proof -
    have e': "bindR (prefixEncoder L p v) (\<lambda>u. Inr (t @ u)) = Inr s"
      using e p(1) cases by (auto simp: pkhEncoder_def)
    show ?thesis unfolding pkhDecoder_def [abs_def]
      by (rule tagged_reads [OF p(2) e' p(3)]) (use cases in \<open>auto simp: Let_def\<close>)
  qed
  note choice = this
  show "\<exists>bs. s = hexOf bs \<and> reads (pkhDecoder L) v bs"
    using ok choice [of "''tz1''" "''00''" 0] choice [of "''tz2''" "''01''" 1] choice [of "''tz3''" "''02''" 2]
    by (auto simp: pkh_ok_def hex_byte_def dig_def)
qed

definition public_key_ok :: "libs \<Rightarrow> string \<Rightarrow> bool" where
  "public_key_ok L s \<longleftrightarrow> (\<exists>p\<in>{''edpk'', ''sppk'', ''p2pk''}. take 4 s = p \<and> b58_value L p s)"

lemma codec_public_key: "codec (publicKeyEncoder L) (publicKeyDecoder L) (public_key_ok L)"
proof (rule codecI)
  fix v s assume ok: "public_key_ok L v" and e: "publicKeyEncoder L v = Inr s"
  have "\<exists>bs. s = hexOf bs \<and> reads (publicKeyDecoder L) v bs"
    if p: "take 4 v = p" "b58_value L p v" "t = hexOf [b]" and cases: "(p, t, b) \<in> {(''edpk'', ''00'', 0), (''sppk'', ''01'', 1), (''p2pk'', ''02'', 2)}" for p t b
  proof -
    have e': "bindR (prefixEncoder L p v) (\<lambda>u. Inr (t @ u)) = Inr s"
      using e p(1) cases by (auto simp: publicKeyEncoder_def)
    show ?thesis unfolding publicKeyDecoder_def [abs_def]
      by (rule tagged_reads [OF p(2) e' p(3)]) (use cases in \<open>auto simp: Let_def\<close>)
  qed
  note choice = this
  show "\<exists>bs. s = hexOf bs \<and> reads (publicKeyDecoder L) v bs"
    using ok choice [of "''edpk''" "''00''" 0] choice [of "''sppk''" "''01''" 1] choice [of "''p2pk''" "''02''" 2]
    by (auto simp: public_key_ok_def hex_byte_def dig_def)
qed

text \<open>Contract addresses: a tag, the hash and a padding byte.\<close>

definition kt1_ok :: "libs \<Rightarrow> string \<Rightarrow> bool" where
  "kt1_ok L s \<longleftrightarrow> take 3 s = ''KT1'' \<and> b58_value L ''KT1'' s"

lemma kt1_reads:
  assumes "kt1_ok L s" "bindR (prefixEncoder L ''KT1'' s) (\<lambda>t. Inr (''01'' @ t @ ''00'')) = Inr u"
    and "\<And>c. k [1] c = bindR (prefixDecoder L ''KT1'' c) (\<lambda>(a, c2). bindR (consume 1 c2) (\<lambda>(_, c3). Inr (a, c3)))"
  shows "\<exists>bs. u = hexOf bs \<and> reads (\<lambda>c. bindR (consume 1 c) (\<lambda>(p, c1). k p c1)) s bs"
proof -
  obtain t where t: "prefixEncoder L ''KT1'' s = Inr t" "u = ''01'' @ t @ ''00''"
    using assms(2) by (auto simp: bindR_eq_Inr)
  obtain bs where bs: "t = hexOf bs" "reads (prefixDecoder L ''KT1'') s bs"
    using prefix_reads [OF _ t(1)] assms(1) by (auto simp: kt1_ok_def)
  have pad: "reads (\<lambda>c2. bindR (consume 1 c2) (\<lambda>(_, c3). Inr (s, c3))) s [0]"
    using reads_bind [of "consume 1" "[0]" "[0]" "\<lambda>_ c. Inr (s, c)" s "[]"] by (simp add: reads_consume reads_return)
  have "reads (k [1]) s (bs @ [0])" unfolding assms(3) [abs_def]
    by (rule reads_bind [where k = "\<lambda>a c2. bindR (consume 1 c2) (\<lambda>(_, c3). Inr (a, c3))", OF bs(2) pad])
  from reads_tag [where k = k, OF this] show ?thesis
    using t(2) bs(1) by (intro exI [of _ "1 # bs @ [0]"]) (simp add: hex_byte_def dig_def)
qed

definition address_ok :: "libs \<Rightarrow> string \<Rightarrow> bool" where
  "address_ok L s \<longleftrightarrow> pkh_ok L s \<or> kt1_ok L s"

lemma codec_address: "codec (addressEncoder L) (addressDecoder L) (address_ok L)"
proof (rule codecI)
  fix v s assume ok: "address_ok L v" and e: "addressEncoder L v = Inr s"
  show "\<exists>bs. s = hexOf bs \<and> reads (addressDecoder L) v bs"
  proof (cases "pkh_ok L v")
    case True
    then obtain t where t: "pkhEncoder L v = Inr t" "s = ''00'' @ t"
      using e by (auto simp: addressEncoder_def pkh_ok_def bindR_eq_Inr Let_def)
    obtain bs where bs: "t = hexOf bs" "reads (pkhDecoder L) v bs"
      using codecD [OF codec_pkh True t(1)] by blast
    have "reads (addressDecoder L) v (0 # bs)"
      unfolding addressDecoder_def [abs_def] by (rule reads_tag) (use bs(2) in simp)
    with t(2) bs(1) show ?thesis by (intro exI [of _ "0 # bs"]) (simp add: hex_byte_def)
  next
    case False
    then have kt: "kt1_ok L v" using ok by (simp add: address_ok_def)
    have e': "bindR (prefixEncoder L ''KT1'' v) (\<lambda>t. Inr (''01'' @ t @ ''00'')) = Inr s"
      using e kt by (simp add: addressEncoder_def kt1_ok_def)
    show ?thesis unfolding addressDecoder_def [abs_def] by (rule kt1_reads [OF kt e']) simp
  qed
qed

lemma codec_smart_contract_address:
  "codec (smartContractAddressEncoder L) (smartContractAddressDecoder L) (kt1_ok L)"
proof (rule codecI)
  fix v s assume kt: "kt1_ok L v" and e: "smartContractAddressEncoder L v = Inr s"
  have e': "bindR (prefixEncoder L ''KT1'' v) (\<lambda>t. Inr (''01'' @ t @ ''00'')) = Inr s"
    using e kt by (simp add: smartContractAddressEncoder_def kt1_ok_def)
  show "\<exists>bs. s = hexOf bs \<and> reads (smartContractAddressDecoder L) v bs"
    unfolding smartContractAddressDecoder_def [abs_def] by (rule kt1_reads [OF kt e']) simp
qed

definition named_ok :: "libs \<Rightarrow> string \<Rightarrow> string \<Rightarrow> bool" where
  "named_ok L p s \<longleftrightarrow> take (length p) s = p \<and> b58_value L p s"

lemma codec_smart_rollup_address:
  "codec (smartRollupAddressEncoder L) (smartRollupAddressDecoder L) (named_ok L ''sr1'')"
proof (rule codecI)
  fix v s assume ok: "named_ok L ''sr1'' v" and e: "smartRollupAddressEncoder L v = Inr s"
  have t: "take 3 v = ''sr1''" using ok by (simp add: named_ok_def numeral_3_eq_3)
  have "prefixEncoder L ''sr1'' v = Inr s" using e t by (simp add: smartRollupAddressEncoder_def)
  then obtain bs where "s = hexOf bs" "reads (prefixDecoder L ''sr1'') v bs"
    using prefix_reads [of L "''sr1''" v s] ok by (auto simp: named_ok_def)
  with t show "\<exists>bs. s = hexOf bs \<and> reads (smartRollupAddressDecoder L) v bs"
    by (auto simp: reads_def smartRollupAddressDecoder_def)
qed

lemma codec_smart_rollup_commitment:
  "codec (smartRollupContractAddressEncoder L) (smartRollupCommitmentHashDecoder L) (named_ok L ''src1'')"
proof (rule codecI)
  fix v s assume ok: "named_ok L ''src1'' v" and e: "smartRollupContractAddressEncoder L v = Inr s"
  have t: "take 4 v = ''src1''" using ok by (simp add: named_ok_def eval_nat_numeral)
  have "prefixEncoder L ''src1'' v = Inr s" using e t by (simp add: smartRollupContractAddressEncoder_def)
  then obtain bs where "s = hexOf bs" "reads (prefixDecoder L ''src1'') v bs"
    using prefix_reads [of L "''src1''" v s] ok by (auto simp: named_ok_def)
  with t show "\<exists>bs. s = hexOf bs \<and> reads (smartRollupCommitmentHashDecoder L) v bs"
    by (auto simp: reads_def smartRollupCommitmentHashDecoder_def)
qed

section \<open>Integers of fixed width\<close>

lemma bit_byte_at:
  assumes "k \<in> {0, 8, 16, 24}"
  shows "bit (byte_at w k) j \<longleftrightarrow> j < 8 \<and> bit w (k + j)"
proof -
  have m: "(255 :: 32 word) = mask 8" by (simp add: mask_eq_exp_minus_1)
  show ?thesis using assms by (auto simp: byte_at_def bit_simps m dest: bit_imp_le_length)
qed

lemma upt4: "[0..<4] = [0, 1, 2, 3 :: nat]" "[0..<2] = [0, 1 :: nat]"
  by (simp_all add: upt_conv_Cons)

lemma or_bytes_simps:
  "or_bytes [a, b, c, d] = push_bit 24 (ucast a) OR push_bit 16 (ucast b) OR push_bit 8 (ucast c) OR ucast d"
  "or_bytes [a, b] = push_bit 8 (ucast a) OR ucast b"
  by (simp_all add: or_bytes_def upt_conv_Cons or.assoc)

lemma or_bytes_4:
  "or_bytes (map (\<lambda>i. byte_at w ((4 - (i + 1)) * 8)) [0..<4]) = w"
proof (rule bit_word_eqI)
  fix n assume n: "n < LENGTH(32)"
  consider "n < 8" | "8 \<le> n" "n < 16" | "16 \<le> n" "n < 24" | "24 \<le> n" by linarith
  then show "bit (or_bytes (map (\<lambda>i. byte_at w ((4 - (i + 1)) * 8)) [0..<4])) n = bit w n"
    by cases (use n in \<open>auto simp: upt4 or_bytes_simps bit_simps bit_byte_at\<close>)
qed

lemma or_bytes_2:
  "or_bytes (map (\<lambda>i. byte_at w ((2 - (i + 1)) * 8)) [0..<2]) = take_bit 16 w"
proof (rule bit_word_eqI)
  fix n assume n: "n < LENGTH(32)"
  consider "n < 8" | "8 \<le> n" "n < 16" | "16 \<le> n" by linarith
  then show "bit (or_bytes (map (\<lambda>i. byte_at w ((2 - (i + 1)) * 8)) [0..<2])) n = bit (take_bit 16 w) n"
    by cases (use n in \<open>auto simp: upt4 or_bytes_simps bit_simps bit_byte_at\<close>)
qed

text \<open>\<open>parseInt(String(n))\<close> is \<open>n\<close>.\<close>

lemma parse_printed [simp]: "js_parseInt 10 (int_to_dec n) = Some n"
proof -
  have d: "list_all (in_base 10) (digits 10 m)" for m by (rule list_all_digits) simp_all
  have p: "js_parseInt 10 (digits 10 m) = Some (int m)" for m
    using js_parseInt_digits [OF d digits_ne] by (simp add: of_digits_digits)
  have neg: "js_parseInt 10 (CHR ''-'' # digits 10 m) = Some (- int m)" for m
  proof -
    have "dropWhile is_space (CHR ''-'' # digits 10 m) = CHR ''-'' # digits 10 m"
      by (simp add: is_space_def Let_def)
    moreover have "takeWhile (in_base 10) (digits 10 m) = digits 10 m" by (rule takeWhile_all [OF d])
    ultimately show ?thesis
      unfolding js_parseInt_def by (simp only:) (simp add: parse_sign_def of_digits_digits digits_ne Let_def takeWhile_all [OF d])
  qed
  show ?thesis using p [of "nat n"] neg [of "nat (- n)"] by (simp add: int_to_dec_def)
qed

lemma to_int32_small [simp]: "\<bar>n\<bar> \<le> 2 ^ 53 \<Longrightarrow> to_int32 (VNum n) = Inr (word_of_int n)"
  by (simp add: to_int32_def int32_of_text_def to_double_small)

text \<open>The smallest number that prints in exponent form.\<close>

lemma digits_times_10: "0 < n \<Longrightarrow> digits 10 (10 * n) = digits 10 n @ ''0''"
  by (subst digits.simps) (simp add: dig_def)

lemma digits_power_10: "digits 10 (10 ^ k) = CHR ''1'' # replicate k CHR ''0''"
proof (induction k)
  case 0
  show ?case by (simp add: digits.simps dig_def)
next
  case (Suc k)
  then show ?case using digits_times_10 [of "10 ^ k"] by (simp add: replicate_append_same)
qed

lemma exponent_printed: "js_number_text (10 ^ 21) = ''1e+21''" 
proof -
  have b: "bit_len 1000000000000000000000 = 70" by (simp add: bit_len.simps)
  have td: "to_double (10 ^ 21) = 10 ^ 21" by (simp add: to_double_def round_even_def b Let_def)
  have d: "digits 10 (nat (10 ^ 21)) = CHR ''1'' # replicate 21 CHR ''0''"
    using digits_power_10 [of 21] by (simp only: nat_power_eq nat_numeral zero_le_numeral)
  have "closest (10 ^ 21) (10 ^ 21) = Some (10 ^ 21)" using td by (simp add: closest_def Let_def)
  then have s: "shortest_from 22 (10 ^ 21) 1 = 10 ^ 21" by (simp add: shortest_from.simps [of 22])
  have "digits 10 21 = ''21''" by (simp add: digits.simps dig_def)
  then have e: "exponent_form (digits 10 (nat (10 ^ 21))) = ''1e+21''" unfolding d by (simp add: exponent_form_def dropWhile_append3 numeral_eq_Suc)
  have "length (digits 10 (nat (10 ^ 21))) = 22" unfolding d by simp
  moreover have "\<bar>to_double (10 ^ 21)\<bar> = 10 ^ 21" "\<not> (10 ^ 21 :: int) \<le> 2 ^ 53" "(10 ^ 21 :: int) \<noteq> 2 ^ 1024" "\<not> (10 ^ 21 :: int) < 0"
    unfolding td by simp_all
  ultimately show ?thesis unfolding js_number_text_def Let_def by (simp only: if_False s e) simp
qed

lemma int32_exponent_form: "int32Encoder (VNum (10 ^ 21)) = Inr ''00000001''"
proof -
  have "to_int32 (VNum (10 ^ 21)) = Inr 1"
    using exponent_printed by (simp add: to_int32_def int32_of_text_def js_parseInt_def parse_sign_def is_space_def in_base_def dig_val_def of_digits_def
        to_double_small)
  then show ?thesis by (simp add: int32Encoder_def upt_conv_Cons hex_byte_def dig_def byte_at_def)
qed

definition int32_ok :: "int \<Rightarrow> bool" where
  "int32_ok n \<longleftrightarrow> - (2 ^ 31) \<le> n \<and> n < 2 ^ 31"

definition int16_ok :: "int \<Rightarrow> bool" where
  "int16_ok n \<longleftrightarrow> 0 \<le> n \<and> n < 2 ^ 16"

lemma sint_int32: "int32_ok n \<Longrightarrow> sint (word_of_int n :: 32 word) = n"
  using signed_take_bit_int_eq_self [of 31 n] by (simp add: int32_ok_def signed_of_int)

lemma sint_int16: "int16_ok n \<Longrightarrow> sint (take_bit 16 (word_of_int n :: 32 word)) = n"
proof -
  assume n: "int16_ok n"
  then have "take_bit 16 n = n" by (simp add: int16_ok_def take_bit_int_eq_self)
  then have "take_bit 16 (word_of_int n :: 32 word) = word_of_int n"
    using take_bit_of_int [of 16 n, where ?'a = "32 word"] by simp
  with n sint_int32 [of n] show ?thesis by (simp add: int16_ok_def int32_ok_def)
qed

lemma codec_int32: "codec (\<lambda>n. int32Encoder (VNum n)) int32Decoder int32_ok"
proof (rule codecI)
  fix n s assume ok: "int32_ok n" and e: "int32Encoder (VNum n) = Inr s"
  let ?bs = "map (\<lambda>i. byte_at (word_of_int n) ((4 - (i + 1)) * 8)) [0..<4]"
  have s: "s = hexOf ?bs" using e ok by (simp add: int32Encoder_def int32_ok_def abs_le_iff del: upt_Suc)
  have "reads int32Decoder n ?bs"
    unfolding int32Decoder_def [abs_def]
    by (rule reads_final [OF reads_consume]) (simp_all only: or_bytes_4 sint_int32 [OF ok] length_map length_upt)
  with s show "\<exists>bs. s = hexOf bs \<and> reads int32Decoder n bs" by blast
qed

lemma codec_int16: "codec (\<lambda>n. int16Encoder (VNum n)) int16Decoder int16_ok"
proof (rule codecI)
  fix n s assume ok: "int16_ok n" and e: "int16Encoder (VNum n) = Inr s"
  let ?bs = "map (\<lambda>i. byte_at (word_of_int n) ((2 - (i + 1)) * 8)) [0..<2]"
  have s: "s = hexOf ?bs" using e ok by (simp add: int16Encoder_def int16_ok_def abs_le_iff del: upt_Suc)
  have "reads int16Decoder n ?bs"
    unfolding int16Decoder_def [abs_def]
    by (rule reads_final [OF reads_consume]) (simp_all only: or_bytes_2 sint_int16 [OF ok] length_map length_upt)
  with s show "\<exists>bs. s = hexOf bs \<and> reads int16Decoder n bs" by blast
qed

section \<open>Numbers of variable length\<close>

lemma bn_hex_int [simp]: "bn_hex (int k) = digits 16 k"
  by (simp add: bn_hex_def)

lemma zarithLoop_leb: "zarithLoop (int m) = hexOf (leb m)"
proof (induction m rule: leb.induct)
  case (1 m)
  show ?case
  proof (cases "m < 128")
    case True
    have "(if int m < 16 then ''0'' else []) @ bn_hex (int m) = hex_byte (byte_of m)"
    proof (cases "m < 16")
      case True
      then show ?thesis
        by (simp add: bn_hex_def digits.simps [of 16 m] hex_byte_def)
    next
      case False
      have "padStart 2 (digits 16 m) = digits 16 m"
        using False digits_length [of 16 1 m] by (simp add: padStart_def not_le)
      with False True hex_byte_digits [of "byte_of m"] show ?thesis by (simp add: bn_hex_def)
    qed
    with True show ?thesis by (simp add: zarithLoop.simps [of "int m"] leb.simps [of m])
  next
    case False
    have d: "(int m - int m mod 128) div 128 = int (m div 128)"
      by (simp add: minus_mod_eq_mult_div zdiv_int)
    have b: "int m mod 128 + 128 = int (m mod 128 + 128)" by (simp add: zmod_int)
    have lt: "m mod 128 < 128" by simp
    have "padStart 2 (digits 16 (m mod 128 + 128)) = digits 16 (m mod 128 + 128)"
      using digits_length [of 16 1 "m mod 128 + 128"] by (simp add: padStart_def not_le)
    then have "bn_hex (int m mod 128 + 128) = hex_byte (byte_of (m mod 128 + 128))"
      using lt hex_byte_digits [of "byte_of (m mod 128 + 128)"] unfolding b bn_hex_int by simp
    with False 1 d show ?thesis by (simp add: zarithLoop.simps [of "int m"] leb.simps [of m])
  qed
qed

lemma msb_index_ahead:
  assumes "ahead c (pre @ bs)" "chunked bs"
  shows "msb_index c (length pre) = length pre + length bs - 1"
  using assms
proof (induction bs arbitrary: pre)
  case Nil
  then show ?case by (simp add: chunked_def)
next
  case (Cons b bs)
  have g: "cget (length pre) c = Some b" using cget_ahead [OF Cons.prems(1), of "length pre"] by simp
  have l: "length pre < clen c" using ahead_len [OF Cons.prems(1)] by simp
  show ?case
  proof (cases "Zarith.more b")
    case True
    then have ch: "chunked bs" using Cons.prems(2) by (cases bs) (auto simp: chunked_def)
    then have "bs \<noteq> []" by (simp add: chunked_def)
    with Cons.IH [of "pre @ [b]"] ch Cons.prems(1) True l g show ?thesis
      by (subst msb_index.simps) (simp add: and_128_more)
  next
    case False
    then have "bs = []" using Cons.prems(2) by (cases bs) (auto simp: chunked_def)
    with False g l show ?thesis by (subst msb_index.simps) (simp add: and_128_more)
  qed
qed

lemma zarith_num_ahead:
  assumes "ahead c bs" "bs \<noteq> []"
  shows "zarith_num c (length bs - 1) = int (leb_val bs)"
proof -
  have "zarith_num c (length bs - 1) =
      foldr (\<lambda>i num. num * 128 + (case cget i c of Some b \<Rightarrow> int (unat (b AND 127)) | None \<Rightarrow> 0)) [0..<length bs] 0"
    using assms(2) by (simp add: zarith_num_def foldl_conv_foldr del: upt_Suc)
  also have "\<dots> = foldr (\<lambda>i num. num * 128 + int (unat (bs ! i) mod 128)) [0..<length bs] 0"
    by (rule foldr_cong) (use cget_ahead [OF assms(1)] in \<open>auto simp: and_127_mod\<close>)
  also have "\<dots> = foldr (\<lambda>b num. num * 128 + int (unat b mod 128)) (map (\<lambda>i. bs ! i) [0..<length bs]) 0"
    by (simp only: foldr_map o_def)
  also have "\<dots> = foldr (\<lambda>b num. num * 128 + int (unat b mod 128)) bs 0" by (simp only: map_nth)
  also have "\<dots> = int (leb_val bs)" by (induction bs) (simp_all add: zmod_int mult.commute)
  finally show ?thesis .
qed

theorem zarith_reads: "reads (zarithDecoder L) (bn_toString L (int m)) (leb m)"
  unfolding reads_def
proof (intro allI impI)
  fix c assume a: "ahead c (leb m)"
  have i: "msb_index c 0 = length (leb m) - 1" using msb_index_ahead [of c "[]" "leb m"] a leb_chunked by simp
  have l: "Suc (length (leb m) - 1) = length (leb m)" by (simp add: Suc_diff_1)
  show "zarithDecoder L c = Inr (bn_toString L (int m), adv (length (leb m)) c)"
    using zarith_num_ahead [OF a leb_ne(1)] consume_ahead [OF a refl] leb_val_leb [of m]
    by (simp add: zarithDecoder_def i l Let_def)
qed

lemma codec_zarith: "codec (zarithEncoder L) (zarithDecoder L) (plain_nat L)"
proof (rule codecI)
  fix v s assume ok: "plain_nat L v" and e: "zarithEncoder L v = Inr s"
  obtain i where i: "bn_parse L v = Some i" "0 \<le> i" "bn_toString L i = v"
    using ok by (auto simp: plain_nat_def split: option.splits)
  have s: "s = hexOf (leb (nat i))"
    using e i zarithLoop_leb [of "nat i"] by (simp add: zarithEncoder_def)
  have "reads (zarithDecoder L) v (leb (nat i))" using zarith_reads [of L "nat i"] i by simp
  with s show "\<exists>bs. s = hexOf bs \<and> reads (zarithDecoder L) v bs" by blast
qed

section \<open>Optional fields\<close>

lemma optional_reads:
  assumes "codec enc dec good" "good v" "enc v = Inr t" "tag = hexOf [b]"
    and "\<And>c. k [b] c = bindR (dec c) (\<lambda>(s, c2). Inr (VStr s, c2))"
  shows "\<exists>bs. tag @ t = hexOf bs \<and> reads (\<lambda>c. bindR (consume 1 c) (\<lambda>(p, c1). k p c1)) (VStr v) bs"
proof -
  obtain bs where bs: "t = hexOf bs" "reads dec v bs" using codecD [OF assms(1-3)] by blast
  have "reads (k [b]) (VStr v) bs"
    unfolding assms(5) [abs_def] by (rule reads_final [OF bs(2)]) simp
  from reads_tag [where k = k, OF this] show ?thesis
    using bs(1) assms(4) by (intro exI [of _ "b # bs"]) simp
qed

definition optional_ok :: "(string \<Rightarrow> bool) \<Rightarrow> fval \<Rightarrow> bool" where
  "optional_ok good v \<longleftrightarrow> (case v of VUndef \<Rightarrow> True | VStr s \<Rightarrow> s \<noteq> [] \<and> good s | _ \<Rightarrow> False)"

lemma optional_cases:
  assumes "optional_ok good v"
  obtains "v = VUndef" | s where "v = VStr s" "s \<noteq> []" "good s"
  using assms by (cases v) (auto simp: optional_ok_def)

lemma codec_delegate: "codec (delegateEncoder L) (delegateDecoder L) (optional_ok (pkh_ok L))"
proof (rule codecI)
  fix v s assume ok: "optional_ok (pkh_ok L) v" and e: "delegateEncoder L v = Inr s"
  have dec: "delegateDecoder L = (\<lambda>c. bindR (consume 1 c) (\<lambda>(p, c1).
      if unat (hd p) = 255 then bindR (pkhDecoder L c1) (\<lambda>(s, c2). Inr (VStr s, c2)) else Inr (VUndef, c1)))"
    by (simp add: fun_eq_iff delegateDecoder_def boolDecoder_def bindR_assoc case_prod_unfold cong: if_cong)
  from ok show "\<exists>bs. s = hexOf bs \<and> reads (delegateDecoder L) v bs"
  proof (cases rule: optional_cases)
    case 1
    then have "s = hexOf [0]" using e by (simp add: delegateEncoder_def boolEncoder_def hex_byte_def)
    moreover have "reads (delegateDecoder L) v [0]"
      unfolding dec 1 by (rule reads_tag) (simp add: reads_return)
    ultimately show ?thesis by blast
  next
    case (2 d)
    then obtain t where t: "pkhEncoder L d = Inr t" "s = ''ff'' @ t"
      using e by (auto simp: delegateEncoder_def boolEncoder_def bindR_eq_Inr)
    show ?thesis unfolding dec 2(1) t(2)
      by (rule optional_reads [OF codec_pkh 2(3) t(1), of _ 255]) (simp_all add: hex_byte_def dig_def)
  qed
qed

lemma codec_limit:
  assumes "\<And>v. enc v = burnLimitEncoder L v" "\<And>c. dec c = burnLimitDecoder L c"
  shows "codec enc dec (optional_ok (plain_nat L))"
proof (rule codecI)
  fix v s assume ok: "optional_ok (plain_nat L) v" and e: "enc v = Inr s"
  from ok show "\<exists>bs. s = hexOf bs \<and> reads dec v bs"
  proof (cases rule: optional_cases)
    case 1
    then have "s = hexOf [0]" using e by (simp add: assms burnLimitEncoder_def hex_byte_def)
    moreover have "reads dec v [0]"
      unfolding assms(2) [abs_def] burnLimitDecoder_def 1
      by (rule reads_tag) (simp add: reads_return hex_byte_def)
    ultimately show ?thesis by blast
  next
    case (2 d)
    then obtain t where t: "zarithEncoder L d = Inr t" "s = ''ff'' @ t"
      using e by (auto simp: assms burnLimitEncoder_def bindR_eq_Inr)
    show ?thesis unfolding assms(2) [abs_def] burnLimitDecoder_def 2(1) t(2)
      by (rule optional_reads [OF codec_zarith 2(3) t(1), of _ 255]) (simp_all add: hex_byte_def dig_def)
  qed
qed

lemma codec_burn_limit: "codec (burnLimitEncoder L) (burnLimitDecoder L) (optional_ok (plain_nat L))"
  by (rule codec_limit) simp_all

lemma codec_deposits_limit: "codec (depositsLimitEncoder L) (depositsLimitDecoder L) (optional_ok (plain_nat L))"
  by (rule codec_limit)
    (simp_all add: depositsLimitEncoder_def burnLimitEncoder_def depositsLimitDecoder_def burnLimitDecoder_def)

section \<open>Votes\<close>

lemma enum_reads:
  assumes "s = hexOf [b]" "\<And>c. k [b] c = Inr (v, c)"
  shows "\<exists>bs. s = hexOf bs \<and> reads (\<lambda>c. bindR (consume 1 c) (\<lambda>(p, c1). k p c1)) v bs"
proof -
  have "reads (k [b]) v []" by (simp add: reads_def assms(2))
  from reads_tag [where k = k, OF this] assms(1) show ?thesis by blast
qed

lemma codec_ballot: "codec (\<lambda>v. ballotEncoder (VStr v)) ballotDecoder (\<lambda>_. True)"
proof (rule codecI)
  fix v s assume e: "ballotEncoder (VStr v) = Inr s"
  then consider "v = ''yay'' \<and> s = hexOf [0]" | "v = ''nay'' \<and> s = hexOf [1]" | "v = ''pass'' \<and> s = hexOf [2]"
    by (auto simp: ballotEncoder_def hex_byte_def dig_def split: if_splits)
  then show "\<exists>bs. s = hexOf bs \<and> reads ballotDecoder v bs"
  proof cases
    case 1
    then show ?thesis unfolding ballotDecoder_def [abs_def] by (intro enum_reads [where b = 0]) simp_all
  next
    case 2
    then show ?thesis unfolding ballotDecoder_def [abs_def] by (intro enum_reads [where b = 1]) simp_all
  next
    case 3
    then show ?thesis unfolding ballotDecoder_def [abs_def] by (intro enum_reads [where b = 2]) simp_all
  qed
qed

lemma codec_pvm: "codec (\<lambda>v. pvmKindEncoder (VStr v)) pvmKindDecoder (\<lambda>_. True)"
proof (rule codecI)
  fix v s assume e: "pvmKindEncoder (VStr v) = Inr s"
  then consider "v = ''arith'' \<and> s = hexOf [0]" | "v = ''wasm_2_0_0'' \<and> s = hexOf [1]"
    by (auto simp: pvmKindEncoder_def hex_byte_def dig_def split: if_splits)
  then show "\<exists>bs. s = hexOf bs \<and> reads pvmKindDecoder v bs"
  proof cases
    case 1
    then show ?thesis unfolding pvmKindDecoder_def [abs_def] by (intro enum_reads [where b = 0]) simp_all
  next
    case 2
    then show ?thesis unfolding pvmKindDecoder_def [abs_def] by (intro enum_reads [where b = 1]) simp_all
  qed
qed

text \<open>The proposals are read to the end of the input, whatever their length prefix says.\<close>

lemma proposals_read:
  assumes "list_all (b58_value L ''P'') ps" "mapR (prefixEncoder L ''P'') ps = Inr ts"
  shows "\<exists>bs. concat ts = hexOf bs \<and> length bs = 32 * length ps \<and>
    (\<forall>c. ahead c bs \<longrightarrow> clen c = length bs \<longrightarrow> proposalsLoop L c = Inr (ps, adv (length bs) c))"
  using assms
proof (induction ps arbitrary: ts)
  case Nil
  then show ?case by (simp add: proposalsLoop.simps)
next
  case (Cons p ps)
  then obtain t us where t: "prefixEncoder L ''P'' p = Inr t" "ts = t # us" "mapR (prefixEncoder L ''P'') ps = Inr us"
    by (auto simp: bindR_eq_Inr)
  obtain b1 where b1: "t = hexOf b1" "length b1 = 32" "reads (prefixDecoder L ''P'') p b1"
    using prefix_reads [OF _ t(1)] Cons.prems(1) by auto
  obtain b2 where b2: "concat us = hexOf b2" "length b2 = 32 * length ps"
    "\<forall>c. ahead c b2 \<longrightarrow> clen c = length b2 \<longrightarrow> proposalsLoop L c = Inr (ps, adv (length b2) c)"
    using Cons.IH [OF _ t(3)] Cons.prems(1) by auto
  have "proposalsLoop L c = Inr (p # ps, adv (length (b1 @ b2)) c)"
    if a: "ahead c (b1 @ b2)" and n: "clen c = length (b1 @ b2)" for c
  proof -
    have "ahead c b1" "ahead (adv 32 c) b2" using a b1(2) by (simp_all add: ahead_append)
    with b1(2,3) b2(2,3) n show ?thesis by (subst proposalsLoop.simps) (simp add: reads_def)
  qed
  with t(2) b1(1,2) b2(1,2) show ?case by (intro exI [of _ "b1 @ b2"]) simp
qed

theorem proposals_read_to_end:
  assumes "list_all (b58_value L ''P'') ps" "proposalsEncoder L ps = Inr s"
  shows "\<exists>bs. s = hexOf bs \<and>
    (\<forall>c. ahead c bs \<longrightarrow> clen c = length bs \<longrightarrow> proposalsDecoder L c = Inr (ps, adv (length bs) c))"
proof -
  obtain len ts where l: "pad (32 * length ps) 8 = Inr len" and t: "mapR (prefixEncoder L ''P'') ps = Inr ts"
    and s: "s = len @ concat ts"
    using assms(2) by (auto simp: proposalsEncoder_def bindR_eq_Inr simp del: pad8)
  obtain bs where bs: "concat ts = hexOf bs"
    "\<forall>c. ahead c bs \<longrightarrow> clen c = length bs \<longrightarrow> proposalsLoop L c = Inr (ps, adv (length bs) c)"
    using proposals_read [OF assms(1) t] by blast
  let ?b = "be_bytes 4 (32 * length ps) @ bs"
  have "proposalsDecoder L c = Inr (ps, adv (length ?b) c)" if a: "ahead c ?b" and n: "clen c = length ?b" for c
  proof -
    have "ahead c (be_bytes 4 (32 * length ps))" "ahead (adv 4 c) bs" using a by (simp_all add: ahead_append)
    with bs(2) n show ?thesis by (simp add: proposalsDecoder_def consume_ahead)
  qed
  with s l bs(1) show ?thesis by (intro exI [of _ ?b]) simp
qed

section \<open>Length-prefixed text and bytes\<close>

lemma hex_pair: "hexOf bs @ hexOf ds = hexOf (bs @ ds)"
  by simp

lemma pad_half_hex:
  "pad_half (length (hexOf bs)) 8 = Inr len \<Longrightarrow> len = hexOf (be_bytes 4 (length bs)) \<and> length bs < 256 ^ 4"
  by simp

definition hex_ok :: "string \<Rightarrow> bool" where
  "hex_ok s \<longleftrightarrow> hex_text s \<and> toLowerCase s = s"

lemma hex_ok_bytes: "hex_ok s \<Longrightarrow> \<exists>bs. s = hexOf bs"
  unfolding hex_ok_def using hex_text_lower by blast

lemma codec_padded_bytes: "codec (\<lambda>v. paddedBytesEncoder v 8) paddedBytesDecoder hex_ok"
proof (rule codecI)
  fix v s assume ok: "hex_ok v" and e: "paddedBytesEncoder v 8 = Inr s"
  obtain bs where v: "v = hexOf bs" using hex_ok_bytes [OF ok] by blast
  have s: "s = hexOf (be_bytes 4 (length bs) @ bs)" and l: "length bs < 256 ^ 4"
    using e v by (auto simp: paddedBytesEncoder_def bindR_eq_Inr)
  have "reads paddedBytesDecoder v (be_bytes 4 (length bs) @ bs)"
    unfolding paddedBytesDecoder_def [abs_def] by (rule reads_final [OF reads_extract]) (use v l in simp_all)
  with s show "\<exists>bs. s = hexOf bs \<and> reads paddedBytesDecoder v bs" by blast
qed

lemma codec_batch_content: "codec txRollupBatchContentEncoder txRollupBatchContentDecoder hex_ok"
proof -
  have "txRollupBatchContentEncoder = (\<lambda>v. paddedBytesEncoder v 8)" "txRollupBatchContentDecoder = paddedBytesDecoder"
    by (simp_all add: fun_eq_iff txRollupBatchContentEncoder_def paddedBytesEncoder_def
        txRollupBatchContentDecoder_def paddedBytesDecoder_def)
  then show ?thesis using codec_padded_bytes by simp
qed

lemma stringEncoder_hex:
  assumes "stringEncoder e = Inr s"
  shows "s = hexOf (1 # be_bytes 4 (length e) @ utf8_encode e)" "length e < 256 ^ 4"
proof -
  have l: "length (utf8_encode e) = length e" by (simp add: utf8_encode_def)
  show "s = hexOf (1 # be_bytes 4 (length e) @ utf8_encode e)" "length e < 256 ^ 4"
    using assms l by (auto simp: stringEncoder_def bindR_eq_Inr hex_byte_def dig_def Let_def)
qed

lemma codec_entrypoint_name: "codec entrypointNameEncoder entrypointNameDecoder utf8_ok"
proof (rule codecI)
  fix v s assume ok: "utf8_ok v" and e: "entrypointNameEncoder v = Inr s"
  obtain t where t: "stringEncoder v = Inr t" "s = drop 2 t" using e by (auto simp: entrypointNameEncoder_def bindR_eq_Inr)
  have l: "length (utf8_encode v) = length v" by (simp add: utf8_encode_def)
  have s: "s = hexOf (be_bytes 4 (length v) @ utf8_encode v)"
    using t(2) stringEncoder_hex(1) [OF t(1)] by (simp add: hex_byte_def)
  have "reads entrypointNameDecoder v (be_bytes 4 (length (utf8_encode v)) @ utf8_encode v)"
    unfolding entrypointNameDecoder_def [abs_def]
    by (rule reads_final [OF reads_extract]) (use ok l stringEncoder_hex(2) [OF t(1)] in \<open>simp_all add: utf8_ok_def\<close>)
  with s l show "\<exists>bs. s = hexOf bs \<and> reads entrypointNameDecoder v bs" by metis
qed

text \<open>A value behind its length.\<close>

lemma value_field:
  assumes "micheline_ok L v" "valueEncoder L v = Inr s"
  obtains bs where "s = hexOf bs"
    "\<And>k. reads (k v) w r \<Longrightarrow> length bs < 256 ^ 4 \<Longrightarrow>
      reads (\<lambda>c. bindR (extractRequiredLen 4 c) (\<lambda>(b, c1).
        bindR (valueDecoder L (mkConsumer b)) (\<lambda>(x, _). k x c1))) w ((be_bytes 4 (length bs) @ bs) @ r)"
proof -
  obtain bs where bs: "s = hexOf bs" "\<And>c. ahead c bs \<Longrightarrow> valueDecoder L c = Inr (v, adv (length bs) c)"
    using michelson.reads_back [OF assms] by blast
  have "reads (\<lambda>c. bindR (extractRequiredLen 4 c) (\<lambda>(b, c1).
        bindR (valueDecoder L (mkConsumer b)) (\<lambda>(x, _). k x c1))) w ((be_bytes 4 (length bs) @ bs) @ r)"
    if "reads (k v) w r" "length bs < 256 ^ 4" for k
    using reads_bind [of "extractRequiredLen 4" bs "be_bytes 4 (length bs) @ bs"
        "\<lambda>b c1. bindR (valueDecoder L (mkConsumer b)) (\<lambda>(x, _). k x c1)" w r]
      reads_extract [OF that(2)] that(1) bs(2) [OF ahead_mk] by (simp add: reads_def)
  with bs(1) that show thesis by blast
qed

lemma codec_value_parameter: "codec (valueParameterEncoder L) (valueParameterDecoder L) (micheline_ok L)"
proof (rule codecI)
  fix v s assume ok: "micheline_ok L v" and e: "valueParameterEncoder L v = Inr s"
  obtain t len where t: "valueEncoder L v = Inr t" "pad_half (length t) 8 = Inr len" "s = len @ t"
    using e by (auto simp: valueParameterEncoder_def bindR_eq_Inr)
  obtain bs where bs: "t = hexOf bs"
    "\<And>k. reads (k v) v [] \<Longrightarrow> length bs < 256 ^ 4 \<Longrightarrow>
      reads (\<lambda>c. bindR (extractRequiredLen 4 c) (\<lambda>(b, c1).
        bindR (valueDecoder L (mkConsumer b)) (\<lambda>(x, _). k x c1))) v ((be_bytes 4 (length bs) @ bs) @ [])"
    using value_field [OF ok t(1), of v "[]"] by blast
  have "len = hexOf (be_bytes 4 (length bs)) \<and> length bs < 256 ^ 4" using t(2) unfolding bs(1) by (rule pad_half_hex)
  moreover from this have "reads (valueParameterDecoder L) v ((be_bytes 4 (length bs) @ bs) @ [])"
    unfolding valueParameterDecoder_def [abs_def] by (intro bs(2)) (simp_all add: reads_return)
  ultimately show "\<exists>bs. s = hexOf bs \<and> reads (valueParameterDecoder L) v bs"
    using t(3) bs(1) by (intro exI [of _ "be_bytes 4 (length bs) @ bs"]) simp
qed

section \<open>Entrypoints and parameters\<close>

lemma entrypointMapping_keys: "map fst entrypointMapping = map (\<lambda>i. hex_byte (of_nat i)) [0..<6]"
  by (simp add: entrypointMapping_def upt_conv_Cons hex_byte_def dig_def)

lemma entrypoint_table:
  assumes "map_of entrypointMappingReverse e = Some k"
  shows "map_of entrypointMapping k = Some e" "\<exists>b. k = hex_byte b"
proof -
  have "distinct (map fst entrypointMapping)" by (simp add: entrypointMapping_def)
  from map_of_swap [OF this] show *: "map_of entrypointMapping k = Some e"
    using assms by (simp add: entrypointMappingReverse_def)
  have "k \<in> set (map fst entrypointMapping)" using map_of_SomeD [OF *] by force
  then show "\<exists>b. k = hex_byte b" unfolding entrypointMapping_keys by auto
qed

definition entrypoint_ok :: "string \<Rightarrow> bool" where
  "entrypoint_ok e \<longleftrightarrow> utf8_ok e \<and> js_length e \<le> ENTRYPOINT_MAX_LENGTH \<and> length e < 256
     \<and> map_of object_properties e = None"

lemma pad_byte: "pad (unat (b :: byte)) 2 = Inr (hex_byte b)"
  using pad_hex [of "unat b" 1] by simp

lemma be_bytes_4: "n < 256 \<Longrightarrow> be_bytes 4 n = [0, 0, 0, byte_of n]"
proof -
  assume n: "n < 256"
  have four: "4 = Suc (Suc (Suc (Suc 0)))" by simp
  have "be_bytes 4 n = be_bytes (Suc (Suc (Suc (Suc 0)))) n" by (subst four) (rule refl)
  with n show ?thesis by (simp add: byte_of_def)
qed

lemma codec_entrypoint: "codec entrypointEncoder entrypointDecoder entrypoint_ok"
proof (rule codecI)
  fix v s assume ok: "entrypoint_ok v" and e: "entrypointEncoder v = Inr s"
  show "\<exists>bs. s = hexOf bs \<and> reads entrypointDecoder v bs"
  proof (cases "map_of entrypointMappingReverse v")
    case (Some k)
    then obtain b where b: "k = hex_byte b" "map_of entrypointMapping (hex_byte b) = Some v"
      using entrypoint_table by blast
    have "s = k" using e Some by (simp add: entrypointEncoder_def map_add_def)
    moreover have "reads entrypointDecoder v [b]"
      unfolding entrypointDecoder_def [abs_def] by (rule reads_tag) (simp add: pad_byte b(2) reads_return)
    ultimately show ?thesis using b(1) by (intro exI [of _ "[b]"]) simp
  next
    case None
    have ok': "utf8_ok v" "js_length v \<le> ENTRYPOINT_MAX_LENGTH" "length v < 256" "map_of object_properties v = None"
      using ok by (simp_all add: entrypoint_ok_def)
    have l: "length (utf8_encode v) = length v" by (simp add: utf8_encode_def)
    obtain t where t: "stringEncoder v = Inr t" "s = ''ff'' @ drop 8 t"
      using e None ok' by (auto simp: entrypointEncoder_def map_add_def bindR_eq_Inr)
    have "be_bytes 4 (length v) = [0, 0, 0, byte_of (length v)]"
      by (rule be_bytes_4 [OF ok'(3)])
    then have "drop 8 t = hexOf (byte_of (length v) # utf8_encode v)"
      using stringEncoder_hex(1) [OF t(1)] by (simp add: hex_byte_def)
    then have s: "s = hexOf (255 # byte_of (length v) # utf8_encode v)"
      using t(2) by (simp add: hex_byte_def dig_def)
    have x: "reads (extractRequiredLen 1) (utf8_encode v) (byte_of (length v) # utf8_encode v)"
      using reads_extract [of "utf8_encode v" 1] l ok'(3) by (simp add: byte_of_def)
    have f: "map_of entrypointMapping (hex_byte 255) = None"
      by (simp add: entrypointMapping_def hex_byte_def dig_def)
    have d: "reads (\<lambda>c. bindR (extractRequiredLen 1 c) (\<lambda>(entry, c2).
         let entrypoint = utf8_decode entry in
         if js_length entrypoint > ENTRYPOINT_MAX_LENGTH then Inl (OversizedEntryPointError entrypoint)
         else Inr (entrypoint, c2))) v ((byte_of (length v) # utf8_encode v) @ [])"
      by (rule reads_bind [OF x]) (use ok'(1,2) in \<open>simp add: utf8_ok_def reads_return\<close>)
    have "reads entrypointDecoder v (255 # byte_of (length v) # utf8_encode v)"
      unfolding entrypointDecoder_def [abs_def] by (rule reads_tag) (use d f pad_byte [of 255] in simp)
    with s show ?thesis by blast
  qed
qed

fun parameters_ok :: "libs \<Rightarrow> fval \<Rightarrow> bool" where
  "parameters_ok L VUndef \<longleftrightarrow> True"
| "parameters_ok L (VParam e v) \<longleftrightarrow>
     \<not> (e = ''default'' \<and> (case v of Prim p _ _ \<Rightarrow> p = ''Unit'' | _ \<Rightarrow> False)) \<and>
     entrypoint_ok e \<and> micheline_ok L v \<and>
     (case valueEncoder L v of Inr s \<Rightarrow> length s < 2 * 256 ^ 4 | Inl _ \<Rightarrow> True)"
| "parameters_ok L _ \<longleftrightarrow> False"

lemma codec_parameters: "codec (parametersEncoder L) (parametersDecoder L) (parameters_ok L)"
proof (rule codecI)
  fix v s assume ok: "parameters_ok L v" and e: "parametersEncoder L v = Inr s"
  consider "v = VUndef" | en x where "v = VParam en x" using ok by (cases v) auto
  then show "\<exists>bs. s = hexOf bs \<and> reads (parametersDecoder L) v bs"
  proof cases
    case 1
    then have "s = hexOf [0]" using e by (simp add: parametersEncoder_def hex_byte_def)
    then show ?thesis unfolding parametersDecoder_def [abs_def] 1 by (intro enum_reads [where b = 0]) simp_all
  next
    case (2 en x)
    then obtain te t where te: "entrypointEncoder en = Inr te" and t: "valueEncoder L x = Inr t"
      and s: "s = ''ff'' @ te @ padStart 8 (half_text (length t)) @ t"
      using e ok by (auto simp: parametersEncoder_def bindR_eq_Inr split: if_splits)
    have ok': "entrypoint_ok en" "micheline_ok L x" "length t < 2 * 256 ^ 4" using ok 2 t by simp_all
    obtain b1 where b1: "te = hexOf b1" "reads entrypointDecoder en b1" using codecD [OF codec_entrypoint ok'(1) te] by blast
    obtain bs where bs: "t = hexOf bs"
      "\<And>k. reads (k x) v [] \<Longrightarrow> length bs < 256 ^ 4 \<Longrightarrow>
        reads (\<lambda>c. bindR (extractRequiredLen 4 c) (\<lambda>(b, c1).
          bindR (valueDecoder L (mkConsumer b)) (\<lambda>(x, _). k x c1))) v ((be_bytes 4 (length bs) @ bs) @ [])"
      using value_field [OF ok'(2) t, of v "[]"] by blast
    have l: "length bs < 256 ^ 4" using ok'(3) bs(1) by simp
    have p: "padStart 8 (half_text (length t)) = hexOf (be_bytes 4 (length bs))"
      using padStart_hex [of "length bs" 4] l bs(1) by (simp add: half_text_def)
    have "reads (\<lambda>c. bindR (extractRequiredLen 4 c) (\<lambda>(b, c1).
          bindR (valueDecoder L (mkConsumer b)) (\<lambda>(x, _). Inr (VParam en x, c1)))) v ((be_bytes 4 (length bs) @ bs) @ [])"
      by (rule bs(2) [OF _ l]) (simp add: reads_return 2)
    from reads_bind [of entrypointDecoder en b1 "\<lambda>en c2. bindR (extractRequiredLen 4 c2) (\<lambda>(b, c1).
          bindR (valueDecoder L (mkConsumer b)) (\<lambda>(x, _). Inr (VParam en x, c1)))", OF b1(2) this]
    have "reads (parametersDecoder L) v (255 # b1 @ (be_bytes 4 (length bs) @ bs) @ [])"
      unfolding parametersDecoder_def [abs_def] by (intro reads_tag) simp
    moreover have "hex_byte (255 :: byte) = ''ff''" by (simp add: hex_byte_def dig_def)
    then have "s = hexOf (255 # b1 @ (be_bytes 4 (length bs) @ bs) @ [])"
      using s b1(1) bs(1) p by (simp only: hexOf_simps append_assoc append_Nil2)
    ultimately show ?thesis by blast
  qed
qed

section \<open>Lists of messages, raw hashes\<close>

definition item :: "byte list \<Rightarrow> byte list" where
  "item d = be_bytes 4 (length d) @ d"

lemma item_length: "length (item d) = 4 + length d"
  by (simp add: item_def)

lemma strip_reads:
  assumes "list_all (\<lambda>d. length d < 256 ^ 4) ds" "length ds < fuel"
  shows "stripLengthPrefixFromBytes fuel 4 (mkConsumer (concat (map item ds))) = Inr ds"
  using assms
proof (induction ds arbitrary: fuel)
  case Nil
  then show ?case by (cases fuel) simp_all
next
  case (Cons d ds)
  obtain m where m: "fuel = Suc m" "length ds < m" using Cons.prems(2) by (cases fuel) auto
  let ?c = "mkConsumer (concat (map item (d # ds)))"
  have a: "ahead ?c (be_bytes 4 (length d))" "ahead (adv 4 ?c) d"
    using ahead_mk [of "concat (map item (d # ds))"] by (simp_all add: item_def ahead_append)
  have p: "js_parseInt 16 (hexOf (be_bytes 4 (length d))) = Some (int (length d))"
  proof -
    have "be_bytes 4 (length d) \<noteq> []" by (metis be_bytes_length list.size(3) zero_neq_numeral)
    with Cons.prems(1) show ?thesis by (simp add: js_parseInt_hexOf)
  qed
  have sl: "cslice (length d + 4) (adv (length d) (adv 4 ?c)) = mkConsumer (concat (map item ds))"
    by (simp add: cslice_def mkConsumer_def item_def)
  show ?case
    using consume_ahead [OF a(1), of 4] consume_ahead [OF a(2) refl] p sl Cons.IH [OF _ m(2)] Cons.prems(1)
    by (simp add: m(1) item_length)
qed

definition messages_ok :: "string list \<Rightarrow> bool" where
  "messages_ok ms \<longleftrightarrow> list_all hex_ok ms"

lemma messages_encoded:
  assumes "list_all hex_ok ms"
    "mapR (\<lambda>curr. bindR (pad_half (length curr) 8) (\<lambda>len. Inr (len @ curr))) ms = Inr ts"
  shows "\<exists>ds. ms = map hexOf ds \<and> concat ts = hexOf (concat (map item ds)) \<and> list_all (\<lambda>d. length d < 256 ^ 4) ds"
  using assms
proof (induction ms arbitrary: ts)
  case Nil
  then show ?case by (intro exI [of _ "[]"]) simp
next
  case (Cons m ms)
  obtain d where d: "m = hexOf d" using Cons.prems(1) hex_ok_bytes by auto
  obtain t us where t: "bindR (pad_half (length m) 8) (\<lambda>len. Inr (len @ m)) = Inr t" "ts = t # us"
    "mapR (\<lambda>curr. bindR (pad_half (length curr) 8) (\<lambda>len. Inr (len @ curr))) ms = Inr us"
    using Cons.prems(2) unfolding mapR_eq_Inr_Cons by blast
  have t': "t = hexOf (item d)" "length d < 256 ^ 4" using t(1) d by (auto simp: bindR_eq_Inr item_def)
  obtain ds where "ms = map hexOf ds" "concat us = hexOf (concat (map item ds))" "list_all (\<lambda>d. length d < 256 ^ 4) ds"
    using Cons.IH [OF _ t(3)] Cons.prems(1) by auto
  with d t(2) t' show ?case by (intro exI [of _ "d # ds"]) simp
qed

lemma codec_messages: "codec smartRollupMessageEncoder smartRollupMessageDecoder messages_ok"
proof (rule codecI)
  fix v s assume ok: "messages_ok v" and e: "smartRollupMessageEncoder v = Inr s"
  obtain ts len where ts: "mapR (\<lambda>curr. bindR (pad_half (length curr) 8) (\<lambda>len. Inr (len @ curr))) v = Inr ts"
    and len: "pad_half (length (concat ts)) 8 = Inr len" "s = len @ concat ts"
    using e by (auto simp: smartRollupMessageEncoder_def bindR_eq_Inr Let_def)
  obtain ds where ds: "v = map hexOf ds" "concat ts = hexOf (concat (map item ds))"
    "list_all (\<lambda>d. length d < 256 ^ 4) ds"
    using messages_encoded [OF ok [unfolded messages_ok_def] ts] by blast
  let ?b = "concat (map item ds)"
  have l: "len = hexOf (be_bytes 4 (length ?b)) \<and> length ?b < 256 ^ 4"
    using pad_half_hex [OF len(1) [unfolded ds(2)]] .
  have "length ds \<le> length ?b" by (induction ds) (simp_all add: item_def)
  then have strip: "stripLengthPrefixFromBytes (length ?b + 1) 4 (mkConsumer ?b) = Inr ds"
    by (intro strip_reads [OF ds(3)]) simp
  have "reads smartRollupMessageDecoder v ((be_bytes 4 (length ?b) @ ?b) @ [])"
    unfolding smartRollupMessageDecoder_def [abs_def]
    by (rule reads_bind [OF reads_extract]) (use l strip ds(1) in \<open>simp_all add: reads_return\<close>)
  with l len(2) ds(2) show "\<exists>bs. s = hexOf bs \<and> reads smartRollupMessageDecoder v bs"
    by (intro exI [of _ "(be_bytes 4 (length ?b) @ ?b) @ []"]) simp
qed

definition raw_ok :: "nat \<Rightarrow> string \<Rightarrow> bool" where
  "raw_ok n s \<longleftrightarrow> hex_ok s \<and> length s = 2 * n"

lemma codec_raw: "codec (\<lambda>v. passthroughFixedLengthDecoder n (VStr v)) (rawDecoder n) (raw_ok n)"
proof (rule codecI)
  fix v s assume ok: "raw_ok n v" and e: "passthroughFixedLengthDecoder n (VStr v) = Inr s"
  obtain bs where v: "v = hexOf bs" "length bs = n" using ok hex_ok_bytes [of v] by (auto simp: raw_ok_def)
  have "s = v" using e by (auto simp: passthroughFixedLengthDecoder_def split: if_splits)
  moreover have "reads (rawDecoder n) v bs"
    unfolding rawDecoder_def [abs_def]
    by (rule reads_final [OF reads_consume]) (use v in \<open>simp_all add: toHexString_hexOf\<close>)
  ultimately show "\<exists>bs. s = hexOf bs \<and> reads (rawDecoder n) v bs" using v(1) by blast
qed

lemma codec_script:
  "codec (\<lambda>(code, storage). scriptEncoder L code storage) (scriptDecoder L)
     (\<lambda>(code, storage). micheline_ok L code \<and> micheline_ok L storage)"
  by unfold_locales

end
