(* ===== verification/ForgerProofs.thy ===== *)
theory ForgerProofs
  imports Forger ForgeCodecProofs
begin

text \<open>
  What \<open>forge\<close> writes, \<open>parse\<close> reads: the fields of an operation come back in the order of
  its schema, a list of operations comes back whole.  A field is either self-delimiting, or
  (\<open>proposals\<close>) reads to the end of the input and may only stand last.
\<close>

section \<open>Readers that may need the end of the input\<close>

definition reads_to :: "bool \<Rightarrow> (consumer \<Rightarrow> ('a \<times> consumer) res) \<Rightarrow> 'a \<Rightarrow> byte list \<Rightarrow> bool" where
  "reads_to fin d v bs \<longleftrightarrow>
     (\<forall>c. ahead c bs \<longrightarrow> (fin \<longrightarrow> clen c = length bs) \<longrightarrow> d c = Inr (v, adv (length bs) c))"

lemma reads_to_self: "reads d v bs \<Longrightarrow> reads_to fin d v bs"
  by (simp add: reads_def reads_to_def)

lemma reads_to_bind:
  "reads_to False d x b1 \<Longrightarrow> reads_to fin (k x) v b2 \<Longrightarrow>
     reads_to fin (\<lambda>c. bindR (d c) (\<lambda>(x, c1). k x c1)) v (b1 @ b2)"
  by (simp add: reads_to_def ahead_append)

lemma reads_to_last:
  "reads_to fin d x bs \<Longrightarrow> reads_to fin (\<lambda>c. bindR (d c) (\<lambda>(x, c1). Inr (f x, c1))) (f x) bs"
  by (simp add: reads_to_def)

lemma reads_toD: "reads_to fin d v bs \<Longrightarrow> ahead c bs \<Longrightarrow> (fin \<longrightarrow> clen c = length bs) \<Longrightarrow>
    d c = Inr (v, adv (length bs) c)"
  by (simp add: reads_to_def)

text \<open>An encoder and a decoder of a field, on the values that satisfy \<open>good\<close>.\<close>

definition field_codec ::
    "bool \<Rightarrow> (fval \<Rightarrow> string res) \<Rightarrow> (consumer \<Rightarrow> (fval \<times> consumer) res) \<Rightarrow> (fval \<Rightarrow> bool) \<Rightarrow> bool" where
  "field_codec fin enc dec good \<longleftrightarrow>
     (\<forall>v s. good v \<longrightarrow> enc v = Inr s \<longrightarrow> (\<exists>bs. s = hexOf bs \<and> reads_to fin dec v bs))"

lemma field_codec_direct: "codec enc dec good \<Longrightarrow> field_codec fin enc dec good"
  unfolding field_codec_def using codecD reads_to_self by metis

definition str_ok :: "(string \<Rightarrow> bool) \<Rightarrow> fval \<Rightarrow> bool" where
  "str_ok good v \<longleftrightarrow> (case v of VStr s \<Rightarrow> good s | _ \<Rightarrow> False)"

definition num_ok :: "(int \<Rightarrow> bool) \<Rightarrow> fval \<Rightarrow> bool" where
  "num_ok good v \<longleftrightarrow> (case v of VNum n \<Rightarrow> good n | _ \<Rightarrow> False)"

definition strs_ok :: "(string list \<Rightarrow> bool) \<Rightarrow> fval \<Rightarrow> bool" where
  "strs_ok good v \<longleftrightarrow> (case as_strs v of Inr ss \<Rightarrow> good ss | Inl _ \<Rightarrow> False)"

text \<open>A codec of some type of values, seen through an injection into field values.\<close>

lemma field_codec_via:
  assumes c: "codec enc dec good"
    and e: "\<And>v. ok v \<Longrightarrow> \<exists>x. v = emb x \<and> good x \<and> enc' v = enc x"
    and d: "\<And>c. dec' c = bindR (dec c) (\<lambda>(x, c1). Inr (emb x, c1))"
  shows "field_codec fin enc' dec' ok"
  unfolding field_codec_def
proof (intro allI impI)
  fix v s assume "ok v" "enc' v = Inr s"
  then obtain x where x: "v = emb x" "good x" "enc x = Inr s" using e by metis
  obtain bs where bs: "s = hexOf bs" "reads dec x bs" using codecD [OF c x(2,3)] by blast
  have "reads_to fin dec' v bs"
    unfolding d [abs_def] x(1) by (rule reads_to_last [OF reads_to_self [OF bs(2)]])
  with bs(1) show "\<exists>bs. s = hexOf bs \<and> reads_to fin dec' v bs" by blast
qed

lemma field_codec_str:
  assumes "codec enc dec good"
  shows "field_codec fin (on_str enc) (to_str dec) (str_ok good)"
  by (rule field_codec_via [OF assms, where emb = VStr])
    (auto simp: str_ok_def on_str_def to_str_def split: fval.splits)

lemma field_codec_num:
  assumes "codec (\<lambda>n. enc (VNum n)) dec good"
  shows "field_codec fin enc (to_num dec) (num_ok good)"
  by (rule field_codec_via [OF assms, where emb = VNum]) (auto simp: num_ok_def to_num_def split: fval.splits)

lemma field_codec_const:
  assumes "codec (\<lambda>s. enc (VStr s)) dec good"
  shows "field_codec fin enc (to_str dec) (str_ok good)"
  by (rule field_codec_via [OF assms, where emb = VStr]) (auto simp: str_ok_def to_str_def split: fval.splits)

lemma as_strs_eq: "as_strs v = Inr ss \<longleftrightarrow> v = VArr (map VStr ss)"
proof
  assume "as_strs v = Inr ss"
  then obtain vs where v: "v = VArr vs" "mapR as_str vs = Inr ss" by (cases v) (auto simp: as_strs_def)
  from v(2) have "vs = map VStr ss"
  proof (induction vs arbitrary: ss)
    case (Cons x vs)
    then show ?case by (cases x) (auto simp: bindR_eq_Inr)
  qed simp
  with v(1) show "v = VArr (map VStr ss)" by simp
next
  assume "v = VArr (map VStr ss)"
  then show "as_strs v = Inr ss" by (simp add: as_strs_def) (induction ss arbitrary: v, simp_all)
qed

lemma field_codec_strs:
  assumes "codec enc dec good"
  shows "field_codec fin (\<lambda>v. bindR (as_strs v) enc) (to_strs dec) (strs_ok good)"
proof (rule field_codec_via [OF assms, where emb = "\<lambda>ss. VArr (map VStr ss)"])
  fix v assume "strs_ok good v"
  then obtain ss where "as_strs v = Inr ss" "good ss" by (auto simp: strs_ok_def split: sum.splits)
  then show "\<exists>x. v = VArr (map VStr x) \<and> good x \<and> bindR (as_strs v) enc = enc x"
    by (metis as_strs_eq bindR_simps(2))
qed (simp add: to_strs_def)

lemma field_codec_proposals:
  "field_codec True (\<lambda>v. bindR (as_strs v) (proposalsEncoder L)) (to_strs (proposalsDecoder L))
     (strs_ok (list_all (b58_value L ''P'')))"
  unfolding field_codec_def
proof (intro allI impI)
  fix v s assume ok: "strs_ok (list_all (b58_value L ''P'')) v"
    and e: "bindR (as_strs v) (proposalsEncoder L) = Inr s"
  then obtain ps where "as_strs v = Inr ps" and ps: "list_all (b58_value L ''P'') ps" "proposalsEncoder L ps = Inr s"
    by (auto simp: strs_ok_def split: sum.splits)
  then have v: "v = VArr (map VStr ps)" using as_strs_eq by blast
  obtain bs where "s = hexOf bs"
    "\<forall>c. ahead c bs \<longrightarrow> clen c = length bs \<longrightarrow> proposalsDecoder L c = Inr (ps, adv (length bs) c)"
    using proposals_read_to_end [OF ps] by blast
  with v show "\<exists>bs. s = hexOf bs \<and> reads_to True (to_strs (proposalsDecoder L)) v bs"
    by (auto simp: reads_to_def to_strs_def)
qed

section \<open>All fields\<close>

text \<open>The values that each field codec carries without loss.\<close>

definition field_goods :: "libs \<Rightarrow> bool \<Rightarrow> (codec_id \<times> (fval \<Rightarrow> bool)) list" where
  "field_goods L fin = [
   (CODEC_SECRET, str_ok (raw_ok 20)), (CODEC_RAW, str_ok (raw_ok 32)),
   (CODEC_TZ1, str_ok (b58_value L ''tz1'')), (CODEC_BRANCH, str_ok (b58_value L ''B'')),
   (CODEC_ZARITH, str_ok (plain_nat L)), (CODEC_PUBLIC_KEY, str_ok (public_key_ok L)),
   (CODEC_PKH, str_ok (pkh_ok L)), (CODEC_DELEGATE, optional_ok (pkh_ok L)),
   (CODEC_SCRIPT, \<lambda>v. case v of VScript c s \<Rightarrow> micheline_ok L c \<and> micheline_ok L s | _ \<Rightarrow> False),
   (CODEC_BALLOT_STATEMENT, str_ok (\<lambda>_. True)), (CODEC_PROPOSAL, str_ok (b58_value L ''P'')),
   (CODEC_PROPOSAL_ARR, \<lambda>v. fin \<and> strs_ok (list_all (b58_value L ''P'')) v),
   (CODEC_INT32, num_ok int32_ok), (CODEC_PARAMETERS, parameters_ok L),
   (CODEC_ADDRESS, str_ok (address_ok L)), (CODEC_SMART_ROLLUP_ADDRESS, str_ok (named_ok L ''sr1'')),
   (CODEC_SMART_CONTRACT_ADDRESS, str_ok (kt1_ok L)),
   (CODEC_SMART_ROLLUP_COMMITMENT_HASH, str_ok (named_ok L ''src1'')),
   (CODEC_VALUE, \<lambda>v. case v of VMich e \<Rightarrow> micheline_ok L e | _ \<Rightarrow> False),
   (CODEC_INT16, num_ok int16_ok), (CODEC_BLOCK_PAYLOAD_HASH, str_ok (b58_value L ''vh'')),
   (CODEC_ENTRYPOINT, str_ok utf8_ok), (CODEC_TX_ROLLUP_ORIGINATION_PARAM, \<lambda>v. v = VObj []),
   (CODEC_TX_ROLLUP_ID, str_ok (b58_value L ''txr1'')), (CODEC_TX_ROLLUP_BATCH_CONTENT, str_ok hex_ok),
   (CODEC_BURN_LIMIT, optional_ok (plain_nat L)), (CODEC_DEPOSITS_LIMIT, optional_ok (plain_nat L)),
   (CODEC_PVM_KIND, str_ok (\<lambda>_. True)), (CODEC_PADDED_BYTES, str_ok hex_ok),
   (CODEC_SMART_ROLLUP_MESSAGE, strs_ok messages_ok)]"

definition field_ok :: "libs \<Rightarrow> bool \<Rightarrow> codec_id \<Rightarrow> fval \<Rightarrow> bool" where
  "field_ok L fin k v \<longleftrightarrow> (case map_of (field_goods L fin) k of Some good \<Rightarrow> good v | None \<Rightarrow> False)"

lemma field_codec_last:
  "field_codec fin (\<lambda>v. bindR (as_strs v) (proposalsEncoder L)) (to_strs (proposalsDecoder L))
     (\<lambda>v. fin \<and> strs_ok (list_all (b58_value L ''P'')) v)"
  using field_codec_proposals [of L] by (cases fin) (simp_all add: field_codec_def)

lemma field_codec_script:
  "field_codec fin (\<lambda>v. case v of VScript code storage \<Rightarrow> scriptEncoder L code storage | _ \<Rightarrow> Inl ill_typed)
     (\<lambda>c. bindR (scriptDecoder L c) (\<lambda>((code, storage), c1). Inr (VScript code storage, c1)))
     (\<lambda>v. case v of VScript c s \<Rightarrow> micheline_ok L c \<and> micheline_ok L s | _ \<Rightarrow> False)"
  by (rule field_codec_via [OF codec_script, where emb = "\<lambda>(c, s). VScript c s"])
    (auto simp: case_prod_unfold split: fval.splits)

lemma field_codec_value:
  "field_codec fin (\<lambda>v. bindR (as_mich v) (valueParameterEncoder L))
     (\<lambda>c. bindR (valueParameterDecoder L c) (\<lambda>(v, c1). Inr (VMich v, c1)))
     (\<lambda>v. case v of VMich e \<Rightarrow> micheline_ok L e | _ \<Rightarrow> False)"
  by (rule field_codec_via [OF codec_value_parameter, where emb = VMich]) (auto split: fval.splits)

lemma field_codec_rollup_param:
  "field_codec fin txRollupOriginationParamEncoder txRollupOriginationParamDecoder (\<lambda>v. v = VObj [])"
  by (auto simp: field_codec_def txRollupOriginationParamEncoder_def txRollupOriginationParamDecoder_def
      reads_to_def intro!: exI [of _ "[]"])

text \<open>Every entry of the table of encoders has a decoder, and the two fit.\<close>

lemma field_codecs:
  "list_all (\<lambda>(k, enc). \<exists>dec good. map_of (field_decoders L) k = Some dec
     \<and> map_of (field_goods L fin) k = Some good \<and> field_codec fin enc dec good) (field_encoders L)"
  unfolding field_encoders_def list.pred_inject prod.case
  by (intro conjI)
    (simp_all add: field_decoders_def field_goods_def field_codec_str field_codec_num field_codec_const
      field_codec_strs field_codec_direct field_codec_last
      field_codec_script field_codec_value field_codec_rollup_param
      codec_prefix codec_pkh codec_public_key codec_address codec_smart_contract_address
      codec_smart_rollup_address codec_smart_rollup_commitment codec_zarith codec_int32 codec_int16
      codec_delegate codec_burn_limit codec_deposits_limit codec_ballot codec_pvm codec_padded_bytes
      codec_batch_content codec_entrypoint_name codec_parameters codec_messages codec_raw)

lemma field_reads:
  assumes "field_ok L fin k v" "map_of (field_encoders L) k = Some enc" "enc v = Inr s"
  shows "\<exists>dec bs. map_of (field_decoders L) k = Some dec \<and> s = hexOf bs \<and> reads_to fin dec v bs"
proof -
  have "\<exists>dec good. map_of (field_decoders L) k = Some dec \<and> map_of (field_goods L fin) k = Some good
      \<and> field_codec fin enc dec good"
    using field_codecs [of L fin] map_of_SomeD [OF assms(2)] by (auto simp: list_all_iff)
  with assms(1,3) show ?thesis by (auto simp: field_ok_def field_codec_def)
qed

section \<open>Operations\<close>

definition prop_at :: "(string \<times> fval) list \<Rightarrow> string \<Rightarrow> fval" where
  "prop_at props key = (case map_of props key of Some x \<Rightarrow> x | None \<Rightarrow> VUndef)"

lemma get_prop_obj [simp]: "get_prop (VObj props) key = Inr (prop_at props key)"
  by (simp add: get_prop_def prop_at_def)

fun schema_ok :: "libs \<Rightarrow> bool \<Rightarrow> schema \<Rightarrow> (string \<times> fval) list \<Rightarrow> bool" where
  "schema_ok L fin [] props \<longleftrightarrow> True"
| "schema_ok L fin ((key, One k) # sch) props \<longleftrightarrow>
     field_ok L (fin \<and> sch = []) k (prop_at props key) \<and> schema_ok L fin sch props"
| "schema_ok L fin ((key, Many k) # sch) props \<longleftrightarrow> False"

text \<open>What comes back: the properties of the schema, in its order, without the undefined ones.\<close>

definition normal_fields :: "schema \<Rightarrow> (string \<times> fval) list \<Rightarrow> (string \<times> fval) list" where
  "normal_fields sch props =
     concat (map (\<lambda>(key, _). if prop_at props key = VUndef then [] else [(key, prop_at props key)]) sch)"

lemma reads_to_then:
  assumes "reads_to f1 d x b1" "reads_to fin (k x) v b2" "f1 \<Longrightarrow> fin \<and> b2 = []"
  shows "reads_to fin (\<lambda>c. bindR (d c) (\<lambda>(x, c1). k x c1)) v (b1 @ b2)"
  unfolding reads_to_def
proof (intro allI impI)
  fix c assume a: "ahead c (b1 @ b2)" and n: "fin \<longrightarrow> clen c = length (b1 @ b2)"
  have a1: "ahead c b1" "ahead (adv (length b1) c) b2" using a by (simp_all add: ahead_append)
  have "d c = Inr (x, adv (length b1) c)" by (rule reads_toD [OF assms(1) a1(1)]) (use assms(3) n in auto)
  moreover have "k x (adv (length b1) c) = Inr (v, adv (length b2) (adv (length b1) c))"
    by (rule reads_toD [OF assms(2) a1(2)]) (use n in auto)
  ultimately show "bindR (d c) (\<lambda>(x, c1). k x c1) = Inr (v, adv (length (b1 @ b2)) c)" by simp
qed

lemma schema_reads:
  assumes "schema_ok L fin sch props" "schemaEncoder (map_of (field_encoders L)) sch (VObj props) = Inr s"
  shows "\<exists>bs. s = hexOf bs \<and> (sch = [] \<longrightarrow> bs = []) \<and>
    reads_to fin (schemaDecoder (map_of (field_decoders L)) sch) (normal_fields sch props) bs"
  using assms
proof (induction sch arbitrary: s)
  case Nil
  then show ?case by (simp add: reads_to_def normal_fields_def)
next
  case (Cons f sch)
  obtain key k where f: "f = (key, One k)" using Cons.prems(1) by (cases f; cases "snd f") auto
  let ?v = "prop_at props key"
  obtain enc s1 s2 where e: "map_of (field_encoders L) k = Some enc" "enc ?v = Inr s1"
    "schemaEncoder (map_of (field_encoders L)) sch (VObj props) = Inr s2" "s = s1 @ s2"
    using Cons.prems(2) f by (auto simp: bindR_eq_Inr split: option.splits)
  have ok: "field_ok L (fin \<and> sch = []) k ?v" "schema_ok L fin sch props" using Cons.prems(1) f by simp_all
  obtain dec b1 where d: "map_of (field_decoders L) k = Some dec" "s1 = hexOf b1" "reads_to (fin \<and> sch = []) dec ?v b1"
    using field_reads [OF ok(1) e(1,2)] by blast
  obtain b2 where b2: "s2 = hexOf b2" "sch = [] \<longrightarrow> b2 = []"
    "reads_to fin (schemaDecoder (map_of (field_decoders L)) sch) (normal_fields sch props) b2"
    using Cons.IH [OF ok(2) e(3)] by blast
  let ?k = "\<lambda>v c1. bindR (schemaDecoder (map_of (field_decoders L)) sch c1)
    (\<lambda>(obj, c2). Inr (if v = VUndef then obj else (key, v) # obj, c2))"
  have nf: "normal_fields (f # sch) props =
      (if ?v = VUndef then normal_fields sch props else (key, ?v) # normal_fields sch props)"
    by (simp add: normal_fields_def f)
  have "reads_to fin (?k ?v) (normal_fields (f # sch) props) b2"
    unfolding nf by (rule reads_to_last [OF b2(3)])
  then have "reads_to fin (\<lambda>c. bindR (dec c) (\<lambda>(v, c1). ?k v c1)) (normal_fields (f # sch) props) (b1 @ b2)"
    by (rule reads_to_then [OF d(3), where k = ?k]) (use b2(2) in auto)
  moreover have "schemaDecoder (map_of (field_decoders L)) (f # sch) = (\<lambda>c. bindR (dec c) (\<lambda>(v, c1). ?k v c1))"
    by (simp add: fun_eq_iff f d(1))
  ultimately show ?case using e(4) d(2) b2(1) by (intro exI [of _ "b1 @ b2"]) simp
qed

definition op_kind :: "(string \<times> fval) list \<Rightarrow> string" where
  "op_kind props = (case prop_at props ''kind'' of VStr k \<Rightarrow> k | _ \<Rightarrow> [])"

definition op_schema :: "(string \<times> fval) list \<Rightarrow> schema" where
  "op_schema props = (case map_of kind_schemas (op_kind props) of Some sch \<Rightarrow> sch | None \<Rightarrow> [])"

fun op_ok :: "libs \<Rightarrow> bool \<Rightarrow> fval \<Rightarrow> bool" where
  "op_ok L fin (VObj props) \<longleftrightarrow> schema_ok L fin (op_schema props) props"
| "op_ok L fin _ \<longleftrightarrow> False"

fun normal_op :: "fval \<Rightarrow> fval" where
  "normal_op (VObj props) = VObj ((''kind'', VStr (op_kind props)) # normal_fields (op_schema props) props)"
| "normal_op v = v"

lemma kind_table:
  assumes "map_of kindMappingReverse p = Some k"
  shows "\<exists>b :: byte. k = hex_byte b \<and> map_of kindMapping (unat b) = Some p"
proof -
  have "(p, k) \<in> set kindMappingReverse" using assms by (rule map_of_SomeD)
  then obtain n where n: "(n, p) \<in> set kindMapping" "k = padStart 2 (digits 16 n)"
    by (auto simp: kindMappingReverse_def)
  have "distinct (map fst kindMapping)" "list_all (\<lambda>(n, p). n < 256) kindMapping"
    by (simp_all add: kindMapping_def)
  with n(1) have "map_of kindMapping n = Some p" "n < 256" by (auto simp: list_all_iff)
  then show ?thesis using n(2) by (intro exI [of _ "byte_of n"]) (simp add: hex_chunk)
qed

lemma operation_reads:
  assumes "op_ok L fin op" "operationEncoder L op = Inr s"
  shows "\<exists>bs. s = hexOf bs \<and> bs \<noteq> [] \<and> reads_to fin (operationDecoder L) (normal_op op) bs"
proof -
  obtain props where op: "op = VObj props" using assms(1) by (cases op) auto
  obtain k where k: "prop_at props ''kind'' = VStr k"
    using assms(2) op by (cases "prop_at props ''kind''") (auto simp: operationEncoder_def)
  obtain sch tag t where sch: "map_of kind_schemas k = Some sch" "map_of kindMappingReverse k = Some tag"
    and t: "schemaEncoder (map_of (field_encoders L)) sch (VObj props) = Inr t" "s = tag @ t"
    using assms(2) op k by (auto simp: operationEncoder_def bindR_eq_Inr split: option.splits)
  have os: "op_kind props = k" "op_schema props = sch" using k sch(1) by (simp_all add: op_kind_def op_schema_def)
  obtain b where b: "tag = hex_byte b" "map_of kindMapping (unat b) = Some k" using kind_table [OF sch(2)] by blast
  obtain bs where bs: "t = hexOf bs"
    "reads_to fin (schemaDecoder (map_of (field_decoders L)) sch) (normal_fields sch props) bs"
    using schema_reads [OF _ t(1)] assms(1) op os by auto
  have "reads_to fin (operationDecoder L) (normal_op op) ([b] @ bs)"
    unfolding operationDecoder_def [abs_def]
    by (rule reads_to_bind [OF reads_to_self [OF reads_consume]])
      (use b(2) sch(1) reads_to_last [OF bs(2)] os in \<open>simp_all add: op\<close>)
  with t(2) b(1) bs(1) show ?thesis by (intro exI [of _ "[b] @ bs"]) simp
qed

section \<open>A list of operations, and the whole document\<close>

text \<open>Only the last operation may read to the end.\<close>

fun contents_ok :: "libs \<Rightarrow> fval list \<Rightarrow> bool" where
  "contents_ok L [] \<longleftrightarrow> True"
| "contents_ok L [op] \<longleftrightarrow> op_ok L True op"
| "contents_ok L (op # op' # ops) \<longleftrightarrow> op_ok L False op \<and> contents_ok L (op' # ops)"

lemma contents_ok_Cons: "contents_ok L (op # ops) \<longleftrightarrow> op_ok L (ops = []) op \<and> contents_ok L ops"
  by (cases ops) simp_all

lemma operations_read:
  assumes "contents_ok L ops" "mapR (operationEncoder L) ops = Inr ss"
  shows "\<exists>bs. concat ss = hexOf bs \<and>
    (\<forall>c fuel last. ahead c bs \<longrightarrow> clen c = length bs \<longrightarrow> length bs < fuel \<longrightarrow> length bs \<le> last \<longrightarrow>
       decodeMany fuel (operationDecoder L) last c = Inr (map normal_op ops, adv (length bs) c))"
  using assms
proof (induction ops arbitrary: ss)
  case Nil
  have "decodeMany fuel (operationDecoder L) last c = Inr ([], c)" if "clen c = 0" "0 < fuel" for fuel last c
    using that by (cases fuel) simp_all
  with Nil show ?case by (intro exI [of _ "[]"]) auto
next
  case (Cons op ops)
  obtain s us where s: "operationEncoder L op = Inr s" "mapR (operationEncoder L) ops = Inr us" "ss = s # us"
    using Cons.prems(2) unfolding mapR_eq_Inr_Cons by blast
  have ok: "op_ok L (ops = []) op" "contents_ok L ops" using Cons.prems(1) contents_ok_Cons by blast+
  obtain b1 where b1: "s = hexOf b1" "b1 \<noteq> []" "reads_to (ops = []) (operationDecoder L) (normal_op op) b1"
    using operation_reads [OF ok(1) s(1)] by blast
  obtain b2 where b2: "concat us = hexOf b2" and
    many: "\<And>c fuel last. ahead c b2 \<Longrightarrow> clen c = length b2 \<Longrightarrow> length b2 < fuel \<Longrightarrow> length b2 \<le> last \<Longrightarrow>
       decodeMany fuel (operationDecoder L) last c = Inr (map normal_op ops, adv (length b2) c)"
    using Cons.IH [OF ok(2) s(2)] by blast
  have e: "ops = [] \<longrightarrow> b2 = []" using s(2) b2 hexOf_Nil_iff [of b2] by (cases ops) auto
  have "decodeMany fuel (operationDecoder L) last c = Inr (map normal_op (op # ops), adv (length (b1 @ b2)) c)"
    if a: "ahead c (b1 @ b2)" and n: "clen c = length (b1 @ b2)" "length (b1 @ b2) < fuel" "length (b1 @ b2) \<le> last"
    for c fuel last
  proof -
    have p: "0 < length b1" using b1(2) by simp
    have "Suc (length b2) < fuel" using n(2) p unfolding length_append by linarith
    then obtain m where m: "fuel = Suc m" "length b2 < m" by (cases fuel) simp_all
    have a1: "ahead c b1" "ahead (adv (length b1) c) b2" using a by (simp_all add: ahead_append)
    have "operationDecoder L c = Inr (normal_op op, adv (length b1) c)"
      by (rule reads_toD [OF b1(3) a1(1)]) (use e n(1) in auto)
    moreover have "decodeMany m (operationDecoder L) last (adv (length b1) c)
        = Inr (map normal_op ops, adv (length b2) (adv (length b1) c))"
      by (rule many [OF a1(2) _ m(2)]) (use n p in simp_all)
    moreover have "last \<noteq> clen (adv (length b1) c)" using n p by (simp, linarith)
    moreover have "0 < clen c" using n(1) p by simp
    ultimately show ?thesis unfolding m(1) by simp
  qed
  moreover have "concat ss = hexOf (b1 @ b2)" using s(3) b1(1) b2 by simp
  ultimately show ?case by blast
qed

definition params_ok :: "libs \<Rightarrow> ForgeParams \<Rightarrow> bool" where
  "params_ok L p \<longleftrightarrow> b58_value L ''B'' (branch p) \<and> contents_ok L (contents p)"

definition normal_params :: "ForgeParams \<Rightarrow> fval" where
  "normal_params p = VObj [(''branch'', VStr (branch p)), (''contents'', VArr (map normal_op (contents p)))]"

lemma manager_reads:
  assumes ok: "params_ok L p" and e: "managerEncoder L (params_obj p) = Inr s"
  shows "\<exists>bs c'. s = hexOf bs \<and> (managerDecoder L (mkConsumer bs)
    = Inr ([(''branch'', VStr (branch p)), (''contents'', VArr (map normal_op (contents p)))], c'))"
proof -
  let ?encs = "map_of ((CODEC_OPERATION, operationEncoder L) # field_encoders L)"
  have be: "?encs CODEC_BRANCH = Some (on_str (prefixEncoder L ''B''))"
    "?encs CODEC_OPERATION = Some (operationEncoder L)"
    by (simp_all add: field_encoders_def)
  have bd: "map_of ((CODEC_OPERATION, operationDecoder L) # field_decoders L) CODEC_BRANCH
      = Some (to_str (prefixDecoder L ''B''))"
    "map_of ((CODEC_OPERATION, operationDecoder L) # field_decoders L) CODEC_OPERATION = Some (operationDecoder L)"
    by (simp_all add: field_decoders_def)
  obtain s1 ss where s1: "prefixEncoder L ''B'' (branch p) = Inr s1"
    and ss: "mapR (operationEncoder L) (contents p) = Inr ss" and s: "s = s1 @ concat ss"
    using e by (auto simp: managerEncoder_def ManagerOperationSchema_def params_obj_def prop_at_def be
        on_str_def bindR_eq_Inr simp del: map_of.simps)
  obtain b1 where b1: "s1 = hexOf b1" "reads (prefixDecoder L ''B'') (branch p) b1"
    using prefix_reads [OF _ s1] ok by (auto simp: params_ok_def)
  obtain b2 where b2: "concat ss = hexOf b2" and
    many: "\<And>c fuel last. ahead c b2 \<Longrightarrow> clen c = length b2 \<Longrightarrow> length b2 < fuel \<Longrightarrow> length b2 \<le> last \<Longrightarrow>
       decodeMany fuel (operationDecoder L) last c = Inr (map normal_op (contents p), adv (length b2) c)"
    using operations_read [OF _ ss] ok unfolding params_ok_def by metis
  let ?c = "mkConsumer (b1 @ b2)"
  have a: "ahead ?c b1" "ahead (adv (length b1) ?c) b2" using ahead_mk [of "b1 @ b2"] by (simp_all add: ahead_append)
  have "to_str (prefixDecoder L ''B'') ?c = Inr (VStr (branch p), adv (length b1) ?c)"
    using b1(2) a(1) by (simp add: to_str_def reads_def)
  moreover have "decodeMany (length b2 + 1) (operationDecoder L) (length b2) (adv (length b1) ?c)
      = Inr (map normal_op (contents p), adv (length b2) (adv (length b1) ?c))"
    by (rule many [OF a(2)]) simp_all
  ultimately have "managerDecoder L ?c = Inr ([(''branch'', VStr (branch p)),
      (''contents'', VArr (map normal_op (contents p)))], adv (length b2) (adv (length b1) ?c))"
    by (simp add: managerDecoder_def ManagerOperationSchema_def bd del: map_of.simps decodeMany.simps)
  with s b1(1) b2 show ?thesis by (intro exI [of _ "b1 @ b2"]) auto
qed

interpretation forger: text_codec "forge L" "parse L" normal_params "params_ok L" for L
proof
  fix p s assume ok: "params_ok L p" and "forge L p = Inr s"
  then obtain t where t: "managerEncoder L (params_obj p) = Inr t" "s = toLowerCase t"
    by (auto simp: forge_def bindR_eq_Inr split: if_splits)
  obtain bs c' where bs: "t = hexOf bs" "managerDecoder L (mkConsumer bs)
    = Inr ([(''branch'', VStr (branch p)), (''contents'', VArr (map normal_op (contents p)))], c')"
    using manager_reads [OF ok t(1)] by blast
  then show "parse L s = Inr (normal_params p)" using t(2) by (simp add: parse_def normal_params_def)
qed

section \<open>Forging depends on the normal form only\<close>

lemma map_of_concat_single:
  "key \<in> set (map fst sch) \<Longrightarrow>
     map_of (concat (map (\<lambda>(k, _). if f k = u then [] else [(k, f k)]) sch)) key = (if f key = u then None else Some (f key))"
proof (induction sch)
  case (Cons x sch)
  obtain k m where x: "x = (k, m)" by (cases x)
  show ?case
  proof (cases "key \<in> set (map fst sch)")
    case True
    then show ?thesis using Cons.IH x by auto
  next
    case False
    have "map_of (concat (map (\<lambda>(k, _). if f k = u then [] else [(k, f k)]) sch)) key = None"
      using False by (induction sch) (auto split: if_splits)
    then show ?thesis using False Cons.prems x by (auto simp: map_add_def)
  qed
qed simp

lemma prop_at_normal: "key \<in> set (map fst sch) \<Longrightarrow> prop_at (normal_fields sch props) key = prop_at props key"
  using map_of_concat_single [of key sch "prop_at props" VUndef] by (simp add: normal_fields_def prop_at_def [of "concat _"])

lemma schemaEncoder_cong:
  assumes "\<And>key. key \<in> set (map fst sch) \<Longrightarrow> prop_at props key = prop_at props' key"
  shows "schemaEncoder encs sch (VObj props) = schemaEncoder encs sch (VObj props')"
  using assms
proof (induction sch)
  case (Cons x sch)
  have IH: "schemaEncoder encs sch (VObj props) = schemaEncoder encs sch (VObj props')" using Cons by simp
  obtain key m where x: "x = (key, m)" by (cases x)
  have "prop_at props key = prop_at props' key" using Cons.prems x by simp
  then show ?case using IH x by (cases m) simp_all
qed simp

lemma normal_op_encoded:
  assumes "operationEncoder L a = Inr s" "operationEncoder L b = Inr t" "normal_op a = normal_op b"
  shows "s = t"
proof -
  have obj: "\<exists>props k sch. v = VObj props \<and> prop_at props ''kind'' = VStr k \<and> map_of kind_schemas k = Some sch"
    if "operationEncoder L v = Inr u" for v u
    using that by (cases v) (auto simp: operationEncoder_def get_prop_def prop_at_def split: fval.splits option.splits)
  obtain ps k sch where a: "a = VObj ps" "prop_at ps ''kind'' = VStr k" "map_of kind_schemas k = Some sch"
    using obj [OF assms(1)] by blast
  obtain qs l sch' where b: "b = VObj qs" "prop_at qs ''kind'' = VStr l" "map_of kind_schemas l = Some sch'"
    using obj [OF assms(2)] by blast
  have k: "op_kind ps = k" "op_kind qs = l" "op_schema ps = sch" "op_schema qs = sch'"
    using a b by (simp_all add: op_kind_def op_schema_def)
  then have same: "k = l" "normal_fields sch ps = normal_fields sch' qs" using assms(3) a(1) b(1) by simp_all
  then have "sch' = sch" using a(3) b(3) by simp
  then have "prop_at ps key = prop_at qs key" if "key \<in> set (map fst sch)" for key
    using prop_at_normal [OF that, of ps] prop_at_normal [OF that, of qs] same(2) by simp
  then have "schemaEncoder encs sch (VObj ps) = schemaEncoder encs sch (VObj qs)" for encs by (rule schemaEncoder_cong)
  then have "operationEncoder L a = operationEncoder L b"
    using a b same(1) by (simp add: operationEncoder_def split: option.split)
  with assms show ?thesis by simp
qed

lemma normal_ops_encoded:
  "mapR (operationEncoder L) xs = Inr ss \<Longrightarrow> mapR (operationEncoder L) ys = Inr ts \<Longrightarrow> map normal_op xs = map normal_op ys \<Longrightarrow> ss = ts"
proof (induction xs arbitrary: ys ss ts)
  case (Cons x xs)
  obtain y ys' where ys: "ys = y # ys'" "normal_op x = normal_op y" "map normal_op xs = map normal_op ys'"
    using Cons.prems(3) by (cases ys) auto
  obtain s ss' where s: "operationEncoder L x = Inr s" "mapR (operationEncoder L) xs = Inr ss'" "ss = s # ss'"
    using Cons.prems(1) unfolding mapR_eq_Inr_Cons by blast
  obtain t ts' where t: "operationEncoder L y = Inr t" "mapR (operationEncoder L) ys' = Inr ts'" "ts = t # ts'"
    using Cons.prems(2) unfolding ys(1) mapR_eq_Inr_Cons by blast
  show ?case using normal_op_encoded [OF s(1) t(1) ys(2)] Cons.IH [OF s(2) t(2) ys(3)] s(3) t(3) by simp
qed simp

lemma forge_normal:
  assumes "forge L p = Inr s" "forge L q = Inr t" "normal_params p = normal_params q"
  shows "s = t"
proof -
  have enc: "\<exists>s1 ss. prefixEncoder L ''B'' (branch r) = Inr s1 \<and> mapR (operationEncoder L) (contents r) = Inr ss
      \<and> u = toLowerCase (s1 @ concat ss)" if "forge L r = Inr u" for r u
  proof -
    have be: "map_of ((CODEC_OPERATION, operationEncoder L) # field_encoders L) CODEC_BRANCH = Some (on_str (prefixEncoder L ''B''))"
      "map_of ((CODEC_OPERATION, operationEncoder L) # field_encoders L) CODEC_OPERATION = Some (operationEncoder L)"
      by (simp_all add: field_encoders_def)
    show ?thesis using that
      by (auto simp: forge_def managerEncoder_def ManagerOperationSchema_def params_obj_def prop_at_def be
        on_str_def bindR_eq_Inr simp del: map_of.simps split: if_splits)
  qed
  obtain s1 ss where s: "prefixEncoder L ''B'' (branch p) = Inr s1" "mapR (operationEncoder L) (contents p) = Inr ss"
      "s = toLowerCase (s1 @ concat ss)" using enc [OF assms(1)] by blast
  obtain t1 ts where t: "prefixEncoder L ''B'' (branch q) = Inr t1" "mapR (operationEncoder L) (contents q) = Inr ts"
      "t = toLowerCase (t1 @ concat ts)" using enc [OF assms(2)] by blast
  have n: "branch p = branch q" "map normal_op (contents p) = map normal_op (contents q)"
    using assms(3) by (simp_all add: normal_params_def)
  show ?thesis using normal_ops_encoded [OF s(2) t(2) n(2)] s t n(1) by simp
qed

section \<open>What \<open>forge\<close> accepts\<close>

lemma same_set: "list_all (\<lambda>x. x \<in> set ys) xs \<Longrightarrow> list_all (\<lambda>y. y \<in> set xs) ys \<Longrightarrow> set xs = set ys"
  by (auto simp: list_all_iff)

lemma same_kinds: "map_of OperationKindMapping = map_of kind_schemas"
  "set (map snd kindMapping) = set (map fst kind_schemas)"
proof -
  have "distinct (map fst OperationKindMapping)" "distinct (map fst kind_schemas)"
    unfolding OperationKindMapping_def kind_schemas_def by simp_all
  moreover have "set OperationKindMapping = set kind_schemas"
    by (rule same_set) (simp_all add: OperationKindMapping_def kind_schemas_def)
  ultimately show "map_of OperationKindMapping = map_of kind_schemas" by (simp add: map_of_inject_set)
  show "set (map snd kindMapping) = set (map fst kind_schemas)"
    by (rule same_set) (simp_all add: kindMapping_def kind_schemas_def)
qed

text \<open>An operation passes the checks exactly when its kind is known and no property of its schema
  is missing, but for one that the kind may miss.\<close>

definition missing_props :: "string \<Rightarrow> (string \<times> fval) list \<Rightarrow> string list" where
  "missing_props kind props =
     (case map_of kind_schemas kind of None \<Rightarrow> []
      | Some sch \<Rightarrow> filter (\<lambda>key. key = ''kind'' \<or> key \<notin> set (map fst props)) (map fst sch))"

lemma missing_props_eq:
  "map_of kind_schemas kind \<noteq> None \<Longrightarrow> validateMissingProperty kind props = Inr (missing_props kind props)"
  by (auto simp: validateMissingProperty_def missing_props_def same_kinds getArrayDifference_def
      deleteArrayElementByValue_def intro!: filter_cong)

lemma known_kind: "validateOperationKind kind \<longleftrightarrow> map_of kind_schemas kind \<noteq> None"
  unfolding validateOperationKind_def same_kinds(1) [symmetric] map_of_eq_None_iff by simp

lemma check_content_iff:
  "check_content (VObj props) = Inr () \<longleftrightarrow>
     (\<exists>kind. prop_at props ''kind'' = VStr kind \<and> map_of kind_schemas kind \<noteq> None \<and>
        (missing_props kind props = [] \<or> (\<exists>d. missing_props kind props = [d] \<and> may_miss kind d)))"
proof (cases "prop_at props ''kind''")
  case (VStr kind)
  then show ?thesis
    by (cases "map_of kind_schemas kind")
      (auto simp: check_content_def known_kind missing_props_eq bindR_eq_Inr split: list.splits)
qed (simp_all add: check_content_def)

lemma check_contents_iff: "check_contents ops = Inr () \<longleftrightarrow> (\<forall>op\<in>set ops. check_content op = Inr ())"
  by (induction ops) (auto simp: bindR_eq_Inr)

lemma check_content_obj: "check_content op = Inr () \<Longrightarrow> \<exists>props. op = VObj props"
  by (cases op) (auto simp: check_content_def get_prop_def split: fval.splits)

end
