(* ===== verification/Demo.thy ===== *)
theory Demo
  imports ForgerProofs
begin

text \<open>
  Concrete inputs on which the hypotheses of the properties hold, under the toy libraries
  \<open>demo_libs\<close>: addresses and hashes in the toy base 58, and operations made of them.
\<close>

section \<open>Hashes and addresses\<close>

definition demo_hash :: "string \<Rightarrow> string" where
  "demo_hash p = p @ hexOf (replicate (prefix_len p) 3)"

lemma demo_b58:
  assumes "p \<in> {''tz1'', ''tz2'', ''tz3'', ''tz4'', ''KT1'', ''B'', ''P'', ''edpk'', ''sppk'', ''p2pk'', ''sr1'',
    ''src1'', ''vh'', ''txr1''}" "length h = prefix_len p"
  shows "b58_value demo_libs p (p @ hexOf h)"
  using assms(1)
  by (elim insertE emptyE; simp add: assms(2) b58_value_def demo_libs_def demo_decode_def demo_encode_def demo_tags_def)

lemma demo_hash_b58: "p \<in> {''tz1'', ''tz2'', ''tz3'', ''tz4'', ''KT1'', ''B'', ''P'', ''edpk'', ''sppk'',
    ''p2pk'', ''sr1'', ''src1'', ''vh'', ''txr1''} \<Longrightarrow> b58_value demo_libs p (demo_hash p)"
  unfolding demo_hash_def by (rule demo_b58) simp_all

lemma hexOf_chars: "list_all is_hex (hexOf bs)"
  using hex_text_hexOf [of bs] by (simp add: hex_text_def)

lemma no_percent: "CHR ''%'' \<notin> set (hexOf bs)"
  using hexOf_chars [of bs] by (auto simp: list_all_iff is_hex_def dig_val_def Let_def)

lemma demo_encoder:
  assumes "p \<in> {''tz1'', ''tz2'', ''tz3'', ''tz4'', ''KT1'', ''B'', ''P'', ''edpk'', ''sppk'',
    ''p2pk'', ''sr1'', ''src1'', ''vh'', ''txr1''}"
  shows "prefixEncoder demo_libs p (demo_hash p) = Inr (hexOf (replicate (prefix_len p) 3))"
proof -
  obtain h where h: "length h = prefix_len p" "bs58_decode demo_libs (demo_hash p) = Some (prefix_bytes p @ h)"
    "b58cdecode demo_libs (demo_hash p) (prefix_bytes p) = Inr h"
    using b58_valueD [OF demo_hash_b58 [OF assms]] by metis
  have "bs58_decode demo_libs (demo_hash p) = Some (prefix_bytes p @ replicate (prefix_len p) 3)"
    using assms by (elim insertE emptyE; simp add: demo_libs_def demo_decode_def demo_tags_def demo_hash_def)
  with h show ?thesis by (simp add: prefixEncoder_def buf2hex_hexOf)
qed

section \<open>Operations\<close>

definition demo_transaction :: fval where
  "demo_transaction = VObj [(''kind'', VStr ''transaction''), (''source'', VStr (demo_hash ''tz1'')),
     (''fee'', VStr ''405''), (''counter'', VStr ''7''), (''gas_limit'', VStr ''1040''), (''storage_limit'', VStr ''0''),
     (''amount'', VStr ''1''), (''destination'', VStr (demo_hash ''KT1'')),
     (''parameters'', VParam ''do'' (Seq [IntLit ''5'']))]"

definition demo_proposals :: fval where
  "demo_proposals = VObj [(''kind'', VStr ''proposals''), (''source'', VStr (demo_hash ''tz1'')),
     (''period'', VNum 12), (''proposals'', VArr [VStr (demo_hash ''P'')])]"

definition demo_params :: ForgeParams where
  "demo_params = \<lparr>branch = demo_hash ''B'', contents = [demo_transaction, demo_proposals]\<rparr>"

lemma demo_zarith:
  "zarithEncoder demo_libs ''405'' = Inr ''9503''" "zarithEncoder demo_libs ''7'' = Inr ''07''"
  "zarithEncoder demo_libs ''1040'' = Inr ''9008''" "zarithEncoder demo_libs ''0'' = Inr ''00''"
  "zarithEncoder demo_libs ''1'' = Inr ''01''"
  by (simp_all add: zarithEncoder_def demo_libs_def dec_to_int_def is_digit_def dig_val_def of_digits_def
      zarithLoop.simps bn_hex_def digits.simps dig_def)

lemma demo_plain: "list_all (plain_nat demo_libs) [''405'', ''7'', ''1040'', ''0'', ''1'']"
  by (simp add: plain_nat_def demo_libs_def dec_to_int_def is_digit_def dig_val_def of_digits_def
      int_to_dec_def digits.simps dig_def)

lemma demo_pkh: "pkhEncoder demo_libs (demo_hash ''tz1'') = Inr (''00'' @ hexOf (replicate 20 3))"
  "pkh_ok demo_libs (demo_hash ''tz1'')"
  using demo_encoder [of "''tz1''"] demo_hash_b58 [of "''tz1''"]
  by (simp_all add: pkhEncoder_def pkh_ok_def demo_hash_def)

lemma demo_kt1: "addressEncoder demo_libs (demo_hash ''KT1'') = Inr (''01'' @ hexOf (replicate 20 3) @ ''00'')"
  "kt1_ok demo_libs (demo_hash ''KT1'')"
  using demo_encoder [of "''KT1''"] demo_hash_b58 [of "''KT1''"]
  by (simp_all add: addressEncoder_def kt1_ok_def demo_hash_def)

lemma demo_int: "intEncoder demo_libs ''5'' = Inr ''0005''" "canonical_int demo_libs ''5''"
proof -
  have p: "bn_parse demo_libs ''5'' = Some 5"
    by (simp add: demo_libs_def dec_to_int_def is_digit_def dig_val_def of_digits_def)
  have "bn_toFixed demo_libs 5 = ''5''" by (simp add: demo_libs_def int_to_dec_def digits.simps dig_def)
  with p show "canonical_int demo_libs ''5''" by (simp add: canonical_int_def)
  show "intEncoder demo_libs ''5'' = Inr ''0005''"
    using intEncoder_sleb [OF p] by (simp add: sleb_def hex_byte_def dig_def)
qed

lemma small_length: "even l \<Longrightarrow> l < 512 \<Longrightarrow> pad_half l 8 = Inr (''000000'' @ hex_byte (byte_of (l div 2)))"
proof -
  assume l: "even l" "l < 512"
  then have "be_bytes 4 (l div 2) = [0, 0, 0, byte_of (l div 2)]" by (intro be_bytes_4) simp
  moreover have "pad_half l 8 = Inr (hexOf (be_bytes 4 (l div 2)))" using l by (simp add: pad_half_even)
  ultimately show ?thesis by (simp add: hex_byte_def)
qed

lemma small_bytes: "hex_byte (byte_of 2) = ''02''" "hex_byte (byte_of 7) = ''07''"
  by (simp_all add: hex_byte_def dig_def)

lemma demo_value: "valueEncoder demo_libs (Seq [IntLit ''5'']) = Inr ''02000000020005''"
proof -
  have l: "length ''0005'' = 4" by simp
  have "pad_half 4 8 = Inr ''00000002''" using small_length [of 4] by (simp add: small_bytes)
  then have "pad_half (length ''0005'') 8 = Inr ''00000002''" unfolding l .
  then show ?thesis by (simp add: demo_int)
qed

lemma demo_entrypoint: "entrypoint_ok ''do''" "entrypointEncoder ''do'' = Inr ''02''"
  by (simp_all add: entrypoint_ok_def utf8_ok_def utf8_encode_def js_length_def in_rng_def
      ENTRYPOINT_MAX_LENGTH_def object_properties_def entrypointEncoder_def entrypointMappingReverse_def
      entrypointMapping_def)

lemma demo_parameters:
  "parametersEncoder demo_libs (VParam ''do'' (Seq [IntLit ''5''])) = Inr ''ff020000000702000000020005''"
  "parameters_ok demo_libs (VParam ''do'' (Seq [IntLit ''5'']))"
proof -
  have d: "digits 16 7 = ''7''" by (simp add: digits.simps dig_def)
  have "half_text 14 = ''7''" by (simp add: half_text_def d)
  moreover have "length ''02000000020005'' = 14" by simp
  ultimately have h: "padStart 8 (half_text (length ''02000000020005'')) = ''00000007''"
    by (simp only: padStart_def) (simp add: numeral_eq_Suc)
  show "parametersEncoder demo_libs (VParam ''do'' (Seq [IntLit ''5''])) = Inr ''ff020000000702000000020005''"
    unfolding parametersEncoder_def fval.case demo_entrypoint(2) demo_value bindR_simps
    using h by simp
  show "parameters_ok demo_libs (VParam ''do'' (Seq [IntLit ''5'']))"
    using demo_entrypoint(1) demo_int(2) unfolding parameters_ok.simps demo_value by simp
qed

text \<open>The schema of an operation, field by field.\<close>

lemmas field_ok_simps = field_ok_def field_goods_def str_ok_def num_ok_def optional_ok_def

lemma demo_transaction_ok: "op_ok demo_libs False demo_transaction"
  using demo_pkh(2) demo_kt1(2) demo_parameters(2) demo_plain
  by (simp add: demo_transaction_def op_schema_def op_kind_def prop_at_def kind_schemas_def
      TransactionSchema_def manager_fields_def field_ok_simps address_ok_def del: parameters_ok.simps)

lemma demo_proposals_ok: "op_ok demo_libs True demo_proposals"
  using demo_pkh(2) demo_hash_b58 [of "''P''"]
  by (simp add: demo_proposals_def op_schema_def op_kind_def prop_at_def kind_schemas_def
      ProposalsSchema_def field_ok_simps strs_ok_def as_strs_def int32_ok_def)

lemma demo_params_ok: "params_ok demo_libs demo_params"
  using demo_hash_b58 [of "''B''"] demo_transaction_ok demo_proposals_ok
  by (simp add: params_ok_def demo_params_def)

lemma demo_normal: "normal_params demo_params = params_obj demo_params"
  by (simp add: normal_params_def params_obj_def demo_params_def demo_transaction_def demo_proposals_def
      op_schema_def op_kind_def prop_at_def kind_schemas_def ProposalsSchema_def TransactionSchema_def
      manager_fields_def normal_fields_def)

lemma demo_checked: "check_contents (contents demo_params) = Inr ()"
  unfolding check_contents_iff
  by (simp add: demo_params_def check_content_iff prop_at_def missing_props_def kind_schemas_def
      demo_transaction_def demo_proposals_def TransactionSchema_def manager_fields_def ProposalsSchema_def)

lemma demo_block: "validateBlock demo_libs (demo_hash ''B'') = VALID"
  unfolding validateBlock_def
  by (rule validate_complete [OF demo_hash_b58])
    (simp_all add: demo_hash_def startsWith_def prefixLength_def no_percent)

lemma demo_forged: "\<exists>s. forge demo_libs demo_params = Inr s"
proof -
  have t: "\<exists>s. operationEncoder demo_libs demo_transaction = Inr s"
    by (simp add: operationEncoder_def demo_transaction_def prop_at_def kind_schemas_def kindMappingReverse_def
        kindMapping_def TransactionSchema_def manager_fields_def field_encoders_def on_str_def
        demo_pkh demo_kt1 demo_zarith demo_parameters)
  have l: "pad 32 8 = Inr (hexOf (be_bytes 4 32))" using pad_hex [of 32 4] by simp
  have p: "\<exists>s. operationEncoder demo_libs demo_proposals = Inr s"
    by (simp add: operationEncoder_def demo_proposals_def prop_at_def kind_schemas_def kindMappingReverse_def
        kindMapping_def ProposalsSchema_def field_encoders_def on_str_def int32Encoder_def to_int32_def
        demo_pkh demo_encoder as_strs_def proposalsEncoder_def l)
  have "\<exists>s. managerEncoder demo_libs (params_obj demo_params) = Inr s"
    using t p by (auto simp: managerEncoder_def ManagerOperationSchema_def params_obj_def prop_at_def demo_params_def
        field_encoders_def on_str_def demo_encoder)
  then show ?thesis using demo_block demo_checked by (auto simp: forge_def demo_params_def)
qed

text \<open>A second list with the same bytes: another order of the properties, and one more.\<close>

definition demo_transaction2 :: fval where
  "demo_transaction2 = VObj [(''memo'', VStr ''x''), (''parameters'', VParam ''do'' (Seq [IntLit ''5''])),
     (''amount'', VStr ''1''), (''destination'', VStr (demo_hash ''KT1'')), (''source'', VStr (demo_hash ''tz1'')),
     (''fee'', VStr ''405''), (''counter'', VStr ''7''), (''gas_limit'', VStr ''1040''), (''storage_limit'', VStr ''0''),
     (''kind'', VStr ''transaction'')]"

definition demo_params2 :: ForgeParams where
  "demo_params2 = \<lparr>branch = demo_hash ''B'', contents = [demo_transaction2, demo_proposals]\<rparr>"

lemma demo_params2_ok: "params_ok demo_libs demo_params2"
proof -
  have "op_ok demo_libs False demo_transaction2"
    using demo_pkh(2) demo_kt1(2) demo_parameters(2) demo_plain
    by (simp add: demo_transaction2_def op_schema_def op_kind_def prop_at_def kind_schemas_def
        TransactionSchema_def manager_fields_def field_ok_simps address_ok_def del: parameters_ok.simps)
  then show ?thesis using demo_hash_b58 [of "''B''"] demo_proposals_ok
    by (simp add: params_ok_def demo_params2_def)
qed

lemma demo_forged2: "forge demo_libs demo_params2 = forge demo_libs demo_params"
proof -
  have "operationEncoder demo_libs demo_transaction2 = operationEncoder demo_libs demo_transaction"
    by (simp add: operationEncoder_def demo_transaction_def demo_transaction2_def prop_at_def kind_schemas_def
        kindMappingReverse_def kindMapping_def TransactionSchema_def manager_fields_def)
  then have "managerEncoder demo_libs (params_obj demo_params2) = managerEncoder demo_libs (params_obj demo_params)"
    by (simp add: managerEncoder_def ManagerOperationSchema_def params_obj_def prop_at_def demo_params_def
        demo_params2_def)
  moreover have "check_contents (contents demo_params2) = Inr ()"
    unfolding check_contents_iff
    by (simp add: demo_params2_def check_content_iff prop_at_def missing_props_def kind_schemas_def
        demo_transaction2_def demo_proposals_def TransactionSchema_def manager_fields_def ProposalsSchema_def)
  ultimately show ?thesis using demo_checked by (simp add: forge_def demo_params_def demo_params2_def)
qed

end
