(* ===== verification/Macros.thy ===== *)
theory Macros
  imports Micheline
begin

text \<open>
  Michelson macros (\<open>macros.ts\<close> of \<open>taquito-michel-codec\<close>): one definition for every
  part of \<open>expandMacros\<close>, in the order of the source, and the protocol levels of
  \<open>michelson-types.ts\<close> that it consults.  \<open>mkPrim\<close> drops undefined properties, which is
  the constructor \<open>Prim\<close> here.
\<close>

section \<open>Protocols\<close>

text \<open>\<open>PsFLoren\<close> and \<open>PsFLorena\<close>, and \<open>PtGRANAD\<close> and \<open>PtGRANADs\<close>, name the same value.\<close>

datatype (plugins only: size code) Protocol =
    Ps9mPmXa | PtCJ7pwo | PsYLVpVv | PsddFKi3 | Pt24m4xi | PsBABY5H | PsBabyM1 | PsCARTHA
  | PsDELPH1 | PtEdoTez | PtEdo2Zk | PsFLorena | PtGRANADs | PtHangzH | PtHangz2
  | PsiThaCa | Psithaca2 | PtJakarta | PtJakart2 | PtKathman | PtLimaPtL | PtMumbaii
  | PtMumbai2 | ProtoALpha

definition DefaultProtocol :: Protocol where
  "DefaultProtocol = Psithaca2"

fun protoLevel :: "Protocol \<Rightarrow> nat" where
  "protoLevel Ps9mPmXa = 0"
| "protoLevel PtCJ7pwo = 1"
| "protoLevel PsYLVpVv = 2"
| "protoLevel PsddFKi3 = 3"
| "protoLevel Pt24m4xi = 4"
| "protoLevel PsBABY5H = 5"
| "protoLevel PsBabyM1 = 5"
| "protoLevel PsCARTHA = 6"
| "protoLevel PsDELPH1 = 7"
| "protoLevel PtEdoTez = 8"
| "protoLevel PtEdo2Zk = 8"
| "protoLevel PsFLorena = 9"
| "protoLevel PtGRANADs = 10"
| "protoLevel PtHangzH = 11"
| "protoLevel PtHangz2 = 11"
| "protoLevel PsiThaCa = 12"
| "protoLevel Psithaca2 = 12"
| "protoLevel PtJakarta = 13"
| "protoLevel PtJakart2 = 13"
| "protoLevel PtKathman = 14"
| "protoLevel PtLimaPtL = 15"
| "protoLevel PtMumbaii = 16"
| "protoLevel PtMumbai2 = 16"
| "protoLevel ProtoALpha = 17"

definition ProtoGreaterOfEqual :: "Protocol \<Rightarrow> Protocol \<Rightarrow> bool" where
  "ProtoGreaterOfEqual a b \<longleftrightarrow> protoLevel a \<ge> protoLevel b"

definition ProtoInferiorTo :: "Protocol \<Rightarrow> Protocol \<Rightarrow> bool" where
  "ProtoInferiorTo a b \<longleftrightarrow> protoLevel a < protoLevel b"

section \<open>Errors and argument checks\<close>

datatype (plugins only: size code) macro_fault =
    ArgCount nat | UnexpectedAnnots | IntExpected | UnexpectedEnd | UnexpectedChar char

text \<open>\<open>MacroError\<close> keeps the macro; the fault stands for the message.\<close>

datatype (plugins only: size code) macro_error = MacroError expr macro_fault

type_synonym 'a mres = "macro_error + 'a"

definition assertArgs :: "expr \<Rightarrow> expr list option \<Rightarrow> nat \<Rightarrow> unit mres" where
  "assertArgs ex args n =
     (if n = 0 \<and> args = None \<or> (case args of Some xs \<Rightarrow> length xs = n | None \<Rightarrow> False) then Inr ()
      else Inl (MacroError ex (ArgCount n)))"

definition assertNoAnnots :: "expr \<Rightarrow> string list option \<Rightarrow> unit mres" where
  "assertNoAnnots ex annots = (if annots = None then Inr () else Inl (MacroError ex UnexpectedAnnots))"

fun assertIntArg :: "expr \<Rightarrow> expr \<Rightarrow> string mres" where
  "assertIntArg ex (IntLit i) = Inr i"
| "assertIntArg ex _ = Inl (MacroError ex IntExpected)"

text \<open>\<open>parseInt(s, 10)\<close> in arithmetic and printed again; NaN stays NaN.\<close>

definition parsed_text :: "(int \<Rightarrow> int) \<Rightarrow> string \<Rightarrow> string" where
  "parsed_text f s = (case js_parseInt 10 s of Some n \<Rightarrow> int_to_dec (f n) | None \<Rightarrow> ''NaN'')"

section \<open>Pairs\<close>

type_synonym PT = "nat \<times> (string option \<times> string option)"

function parsePairUnpairExpr ::
    "expr \<Rightarrow> string \<Rightarrow> string list \<Rightarrow> (PT list option \<Rightarrow> PT list option \<Rightarrow> PT \<Rightarrow> PT list)
      \<Rightarrow> (PT list \<times> nat \<times> nat) mres" where
  "parsePairUnpairExpr p expr annotations agg =
     (if expr = [] then Inl (MacroError p UnexpectedEnd)
      else
        bindR
          (if hd expr = CHR ''P'' then
             bindR (parsePairUnpairExpr p (drop 1 expr) annotations agg) (\<lambda>(r, n, an).
               Inr (Some r, None, 1 + n, an))
           else if hd expr = CHR ''A'' then
             (case annotations of
                [] \<Rightarrow> Inr (None, None, 1, 0)
              | a # _ \<Rightarrow> Inr (None, Some a, 1, 1))
           else Inl (MacroError p (UnexpectedChar (hd expr))))
        (\<lambda>(lexpr, ann0, i, ai).
          if length expr \<le> i then Inl (MacroError p UnexpectedEnd)
          else if expr ! i = CHR ''P'' then
            bindR (parsePairUnpairExpr p (drop (Suc i) expr) (drop ai annotations) agg) (\<lambda>(r, n, an).
              Inr (agg lexpr (Some (map (\<lambda>(v, a). (v + 1, a)) r)) (0, (ann0, None)), Suc i + n, ai + an))
          else if expr ! i = CHR ''I'' then
            (case drop ai annotations of
               [] \<Rightarrow> Inr (agg lexpr None (0, (ann0, None)), Suc i, ai)
             | a # _ \<Rightarrow> Inr (agg lexpr None (0, (ann0, Some a)), Suc i, Suc ai))
          else Inl (MacroError p (UnexpectedChar (expr ! i)))))"
  by pat_completeness auto
termination
  by (relation "measure (\<lambda>(p, expr, annotations, agg). length expr)") auto

declare parsePairUnpairExpr.simps [simp del]

definition trimLast :: "'a option list \<Rightarrow> 'a option list" where
  "trimLast a = rev (dropWhile (\<lambda>x. x = None) (rev a))"

definition is_field :: "string \<Rightarrow> bool" where
  "is_field v \<longleftrightarrow> v \<noteq> [] \<and> hd v = CHR ''%''"

text \<open>The field annotations and the rest.\<close>

definition filterAnnotations :: "string list option \<Rightarrow> string list \<times> string list" where
  "filterAnnotations a =
     (case a of None \<Rightarrow> ([], []) | Some vs \<Rightarrow> (filter is_field vs, filter (\<lambda>v. \<not> is_field v) vs))"

text \<open>The regular expressions: a prefix, at least \<open>n\<close> letters of \<open>cs\<close>, a suffix.\<close>

definition between :: "string \<Rightarrow> string \<Rightarrow> nat \<Rightarrow> string \<Rightarrow> string \<Rightarrow> bool" where
  "between pre cs n post s =
     (let m = drop (length pre) (take (length s - length post) s)
      in s = pre @ m @ post \<and> n \<le> length m \<and> list_all (\<lambda>c. c \<in> set cs) m)"

definition pairRe :: "string \<Rightarrow> bool" where "pairRe = between ''P'' ''PAI'' 3 ''R''"
definition unpairRe :: "string \<Rightarrow> bool" where "unpairRe = between ''UNP'' ''PAI'' 2 ''R''"
definition cadrRe :: "string \<Rightarrow> bool" where "cadrRe = between ''C'' ''AD'' 2 ''R''"
definition setCadrRe :: "string \<Rightarrow> bool" where "setCadrRe = between ''SET_C'' ''AD'' 1 ''R''"
definition mapCadrRe :: "string \<Rightarrow> bool" where "mapCadrRe = between ''MAP_C'' ''AD'' 1 ''R''"
definition diipRe :: "string \<Rightarrow> bool" where "diipRe = between ''D'' ''I'' 2 ''P''"
definition duupRe :: "string \<Rightarrow> bool" where "duupRe = between ''D'' ''U'' 1 ''P''"

text \<open>An instruction below the top \<open>v\<close> elements of the stack.\<close>

definition at_depth :: "nat \<Rightarrow> expr \<Rightarrow> expr" where
  "at_depth v leaf =
     (if v = 0 then leaf
      else Prim ''DIP'' (Some (if v = 1 then [Seq [leaf]] else [IntLit (int_to_dec (int v)), Seq [leaf]])) None)"

definition pair_agg :: "PT list option \<Rightarrow> PT list option \<Rightarrow> PT \<Rightarrow> PT list" where
  "pair_agg l r tp = (case l of Some x \<Rightarrow> x | None \<Rightarrow> []) @ (case r of Some x \<Rightarrow> x | None \<Rightarrow> []) @ [tp]"

definition unpair_agg :: "PT list option \<Rightarrow> PT list option \<Rightarrow> PT \<Rightarrow> PT list" where
  "unpair_agg l r tp = tp # (case r of Some x \<Rightarrow> x | None \<Rightarrow> []) @ (case l of Some x \<Rightarrow> x | None \<Rightarrow> [])"

definition pair_leaf :: "string list \<Rightarrow> nat \<Rightarrow> nat \<times> PT \<Rightarrow> expr" where
  "pair_leaf rest n = (\<lambda>(i, v, (a0, a1)).
     let ann = map (\<lambda>x. case x of None \<Rightarrow> ''%'' | Some t \<Rightarrow> t) (trimLast [a0, a1])
               @ (if v = 0 \<and> i = n - 1 then rest else [])
     in at_depth v (Prim ''PAIR'' None (if ann \<noteq> [] then Some ann else None)))"

definition expandPair :: "expr \<Rightarrow> string \<Rightarrow> expr list option \<Rightarrow> string list option \<Rightarrow> expr mres" where
  "expandPair ex prim args annots =
     bindR (assertArgs ex args 0) (\<lambda>_.
       let (flds, rest) = filterAnnotations annots in
       bindR (parsePairUnpairExpr ex (drop 1 prim) flds pair_agg) (\<lambda>(r, _, _).
         Inr (Seq (map (pair_leaf rest (length r)) (enumerate 0 r)))))"

definition unpair_leaf :: "PT \<Rightarrow> expr" where
  "unpair_leaf = (\<lambda>(v, (a0, a1)).
     at_depth v (Seq [prim0 ''DUP'', Prim ''CAR'' None (map_option (\<lambda>a. [a]) a0),
       Prim ''DIP'' (Some [Seq [Prim ''CDR'' None (map_option (\<lambda>a. [a]) a1)]]) None]))"

definition expandUnpair ::
    "Protocol \<Rightarrow> expr \<Rightarrow> string \<Rightarrow> expr list option \<Rightarrow> string list option \<Rightarrow> expr mres" where
  "expandUnpair proto ex prim args annots =
     (if ProtoInferiorTo proto PtEdo2Zk then
        bindR (assertArgs ex args 0) (\<lambda>_.
        bindR (parsePairUnpairExpr ex (drop 3 prim) (case annots of Some a \<Rightarrow> a | None \<Rightarrow> []) unpair_agg)
          (\<lambda>(r, _, _). Inr (Seq (map unpair_leaf r))))
      else if prim = ''UNPAIR'' then Inr ex
      else
        bindR (assertArgs ex args 0) (\<lambda>_.
        bindR (parsePairUnpairExpr ex (drop 3 prim) [] unpair_agg)
          (\<lambda>(r, _, _). Inr (Seq (map (\<lambda>(v, _). at_depth v (prim0 ''UNPAIR'')) r)))))"

section \<open>Access paths\<close>

definition expandCadr :: "expr \<Rightarrow> string \<Rightarrow> expr list option \<Rightarrow> string list option \<Rightarrow> expr mres" where
  "expandCadr ex prim args annots =
     bindR (assertArgs ex args 0) (\<lambda>_.
       let ch = drop 1 (take (length prim - 1) prim) in
       bindR (mapR (\<lambda>(i, c).
           let ann = (if i = length ch - 1 then annots else None) in
           if c = CHR ''A'' then Inr (Prim ''CAR'' None ann)
           else if c = CHR ''D'' then Inr (Prim ''CDR'' None ann)
           else Inl (MacroError ex (UnexpectedChar c))) (enumerate 0 ch))
         (\<lambda>xs. Inr (Seq xs)))"

fun parseSetMapCadr :: "expr \<Rightarrow> string \<Rightarrow> string list \<Rightarrow> expr \<times> expr \<Rightarrow> expr mres" where
  "parseSetMapCadr p [] vann term = Inl (MacroError p UnexpectedEnd)"
| "parseSetMapCadr p (c # cs) vann term =
     (if c = CHR ''A'' then
        (if cs \<noteq> [] then
           bindR (parseSetMapCadr p cs [] term) (\<lambda>body.
             Inr (Seq [prim0 ''DUP'',
               Prim ''DIP'' (Some [Seq [Prim ''CAR'' None (Some [''@%%'']), body]]) None,
               Prim ''CDR'' None (Some [''@%%'']), prim0 ''SWAP'',
               Prim ''PAIR'' None (Some ([''%@'', ''%@''] @ vann))]))
         else Inr (fst term))
      else if c = CHR ''D'' then
        (if cs \<noteq> [] then
           bindR (parseSetMapCadr p cs [] term) (\<lambda>body.
             Inr (Seq [prim0 ''DUP'',
               Prim ''DIP'' (Some [Seq [Prim ''CDR'' None (Some [''@%%'']), body]]) None,
               Prim ''CAR'' None (Some [''@%%'']),
               Prim ''PAIR'' None (Some ([''%@'', ''%@''] @ vann))]))
         else Inr (snd term))
      else Inl (MacroError p (UnexpectedChar c)))"

definition set_term :: "string list \<Rightarrow> expr \<times> expr" where
  "set_term flds =
     (case flds of
        f # _ \<Rightarrow>
          (Seq [prim0 ''DUP'', Prim ''CAR'' None (Some flds), prim0 ''DROP'',
             Prim ''CDR'' None (Some [''@%%'']), prim0 ''SWAP'', Prim ''PAIR'' None (Some [f, ''%@''])],
           Seq [prim0 ''DUP'', Prim ''CDR'' None (Some flds), prim0 ''DROP'',
             Prim ''CAR'' None (Some [''@%%'']), Prim ''PAIR'' None (Some [''%@'', f])])
      | [] \<Rightarrow>
          (Seq [Prim ''CDR'' None (Some [''@%%'']), prim0 ''SWAP'', Prim ''PAIR'' None (Some [''%'', ''%@''])],
           Seq [Prim ''CAR'' None (Some [''@%%'']), Prim ''PAIR'' None (Some [''%@'', ''%''])]))"

definition expandSetCadr :: "expr \<Rightarrow> string \<Rightarrow> expr list option \<Rightarrow> string list option \<Rightarrow> expr mres" where
  "expandSetCadr ex prim args annots =
     bindR (assertArgs ex args 0) (\<lambda>_.
       let (flds, rest) = filterAnnotations annots in
       if length flds > 1 then Inl (MacroError ex UnexpectedAnnots)
       else parseSetMapCadr ex (drop 5 (take (length prim - 1) prim)) rest (set_term flds))"

definition map_term :: "string list \<Rightarrow> expr \<Rightarrow> expr \<times> expr" where
  "map_term flds code =
     (let field = (case flds of f # _ \<Rightarrow> f | [] \<Rightarrow> ''%'');
          var = (case flds of f # _ \<Rightarrow> Some [CHR ''@'' # drop 1 f] | [] \<Rightarrow> None)
      in (Seq [prim0 ''DUP'', Prim ''CDR'' None (Some [''@%%'']),
            Prim ''DIP'' (Some [Seq [Prim ''CAR'' None var, code]]) None,
            prim0 ''SWAP'', Prim ''PAIR'' None (Some [field, ''%@''])],
          Seq [prim0 ''DUP'', Prim ''CDR'' None var, code, prim0 ''SWAP'',
            Prim ''CAR'' None (Some [''@%%'']), Prim ''PAIR'' None (Some [''%@'', field])]))"

definition expandMapCadr :: "expr \<Rightarrow> string \<Rightarrow> expr list option \<Rightarrow> string list option \<Rightarrow> expr mres" where
  "expandMapCadr ex prim args annots =
     bindR (assertArgs ex args 1) (\<lambda>_.
       let (flds, _) = filterAnnotations annots in
       if length flds > 1 then Inl (MacroError ex UnexpectedAnnots)
       else parseSetMapCadr ex (drop 5 (take (length prim - 1) prim)) []
              (map_term flds (hd (args_of args))))"

section \<open>Repeated letters\<close>

text \<open>\<open>while (prim[1 + n] === c) n++\<close>.\<close>

definition letters :: "char \<Rightarrow> string \<Rightarrow> nat" where
  "letters c prim = length (takeWhile (\<lambda>x. x = c) (drop 1 prim))"

definition expandDiip :: "expr \<Rightarrow> string \<Rightarrow> expr list option \<Rightarrow> expr mres" where
  "expandDiip ex prim args =
     bindR (assertArgs ex args 1) (\<lambda>_.
       Inr (Prim ''DIP'' (Some [IntLit (int_to_dec (int (letters CHR ''I'' prim))), hd (args_of args)]) None))"

text \<open>The number of \<open>DUP\<close>s before the protocol Edo: \<open>n\<close> is a number or NaN.\<close>

definition dup_code :: "int option \<Rightarrow> string list option \<Rightarrow> expr" where
  "dup_code n annots =
     (let shown = (\<lambda>k. case n of Some i \<Rightarrow> int_to_dec (i + k) | None \<Rightarrow> ''NaN'') in
      if n = Some 1 then Seq [Prim ''DUP'' None annots]
      else if n = Some 2 then Seq [Prim ''DIP'' (Some [Seq [Prim ''DUP'' None annots]]) None, prim0 ''SWAP'']
      else Seq [Prim ''DIP'' (Some [IntLit (shown (- 1)), Seq [Prim ''DUP'' None annots]]) None,
                Prim ''DIG'' (Some [IntLit (shown 0)]) None])"

definition expandDuup ::
    "Protocol \<Rightarrow> expr \<Rightarrow> string \<Rightarrow> expr list option \<Rightarrow> string list option \<Rightarrow> expr mres" where
  "expandDuup proto ex prim args annots =
     (let n = letters CHR ''U'' prim in
      if ProtoInferiorTo proto PtEdo2Zk then
        (if n = 1 then
           (if args = None then Inr ex
            else bindR (assertArgs ex args 1) (\<lambda>_.
                 bindR (assertIntArg ex (hd (args_of args))) (\<lambda>i. Inr (dup_code (js_parseInt 10 i) annots))))
         else bindR (assertArgs ex args 0) (\<lambda>_. Inr (dup_code (Some (int n)) annots)))
      else if n = 1 then Inr ex
      else bindR (assertArgs ex args 0) (\<lambda>_.
             Inr (Prim ''DUP'' (Some [IntLit (int_to_dec (int n))]) annots)))"

section \<open>The switch\<close>

definition mayRename :: "string list option \<Rightarrow> expr" where
  "mayRename annots = (case annots of Some a \<Rightarrow> Seq [Prim ''RENAME'' None (Some a)] | None \<Rightarrow> Seq [])"

definition cmp_ops :: "string list" where
  "cmp_ops = [''EQ'', ''NEQ'', ''LT'', ''GT'', ''LE'', ''GE'']"

text \<open>The case labels \<open>CMPEQ\<close>, ..., \<open>CMPGE\<close> and the like.\<close>

definition labels :: "string \<Rightarrow> string list" where
  "labels p = map (\<lambda>o'. p @ o') cmp_ops"

definition fail_code :: expr where
  "fail_code = Seq [prim0 ''UNIT'', prim0 ''FAILWITH'']"

definition IF2 :: "string \<Rightarrow> expr \<Rightarrow> expr \<Rightarrow> expr" where
  "IF2 p a b = Prim p (Some [a, b]) None"

text \<open>\<open>None\<close>: no case applies and the function goes on behind the switch.\<close>

definition expandSwitch :: "expr \<Rightarrow> string \<Rightarrow> expr list option \<Rightarrow> string list option \<Rightarrow> expr option mres" where
  "expandSwitch ex prim args annots =
     (let ret = (\<lambda>n e. bindR (assertArgs ex args n) (\<lambda>_. Inr (Some e)));
          plain = (\<lambda>e. bindR (assertArgs ex args 0) (\<lambda>_. bindR (assertNoAnnots ex annots) (\<lambda>_. Inr (Some e))))
      in
      if prim \<in> set (labels ''CMP'') then
        ret 0 (Seq [prim0 ''COMPARE'', Prim (drop 3 prim) None annots])
      else if prim \<in> set (labels ''IF'') then
        ret 2 (Seq [prim0 (drop 2 prim), Prim ''IF'' args annots])
      else if prim \<in> set (labels ''IFCMP'') then
        ret 2 (Seq [prim0 ''COMPARE'', prim0 (drop 5 prim), Prim ''IF'' args annots])
      else if prim = ''FAIL'' then plain fail_code
      else if prim = ''ASSERT'' then plain (Seq [IF2 ''IF'' (Seq []) (Seq [fail_code])])
      else if prim \<in> set (labels ''ASSERT_'') then
        plain (Seq [prim0 (drop 7 prim), IF2 ''IF'' (Seq []) (Seq [fail_code])])
      else if prim \<in> set (labels ''ASSERT_CMP'') then
        plain (Seq [Seq [prim0 ''COMPARE'', prim0 (drop 10 prim)], IF2 ''IF'' (Seq []) (Seq [fail_code])])
      else if prim = ''ASSERT_NONE'' then plain (Seq [IF2 ''IF_NONE'' (Seq []) (Seq [fail_code])])
      else if prim = ''ASSERT_SOME'' then ret 0 (Seq [IF2 ''IF_NONE'' (Seq [fail_code]) (mayRename annots)])
      else if prim = ''ASSERT_LEFT'' then ret 0 (Seq [IF2 ''IF_LEFT'' (mayRename annots) (Seq [fail_code])])
      else if prim = ''ASSERT_RIGHT'' then ret 0 (Seq [IF2 ''IF_LEFT'' (Seq [fail_code]) (mayRename annots)])
      else if prim = ''IF_SOME'' then
        ret 2 (Seq [Prim ''IF_NONE'' (Some [args_of args ! 1, args_of args ! 0]) annots])
      else if prim = ''IF_RIGHT'' then
        ret 2 (Seq [Prim ''IF_LEFT'' (Some [args_of args ! 1, args_of args ! 0]) annots])
      else if prim = ''CAR'' \<or> prim = ''CDR'' then
        (if args \<noteq> None then
           bindR (assertArgs ex args 1) (\<lambda>_.
           bindR (assertIntArg ex (hd (args_of args))) (\<lambda>i.
             Inr (Some (Prim ''GET''
               (Some [IntLit (parsed_text (\<lambda>n. if prim = ''CAR'' then n * 2 + 1 else n * 2) i)]) annots))))
         else Inr (Some ex))
      else Inr None)"

text \<open>\<open>expandMacros\<close> on the parts of a primitive application.\<close>

definition expandPrim :: "Protocol \<Rightarrow> string \<Rightarrow> expr list option \<Rightarrow> string list option \<Rightarrow> expr mres" where
  "expandPrim proto prim args annots =
     (let ex = Prim prim args annots in
      bindR (expandSwitch ex prim args annots) (\<lambda>found.
        case found of
          Some e \<Rightarrow> Inr e
        | None \<Rightarrow>
            if pairRe prim then expandPair ex prim args annots
            else if unpairRe prim then expandUnpair proto ex prim args annots
            else if cadrRe prim then expandCadr ex prim args annots
            else if setCadrRe prim then expandSetCadr ex prim args annots
            else if mapCadrRe prim then expandMapCadr ex prim args annots
            else if diipRe prim then expandDiip ex prim args
            else if duupRe prim then expandDuup proto ex prim args annots
            else Inr ex))"

text \<open>An absent protocol option is the default protocol.  The source's parameter is a primitive
  application and it is only called on one; on another expression (the second equation, outside
  that type) no case of the switch and no regular expression applies, and it comes back as it is.\<close>

fun expandMacros :: "Protocol option \<Rightarrow> expr \<Rightarrow> expr mres" where
  "expandMacros proto (Prim prim args annots) =
     expandPrim (case proto of Some p \<Rightarrow> p | None \<Rightarrow> DefaultProtocol) prim args annots"
| "expandMacros proto ex = Inr ex"

end
