(* ===== verification/StackMachine.thy ===== *)
theory StackMachine
  imports Micheline
begin

text \<open>
  The meaning of the stack instructions that macros expand to, after the Michelson
  language reference: the specification against which \<open>MacrosProofs\<close> checks the expansions.
  An instruction maps a stack to a stack or to a fault; annotations have no effect.
\<close>

datatype (plugins only: size code) sval =
    IntV int | BoolV bool | UnitV | PairV sval sval
  | NoneV | SomeV sval | LeftV sval | RightV sval | ListV "sval list"

datatype (plugins only: size code) fault = FailedWith sval | IllTyped

type_synonym outcome = "fault + sval list"

section \<open>Instructions without arguments\<close>

definition cmp_rel :: "string \<Rightarrow> int \<Rightarrow> bool option" where
  "cmp_rel p i =
     (if p = ''EQ'' then Some (i = 0) else if p = ''NEQ'' then Some (i \<noteq> 0)
      else if p = ''LT'' then Some (i < 0) else if p = ''GT'' then Some (i > 0)
      else if p = ''LE'' then Some (i \<le> 0) else if p = ''GE'' then Some (i \<ge> 0) else None)"

fun pair_op :: "sval list \<Rightarrow> outcome" where
  "pair_op (a # b # s) = Inr (PairV a b # s)"
| "pair_op _ = Inl IllTyped"

fun unpair_op :: "sval list \<Rightarrow> outcome" where
  "unpair_op (PairV a b # s) = Inr (a # b # s)"
| "unpair_op _ = Inl IllTyped"

fun car_op :: "sval list \<Rightarrow> outcome" where
  "car_op (PairV a b # s) = Inr (a # s)"
| "car_op _ = Inl IllTyped"

fun cdr_op :: "sval list \<Rightarrow> outcome" where
  "cdr_op (PairV a b # s) = Inr (b # s)"
| "cdr_op _ = Inl IllTyped"

fun swap_op :: "sval list \<Rightarrow> outcome" where
  "swap_op (a # b # s) = Inr (b # a # s)"
| "swap_op _ = Inl IllTyped"

fun drop_op :: "sval list \<Rightarrow> outcome" where
  "drop_op (a # s) = Inr s"
| "drop_op _ = Inl IllTyped"

text \<open>\<open>DUP n\<close>, counted from 1, and \<open>DIG n\<close>, counted from 0.\<close>

definition dup_op :: "nat \<Rightarrow> sval list \<Rightarrow> outcome" where
  "dup_op n s = (if 0 < n \<and> n \<le> length s then Inr (s ! (n - 1) # s) else Inl IllTyped)"

definition dig_op :: "nat \<Rightarrow> sval list \<Rightarrow> outcome" where
  "dig_op n s = (if n < length s then Inr (s ! n # take n s @ drop (Suc n) s) else Inl IllTyped)"

fun compare_op :: "sval list \<Rightarrow> outcome" where
  "compare_op (IntV a # IntV b # s) = Inr (IntV (sgn (a - b)) # s)"
| "compare_op _ = Inl IllTyped"

fun rel_op :: "string \<Rightarrow> sval list \<Rightarrow> outcome" where
  "rel_op p (IntV i # s) = (case cmp_rel p i of Some b \<Rightarrow> Inr (BoolV b # s) | None \<Rightarrow> Inl IllTyped)"
| "rel_op p _ = Inl IllTyped"

fun fail_op :: "sval list \<Rightarrow> outcome" where
  "fail_op (v # s) = Inl (FailedWith v)"
| "fail_op [] = Inl IllTyped"

definition exec0 :: "string \<Rightarrow> sval list \<Rightarrow> outcome" where
  "exec0 p s =
     (if p = ''PAIR'' then pair_op s else if p = ''UNPAIR'' then unpair_op s
      else if p = ''CAR'' then car_op s else if p = ''CDR'' then cdr_op s
      else if p = ''SWAP'' then swap_op s else if p = ''DROP'' then drop_op s
      else if p = ''DUP'' then dup_op 1 s else if p = ''RENAME'' then Inr s
      else if p = ''COMPARE'' then compare_op s else if p = ''UNIT'' then Inr (UnitV # s)
      else if p = ''FAILWITH'' then fail_op s else rel_op p s)"

section \<open>Instructions with arguments\<close>

text \<open>\<open>GET n\<close>: the components of a right comb, odd numbers its elements, even numbers its tails.\<close>

fun get_op :: "nat \<Rightarrow> sval \<Rightarrow> sval option" where
  "get_op 0 v = Some v"
| "get_op (Suc 0) (PairV a b) = Some a"
| "get_op (Suc (Suc n)) (PairV a b) = get_op n b"
| "get_op n v = None"

definition exec_num :: "string \<Rightarrow> nat \<Rightarrow> sval list \<Rightarrow> outcome" where
  "exec_num p n s =
     (if p = ''DUP'' then dup_op n s
      else if p = ''DIG'' then dig_op n s
      else if p = ''GET'' then
        (case s of v # r \<Rightarrow> (case get_op n v of Some w \<Rightarrow> Inr (w # r) | None \<Rightarrow> Inl IllTyped) | [] \<Rightarrow> Inl IllTyped)
      else Inl IllTyped)"

definition dip_op :: "nat \<Rightarrow> (sval list \<Rightarrow> outcome) \<Rightarrow> sval list \<Rightarrow> outcome" where
  "dip_op n f s = (if length s < n then Inl IllTyped else bindR (f (drop n s)) (\<lambda>t. Inr (take n s @ t)))"

definition branch_op ::
    "string \<Rightarrow> (sval list \<Rightarrow> outcome) \<Rightarrow> (sval list \<Rightarrow> outcome) \<Rightarrow> sval list \<Rightarrow> outcome" where
  "branch_op p f g s =
     (case s of
        BoolV b # r \<Rightarrow> if p = ''IF'' then (if b then f r else g r) else Inl IllTyped
      | NoneV # r \<Rightarrow> if p = ''IF_NONE'' then f r else Inl IllTyped
      | SomeV v # r \<Rightarrow> if p = ''IF_NONE'' then g (v # r) else Inl IllTyped
      | LeftV v # r \<Rightarrow> if p = ''IF_LEFT'' then f (v # r) else Inl IllTyped
      | RightV v # r \<Rightarrow> if p = ''IF_LEFT'' then g (v # r) else Inl IllTyped
      | _ \<Rightarrow> Inl IllTyped)"

text \<open>A numeral argument; anything else is ill-typed.\<close>

definition numeral_arg :: "string \<Rightarrow> nat option" where
  "numeral_arg t = (case dec_to_int t of Some i \<Rightarrow> if 0 \<le> i then Some (nat i) else None | None \<Rightarrow> None)"

fun exec :: "expr \<Rightarrow> sval list \<Rightarrow> outcome"
and execs :: "expr list \<Rightarrow> sval list \<Rightarrow> outcome"
where
  "exec (Seq xs) s = execs xs s"
| "exec (Prim p None an) s = exec0 p s"
| "exec (Prim p (Some [IntLit t]) an) s =
     (case numeral_arg t of Some n \<Rightarrow> exec_num p n s | None \<Rightarrow> Inl IllTyped)"
| "exec (Prim p (Some [Seq b]) an) s = (if p = ''DIP'' then dip_op 1 (execs b) s else Inl IllTyped)"
| "exec (Prim p (Some [IntLit t, Seq b]) an) s =
     (case numeral_arg t of
        Some n \<Rightarrow> if p = ''DIP'' then dip_op n (execs b) s else Inl IllTyped
      | None \<Rightarrow> Inl IllTyped)"
| "exec (Prim p (Some [Seq a, Seq b]) an) s = branch_op p (execs a) (execs b) s"
| "exec _ s = Inl IllTyped"
| "execs [] s = Inr s"
| "execs (e # es) s = bindR (exec e s) (execs es)"

lemma execs_append: "execs (xs @ ys) s = bindR (execs xs s) (execs ys)"
  by (induction xs arbitrary: s) (auto simp: bindR_def split: sum.splits)

lemma exec0_simps [simp]:
  "exec0 ''PAIR'' s = pair_op s" "exec0 ''UNPAIR'' s = unpair_op s"
  "exec0 ''CAR'' s = car_op s" "exec0 ''CDR'' s = cdr_op s"
  "exec0 ''SWAP'' s = swap_op s" "exec0 ''DROP'' s = drop_op s"
  "exec0 ''DUP'' s = dup_op 1 s" "exec0 ''RENAME'' s = Inr s"
  "exec0 ''COMPARE'' s = compare_op s" "exec0 ''UNIT'' s = Inr (UnitV # s)"
  "exec0 ''FAILWITH'' s = fail_op s"
  by (simp_all add: exec0_def)

lemma exec_num_simps [simp]:
  "exec_num ''DUP'' n s = dup_op n s" "exec_num ''DIG'' n s = dig_op n s"
  by (simp_all add: exec_num_def)

lemma dup_one [simp]: "dup_op 1 (v # s) = Inr (v # v # s)" "dup_op (Suc 0) (v # s) = Inr (v # v # s)"
  by (simp_all add: dup_op_def)

lemma dip_one [simp]: "dip_op 1 f (v # s) = bindR (f s) (\<lambda>t. Inr (v # t))"
    "dip_op (Suc 0) f (v # s) = bindR (f s) (\<lambda>t. Inr (v # t))"
  by (simp_all add: dip_op_def)

lemma numeral_arg_nat [simp]: "numeral_arg (int_to_dec (int n)) = Some n"
  by (simp add: numeral_arg_def)

end
