(* ===== verification/MacrosProofs.thy ===== *)
theory MacrosProofs
  imports Macros StackMachine
begin

text \<open>
  The expansions of \<open>Macros\<close> do what the language reference says the macros do, on the
  stack machine of \<open>StackMachine\<close>: pair macros build and take apart the tree their name
  spells, access macros select, replace or map the component at their path, comparison
  macros branch, assertions fail when they should.
\<close>

section \<open>Names\<close>

lemma between_iff: "between pre cs n post s \<longleftrightarrow> (\<exists>m. s = pre @ m @ post \<and> n \<le> length m \<and> set m \<subseteq> set cs)"
  by (auto simp: between_def Let_def list_all_iff)

lemma between_word: "between pre cs n post (pre @ m @ post) \<longleftrightarrow> n \<le> length m \<and> set m \<subseteq> set cs"
  by (auto simp: between_iff)

lemma between_hd: "s = [] \<or> hd s \<noteq> c \<Longrightarrow> \<not> between (c # pre) cs n post s"
  by (auto simp: between_iff)

lemma switch_label:
  assumes "prim \<notin> set (labels ''CMP'') \<union> set (labels ''IF'') \<union> set (labels ''IFCMP'')
      \<union> set (labels ''ASSERT_'') \<union> set (labels ''ASSERT_CMP'')"
    and "prim \<notin> set [''FAIL'', ''ASSERT'', ''ASSERT_NONE'', ''ASSERT_SOME'', ''ASSERT_LEFT'',
      ''ASSERT_RIGHT'', ''IF_SOME'', ''IF_RIGHT'', ''CAR'', ''CDR'']"
  shows "expandSwitch ex prim args annots = Inr None"
  using assms unfolding expandSwitch_def Let_def Un_iff de_Morgan_disj by simp

lemma labels_Cons: "c # p \<in> set (labels (d # q)) \<longleftrightarrow> c = d \<and> p \<in> set (labels q)"
  by (auto simp: labels_def)

lemma switch_none:
  assumes "c \<notin> {CHR ''C'', CHR ''I'', CHR ''F'', CHR ''A''}"
  shows "expandSwitch ex (c # p) args annots = Inr None"
  by (rule switch_label) (use assms in \<open>auto simp: labels_Cons\<close>)

lemmas regexes = pairRe_def unpairRe_def cadrRe_def setCadrRe_def mapCadrRe_def diipRe_def duupRe_def

lemma name_pair: "3 \<le> length m \<Longrightarrow> set m \<subseteq> set ''PAI'' \<Longrightarrow>
    expandMacros proto (Prim (CHR ''P'' # m @ ''R'') args annots)
      = expandPair (Prim (CHR ''P'' # m @ ''R'') args annots) (CHR ''P'' # m @ ''R'') args annots"
  using between_word [of "''P''" "''PAI''" 3 "''R''" m] by (simp add: expandPrim_def switch_none regexes)

abbreviation chosen :: "Protocol option \<Rightarrow> Protocol" where
  "chosen proto \<equiv> (case proto of Some p \<Rightarrow> p | None \<Rightarrow> DefaultProtocol)"

lemma name_unpair: "2 \<le> length m \<Longrightarrow> set m \<subseteq> set ''PAI'' \<Longrightarrow>
    expandMacros proto (Prim (''UNP'' @ m @ ''R'') args annots)
      = expandUnpair (chosen proto) (Prim (''UNP'' @ m @ ''R'') args annots) (''UNP'' @ m @ ''R'') args annots"
  using between_word [of "''UNP''" "''PAI''" 2 "''R''" m]
  by (simp add: expandPrim_def switch_none regexes between_hd)

lemma switch_cadr:
  assumes "2 \<le> length m" "set m \<subseteq> set ''AD''"
  shows "expandSwitch ex (CHR ''C'' # m @ ''R'') args annots = Inr None"
proof -
  obtain a b r where m: "m = a # b # r" using assms(1) by (cases m rule: remdups_adj.cases) auto
  then have "a \<noteq> CHR ''M''" using assms(2) by auto
  then show ?thesis unfolding m by (intro switch_label) (auto simp: labels_Cons)
qed

lemma name_cadr: "2 \<le> length m \<Longrightarrow> set m \<subseteq> set ''AD'' \<Longrightarrow>
    expandMacros proto (Prim (''C'' @ m @ ''R'') args annots)
      = expandCadr (Prim (''C'' @ m @ ''R'') args annots) (''C'' @ m @ ''R'') args annots"
  using between_word [of "''C''" "''AD''" 2 "''R''" m] switch_cadr [of m]
  by (simp add: expandPrim_def regexes between_hd)

lemma name_set_cadr: "1 \<le> length m \<Longrightarrow> set m \<subseteq> set ''AD'' \<Longrightarrow>
    expandMacros proto (Prim (''SET_C'' @ m @ ''R'') args annots)
      = expandSetCadr (Prim (''SET_C'' @ m @ ''R'') args annots) (''SET_C'' @ m @ ''R'') args annots"
  using between_word [of "''SET_C''" "''AD''" 1 "''R''" m]
  by (simp add: expandPrim_def switch_none regexes between_hd)

lemma name_map_cadr: "1 \<le> length m \<Longrightarrow> set m \<subseteq> set ''AD'' \<Longrightarrow>
    expandMacros proto (Prim (''MAP_C'' @ m @ ''R'') args annots)
      = expandMapCadr (Prim (''MAP_C'' @ m @ ''R'') args annots) (''MAP_C'' @ m @ ''R'') args annots"
  using between_word [of "''MAP_C''" "''AD''" 1 "''R''" m]
  by (simp add: expandPrim_def switch_none regexes between_hd)

lemma not_duup_diip: "\<not> duupRe (''DI'' @ m)" "\<not> diipRe (''DU'' @ m)"
  by (auto simp: regexes between_iff Cons_eq_append_conv)

lemma name_diip: "2 \<le> n \<Longrightarrow>
    expandMacros proto (Prim (''D'' @ replicate n CHR ''I'' @ ''P'') args annots)
      = expandDiip (Prim (''D'' @ replicate n CHR ''I'' @ ''P'') args annots)
          (''D'' @ replicate n CHR ''I'' @ ''P'') args"
  using between_word [of "''D''" "''I''" 2 "''P''" "replicate n CHR ''I''"]
  by (simp add: expandPrim_def switch_none regexes between_hd set_replicate_conv_if)

lemma name_duup:
  assumes "1 \<le> n"
  shows "expandMacros proto (Prim (''D'' @ replicate n CHR ''U'' @ ''P'') args annots)
      = expandDuup (chosen proto) (Prim (''D'' @ replicate n CHR ''U'' @ ''P'') args annots)
          (''D'' @ replicate n CHR ''U'' @ ''P'') args annots"
proof -
  obtain k where n: "n = Suc k" using assms by (cases n) auto
  have "\<not> diipRe (''D'' @ replicate n CHR ''U'' @ ''P'')"
    using not_duup_diip(2) [of "replicate k CHR ''U'' @ ''P''"] by (simp add: n)
  moreover have "duupRe (''D'' @ replicate n CHR ''U'' @ ''P'')"
    unfolding duupRe_def using between_word [of "''D''" "''U''" 1 "''P''" "replicate n CHR ''U''"] assms
    by (simp add: set_replicate_conv_if)
  ultimately show ?thesis
    by (simp add: expandPrim_def switch_none) (simp add: regexes between_hd)
qed

lemma letters_replicate: "c \<noteq> d \<Longrightarrow> letters c (x # replicate n c @ [d]) = n"
  by (induction n) (simp_all add: letters_def)

section \<open>Pairs\<close>

text \<open>A tree of values, the letters a pair macro spells it with, and the pair it denotes.\<close>

datatype vtree = VLeaf sval | VNode vtree vtree

fun letters_of :: "char \<Rightarrow> vtree \<Rightarrow> string" where
  "letters_of c (VLeaf v) = [c]"
| "letters_of c (VNode l r) = ''P'' @ letters_of CHR ''A'' l @ letters_of CHR ''I'' r"

fun leaves :: "vtree \<Rightarrow> sval list" where
  "leaves (VLeaf v) = [v]"
| "leaves (VNode l r) = leaves l @ leaves r"

fun built :: "vtree \<Rightarrow> sval" where
  "built (VLeaf v) = v"
| "built (VNode l r) = PairV (built l) (built r)"

definition pair_letters :: "vtree \<Rightarrow> string" where
  "pair_letters t = drop 1 (letters_of CHR ''P'' t)"

lemma pair_letters: "pair_letters (VNode l r) = letters_of CHR ''A'' l @ letters_of CHR ''I'' r"
  by (simp add: pair_letters_def)

lemma letters_of_set: "set (letters_of c t) \<subseteq> {c} \<union> set ''PAI''"
  by (induction c t rule: letters_of.induct) auto

lemma leaves_pos: "0 < length (leaves t)"
  by (induction t) auto

lemma letters_of_length: "Suc (length (letters_of c t)) = 2 * length (leaves t)"
proof (induction c t rule: letters_of.induct)
  case (2 c l r)
  then show ?case using leaves_pos [of l] leaves_pos [of r] by simp
qed simp

lemma pair_letters_shape:
  assumes "3 \<le> length (leaves t)"
  shows "4 \<le> length (pair_letters t)" "set (pair_letters t) \<subseteq> set ''PAI''"
proof -
  obtain l r where t: "t = VNode l r" using assms by (cases t) auto
  show "4 \<le> length (pair_letters t)"
    using assms letters_of_length [of "CHR ''A''" l] letters_of_length [of "CHR ''I''" r] by (simp add: t pair_letters)
  show "set (pair_letters t) \<subseteq> set ''PAI''"
    using letters_of_set [of "CHR ''A''" l] letters_of_set [of "CHR ''I''" r] by (auto simp: t pair_letters)
qed

text \<open>An operation carried out at a list of depths.\<close>

fun runs :: "(sval list \<Rightarrow> outcome) \<Rightarrow> nat list \<Rightarrow> sval list \<Rightarrow> outcome" where
  "runs f [] s = Inr s"
| "runs f (d # ds) s = bindR (dip_op d f s) (runs f ds)"

lemma dip_zero [simp]: "dip_op 0 f s = f s"
  by (simp add: dip_op_def)

lemma dip_Suc: "dip_op (Suc d) f (v # s) = bindR (dip_op d f s) (\<lambda>t. Inr (v # t))"
  by (simp add: dip_op_def bindR_assoc)

lemma runs_append: "runs f (ds @ es) s = bindR (runs f ds s) (runs f es)"
  by (induction ds arbitrary: s) (auto simp: bindR_def split: sum.splits)

lemma runs_Suc: "runs f (map Suc ds) (v # s) = bindR (runs f ds s) (\<lambda>t. Inr (v # t))"
  by (induction ds arbitrary: s) (simp_all add: dip_Suc bindR_assoc)

text \<open>
  What the two aggregation functions share: on depths they join the depths of the left tree,
  those of the right tree, and 0, in some order.
\<close>

definition items :: "PT list option \<Rightarrow> PT list" where
  "items r = (case r of Some x \<Rightarrow> x | None \<Rightarrow> [])"

locale pairing =
  fixes agg :: "PT list option \<Rightarrow> PT list option \<Rightarrow> PT \<Rightarrow> PT list"
    and join :: "nat list \<Rightarrow> nat list \<Rightarrow> nat list"
  assumes joins: "map fst (agg l r (0, a)) = join (map fst (items l)) (map fst (items r))"
begin

fun depths :: "vtree \<Rightarrow> nat list" where
  "depths (VLeaf v) = []"
| "depths (VNode l r) = join (depths l) (map Suc (depths r))"

lemma parse_tree:
  "\<exists>R an. parsePairUnpairExpr p (pair_letters (VNode l r) @ rst) ann agg
      = Inr (R, length (pair_letters (VNode l r)), an) \<and> map fst R = depths (VNode l r)"
proof (induction "VNode l r" arbitrary: l r ann rst)
  case (VNode l r)
  note IH = VNode.hyps
  let ?e = "letters_of CHR ''A'' l @ letters_of CHR ''I'' r @ rst"
  let ?i = "length (letters_of CHR ''A'' l)"
  let ?left = "(if hd ?e = CHR ''P'' then
             bindR (parsePairUnpairExpr p (drop 1 ?e) ann agg) (\<lambda>(r, n, an).
               Inr (Some r, None, 1 + n, an))
           else if hd ?e = CHR ''A'' then
             (case ann of
                [] \<Rightarrow> Inr (None, None, 1, 0)
              | a # _ \<Rightarrow> Inr (None, Some a, 1, 1))
           else Inl (MacroError p (UnexpectedChar (hd ?e))))"
  have left: "\<exists>lx a0 ai.
     ?left = Inr (lx, a0, ?i, ai)
       \<and> map fst (items lx) = depths l"
  proof (cases l)
    case (VLeaf v)
    then show ?thesis by (cases ann) (auto simp: items_def)
  next
    case (VNode l1 l2)
    then obtain R an where "parsePairUnpairExpr p (pair_letters l @ letters_of CHR ''I'' r @ rst) ann agg
        = Inr (R, length (pair_letters l), an)" "map fst R = depths l"
      using IH(1) by metis
    then show ?thesis using VNode by (auto simp: items_def pair_letters)
  qed
  then obtain lx a0 ai where L: "bindR
     ?left k = k (lx, a0, ?i, ai)"
      and dl: "map fst (items lx) = depths l" for k :: "_ \<Rightarrow> (PT list \<times> nat \<times> nat) mres"
    by (elim exE conjE) auto
  have ne: "?e \<noteq> []" by (cases l) auto
  have at: "?e ! ?i = hd (letters_of CHR ''I'' r)" "\<not> length ?e \<le> ?i"
    "drop (Suc ?i) ?e = tl (letters_of CHR ''I'' r) @ rst"
    by (cases r; simp add: nth_append)+
  show ?case
  proof (cases r)
    case (VLeaf v)
    then show ?thesis using ne L at dl joins [of lx None] unfolding pair_letters append_assoc
      by (subst parsePairUnpairExpr.simps) (auto simp: items_def split: list.splits)
  next
    case (VNode r1 r2)
    then obtain R an where R: "parsePairUnpairExpr p (pair_letters r @ rst) (drop ai ann) agg
        = Inr (R, length (pair_letters r), an)" "map fst R = depths r"
      using IH(2) by metis
    have "tl (letters_of CHR ''I'' r) = pair_letters r" "hd (letters_of CHR ''I'' r) = CHR ''P''"
      using VNode by (simp_all add: pair_letters)
    moreover have "map fst (map (\<lambda>(v, a). (v + 1, a)) R) = map Suc (depths r)"
      unfolding R(2) [symmetric] by (induction R) auto
    ultimately show ?thesis
      using ne L at dl R joins [of lx "Some (map (\<lambda>(v, a). (v + 1, a)) R)"] VNode unfolding pair_letters append_assoc
      by (subst parsePairUnpairExpr.simps) (simp add: items_def)
  qed
qed

end

interpretation pairs: pairing pair_agg "\<lambda>x y. x @ y @ [0]"
  by unfold_locales (simp add: pair_agg_def items_def split: option.split)

interpretation unpairs: pairing unpair_agg "\<lambda>x y. 0 # y @ x"
  by unfold_locales (simp add: unpair_agg_def items_def split: option.split)

lemma runs_pair: "runs pair_op (pairs.depths t) (leaves t @ s) = Inr (built t # s)"
  by (induction t arbitrary: s) (simp_all add: runs_append runs_Suc)

lemma runs_unpair: "runs unpair_op (unpairs.depths t) (built t # s) = Inr (leaves t @ s)"
  by (induction t arbitrary: s) (simp_all add: runs_append runs_Suc)

lemma execs_Nil [simp]: "execs [] = Inr"
  by (rule ext) simp

lemma exec_at_depth: "exec (at_depth v leaf) s = dip_op v (exec leaf) s"
proof -
  have "execs [leaf] = exec leaf" by (rule ext) simp
  then show ?thesis by (simp add: at_depth_def)
qed

lemma execs_depths:
  assumes "\<And>x s. x \<in> set xs \<Longrightarrow> exec (g x) s = dip_op (d x) f s"
  shows "execs (map g xs) s = runs f (map d xs) s"
  using assms by (induction xs arbitrary: s) (simp_all add: bindR_def split: sum.split)

lemma exec_pair_leaf: "exec (pair_leaf rest n x) s = dip_op (fst (snd x)) pair_op s"
proof -
  have "exec (Prim ''PAIR'' None an) = pair_op" for an by (rule ext) simp
  then show ?thesis by (cases x) (simp add: pair_leaf_def Let_def exec_at_depth split: prod.split)
qed

lemma exec_unpair_leaf: "exec (unpair_leaf x) s = dip_op (fst x) unpair_op s"
proof -
  have "exec (Seq [prim0 ''DUP'', Prim ''CAR'' None a,
       Prim ''DIP'' (Some [Seq [Prim ''CDR'' None b]]) None]) t = unpair_op t" for a b t
  proof (cases t)
    case (Cons v r)
    then show ?thesis by (cases v) (simp_all add: prim0_def)
  qed (simp add: prim0_def dup_op_def)
  then have "exec (Seq [prim0 ''DUP'', Prim ''CAR'' None a,
       Prim ''DIP'' (Some [Seq [Prim ''CDR'' None b]]) None]) = unpair_op" for a b by (rule ext)
  then show ?thesis by (cases x) (simp add: unpair_leaf_def exec_at_depth split: prod.split)
qed

lemma exec_unpair_at: "exec (case x of (v, _) \<Rightarrow> at_depth v (prim0 ''UNPAIR'')) s = dip_op (fst x) unpair_op s"
proof -
  have "exec (prim0 ''UNPAIR'') = unpair_op" by (rule ext) (simp add: prim0_def)
  then show ?thesis by (cases x) (simp add: exec_at_depth)
qed

definition pair_macro :: "vtree \<Rightarrow> string" where
  "pair_macro t = ''P'' @ pair_letters t @ ''R''"

definition unpair_macro :: "vtree \<Rightarrow> string" where
  "unpair_macro t = ''UNP'' @ pair_letters t @ ''R''"

text \<open>Letters behind a complete pair have no effect: the parser stops where the tree is complete
  and nobody asks whether the name ends there.\<close>

lemma pair_expansion_rest:
  assumes "3 \<le> length (pair_letters (VNode l r) @ rst)" "set rst \<subseteq> set ''PAI''"
  shows "\<exists>code. expandMacros proto (Prim (''P'' @ pair_letters (VNode l r) @ rst @ ''R'') None annots) = Inr code
    \<and> exec code (leaves (VNode l r) @ s) = Inr (built (VNode l r) # s)"
proof -
  let ?t = "VNode l r"
  let ?m = "pair_letters ?t @ rst"
  let ?ex = "Prim (CHR ''P'' # ?m @ ''R'') None annots"
  obtain flds rest where f: "filterAnnotations annots = (flds, rest)" by (cases "filterAnnotations annots")
  obtain R an where R: "parsePairUnpairExpr ?ex (pair_letters ?t @ rst @ ''R'') flds pair_agg
      = Inr (R, length (pair_letters ?t), an)" "map fst R = pairs.depths ?t"
    using pairs.parse_tree by blast
  have "set ?m \<subseteq> set ''PAI''"
    using letters_of_set [of "CHR ''A''" l] letters_of_set [of "CHR ''I''" r] assms(2) by (auto simp: pair_letters)
  then have "expandMacros proto ?ex = Inr (Seq (map (pair_leaf rest (length R)) (enumerate 0 R)))"
    using name_pair [of ?m proto None annots] assms(1) R(1) f
    by (simp add: expandPair_def assertArgs_def)
  moreover have "execs (map (pair_leaf rest (length R)) (enumerate 0 R)) (leaves ?t @ s) = Inr (built ?t # s)"
  proof -
    have "map (\<lambda>x. fst (snd x)) (enumerate 0 R) = map fst R"
      by (metis (mono_tags) comp_apply list.map_comp map_eq_conv map_snd_enumerate)
    then show ?thesis
      using execs_depths [of "enumerate 0 R" "pair_leaf rest (length R)" "\<lambda>x. fst (snd x)" pair_op] runs_pair [of ?t s]
      by (simp add: exec_pair_leaf R(2) del: pairs.depths.simps leaves.simps built.simps)
  qed
  ultimately show ?thesis by simp
qed

lemma pair_expansion:
  assumes "3 \<le> length (leaves t)"
  shows "\<exists>code. expandMacros proto (Prim (pair_macro t) None annots) = Inr code
    \<and> exec code (leaves t @ s) = Inr (built t # s)"
proof -
  obtain l r where t: "t = VNode l r" using assms by (cases t) auto
  show ?thesis
    using pair_expansion_rest [of l r "[]" proto annots s] pair_letters_shape [OF assms] by (simp add: pair_macro_def t)
qed

lemma unpair_expansion:
  assumes "3 \<le> length (leaves t)"
  shows "\<exists>code. expandMacros proto (Prim (unpair_macro t) None annots) = Inr code
    \<and> exec code (built t # s) = Inr (leaves t @ s)"
proof -
  obtain l r where t: "t = VNode l r" using assms by (cases t) auto
  let ?prim = "''UNP'' @ pair_letters t @ ''R''"
  let ?ex = "Prim ?prim None annots"
  have parse: "\<exists>R an. parsePairUnpairExpr ?ex (pair_letters t @ ''R'') ann unpair_agg
      = Inr (R, length (pair_letters t), an) \<and> map fst R = unpairs.depths t" for ann
    using unpairs.parse_tree unfolding t by blast
  have shape: "2 \<le> length (pair_letters t)" "set (pair_letters t) \<subseteq> set ''PAI''"
    using pair_letters_shape [OF assms] by auto
  have "?prim \<noteq> ''UNPAIR''" using pair_letters_shape(1) [OF assms] by auto
  then have e: "expandMacros proto ?ex = (if ProtoInferiorTo (chosen proto) PtEdo2Zk then
        bindR (parsePairUnpairExpr ?ex (pair_letters t @ ''R'') (case annots of Some a \<Rightarrow> a | None \<Rightarrow> []) unpair_agg)
          (\<lambda>(r, _, _). Inr (Seq (map unpair_leaf r)))
      else bindR (parsePairUnpairExpr ?ex (pair_letters t @ ''R'') [] unpair_agg)
          (\<lambda>(r, _, _). Inr (Seq (map (\<lambda>(v, _). at_depth v (prim0 ''UNPAIR'')) r))))"
    using name_unpair [OF shape, of proto None annots] by (simp add: expandUnpair_def assertArgs_def)
  show ?thesis
  proof (cases "ProtoInferiorTo (chosen proto) PtEdo2Zk")
    case True
    obtain R an where R: "parsePairUnpairExpr ?ex (pair_letters t @ ''R'') (case annots of Some a \<Rightarrow> a | None \<Rightarrow> []) unpair_agg
      = Inr (R, length (pair_letters t), an)" "map fst R = unpairs.depths t" using parse by blast
    have "execs (map unpair_leaf R) (built t # s) = Inr (leaves t @ s)"
      using execs_depths [of R unpair_leaf fst unpair_op] by (simp add: exec_unpair_leaf R(2) runs_unpair)
    then show ?thesis using True R e by (simp add: unpair_macro_def)
  next
    case False
    obtain R an where R: "parsePairUnpairExpr ?ex (pair_letters t @ ''R'') [] unpair_agg
      = Inr (R, length (pair_letters t), an)" "map fst R = unpairs.depths t" using parse by blast
    have "execs (map (\<lambda>(v, _). at_depth v (prim0 ''UNPAIR'')) R) (built t # s) = Inr (leaves t @ s)"
      using execs_depths [of R "\<lambda>(v, _). at_depth v (prim0 ''UNPAIR'')" fst unpair_op]
      by (simp add: exec_unpair_at R(2) runs_unpair)
    then show ?thesis using False R e by (simp add: unpair_macro_def)
  qed
qed

section \<open>Access paths\<close>

text \<open>The component at a path, and the value with that component replaced by \<open>f\<close> of it.\<close>

fun select :: "string \<Rightarrow> sval \<Rightarrow> sval option" where
  "select [] v = Some v"
| "select (c # cs) (PairV a b) = (if c = CHR ''A'' then select cs a else select cs b)"
| "select (c # cs) v = None"

fun modify :: "(sval \<Rightarrow> fault + sval) \<Rightarrow> string \<Rightarrow> sval \<Rightarrow> fault + sval" where
  "modify f [] v = f v"
| "modify f (c # cs) (PairV a b) =
     (if c = CHR ''A'' then bindR (modify f cs a) (\<lambda>a'. Inr (PairV a' b))
      else bindR (modify f cs b) (\<lambda>b'. Inr (PairV a b')))"
| "modify f (c # cs) v = Inl IllTyped"

lemma slice_word: "drop (length pre) (take (length (pre @ m @ [c]) - 1) (pre @ m @ [c])) = m"
  by simp

lemma cadr_code:
  assumes "set m \<subseteq> set ''AD''"
  shows "\<exists>xs. mapR (\<lambda>(i, c).
           let ann = (if i = k then annots else None) in
           if c = CHR ''A'' then Inr (Prim ''CAR'' None ann)
           else if c = CHR ''D'' then Inr (Prim ''CDR'' None ann)
           else Inl (MacroError ex (UnexpectedChar c))) (enumerate j m) = Inr xs
     \<and> (\<forall>v s. execs xs (v # s) = (case select m v of Some w \<Rightarrow> Inr (w # s) | None \<Rightarrow> Inl IllTyped))"
  using assms
proof (induction m arbitrary: j)
  case (Cons c m)
  from Cons.IH [of "Suc j"] Cons.prems obtain xs where xs: "mapR (\<lambda>(i, c).
           let ann = (if i = k then annots else None) in
           if c = CHR ''A'' then Inr (Prim ''CAR'' None ann)
           else if c = CHR ''D'' then Inr (Prim ''CDR'' None ann)
           else Inl (MacroError ex (UnexpectedChar c))) (enumerate (Suc j) m) = Inr xs"
     "\<And>v s. execs xs (v # s) = (case select m v of Some w \<Rightarrow> Inr (w # s) | None \<Rightarrow> Inl IllTyped)" by auto
  have "exec (Prim ''CAR'' None an) (v # s) = (case v of PairV a b \<Rightarrow> Inr (a # s) | _ \<Rightarrow> Inl IllTyped)"
    "exec (Prim ''CDR'' None an) (v # s) = (case v of PairV a b \<Rightarrow> Inr (b # s) | _ \<Rightarrow> Inl IllTyped)" for v an s
    by (cases v; simp)+
  then show ?case using xs Cons.prems by (auto simp: Let_def split: sval.split)
qed simp

lemma cadr_expansion:
  assumes "2 \<le> length m" "set m \<subseteq> set ''AD''"
  shows "\<exists>code. expandMacros proto (Prim (''C'' @ m @ ''R'') None annots) = Inr code
    \<and> exec code (v # s) = (case select m v of Some w \<Rightarrow> Inr (w # s) | None \<Rightarrow> Inl IllTyped)"
proof -
  let ?ex = "Prim (CHR ''C'' # m @ ''R'') None annots"
  obtain xs where "mapR (\<lambda>(i, c).
           let ann = (if i = length m - 1 then annots else None) in
           if c = CHR ''A'' then Inr (Prim ''CAR'' None ann)
           else if c = CHR ''D'' then Inr (Prim ''CDR'' None ann)
           else Inl (MacroError ?ex (UnexpectedChar c))) (enumerate 0 m) = Inr xs"
    "execs xs (v # s) = (case select m v of Some w \<Rightarrow> Inr (w # s) | None \<Rightarrow> Inl IllTyped)"
    using cadr_code [OF assms(2), of "length m - 1" annots ?ex 0] by auto
  then have "expandMacros proto ?ex = Inr (Seq xs)"
    using name_cadr [OF assms, of proto None annots] by (simp add: expandCadr_def assertArgs_def Let_def)
  then show ?thesis
    using \<open>execs xs (v # s) = _\<close> by simp
qed

text \<open>
  The recursion that \<open>SET_C[AD]+R\<close> and \<open>MAP_C[AD]+R\<close> share: the two terms treat the last
  letter, with \<open>xs\<close> below the value.
\<close>

definition term_ok :: "(sval \<Rightarrow> fault + sval) \<Rightarrow> sval list \<Rightarrow> expr \<times> expr \<Rightarrow> bool" where
  "term_ok f xs t \<longleftrightarrow>
     (\<forall>v s. exec (fst t) (v # xs @ s) = bindR (modify f ''A'' v) (\<lambda>w. Inr (w # s))) \<and>
     (\<forall>v s. exec (snd t) (v # xs @ s) = bindR (modify f ''D'' v) (\<lambda>w. Inr (w # s)))"

lemma term_okD:
  assumes "term_ok f xs t"
  shows "exec (fst t) (v # xs @ s) = bindR (modify f ''A'' v) (\<lambda>w. Inr (w # s))"
    "exec (snd t) (v # xs @ s) = bindR (modify f ''D'' v) (\<lambda>w. Inr (w # s))"
  using assms by (simp_all add: term_ok_def)

lemma set_map_path:
  assumes "m \<noteq> []" "set m \<subseteq> set ''AD''" "term_ok f xs t"
  shows "\<exists>code. parseSetMapCadr p m vann t = Inr code
    \<and> (\<forall>v s. exec code (v # xs @ s) = bindR (modify f m v) (\<lambda>w. Inr (w # s)))"
  using assms(1,2)
proof (induction m arbitrary: vann)
  case (Cons c m)
  have c: "c = CHR ''A'' \<or> c = CHR ''D''" using Cons.prems by auto
  show ?case
  proof (cases "m = []")
    case True
    then show ?thesis using c term_okD [OF assms(3)] by auto
  next
    case False
    then obtain body where b: "parseSetMapCadr p m [] t = Inr body"
      "\<And>v s. exec body (v # xs @ s) = bindR (modify f m v) (\<lambda>w. Inr (w # s))"
      using Cons.IH [of "[]"] Cons.prems(2) by auto
    have A: "exec (Seq [prim0 ''DUP'', Prim ''DIP'' (Some [Seq [Prim ''CAR'' None (Some [''@%%'']), body]]) None,
        Prim ''CDR'' None (Some [''@%%'']), prim0 ''SWAP'', Prim ''PAIR'' None (Some ([''%@'', ''%@''] @ vann))])
          (v # xs @ s) = bindR (modify f (CHR ''A'' # m) v) (\<lambda>w. Inr (w # s))" for v s
      by (cases v) (simp_all add: prim0_def b(2) bindR_assoc)
    have D: "exec (Seq [prim0 ''DUP'', Prim ''DIP'' (Some [Seq [Prim ''CDR'' None (Some [''@%%'']), body]]) None,
        Prim ''CAR'' None (Some [''@%%'']), Prim ''PAIR'' None (Some ([''%@'', ''%@''] @ vann))])
          (v # xs @ s) = bindR (modify f (CHR ''D'' # m) v) (\<lambda>w. Inr (w # s))" for v s
      by (cases v) (simp_all add: prim0_def b(2) bindR_assoc)
    show ?thesis
    proof (cases "c = CHR ''A''")
      case True
      then show ?thesis using False A b(1) by (simp only: parseSetMapCadr.simps) auto
    next
      case c_not_A: False
      then have "c = CHR ''D''" using c by simp
      then show ?thesis using False D b(1) by (simp only: parseSetMapCadr.simps) auto
    qed
  qed
qed simp

lemma set_term_ok: "term_ok (\<lambda>_. Inr x) [x] (set_term flds)"
  unfolding term_ok_def
proof (intro conjI allI)
  fix v s
  show "exec (fst (set_term flds)) (v # [x] @ s) = bindR (modify (\<lambda>_. Inr x) ''A'' v) (\<lambda>w. Inr (w # s))"
    by (cases v; cases flds) (simp_all add: set_term_def prim0_def)
  show "exec (snd (set_term flds)) (v # [x] @ s) = bindR (modify (\<lambda>_. Inr x) ''D'' v) (\<lambda>w. Inr (w # s))"
    by (cases v; cases flds) (simp_all add: set_term_def prim0_def)
qed

lemma map_term_ok:
  assumes "\<And>v s. exec code (v # s) = bindR (f v) (\<lambda>w. Inr (w # s))"
  shows "term_ok f [] (map_term flds code)"
  unfolding term_ok_def
proof (intro conjI allI)
  fix v s
  show "exec (fst (map_term flds code)) (v # [] @ s) = bindR (modify f ''A'' v) (\<lambda>w. Inr (w # s))"
    by (cases v; cases flds) (simp_all add: map_term_def Let_def prim0_def assms bindR_assoc)
  show "exec (snd (map_term flds code)) (v # [] @ s) = bindR (modify f ''D'' v) (\<lambda>w. Inr (w # s))"
    by (cases v; cases flds) (simp_all add: map_term_def Let_def prim0_def assms bindR_assoc)
qed

definition one_field :: "string list option \<Rightarrow> bool" where
  "one_field annots \<longleftrightarrow> length (fst (filterAnnotations annots)) \<le> 1"

lemma set_cadr_expansion:
  assumes "1 \<le> length m" "set m \<subseteq> set ''AD''" "one_field annots"
  shows "\<exists>code. expandMacros proto (Prim (''SET_C'' @ m @ ''R'') None annots) = Inr code
    \<and> (\<forall>v x s. exec code (v # x # s) = bindR (modify (\<lambda>_. Inr x) m v) (\<lambda>w. Inr (w # s)))"
proof -
  let ?ex = "Prim (''SET_C'' @ m @ ''R'') None annots"
  obtain flds rest where f: "filterAnnotations annots = (flds, rest)" by (cases "filterAnnotations annots")
  have e: "expandMacros proto ?ex = parseSetMapCadr ?ex m rest (set_term flds)"
    using name_set_cadr [OF assms(1,2), of proto None annots] assms(3)
    by (simp add: expandSetCadr_def assertArgs_def f one_field_def)
  have ne: "m \<noteq> []" using assms(1) by auto
  note path = set_map_path [OF ne assms(2) set_term_ok, where p = ?ex and vann = rest and flds1 = flds]
  obtain code where code: "parseSetMapCadr ?ex m rest (set_term flds) = Inr code" using path by blast
  have "exec code (v # x # s) = bindR (modify (\<lambda>_. Inr x) m v) (\<lambda>w. Inr (w # s))" for v x s
    using path [of x] code by simp
  then show ?thesis unfolding e using code by blast
qed

lemma map_cadr_expansion:
  assumes "1 \<le> length m" "set m \<subseteq> set ''AD''" "one_field annots"
    and "\<And>v s. exec body (v # s) = bindR (f v) (\<lambda>w. Inr (w # s))"
  shows "\<exists>code. expandMacros proto (Prim (''MAP_C'' @ m @ ''R'') (Some [body]) annots) = Inr code
    \<and> (\<forall>v s. exec code (v # s) = bindR (modify f m v) (\<lambda>w. Inr (w # s)))"
proof -
  let ?ex = "Prim (''MAP_C'' @ m @ ''R'') (Some [body]) annots"
  obtain flds rest where f: "filterAnnotations annots = (flds, rest)" by (cases "filterAnnotations annots")
  have e: "expandMacros proto ?ex = parseSetMapCadr ?ex m [] (map_term flds body)"
    using name_map_cadr [OF assms(1,2), of proto "Some [body]" annots] assms(3)
    by (simp add: expandMapCadr_def assertArgs_def f one_field_def)
  have "m \<noteq> []" using assms(1) by auto
  from set_map_path [OF this assms(2) map_term_ok [of body f flds, OF assms(4)], of ?ex "[]"]
  show ?thesis unfolding e by simp
qed

section \<open>Comparisons and assertions\<close>

definition holds :: "string \<Rightarrow> int \<Rightarrow> int \<Rightarrow> bool" where
  "holds r a b \<longleftrightarrow> cmp_rel r (a - b) = Some True"

lemma rel_step:
  assumes "r \<in> set cmp_ops"
  shows "exec (prim0 r) (IntV i # s) = Inr (BoolV (holds r i 0) # s)"
    "exec (Prim r None an) (IntV i # s) = Inr (BoolV (holds r i 0) # s)"
    "holds r (sgn (a - b)) 0 = holds r a b"
  using assms by (auto simp: cmp_ops_def prim0_def exec0_def cmp_rel_def holds_def sgn_if)

lemma label_word: "r \<in> set cmp_ops \<Longrightarrow> p @ r \<in> set (labels q) \<longleftrightarrow> (\<exists>r'\<in>set cmp_ops. p @ r = q @ r')"
  by (auto simp: labels_def)

lemma fail_code_exec [simp]: "exec fail_code s = Inl (FailedWith UnitV)"
  by (simp add: fail_code_def prim0_def)

lemma mayRename_exec [simp]: "exec (mayRename annots) s = Inr s" "\<exists>xs. mayRename annots = Seq xs \<and> execs xs = Inr"
proof -
  show "\<exists>xs. mayRename annots = Seq xs \<and> execs xs = Inr"
    by (cases annots) (auto simp: mayRename_def)
  then show "exec (mayRename annots) s = Inr s" by auto
qed

lemma branch_steps [simp]:
  "branch_op ''IF'' f g (BoolV b # s) = (if b then f s else g s)"
  "branch_op ''IF_NONE'' f g (NoneV # s) = f s" "branch_op ''IF_NONE'' f g (SomeV v # s) = g (v # s)"
  "branch_op ''IF_LEFT'' f g (LeftV v # s) = f (v # s)" "branch_op ''IF_LEFT'' f g (RightV v # s) = g (v # s)"
  by (simp_all add: branch_op_def)

lemma expand_switch:
  "expandSwitch (Prim p args annots) p args annots = Inr (Some e) \<Longrightarrow> expandMacros proto (Prim p args annots) = Inr e"
  by (simp add: expandPrim_def)

lemma cmp_expansions:
  assumes "r \<in> set cmp_ops"
  shows "expandMacros proto (Prim (''CMP'' @ r) None annots) = Inr (Seq [prim0 ''COMPARE'', Prim r None annots])"
    "expandMacros proto (Prim (''IF'' @ r) (Some [x, y]) annots) = Inr (Seq [prim0 r, Prim ''IF'' (Some [x, y]) annots])"
    "expandMacros proto (Prim (''IFCMP'' @ r) (Some [x, y]) annots)
       = Inr (Seq [prim0 ''COMPARE'', prim0 r, Prim ''IF'' (Some [x, y]) annots])"
    "expandMacros proto (Prim (''ASSERT_'' @ r) None None)
       = Inr (Seq [prim0 r, IF2 ''IF'' (Seq []) (Seq [fail_code])])"
    "expandMacros proto (Prim (''ASSERT_CMP'' @ r) None None)
       = Inr (Seq [Seq [prim0 ''COMPARE'', prim0 r], IF2 ''IF'' (Seq []) (Seq [fail_code])])"
proof -
  have r: "r = ''EQ'' \<or> r = ''NEQ'' \<or> r = ''LT'' \<or> r = ''GT'' \<or> r = ''LE'' \<or> r = ''GE''"
    using assms by (auto simp: cmp_ops_def)
  show "expandMacros proto (Prim (''CMP'' @ r) None annots) = Inr (Seq [prim0 ''COMPARE'', Prim r None annots])"
    using r by (intro expand_switch) (elim disjE; simp add: expandSwitch_def labels_def cmp_ops_def assertArgs_def)
  show "expandMacros proto (Prim (''IF'' @ r) (Some [x, y]) annots) = Inr (Seq [prim0 r, Prim ''IF'' (Some [x, y]) annots])"
    using r by (intro expand_switch) (elim disjE; simp add: expandSwitch_def labels_def cmp_ops_def assertArgs_def)
  show "expandMacros proto (Prim (''IFCMP'' @ r) (Some [x, y]) annots)
       = Inr (Seq [prim0 ''COMPARE'', prim0 r, Prim ''IF'' (Some [x, y]) annots])"
    using r by (intro expand_switch) (elim disjE; simp add: expandSwitch_def labels_def cmp_ops_def assertArgs_def)
  show "expandMacros proto (Prim (''ASSERT_'' @ r) None None)
       = Inr (Seq [prim0 r, IF2 ''IF'' (Seq []) (Seq [fail_code])])"
    using r by (intro expand_switch)
      (elim disjE; simp add: expandSwitch_def labels_def cmp_ops_def assertArgs_def assertNoAnnots_def)
  show "expandMacros proto (Prim (''ASSERT_CMP'' @ r) None None)
       = Inr (Seq [Seq [prim0 ''COMPARE'', prim0 r], IF2 ''IF'' (Seq []) (Seq [fail_code])])"
    using r by (intro expand_switch)
      (elim disjE; simp add: expandSwitch_def labels_def cmp_ops_def assertArgs_def assertNoAnnots_def)
qed

text \<open>What an expansion does to a stack; a macro without an expansion does nothing.\<close>

definition macro_run :: "Protocol option \<Rightarrow> expr \<Rightarrow> sval list \<Rightarrow> outcome option" where
  "macro_run proto ex s = (case expandMacros proto ex of Inr code \<Rightarrow> Some (exec code s) | Inl _ \<Rightarrow> None)"

lemma macro_run_Inr: "expandMacros proto ex = Inr code \<Longrightarrow> macro_run proto ex s = Some (exec code s)"
  by (simp add: macro_run_def)

lemma cmp_runs:
  assumes "r \<in> set cmp_ops"
  shows "macro_run proto (Prim (''CMP'' @ r) None annots) (IntV a # IntV b # s)
      = Some (Inr (BoolV (holds r a b) # s))"
    "macro_run proto (Prim (''IF'' @ r) (Some [Seq x, Seq y]) annots) (IntV a # s)
      = Some (if holds r a 0 then execs x s else execs y s)"
    "macro_run proto (Prim (''IFCMP'' @ r) (Some [Seq x, Seq y]) annots) (IntV a # IntV b # s)
      = Some (if holds r a b then execs x s else execs y s)"
    "macro_run proto (Prim (''ASSERT_'' @ r) None None) (IntV a # s)
      = Some (if holds r a 0 then Inr s else Inl (FailedWith UnitV))"
    "macro_run proto (Prim (''ASSERT_CMP'' @ r) None None) (IntV a # IntV b # s)
      = Some (if holds r a b then Inr s else Inl (FailedWith UnitV))"
  unfolding cmp_expansions [OF assms, THEN macro_run_Inr]
  using rel_step [OF assms] by (simp_all add: IF2_def prim0_def [of "''COMPARE''"])

lemma assert_expansions:
  "expandMacros proto (Prim ''FAIL'' None None) = Inr fail_code"
  "expandMacros proto (Prim ''ASSERT'' None None) = Inr (Seq [IF2 ''IF'' (Seq []) (Seq [fail_code])])"
  "expandMacros proto (Prim ''ASSERT_NONE'' None None) = Inr (Seq [IF2 ''IF_NONE'' (Seq []) (Seq [fail_code])])"
  "expandMacros proto (Prim ''ASSERT_SOME'' None annots)
     = Inr (Seq [IF2 ''IF_NONE'' (Seq [fail_code]) (mayRename annots)])"
  "expandMacros proto (Prim ''ASSERT_LEFT'' None annots)
     = Inr (Seq [IF2 ''IF_LEFT'' (mayRename annots) (Seq [fail_code])])"
  "expandMacros proto (Prim ''ASSERT_RIGHT'' None annots)
     = Inr (Seq [IF2 ''IF_LEFT'' (Seq [fail_code]) (mayRename annots)])"
  "expandMacros proto (Prim ''IF_SOME'' (Some [x, y]) annots) = Inr (Seq [Prim ''IF_NONE'' (Some [y, x]) annots])"
  "expandMacros proto (Prim ''IF_RIGHT'' (Some [x, y]) annots) = Inr (Seq [Prim ''IF_LEFT'' (Some [y, x]) annots])"
  by (rule expand_switch; simp add: expandSwitch_def labels_def cmp_ops_def assertArgs_def assertNoAnnots_def)+

lemma assert_runs:
  "macro_run proto (Prim ''FAIL'' None None) s = Some (Inl (FailedWith UnitV))"
  "macro_run proto (Prim ''ASSERT'' None None) (BoolV c # s) = Some (if c then Inr s else Inl (FailedWith UnitV))"
  "macro_run proto (Prim ''ASSERT_NONE'' None None) (NoneV # s) = Some (Inr s)"
  "macro_run proto (Prim ''ASSERT_NONE'' None None) (SomeV v # s) = Some (Inl (FailedWith UnitV))"
  by (simp_all add: assert_expansions [THEN macro_run_Inr] IF2_def)

lemma assert_rename_runs:
  "macro_run proto (Prim ''ASSERT_SOME'' None annots) (SomeV v # s) = Some (Inr (v # s))"
  "macro_run proto (Prim ''ASSERT_SOME'' None annots) (NoneV # s) = Some (Inl (FailedWith UnitV))"
  "macro_run proto (Prim ''ASSERT_LEFT'' None annots) (LeftV v # s) = Some (Inr (v # s))"
  "macro_run proto (Prim ''ASSERT_LEFT'' None annots) (RightV v # s) = Some (Inl (FailedWith UnitV))"
  "macro_run proto (Prim ''ASSERT_RIGHT'' None annots) (RightV v # s) = Some (Inr (v # s))"
  "macro_run proto (Prim ''ASSERT_RIGHT'' None annots) (LeftV v # s) = Some (Inl (FailedWith UnitV))"
proof -
  obtain xs where "mayRename annots = Seq xs" "execs xs = Inr" using mayRename_exec(2) by blast
  then show "macro_run proto (Prim ''ASSERT_SOME'' None annots) (SomeV v # s) = Some (Inr (v # s))"
    "macro_run proto (Prim ''ASSERT_SOME'' None annots) (NoneV # s) = Some (Inl (FailedWith UnitV))"
    "macro_run proto (Prim ''ASSERT_LEFT'' None annots) (LeftV v # s) = Some (Inr (v # s))"
    "macro_run proto (Prim ''ASSERT_LEFT'' None annots) (RightV v # s) = Some (Inl (FailedWith UnitV))"
    "macro_run proto (Prim ''ASSERT_RIGHT'' None annots) (RightV v # s) = Some (Inr (v # s))"
    "macro_run proto (Prim ''ASSERT_RIGHT'' None annots) (LeftV v # s) = Some (Inl (FailedWith UnitV))"
    by (simp_all add: assert_expansions [THEN macro_run_Inr] IF2_def)
qed

lemma if_runs:
  "macro_run proto (Prim ''IF_SOME'' (Some [Seq x, Seq y]) annots) (SomeV v # s) = Some (execs x (v # s))"
  "macro_run proto (Prim ''IF_SOME'' (Some [Seq x, Seq y]) annots) (NoneV # s) = Some (execs y s)"
  "macro_run proto (Prim ''IF_RIGHT'' (Some [Seq x, Seq y]) annots) (RightV v # s) = Some (execs x (v # s))"
  "macro_run proto (Prim ''IF_RIGHT'' (Some [Seq x, Seq y]) annots) (LeftV v # s) = Some (execs y (v # s))"
  by (simp_all add: assert_expansions [THEN macro_run_Inr])

section \<open>Repeated letters and numbered components\<close>

lemma dip_dup_dig:
  assumes "2 \<le> n"
  shows "bindR (dip_op (n - 1) (dup_op 1) s) (dig_op n) = dup_op n s"
proof (cases "n \<le> length s")
  case True
  then obtain k where k: "n = Suc k" "k < length s" using assms by (cases n) auto
  have s: "drop k s = s ! k # drop (Suc k) s" using k(2) by (rule Cons_nth_drop_Suc [symmetric])
  let ?t = "take k s @ s ! k # s ! k # drop (Suc k) s"
  have "dip_op k (dup_op 1) s = Inr ?t" using k(2) by (simp add: dip_op_def s dup_op_def)
  moreover have "dig_op (Suc k) ?t = Inr (s ! k # take k s @ s ! k # drop (Suc k) s)"
    using k(2) by (simp add: dig_op_def nth_append)
  ultimately show ?thesis using k(2) s by (simp add: k(1) dup_op_def id_take_nth_drop [of k s, symmetric])
next
  case False
  then have "length s = n - 1 \<or> length s < n - 1" by auto
  then show ?thesis using assms by (auto simp: dip_op_def dup_op_def)
qed

lemma dip_dup_swap: "bindR (dip_op 1 (dup_op 1) s) swap_op = dup_op 2 s"
proof (cases s)
  case (Cons a r)
  then show ?thesis by (cases r) (simp_all add: dup_op_def)
qed (simp add: dip_op_def dup_op_def)

lemma exec_dup_code:
  assumes "2 \<le> n"
  shows "exec (dup_code (Some (int n)) annots) s = dup_op n s"
proof -
  have one: "execs [Prim ''DUP'' None annots] = dup_op 1" by (rule ext) simp
  have num: "execs [Prim ''DIG'' (Some [IntLit (int_to_dec (int n))]) None] = dig_op n" by (rule ext) simp
  have swap: "execs [prim0 ''SWAP''] = swap_op" by (rule ext) (simp add: prim0_def)
  show ?thesis
  proof (cases "n = 2")
    case True
    have "exec (dup_code (Some (int n)) annots) s
        = bindR (dip_op 1 (execs [Prim ''DUP'' None annots]) s) (execs [prim0 ''SWAP''])"
      by (simp add: dup_code_def True)
    then show ?thesis using dip_dup_swap by (simp only: one swap True)
  next
    case False
    have "int n + - 1 = int (n - 1)" using assms by simp
    moreover from this have "numeral_arg (int_to_dec (int n + - 1)) = Some (n - 1)" by (simp only: numeral_arg_nat)
    ultimately have "exec (dup_code (Some (int n)) annots) s
        = bindR (dip_op (n - 1) (execs [Prim ''DUP'' None annots]) s)
            (execs [Prim ''DIG'' (Some [IntLit (int_to_dec (int n))]) None])"
      using assms False by (simp add: dup_code_def Let_def)
    then show ?thesis using dip_dup_dig [OF assms] by (simp only: one num)
  qed
qed

lemma duup_run:
  assumes "2 \<le> n"
  shows "macro_run proto (Prim (''D'' @ replicate n CHR ''U'' @ ''P'') None annots) s = Some (dup_op n s)"
proof -
  let ?p = "''D'' @ replicate n CHR ''U'' @ ''P''"
  have l: "letters CHR ''U'' ?p = n" using letters_replicate [of "CHR ''U''" "CHR ''P''" "CHR ''D''" n] by simp
  have "1 \<le> n" "n \<noteq> 1" using assms by auto
  note name = name_duup [OF this(1), of proto None annots]
  have "expandMacros proto (Prim ?p None annots) =
      Inr (if ProtoInferiorTo (chosen proto) PtEdo2Zk then dup_code (Some (int n)) annots
           else Prim ''DUP'' (Some [IntLit (int_to_dec (int n))]) annots)"
    unfolding name expandDuup_def l Let_def using \<open>n \<noteq> 1\<close> by (simp add: assertArgs_def)
  then show ?thesis using exec_dup_code [OF assms] by (simp add: macro_run_def)
qed

lemma diip_run:
  assumes "2 \<le> n"
  shows "macro_run proto (Prim (''D'' @ replicate n CHR ''I'' @ ''P'') (Some [Seq code]) annots) s
    = Some (dip_op n (execs code) s)"
proof -
  let ?p = "''D'' @ replicate n CHR ''I'' @ ''P''"
  have l: "letters CHR ''I'' ?p = n" using letters_replicate [of "CHR ''I''" "CHR ''P''" "CHR ''D''" n] by simp
  have "expandMacros proto (Prim ?p (Some [Seq code]) annots)
      = Inr (Prim ''DIP'' (Some [IntLit (int_to_dec (int n)), Seq code]) None)"
    unfolding name_diip [OF assms, of proto "Some [Seq code]" annots] expandDiip_def l by (simp add: assertArgs_def)
  then show ?thesis by (simp add: macro_run_def)
qed

lemma get_op_even: "get_op (2 * n) v = select (replicate n CHR ''D'') v"
proof (induction n arbitrary: v)
  case (Suc n)
  then show ?case by (cases v) simp_all
qed simp

lemma get_op_odd: "get_op (2 * n + 1) v = select (replicate n CHR ''D'' @ ''A'') v"
proof (induction n arbitrary: v)
  case 0
  show ?case by (cases v) simp_all
next
  case (Suc n)
  then show ?case by (cases v) simp_all
qed

lemma car_cdr_expansions:
  "expandMacros proto (Prim ''CAR'' (Some [IntLit i]) annots)
     = Inr (Prim ''GET'' (Some [IntLit (parsed_text (\<lambda>n. n * 2 + 1) i)]) annots)"
  "expandMacros proto (Prim ''CDR'' (Some [IntLit i]) annots)
     = Inr (Prim ''GET'' (Some [IntLit (parsed_text (\<lambda>n. n * 2) i)]) annots)"
  by (rule expand_switch; simp add: expandSwitch_def labels_def cmp_ops_def assertArgs_def parsed_text_def)+

lemma parsed_numeral: "js_parseInt 10 i = Some (int n) \<Longrightarrow> f (int n) = int m \<Longrightarrow> numeral_arg (parsed_text f i) = Some m"
  by (simp add: parsed_text_def)

lemma car_cdr_runs:
  assumes "js_parseInt 10 i = Some (int n)"
  shows "macro_run proto (Prim ''CAR'' (Some [IntLit i]) annots) (v # s)
      = Some (case select (replicate n CHR ''D'' @ ''A'') v of Some w \<Rightarrow> Inr (w # s) | None \<Rightarrow> Inl IllTyped)"
    "macro_run proto (Prim ''CDR'' (Some [IntLit i]) annots) (v # s)
      = Some (case select (replicate n CHR ''D'') v of Some w \<Rightarrow> Inr (w # s) | None \<Rightarrow> Inl IllTyped)"
proof -
  have "numeral_arg (parsed_text (\<lambda>n. n * 2 + 1) i) = Some (2 * n + 1)"
    "numeral_arg (parsed_text (\<lambda>n. n * 2) i) = Some (2 * n)"
    by (rule parsed_numeral [OF assms]; simp)+
  then show "macro_run proto (Prim ''CAR'' (Some [IntLit i]) annots) (v # s)
      = Some (case select (replicate n CHR ''D'' @ ''A'') v of Some w \<Rightarrow> Inr (w # s) | None \<Rightarrow> Inl IllTyped)"
    "macro_run proto (Prim ''CDR'' (Some [IntLit i]) annots) (v # s)
      = Some (case select (replicate n CHR ''D'') v of Some w \<Rightarrow> Inr (w # s) | None \<Rightarrow> Inl IllTyped)"
    unfolding car_cdr_expansions [THEN macro_run_Inr] get_op_even [symmetric] get_op_odd [symmetric]
    by (simp_all add: exec_num_def)
qed

end
