(* ===== verification/Scanner.thy ===== *)
theory Scanner
  imports Micheline
begin

text \<open>
  The scanner of the Micheline concrete syntax (\<open>scan.ts\<close>).  The generator is a function from
  the rest of the text to the next token and what follows it; an error is raised when the
  scanner reaches it.  The positions \<open>first\<close> and \<open>last\<close>, which only feed error reports and
  source references, are left out.  JSON string literals, which the parser and the emitter
  take from the JavaScript library, are at the end.
\<close>

section \<open>Characters\<close>

definition isIdentStart :: "char \<Rightarrow> bool" where
  "isIdentStart c = (let n = of_char c :: nat in
     c \<in> set '':@%_'' \<or> (65 \<le> n \<and> n \<le> 90) \<or> (97 \<le> n \<and> n \<le> 122))"

definition isIdent :: "char \<Rightarrow> bool" where
  "isIdent c = (let n = of_char c :: nat in
     c \<in> set ''@%_.'' \<or> (65 \<le> n \<and> n \<le> 90) \<or> (97 \<le> n \<and> n \<le> 122) \<or> (48 \<le> n \<and> n \<le> 57))"

text \<open>The white space of \<open>\s\<close> at the front of a UTF-8 text: how many bytes it takes.\<close>

definition wide_space :: "nat list \<Rightarrow> bool" where
  "wide_space bs \<longleftrightarrow> bs \<in> set [[225, 154, 128], [226, 128, 168], [226, 128, 169], [226, 128, 175],
     [226, 129, 159], [227, 128, 128], [239, 187, 191]]
     \<or> (take 2 bs = [226, 128] \<and> length bs = 3 \<and> 128 \<le> last bs \<and> last bs \<le> 138)"

definition space_len :: "string \<Rightarrow> nat" where
  "space_len s =
     (if s = [] then 0
      else if is_space (hd s) then 1
      else if map of_char (take 2 s) = [194 :: nat, 160] then 2
      else if wide_space (map of_char (take 3 s)) then 3 else 0)"

lemma space_len_Nil [simp]: "space_len [] = 0"
  by (simp add: space_len_def)

function skipSpace :: "string \<Rightarrow> string" where
  "skipSpace s = (if space_len s = 0 then s else skipSpace (drop (space_len s) s))"
  by pat_completeness auto
termination
proof (relation "measure length", simp)
  fix s assume "space_len s \<noteq> 0"
  then show "(drop (space_len s) s, s) \<in> measure length" by (cases s) simp_all
qed

declare skipSpace.simps [simp del]

section \<open>Tokens\<close>

datatype (plugins only: size code) token =
    Punct char | Comment string | Number string | StringTok string | Bytes string | Ident string

text \<open>The message of a \<open>ScanError\<close>, in short.\<close>

datatype (plugins only: size code) scan_error =
    OddBytes | ShortNumber | OpenString | OpenComment | InvalidCharacter char

text \<open>A string literal behind its opening quote: its text with the closing quote, and the rest.\<close>

fun string_end :: "bool \<Rightarrow> string \<Rightarrow> (string \<times> string) option" where
  "string_end esc [] = None"
| "string_end esc (c # cs) =
     (if \<not> esc \<and> c = CHR 0x22 then Some ([c], cs)
      else map_option (\<lambda>(v, r). (c # v, r)) (string_end (\<not> esc \<and> c = CHR 0x5C) cs))"

text \<open>A C style comment behind its opening.\<close>

fun comment_end :: "string \<Rightarrow> (string \<times> string) option" where
  "comment_end [] = None"
| "comment_end (c # cs) =
     (if c = CHR ''*'' \<and> cs \<noteq> [] \<and> hd cs = CHR ''/'' then Some (''*/'', tl cs)
      else map_option (\<lambda>(v, r). (c # v, r)) (comment_end cs))"

text \<open>The token at the front of a text that does not start with white space.\<close>

definition scan_token :: "string \<Rightarrow> scan_error + (token \<times> string)" where
  "scan_token s =
     (let c = hd s in
      if isIdentStart c then Inr (Ident (c # takeWhile isIdent (tl s)), dropWhile isIdent (tl s))
      else if take 2 s = ''0x'' then
        (let ds = takeWhile is_hex (drop 2 s) in
         if odd (length ds) then Inl OddBytes
         else Inr (Bytes (''0x'' @ ds), dropWhile is_hex (drop 2 s)))
      else if is_digit c \<or> c = CHR ''-'' then
        (let sg = (if c = CHR ''-'' then [c] else []); r = drop (length sg) s; ds = takeWhile is_digit r in
         if ds = [] then Inl ShortNumber else Inr (Number (sg @ ds), dropWhile is_digit r))
      else if c = CHR 0x22 then
        (case string_end False (tl s) of
           None \<Rightarrow> Inl OpenString
         | Some (v, r) \<Rightarrow> Inr (StringTok (c # v), r))
      else if c = CHR ''#'' then
        Inr (Comment (c # takeWhile (\<lambda>x. x \<noteq> CHR 0x0A) (tl s)), dropWhile (\<lambda>x. x \<noteq> CHR 0x0A) (tl s))
      else if take 2 s = ''/*'' then
        (case comment_end (drop 2 s) of
           None \<Rightarrow> Inl OpenComment
         | Some (v, r) \<Rightarrow> Inr (Comment (''/*'' @ v), r))
      else if c \<in> set ''(){};'' then Inr (Punct c, tl s)
      else Inl (InvalidCharacter c))"

lemma skipSpace_length: "length (skipSpace s) \<le> length s"
  by (induction s rule: skipSpace.induct) (subst skipSpace.simps, auto)

lemma string_end_length: "string_end esc s = Some (v, r) \<Longrightarrow> length r < length s"
  by (induction esc s arbitrary: v rule: string_end.induct) (auto split: if_splits)

lemma comment_end_length: "comment_end s = Some (v, r) \<Longrightarrow> length r < length s"
  by (induction s arbitrary: v rule: comment_end.induct) (auto split: if_splits)

lemma dropWhile_length: "length (dropWhile P xs) \<le> length xs"
  by (induction xs) auto

lemma scan_token_length:
  assumes "scan_token s = Inr (t, r)" "s \<noteq> []"
  shows "length r < length s"
proof -
  obtain c cs where s: "s = c # cs" using assms(2) by (cases s) auto
  have d: "length (dropWhile P cs) \<le> length cs" "length (dropWhile P (tl cs)) \<le> length cs" for P
    using dropWhile_length [of P cs] dropWhile_length [of P "tl cs"] by auto
  have e: "comment_end (tl cs) = Some (v, r') \<Longrightarrow> length r' \<le> length cs" for v r'
    using comment_end_length [of "tl cs"] by fastforce
  show ?thesis using assms(1) d e string_end_length [of False cs]
    by (auto simp: scan_token_def s Let_def drop_Suc le_imp_less_Suc less_SucI split: if_splits option.splits)
qed

text \<open>\<open>scanner.next()\<close>: \<open>None\<close> when the text is exhausted.\<close>

function scan :: "bool \<Rightarrow> string \<Rightarrow> scan_error + (token \<times> string) option" where
  "scan scanComments src =
     (let s = skipSpace src in
      if s = [] then Inr None
      else bindR (scan_token s) (\<lambda>(t, r).
        case t of
          Comment _ \<Rightarrow> if scanComments then Inr (Some (t, r)) else scan scanComments r
        | _ \<Rightarrow> Inr (Some (t, r))))"
  by pat_completeness auto
termination
proof (relation "measure (\<lambda>(b, s). length s)", simp)
  fix scanComments src x y v t a
  show "x = skipSpace src \<Longrightarrow> x \<noteq> [] \<Longrightarrow> scan_token x = Inr y \<Longrightarrow> (v, t) = y \<Longrightarrow> v = Comment a
    \<Longrightarrow> \<not> scanComments \<Longrightarrow> ((scanComments, t), scanComments, src) \<in> measure (\<lambda>(b, s). length s)"
    using scan_token_length [of x v t] skipSpace_length [of src] by auto
qed

declare scan.simps [simp del]

lemma scan_length:
  assumes "scan b s = Inr (Some (t, r))"
  shows "length r < length s"
  using assms
proof (induction b s rule: scan.induct)
  case (1 b src)
  let ?s = "skipSpace src"
  obtain u q where u: "?s \<noteq> []" "scan_token ?s = Inr (u, q)"
    "(case u of Comment _ \<Rightarrow> if b then Inr (Some (u, q)) else scan b q | _ \<Rightarrow> Inr (Some (u, q))) = Inr (Some (t, r))"
    using 1(2) by (subst (asm) scan.simps) (auto simp: Let_def bindR_eq_Inr split: if_splits)
  have q: "length q < length src"
    using scan_token_length [OF u(2,1)] skipSpace_length [of src] by linarith
  show ?case
  proof (cases "\<exists>v. u = Comment v \<and> \<not> b")
    case True
    then obtain v where v: "u = Comment v" "\<not> b" by blast
    then have "scan b q = Inr (Some (t, r))" using u(3) by simp
    then have "length r < length q" using 1(1) [OF refl u(1,2) refl v(1)] v(2) by simp
    then show ?thesis using q by linarith
  next
    case False
    then have "r = q" using u(3) by (cases u) (auto split: if_splits)
    then show ?thesis using q by simp
  qed
qed

section \<open>JSON string literals\<close>

text \<open>
  \<open>JSON.parse\<close> of a string literal, \<open>None\<close> for a syntax error, and \<open>JSON.stringify\<close> of a
  string.  A \<open>\u\<close> escape gives the UTF-8 bytes of its code point; two escapes that form a
  surrogate pair give one code point.
\<close>

definition utf8_char :: "nat \<Rightarrow> string" where
  "utf8_char n = map char_of
     (if n < 128 then [n]
      else if n < 2048 then [192 + n div 64, 128 + n mod 64]
      else if n < 65536 then [224 + n div 4096, 128 + n div 64 mod 64, 128 + n mod 64]
      else [240 + n div 262144, 128 + n div 4096 mod 64, 128 + n div 64 mod 64, 128 + n mod 64])"

definition hex4 :: "string \<Rightarrow> nat option" where
  "hex4 s = (if length s = 4 \<and> list_all is_hex s then Some (of_digits 16 s) else None)"

definition simple_escape :: "char \<Rightarrow> char option" where
  "simple_escape c = map_of [(CHR 0x22, CHR 0x22), (CHR 0x5C, CHR 0x5C), (CHR ''/'', CHR ''/''),
     (CHR ''b'', CHR 0x08), (CHR ''f'', CHR 0x0C), (CHR ''n'', CHR 0x0A), (CHR ''r'', CHR 0x0D),
     (CHR ''t'', CHR 0x09)] c"

function json_body :: "string \<Rightarrow> string option" where
  "json_body s =
     (case s of
        [] \<Rightarrow> Some []
      | c # cs \<Rightarrow>
          if c = CHR 0x5C then
            (case cs of
               [] \<Rightarrow> None
             | e # r \<Rightarrow>
                 if e = CHR ''u'' then
                   (case hex4 (take 4 r) of
                      None \<Rightarrow> None
                    | Some n \<Rightarrow>
                        (case hex4 (take 4 (drop 6 r)) of
                           Some m \<Rightarrow>
                             if take 2 (drop 4 r) = [CHR 0x5C, CHR ''u''] \<and> 55296 \<le> n \<and> n < 56320
                                \<and> 56320 \<le> m \<and> m < 57344
                             then map_option (\<lambda>t. utf8_char (65536 + (n - 55296) * 1024 + (m - 56320)) @ t)
                                    (json_body (drop 10 r))
                             else map_option (\<lambda>t. utf8_char n @ t) (json_body (drop 4 r))
                         | None \<Rightarrow> map_option (\<lambda>t. utf8_char n @ t) (json_body (drop 4 r))))
                 else
                   (case simple_escape e of
                      None \<Rightarrow> None
                    | Some x \<Rightarrow> map_option (\<lambda>t. x # t) (json_body r)))
          else if (of_char c :: nat) < 32 \<or> c = CHR 0x22 then None
          else map_option (\<lambda>t. c # t) (json_body cs))"
  by pat_completeness auto
termination
  by (relation "measure length") auto

declare json_body.simps [simp del]

text \<open>The scanner only hands over literals with both quotes.\<close>

definition json_parse_string :: "string \<Rightarrow> string option" where
  "json_parse_string v = json_body (butlast (tl v))"

definition escape_char :: "char \<Rightarrow> string" where
  "escape_char c =
     (let n = of_char c :: nat in
      if c = CHR 0x22 \<or> c = CHR 0x5C then [CHR 0x5C, c]
      else if n = 8 then [CHR 0x5C, CHR ''b''] else if n = 12 then [CHR 0x5C, CHR ''f'']
      else if n = 10 then [CHR 0x5C, CHR ''n''] else if n = 13 then [CHR 0x5C, CHR ''r'']
      else if n = 9 then [CHR 0x5C, CHR ''t'']
      else if n < 32 then [CHR 0x5C, CHR ''u''] @ fixd 16 4 n
      else [c])"

definition json_stringify :: "string \<Rightarrow> string" where
  "json_stringify s = CHR 0x22 # concat (map escape_char s) @ [CHR 0x22]"

end
