(* ===== verification/Parser.thy ===== *)
theory Parser
  imports Macros Scanner
begin

text \<open>
  The Micheline parser (\<open>micheline-parser.ts\<close>, \<open>global-constants.ts\<close>): the options, the
  expansion step, the recursive descent over the scanner and the parser of JSON-encoded
  Michelson.  The scanner state is the rest of the text.  Every call spends one unit of fuel;
  \<open>ParserProofs\<close> shows that the fuel of the entry points is always enough.
\<close>

section \<open>Options and errors\<close>

text \<open>An undefined options object is one whose options are all undefined.\<close>

record parser_options =
  opt_expandMacros :: "bool option"
  opt_expandGlobalConstant :: "(string \<rightharpoonup> expr) option"
  opt_protocol :: "Protocol option"

definition no_options :: parser_options where
  "no_options = \<lparr>opt_expandMacros = None, opt_expandGlobalConstant = None, opt_protocol = None\<rparr>"

datatype (plugins only: size code) parse_error =
    ScanError scan_error
  | JsonSyntaxError
  | UnexpectedEOF
  | MichelineParseError token
  | MacroFailure macro_error
  | JSONParseError string
  | JsonTypeError
  | ParserFuel

type_synonym 'a pres = "parse_error + 'a"

text \<open>\<open>scanner.next()\<close> and \<open>expandMacros\<close>, their exceptions passed on.\<close>

definition next_token :: "string \<Rightarrow> (token \<times> string) option pres" where
  "next_token s = (case scan False s of Inl e \<Rightarrow> Inl (ScanError e) | Inr t \<Rightarrow> Inr t)"

definition run_macros :: "Protocol option \<Rightarrow> expr \<Rightarrow> expr pres" where
  "run_macros proto ex = (case expandMacros proto ex of Inl e \<Rightarrow> Inl (MacroFailure e) | Inr x \<Rightarrow> Inr x)"

section \<open>Expansion\<close>

fun expandGlobalConstants :: "expr \<Rightarrow> (string \<rightharpoonup> expr) \<Rightarrow> expr" where
  "expandGlobalConstants (Prim p (Some [StringLit h]) an) hashAndValue =
     (case hashAndValue h of Some v \<Rightarrow> v | None \<Rightarrow> Prim p (Some [StringLit h]) an)"
| "expandGlobalConstants ex hashAndValue = ex"

definition expand :: "parser_options \<Rightarrow> string \<Rightarrow> expr list option \<Rightarrow> string list option \<Rightarrow> expr pres" where
  "expand opt prim args annots =
     (let ex = Prim prim args annots in
      case (opt_expandGlobalConstant opt, prim = ''constant'') of
        (Some m, True) \<Rightarrow> Inr (expandGlobalConstants ex m)
      | _ \<Rightarrow>
          if (case opt_expandMacros opt of Some b \<Rightarrow> b | None \<Rightarrow> True) then run_macros (opt_protocol opt) ex
          else Inr ex)"

section \<open>Recursive descent\<close>

definition isAnnotation :: "token \<Rightarrow> bool" where
  "isAnnotation tok = (case tok of Ident v \<Rightarrow> v \<noteq> [] \<and> hd v \<in> set ''@%:'' | _ \<Rightarrow> False)"

fun token_text :: "token \<Rightarrow> string" where
  "token_text (Punct c) = [c]"
| "token_text (Comment v) = v"
| "token_text (Number v) = v"
| "token_text (StringTok v) = v"
| "token_text (Bytes v) = v"
| "token_text (Ident v) = v"

text \<open>\<open>xs = xs || []; xs.push(x)\<close>.\<close>

definition push :: "'a list option \<Rightarrow> 'a \<Rightarrow> 'a list option" where
  "push xs x = Some ((case xs of None \<Rightarrow> [] | Some ys \<Rightarrow> ys) @ [x])"

text \<open>
  \<open>listLoop\<close> and \<open>argsLoop\<close> are the loops of \<open>parseListExpr\<close> and \<open>parseArgs\<close>, \<open>seqLoop\<close>
  that of \<open>parseSequenceExpr\<close>, whose \<open>tok\<close> is \<open>None\<close> for \<open>null\<close>, \<open>Some None\<close> for an
  exhausted scanner, and a token otherwise.
\<close>

declare bindR_cong [fundef_cong del]

function (sequential) parseExpr :: "nat \<Rightarrow> parser_options \<Rightarrow> string \<Rightarrow> token \<Rightarrow> (expr \<times> string) pres"
and parseListExpr :: "nat \<Rightarrow> parser_options \<Rightarrow> string \<Rightarrow> token \<Rightarrow> (expr \<times> string) pres"
and listLoop :: "nat \<Rightarrow> parser_options \<Rightarrow> string \<Rightarrow> bool \<Rightarrow> expr list option \<Rightarrow> string list option
    \<Rightarrow> ((expr list option \<times> string list option) \<times> string) pres"
and argsLoop :: "nat \<Rightarrow> parser_options \<Rightarrow> string \<Rightarrow> expr list option \<Rightarrow> string list option
    \<Rightarrow> ((expr list option \<times> string list option) \<times> token option \<times> string) pres"
and seqLoop :: "nat \<Rightarrow> parser_options \<Rightarrow> string \<Rightarrow> bool \<Rightarrow> token option option \<Rightarrow> expr list
    \<Rightarrow> (expr list \<times> string) pres"
where
  "parseExpr 0 opt s tok = Inl ParserFuel"
| "parseExpr (Suc fuel) opt s tok =
     (case tok of
        Ident v \<Rightarrow> bindR (expand opt v None None) (\<lambda>e. Inr (e, s))
      | Number v \<Rightarrow> Inr (IntLit v, s)
      | StringTok v \<Rightarrow>
          (case json_parse_string v of None \<Rightarrow> Inl JsonSyntaxError | Some t \<Rightarrow> Inr (StringLit t, s))
      | Bytes v \<Rightarrow> Inr (BytesLit (drop 2 v), s)
      | _ \<Rightarrow>
          if tok = Punct CHR ''{'' then
            bindR (seqLoop fuel opt s True None []) (\<lambda>(xs, s1). Inr (Seq xs, s1))
          else parseListExpr fuel opt s tok)"
| "parseListExpr 0 opt s start = Inl ParserFuel"
| "parseListExpr (Suc fuel) opt s start =
     (let expectBracket = (start = Punct CHR ''('') in
      bindR
        (if expectBracket then
           bindR (next_token s) (\<lambda>t. case t of None \<Rightarrow> Inl UnexpectedEOF | Some (tok, s1) \<Rightarrow> Inr (tok, s1))
         else Inr (start, s))
      (\<lambda>(tok, s1).
        case tok of
          Ident v \<Rightarrow>
            bindR (listLoop fuel opt s1 expectBracket None None) (\<lambda>((args, annots), s2).
            bindR (expand opt v args annots) (\<lambda>e. Inr (e, s2)))
        | _ \<Rightarrow> Inl (MichelineParseError tok)))"
| "listLoop 0 opt s expectBracket args annots = Inl ParserFuel"
| "listLoop (Suc fuel) opt s expectBracket args annots =
     bindR (next_token s) (\<lambda>t.
       case t of
         None \<Rightarrow> if expectBracket then Inl UnexpectedEOF else Inr ((args, annots), s)
       | Some (tok, s1) \<Rightarrow>
           if tok = Punct CHR '')'' then
             (if expectBracket then Inr ((args, annots), s1) else Inl (MichelineParseError tok))
           else if isAnnotation tok then
             listLoop fuel opt s1 expectBracket args (push annots (token_text tok))
           else
             bindR (parseExpr fuel opt s1 tok) (\<lambda>(arg, s2).
               listLoop fuel opt s2 expectBracket (push args arg) annots))"
| "argsLoop 0 opt s args annots = Inl ParserFuel"
| "argsLoop (Suc fuel) opt s args annots =
     bindR (next_token s) (\<lambda>t.
       case t of
         None \<Rightarrow> Inr ((args, annots), None, s)
       | Some (tok, s1) \<Rightarrow>
           if tok = Punct CHR ''}'' \<or> tok = Punct CHR '';'' then Inr ((args, annots), Some tok, s1)
           else if isAnnotation tok then argsLoop fuel opt s1 args (push annots (token_text tok))
           else
             bindR (parseExpr fuel opt s1 tok) (\<lambda>(arg, s2).
               argsLoop fuel opt s2 (push args arg) annots))"
| "seqLoop 0 opt s expectBracket tok seq = Inl ParserFuel"
| "seqLoop (Suc fuel) opt s expectBracket tok seq =
     bindR
       (case tok of
          None \<Rightarrow> bindR (next_token s) (\<lambda>t. case t of None \<Rightarrow> Inr (None, s) | Some (u, s1) \<Rightarrow> Inr (Some u, s1))
        | Some t \<Rightarrow> Inr (t, s))
     (\<lambda>(t, s1).
       case t of
         None \<Rightarrow> if expectBracket then Inl UnexpectedEOF else Inr (seq, s1)
       | Some tk \<Rightarrow>
           if tk = Punct CHR ''}'' then
             (if expectBracket then Inr (seq, s1) else Inl (MichelineParseError tk))
           else
             bindR
               (case tk of
                  Ident v \<Rightarrow>
                    bindR (argsLoop fuel opt s1 None None) (\<lambda>((args, annots), n, s2).
                    bindR (expand opt v args annots) (\<lambda>itm. Inr (itm, Some n, s2)))
                | _ \<Rightarrow> bindR (parseExpr fuel opt s1 tk) (\<lambda>(ex, s2). Inr (ex, None, s2)))
             (\<lambda>(item, tok1, s2).
               bindR
                 (case tok1 of
                    None \<Rightarrow> bindR (next_token s2) (\<lambda>t. case t of None \<Rightarrow> Inr (None, s2) | Some (u, s3) \<Rightarrow> Inr (Some u, s3))
                  | Some n \<Rightarrow> Inr (n, s2))
               (\<lambda>(n, s3).
                 seqLoop fuel opt s3 expectBracket (if n = Some (Punct CHR '';'') then None else Some n)
                   (seq @ [item]))))"
  by pat_completeness auto
termination
  by (relation "measure (case_sum (case_sum fst fst) (case_sum fst (case_sum fst fst)))") auto

declare bindR_cong [fundef_cong]

section \<open>Entry points\<close>

text \<open>Enough fuel for a text; \<open>None\<close> is \<open>null\<close>, the result for an empty document.\<close>

definition text_fuel :: "string \<Rightarrow> nat" where
  "text_fuel s = 4 * length s + 8"

definition parseMichelineExpression :: "parser_options \<Rightarrow> string \<Rightarrow> expr option pres" where
  "parseMichelineExpression opt src =
     bindR (next_token src) (\<lambda>t. case t of
       None \<Rightarrow> Inr None
     | Some (tok, s) \<Rightarrow> bindR (parseExpr (text_fuel src) opt s tok) (\<lambda>(e, _). Inr (Some e)))"

definition parseList :: "parser_options \<Rightarrow> string \<Rightarrow> expr option pres" where
  "parseList opt src =
     bindR (next_token src) (\<lambda>t. case t of
       None \<Rightarrow> Inr None
     | Some (tok, s) \<Rightarrow> bindR (parseListExpr (text_fuel src) opt s tok) (\<lambda>(e, _). Inr (Some e)))"

text \<open>\<open>expectBracket\<close> holds when the first token is an opening brace, which is then skipped.\<close>

definition parseSequence :: "parser_options \<Rightarrow> string \<Rightarrow> expr list option pres" where
  "parseSequence opt src =
     bindR (next_token src) (\<lambda>t. case t of
       None \<Rightarrow> Inr None
     | Some (tok, s) \<Rightarrow>
         let expectBracket = (tok = Punct CHR ''{'') in
         bindR (seqLoop (text_fuel src) opt s expectBracket (if expectBracket then None else Some (Some tok)) [])
           (\<lambda>(xs, _). Inr (Some xs)))"

definition parseScript :: "parser_options \<Rightarrow> string \<Rightarrow> expr list option pres" where
  "parseScript = parseSequence"

definition parseData :: "parser_options \<Rightarrow> string \<Rightarrow> expr option pres" where
  "parseData = parseList"

section \<open>JSON-encoded Michelson\<close>

text \<open>JSON values; numbers and booleans only matter as values that are neither text nor object.\<close>

datatype (plugins only: size code) json =
    JNull | JBool bool | JNumber int | JString string | JArray "json list" | JObject "(string \<times> json) list"

definition intRe :: "string \<Rightarrow> bool" where
  "intRe s = (let ds = (if s \<noteq> [] \<and> hd s = CHR ''-'' then tl s else s) in ds \<noteq> [] \<and> list_all is_digit ds)"

definition bytesRe :: "string \<Rightarrow> bool" where
  "bytesRe s \<longleftrightarrow> even (length s) \<and> list_all is_hex s"

definition is_object :: "json \<Rightarrow> bool" where
  "is_object j = (case j of JArray _ \<Rightarrow> True | JObject _ \<Rightarrow> True | _ \<Rightarrow> False)"

text \<open>The strings of an array, or the first element that is none.\<close>

fun all_strings :: "json list \<Rightarrow> string list pres" where
  "all_strings [] = Inr []"
| "all_strings (JString a # js) = bindR (all_strings js) (\<lambda>ss. Inr (a # ss))"
| "all_strings (_ # js) = Inl (JSONParseError ''string expected'')"

text \<open>\<open>annots\<close> and \<open>args\<close>: absent, an array, or something else, which is malformed.\<close>

definition array_prop :: "string \<Rightarrow> (string \<times> json) list \<Rightarrow> json list option option" where
  "array_prop k ps = (case map_of ps k of None \<Rightarrow> Some None | Some (JArray js) \<Rightarrow> Some (Some js) | Some _ \<Rightarrow> None)"

lemma array_prop_size: "array_prop k ps = Some (Some js) \<Longrightarrow> j \<in> set js \<Longrightarrow> size j < Suc (size_list (size_prod (\<lambda>x. 0) size) ps)"
proof -
  assume "array_prop k ps = Some (Some js)" and j: "j \<in> set js"
  then have "(k, JArray js) \<in> set ps" by (auto simp: array_prop_def split: option.splits json.splits dest: map_of_SomeD)
  then have "size_prod (\<lambda>x. 0) size (k, JArray js) \<le> size_list (size_prod (\<lambda>x. 0) size) ps"
    by (rule size_list_estimation') simp
  moreover have "size j \<le> size_list size js" using j by (rule size_list_estimation') simp
  ultimately show ?thesis by simp
qed

function parseJSON :: "parser_options \<Rightarrow> json \<Rightarrow> expr pres" where
  "parseJSON opt (JArray js) =
     bindR (mapR (\<lambda>j. if is_object j then parseJSON opt j
                      else Inl (JSONParseError ''unexpected sequence element'')) js) (\<lambda>xs. Inr (Seq xs))"
| "parseJSON opt (JObject ps) =
     (if map_of ps ''prim'' \<noteq> None then
        (case (map_of ps ''prim'', array_prop ''annots'' ps, array_prop ''args'' ps) of
           (Some (JString prim), Some annots, Some args) \<Rightarrow>
             bindR (case annots of None \<Rightarrow> Inr None | Some js \<Rightarrow> bindR (all_strings js) (\<lambda>ss. Inr (Some ss))) (\<lambda>an.
             bindR (case args of
                      None \<Rightarrow> Inr None
                    | Some js \<Rightarrow>
                        bindR (mapR (\<lambda>j. if is_object j then parseJSON opt j
                                         else Inl (JSONParseError ''unexpected argument'')) js) (\<lambda>xs. Inr (Some xs)))
               (\<lambda>xs. expand opt prim xs an))
         | _ \<Rightarrow> Inl (JSONParseError ''malformed prim expression''))
      else if map_of ps ''string'' \<noteq> None then
        (case map_of ps ''string'' of
           Some (JString s) \<Rightarrow> Inr (StringLit s) | _ \<Rightarrow> Inl (JSONParseError ''malformed string literal''))
      else if map_of ps ''int'' \<noteq> None then
        (case map_of ps ''int'' of
           Some (JString s) \<Rightarrow> if intRe s then Inr (IntLit s) else Inl (JSONParseError ''malformed int literal'')
         | _ \<Rightarrow> Inl (JSONParseError ''malformed int literal''))
      else if map_of ps ''bytes'' \<noteq> None then
        (case map_of ps ''bytes'' of
           Some (JString s) \<Rightarrow> if bytesRe s then Inr (BytesLit s) else Inl (JSONParseError ''malformed bytes literal'')
         | _ \<Rightarrow> Inl (JSONParseError ''malformed bytes literal''))
      else Inl (JSONParseError ''unexpected object''))"
| "parseJSON opt JNull = Inl JsonTypeError"
| "parseJSON opt (JBool b) = Inl JsonTypeError"
| "parseJSON opt (JNumber n) = Inl JsonTypeError"
| "parseJSON opt (JString s) = Inl JsonTypeError"
  by pat_completeness auto
termination
proof (relation "measure (\<lambda>(opt, j). size j)", simp)
  fix opt :: parser_options and js and j :: json
  assume "j \<in> set js"
  then have "size j \<le> size_list size js" by (rule size_list_estimation') simp
  then show "((opt, j), (opt, JArray js)) \<in> measure (\<lambda>(opt, j). size j)" by simp
qed (auto dest!: array_prop_size [OF sym])

declare parseJSON.simps [simp del]

end
