(* ===== verification/ParserTermination.thy ===== *)
theory ParserTermination
  imports Parser
begin

text \<open>
  The recursive descent ends: every call leaves no more text than it was given, and with
  enough fuel for the text the result is not \<open>ParserFuel\<close> and does not depend on the fuel.
\<close>

lemma next_length: "next_token s = Inr (Some (t, r)) \<Longrightarrow> length r < length s"
  using scan_length by (auto simp: next_token_def split: sum.splits)

lemma next_not_fuel [simp]: "next_token s \<noteq> Inl ParserFuel"
  by (simp add: next_token_def split: sum.split)

lemma expand_not_fuel [simp]: "expand opt p args annots \<noteq> Inl ParserFuel"
  by (simp add: expand_def run_macros_def Let_def split: option.split bool.split sum.split)

section \<open>The rest is not longer\<close>

definition fits :: "nat \<Rightarrow> ('a \<Rightarrow> string) \<Rightarrow> 'a pres \<Rightarrow> bool" where
  "fits n rest r \<longleftrightarrow> (\<forall>x. r = Inr x \<longrightarrow> length (rest x) \<le> n)"

lemma fits_Inl [simp]: "fits n rest (Inl e)"
  by (simp add: fits_def)

lemma fits_Inr [simp]: "fits n rest (Inr x) \<longleftrightarrow> length (rest x) \<le> n"
  by (simp add: fits_def)

lemma fits_bind: "(\<And>x. m = Inr x \<Longrightarrow> fits n rest (k x)) \<Longrightarrow> fits n rest (bindR m k)"
  by (cases m) simp_all

lemma fitsD: "fits n rest r \<Longrightarrow> r = Inr x \<Longrightarrow> length (rest x) \<le> n"
  by (simp add: fits_def)

lemma fits_mono: "fits n rest r \<Longrightarrow> n \<le> m \<Longrightarrow> fits m rest r"
  by (auto simp: fits_def)

lemma parse_fits:
  "fits (length s) snd (parseExpr fuel opt s tok)
   \<and> fits (length s) snd (parseListExpr fuel opt s tok)
   \<and> fits (length s) snd (listLoop fuel opt s br args annots)
   \<and> fits (length s) (\<lambda>r. snd (snd r)) (argsLoop fuel opt s args annots)
   \<and> fits (length s) snd (seqLoop fuel opt s br pend seq)"
proof (induction fuel arbitrary: s tok br args annots pend seq)
  case (Suc fuel)
  have E: "fits (length s) snd (parseExpr fuel opt s tok)" for s tok using Suc by blast
  have L: "fits (length s) snd (parseListExpr fuel opt s tok)" for s tok using Suc by blast
  have LL: "fits (length s) snd (listLoop fuel opt s br args annots)" for s br args annots using Suc by blast
  have AL: "fits (length s) (\<lambda>r. snd (snd r)) (argsLoop fuel opt s args annots)" for s args annots using Suc by blast
  have SL: "fits (length s) snd (seqLoop fuel opt s br pend seq)" for s br pend seq using Suc by blast
  have after: "fits n snd (seqLoop fuel opt s br pend seq)" if "length s \<le> n" for n s br pend seq
    using SL that by (rule fits_mono)
  have 1: "fits (length s) snd (parseExpr (Suc fuel) opt s tok)"
    using L by (auto simp: split: token.split option.split intro!: fits_bind dest: fitsD [OF SL])
  have 2: "fits (length s) snd (parseListExpr (Suc fuel) opt s tok)"
    by (auto simp: Let_def bindR_eq_Inr split: token.split option.splits if_splits
        intro!: fits_bind dest!: fitsD [OF LL] next_length)
  have 3: "fits (length s) snd (listLoop (Suc fuel) opt s br args annots)"
    by (auto split: option.split intro!: fits_bind fits_mono [OF LL] dest!: fitsD [OF E] next_length)
  have 4: "fits (length s) (\<lambda>r. snd (snd r)) (argsLoop (Suc fuel) opt s args annots)"
    by (auto split: option.split intro!: fits_bind fits_mono [OF AL] dest!: fitsD [OF E] next_length)
  have 5: "fits (length s) snd (seqLoop (Suc fuel) opt s br pend seq)"
    by (auto simp: bindR_eq_Inr split: option.splits token.splits
        intro!: fits_bind after dest!: fitsD [OF E] fitsD [OF AL] next_length)
  from 1 2 3 4 5 show ?case by blast
qed simp

section \<open>Enough fuel\<close>

text \<open>Two runs that agree and have not run out of fuel.\<close>

definition agree :: "'a pres \<Rightarrow> 'a pres \<Rightarrow> bool" where
  "agree x y \<longleftrightarrow> x = y \<and> x \<noteq> Inl ParserFuel"

lemma agree_bind: "agree x y \<Longrightarrow> (\<And>v. x = Inr v \<Longrightarrow> agree (k v) (k' v)) \<Longrightarrow> agree (bindR x k) (bindR y k')"
  by (cases x) (auto simp: agree_def)

lemma agree_refl [simp]: "agree (Inr v) (Inr v)" "e \<noteq> ParserFuel \<Longrightarrow> agree (Inl e) (Inl e)"
    "agree (next_token s) (next_token s)" "agree (expand opt p xs an) (expand opt p xs an)"
  by (simp_all add: agree_def)

lemma agree_D: "agree x y \<Longrightarrow> x = y" "agree x y \<Longrightarrow> x \<noteq> Inl ParserFuel"
  by (auto simp: agree_def)

definition pending_fuel :: "token option option \<Rightarrow> nat \<Rightarrow> nat" where
  "pending_fuel pend n = (case pend of None \<Rightarrow> 4 * n + 2 | Some None \<Rightarrow> 1 | Some (Some t) \<Rightarrow> 4 * n + 4)"

lemma args_less:
  "argsLoop fuel opt s args annots = Inr (y, Some n, r) \<Longrightarrow> length r < length s"
proof (induction fuel arbitrary: s args annots)
  case (Suc fuel)
  have E: "parseExpr fuel opt s tok = Inr (e, r) \<Longrightarrow> length r \<le> length s" for s tok e r
    using parse_fits by (metis fitsD snd_conv)
  obtain tok s1 where t: "next_token s = Inr (Some (tok, s1))"
    using Suc.prems by (auto simp: bindR_eq_Inr split: option.splits)
  show ?case
  proof (cases "tok = Punct CHR ''}'' \<or> tok = Punct CHR '';'' \<or> isAnnotation tok")
    case True
    then show ?thesis using Suc.prems t next_length [OF t] Suc.IH by (fastforce split: if_splits)
  next
    case False
    then obtain e s2 where "parseExpr fuel opt s1 tok = Inr (e, s2)" "argsLoop fuel opt s2 (push args e) annots = Inr (y, Some n, r)"
      using Suc.prems t by (auto simp: bindR_eq_Inr)
    then show ?thesis using E Suc.IH next_length [OF t] by (metis le_trans less_le_trans nat_less_le order_less_trans)
  qed
qed simp

lemma parse_agree:
  "(4 * length s + 3 \<le> f \<longrightarrow> 4 * length s + 3 \<le> g \<longrightarrow> agree (parseExpr f opt s tok) (parseExpr g opt s tok))
   \<and> (4 * length s + 2 \<le> f \<longrightarrow> 4 * length s + 2 \<le> g \<longrightarrow> agree (parseListExpr f opt s tok) (parseListExpr g opt s tok))
   \<and> (4 * length s + 1 \<le> f \<longrightarrow> 4 * length s + 1 \<le> g
        \<longrightarrow> agree (listLoop f opt s br args annots) (listLoop g opt s br args annots))
   \<and> (4 * length s + 1 \<le> f \<longrightarrow> 4 * length s + 1 \<le> g
        \<longrightarrow> agree (argsLoop f opt s args annots) (argsLoop g opt s args annots))
   \<and> (pending_fuel pend (length s) \<le> f \<longrightarrow> pending_fuel pend (length s) \<le> g
        \<longrightarrow> agree (seqLoop f opt s br pend seq) (seqLoop g opt s br pend seq))"
proof (induction f arbitrary: g s tok br args annots pend seq)
  case (Suc f)
  show ?case
  proof (cases g)
    case 0
    then show ?thesis by (simp add: pending_fuel_def split: option.split)
  next
    case (Suc g')
    have E: "4 * length s + 3 \<le> f \<Longrightarrow> 4 * length s + 3 \<le> g' \<Longrightarrow> agree (parseExpr f opt s tok) (parseExpr g' opt s tok)" for s tok
      using Suc.IH by blast
    have L: "4 * length s + 2 \<le> f \<Longrightarrow> 4 * length s + 2 \<le> g' \<Longrightarrow> agree (parseListExpr f opt s tok) (parseListExpr g' opt s tok)" for s tok
      using Suc.IH by blast
    have LL: "4 * length s + 1 \<le> f \<Longrightarrow> 4 * length s + 1 \<le> g'
        \<Longrightarrow> agree (listLoop f opt s br args annots) (listLoop g' opt s br args annots)" for s br args annots
      using Suc.IH by blast
    have AL: "4 * length s + 1 \<le> f \<Longrightarrow> 4 * length s + 1 \<le> g'
        \<Longrightarrow> agree (argsLoop f opt s args annots) (argsLoop g' opt s args annots)" for s args annots
      using Suc.IH by blast
    have SL: "pending_fuel pend (length s) \<le> f \<Longrightarrow> pending_fuel pend (length s) \<le> g'
        \<Longrightarrow> agree (seqLoop f opt s br pend seq) (seqLoop g' opt s br pend seq)" for s br pend seq
      using Suc.IH by blast
    have rest: "parseExpr f opt s tok = Inr (e, r) \<Longrightarrow> length r \<le> length s" 
       "argsLoop f opt s args annots = Inr (y, n, r) \<Longrightarrow> length r \<le> length s"for s tok e r args annots y n
      using parse_fits by (metis fitsD snd_conv)+
    have 1: "agree (parseExpr (Suc f) opt s tok) (parseExpr (Suc g') opt s tok)"
      if "4 * length s + 3 \<le> Suc f" "4 * length s + 3 \<le> Suc g'"
      using that L SL by (auto simp: pending_fuel_def split: token.split option.split intro!: agree_bind)
    have 2: "agree (parseListExpr (Suc f) opt s tok) (parseListExpr (Suc g') opt s tok)"
      if "4 * length s + 2 \<le> Suc f" "4 * length s + 2 \<le> Suc g'"
      using that LL by (auto simp: Let_def bindR_eq_Inr split: token.split option.splits if_splits intro!: agree_bind dest!: next_length)
    have 3: "agree (listLoop (Suc f) opt s br args annots) (listLoop (Suc g') opt s br args annots)"
      if "4 * length s + 1 \<le> Suc f" "4 * length s + 1 \<le> Suc g'"
      using that LL E by (auto split: option.split intro!: agree_bind dest!: next_length rest(1))
    have 4: "agree (argsLoop (Suc f) opt s args annots) (argsLoop (Suc g') opt s args annots)"
      if "4 * length s + 1 \<le> Suc f" "4 * length s + 1 \<le> Suc g'"
      using that AL E by (auto split: option.split intro!: agree_bind dest!: next_length rest(1))
    have 5: "agree (seqLoop (Suc f) opt s br pend seq) (seqLoop (Suc g') opt s br pend seq)"
      if "pending_fuel pend (length s) \<le> Suc f" "pending_fuel pend (length s) \<le> Suc g'"
    proof -
      let ?first = "case pend of None \<Rightarrow> bindR (next_token s) (\<lambda>t. case t of None \<Rightarrow> Inr (None, s) | Some (u, s1) \<Rightarrow> Inr (Some u, s1))
        | Some t \<Rightarrow> Inr (t, s)"
      have room: "4 * length s1 + 3 \<le> f \<and> 4 * length s1 + 3 \<le> g'" if "?first = Inr (Some tk, s1)" for tk s1
        using that \<open>pending_fuel pend (length s) \<le> Suc f\<close> \<open>pending_fuel pend (length s) \<le> Suc g'\<close>
        by (auto simp: pending_fuel_def bindR_eq_Inr split: option.splits dest!: next_length)
      have tail: "agree (seqLoop f opt s3 br (if n = Some (Punct CHR '';'') then None else Some n) xs)
          (seqLoop g' opt s3 br (if n = Some (Punct CHR '';'') then None else Some n) xs)"
        if "4 * length s1 + 3 \<le> f" "4 * length s1 + 3 \<le> g'" "n \<noteq> None \<Longrightarrow> length s3 < length s1" for n s1 s3 xs
        by (rule SL) (use that in \<open>auto simp: pending_fuel_def split: option.split\<close>)
      have item: "agree
           (case tk of Ident v \<Rightarrow> bindR (argsLoop f opt s1 None None) (\<lambda>((args, annots), n, s2).
                    bindR (expand opt v args annots) (\<lambda>itm. Inr (itm, Some n, s2)))
                | _ \<Rightarrow> bindR (parseExpr f opt s1 tk) (\<lambda>(ex, s2). Inr (ex, None, s2)))
           (case tk of Ident v \<Rightarrow> bindR (argsLoop g' opt s1 None None) (\<lambda>((args, annots), n, s2).
                    bindR (expand opt v args annots) (\<lambda>itm. Inr (itm, Some n, s2)))
                | _ \<Rightarrow> bindR (parseExpr g' opt s1 tk) (\<lambda>(ex, s2). Inr (ex, None, s2)))"
        if "4 * length s1 + 3 \<le> f" "4 * length s1 + 3 \<le> g'" for tk s1
        using that E [of s1] AL [of s1] by (cases tk) (auto intro!: agree_bind)
      have moved: "case tok1 of None \<Rightarrow> length s2 \<le> length s1 | Some n \<Rightarrow> n \<noteq> None \<longrightarrow> length s2 < length s1"
        if "(case tk of Ident v \<Rightarrow> bindR (argsLoop f opt s1 None None) (\<lambda>((args, annots), n, s2).
                    bindR (expand opt v args annots) (\<lambda>itm. Inr (itm, Some n, s2)))
                | _ \<Rightarrow> bindR (parseExpr f opt s1 tk) (\<lambda>(ex, s2). Inr (ex, None, s2))) = Inr (item, tok1, s2)"
        for tk s1 item tok1 s2
        using that by (cases tk) (auto simp: bindR_eq_Inr dest: rest args_less)
      show ?thesis
        unfolding seqLoop.simps
        apply (rule agree_bind)
        subgoal by (auto split: option.split intro!: agree_bind)
        subgoal premises v for v
        proof -
          obtain t s1 where ts: "v = (t, s1)" by (cases v)
          show ?thesis
          proof (cases t)
            case None
            then show ?thesis by (simp add: ts)
          next
            case (Some tk)
            have r: "4 * length s1 + 3 \<le> f" "4 * length s1 + 3 \<le> g'" using room v by (simp_all add: ts Some)
            show ?thesis
            proof (cases "tk = Punct CHR ''}''")
              case True
              then show ?thesis by (simp add: ts Some)
            next
              case False
              show ?thesis unfolding ts Some prod.case option.case if_not_P [OF False]
                by (rule agree_bind [OF item [OF r]]) (auto simp: bindR_eq_Inr split: option.splits dest!: moved next_length intro!: agree_bind tail [OF r])
            qed
          qed
        qed
        done
    qed
    from 1 2 3 4 5 Suc show ?thesis by blast
  qed
qed (simp add: pending_fuel_def split: option.split)

text \<open>Any fuel that is enough gives the result of any other.\<close>

lemma text_agree:
  assumes "next_token src = Inr (Some (tok, s))" "text_fuel src \<le> g"
  shows "agree (parseExpr (text_fuel src) opt s tok) (parseExpr g opt s tok)"
    "agree (parseListExpr (text_fuel src) opt s tok) (parseListExpr g opt s tok)"
    "agree (seqLoop (text_fuel src) opt s br pend xs) (seqLoop g opt s br pend xs)"
  using assms(2) next_length [OF assms(1)]
  by (intro parse_agree [THEN conjunct1, rule_format] parse_agree [THEN conjunct2, THEN conjunct1, rule_format]
      parse_agree [THEN conjunct2, THEN conjunct2, THEN conjunct2, THEN conjunct2, rule_format];
      simp add: text_fuel_def pending_fuel_def split: option.split)+

lemma entry_points_end:
  "parseMichelineExpression opt src \<noteq> Inl ParserFuel"
  "parseList opt src \<noteq> Inl ParserFuel"
  "parseSequence opt src \<noteq> Inl ParserFuel"
proof -
  consider (err) e where "next_token src = Inl e" | (eof) "next_token src = Inr None"
    | (tok) tok s where "next_token src = Inr (Some (tok, s))"
    by (cases "next_token src") (auto simp: option.split_sel_asm, metis option.exhaust surj_pair)
  then have "parseMichelineExpression opt src \<noteq> Inl ParserFuel \<and> parseList opt src \<noteq> Inl ParserFuel
      \<and> parseSequence opt src \<noteq> Inl ParserFuel"
  proof cases
    case err
    then show ?thesis using next_not_fuel [of src]
      by (auto simp: parseMichelineExpression_def parseList_def parseSequence_def)
  next
    case eof
    then show ?thesis by (simp add: parseMichelineExpression_def parseList_def parseSequence_def)
  next
    case tok
    note a = text_agree [OF tok order_refl, THEN agree_D(2)]
    show ?thesis
      using a by (auto simp: parseMichelineExpression_def parseList_def parseSequence_def tok Let_def bindR_eq_Inl)
  qed
  then show "parseMichelineExpression opt src \<noteq> Inl ParserFuel" "parseList opt src \<noteq> Inl ParserFuel"
    "parseSequence opt src \<noteq> Inl ParserFuel" by auto
qed

end
