(* ===== verification/MacroFree.thy ===== *)
theory MacroFree
  imports MacrosProofs ParserTermination
begin

text \<open>
  No macro is left: what \<open>expandMacros\<close> makes of a macro whose arguments hold no macro holds none
  at any depth, and so does everything the parsers return, which expand every primitive
  application they read.
\<close>

section \<open>Expressions without macros\<close>

text \<open>Every primitive application, at any depth, is one that \<open>expandMacros\<close> leaves as it is.\<close>

fun macro_free :: "Protocol option \<Rightarrow> expr \<Rightarrow> bool" where
  "macro_free q (Prim p args an) \<longleftrightarrow>
     expandMacros q (Prim p args an) = Inr (Prim p args an) \<and>
     (case args of None \<Rightarrow> True | Some xs \<Rightarrow> list_all (macro_free q) xs)"
| "macro_free q (Seq xs) \<longleftrightarrow> list_all (macro_free q) xs"
| "macro_free q e \<longleftrightarrow> True"

declare expandMacros.simps [simp del] macro_free.simps(1) [simp del]

text \<open>The instructions that expansions are made of.\<close>

definition plain_names :: "string list" where
  "plain_names = [''PAIR'', ''DIP'', ''SWAP'', ''DROP'', ''DIG'', ''UNIT'', ''FAILWITH'', ''COMPARE'', ''IF'', ''IF_NONE'',
     ''IF_LEFT'', ''RENAME'', ''GET''] @ cmp_ops"

lemma plain_fixed: "w \<in> set plain_names \<Longrightarrow> expandMacros q (Prim w args an) = Inr (Prim w args an)"
  by (auto simp: plain_names_def cmp_ops_def labels_def expandMacros.simps expandPrim_def expandSwitch_def regexes between_def)

lemma plain_free [simp]:
  "w \<in> set plain_names \<Longrightarrow> macro_free q (Prim w args an) \<longleftrightarrow> list_all (macro_free q) (args_of args)"
  by (cases args) (simp_all add: macro_free.simps(1) plain_fixed)

lemma plain_mem [simp]: "''PAIR'' \<in> set plain_names" "''DIP'' \<in> set plain_names" "''SWAP'' \<in> set plain_names"
  "''DROP'' \<in> set plain_names" "''DIG'' \<in> set plain_names" "''UNIT'' \<in> set plain_names" "''FAILWITH'' \<in> set plain_names"
  "''COMPARE'' \<in> set plain_names" "''IF'' \<in> set plain_names" "''IF_NONE'' \<in> set plain_names" "''IF_LEFT'' \<in> set plain_names"
  "''RENAME'' \<in> set plain_names" "''GET'' \<in> set plain_names"
  by (simp_all add: plain_names_def)

lemma cmp_mem: "w \<in> set cmp_ops \<Longrightarrow> w \<in> set plain_names"
  by (simp add: plain_names_def)

lemma car_cdr_dup_free [simp]: "macro_free q (Prim ''CAR'' None an)" "macro_free q (Prim ''CDR'' None an)" "macro_free q (Prim ''DUP'' None an)"
  by (simp_all add: macro_free.simps(1) expandMacros.simps expandPrim_def expandSwitch_def labels_def cmp_ops_def regexes between_def expandDuup_def letters_def Let_def)

lemma new_free: "\<not> ProtoInferiorTo (chosen q) PtEdo2Zk \<Longrightarrow> macro_free q (Prim ''UNPAIR'' None an)"
  "\<not> ProtoInferiorTo (chosen q) PtEdo2Zk \<Longrightarrow> macro_free q (Prim ''DUP'' (Some [IntLit i]) an)"
  by (simp_all add: macro_free.simps(1) expandMacros.simps expandPrim_def expandSwitch_def labels_def cmp_ops_def regexes between_def expandDuup_def letters_def
      expandUnpair_def Let_def)

section \<open>Expansions\<close>

lemma at_depth_free [simp]: "macro_free q (at_depth v leaf) = macro_free q leaf"
  by (simp add: at_depth_def)

lemma fail_code_free [simp]: "macro_free q fail_code" "macro_free q (mayRename an)"
  by (simp_all add: fail_code_def mayRename_def prim0_def split: option.split)

lemma pair_free: "expandPair ex p args an = Inr e \<Longrightarrow> macro_free q e"
  by (auto simp: expandPair_def bindR_eq_Inr list_all_iff pair_leaf_def split: prod.splits)

lemma unpair_free: "expandUnpair (chosen q) ex p args an = Inr e \<Longrightarrow> e = ex \<or> macro_free q e"
  by (auto simp: expandUnpair_def bindR_eq_Inr list_all_iff unpair_leaf_def prim0_def new_free split: prod.splits if_splits)

lemma mapR_all: "mapR f xs = Inr ys \<Longrightarrow> (\<And>x y. x \<in> set xs \<Longrightarrow> f x = Inr y \<Longrightarrow> P y) \<Longrightarrow> list_all P ys"
proof (induction xs arbitrary: ys)
  case (Cons x xs)
  then obtain y ys' where "f x = Inr y" "mapR f xs = Inr ys'" "ys = y # ys'" unfolding mapR_eq_Inr_Cons by blast
  then have ys: "ys = y # ys'" "P y" "list_all P ys'" using Cons.IH [of ys'] Cons.prems(2) by auto
  then show ?case by simp
qed simp

lemma cadr_free: "expandCadr ex p args an = Inr e \<Longrightarrow> macro_free q e"
  by (auto simp: expandCadr_def bindR_eq_Inr Let_def elim!: mapR_all split: if_splits)

lemma path_free:
  "parseSetMapCadr p m vann t = Inr e \<Longrightarrow> macro_free q (fst t) \<Longrightarrow> macro_free q (snd t) \<Longrightarrow> macro_free q e"
  by (induction p m vann t arbitrary: e rule: parseSetMapCadr.induct) (auto simp: bindR_eq_Inr prim0_def split: if_splits)

lemma set_free: "expandSetCadr ex p args an = Inr e \<Longrightarrow> macro_free q e"
  by (auto simp: expandSetCadr_def bindR_eq_Inr set_term_def prim0_def split: prod.splits if_splits list.splits elim!: path_free)

lemma arg_free: "assertArgs ex args n = Inr () \<Longrightarrow> i < n \<Longrightarrow> list_all P (args_of args) \<Longrightarrow> P (args_of args ! i)"
  by (auto simp: assertArgs_def list_all_length split: option.splits if_splits)

lemma hd_free: "assertArgs ex args 1 = Inr () \<Longrightarrow> list_all P (args_of args) \<Longrightarrow> P (hd (args_of args))"
  using arg_free [of ex args 1 0 P] by (cases "args_of args") (auto simp: assertArgs_def split: option.splits if_splits)

lemma map_free: "expandMapCadr ex p args an = Inr e \<Longrightarrow> list_all (macro_free q) (args_of args) \<Longrightarrow> macro_free q e"
  using hd_free [of ex args "macro_free q"]
  by (auto simp: expandMapCadr_def bindR_eq_Inr map_term_def prim0_def Let_def split: prod.splits if_splits list.splits elim!: path_free)

lemma diip_free: "expandDiip ex p args = Inr e \<Longrightarrow> list_all (macro_free q) (args_of args) \<Longrightarrow> macro_free q e"
  using hd_free [of ex args "macro_free q"] by (auto simp: expandDiip_def bindR_eq_Inr)

lemma duup_free: "expandDuup (chosen q) ex p args an = Inr e \<Longrightarrow> e = ex \<or> macro_free q e"
  by (auto simp: expandDuup_def Let_def dup_code_def prim0_def bindR_eq_Inr new_free split: if_splits)

lemma labels_plain: "p \<in> set (labels ''CMP'') \<Longrightarrow> drop 3 p \<in> set plain_names" "p \<in> set (labels ''IF'') \<Longrightarrow> drop 2 p \<in> set plain_names"
  "p \<in> set (labels ''IFCMP'') \<Longrightarrow> drop 5 p \<in> set plain_names" "p \<in> set (labels ''ASSERT_'') \<Longrightarrow> drop 7 p \<in> set plain_names"
  "p \<in> set (labels ''ASSERT_CMP'') \<Longrightarrow> drop 10 p \<in> set plain_names"
  by (auto simp: labels_def intro: cmp_mem)

lemma either_branch: "(if b then x else y) = z \<Longrightarrow> (x = z \<Longrightarrow> P) \<Longrightarrow> (y = z \<Longrightarrow> P) \<Longrightarrow> P"
  by (cases b) auto

lemma known_branch: "(if b then x else y) = z \<Longrightarrow> (b \<Longrightarrow> x = z \<Longrightarrow> P) \<Longrightarrow> (\<not> b \<Longrightarrow> y = z \<Longrightarrow> P) \<Longrightarrow> P"
  by (cases b) auto

lemma switch_free:
  assumes "expandSwitch ex p args an = Inr (Some e)" and free: "list_all (macro_free q) (args_of args)"
  shows "e = ex \<or> macro_free q e"
proof -
  have s: "assertArgs ex args 2 = Inr () \<Longrightarrow> macro_free q (args_of args ! 0)" "assertArgs ex args 2 = Inr () \<Longrightarrow> macro_free q (args_of args ! Suc 0)"
    using arg_free [of ex args 2 0, OF _ _ free] arg_free [of ex args 2 1, OF _ _ free] by simp_all
  show ?thesis
    using assms(1) unfolding expandSwitch_def Let_def
    by (elim known_branch) (simp_all only: bindR_eq_Inr, (use free in \<open>clarsimp simp: IF2_def prim0_def labels_plain s; fail\<close>)+)
qed

lemma expansion_free:
  assumes "expandMacros q (Prim p args an) = Inr e" and "list_all (macro_free q) (args_of args)"
  shows "macro_free q e"
proof -
  let ?ex = "Prim p args an"
  consider (switch) "expandSwitch ?ex p args an = Inr (Some e)"
    | (pair) "expandPair ?ex p args an = Inr e" | (unpair) "expandUnpair (chosen q) ?ex p args an = Inr e"
    | (cadr) "expandCadr ?ex p args an = Inr e" | (set) "expandSetCadr ?ex p args an = Inr e"
    | (map) "expandMapCadr ?ex p args an = Inr e" | (diip) "expandDiip ?ex p args = Inr e"
    | (duup) "expandDuup (chosen q) ?ex p args an = Inr e" | (same) "e = ?ex"
  proof -
    obtain found where f: "expandSwitch ?ex p args an = Inr found"
        "(case found of Some e \<Rightarrow> Inr e
          | None \<Rightarrow>
              if pairRe p then expandPair ?ex p args an
              else if unpairRe p then expandUnpair (chosen q) ?ex p args an
              else if cadrRe p then expandCadr ?ex p args an
              else if setCadrRe p then expandSetCadr ?ex p args an
              else if mapCadrRe p then expandMapCadr ?ex p args an
              else if diipRe p then expandDiip ?ex p args
              else if duupRe p then expandDuup (chosen q) ?ex p args an
              else Inr ?ex) = Inr e"
      using assms(1) unfolding expandMacros.simps expandPrim_def Let_def bindR_eq_Inr by blast
    show ?thesis
    proof (cases found)
      case None
      from f(2) [unfolded None option.case] show ?thesis
        by (elim either_branch) (use pair unpair cadr set map diip duup same in \<open>auto\<close>)
    next
      case (Some e')
      with f switch show ?thesis by simp
    qed
  qed
  then have "e = ?ex \<or> macro_free q e"
  proof cases
    case switch
    then show ?thesis by (rule switch_free [OF _ assms(2)])
  next
    case pair
    then show ?thesis using pair_free by blast
  next
    case unpair
    then show ?thesis by (rule unpair_free)
  next
    case cadr
    then show ?thesis using cadr_free by blast
  next
    case set
    then show ?thesis using set_free by blast
  next
    case map
    then show ?thesis using map_free [OF _ assms(2)] by blast
  next
    case diip
    then show ?thesis using diip_free [OF _ assms(2)] by blast
  next
    case duup
    then show ?thesis by (rule duup_free)
  qed blast
  moreover have "e = ?ex \<Longrightarrow> macro_free q e" using assms by (cases args) (simp_all add: macro_free.simps(1))
  ultimately show ?thesis by blast
qed

section \<open>Parsing\<close>

text \<open>Macros are expanded, and global constants are replaced by expressions without macros.\<close>

definition expands :: "parser_options \<Rightarrow> bool" where
  "expands opt \<longleftrightarrow> opt_expandMacros opt \<noteq> Some False \<and>
     (\<forall>m h v. opt_expandGlobalConstant opt = Some m \<longrightarrow> m h = Some v \<longrightarrow> macro_free (opt_protocol opt) v)"

abbreviation free :: "parser_options \<Rightarrow> expr \<Rightarrow> bool" where
  "free opt \<equiv> macro_free (opt_protocol opt)"

lemma constant_fixed: "expandMacros q (Prim ''constant'' args an) = Inr (Prim ''constant'' args an)"
  by (simp add: expandMacros.simps expandPrim_def switch_none regexes between_def)

lemma expand_free:
  assumes "expands opt" and "expand opt p args an = Inr e" and "list_all (free opt) (args_of args)"
  shows "free opt e"
proof (cases "\<exists>m. opt_expandGlobalConstant opt = Some m \<and> p = ''constant''")
  case True
  then obtain m where m: "opt_expandGlobalConstant opt = Some m" "e = expandGlobalConstants (Prim ''constant'' args an) m"
    using assms(2) by (auto simp: expand_def)
  have "free opt (Prim ''constant'' args an)" using assms(3) by (cases args) (simp_all add: macro_free.simps(1) constant_fixed)
  moreover have "e = Prim ''constant'' args an \<or> (\<exists>h. m h = Some e)"
    unfolding m(2) by (cases "(Prim ''constant'' args an, m)" rule: expandGlobalConstants.cases) (auto split: option.split)
  ultimately show ?thesis using assms(1) m(1) unfolding expands_def by blast
next
  case False
  have on: "opt_expandMacros opt \<noteq> Some False" using assms(1) by (simp add: expands_def)
  have "expand opt p args an = run_macros (opt_protocol opt) (Prim p args an)"
    using False on by (cases "opt_expandGlobalConstant opt"; cases "opt_expandMacros opt") (simp_all add: expand_def Let_def)
  then have "expandMacros (opt_protocol opt) (Prim p args an) = Inr e"
    using assms(2) by (simp add: run_macros_def split: sum.splits)
  then show ?thesis using assms(3) by (rule expansion_free)
qed

text \<open>The results of the recursive descent.\<close>

definition gives :: "('a \<Rightarrow> bool) \<Rightarrow> 'a pres \<Rightarrow> bool" where
  "gives P r \<longleftrightarrow> (\<forall>x. r = Inr x \<longrightarrow> P x)"

lemma gives_simps [simp]: "gives P (Inl e)" "gives P (Inr x) \<longleftrightarrow> P x"
  by (simp_all add: gives_def)

lemma gives_bind: "(\<And>x. m = Inr x \<Longrightarrow> gives P (k x)) \<Longrightarrow> gives P (bindR m k)"
  by (cases m) simp_all

lemma givesD: "gives P r \<Longrightarrow> r = Inr x \<Longrightarrow> P x"
  by (simp add: gives_def)

lemma args_of_push [simp]: "args_of (push args e) = args_of args @ [e]"
  by (cases args) (simp_all add: push_def)

lemma parse_free:
  assumes "expands opt"
  shows "gives (\<lambda>x. free opt (fst x)) (parseExpr fuel opt s tok)
   \<and> gives (\<lambda>x. free opt (fst x)) (parseListExpr fuel opt s tok)
   \<and> (list_all (free opt) (args_of args) \<longrightarrow>
        gives (\<lambda>x. list_all (free opt) (args_of (fst (fst x)))) (listLoop fuel opt s br args annots)
      \<and> gives (\<lambda>x. list_all (free opt) (args_of (fst (fst x)))) (argsLoop fuel opt s args annots))
   \<and> (list_all (free opt) seq \<longrightarrow> gives (\<lambda>x. list_all (free opt) (fst x)) (seqLoop fuel opt s br pend seq))"
proof (induction fuel arbitrary: s tok br args annots pend seq)
  case (Suc fuel)
  have E: "gives (\<lambda>x. free opt (fst x)) (parseExpr fuel opt s tok)" for s tok using Suc by blast
  have L: "gives (\<lambda>x. free opt (fst x)) (parseListExpr fuel opt s tok)" for s tok using Suc by blast
  have LL: "list_all (free opt) (args_of args) \<Longrightarrow> gives (\<lambda>x. list_all (free opt) (args_of (fst (fst x)))) (listLoop fuel opt s br args annots)"
    for s br args annots using Suc by blast
  have AL: "list_all (free opt) (args_of args) \<Longrightarrow> gives (\<lambda>x. list_all (free opt) (args_of (fst (fst x)))) (argsLoop fuel opt s args annots)"
    for s args annots using Suc by blast
  have SL: "list_all (free opt) seq \<Longrightarrow> gives (\<lambda>x. list_all (free opt) (fst x)) (seqLoop fuel opt s br pend seq)" for s br pend seq
    using Suc by blast
  have X: "gives (free opt) (expand opt p args an)" if "list_all (free opt) (args_of args)" for p args an
    using expand_free [OF assms _ that] by (auto simp: gives_def)
  have 1: "gives (\<lambda>x. free opt (fst x)) (parseExpr (Suc fuel) opt s tok)"
    using L by (auto split: token.split option.split intro!: gives_bind dest: givesD [OF SL [of "[]"], simplified] givesD [OF X [of None], simplified])
  have 2: "gives (\<lambda>x. free opt (fst x)) (parseListExpr (Suc fuel) opt s tok)"
    by (auto simp: Let_def split: token.split
        intro!: gives_bind dest!: givesD [OF LL [of None], simplified])
      (rule expand_free [OF assms]; assumption)+
  have 3: "gives (\<lambda>x. list_all (free opt) (args_of (fst (fst x)))) (listLoop (Suc fuel) opt s br args annots)"
    if "list_all (free opt) (args_of args)"
    using that by (auto split: option.split intro!: gives_bind LL dest!: givesD [OF E])
  have 4: "gives (\<lambda>x. list_all (free opt) (args_of (fst (fst x)))) (argsLoop (Suc fuel) opt s args annots)"
    if "list_all (free opt) (args_of args)"
    using that by (auto split: option.split intro!: gives_bind AL dest!: givesD [OF E])
  have item: "free opt itm" if "(case tk of Ident v \<Rightarrow> bindR (argsLoop fuel opt s1 None None) (\<lambda>((args, annots), n, s2).
          bindR (expand opt v args annots) (\<lambda>itm. Inr (itm, Some n, s2)))
      | _ \<Rightarrow> bindR (parseExpr fuel opt s1 tk) (\<lambda>(ex, s2). Inr (ex, None, s2))) = Inr (itm, y)" for tk s1 itm y
    using that by (auto simp: bindR_eq_Inr split: token.splits dest!: givesD [OF E] givesD [OF AL [of None], simplified] dest: givesD [OF X])
  have 5: "gives (\<lambda>x. list_all (free opt) (fst x)) (seqLoop (Suc fuel) opt s br pend seq)" if "list_all (free opt) seq"
    using that by (auto split: option.split intro!: gives_bind SL dest!: item simp del: bindR_simps)
  from 1 2 3 4 5 show ?case by blast
qed simp

lemma parse_json_free: "expands opt \<Longrightarrow> gives (free opt) (parseJSON opt j)"
proof (induction j rule: measure_induct_rule [where f = size])
  case (less j)
  have items: "list_all (free opt) ys"
    if "mapR (\<lambda>j. if is_object j then parseJSON opt j else Inl err) js = Inr ys" "\<And>x. x \<in> set js \<Longrightarrow> size x < size j" for err js ys
    using that(1) by (rule mapR_all) (use less that(2) in \<open>auto split: if_splits dest: givesD\<close>)
  show ?case
  proof (cases j)
    case (JArray js)
    have "x \<in> set js \<Longrightarrow> size x < size j" for x
      using size_list_estimation' [of x js "size x" size] JArray by simp
    with items show ?thesis unfolding JArray by (subst parseJSON.simps) (auto intro!: gives_bind)
  next
    case (JObject ps)
    have "free opt e" if r: "parseJSON opt (JObject ps) = Inr e" for e
  proof (cases "map_of ps ''prim''")
    case None
    then show ?thesis using r by (auto simp: parseJSON.simps split: if_splits option.splits json.splits)
  next
    case (Some pj)
    obtain prim annots args where p: "map_of ps ''prim'' = Some (JString prim)" "array_prop ''annots'' ps = Some annots"
        "array_prop ''args'' ps = Some args"
      using r Some by (auto simp: parseJSON.simps split: option.splits json.splits)
    obtain an xs where an: "(case annots of None \<Rightarrow> Inr None | Some js \<Rightarrow> bindR (all_strings js) (\<lambda>ss. Inr (Some ss))) = Inr an"
      and xs: "(case args of None \<Rightarrow> Inr None
       | Some js \<Rightarrow> bindR (mapR (\<lambda>j. if is_object j then parseJSON opt j else Inl (JSONParseError ''unexpected argument'')) js)
           (\<lambda>xs. Inr (Some xs))) = Inr xs" and e: "expand opt prim xs an = Inr e"
      using r p by (auto simp: parseJSON.simps bindR_eq_Inr)
    have "list_all (free opt) (args_of xs)"
    proof (cases args)
      case None
      then show ?thesis using xs by simp
    next
      case (Some js)
      then obtain ys where ys: "xs = Some ys"
          "mapR (\<lambda>j. if is_object j then parseJSON opt j else Inl (JSONParseError ''unexpected argument'')) js = Inr ys"
        using xs by (auto simp: bindR_eq_Inr)
      have "x \<in> set js \<Longrightarrow> size x < size j" for x
        using array_prop_size [of "''args''" ps js x] p(3) Some JObject by simp
      then have "list_all (free opt) ys" by (rule items [OF ys(2)])
      then show ?thesis using ys(1) by simp
    qed
    with less.prems e show ?thesis by (rule expand_free)
  qed
  then show ?thesis unfolding JObject by (simp add: gives_def)
  qed (simp_all add: parseJSON.simps)
qed

text \<open>The entry points.\<close>

lemma parsed_free:
  assumes "expands opt"
  shows "parseMichelineExpression opt src = Inr (Some e) \<Longrightarrow> free opt e"
    and "parseData opt src = Inr (Some e) \<Longrightarrow> free opt e"
    and "parseScript opt src = Inr (Some xs) \<Longrightarrow> list_all (free opt) xs"
    and "parseJSON opt j = Inr e \<Longrightarrow> free opt e"
proof -
  note p = parse_free [OF assms]
  show "parseMichelineExpression opt src = Inr (Some e) \<Longrightarrow> free opt e"
    using p by (fastforce simp: parseMichelineExpression_def bindR_eq_Inr gives_def split: option.splits)
  show "parseData opt src = Inr (Some e) \<Longrightarrow> free opt e"
    using p by (fastforce simp: parseData_def parseList_def bindR_eq_Inr gives_def split: option.splits)
  show "parseScript opt src = Inr (Some xs) \<Longrightarrow> list_all (free opt) xs"
    using p [where seq = "[]"] by (fastforce simp: parseScript_def parseSequence_def Let_def bindR_eq_Inr gives_def split: option.splits)
  show "parseJSON opt j = Inr e \<Longrightarrow> free opt e" using parse_json_free [OF assms] by (rule givesD)
qed

end
