(* ===== verification/Emitter.thy ===== *)
theory Emitter
  imports Parser
begin

text \<open>
  The Micheline emitter (\<open>micheline-emitter.ts\<close>).  A formatter is its options and a nesting
  level.  Source references are not part of the values, so macros are never folded back:
  this is \<open>emitMicheline\<close> with \<open>foldMacros\<close> false.
\<close>

record FormatOptions =
  opt_indent :: "string option"
  opt_newline :: "string option"

definition indent :: "FormatOptions \<Rightarrow> nat \<Rightarrow> string" where
  "indent f lev = (case opt_indent f of Some i \<Rightarrow> concat (replicate lev i) | None \<Rightarrow> [])"

text \<open>An empty newline counts as none.\<close>

definition lf :: "FormatOptions \<Rightarrow> string" where
  "lf f = (case opt_newline f of Some n \<Rightarrow> n | None \<Rightarrow> [])"

definition lfsp :: "FormatOptions \<Rightarrow> string" where
  "lfsp f = (case opt_newline f of Some n \<Rightarrow> if n = [] then '' '' else n | None \<Rightarrow> '' '')"

fun nonempty :: "'a list option \<Rightarrow> bool" where
  "nonempty None = False"
| "nonempty (Some xs) = (xs \<noteq> [])"

fun hasArgs :: "expr \<Rightarrow> bool" where
  "hasArgs (Prim p args annots) = (nonempty annots \<or> nonempty args)"
| "hasArgs _ = False"

fun is_seq :: "expr \<Rightarrow> bool" where
  "is_seq (Seq xs) = True"
| "is_seq _ = False"

definition isMultiline :: "expr list option \<Rightarrow> bool" where
  "isMultiline args = list_ex (\<lambda>a. is_seq a \<or> hasArgs a) (args_of args)"

definition emit_annots :: "string list option \<Rightarrow> string" where
  "emit_annots annots = concat (map (\<lambda>a. CHR '' '' # a) (case annots of None \<Rightarrow> [] | Some xs \<Rightarrow> xs))"

text \<open>
  \<open>emitArgs f multi lev d\<close> writes the arguments \<open>d\<close> levels below \<open>lev\<close> when they go on lines
  of their own, else at \<open>lev\<close>; \<open>emitItems\<close> is the loop of \<open>emitSeq\<close>.
\<close>

fun emitExpr :: "FormatOptions \<Rightarrow> nat \<Rightarrow> expr \<Rightarrow> string"
and emitArgs :: "FormatOptions \<Rightarrow> bool \<Rightarrow> nat \<Rightarrow> nat \<Rightarrow> expr list \<Rightarrow> string"
and emitItems :: "FormatOptions \<Rightarrow> nat \<Rightarrow> expr list \<Rightarrow> string"
and emitItem :: "FormatOptions \<Rightarrow> nat \<Rightarrow> expr \<Rightarrow> string"
where
  "emitExpr f lev (Seq xs) = ''{'' @ lf f @ emitItems f lev xs @ indent f lev @ ''}''"
| "emitExpr f lev (StringLit s) = json_stringify s"
| "emitExpr f lev (IntLit i) = i"
| "emitExpr f lev (BytesLit b) = ''0x'' @ b"
| "emitExpr f lev (Prim p None annots) =
     (if nonempty annots then ''('' @ p @ emit_annots annots @ '')'' else p)"
| "emitExpr f lev (Prim p (Some xs) annots) =
     (if nonempty annots \<or> xs \<noteq> [] then
        ''('' @ p @ emit_annots annots @ emitArgs f (isMultiline (Some xs)) lev 1 xs @ '')''
      else p)"
| "emitArgs f multi lev d [] = []"
| "emitArgs f multi lev d (a # as) =
     (if multi then lfsp f @ indent f (lev + d) @ emitExpr f (lev + d) a
      else '' '' @ emitExpr f lev a) @ emitArgs f multi lev d as"
| "emitItems f lev [] = []"
| "emitItems f lev (e # es) =
     indent f (lev + 1) @ emitItem f lev e @ (if es \<noteq> [] then '';'' @ lfsp f else lf f) @ emitItems f lev es"
| "emitItem f lev (Prim p None annots) = p @ emit_annots annots"
| "emitItem f lev (Prim p (Some xs) annots) =
     p @ emit_annots annots @ emitArgs f (isMultiline (Some xs)) lev 2 xs"
| "emitItem f lev e = emitExpr f (lev + 1) e"

definition emitMicheline :: "expr \<Rightarrow> FormatOptions \<Rightarrow> string" where
  "emitMicheline e f = emitExpr f 0 e"

end
