(* ===== verification/ParserProofs.thy ===== *)
theory ParserProofs
  imports Emitter ParserTermination Consumer
begin

text \<open>
  The parser reads back what the emitter writes: tokens, JSON string literals, the loops of the
  recursive descent, and the fuel, which never runs out at the entry points.  What a text
  parses to is the expression with every primitive application expanded bottom-up, and the
  parser of JSON-encoded Michelson gives the same.
\<close>

section \<open>White space and tokens\<close>

definition blank :: "string \<Rightarrow> bool" where
  "blank w = list_all is_space w"

lemma blank_simps [simp]: "blank []" "blank (c # w) = (is_space c \<and> blank w)" "blank (v @ w) = (blank v \<and> blank w)"
  by (simp_all add: blank_def)

lemma skip_blank [simp]: "blank w \<Longrightarrow> skipSpace (w @ s) = skipSpace s"
proof (induction w)
  case (Cons c w)
  then show ?case by (subst skipSpace.simps) (simp add: space_len_def)
qed simp

definition solid :: "char \<Rightarrow> bool" where
  "solid c \<longleftrightarrow> \<not> is_space c \<and> (of_char c :: nat) < 128"

lemma skip_solid: "solid c \<Longrightarrow> skipSpace (c # s) = c # s"
  by (subst skipSpace.simps) (auto simp: solid_def space_len_def wide_space_def split: if_splits)

lemma scan_blank: "blank w \<Longrightarrow> scan b (w @ s) = scan b s"
  by (subst (1 2) scan.simps) simp

lemma scan_solid:
  assumes "solid c" "scan_token (c # s) = Inr (t, r)" "\<And>v. t \<noteq> Comment v"
  shows "scan b (c # s) = Inr (Some (t, r))"
  using assms by (subst scan.simps) (auto simp: Let_def skip_solid split: token.splits)

lemma next_blank: "blank w \<Longrightarrow> next_token (w @ s) = next_token s"
  by (simp add: next_token_def scan_blank)

lemma next_solid:
  assumes "solid c" "scan_token (c # s) = Inr (t, r)" "\<And>v. t \<noteq> Comment v"
  shows "next_token (c # s) = Inr (Some (t, r))"
  using scan_solid [OF assms] by (simp add: next_token_def)

text \<open>What may follow a token.\<close>

definition delim :: "string \<Rightarrow> bool" where
  "delim r \<longleftrightarrow> r = [] \<or> is_space (hd r) \<or> hd r \<in> set '';)}''"

lemma delim_stops:
  assumes "delim (c # r)"
  shows "\<not> isIdent c" "\<not> is_hex c" "\<not> is_digit c" "c \<noteq> CHR ''x''"
proof -
  have "c \<in> set '';)}'' \<or> (of_char c :: nat) = 32 \<or> (9 \<le> (of_char c :: nat) \<and> (of_char c :: nat) \<le> 13)"
    using assms by (auto simp: delim_def is_space_def Let_def)
  then have n: "(of_char c :: nat) \<in> {59, 41, 125, 32} \<union> {9..13}" by auto
  then have d: "dig_val c = None" by (auto simp: dig_val_def Let_def)
  show "\<not> is_hex c" "\<not> is_digit c" using d by (simp_all add: is_hex_def is_digit_def)
  show "c \<noteq> CHR ''x''" using n by auto
  have "(of_char c :: nat) \<noteq> of_char x" if "x \<in> set ''@%_.''" for x using n that by auto
  then have "c \<notin> set ''@%_.''" by blast
  then show "\<not> isIdent c" using n by (auto simp: isIdent_def Let_def)
qed

lemma takeWhile_stop:
  assumes "list_all P xs" "r = [] \<or> \<not> P (hd r)"
  shows "takeWhile P (xs @ r) = xs" "dropWhile P (xs @ r) = r"
  using assms by (induction xs) (cases r; auto)+

lemma delim_take:
  assumes "delim r" "list_all P xs" "\<And>c. delim (c # r') \<Longrightarrow> \<not> P c" 
  shows "takeWhile P (xs @ r) = xs" "dropWhile P (xs @ r) = r"
proof -
  have "r = [] \<or> \<not> P (hd r)" using assms(1,3) by (cases r) (auto simp: delim_def)
  then show "takeWhile P (xs @ r) = xs" "dropWhile P (xs @ r) = r" using takeWhile_stop assms(2) by blast+
qed

definition ident_ok :: "string \<Rightarrow> bool" where
  "ident_ok p \<longleftrightarrow> p \<noteq> [] \<and> isIdentStart (hd p) \<and> list_all isIdent (tl p)"

definition annotation_ok :: "string \<Rightarrow> bool" where
  "annotation_ok a \<longleftrightarrow> ident_ok a \<and> hd a \<in> set ''@%:''"

definition prim_ok :: "string \<Rightarrow> bool" where
  "prim_ok p \<longleftrightarrow> ident_ok p \<and> hd p \<notin> set ''@%:''"

lemma isIdentStart_solid: "isIdentStart c \<Longrightarrow> solid c"
  by (auto simp: isIdentStart_def solid_def is_space_def Let_def)

lemma next_ident:
  assumes "ident_ok p" "delim r"
  shows "next_token (p @ r) = Inr (Some (Ident p, r))"
proof -
  obtain c q where p: "p = c # q" using assms(1) by (cases p) (auto simp: ident_ok_def)
  then have c: "isIdentStart c" "list_all isIdent q" using assms(1) by (simp_all add: ident_ok_def)
  have "takeWhile isIdent (q @ r) = q" "dropWhile isIdent (q @ r) = r"
    using delim_take [OF assms(2) c(2)] delim_stops(1) by blast+
  then have "scan_token (c # q @ r) = Inr (Ident p, r)" using c by (simp add: scan_token_def p)
  then show ?thesis using next_solid [OF isIdentStart_solid [OF c(1)]] p by simp
qed

lemma next_punct:
  assumes "c \<in> set ''(){};''"
  shows "next_token (c # r) = Inr (Some (Punct c, r))"
proof -
  have n: "(of_char c :: nat) \<in> {40, 41, 123, 125, 59}" using assms by auto
  have "(of_char c :: nat) \<noteq> of_char x" if "x \<in> set '':@%_0-#/'' \<union> {CHR 0x22}" for x using n that by auto
  then have c: "c \<notin> set '':@%_0-#/'' \<union> {CHR 0x22}" by blast
  then have "\<not> isIdentStart c" "solid c" "\<not> is_digit c"
    using n by (auto simp: isIdentStart_def solid_def is_space_def is_digit_def dig_val_def Let_def)
  moreover from this have "scan_token (c # r) = Inr (Punct c, r)"
    using c assms by (simp add: scan_token_def)
  ultimately show ?thesis using next_solid by blast
qed

lemma digit_facts: "is_digit c \<Longrightarrow> \<not> isIdentStart c \<and> solid c"
proof -
  assume "is_digit c"
  then have "48 \<le> (of_char c :: nat) \<and> (of_char c :: nat) \<le> 57"
    by (auto simp: is_digit_def dig_val_def Let_def split: option.splits if_splits)
  then have n: "(of_char c :: nat) \<in> {48..57}" by simp
  have "(of_char c :: nat) \<noteq> of_char x" if "x \<in> set '':@%_''" for x using n that by auto
  then have "c \<notin> set '':@%_''" by blast
  then show ?thesis using n by (auto simp: isIdentStart_def solid_def is_space_def Let_def)
qed

lemma next_number:
  assumes "intRe i" "delim r"
  shows "next_token (i @ r) = Inr (Some (Number i, r))"
proof -
  let ?neg = "i \<noteq> [] \<and> hd i = CHR ''-''"
  define ds where "ds = (if ?neg then tl i else i)"
  have ds: "ds \<noteq> []" "list_all is_digit ds" using assms(1) by (auto simp: intRe_def ds_def Let_def)
  have tk: "takeWhile is_digit (ds @ r) = ds" "dropWhile is_digit (ds @ r) = r"
    using delim_take [OF assms(2) ds(2)] delim_stops(3) by blast+
  show ?thesis
  proof (cases ?neg)
    case True
    then have i: "i = CHR ''-'' # ds" by (cases i) (auto simp: ds_def)
    have "scan_token (CHR ''-'' # ds @ r) = Inr (Number i, r)"
      using ds tk by (simp add: scan_token_def isIdentStart_def i Let_def)
    then show ?thesis using next_solid [of "CHR ''-''"] by (simp add: i solid_def is_space_def)
  next
    case False
    then have i: "i = ds" by (auto simp: ds_def)
    obtain c q where c: "ds = c # q" using ds(1) by (cases ds) auto
    have dc: "is_digit c" "\<not> isIdentStart c" "solid c" using ds(2) digit_facts by (auto simp: c)
    have "c \<noteq> CHR ''-''" using dc(1) by (auto simp: is_digit_def dig_val_def)
    moreover have "take 2 (c # q @ r) \<noteq> ''0x''"
    proof
      assume "take 2 (c # q @ r) = ''0x''"
      then have "take 1 (q @ r) = ''x''" by (simp add: numeral_2_eq_2)
      then show False
        using ds(2) delim_stops(4) assms(2) by (cases q; cases r) (auto simp: c is_digit_def dig_val_def)
    qed
    ultimately have "scan_token (c # q @ r) = Inr (Number i, r)"
      using dc tk by (simp add: scan_token_def c i Let_def)
    then show ?thesis using next_solid [OF dc(3)] by (simp add: i c)
  qed
qed

lemma next_bytes:
  assumes "bytesRe b" "delim r"
  shows "next_token (''0x'' @ b @ r) = Inr (Some (Bytes (''0x'' @ b), r))"
proof -
  have b: "list_all is_hex b" "even (length b)" using assms(1) by (auto simp: bytesRe_def)
  have "takeWhile is_hex (b @ r) = b" "dropWhile is_hex (b @ r) = r"
    using delim_take [OF assms(2) b(1)] delim_stops(2) by blast+
  then have "scan_token (''0x'' @ b @ r) = Inr (Bytes (''0x'' @ b), r)"
    using b(2) by (simp add: scan_token_def isIdentStart_def)
  then show ?thesis using next_solid [of "CHR ''0''"] by (simp add: solid_def is_space_def)
qed

section \<open>String literals\<close>

lemma string_end_plain:
  assumes "list_all (\<lambda>c. c \<noteq> CHR 0x22 \<and> c \<noteq> CHR 0x5C) w"
  shows "string_end False (w @ t) = map_option (\<lambda>(v, r). (w @ v, r)) (string_end False t)"
  using assms by (induction w; cases "string_end False t") auto

lemma dig_plain: "d < 36 \<Longrightarrow> dig d \<noteq> CHR 0x22 \<and> dig d \<noteq> CHR 0x5C \<and> is_hex (dig (d mod 16))"
proof -
  assume d: "d < 36"
  then have "dig_val (dig d) = Some d" by simp
  moreover have "dig_val (CHR 0x22) = None" "dig_val (CHR 0x5C) = None" by (simp_all add: dig_val_def)
  ultimately have "dig d \<noteq> CHR 0x22" "dig d \<noteq> CHR 0x5C" by force+
  moreover have "is_hex (dig (d mod 16))" by (simp add: is_hex_def)
  ultimately show ?thesis by simp
qed

lemma fixd_chars: "list_all (\<lambda>c. c \<noteq> CHR 0x22 \<and> c \<noteq> CHR 0x5C) (fixd 16 k n) \<and> list_all is_hex (fixd 16 k n)"
proof (induction k arbitrary: n)
  case (Suc k)
  then show ?case using dig_plain [of "n mod 16"] by simp
qed simp

lemma string_end_escape:
  "string_end False (escape_char c @ t) = map_option (\<lambda>(v, r). (escape_char c @ v, r)) (string_end False t)"
proof -
  have esc: "string_end False (CHR 0x5C # x # u) = map_option (\<lambda>(v, r). (CHR 0x5C # x # v, r)) (string_end False u)" for x u
    by (cases "string_end False u") auto
  show ?thesis
    using string_end_plain [OF fixd_chars [THEN conjunct1], of 4 "of_char c" t]
    by (cases "string_end False t") (auto simp: escape_char_def Let_def esc simp del: fixd.simps)
qed

lemma string_end_escapes:
  "string_end False (concat (map escape_char s) @ CHR 0x22 # r) = Some (concat (map escape_char s) @ [CHR 0x22], r)"
  by (induction s) (simp_all add: string_end_escape)

lemma hex4_fixd: "n < 65536 \<Longrightarrow> hex4 (fixd 16 4 n) = Some n"
  using fixd_chars [of 4 n] by (simp add: hex4_def of_digits_fixd del: fixd.simps)

lemma json_body_escape: "json_body (escape_char c @ t) = map_option (\<lambda>u. c # u) (json_body t)"
proof -
  let ?n = "of_char c :: nat"
  have esc: "json_body (CHR 0x5C # e # r) = map_option (\<lambda>u. x # u) (json_body r)"
    if "e \<noteq> CHR ''u''" "simple_escape e = Some x" for e x r
    using that by (subst json_body.simps) simp
  have uni: "json_body (CHR 0x5C # CHR ''u'' # fixd 16 4 ?n @ t) = map_option (\<lambda>u. c # u) (json_body t)"
    if "?n < 32"
  proof -
    have "utf8_char ?n = [c]" using that by (simp add: utf8_char_def)
    then have "(@) (utf8_char ?n) = (#) c" by (simp add: fun_eq_iff)
    moreover have "hex4 (fixd 16 4 ?n) = Some ?n" using hex4_fixd that by simp
    ultimately show ?thesis
      using that by (subst json_body.simps) (simp del: fixd.simps split: option.split)
  qed
  have plain: "json_body (c # t) = map_option (\<lambda>u. c # u) (json_body t)"
    if "\<not> ?n < 32" "c \<noteq> CHR 0x22" "c \<noteq> CHR 0x5C"
    using that by (subst json_body.simps) simp
  consider (q) "c = CHR 0x22 \<or> c = CHR 0x5C" | (b) "?n = 8" | (f) "?n = 12" | (n) "?n = 10" | (r) "?n = 13"
    | (t) "?n = 9" | (u) "?n < 32" "?n \<notin> {8, 9, 10, 12, 13}" "c \<noteq> CHR 0x22" "c \<noteq> CHR 0x5C"
    | (plain) "\<not> ?n < 32" "c \<noteq> CHR 0x22" "c \<noteq> CHR 0x5C" by blast
  then show ?thesis
  proof cases
    case q
    then show ?thesis using esc [of c c t] by (auto simp: escape_char_def simple_escape_def Let_def)
  next
    case b
    then have "(of_char c :: nat) = of_char (CHR 0x08)" by simp
    then have "c = CHR 0x08" by (simp only: of_char_eq_iff)
    then show ?thesis using esc [of "CHR ''b''" c t] by (simp add: escape_char_def simple_escape_def)
  next
    case f
    then have "(of_char c :: nat) = of_char (CHR 0x0C)" by simp
    then have "c = CHR 0x0C" by (simp only: of_char_eq_iff)
    then show ?thesis using esc [of "CHR ''f''" c t] by (simp add: escape_char_def simple_escape_def)
  next
    case n
    then have "(of_char c :: nat) = of_char (CHR 0x0A)" by simp
    then have "c = CHR 0x0A" by (simp only: of_char_eq_iff)
    then show ?thesis using esc [of "CHR ''n''" c t] by (simp add: escape_char_def simple_escape_def)
  next
    case r
    then have "(of_char c :: nat) = of_char (CHR 0x0D)" by simp
    then have "c = CHR 0x0D" by (simp only: of_char_eq_iff)
    then show ?thesis using esc [of "CHR ''r''" c t] by (simp add: escape_char_def simple_escape_def)
  next
    case t
    then have "(of_char c :: nat) = of_char (CHR 0x09)" by simp
    then have "c = CHR 0x09" by (simp only: of_char_eq_iff)
    then show ?thesis using esc [of "CHR ''t''" c t] by (simp add: escape_char_def simple_escape_def)
  next
    case u
    then show ?thesis using uni by (simp add: escape_char_def Let_def del: fixd.simps)
  next
    case plain
    then show ?thesis using \<open>_ \<Longrightarrow> _ \<Longrightarrow> _ \<Longrightarrow> json_body (c # t) = _\<close> by (auto simp: escape_char_def Let_def)
  qed
qed

lemma json_round_trip: "json_parse_string (json_stringify s) = Some s"
proof -
  have "json_body (concat (map escape_char s)) = Some s"
  proof (induction s)
    case Nil
    show ?case by (subst json_body.simps) simp
  qed (simp add: json_body_escape)
  then show ?thesis by (simp add: json_parse_string_def json_stringify_def butlast_append)
qed

lemma next_string: "next_token (json_stringify s @ r) = Inr (Some (StringTok (json_stringify s), r))"
proof -
  let ?t = "concat (map escape_char s)"
  have "solid CHR 0x22" by (simp add: solid_def is_space_def)
  moreover have "scan_token (CHR 0x22 # ?t @ CHR 0x22 # r) = Inr (StringTok (CHR 0x22 # ?t @ [CHR 0x22]), r)"
    using string_end_escapes [of s r]
    by (simp add: scan_token_def isIdentStart_def is_digit_def dig_val_def Let_def del: string_end.simps)
  ultimately show ?thesis using next_solid by (simp add: json_stringify_def)
qed

section \<open>What a text parses to\<close>

text \<open>Every primitive application is expanded, the arguments first.\<close>

fun deep_expand :: "parser_options \<Rightarrow> expr \<Rightarrow> expr pres" where
  "deep_expand opt (Prim p None an) = expand opt p None an"
| "deep_expand opt (Prim p (Some xs) an) =
     bindR (mapR (deep_expand opt) xs) (\<lambda>ys. expand opt p (Some ys) an)"
| "deep_expand opt (Seq xs) = bindR (mapR (deep_expand opt) xs) (\<lambda>ys. Inr (Seq ys))"
| "deep_expand opt e = Inr e"

text \<open>Expressions with a concrete syntax: no empty arrays, names and annotations that are
  identifiers, and well-formed numerals and bytes.\<close>

fun syntax_ok :: "expr \<Rightarrow> bool" where
  "syntax_ok (Prim p args an) =
     (prim_ok p \<and> (case an of None \<Rightarrow> True | Some as \<Rightarrow> as \<noteq> [] \<and> list_all annotation_ok as)
      \<and> (case args of None \<Rightarrow> True | Some xs \<Rightarrow> xs \<noteq> [] \<and> list_all syntax_ok xs))"
| "syntax_ok (StringLit s) = True"
| "syntax_ok (IntLit i) = intRe i"
| "syntax_ok (BytesLit b) = bytesRe b"
| "syntax_ok (Seq xs) = list_all syntax_ok xs"

definition format_ok :: "FormatOptions \<Rightarrow> bool" where
  "format_ok f \<longleftrightarrow> blank (case opt_indent f of Some i \<Rightarrow> i | None \<Rightarrow> [])
     \<and> blank (case opt_newline f of Some n \<Rightarrow> n | None \<Rightarrow> [])"

lemma format_blank:
  assumes "format_ok f"
  shows "blank (indent f n)" "blank (lf f)" "blank (lfsp f)" "lfsp f \<noteq> []"
proof -
  have "blank (concat (replicate n i))" if "blank i" for i using that by (induction n) simp_all
  then show "blank (indent f n)" using assms by (auto simp: format_ok_def indent_def split: option.splits)
  show "blank (lf f)" "blank (lfsp f)" "lfsp f \<noteq> []"
    using assms by (auto simp: format_ok_def lf_def lfsp_def is_space_def split: option.splits)
qed

text \<open>\<open>f\<close> gives \<open>r\<close> for every amount of fuel from some point on.\<close>

definition settles :: "(nat \<Rightarrow> 'a) \<Rightarrow> 'a \<Rightarrow> bool" where
  "settles f r \<longleftrightarrow> (\<exists>n. \<forall>g\<ge>n. f g = r)"

lemma settles_const [simp]: "settles (\<lambda>g. r) r"
  by (simp add: settles_def)

lemma settles_step: "(\<And>g. f (Suc g) = h g) \<Longrightarrow> settles h r \<Longrightarrow> settles f r"
proof -
  assume "\<And>g. f (Suc g) = h g" "settles h r"
  then obtain n where "\<forall>g\<ge>n. f (Suc g) = r" by (auto simp: settles_def)
  then have "\<forall>g\<ge>Suc n. f g = r" by (metis Suc_le_D Suc_le_mono)
  then show ?thesis unfolding settles_def by blast
qed

lemma settles_bind:
  assumes "settles m r" "\<And>x. r = Inr x \<Longrightarrow> settles (\<lambda>g. k g x) (q x)"
  shows "settles (\<lambda>g. bindR (m g) (k g)) (bindR r q)"
proof -
  obtain n where n: "\<forall>g\<ge>n. m g = r" using assms(1) by (auto simp: settles_def)
  show ?thesis
  proof (cases r)
    case (Inl e)
    then have "\<forall>g\<ge>n. bindR (m g) (k g) = bindR r q" using n by simp
    then show ?thesis unfolding settles_def by blast
  next
    case (Inr x)
    then obtain l where "\<forall>g\<ge>l. k g x = q x" using assms(2) by (auto simp: settles_def)
    then have "\<forall>g\<ge>max n l. bindR (m g) (k g) = bindR r q" using n Inr by simp
    then show ?thesis unfolding settles_def by blast
  qed
qed

lemma settlesD: "settles f r \<Longrightarrow> \<exists>g\<ge>k. f g = r"
  unfolding settles_def by (metis nat_le_linear order_refl max.cobounded1 max.cobounded2)

text \<open>A text whose first token and the fuelled parser lead to a result.\<close>

definition reads_expr :: "parser_options \<Rightarrow> string \<Rightarrow> expr pres \<Rightarrow> string \<Rightarrow> bool" where
  "reads_expr opt t r rest \<longleftrightarrow>
     (\<exists>tok s. next_token t = Inr (Some (tok, s)) \<and> tok \<notin> {Punct CHR '')'', Punct CHR ''}'', Punct CHR '';''}
        \<and> \<not> isAnnotation tok \<and> settles (\<lambda>g. parseExpr g opt s tok) (bindR r (\<lambda>e. Inr (e, rest))))"

text \<open>Pushing several values.\<close>

definition pushes :: "'a list option \<Rightarrow> 'a list \<Rightarrow> 'a list option" where
  "pushes acc xs = (if xs = [] then acc else Some ((case acc of None \<Rightarrow> [] | Some ys \<Rightarrow> ys) @ xs))"

lemma pushes_simps [simp]: "pushes acc [] = acc" "pushes (push acc x) xs = pushes acc (x # xs)"
    "xs \<noteq> [] \<Longrightarrow> pushes None xs = Some xs"
  by (simp_all add: pushes_def push_def)

section \<open>The loops over annotations and arguments\<close>

lemma delim_space: "is_space c \<Longrightarrow> delim (c # s)"
  by (simp add: delim_def)

lemma delim_blank: "blank w \<Longrightarrow> w \<noteq> [] \<or> delim s \<Longrightarrow> delim (w @ s)"
  by (cases w) (simp_all add: delim_def)

lemma emit_annots_Some [simp]:
  "emit_annots None = []" "emit_annots (Some []) = []"
  "emit_annots (Some (a # as)) = CHR '' '' # a @ emit_annots (Some as)"
  by (simp_all add: emit_annots_def)

lemma delim_annots: "delim s \<Longrightarrow> delim (emit_annots an @ s)"
  by (cases an; cases "the an") (auto intro!: delim_space simp: is_space_def)

lemma next_annotation:
  assumes "annotation_ok a" "delim s"
  shows "next_token (CHR '' '' # a @ s) = Inr (Some (Ident a, s))" "isAnnotation (Ident a)"
proof -
  have "next_token ('' '' @ a @ s) = Inr (Some (Ident a, s))"
    using next_blank [of "'' ''" "a @ s"] next_ident [of a s] assms by (simp add: annotation_ok_def is_space_def)
  then show "next_token (CHR '' '' # a @ s) = Inr (Some (Ident a, s))" by simp
  show "isAnnotation (Ident a)" using assms(1) by (auto simp: annotation_ok_def isAnnotation_def ident_ok_def)
qed

text \<open>What the loops of \<open>parseListExpr\<close> and \<open>parseArgs\<close> have in common.\<close>

locale arg_loop =
  fixes opt :: parser_options
    and loop :: "nat \<Rightarrow> string \<Rightarrow> expr list option \<Rightarrow> string list option \<Rightarrow> 'r pres"
  assumes annot_step: "next_token s = Inr (Some (Ident a, s1)) \<Longrightarrow> isAnnotation (Ident a)
      \<Longrightarrow> loop (Suc g) s args an = loop g s1 args (push an a)"
    and arg_step: "next_token s = Inr (Some (tok, s1))
      \<Longrightarrow> tok \<notin> {Punct CHR '')'', Punct CHR ''}'', Punct CHR '';''} \<Longrightarrow> \<not> isAnnotation tok
      \<Longrightarrow> loop (Suc g) s args an = bindR (parseExpr g opt s1 tok) (\<lambda>(arg, s2). loop g s2 (push args arg) an)"
begin

lemma annots:
  assumes "list_all annotation_ok as" "delim s" "settles (\<lambda>g. loop g s args (pushes an as)) r"
  shows "settles (\<lambda>g. loop g (emit_annots (Some as) @ s) args an) r"
  using assms(1,3)
proof (induction as arbitrary: an)
  case (Cons a as)
  have "delim (emit_annots (Some as) @ s)" using assms(2) by (rule delim_annots)
  then have n: "next_token (CHR '' '' # a @ emit_annots (Some as) @ s) = Inr (Some (Ident a, emit_annots (Some as) @ s))"
    "isAnnotation (Ident a)"
    using next_annotation Cons.prems(1) by auto
  show ?case
    by (rule settles_step [OF _ Cons.IH [of "push an a"]]) (use annot_step [OF n] Cons.prems in simp_all)
qed simp

lemma arguments:
  assumes f: "format_ok f" and t: "delim t"
    and items: "\<And>a lev r. a \<in> set as \<Longrightarrow> delim r \<Longrightarrow> reads_expr opt (emitExpr f lev a @ r) (deep_expand opt a) r"
    and last: "\<And>ys. settles (\<lambda>g. loop g t (pushes args ys) an) (q ys)"
  shows "settles (\<lambda>g. loop g (emitArgs f m lev d as @ t) args an) (bindR (mapR (deep_expand opt) as) q)"
  using items last
proof (induction as arbitrary: args q)
  case Nil
  then show ?case using Nil(2) [of "[]"] by simp
next
  case (Cons a as)
  let ?rest = "emitArgs f m lev d as @ t"
  obtain w l where w: "emitArgs f m lev d (a # as) = w @ emitExpr f l a @ emitArgs f m lev d as" "blank w"
  proof (cases m)
    case True
    then show ?thesis
      using that [of "lfsp f @ indent f (lev + d)" "lev + d"] format_blank [OF f] by simp
  qed (use that [of "'' ''" lev] in \<open>simp add: is_space_def\<close>)
  have dl: "delim ?rest"
  proof (cases as)
    case Nil
    then show ?thesis using t by simp
  next
    case Cons': (Cons b bs)
    show ?thesis
    proof (cases m)
      case True
      then show ?thesis
        using format_blank [OF f] Cons' by (cases "lfsp f") (auto intro: delim_space)
    qed (simp add: Cons' delim_space is_space_def)
  qed
  have "reads_expr opt (emitExpr f l a @ ?rest) (deep_expand opt a) ?rest" using Cons.prems(1) dl by simp
  then obtain tok s where tok: "next_token (emitExpr f l a @ ?rest) = Inr (Some (tok, s))"
      "tok \<notin> {Punct CHR '')'', Punct CHR ''}'', Punct CHR '';''}" "\<not> isAnnotation tok"
      "settles (\<lambda>g. parseExpr g opt s tok) (bindR (deep_expand opt a) (\<lambda>e. Inr (e, ?rest)))"
    unfolding reads_expr_def by blast
  have n: "next_token (emitArgs f m lev d (a # as) @ t) = Inr (Some (tok, s))"
    using next_blank [OF w(2)] tok(1) w(1) by simp
  have IH: "settles (\<lambda>g. loop g ?rest (push args e) an) (bindR (mapR (deep_expand opt) as) (\<lambda>ys. q (e # ys)))" for e
  proof (rule Cons.IH)
    show "settles (\<lambda>g. loop g t (pushes (push args e) ys) an) (q (e # ys))" for ys
      using Cons.prems(2) [of "e # ys"] by (simp only: pushes_simps)
    show "reads_expr opt (emitExpr f lev b @ r) (deep_expand opt b) r" if "b \<in> set as" "delim r" for b lev r
      using Cons.prems(1) that by (meson list.set_intros(2))
  qed
  have "settles (\<lambda>g. bindR (parseExpr g opt s tok) (\<lambda>(arg, s2). loop g s2 (push args arg) an))
      (bindR (bindR (deep_expand opt a) (\<lambda>e. Inr (e, ?rest)))
         (\<lambda>(e, s2). bindR (mapR (deep_expand opt) as) (\<lambda>ys. q (e # ys))))"
  proof (rule settles_bind [OF tok(4)])
    fix x assume "bindR (deep_expand opt a) (\<lambda>e. Inr (e, ?rest)) = Inr x"
    then obtain e where "x = (e, ?rest)" by (auto simp: bindR_eq_Inr)
    then show "settles (\<lambda>g. case x of (arg, s2) \<Rightarrow> loop g s2 (push args arg) an)
        (case x of (e, s2) \<Rightarrow> bindR (mapR (deep_expand opt) as) (\<lambda>ys. q (e # ys)))"
      using IH by simp
  qed
  then have "settles (\<lambda>g. loop g (emitArgs f m lev d (a # as) @ t) args an)
      (bindR (bindR (deep_expand opt a) (\<lambda>e. Inr (e, ?rest)))
         (\<lambda>(e, s2). bindR (mapR (deep_expand opt) as) (\<lambda>ys. q (e # ys))))"
    by (rule settles_step [where f = "\<lambda>g. loop g (emitArgs f m lev d (a # as) @ t) args an", OF arg_step [OF n tok(2,3)]])
  then show ?case by (simp add: bindR_assoc)
qed

end

interpretation list_loop: arg_loop opt "\<lambda>g s args an. listLoop g opt s br args an" for opt br
  by unfold_locales (auto simp: isAnnotation_def)

interpretation args_loop: arg_loop opt "\<lambda>g s args an. argsLoop g opt s args an" for opt
  by unfold_locales (auto simp: isAnnotation_def)

section \<open>Expressions and sequences\<close>

definition annots_ok :: "string list option \<Rightarrow> bool" where
  "annots_ok an = (case an of None \<Rightarrow> True | Some as \<Rightarrow> as \<noteq> [] \<and> list_all annotation_ok as)"

context arg_loop
begin

text \<open>Annotations and arguments behind a name.\<close>

lemma whole:
  assumes "format_ok f" "delim t" "annots_ok an" "args = None \<or> args_of args \<noteq> []"
    and "\<And>a lev r. a \<in> set (args_of args) \<Longrightarrow> delim r \<Longrightarrow> reads_expr opt (emitExpr f lev a @ r) (deep_expand opt a) r"
    and last: "\<And>xs. settles (\<lambda>g. loop g t xs an) (q xs)"
  shows "settles (\<lambda>g. loop g (emit_annots an @ emitArgs f m lev d (args_of args) @ t) None None)
     (bindR (mapR (deep_expand opt) (args_of args)) (\<lambda>ys. q (if args = None then None else Some ys)))"
proof -
  let ?as = "args_of args"
  have a: "settles (\<lambda>g. loop g (emitArgs f m lev d ?as @ t) None an) (bindR (mapR (deep_expand opt) ?as) (\<lambda>ys. q (pushes None ys)))"
    by (rule arguments [OF assms(1,2,5)]) (use last in auto)
  have "bindR (mapR (deep_expand opt) ?as) (\<lambda>ys. q (pushes None ys))
      = bindR (mapR (deep_expand opt) ?as) (\<lambda>ys. q (if args = None then None else Some ys))"
  proof (rule bindR_cong [OF refl])
    fix ys assume "mapR (deep_expand opt) ?as = Inr ys"
    then have "length ys = length ?as" by (rule mapR_length)
    then show "q (pushes None ys) = q (if args = None then None else Some ys)"
      using assms(4) by (cases args) (auto simp: pushes_def)
  qed
  with a have a: "settles (\<lambda>g. loop g (emitArgs f m lev d ?as @ t) None an)
      (bindR (mapR (deep_expand opt) ?as) (\<lambda>ys. q (if args = None then None else Some ys)))" by simp
  show ?thesis
  proof (cases an)
    case (Some as)
    have "delim (emitArgs f m lev d ?as @ t)"
      using assms(2) format_blank [OF assms(1)]
      by (cases ?as; cases m; cases "lfsp f") (auto intro: delim_space simp: is_space_def)
    then show ?thesis
      using annots [of as "emitArgs f m lev d ?as @ t" None None] a Some assms(3) by (simp add: annots_ok_def)
  qed (use a in simp)
qed

end

lemma next_prim:
  assumes "prim_ok p" "delim r"
  shows "next_token (p @ r) = Inr (Some (Ident p, r))" "\<not> isAnnotation (Ident p)"
  using next_ident assms by (auto simp: prim_ok_def isAnnotation_def)

text \<open>A primitive application in brackets.\<close>

lemma reads_bracket:
  assumes "format_ok f" "prim_ok p" "annots_ok an" "args = None \<or> args_of args \<noteq> []"
    and "\<And>a lev r. a \<in> set (args_of args) \<Longrightarrow> delim r \<Longrightarrow> reads_expr opt (emitExpr f lev a @ r) (deep_expand opt a) r"
  shows "reads_expr opt (''('' @ p @ emit_annots an @ emitArgs f m lev d (args_of args) @ '')'' @ r)
      (bindR (mapR (deep_expand opt) (args_of args)) (\<lambda>ys. expand opt p (if args = None then None else Some ys) an)) r"
proof -
  let ?t = "emit_annots an @ emitArgs f m lev d (args_of args) @ '')'' @ r"
  let ?R = "bindR (mapR (deep_expand opt) (args_of args)) (\<lambda>ys. Inr ((if args = None then None else Some ys, an), r))"
  have dl: "delim ('')'' @ r)" by (simp add: delim_def)
  have n0: "next_token (''('' @ p @ ?t) = Inr (Some (Punct CHR ''('', p @ ?t))" using next_punct by simp
  have last: "settles (\<lambda>g. listLoop g opt ('')'' @ r) True xs an) (Inr ((xs, an), r))" for xs
    by (rule settles_step [OF _ settles_const]) (simp add: next_punct)
  have loop: "settles (\<lambda>g. listLoop g opt ?t True None None) ?R"
    by (rule list_loop.whole [OF assms(1) dl assms(3,4,5), where q = "\<lambda>xs. Inr ((xs, an), r)"]) (assumption | rule last)+
  have "delim ?t"
    using format_blank [OF assms(1)]
    by (intro delim_annots, cases "args_of args"; cases m; cases "lfsp f")
      (auto intro: delim_space simp: is_space_def delim_def)
  then have n1: "next_token (p @ ?t) = Inr (Some (Ident p, ?t))" using next_prim(1) assms(2) by blast
  have "settles (\<lambda>g. bindR (listLoop g opt ?t True None None) (\<lambda>((args, annots), s2).
            bindR (expand opt p args annots) (\<lambda>e. Inr (e, s2))))
        (bindR ?R (\<lambda>((args, annots), s2). bindR (expand opt p args annots) (\<lambda>e. Inr (e, s2))))"
    by (rule settles_bind [OF loop]) (simp split: prod.split)
  then have "settles (\<lambda>g. parseListExpr g opt (p @ ?t) (Punct CHR ''(''))
        (bindR ?R (\<lambda>((args, annots), s2). bindR (expand opt p args annots) (\<lambda>e. Inr (e, s2))))"
    by (rule settles_step [rotated]) (use n1 in simp)
  then have "settles (\<lambda>g. parseExpr g opt (p @ ?t) (Punct CHR ''(''))
        (bindR ?R (\<lambda>((args, annots), s2). bindR (expand opt p args annots) (\<lambda>e. Inr (e, s2))))"
    by (rule settles_step [rotated]) simp
  then show ?thesis
    unfolding reads_expr_def using n0 by (auto simp: bindR_assoc isAnnotation_def)
qed

text \<open>An item of a sequence, up to the separator behind it: the body of the loop.\<close>

definition item_code :: "nat \<Rightarrow> parser_options \<Rightarrow> string \<Rightarrow> token \<Rightarrow> (expr \<times> token option \<times> string) pres" where
  "item_code fuel opt s1 tk =
     bindR
       (case tk of
          Ident v \<Rightarrow>
            bindR (argsLoop fuel opt s1 None None) (\<lambda>((args, annots), n, s2).
            bindR (expand opt v args annots) (\<lambda>itm. Inr (itm, Some n, s2)))
        | _ \<Rightarrow> bindR (parseExpr fuel opt s1 tk) (\<lambda>(ex, s2). Inr (ex, None, s2)))
     (\<lambda>(item, tok1, s2).
       bindR
         (case tok1 of
            None \<Rightarrow> bindR (next_token s2) (\<lambda>t. case t of None \<Rightarrow> Inr (None, s2) | Some (u, s3) \<Rightarrow> Inr (Some u, s3))
          | Some n \<Rightarrow> Inr (n, s2))
       (\<lambda>(n, s3). Inr (item, n, s3)))"

definition reads_item :: "parser_options \<Rightarrow> string \<Rightarrow> expr pres \<Rightarrow> char \<Rightarrow> string \<Rightarrow> bool" where
  "reads_item opt t r c rest \<longleftrightarrow>
     (\<exists>tok s. next_token t = Inr (Some (tok, s)) \<and> tok \<noteq> Punct CHR ''}''
        \<and> settles (\<lambda>g. item_code g opt s tok) (bindR r (\<lambda>e. Inr (e, Some (Punct c), rest))))"

lemma seq_item:
  assumes "next_token s = Inr (Some (tok, s1))" "tok \<noteq> Punct CHR ''}''"
  shows "seqLoop (Suc g) opt s br None acc =
    bindR (item_code g opt s1 tok) (\<lambda>(item, n, s3).
      seqLoop g opt s3 br (if n = Some (Punct CHR '';'') then None else Some n) (acc @ [item]))"
  using assms by (cases tok) (simp_all add: item_code_def bindR_assoc case_prod_unfold cong: if_cong)

lemma seq_blank: "blank w \<Longrightarrow> seqLoop g opt (w @ s) True None acc = seqLoop g opt s True None acc"
proof (cases g)
  case (Suc k)
  assume "blank w"
  then show ?thesis using Suc next_blank [of w s] by (cases "next_token s") (auto split: option.split)
qed simp

lemma reads_prim_item:
  assumes "format_ok f" "prim_ok p" "annots_ok an" "args = None \<or> args_of args \<noteq> []"
    and "\<And>a lev r. a \<in> set (args_of args) \<Longrightarrow> delim r \<Longrightarrow> reads_expr opt (emitExpr f lev a @ r) (deep_expand opt a) r"
    and c: "c = CHR ''}'' \<or> c = CHR '';''" and t: "delim t" "next_token t = Inr (Some (Punct c, rest))"
  shows "reads_item opt (p @ emit_annots an @ emitArgs f m lev d (args_of args) @ t)
      (bindR (mapR (deep_expand opt) (args_of args)) (\<lambda>ys. expand opt p (if args = None then None else Some ys) an)) c rest"
proof -
  let ?t = "emit_annots an @ emitArgs f m lev d (args_of args) @ t"
  let ?R = "bindR (mapR (deep_expand opt) (args_of args))
     (\<lambda>ys. Inr ((if args = None then None else Some ys, an), Some (Punct c), rest))"
  have last: "settles (\<lambda>g. argsLoop g opt t xs an) (Inr ((xs, an), Some (Punct c), rest))" for xs
    by (rule settles_step [OF _ settles_const]) (use t(2) c in auto)
  have loop: "settles (\<lambda>g. argsLoop g opt ?t None None) ?R"
    by (rule args_loop.whole [OF assms(1) t(1) assms(3,4,5), where q = "\<lambda>xs. Inr ((xs, an), Some (Punct c), rest)"])
      (assumption | rule last)+
  have "delim ?t"
    using format_blank [OF assms(1)] t(1)
    by (intro delim_annots, cases "args_of args"; cases m; cases "lfsp f")
      (auto intro: delim_space simp: is_space_def)
  then have n1: "next_token (p @ ?t) = Inr (Some (Ident p, ?t))" using next_prim(1) assms(2) by blast
  have "settles (\<lambda>g. bindR (argsLoop g opt ?t None None) (\<lambda>((args, annots), n, s2).
            bindR (expand opt p args annots) (\<lambda>itm. Inr (itm, n, s2))))
        (bindR ?R (\<lambda>((args, annots), n, s2). bindR (expand opt p args annots) (\<lambda>itm. Inr (itm, n, s2))))"
    by (rule settles_bind [OF loop]) (simp split: prod.split)
  then have "settles (\<lambda>g. item_code g opt ?t (Ident p))
     (bindR ?R (\<lambda>((args, annots), n, s2). bindR (expand opt p args annots) (\<lambda>itm. Inr (itm, n, s2))))"
    by (simp add: item_code_def bindR_assoc case_prod_unfold)
  then show ?thesis unfolding reads_item_def using n1 by (auto simp: bindR_assoc)
qed

lemma reads_other_item:
  assumes "reads_expr opt s r t" "next_token t = Inr (Some (Punct c, rest))"
    and "next_token s = Inr (Some (tok, s1))" "\<And>v. tok \<noteq> Ident v"
  shows "reads_item opt s r c rest"
proof -
  have p: "settles (\<lambda>g. parseExpr g opt s1 tok) (bindR r (\<lambda>e. Inr (e, t)))" "tok \<noteq> Punct CHR ''}''"
    using assms(1,3) by (auto simp: reads_expr_def)
  have "settles (\<lambda>g. bindR (parseExpr g opt s1 tok) (\<lambda>(ex, s2).
        bindR (next_token s2) (\<lambda>t. case t of None \<Rightarrow> Inr (ex, None, s2) | Some (u, s3) \<Rightarrow> Inr (ex, Some u, s3))))
     (bindR (bindR r (\<lambda>e. Inr (e, t))) (\<lambda>(ex, s2).
        bindR (next_token s2) (\<lambda>t. case t of None \<Rightarrow> Inr (ex, None, s2) | Some (u, s3) \<Rightarrow> Inr (ex, Some u, s3))))"
    by (rule settles_bind [OF p(1)]) simp
  moreover have "item_code g opt s1 tok = bindR (parseExpr g opt s1 tok) (\<lambda>(ex, s2).
        bindR (next_token s2) (\<lambda>t. case t of None \<Rightarrow> Inr (ex, None, s2) | Some (u, s3) \<Rightarrow> Inr (ex, Some u, s3)))" for g
    using assms(4) by (cases tok) (auto simp: item_code_def bindR_def split: sum.split option.split)
  ultimately have "settles (\<lambda>g. item_code g opt s1 tok) (bindR r (\<lambda>e. Inr (e, Some (Punct c), rest)))"
    using assms(2) by (simp add: bindR_assoc)
  then show ?thesis unfolding reads_item_def using assms(3) p(2) by blast
qed

lemma first_token:
  assumes "syntax_ok e" "delim r" "\<And>p args an. e \<noteq> Prim p args an"
  shows "\<exists>tok s. next_token (emitExpr f lev e @ r) = Inr (Some (tok, s)) \<and> (\<forall>v. tok \<noteq> Ident v)"
proof (cases e)
  case (Seq xs)
  then show ?thesis using next_punct by simp
qed (use assms next_string next_number next_bytes in \<open>fastforce+\<close>)

lemma emitExpr_Prim:
  "emitExpr f lev (Prim p args an) =
     (if nonempty an \<or> nonempty args then
        ''('' @ p @ emit_annots an @ emitArgs f (isMultiline args) lev 1 (args_of args) @ '')''
      else p)"
  by (cases args) simp_all

lemma emitItem_Prim:
  "emitItem f lev (Prim p args an) = p @ emit_annots an @ emitArgs f (isMultiline args) lev 2 (args_of args)"
  by (cases args) simp_all

lemma deep_expand_Prim:
  "deep_expand opt (Prim p args an)
     = bindR (mapR (deep_expand opt) (args_of args)) (\<lambda>ys. expand opt p (if args = None then None else Some ys) an)"
  by (cases args) simp_all

lemma reads_literal:
  assumes "next_token (s @ r) = Inr (Some (tok, r))" "tok \<notin> {Punct CHR '')'', Punct CHR ''}'', Punct CHR '';''}"
    "\<not> isAnnotation tok" "\<And>g. parseExpr (Suc g) opt r tok = Inr (e, r)"
  shows "reads_expr opt (s @ r) (Inr e) r"
proof -
  have "settles (\<lambda>g. parseExpr g opt r tok) (Inr (e, r))" by (rule settles_step [where h = "\<lambda>g. Inr (e, r)"]) (rule assms(4), simp)
  then show ?thesis using assms(1-3) unfolding reads_expr_def by auto
qed

text \<open>The items of a sequence and its closing brace.\<close>

lemma reads_items:
  assumes f: "format_ok f"
    and items: "\<And>e lev t c rest. e \<in> set es \<Longrightarrow> c = CHR ''}'' \<or> c = CHR '';'' \<Longrightarrow> delim t
        \<Longrightarrow> next_token t = Inr (Some (Punct c, rest)) \<Longrightarrow> reads_item opt (emitItem f lev e @ t) (deep_expand opt e) c rest"
  shows "settles (\<lambda>g. seqLoop g opt (emitItems f lev es @ indent f lev @ ''}'' @ r) True None acc)
     (bindR (mapR (deep_expand opt) es) (\<lambda>ys. Inr (acc @ ys, r)))"
  using items
proof (induction es arbitrary: acc)
  case Nil
  have "next_token (indent f lev @ ''}'' @ r) = Inr (Some (Punct CHR ''}'', r))"
    using next_blank format_blank [OF f] next_punct by simp
  then show ?case by (intro settles_step [OF _ settles_const]) simp
next
  case (Cons e es)
  define c where "c = (if es \<noteq> [] then CHR '';'' else CHR ''}'')"
  define t where "t = (if es \<noteq> [] then '';'' @ lfsp f @ emitItems f lev es else lf f) @ indent f lev @ ''}'' @ r"
  define rest where "rest = (if es \<noteq> [] then lfsp f @ emitItems f lev es @ indent f lev @ ''}'' @ r else r)"
  have eq: "emitItems f lev (e # es) @ indent f lev @ ''}'' @ r = indent f (lev + 1) @ emitItem f lev e @ t"
    by (simp add: t_def)
  have fb: "blank (lf f)" "blank (indent f lev)" by (rule format_blank [OF f])+
  have "delim (''}'' @ r)" "delim ('';'' @ x)" for x by (simp_all add: delim_def)
  then have t: "delim t"
    using fb delim_blank [of "lf f" "indent f lev @ ''}'' @ r"] delim_blank [of "indent f lev" "''}'' @ r"] by (simp add: t_def)
  have n: "next_token t = Inr (Some (Punct c, rest))"
  proof (cases "es = []")
    case True
    then show ?thesis using next_blank [OF fb(1)] next_blank [OF fb(2)] next_punct by (simp add: t_def c_def rest_def)
  next
    case False
    then show ?thesis using next_punct by (simp add: t_def c_def rest_def)
  qed
  have c: "c = CHR ''}'' \<or> c = CHR '';''" by (simp add: c_def)
  have "reads_item opt (emitItem f lev e @ t) (deep_expand opt e) c rest"
    using Cons.prems [of e c t rest lev] t n c by simp
  then obtain tok s where tok: "next_token (emitItem f lev e @ t) = Inr (Some (tok, s))" "tok \<noteq> Punct CHR ''}''"
      "settles (\<lambda>g. item_code g opt s tok) (bindR (deep_expand opt e) (\<lambda>x. Inr (x, Some (Punct c), rest)))"
    unfolding reads_item_def by blast
  have n: "next_token (indent f (lev + 1) @ emitItem f lev e @ t) = Inr (Some (tok, s))"
    using tok(1) next_blank format_blank(1) [OF f] by simp
  have tail: "settles (\<lambda>g. seqLoop g opt rest True (if Some (Punct c) = Some (Punct CHR '';'') then None else Some (Some (Punct c))) (acc @ [x]))
     (bindR (mapR (deep_expand opt) es) (\<lambda>ys. Inr (acc @ x # ys, r)))" for x
  proof (cases "es = []")
    case True
    then show ?thesis by (intro settles_step [OF _ settles_const]) (simp add: c_def rest_def)
  next
    case False
    then show ?thesis
      using Cons.IH [of "acc @ [x]"] Cons.prems seq_blank format_blank(3) [OF f] by (simp add: c_def rest_def)
  qed
  have "settles (\<lambda>g. bindR (item_code g opt s tok) (\<lambda>(item, n, s3).
      seqLoop g opt s3 True (if n = Some (Punct CHR '';'') then None else Some n) (acc @ [item])))
    (bindR (bindR (deep_expand opt e) (\<lambda>x. Inr (x, Some (Punct c), rest)))
      (\<lambda>(x, _, _). bindR (mapR (deep_expand opt) es) (\<lambda>ys. Inr (acc @ x # ys, r))))"
  proof (rule settles_bind [OF tok(3)])
    fix v assume "bindR (deep_expand opt e) (\<lambda>x. Inr (x, Some (Punct c), rest)) = Inr v"
    then obtain x where "v = (x, Some (Punct c), rest)" by (auto simp: bindR_eq_Inr)
    then show "settles (\<lambda>g. case v of (item, n, s3) \<Rightarrow>
        seqLoop g opt s3 True (if n = Some (Punct CHR '';'') then None else Some n) (acc @ [item]))
      (case v of (x, _, _) \<Rightarrow> bindR (mapR (deep_expand opt) es) (\<lambda>ys. Inr (acc @ x # ys, r)))"
      using tail by simp
  qed
  then have "settles (\<lambda>g. seqLoop g opt (indent f (lev + 1) @ emitItem f lev e @ t) True None acc)
    (bindR (bindR (deep_expand opt e) (\<lambda>x. Inr (x, Some (Punct c), rest)))
      (\<lambda>(x, _, _). bindR (mapR (deep_expand opt) es) (\<lambda>ys. Inr (acc @ x # ys, r))))"
    by (rule settles_step [rotated]) (rule seq_item [OF n tok(2)])
  then show ?case unfolding eq by (simp add: bindR_assoc)
qed

lemma sub_size: "x \<in> set xs \<Longrightarrow> size x < size (Seq xs)" "x \<in> set xs \<Longrightarrow> size x < size (Prim p (Some xs) an)"
  using size_list_estimation' [of x xs "size x" size] by auto

lemma emit_then_parse:
  assumes "format_ok f" "syntax_ok e"
  shows "(\<forall>lev r. delim r \<longrightarrow> reads_expr opt (emitExpr f lev e @ r) (deep_expand opt e) r) \<and>
    (\<forall>lev t c rest. (c = CHR ''}'' \<or> c = CHR '';'') \<longrightarrow> delim t \<longrightarrow> next_token t = Inr (Some (Punct c, rest))
        \<longrightarrow> reads_item opt (emitItem f lev e @ t) (deep_expand opt e) c rest)"
  using assms(2)
proof (induction "size e" arbitrary: e rule: less_induct)
  case less
  have other: "?case" if "\<And>p args an. e \<noteq> Prim p args an"
    and E: "\<And>lev r. delim r \<Longrightarrow> reads_expr opt (emitExpr f lev e @ r) (deep_expand opt e) r"
  proof -
    have "emitItem f lev e = emitExpr f (lev + 1) e" for lev using that(1) by (cases e) auto
    then show ?thesis
      using E reads_other_item first_token [OF less.prems _ that(1)] by metis
  qed
  show ?case
  proof (cases e)
    case (StringLit s)
    show ?thesis
      by (rule other) (use StringLit next_string json_round_trip in \<open>auto simp: isAnnotation_def intro!: reads_literal\<close>)
  next
    case (IntLit i)
    then show ?thesis
      using next_number less.prems by (intro other) (auto simp: isAnnotation_def intro!: reads_literal)
  next
    case (BytesLit b)
    then show ?thesis
      using next_bytes less.prems by (intro other) (auto simp: isAnnotation_def intro!: reads_literal [of "''0x'' @ b", simplified])
  next
    case (Seq xs)
    have "reads_item opt (emitItem f lev x @ t) (deep_expand opt x) c rest"
      if "x \<in> set xs" "c = CHR ''}'' \<or> c = CHR '';''" "delim t" "next_token t = Inr (Some (Punct c, rest))" for x lev t c rest
    proof -
      have "size x < size e" "syntax_ok x" using less.prems that(1) sub_size(1) Seq by (auto simp: list_all_iff)
      with less.hyps [of x] that(2-) show ?thesis by blast
    qed
    note items = reads_items [OF assms(1) this]
    show ?thesis
    proof (rule other)
      fix lev r assume "delim r"
      let ?t = "lf f @ emitItems f lev xs @ indent f lev @ ''}'' @ r"
      have "settles (\<lambda>g. seqLoop g opt ?t True None []) (bindR (mapR (deep_expand opt) xs) (\<lambda>ys. Inr ([] @ ys, r)))"
        unfolding seq_blank [OF format_blank(2) [OF assms(1)]] by (rule items)
      then have "settles (\<lambda>g. bindR (seqLoop g opt ?t True None []) (\<lambda>(xs, s1). Inr (Seq xs, s1)))
         (bindR (bindR (mapR (deep_expand opt) xs) (\<lambda>ys. Inr ([] @ ys, r))) (\<lambda>(xs, s1). Inr (Seq xs, s1)))"
        by (rule settles_bind) simp
      then have "settles (\<lambda>g. parseExpr g opt ?t (Punct CHR ''{''))
         (bindR (bindR (mapR (deep_expand opt) xs) (\<lambda>ys. Inr ([] @ ys, r))) (\<lambda>(xs, s1). Inr (Seq xs, s1)))"
        by (rule settles_step [rotated]) simp
      then show "reads_expr opt (emitExpr f lev e @ r) (deep_expand opt e) r"
        unfolding reads_expr_def using Seq next_punct by (auto simp: bindR_assoc isAnnotation_def)
    qed (simp add: Seq)
  next
    case (Prim p args an)
    have p: "prim_ok p" "annots_ok an" "args = None \<or> args_of args \<noteq> []"
      using less.prems Prim by (auto simp: annots_ok_def split: option.splits)
    have sub: "reads_expr opt (emitExpr f lev a @ r) (deep_expand opt a) r" if a: "a \<in> set (args_of args)" and dr: "delim r" for a lev r
    proof -
      obtain xs where "args = Some xs" "a \<in> set xs" using a by (cases args) auto
      then have "size a < size e" "syntax_ok a" using less.prems sub_size(2) Prim by (auto simp: list_all_iff)
      with less.hyps [of a] dr show ?thesis by blast
    qed
    have "reads_expr opt (emitExpr f lev e @ r) (deep_expand opt e) r" if "delim r" for lev r
    proof (cases "nonempty an \<or> nonempty args")
      case True
      then show ?thesis
        using reads_bracket [OF assms(1) p sub] by (simp add: Prim emitExpr_Prim deep_expand_Prim)
    next
      case False
      then have none: "an = None" "args = None" using p by (cases an; cases args; auto simp: annots_ok_def)+
      have "settles (\<lambda>g. parseExpr g opt r (Ident p)) (bindR (expand opt p None None) (\<lambda>e. Inr (e, r)))"
        by (rule settles_step [OF _ settles_const]) simp
      then show ?thesis
        using next_prim [OF p(1) that] none by (auto simp: Prim reads_expr_def)
    qed
    moreover have "reads_item opt (emitItem f lev e @ t) (deep_expand opt e) c rest"
      if "c = CHR ''}'' \<or> c = CHR '';''" "delim t" "next_token t = Inr (Some (Punct c, rest))" for lev t c rest
      using reads_prim_item [OF assms(1) p sub that] by (simp add: Prim emitItem_Prim deep_expand_Prim)
    ultimately show ?thesis by blast
  qed
qed

section \<open>Whole documents\<close>

text \<open>The parser stops behind the first expression; the rest of the text is never looked at.\<close>

lemma parse_emitted_rest:
  assumes "format_ok f" "syntax_ok e" "delim r"
  shows "parseMichelineExpression opt (emitMicheline e f @ r) = bindR (deep_expand opt e) (\<lambda>x. Inr (Some x))"
proof -
  let ?t = "emitMicheline e f @ r"
  have "reads_expr opt (emitExpr f 0 e @ r) (deep_expand opt e) r"
    using emit_then_parse [OF assms(1,2), of opt] assms(3) by blast
  then obtain tok s where tok: "next_token ?t = Inr (Some (tok, s))"
    "settles (\<lambda>g. parseExpr g opt s tok) (bindR (deep_expand opt e) (\<lambda>x. Inr (x, r)))"
    unfolding reads_expr_def emitMicheline_def by auto
  obtain g where g: "text_fuel ?t \<le> g"
    "parseExpr g opt s tok = bindR (deep_expand opt e) (\<lambda>x. Inr (x, r))"
    using settlesD [OF tok(2)] by blast
  then have "parseExpr (text_fuel ?t) opt s tok = bindR (deep_expand opt e) (\<lambda>x. Inr (x, r))"
    using text_agree(1) [OF tok(1) g(1), of opt] by (simp add: agree_def)
  then show ?thesis by (simp add: parseMichelineExpression_def tok(1) bindR_assoc)
qed

lemma parse_emitted:
  assumes "format_ok f" "syntax_ok e"
  shows "parseMichelineExpression opt (emitMicheline e f) = bindR (deep_expand opt e) (\<lambda>x. Inr (Some x))"
  using parse_emitted_rest [OF assms, of "[]" opt] by (simp add: delim_def)

text \<open>A sequence may be parsed as a script.\<close>

lemma script_emitted:
  assumes "format_ok f" "syntax_ok (Seq xs)"
  shows "parseScript opt (emitMicheline (Seq xs) f) = bindR (mapR (deep_expand opt) xs) (\<lambda>ys. Inr (Some ys))"
proof -
  let ?t = "lf f @ emitItems f 0 xs @ indent f 0 @ ''}''"
  have n: "next_token (emitMicheline (Seq xs) f) = Inr (Some (Punct CHR ''{'', ?t))"
    using next_punct by (simp add: emitMicheline_def)
  have "settles (\<lambda>g. seqLoop g opt (emitItems f 0 xs @ indent f 0 @ ''}'' @ []) True None [])
      (bindR (mapR (deep_expand opt) xs) (\<lambda>ys. Inr ([] @ ys, [])))"
  proof (rule reads_items [OF assms(1)])
    fix x lev t c rest assume "x \<in> set xs" "c = CHR ''}'' \<or> c = CHR '';''" "delim t" "next_token t = Inr (Some (Punct c, rest))"
    then show "reads_item opt (emitItem f lev x @ t) (deep_expand opt x) c rest"
      using emit_then_parse [OF assms(1), of x opt] assms(2) by (auto simp: list_all_iff)
  qed
  then have s: "settles (\<lambda>g. seqLoop g opt ?t True None []) (bindR (mapR (deep_expand opt) xs) (\<lambda>ys. Inr (ys, [])))"
    using seq_blank [OF format_blank(2) [OF assms(1)]] by simp
  obtain g where g: "text_fuel (emitMicheline (Seq xs) f) \<le> g"
    "seqLoop g opt ?t True None [] = bindR (mapR (deep_expand opt) xs) (\<lambda>ys. Inr (ys, []))"
    using settlesD [OF s] by blast
  then have "seqLoop (text_fuel (emitMicheline (Seq xs) f)) opt ?t True None [] = bindR (mapR (deep_expand opt) xs) (\<lambda>ys. Inr (ys, []))"
    using text_agree(3) [OF n g(1), of opt True None "[]"] by (simp add: agree_def)
  then show ?thesis by (simp add: parseScript_def parseSequence_def n bindR_assoc Let_def del: emitExpr.simps)
qed

text \<open>Without macros and constants the parser is the inverse of the emitter.\<close>

definition plain_options :: parser_options where
  "plain_options = \<lparr>opt_expandMacros = Some False, opt_expandGlobalConstant = None, opt_protocol = None\<rparr>"

lemma mapR_same: "(\<And>x. x \<in> set xs \<Longrightarrow> f x = Inr x) \<Longrightarrow> mapR f xs = Inr xs"
  by (induction xs) simp_all

lemma deep_expand_plain: "deep_expand plain_options e = Inr e"
  by (induction e rule: expr_induct) (simp_all add: expand_def plain_options_def mapR_same)

interpretation printed: text_codec "\<lambda>e. Inr (emitMicheline e f) :: string pres" "parseMichelineExpression plain_options"
    Some "\<lambda>e. format_ok f \<and> syntax_ok e" for f
  by unfold_locales (auto simp: parse_emitted deep_expand_plain)

section \<open>The JSON encoding\<close>

fun to_json :: "expr \<Rightarrow> json" where
  "to_json (Prim p args an) = JObject ([(''prim'', JString p)]
     @ (case args of None \<Rightarrow> [] | Some xs \<Rightarrow> [(''args'', JArray (map to_json xs))])
     @ (case an of None \<Rightarrow> [] | Some as \<Rightarrow> [(''annots'', JArray (map JString as))]))"
| "to_json (StringLit s) = JObject [(''string'', JString s)]"
| "to_json (IntLit i) = JObject [(''int'', JString i)]"
| "to_json (BytesLit b) = JObject [(''bytes'', JString b)]"
| "to_json (Seq xs) = JArray (map to_json xs)"

lemma to_json_object [simp]: "is_object (to_json e)"
  by (cases e) (simp_all add: is_object_def)

lemma all_strings_map [simp]: "all_strings (map JString as) = Inr as"
  by (induction as) simp_all

lemma mapR_map: "mapR f (map h xs) = mapR (\<lambda>x. f (h x)) xs"
  by (induction xs) simp_all

lemma json_emitted: "syntax_ok e \<Longrightarrow> parseJSON opt (to_json e) = deep_expand opt e"
proof (induction e rule: expr_induct)
  case (Prim0 p an)
  then show ?case by (cases an) (simp_all add: parseJSON.simps array_prop_def)
next
  case (Prim p xs an)
  have "mapR (\<lambda>x. parseJSON opt (to_json x)) xs = mapR (deep_expand opt) xs"
    by (rule mapR_cong) (use Prim in \<open>auto simp: list_all_iff\<close>)
  then show ?case by (cases an) (simp_all add: parseJSON.simps array_prop_def mapR_map bindR_assoc)
next
  case (Seq xs)
  have "mapR (\<lambda>x. parseJSON opt (to_json x)) xs = mapR (deep_expand opt) xs"
    by (rule mapR_cong) (use Seq in \<open>auto simp: list_all_iff\<close>)
  then show ?case by (simp add: parseJSON.simps mapR_map)
qed (simp_all add: parseJSON.simps)

end
