(* ===== verification/Validator.thy ===== *)
theory Validator
  imports Micheline
begin

text \<open>
  The Michelson validator (\<open>michelson-validator.ts\<close>): which expressions are types of which
  class, instructions, data and contracts.  A check returns normally or raises a
  \<open>MichelsonValidationError\<close>.  The type checks are one function over the classes of types,
  with \<open>traverseType\<close> inside it; the callback of \<open>traverseType\<close> is always the check itself.
\<close>

section \<open>Tables\<close>

definition maxViewNameLength :: nat where
  "maxViewNameLength = 31"

definition noArgInstructionIDs :: "string list" where
  "noArgInstructionIDs = [
   ''ABS'', ''ADD'', ''ADDRESS'', ''AMOUNT'', ''AND'', ''APPLY'', ''BALANCE'', ''BLAKE2B'',
   ''CAR'', ''CDR'', ''CHAIN_ID'', ''CHECK_SIGNATURE'', ''COMPARE'', ''CONCAT'', ''CONS'',
   ''EDIV'', ''EQ'', ''EXEC'', ''FAILWITH'', ''GE'', ''GET_AND_UPDATE'', ''GT'', ''HASH_KEY'',
   ''IMPLICIT_ACCOUNT'', ''INT'', ''ISNAT'', ''JOIN_TICKETS'', ''KECCAK'', ''LE'', ''LEVEL'',
   ''LSL'', ''LSR'', ''LT'', ''MEM'', ''MUL'', ''NEG'', ''NEQ'', ''NEVER'', ''NOT'', ''NOW'',
   ''OR'', ''PACK'', ''PAIRING_CHECK'', ''READ_TICKET'', ''SAPLING_VERIFY_UPDATE'', ''SELF'',
   ''SELF_ADDRESS'', ''SENDER'', ''SET_DELEGATE'', ''SHA256'', ''SHA3'', ''SHA512'', ''SIZE'',
   ''SLICE'', ''SOME'', ''SOURCE'', ''SPLIT_TICKET'', ''SUB'', ''SWAP'', ''TICKET'',
   ''TICKET_DEPRECATED'', ''TOTAL_VOTING_POWER'', ''TRANSFER_TOKENS'', ''UNIT'',
   ''VOTING_POWER'', ''XOR'', ''RENAME'', ''OPEN_CHEST'', ''SUB_MUTEZ'', ''MIN_BLOCK_TIME'',
   ''BYTES'', ''NAT'']"

definition instructionIDs :: "string list" where
  "instructionIDs = noArgInstructionIDs @ [
   ''CONTRACT'', ''CREATE_CONTRACT'', ''DIG'', ''DIP'', ''DROP'', ''DUG'', ''DUP'', ''EMIT'',
   ''EMPTY_BIG_MAP'', ''EMPTY_MAP'', ''EMPTY_SET'', ''GET'', ''IF'', ''IF_CONS'', ''IF_LEFT'',
   ''IF_NONE'', ''ITER'', ''LAMBDA'', ''LAMBDA_REC'', ''LEFT'', ''LOOP'', ''LOOP_LEFT'', ''MAP'',
   ''NIL'', ''NONE'', ''PAIR'', ''PUSH'', ''RIGHT'', ''SAPLING_EMPTY_STATE'', ''UNPACK'',
   ''UNPAIR'', ''UPDATE'', ''CAST'', ''VIEW'']"

definition simpleComparableTypeIDs :: "string list" where
  "simpleComparableTypeIDs = [
   ''unit'', ''never'', ''bool'', ''int'', ''nat'', ''string'', ''chain_id'', ''bytes'',
   ''mutez'', ''key_hash'', ''key'', ''signature'', ''timestamp'', ''address'',
   ''tx_rollup_l2_address'']"

definition typeIDs :: "string list" where
  "typeIDs = simpleComparableTypeIDs @ [
   ''or'', ''pair'', ''set'', ''big_map'', ''contract'', ''lambda'', ''list'', ''map'',
   ''operation'', ''option'', ''bls12_381_g1'', ''bls12_381_g2'', ''bls12_381_fr'',
   ''sapling_transaction'', ''sapling_transaction_deprecated'', ''sapling_state'', ''ticket'',
   ''chest_key'', ''chest'']"

section \<open>Errors and simple checks\<close>

text \<open>The node and, in short, the message of a \<open>MichelsonValidationError\<close>.\<close>

datatype (plugins only: size code) validation_fault =
    PrimExpected | SequenceExpected | PrimOrSequenceExpected | NaturalExpected | IntLiteralExpected
  | StringLiteralExpected | ArgumentsExpected nat | OneOrTwoArguments | AtLeastTwoArguments
  | InstructionExpected | TypeExpected | NotComparable | NotAllowed | ViewNameTooLong | ViewNameCharacters
  | DataExpected | DataOrInstructionExpected | MixedElements
  | DuplicateSection string | ParameterAnnotated | DuplicateView string | UnexpectedSection string

datatype (plugins only: size code) validation_error = MichelsonValidationError expr validation_fault

type_synonym check = "validation_error + unit"

abbreviation invalid :: "expr \<Rightarrow> validation_fault \<Rightarrow> check" where
  "invalid ex f \<equiv> Inl (MichelsonValidationError ex f)"

fun is_prim :: "expr \<Rightarrow> bool" where
  "is_prim (Prim p args an) = True"
| "is_prim _ = False"

fun is_sequence :: "expr \<Rightarrow> bool" where
  "is_sequence (Seq xs) = True"
| "is_sequence _ = False"

definition isPrimOrSeq :: "expr \<Rightarrow> bool" where
  "isPrimOrSeq ex \<longleftrightarrow> is_sequence ex \<or> is_prim ex"

definition assertPrimOrSeq :: "expr \<Rightarrow> check" where
  "assertPrimOrSeq ex = (if isPrimOrSeq ex then Inr () else invalid ex PrimOrSequenceExpected)"

definition assertSeq :: "expr \<Rightarrow> check" where
  "assertSeq ex = (if is_sequence ex then Inr () else invalid ex SequenceExpected)"

text \<open>\<open>assertIntLiteral\<close>, and \<open>assertNatural\<close> on the literal.\<close>

fun assertIntLiteral :: "expr \<Rightarrow> check" where
  "assertIntLiteral (IntLit i) = Inr ()"
| "assertIntLiteral ex = invalid ex IntLiteralExpected"

fun assertNatural :: "expr \<Rightarrow> check" where
  "assertNatural (IntLit i) =
     (if i \<noteq> [] \<and> hd i = CHR ''-'' then invalid (IntLit i) NaturalExpected else Inr ())"
| "assertNatural ex = invalid ex IntLiteralExpected"

text \<open>\<open>assertArgs(ex, n)\<close> where no argument is looked at afterwards.\<close>

definition assertArgCount :: "expr \<Rightarrow> expr list option \<Rightarrow> nat \<Rightarrow> check" where
  "assertArgCount ex args n =
     (if n = 0 \<and> args = None \<or> (case args of Some xs \<Rightarrow> length xs = n | None \<Rightarrow> False) then Inr ()
      else invalid ex (ArgumentsExpected n))"

text \<open>\<open>xs.forEach(f)\<close> where \<open>f\<close> may throw.\<close>

fun eachR :: "('a \<Rightarrow> 'e + unit) \<Rightarrow> 'a list \<Rightarrow> 'e + unit" where
  "eachR f [] = Inr ()"
| "eachR f (x # xs) = bindR (f x) (\<lambda>_. eachR f xs)"

lemma eachR_cong [fundef_cong]:
  assumes "xs = ys" and "\<And>x. x \<in> set ys \<Longrightarrow> f x = g x"
  shows "eachR f xs = eachR g ys"
  using assms(2) unfolding assms(1) by (induction ys) simp_all

lemma eachR_Inr: "eachR f xs = Inr () \<longleftrightarrow> (\<forall>x\<in>set xs. f x = Inr ())"
  by (induction xs) (auto simp: bindR_eq_Inr)

definition view_char :: "char \<Rightarrow> bool" where
  "view_char c = (let n = of_char c :: nat in
     c \<in> set ''_.%@'' \<or> (65 \<le> n \<and> n \<le> 90) \<or> (97 \<le> n \<and> n \<le> 122) \<or> (48 \<le> n \<and> n \<le> 57))"

text \<open>\<open>assertStringLiteral\<close> and \<open>assertViewNameValid\<close>.\<close>

fun assertViewNameValid :: "expr \<Rightarrow> check" where
  "assertViewNameValid (StringLit s) =
     (if js_length s > maxViewNameLength then invalid (StringLit s) ViewNameTooLong
      else if \<not> list_all view_char s then invalid (StringLit s) ViewNameCharacters
      else Inr ())"
| "assertViewNameValid ex = invalid ex StringLiteralExpected"

section \<open>Types\<close>

text \<open>The classes of types, and the primitives a class excludes.\<close>

datatype (plugins only: size code) type_kind =
    AnyType | Comparable | Packable | Pushable | Storable | Passable | BigMapStorable

fun excluded :: "type_kind \<Rightarrow> string list" where
  "excluded Packable = [''big_map'', ''operation'', ''sapling_state'', ''ticket'']"
| "excluded Pushable = [''big_map'', ''operation'', ''sapling_state'', ''ticket'', ''contract'']"
| "excluded Storable = [''operation'', ''contract'']"
| "excluded Passable = [''operation'']"
| "excluded BigMapStorable = [''big_map'', ''operation'', ''sapling_state'']"
| "excluded _ = []"

declare bindR_cong [fundef_cong del]

fun typeCheck :: "type_kind \<Rightarrow> expr \<Rightarrow> check"
and traverseType :: "type_kind \<Rightarrow> expr \<Rightarrow> check"
where
  "typeCheck k (Seq xs) = (if k = Comparable then traverseType k (Seq xs) else Inr ())"
| "typeCheck k (Prim p args an) =
     (if k = Comparable then
        (if p = ''pair'' \<or> p = ''or'' \<or> p = ''option'' then traverseType k (Prim p args an)
         else if p \<notin> set simpleComparableTypeIDs then invalid (Prim p args an) NotComparable
         else Inr ())
      else if p \<notin> set typeIDs \<or> p \<in> set (excluded k)
        then invalid (Prim p args an) (if k = AnyType then TypeExpected else NotAllowed)
      else traverseType k (Prim p args an))"
| "typeCheck k ex = invalid ex PrimOrSequenceExpected"
| "traverseType k (Seq xs) =
     (if length xs < 2 then invalid (Seq xs) AtLeastTwoArguments
      else eachR (typeCheck k) xs)"
| "traverseType k (Prim p args an) =
     (if p = ''pair'' then
        (case args of
           Some xs \<Rightarrow> if length xs < 2 then invalid (Prim p args an) AtLeastTwoArguments else eachR (typeCheck k) xs
         | None \<Rightarrow> invalid (Prim p args an) AtLeastTwoArguments)
      else if p = ''option'' \<or> p = ''list'' then
        (case args of Some [a] \<Rightarrow> typeCheck k a | _ \<Rightarrow> invalid (Prim p args an) (ArgumentsExpected 1))
      else if p = ''contract'' then
        (case args of Some [a] \<Rightarrow> typeCheck Passable a | _ \<Rightarrow> invalid (Prim p args an) (ArgumentsExpected 1))
      else if p = ''or'' then
        (case args of
           Some [a, b] \<Rightarrow>
             bindR (assertPrimOrSeq a) (\<lambda>_. bindR (assertPrimOrSeq b) (\<lambda>_.
             bindR (typeCheck k a) (\<lambda>_. typeCheck k b)))
         | _ \<Rightarrow> invalid (Prim p args an) (ArgumentsExpected 2))
      else if p = ''lambda'' then
        (case args of
           Some [a, b] \<Rightarrow> bindR (typeCheck AnyType a) (\<lambda>_. typeCheck AnyType b)
         | _ \<Rightarrow> invalid (Prim p args an) (ArgumentsExpected 2))
      else if p = ''set'' \<or> p = ''ticket'' then
        (case args of Some [a] \<Rightarrow> typeCheck Comparable a | _ \<Rightarrow> invalid (Prim p args an) (ArgumentsExpected 1))
      else if p = ''map'' then
        (case args of
           Some [a, b] \<Rightarrow>
             bindR (assertPrimOrSeq a) (\<lambda>_. bindR (assertPrimOrSeq b) (\<lambda>_.
             bindR (typeCheck Comparable a) (\<lambda>_. typeCheck k b)))
         | _ \<Rightarrow> invalid (Prim p args an) (ArgumentsExpected 2))
      else if p = ''big_map'' then
        (case args of
           Some [a, b] \<Rightarrow>
             bindR (assertPrimOrSeq a) (\<lambda>_. bindR (assertPrimOrSeq b) (\<lambda>_.
             bindR (typeCheck Comparable a) (\<lambda>_.
             bindR (typeCheck BigMapStorable b) (\<lambda>_. typeCheck k b))))
         | _ \<Rightarrow> invalid (Prim p args an) (ArgumentsExpected 2))
      else if p = ''sapling_state'' \<or> p = ''sapling_transaction'' then
        (case args of Some [a] \<Rightarrow> assertIntLiteral a | _ \<Rightarrow> invalid (Prim p args an) (ArgumentsExpected 1))
      else assertArgCount (Prim p args an) args 0)"
| "traverseType k ex = invalid ex PrimOrSequenceExpected"

definition assertMichelsonType :: "expr \<Rightarrow> check" where
  "assertMichelsonType = typeCheck AnyType"

definition assertMichelsonComparableType :: "expr \<Rightarrow> check" where
  "assertMichelsonComparableType = typeCheck Comparable"

definition assertMichelsonPackableType :: "expr \<Rightarrow> check" where
  "assertMichelsonPackableType = typeCheck Packable"

definition assertMichelsonPushableType :: "expr \<Rightarrow> check" where
  "assertMichelsonPushableType = typeCheck Pushable"

definition assertMichelsonStorableType :: "expr \<Rightarrow> check" where
  "assertMichelsonStorableType = typeCheck Storable"

definition assertMichelsonPassableType :: "expr \<Rightarrow> check" where
  "assertMichelsonPassableType = typeCheck Passable"

definition assertMichelsonBigMapStorableType :: "expr \<Rightarrow> check" where
  "assertMichelsonBigMapStorableType = typeCheck BigMapStorable"

section \<open>Instructions, data and contracts\<close>

definition in_list :: "string \<Rightarrow> string list \<Rightarrow> bool" where
  "in_list p ps \<longleftrightarrow> p \<in> set ps"

text \<open>\<open>if (assertIntLiteral(a)) assertNatural(a)\<close>.\<close>

definition naturalArg :: "expr \<Rightarrow> check" where
  "naturalArg a = bindR (assertIntLiteral a) (\<lambda>_. assertNatural a)"

text \<open>
  The loop over the sections of a contract carries the sections (\<open>toplevelSec\<close>) and the
  view names (\<open>views\<close>) seen so far.
\<close>

text \<open>\<open>assertArgs(sec, 4)\<close> and \<open>assertStringLiteral(sec.args[0])\<close> of a view.\<close>

definition viewArgs :: "expr \<Rightarrow> expr list option \<Rightarrow> validation_error + (string \<times> expr \<times> expr \<times> expr)" where
  "viewArgs sec args =
     (case args of
        Some [n, t, r, c] \<Rightarrow>
          (case n of StringLit name \<Rightarrow> Inr (name, t, r, c)
           | _ \<Rightarrow> Inl (MichelsonValidationError n StringLiteralExpected))
      | _ \<Rightarrow> Inl (MichelsonValidationError sec (ArgumentsExpected 4)))"

lemma viewArgs_Inr:
  "viewArgs sec args = Inr (name, t, r, c) \<longleftrightarrow> args = Some [StringLit name, t, r, c]"
  by (auto simp: viewArgs_def split: option.splits list.splits expr.splits)

lemma expr_mem_size [termination_simp]: "x \<in> set xs \<Longrightarrow> size x \<le> size_list size (xs :: expr list)"
  by (induction xs) auto

lemma elt_mem_size:
  "Prim p (Some [a, b]) an \<in> set xs \<Longrightarrow> size a < size_list size xs \<and> size b < size_list size (xs :: expr list)"
  using expr_mem_size [of "Prim p (Some [a, b]) an" xs] by simp

function (sequential) assertMichelsonInstruction :: "expr \<Rightarrow> check"
and assertMichelsonData :: "expr \<Rightarrow> check"
and assertMichelsonContract :: "expr \<Rightarrow> check"
and contractSections :: "expr \<Rightarrow> string list \<Rightarrow> string list \<Rightarrow> expr list \<Rightarrow> check"
where
  "assertMichelsonInstruction (Seq xs) =
     eachR (\<lambda>n. if is_sequence n \<or> is_prim n then assertMichelsonInstruction n
                else invalid (Seq xs) PrimOrSequenceExpected) xs"
| "assertMichelsonInstruction (Prim p args an) =
     (let ex = Prim p args an; wrong = (\<lambda>n. invalid ex (ArgumentsExpected n)) in
      if in_list p noArgInstructionIDs then assertArgCount ex args 0
      else if in_list p [''DROP'', ''PAIR'', ''UNPAIR'', ''DUP'', ''UPDATE'', ''GET''] then
        (case args of None \<Rightarrow> Inr () | Some [a] \<Rightarrow> naturalArg a | _ \<Rightarrow> wrong 1)
      else if in_list p [''DIG'', ''DUG'', ''SAPLING_EMPTY_STATE''] then
        (case args of Some [a] \<Rightarrow> naturalArg a | _ \<Rightarrow> wrong 1)
      else if in_list p [''NONE'', ''LEFT'', ''RIGHT'', ''NIL'', ''CAST''] then
        (case args of Some [a] \<Rightarrow> assertMichelsonType a | _ \<Rightarrow> wrong 1)
      else if p = ''UNPACK'' then
        (case args of Some [a] \<Rightarrow> assertMichelsonPackableType a | _ \<Rightarrow> wrong 1)
      else if p = ''CONTRACT'' then
        (case args of Some [a] \<Rightarrow> assertMichelsonPassableType a | _ \<Rightarrow> wrong 1)
      else if in_list p [''IF_NONE'', ''IF_LEFT'', ''IF_CONS'', ''IF''] then
        (case args of Some [a, b] \<Rightarrow> bindR (assertSeq a) (\<lambda>_. bindR (assertMichelsonInstruction a) (\<lambda>_. bindR (assertSeq b) (\<lambda>_. assertMichelsonInstruction b))) | _ \<Rightarrow> wrong 2)
      else if in_list p [''MAP'', ''ITER'', ''LOOP'', ''LOOP_LEFT''] then
        (case args of Some [a] \<Rightarrow> assertMichelsonInstruction a | _ \<Rightarrow> wrong 1)
      else if p = ''CREATE_CONTRACT'' then
        (case args of Some [a] \<Rightarrow> assertMichelsonContract a | _ \<Rightarrow> wrong 1)
      else if p = ''DIP'' then
        (case args of
           Some [a, b] \<Rightarrow> bindR (naturalArg a) (\<lambda>_. bindR (assertSeq b) (\<lambda>_. assertMichelsonInstruction b))
         | Some [a] \<Rightarrow> bindR (assertSeq a) (\<lambda>_. assertMichelsonInstruction a)
         | _ \<Rightarrow> invalid ex OneOrTwoArguments)
      else if p = ''PUSH'' then
        (case args of
           Some [a, b] \<Rightarrow> bindR (assertMichelsonPushableType a) (\<lambda>_. assertMichelsonData b) | _ \<Rightarrow> wrong 2)
      else if p = ''EMPTY_SET'' then
        (case args of Some [a] \<Rightarrow> assertMichelsonComparableType a | _ \<Rightarrow> wrong 1)
      else if p = ''EMPTY_MAP'' then
        (case args of
           Some [a, b] \<Rightarrow> bindR (assertMichelsonComparableType a) (\<lambda>_. assertMichelsonType b) | _ \<Rightarrow> wrong 2)
      else if p = ''EMPTY_BIG_MAP'' then
        (case args of
           Some [a, b] \<Rightarrow> bindR (assertMichelsonComparableType a) (\<lambda>_. assertMichelsonBigMapStorableType b)
         | _ \<Rightarrow> wrong 2)
      else if p = ''LAMBDA'' \<or> p = ''LAMBDA_REC'' then
        (case args of
           Some [a, b, c] \<Rightarrow>
             bindR (assertMichelsonType a) (\<lambda>_. bindR (assertMichelsonType b) (\<lambda>_. bindR (assertSeq c) (\<lambda>_. assertMichelsonInstruction c)))
         | _ \<Rightarrow> wrong 3)
      else if p = ''VIEW'' then
        (case args of
           Some [a, b] \<Rightarrow>
             bindR (assertViewNameValid a) (\<lambda>_. bindR (assertMichelsonType b) (\<lambda>_. assertMichelsonPushableType b))
         | _ \<Rightarrow> wrong 2)
      else if p = ''EMIT'' then
        (case args of Some (a # as) \<Rightarrow> assertArgCount ex args 1 | _ \<Rightarrow> assertArgCount ex args 0)
      else invalid ex InstructionExpected)"
| "assertMichelsonInstruction ex = invalid ex PrimExpected"
| "assertMichelsonData (IntLit i) = Inr ()"
| "assertMichelsonData (StringLit s) = Inr ()"
| "assertMichelsonData (BytesLit b) = Inr ()"
| "assertMichelsonData (Seq xs) =
     bindR (eachR (\<lambda>n.
       case n of
         Prim p args an \<Rightarrow>
           if p = ''Elt'' then
             (case args of
                Some [a, b] \<Rightarrow> bindR (assertMichelsonData a) (\<lambda>_. assertMichelsonData b)
              | _ \<Rightarrow> invalid n (ArgumentsExpected 2))
           else assertMichelsonData n
       | _ \<Rightarrow> assertMichelsonData n) xs)
     (\<lambda>_.
       let mapElts = length (filter (\<lambda>n. case n of Prim p args an \<Rightarrow> p = ''Elt'' | _ \<Rightarrow> False) xs) in
       if mapElts \<noteq> 0 \<and> mapElts \<noteq> length xs then invalid (Seq xs) MixedElements else Inr ())"
| "assertMichelsonData (Prim p args an) =
     (let ex = Prim p args an in
      if in_list p [''Unit'', ''True'', ''False'', ''None''] then assertArgCount ex args 0
      else if p = ''Pair'' then
        (case args of
           Some xs \<Rightarrow> if length xs < 2 then invalid ex AtLeastTwoArguments else eachR assertMichelsonData xs
         | None \<Rightarrow> invalid ex AtLeastTwoArguments)
      else if in_list p [''Left'', ''Right'', ''Some''] then
        (case args of Some [a] \<Rightarrow> assertMichelsonData a | _ \<Rightarrow> invalid ex (ArgumentsExpected 1))
      else if p = ''Lambda_rec'' then
        (case args of Some xs \<Rightarrow> assertMichelsonInstruction (Seq xs) | None \<Rightarrow> Inr ())
      else if in_list p instructionIDs then assertMichelsonInstruction ex
      else invalid ex DataOrInstructionExpected)"
| "assertMichelsonContract (Seq secs) = contractSections (Seq secs) [] [] secs"
| "assertMichelsonContract ex = invalid ex SequenceExpected"
| "contractSections ex seen views [] = Inr ()"
| "contractSections ex seen views (Prim p args an # rest) =
     (let sec = Prim p args an; seen' = (if p = ''view'' then seen else p # seen) in
      if p \<noteq> ''view'' \<and> in_list p seen then invalid ex (DuplicateSection p)
      else if p = ''code'' then
        bindR (case args of Some [a] \<Rightarrow> bindR (assertSeq a) (\<lambda>_. assertMichelsonInstruction a) | _ \<Rightarrow> invalid sec (ArgumentsExpected 1))
          (\<lambda>_. contractSections ex seen' views rest)
      else if p = ''parameter'' then
        bindR (case args of Some [a] \<Rightarrow> assertMichelsonPassableType a | _ \<Rightarrow> invalid sec (ArgumentsExpected 1))
          (\<lambda>_. if an \<noteq> None then invalid sec ParameterAnnotated else contractSections ex seen' views rest)
      else if p = ''storage'' then
        bindR (case args of Some [a] \<Rightarrow> assertMichelsonStorableType a | _ \<Rightarrow> invalid sec (ArgumentsExpected 1))
          (\<lambda>_. contractSections ex seen' views rest)
      else if p = ''view'' then
        (case viewArgs sec args of
           Inr (name, t, r, c) \<Rightarrow>
             if in_list name views then invalid ex (DuplicateView name)
             else bindR (assertViewNameValid (StringLit name)) (\<lambda>_.
                  bindR (assertMichelsonPushableType t) (\<lambda>_.
                  bindR (assertMichelsonPushableType r) (\<lambda>_.
                  bindR (assertSeq c) (\<lambda>_. bindR (assertMichelsonInstruction c) (\<lambda>_.
                  contractSections ex seen' (name # views) rest)))))
         | Inl err \<Rightarrow> Inl err)
      else invalid ex (UnexpectedSection p))"
| "contractSections ex seen views (sec # rest) = invalid sec PrimExpected"
  by pat_completeness auto

termination
  apply (relation "measure (case_sum
    (case_sum (\<lambda>ex. 2 * size ex) (\<lambda>ex. 2 * size ex + 1))
    (case_sum (\<lambda>ex. 2 * size ex) (\<lambda>(ex, seen, views, secs). 2 * size_list size secs + 1)))")
  apply (auto dest: expr_mem_size elt_mem_size simp: viewArgs_Inr)
  done

text \<open>The tests that catch the exception, and two helpers of other files.\<close>

definition isMichelsonScript :: "expr \<Rightarrow> bool" where
  "isMichelsonScript ex \<longleftrightarrow> assertMichelsonContract ex = Inr ()"

definition isMichelsonData :: "expr \<Rightarrow> bool" where
  "isMichelsonData ex \<longleftrightarrow> assertMichelsonData ex = Inr ()"

definition isMichelsonCode :: "expr \<Rightarrow> bool" where
  "isMichelsonCode ex \<longleftrightarrow> assertMichelsonInstruction ex = Inr ()"

definition isMichelsonType :: "expr \<Rightarrow> bool" where
  "isMichelsonType ex \<longleftrightarrow> assertMichelsonType ex = Inr ()"

definition isInstruction :: "string \<Rightarrow> bool" where
  "isInstruction p \<longleftrightarrow> p \<in> set instructionIDs"

text \<open>\<open>assertDataListIfAny\<close>: whether the data is a list, or the item that may not stand in one.\<close>

fun assertDataListIfAny :: "expr \<Rightarrow> expr + bool" where
  "assertDataListIfAny (Seq xs) =
     (case find (\<lambda>v. case v of Prim p args an \<Rightarrow> isInstruction p \<or> p = ''Elt'' | _ \<Rightarrow> False) xs of
        Some v \<Rightarrow> Inl v
      | None \<Rightarrow> Inr True)"
| "assertDataListIfAny d = Inr False"

declare bindR_cong [fundef_cong]

end
