(* ===== verification/ValidatorProofs.thy ===== *)
theory ValidatorProofs
  imports Validator
begin

text \<open>
  What the validator accepts.  The check of a class of types is the check of types in general
  and the absence of the class's excluded primitives from the visible positions of the type;
  a contract is accepted when each section is in order by itself, no section but a view is
  repeated and the views have different names; instructions and data are a grammar.
\<close>

section \<open>Types\<close>

lemmas type_check_defs =
  assertMichelsonType_def assertMichelsonComparableType_def assertMichelsonPackableType_def
  assertMichelsonPushableType_def assertMichelsonStorableType_def assertMichelsonPassableType_def
  assertMichelsonBigMapStorableType_def

text \<open>The primitives at the positions the check of a class looks at.\<close>

function type_prims :: "expr \<Rightarrow> string list" where
  "type_prims (Prim p (Some xs) an) = p #
     (if in_list p [''pair'', ''option'', ''list'', ''or''] then concat (map type_prims xs)
      else if in_list p [''map'', ''big_map''] then concat (map type_prims (drop 1 xs)) else [])"
| "type_prims (Prim p None an) = [p]"
| "type_prims (StringLit s) = []"
| "type_prims (IntLit i) = []"
| "type_prims (BytesLit b) = []"
| "type_prims (Seq xs) = []"
  by (auto, metis expr.exhaust option.exhaust)

termination
  by (relation "measure size") (auto dest: expr_mem_size dest!: in_set_dropD)

lemma typeCheck_Prim:
  assumes "k \<noteq> Comparable"
  shows "typeCheck k (Prim p args an) = Inr () \<longleftrightarrow>
     p \<in> set typeIDs \<and> p \<notin> set (excluded k) \<and> traverseType k (Prim p args an) = Inr ()"
  using assms by (simp del: traverseType.simps)

lemma traverseType_prims:
  "traverseType k (Prim ''pair'' (Some xs) an) = Inr () \<longleftrightarrow> 2 \<le> length xs \<and> (\<forall>x\<in>set xs. typeCheck k x = Inr ())"
  "p = ''option'' \<or> p = ''list'' \<Longrightarrow>
     traverseType k (Prim p (Some xs) an) = Inr () \<longleftrightarrow> (\<exists>a. xs = [a] \<and> typeCheck k a = Inr ())"
  "traverseType k (Prim ''or'' (Some xs) an) = Inr () \<longleftrightarrow>
     (\<exists>a b. xs = [a, b] \<and> isPrimOrSeq a \<and> isPrimOrSeq b \<and> typeCheck k a = Inr () \<and> typeCheck k b = Inr ())"
  "traverseType k (Prim ''map'' (Some xs) an) = Inr () \<longleftrightarrow>
     (\<exists>a b. xs = [a, b] \<and> isPrimOrSeq a \<and> isPrimOrSeq b \<and> typeCheck Comparable a = Inr () \<and> typeCheck k b = Inr ())"
  "traverseType k (Prim ''big_map'' (Some xs) an) = Inr () \<longleftrightarrow>
     (\<exists>a b. xs = [a, b] \<and> isPrimOrSeq a \<and> isPrimOrSeq b \<and> typeCheck Comparable a = Inr () \<and>
        typeCheck BigMapStorable b = Inr () \<and> typeCheck k b = Inr ())"
      apply (simp_all add: eachR_Inr del: typeCheck.simps)
      apply (auto simp: bindR_eq_Inr assertPrimOrSeq_def simp del: typeCheck.simps split: list.splits if_splits)
  done

lemma traverseType_fixed:
  assumes "p \<notin> {''pair'', ''option'', ''list'', ''or'', ''map'', ''big_map''}"
  shows "traverseType k (Prim p args an) = traverseType k' (Prim p args an)"
  using assms by simp

lemma six_cases:
  assumes "p \<in> {a, b, c, d, e, f}"
  obtains "p = a" | "p = b \<or> p = c" | "p = d" | "p = e" | "p = f"
  using assms by blast

lemma type_prims_simps:
  "p \<in> {''pair'', ''option'', ''list'', ''or''} \<Longrightarrow>
     set (type_prims (Prim p (Some xs) an)) = insert p (\<Union>x\<in>set xs. set (type_prims x))"
  "p \<in> {''map'', ''big_map''} \<Longrightarrow> set (type_prims (Prim p (Some [a, b]) an)) = insert p (set (type_prims b))"
  "p \<notin> {''pair'', ''option'', ''list'', ''or'', ''map'', ''big_map''} \<Longrightarrow> type_prims (Prim p (Some xs) an) = [p]"
  by (auto simp: in_list_def)

lemma typeCheck_class:
  assumes k: "k \<noteq> Comparable"
  shows "typeCheck k e = Inr () \<longleftrightarrow> typeCheck AnyType e = Inr () \<and> set (type_prims e) \<inter> set (excluded k) = {}"
proof (induction e rule: expr_induct)
  case (Prim p xs an)
  note plain = typeCheck.simps traverseType.simps type_prims.simps
  have any: "AnyType \<noteq> Comparable" by simp
  note rules = typeCheck_Prim [OF k] typeCheck_Prim [OF any]
  have pair: "set (type_prims (Prim ''pair'' (Some xs) an)) = insert ''pair'' (\<Union>x\<in>set xs. set (type_prims x))"
    and either: "set (type_prims (Prim ''or'' (Some xs) an)) = insert ''or'' (\<Union>x\<in>set xs. set (type_prims x))"
    by (rule type_prims_simps(1), simp)+
  show ?case
  proof (cases "p \<in> {''pair'', ''option'', ''list'', ''or'', ''map'', ''big_map''}")
    case True
    then show ?thesis
    proof (cases rule: six_cases)
      case 1
      then show ?thesis
        using Prim unfolding 1 rules traverseType_prims(1) pair by (auto simp del: plain)
    next
      case 2
      then have "set (type_prims (Prim p (Some xs) an)) = insert p (\<Union>x\<in>set xs. set (type_prims x))"
        by (intro type_prims_simps(1)) auto
      then show ?thesis using Prim unfolding rules traverseType_prims(2) [OF 2] by (auto simp del: plain)
    next
      case 3
      then show ?thesis using Prim
        unfolding 3 rules traverseType_prims(3) either by (auto simp del: plain)
    next
      case 4
      then show ?thesis using Prim
        unfolding 4 rules traverseType_prims(4) by (auto simp: type_prims_simps(2) simp del: plain)
    next
      case 5
      then show ?thesis using Prim
        unfolding 5 rules traverseType_prims(5) by (auto simp: type_prims_simps(2) simp del: plain)
    qed
  next
    case False
    show ?thesis
      unfolding rules traverseType_fixed [OF False, of k "Some xs" an AnyType] type_prims_simps(3) [OF False] by (auto simp del: plain)
  qed
next
  case (Prim0 p an)
  have "traverseType k (Prim p None an) = traverseType AnyType (Prim p None an)" by simp
  then show ?case using assms by (auto simp: typeCheck_Prim simp del: typeCheck.simps traverseType.simps)
qed (use assms in auto)

lemma simple_comparable: "p \<in> set simpleComparableTypeIDs \<Longrightarrow> typeCheck Comparable (Prim p args an) = Inr ()"
  by (auto simp: simpleComparableTypeIDs_def)

text \<open>Fewer exclusions, more types.\<close>

lemma class_order:
  assumes "typeCheck k e = Inr ()" and "k \<noteq> Comparable" "k' \<noteq> Comparable"
    and "set (excluded k') \<subseteq> set (excluded k)"
  shows "typeCheck k' e = Inr ()"
  using assms typeCheck_class [of k e] typeCheck_class [of k' e] by blast

lemma class_orders:
  "set (excluded Packable) \<subseteq> set (excluded Pushable)"
  "set (excluded Storable) \<subseteq> set (excluded Pushable)"
  "set (excluded BigMapStorable) \<subseteq> set (excluded Packable)"
  "set (excluded Passable) \<subseteq> set (excluded Storable)"
  "set (excluded Passable) \<subseteq> set (excluded BigMapStorable)"
  by auto

lemma class_steps:
  "typeCheck Pushable e = Inr () \<Longrightarrow> typeCheck Packable e = Inr ()"
  "typeCheck Pushable e = Inr () \<Longrightarrow> typeCheck Storable e = Inr ()"
  "typeCheck Packable e = Inr () \<Longrightarrow> typeCheck BigMapStorable e = Inr ()"
  "typeCheck Storable e = Inr () \<Longrightarrow> typeCheck Passable e = Inr ()"
  by (erule class_order; simp only: class_orders type_kind.distinct not_False_eq_True)+

section \<open>Contracts\<close>

text \<open>A section that is in order by itself, and what must not be repeated.\<close>

fun section_ok :: "expr \<Rightarrow> bool" where
  "section_ok (Prim p (Some [a]) an) \<longleftrightarrow>
     p = ''code'' \<and> is_sequence a \<and> isMichelsonCode a \<or>
     p = ''parameter'' \<and> typeCheck Passable a = Inr () \<and> an = None \<or>
     p = ''storage'' \<and> typeCheck Storable a = Inr ()"
| "section_ok (Prim p (Some [n, t, r, c]) an) \<longleftrightarrow>
     p = ''view'' \<and> assertViewNameValid n = Inr () \<and> typeCheck Pushable t = Inr () \<and> typeCheck Pushable r = Inr () \<and>
     is_sequence c \<and> isMichelsonCode c"
| "section_ok e \<longleftrightarrow> False"

definition section_names :: "expr list \<Rightarrow> string list" where
  "section_names secs = concat (map (\<lambda>s. case s of Prim p args an \<Rightarrow> if p = ''view'' then [] else [p] | _ \<Rightarrow> []) secs)"

definition view_names :: "expr list \<Rightarrow> string list" where
  "view_names secs = concat (map (\<lambda>s. case s of Prim p (Some (StringLit n # r)) an \<Rightarrow> if p = ''view'' then [n] else [] | _ \<Rightarrow> []) secs)"

lemma section_cases:
  assumes "section_ok s"
  obtains a an where "s = Prim ''code'' (Some [a]) an"
  | a where "s = Prim ''parameter'' (Some [a]) None"
  | a an where "s = Prim ''storage'' (Some [a]) an"
  | n t r c an where "s = Prim ''view'' (Some [StringLit n, t, r, c]) an"
  using assms
proof (cases s rule: section_ok.cases)
  case (2 p n t r c an)
  then show ?thesis using assms that(4) by (cases n) auto
qed (auto intro: that)

lemma names_simps:
  "section_names [] = []" "view_names [] = []"
  "section_names (Prim p args an # secs) = (if p = ''view'' then section_names secs else p # section_names secs)"
  "view_names (Prim ''view'' (Some [StringLit n, t, r, c]) an # secs) = n # view_names secs"
  "p \<noteq> ''view'' \<Longrightarrow> view_names (Prim p (Some [a]) an # secs) = view_names secs"
  by (auto simp: section_names_def view_names_def split: expr.splits)

lemma section_steps:
  "contractSections ex seen views (Prim ''code'' (Some [a]) an # rest) = Inr () \<longleftrightarrow>
     section_ok (Prim ''code'' (Some [a]) an) \<and> ''code'' \<notin> set seen \<and>
     contractSections ex (''code'' # seen) views rest = Inr ()"
  "contractSections ex seen views (Prim ''parameter'' (Some [a]) None # rest) = Inr () \<longleftrightarrow>
     section_ok (Prim ''parameter'' (Some [a]) None) \<and> ''parameter'' \<notin> set seen \<and>
     contractSections ex (''parameter'' # seen) views rest = Inr ()"
  "contractSections ex seen views (Prim ''storage'' (Some [a]) an # rest) = Inr () \<longleftrightarrow>
     section_ok (Prim ''storage'' (Some [a]) an) \<and> ''storage'' \<notin> set seen \<and>
     contractSections ex (''storage'' # seen) views rest = Inr ()"
  "contractSections ex seen views (Prim ''view'' (Some [StringLit n, t, r, c]) an # rest) = Inr () \<longleftrightarrow>
     section_ok (Prim ''view'' (Some [StringLit n, t, r, c]) an) \<and> n \<notin> set views \<and>
     contractSections ex seen (n # views) rest = Inr ()"
  by (auto simp: Let_def in_list_def viewArgs_def isMichelsonCode_def assertSeq_def bindR_eq_Inr assertMichelsonPassableType_def
      assertMichelsonPushableType_def assertMichelsonStorableType_def
      simp del: assertViewNameValid.simps typeCheck.simps)

lemma section_needed:
  assumes "contractSections ex seen views (s # secs) = Inr ()"
  shows "section_ok s"
proof -
  obtain p args an where s: "s = Prim p args an" using assms by (cases s) auto
  consider "p = ''code''" | "p = ''parameter''" | "p = ''storage''" | "p = ''view''"
    using assms unfolding s by (simp add: Let_def split: if_splits)
  then show ?thesis
  proof cases
    case 4
    obtain name t r c where v: "viewArgs s args = Inr (name, t, r, c)"
      using assms unfolding s 4 by (cases "viewArgs (Prim ''view'' args an) args") auto
    then show ?thesis using assms section_steps(4) unfolding s 4 viewArgs_Inr by blast
  qed (use assms in \<open>auto simp: s Let_def isMichelsonCode_def assertSeq_def bindR_eq_Inr assertMichelsonPassableType_def
      assertMichelsonStorableType_def simp del: typeCheck.simps split: if_splits option.splits list.splits\<close>)
qed

lemma contract_sections:
  "contractSections ex seen views secs = Inr () \<longleftrightarrow>
     (\<forall>s\<in>set secs. section_ok s) \<and> distinct (section_names secs) \<and> set (section_names secs) \<inter> set seen = {} \<and>
     distinct (view_names secs) \<and> set (view_names secs) \<inter> set views = {}"
proof (induction secs arbitrary: seen views)
  case Nil
  then show ?case by (simp add: names_simps)
next
  case (Cons s secs)
  show ?case
  proof (cases "section_ok s")
    case True
    note off = section_ok.simps contractSections.simps
    from True show ?thesis
    proof (cases rule: section_cases)
      case 1
      then show ?thesis using True Cons by (auto simp: section_steps names_simps simp del: off)
    next
      case 2
      then show ?thesis using True Cons by (auto simp: section_steps names_simps simp del: off)
    next
      case 3
      then show ?thesis using True Cons by (auto simp: section_steps names_simps simp del: off)
    next
      case 4
      then show ?thesis using True Cons by (auto simp: section_steps names_simps simp del: off)
    qed
  next
    case False
    then show ?thesis using section_needed by auto
  qed
qed

lemma contract_accepted:
  "isMichelsonScript (Seq secs) \<longleftrightarrow>
     (\<forall>s\<in>set secs. section_ok s) \<and> distinct (section_names secs) \<and> distinct (view_names secs)"
  by (simp add: isMichelsonScript_def contract_sections)

end
