(* ===== verification/PackUtils.thy ===== *)
theory PackUtils
  imports Validator
begin

text \<open>
  The helpers of \<open>taquito-michel-codec\<close> (\<open>utils.ts\<close>, \<open>base58.ts\<close>): the big decimal integers
  used to compare literals, bytes and hexadecimal text, annotations, the Base58 identifiers of
  Tezos, right combs and dates.  The text of a \<open>bytes\<close> literal is taken to be ASCII, where a
  character is one unit of the length.
\<close>

section \<open>Exceptions\<close>

datatype (plugins only: size code) pack_error =
    LongIntegerError char
  | OddLength string
  | HexParseError string
  | Base58DecodingError string
  | TezosIdEncodeError nat
  | UnexpectedAnnotation expr string
  | MichelsonTypeError expr expr
  | InvalidNode validation_error
  | InstructionOutside expr
  | JsError js_error
  | BoundsErr
  | UnknownTag nat
  | IteratorDone
  | CannotEncode string
  | BadBigInt string
  | BadMagic
  | UnparsableBytes string
  | InvalidTime

type_synonym 'a pk = "pack_error + 'a"

definition checked :: "check \<Rightarrow> unit pk" where
  "checked r = (case r of Inl e \<Rightarrow> Inl (InvalidNode e) | Inr u \<Rightarrow> Inr u)"

section \<open>Long integers\<close>

text \<open>Sign and magnitude, least significant byte first.\<close>

record LongInteger =
  li_neg :: bool
  li_buf :: "nat list"

text \<open>\<open>append(c)\<close>: the magnitude times ten, plus \<open>c\<close>.\<close>

function li_append :: "nat list \<Rightarrow> nat \<Rightarrow> nat list" where
  "li_append [] c = (if c = 0 then [] else c mod 256 # li_append [] (c div 256))"
| "li_append (b # bs) c = (let m = b * 10 + c in m mod 256 # li_append bs (m div 256))"
  by pat_completeness auto

termination
  by (relation "measures [\<lambda>(bs, c). length bs, \<lambda>(bs, c). c]") (auto intro: div_less_dividend)

fun li_digits :: "LongInteger \<Rightarrow> string \<Rightarrow> LongInteger pk" where
  "li_digits l [] = Inr l"
| "li_digits l (c # cs) =
     (let n = of_char c :: nat in
      if n < 48 \<or> 57 < n then Inl (LongIntegerError c)
      else li_digits (l\<lparr>li_buf := li_append (li_buf l) (n - 48)\<rparr>) cs)"

text \<open>The constructor on a text and on a number.\<close>

definition li_of_string :: "string \<Rightarrow> LongInteger pk" where
  "li_of_string arg =
     (if arg \<noteq> [] \<and> hd arg = CHR ''-'' then li_digits \<lparr>li_neg = True, li_buf = []\<rparr> (tl arg)
      else li_digits \<lparr>li_neg = False, li_buf = []\<rparr> arg)"

definition li_of_int :: "int \<Rightarrow> LongInteger" where
  "li_of_int arg = \<lparr>li_neg = (arg < 0), li_buf = li_append [] (nat \<bar>arg\<bar>)\<rparr>"

text \<open>The magnitudes, of equal length, from the most significant byte.\<close>

fun li_cmp_down :: "nat list \<Rightarrow> nat list \<Rightarrow> int" where
  "li_cmp_down (x # xs) (y # ys) = (if x = y then li_cmp_down xs ys else if x < y then - 1 else 1)"
| "li_cmp_down _ _ = 0"

definition li_cmp :: "LongInteger \<Rightarrow> LongInteger \<Rightarrow> int" where
  "li_cmp this arg =
     (if li_neg this \<noteq> li_neg arg then (if li_neg arg then 1 else 0) - (if li_neg this then 1 else 0)
      else let ret = (if length (li_buf this) \<noteq> length (li_buf arg)
                        then if length (li_buf this) < length (li_buf arg) then - 1 else 1
                      else li_cmp_down (rev (li_buf this)) (rev (li_buf arg)))
           in if \<not> li_neg this then ret else if ret = 0 then 0 else - ret)"

definition li_sign :: "LongInteger \<Rightarrow> int" where
  "li_sign l = (if li_buf l = [] then 0 else if li_neg l then - 1 else 1)"

definition isDecimal :: "string \<Rightarrow> bool" where
  "isDecimal x = (case li_of_string x of Inr _ \<Rightarrow> True | Inl _ \<Rightarrow> False)"

definition isNatural :: "string \<Rightarrow> bool" where
  "isNatural x = (case li_of_string x of Inr l \<Rightarrow> 0 \<le> li_sign l | Inl _ \<Rightarrow> False)"

section \<open>Bytes\<close>

text \<open>\<open>parseInt\<close> on each pair of characters; a number may be negative, and the arrays of
  bytes it is put in keep it modulo 256.\<close>

fun hex_pairs :: "string \<Rightarrow> int list option" where
  "hex_pairs [] = Some []"
| "hex_pairs [c] = (case js_parseInt 16 [c] of None \<Rightarrow> None | Some x \<Rightarrow> Some [x])"
| "hex_pairs (c # d # s) =
     (case js_parseInt 16 [c, d] of
        None \<Rightarrow> None
      | Some x \<Rightarrow> (case hex_pairs s of None \<Rightarrow> None | Some xs \<Rightarrow> Some (x # xs)))"

definition parseBytes :: "string \<Rightarrow> int list option pk" where
  "parseBytes s = (if odd (length s) then Inl (OddLength s) else Inr (hex_pairs s))"

fun parseHex :: "string \<Rightarrow> int list pk" where
  "parseHex [] = Inr []"
| "parseHex [c] = (case js_parseInt 16 [c] of None \<Rightarrow> Inl (HexParseError [c]) | Some x \<Rightarrow> Inr [x])"
| "parseHex (c # d # s) =
     (case js_parseInt 16 [c, d] of
        None \<Rightarrow> Inl (HexParseError [c, d])
      | Some x \<Rightarrow> bindR (parseHex s) (\<lambda>xs. Inr (x # xs)))"

text \<open>A number kept in an array of bytes.\<close>

definition to_byte :: "int \<Rightarrow> byte" where
  "to_byte x = word_of_int x"

definition hexBytes :: "byte list \<Rightarrow> string" where
  "hexBytes bytes = concat (map (\<lambda>x. [dig (unat x div 16), dig (unat x mod 16)]) bytes)"

text \<open>The loop looks for the first difference of two arrays of the same length.\<close>

fun compare_loop :: "byte list \<Rightarrow> byte list \<Rightarrow> int" where
  "compare_loop (x # xs) (y # ys) = (if x = y then compare_loop xs ys else if x < y then - 1 else 1)"
| "compare_loop _ _ = 0"

definition compareBytes :: "byte list \<Rightarrow> byte list \<Rightarrow> int" where
  "compareBytes a b =
     (if length a \<noteq> length b then if length a < length b then - 1 else 1 else compare_loop a b)"

section \<open>Annotations\<close>

record UnpackedAnnotations =
  ann_f :: "string list option"
  ann_t :: "string list option"
  ann_v :: "string list option"

record UnpackAnnotationsOptions =
  specialVar :: bool
  emptyVar :: bool
  specialFields :: bool
  emptyFields :: bool

definition ann_char :: "char \<Rightarrow> bool" where
  "ann_char c = (let n = of_char c :: nat in
     c = CHR ''_'' \<or> (48 \<le> n \<and> n \<le> 57) \<or> (97 \<le> n \<and> n \<le> 122) \<or> (65 \<le> n \<and> n \<le> 90))"

text \<open>The regular expression of an annotation.\<close>

fun annRe :: "string \<Rightarrow> bool" where
  "annRe [] = False"
| "annRe (c # cs) \<longleftrightarrow>
     c # cs \<in> {''@%'', ''@%%'', ''%@''} \<or>
     (c \<in> set ''@:%'' \<and> (case cs of [] \<Rightarrow> True
        | d # ds \<Rightarrow> ann_char d \<and> list_all (\<lambda>x. ann_char x \<or> x \<in> set ''.%@'') ds))"

definition push_opt :: "string list option \<Rightarrow> string \<Rightarrow> string list option" where
  "push_opt vso v = Some ((case vso of None \<Rightarrow> [] | Some vs \<Rightarrow> vs) @ [v])"

fun unpackAnn :: "expr \<Rightarrow> UnpackAnnotationsOptions \<Rightarrow> UnpackedAnnotations \<Rightarrow> string list \<Rightarrow> UnpackedAnnotations pk" where
  "unpackAnn p opt u [] = Inr u"
| "unpackAnn p opt u (v # vs) =
     (if v = [] then unpackAnn p opt u vs
      else if \<not> annRe v \<or> (\<not> specialVar opt \<and> (v = ''@%'' \<or> v = ''@%%'')) \<or> (\<not> specialFields opt \<and> v = ''%@'')
        then Inl (UnexpectedAnnotation p v)
      else if hd v = CHR ''%'' then
        unpackAnn p opt (if emptyFields opt \<or> 1 < length v then u\<lparr>ann_f := push_opt (ann_f u) v\<rparr> else u) vs
      else if hd v = CHR '':'' then
        unpackAnn p opt (if 1 < length v then u\<lparr>ann_t := push_opt (ann_t u) v\<rparr> else u) vs
      else unpackAnn p opt (if emptyVar opt \<or> 1 < length v then u\<lparr>ann_v := push_opt (ann_v u) v\<rparr> else u) vs)"

definition unpackAnnotations :: "expr \<Rightarrow> UnpackAnnotationsOptions \<Rightarrow> UnpackedAnnotations pk" where
  "unpackAnnotations p opt =
     (let none = \<lparr>ann_f = None, ann_t = None, ann_v = None\<rparr> in
      case p of
        Prim q args (Some annots) \<Rightarrow> unpackAnn p opt none annots
      | _ \<Rightarrow> Inr none)"

section \<open>Base58 identifiers\<close>

datatype (plugins only: size code) TezosIDType =
    BlockHash | OperationHash | OperationListHash | OperationListListHash | ProtocolHash
  | ContextHash | ED25519PublicKeyHash | SECP256K1PublicKeyHash | P256PublicKeyHash
  | ContractHash | CryptoboxPublicKeyHash | ED25519Seed | ED25519PublicKey | SECP256K1SecretKey
  | P256SecretKey | ED25519EncryptedSeed | SECP256K1EncryptedSecretKey
  | P256EncryptedSecretKey | SECP256K1PublicKey | P256PublicKey | SECP256K1Scalar
  | SECP256K1Element | ED25519SecretKey | ED25519Signature | SECP256K1Signature
  | P256Signature | GenericSignature | ChainID | RollupAddress | TxRollupL2Address

text \<open>Payload length and prefix.\<close>

fun tezosPrefix :: "TezosIDType \<Rightarrow> nat \<times> byte list" where
  "tezosPrefix BlockHash = (32, [1, 52])"
| "tezosPrefix OperationHash = (32, [5, 116])"
| "tezosPrefix OperationListHash = (32, [133, 233])"
| "tezosPrefix OperationListListHash = (32, [29, 159, 109])"
| "tezosPrefix ProtocolHash = (32, [2, 170])"
| "tezosPrefix ContextHash = (32, [79, 199])"
| "tezosPrefix ED25519PublicKeyHash = (20, [6, 161, 159])"
| "tezosPrefix SECP256K1PublicKeyHash = (20, [6, 161, 161])"
| "tezosPrefix P256PublicKeyHash = (20, [6, 161, 164])"
| "tezosPrefix ContractHash = (20, [2, 90, 121])"
| "tezosPrefix CryptoboxPublicKeyHash = (16, [153, 103])"
| "tezosPrefix ED25519Seed = (32, [13, 15, 58, 7])"
| "tezosPrefix ED25519PublicKey = (32, [13, 15, 37, 217])"
| "tezosPrefix SECP256K1SecretKey = (32, [17, 162, 224, 201])"
| "tezosPrefix P256SecretKey = (32, [16, 81, 238, 189])"
| "tezosPrefix ED25519EncryptedSeed = (56, [7, 90, 60, 179, 41])"
| "tezosPrefix SECP256K1EncryptedSecretKey = (56, [9, 237, 241, 174, 150])"
| "tezosPrefix P256EncryptedSecretKey = (56, [9, 48, 57, 115, 171])"
| "tezosPrefix SECP256K1PublicKey = (33, [3, 254, 226, 86])"
| "tezosPrefix P256PublicKey = (33, [3, 178, 139, 127])"
| "tezosPrefix SECP256K1Scalar = (33, [38, 248, 136])"
| "tezosPrefix SECP256K1Element = (33, [5, 92, 0])"
| "tezosPrefix ED25519SecretKey = (64, [43, 246, 78, 7])"
| "tezosPrefix ED25519Signature = (64, [9, 245, 205, 134, 18])"
| "tezosPrefix SECP256K1Signature = (64, [13, 115, 101, 19, 63])"
| "tezosPrefix P256Signature = (64, [54, 240, 44, 52])"
| "tezosPrefix GenericSignature = (64, [4, 130, 43])"
| "tezosPrefix ChainID = (4, [87, 82, 0])"
| "tezosPrefix RollupAddress = (20, [1, 128, 120, 31])"
| "tezosPrefix TxRollupL2Address = (20, [6, 161, 166])"

text \<open>A single decoded byte makes \<open>new Array(n)\<close> an array of holes; no prefix matches either.\<close>

definition decodeBase58Check :: "libs \<Rightarrow> string \<Rightarrow> byte list pk" where
  "decodeBase58Check L src =
     (case bs58_decode L src of None \<Rightarrow> Inl (Base58DecodingError src) | Some buf \<Rightarrow> Inr buf)"

definition encodeBase58Check :: "libs \<Rightarrow> byte list \<Rightarrow> string" where
  "encodeBase58Check L src = bs58_encode L src"

fun match_id :: "byte list \<Rightarrow> TezosIDType list \<Rightarrow> (TezosIDType \<times> byte list) option" where
  "match_id buf [] = None"
| "match_id buf (t # ts) =
     (let (plen, p) = tezosPrefix t in
      if length buf = plen + length p \<and> take (length p) buf = p then Some (t, drop (length p) buf)
      else match_id buf ts)"

definition checkDecodeTezosID :: "libs \<Rightarrow> string \<Rightarrow> TezosIDType list \<Rightarrow> (TezosIDType \<times> byte list) option pk" where
  "checkDecodeTezosID L idt types = bindR (decodeBase58Check L idt) (\<lambda>buf. Inr (match_id buf types))"

definition encodeTezosID :: "libs \<Rightarrow> TezosIDType \<Rightarrow> byte list \<Rightarrow> string pk" where
  "encodeTezosID L idt data =
     (let (plen, p) = tezosPrefix idt in
      if length data \<noteq> plen then Inl (TezosIdEncodeError (length data))
      else Inr (encodeBase58Check L (p @ data)))"

section \<open>Combs\<close>

definition isPairType :: "expr \<Rightarrow> bool" where
  "isPairType t = (case t of Seq xs \<Rightarrow> True | Prim p args an \<Rightarrow> p = ''pair'' | _ \<Rightarrow> False)"

definition isPairData :: "expr \<Rightarrow> bool" where
  "isPairData d = (case d of Seq xs \<Rightarrow> True | Prim p args an \<Rightarrow> p = ''Pair'' | _ \<Rightarrow> False)"

text \<open>
  \<open>unpackComb\<close>: the two components and the annotations of the result; a component that is
  not there is \<open>None\<close>, a missing argument array an exception.
\<close>

fun comb_args :: "string \<Rightarrow> expr list \<Rightarrow> expr option list" where
  "comb_args idt [a, b] = [Some a, Some b]"
| "comb_args idt [] = [None, Some (Prim idt (Some []) None)]"
| "comb_args idt (a # as) = [Some a, Some (Prim idt (Some as) None)]"

definition unpackComb :: "string \<Rightarrow> expr \<Rightarrow> (expr option list \<times> string list option) pk" where
  "unpackComb idt v =
     (case v of
        Seq xs \<Rightarrow> Inr (comb_args idt xs, None)
      | Prim p (Some xs) an \<Rightarrow> Inr (comb_args idt xs, if length xs = 2 then None else an)
      | _ \<Rightarrow> Inl (JsError (TypeErr ''length'')))"

end
