(* ===== verification/JsDate.thy ===== *)
theory JsDate
  imports PackUtils
begin

text \<open>
  Dates in \<open>taquito-michel-codec\<close>: the regular expression \<open>rfc3339Re\<close> and \<open>parseDate\<close>
  (\<open>utils.ts\<close>), on the parts of the standard \<open>Date\<close> they and \<open>binary.ts\<close> use.  A \<open>Date\<close> is
  its time value, milliseconds since 1970, or invalid.  \<open>new Date(text)\<close> is as in Node: the
  second 60 makes the date invalid, and a day up to 31 that the month does not have is counted on
  into the next month.  With a blank in place of the \<open>T\<close>, Node reads a text of a year before 100 in
  another order; that is not modelled.
\<close>

section \<open>The calendar\<close>

definition leap :: "nat \<Rightarrow> bool" where
  "leap y \<longleftrightarrow> y mod 4 = 0 \<and> (y mod 100 \<noteq> 0 \<or> y mod 400 = 0)"

text \<open>Days from the first day of year 0 to the first day of a year; the lengths of the months.\<close>

definition day_from_year :: "nat \<Rightarrow> nat" where
  "day_from_year y = 365 * y + (y + 3) div 4 + (y + 399) div 400 - (y + 99) div 100"

definition months :: "nat \<Rightarrow> nat list" where
  "months y = [31, if leap y then 29 else 28, 31, 30, 31, 30, 31, 31, 30, 31, 30, 31]"

definition epoch_day :: nat where
  "epoch_day = 719528"

definition day_number :: "nat \<Rightarrow> nat \<Rightarrow> nat \<Rightarrow> nat" where
  "day_number y m d = day_from_year y + sum_list (take (m - 1) (months y)) + (d - 1)"

text \<open>Back: the year, downward from a bound, and the month and day.\<close>

fun find_year :: "nat \<Rightarrow> nat \<Rightarrow> nat" where
  "find_year 0 d = 0"
| "find_year (Suc y) d = (if day_from_year (Suc y) \<le> d then Suc y else find_year y d)"

fun find_month :: "nat list \<Rightarrow> nat \<Rightarrow> nat \<times> nat" where
  "find_month [] d = (0, d)"
| "find_month (n # ns) d = (if d < n then (0, d) else let (m, r) = find_month ns (d - n) in (Suc m, r))"

text \<open>Year (possibly negative), month and day of a day counted from 1970; the calendar repeats
  after 400 years.\<close>

definition civil :: "int \<Rightarrow> int \<times> nat \<times> nat" where
  "civil n =
     (let e = n + int epoch_day; d = nat (e mod 146097); y = find_year (d div 365) d;
          (m, r) = find_month (months y) (d - day_from_year y)
      in (400 * (e div 146097) + int y, m + 1, r + 1))"

section \<open>Texts of dates\<close>

record rfc3339 =
  rfc_year :: nat
  rfc_month :: nat
  rfc_day :: nat
  rfc_hour :: nat
  rfc_minute :: nat
  rfc_second :: nat
  rfc_millis :: nat
  rfc_offset :: int

text \<open>A number of fixed width inside bounds.\<close>

definition fixed_num :: "string \<Rightarrow> nat \<Rightarrow> nat \<Rightarrow> nat option" where
  "fixed_num s lo hi =
     (if list_all is_digit s \<and> lo \<le> of_digits 10 s \<and> of_digits 10 s \<le> hi then Some (of_digits 10 s) else None)"

text \<open>\<open>Z\<close>, or hours and minutes with a sign, in minutes.\<close>

definition parse_zone :: "string \<Rightarrow> int option" where
  "parse_zone z =
     (if z = ''Z'' then Some 0
      else if length z = 6 \<and> hd z \<in> set ''+-'' \<and> z ! 3 = CHR '':'' then
        (case (fixed_num (take 2 (drop 1 z)) 0 23, fixed_num (drop 4 z) 0 59) of
           (Some h, Some m) \<Rightarrow> Some ((if hd z = CHR ''-'' then - 1 else 1) * int (60 * h + m))
         | _ \<Rightarrow> None)
      else None)"

text \<open>An optional fraction, cut to milliseconds, before the zone.\<close>

definition parse_fraction :: "string \<Rightarrow> (nat \<times> string) option" where
  "parse_fraction r =
     (if r \<noteq> [] \<and> hd r = CHR ''.'' then
        (let ds = takeWhile is_digit (tl r) in
         if ds = [] then None else Some (of_digits 10 (take 3 (ds @ ''00'')), dropWhile is_digit (tl r)))
      else Some (0, r))"

definition rfc3339Re :: "string \<Rightarrow> rfc3339 option" where
  "rfc3339Re s =
     (if 20 \<le> length s \<and> s ! 4 = CHR ''-'' \<and> s ! 7 = CHR ''-'' \<and> s ! 10 \<in> set ''T '' \<and>
         s ! 13 = CHR '':'' \<and> s ! 16 = CHR '':'' then
        (case (fixed_num (take 4 s) 0 9999, fixed_num (take 2 (drop 5 s)) 1 12,
               fixed_num (take 2 (drop 8 s)) 1 31, fixed_num (take 2 (drop 11 s)) 0 23,
               fixed_num (take 2 (drop 14 s)) 0 59, fixed_num (take 2 (drop 17 s)) 0 60,
               parse_fraction (drop 19 s)) of
           (Some y, Some mo, Some d, Some h, Some mi, Some sc, Some (ms, z)) \<Rightarrow>
             (case parse_zone z of
                Some off \<Rightarrow> Some \<lparr>rfc_year = y, rfc_month = mo, rfc_day = d, rfc_hour = h, rfc_minute = mi,
                  rfc_second = sc, rfc_millis = ms, rfc_offset = off\<rparr>
              | None \<Rightarrow> None)
         | _ \<Rightarrow> None)
      else None)"

text \<open>\<open>new Date(text)\<close> on such a text: the time value, \<open>None\<close> for an invalid date.\<close>

definition date_value :: "rfc3339 \<Rightarrow> int option" where
  "date_value r =
     (if rfc_second r = 60 then None
      else Some (((int (day_number (rfc_year r) (rfc_month r) (rfc_day r)) - int epoch_day) * 1440
             + int (60 * rfc_hour r + rfc_minute r) - rfc_offset r) * 60000
           + int (1000 * rfc_second r + rfc_millis r)))"

text \<open>\<open>new Date(number)\<close>: times beyond the range of the format are invalid.\<close>

definition time_clip :: "int option \<Rightarrow> int option" where
  "time_clip t = (case t of Some x \<Rightarrow> if \<bar>x\<bar> \<le> 8640000000000000 then Some x else None | None \<Rightarrow> None)"

text \<open>
  \<open>parseDate\<close>: no date (\<open>None\<close>), or a date that may be invalid.  \<open>Number.isNaN(x.valueOf)\<close>
  tests a function, so an invalid date is returned as it is.
\<close>

definition parseDate :: "expr \<Rightarrow> int option option" where
  "parseDate a =
     (case a of
        StringLit s \<Rightarrow>
          if isNatural s then Some (time_clip (js_parseInt 10 s))
          else (case rfc3339Re s of Some r \<Rightarrow> Some (date_value r) | None \<Rightarrow> None)
      | IntLit i \<Rightarrow> if isDecimal i then Some (time_clip (js_parseInt 10 i)) else None
      | _ \<Rightarrow> None)"

text \<open>\<open>toISOString\<close>; a year outside four digits has a sign and six digits.\<close>

definition pad2 :: "nat \<Rightarrow> string" where
  "pad2 n = padStart 2 (digits 10 n)"

definition toISOString :: "int \<Rightarrow> string option" where
  "toISOString t =
     (if 8640000000000000 < \<bar>t\<bar> then None
      else let (y, mo, d) = civil (t div 86400000); r = nat (t mod 86400000);
               year = (if 0 \<le> y \<and> y \<le> 9999 then padStart 4 (digits 10 (nat y))
                       else (if y < 0 then ''-'' else ''+'') @ padStart 6 (digits 10 (nat \<bar>y\<bar>)))
           in Some (year @ ''-'' @ pad2 mo @ ''-'' @ pad2 d @ ''T'' @ pad2 (r div 3600000) @ '':'' @
                pad2 (r div 60000 mod 60) @ '':'' @ pad2 (r div 1000 mod 60) @ ''.'' @
                padStart 3 (digits 10 (r mod 1000)) @ ''Z''))"

end
