(* ===== verification/PackBinary.thy ===== *)
theory PackBinary
  imports JsDate Zarith
begin

text \<open>
  The binary form of Michelson data, \<open>PACK\<close> and \<open>UNPACK\<close> (\<open>binary.ts\<close>): the byte writer and
  reader, addresses and keys, the functions that turn values of a type into their optimised
  form and back, and the two mutually dependent traversals.  A transform function is a value:
  pass through, transform at a type, or transform the element of a map; the iterator of
  transforms for the components is a finite list or one transform forever, and a component
  whose type is missing is \<open>None\<close>, an exception when the iterator reaches it.
\<close>

unbundle bit_operations_syntax

section \<open>Primitives and tags\<close>

definition primitives :: "string list" where
  "primitives = [
  ''parameter'', ''storage'', ''code'', ''False'', ''Elt'', ''Left'', ''None'', ''Pair'',
  ''Right'', ''Some'', ''True'', ''Unit'', ''PACK'', ''UNPACK'', ''BLAKE2B'', ''SHA256'',
  ''SHA512'', ''ABS'', ''ADD'', ''AMOUNT'', ''AND'', ''BALANCE'', ''CAR'', ''CDR'',
  ''CHECK_SIGNATURE'', ''COMPARE'', ''CONCAT'', ''CONS'', ''CREATE_ACCOUNT'',
  ''CREATE_CONTRACT'', ''IMPLICIT_ACCOUNT'', ''DIP'', ''DROP'', ''DUP'', ''EDIV'',
  ''EMPTY_MAP'', ''EMPTY_SET'', ''EQ'', ''EXEC'', ''FAILWITH'', ''GE'', ''GET'', ''GT'',
  ''HASH_KEY'', ''IF'', ''IF_CONS'', ''IF_LEFT'', ''IF_NONE'', ''INT'', ''LAMBDA'', ''LE'',
  ''LEFT'', ''LOOP'', ''LSL'', ''LSR'', ''LT'', ''MAP'', ''MEM'', ''MUL'', ''NEG'', ''NEQ'',
  ''NIL'', ''NONE'', ''NOT'', ''NOW'', ''OR'', ''PAIR'', ''PUSH'', ''RIGHT'', ''SIZE'',
  ''SOME'', ''SOURCE'', ''SENDER'', ''SELF'', ''STEPS_TO_QUOTA'', ''SUB'', ''SWAP'',
  ''TRANSFER_TOKENS'', ''SET_DELEGATE'', ''UNIT'', ''UPDATE'', ''XOR'', ''ITER'',
  ''LOOP_LEFT'', ''ADDRESS'', ''CONTRACT'', ''ISNAT'', ''CAST'', ''RENAME'', ''bool'',
  ''contract'', ''int'', ''key'', ''key_hash'', ''lambda'', ''list'', ''map'', ''big_map'',
  ''nat'', ''option'', ''or'', ''pair'', ''set'', ''signature'', ''string'', ''bytes'',
  ''mutez'', ''timestamp'', ''unit'', ''operation'', ''address'', ''SLICE'', ''DIG'', ''DUG'',
  ''EMPTY_BIG_MAP'', ''APPLY'', ''chain_id'', ''CHAIN_ID'', ''LEVEL'', ''SELF_ADDRESS'',
  ''never'', ''NEVER'', ''UNPAIR'', ''VOTING_POWER'', ''TOTAL_VOTING_POWER'', ''KECCAK'',
  ''SHA3'', ''PAIRING_CHECK'', ''bls12_381_g1'', ''bls12_381_g2'', ''bls12_381_fr'',
  ''sapling_state'', ''sapling_transaction_deprecated'', ''SAPLING_EMPTY_STATE'',
  ''SAPLING_VERIFY_UPDATE'', ''ticket'', ''TICKET_DEPRECATED'', ''READ_TICKET'',
  ''SPLIT_TICKET'', ''JOIN_TICKETS'', ''GET_AND_UPDATE'', ''chest'', ''chest_key'',
  ''OPEN_CHEST'', ''VIEW'', ''view'', ''constant'', ''SUB_MUTEZ'', ''tx_rollup_l2_address'',
  ''MIN_BLOCK_TIME'', ''sapling_transaction'', ''EMIT'', ''Lambda_rec'', ''LAMBDA_REC'',
  ''TICKET'', ''BYTES'', ''NAT'']"

fun index_of :: "string \<Rightarrow> string list \<Rightarrow> nat option" where
  "index_of p [] = None"
| "index_of p (q # qs) = (if p = q then Some 0 else map_option Suc (index_of p qs))"

definition primTags :: "string \<Rightarrow> nat option" where
  "primTags p = index_of p primitives"

section \<open>The writer\<close>

record writer =
  wr_buffer :: "byte list"

definition new_writer :: writer where
  "new_writer = \<lparr>wr_buffer = []\<rparr>"

definition writeBytes :: "byte list \<Rightarrow> writer \<Rightarrow> writer" where
  "writeBytes val w = w\<lparr>wr_buffer := wr_buffer w @ val\<rparr>"

definition writeUint8 :: "int \<Rightarrow> writer \<Rightarrow> writer" where
  "writeUint8 val w =
     (let v = word_of_int val :: 32 word in w\<lparr>wr_buffer := wr_buffer w @ [ucast (v AND 255)]\<rparr>)"

definition writeUint16 :: "int \<Rightarrow> writer \<Rightarrow> writer" where
  "writeUint16 val w =
     (let v = word_of_int val :: 32 word in
      w\<lparr>wr_buffer := wr_buffer w @ [ucast (signed_drop_bit 8 v AND 255), ucast (v AND 255)]\<rparr>)"

definition writeUint32 :: "int \<Rightarrow> writer \<Rightarrow> writer" where
  "writeUint32 val w =
     (let v = word_of_int val :: 32 word in
      w\<lparr>wr_buffer := wr_buffer w @ [ucast (signed_drop_bit 24 v AND 255), ucast (signed_drop_bit 16 v AND 255),
        ucast (signed_drop_bit 8 v AND 255), ucast (v AND 255)]\<rparr>)"

definition writeInt8 :: "int \<Rightarrow> writer \<Rightarrow> writer" where
  "writeInt8 = writeUint8"

definition writeInt16 :: "int \<Rightarrow> writer \<Rightarrow> writer" where
  "writeInt16 = writeUint16"

definition writeInt32 :: "int \<Rightarrow> writer \<Rightarrow> writer" where
  "writeInt32 = writeUint32"

section \<open>The reader\<close>

text \<open>A window \<open>idx .. cap\<close> of a buffer, shared by the readers made from it.\<close>

record reader =
  rd_buffer :: "byte list"
  rd_idx :: nat
  rd_cap :: nat

definition new_reader :: "byte list \<Rightarrow> reader" where
  "new_reader bs = \<lparr>rd_buffer = bs, rd_idx = 0, rd_cap = length bs\<rparr>"

definition rd_length :: "reader \<Rightarrow> nat" where
  "rd_length r = rd_cap r - rd_idx r"

definition readBytes :: "nat \<Rightarrow> reader \<Rightarrow> (byte list \<times> reader) pk" where
  "readBytes len r =
     (if rd_cap r - rd_idx r < len then Inl BoundsErr
      else Inr (take len (drop (rd_idx r) (rd_buffer r)), r\<lparr>rd_idx := rd_idx r + len\<rparr>))"

text \<open>\<open>reader(len)\<close>: a reader of the next bytes, which this one skips.\<close>

definition sub_reader :: "nat \<Rightarrow> reader \<Rightarrow> (reader \<times> reader) pk" where
  "sub_reader len r =
     (if rd_cap r - rd_idx r < len then Inl BoundsErr
      else Inr (r\<lparr>rd_cap := rd_idx r + len\<rparr>, r\<lparr>rd_idx := rd_idx r + len\<rparr>))"

definition rd_at :: "reader \<Rightarrow> nat \<Rightarrow> 32 word" where
  "rd_at r i = ucast (rd_buffer r ! (rd_idx r + i))"

definition rd_word16 :: "reader \<Rightarrow> 32 word" where
  "rd_word16 r = push_bit 8 (rd_at r 0) OR rd_at r 1"

definition rd_word32 :: "reader \<Rightarrow> 32 word" where
  "rd_word32 r = push_bit 24 (rd_at r 0) OR push_bit 16 (rd_at r 1) OR push_bit 8 (rd_at r 2) OR rd_at r 3"

definition rd_number :: "nat \<Rightarrow> (reader \<Rightarrow> 'a) \<Rightarrow> reader \<Rightarrow> ('a \<times> reader) pk" where
  "rd_number n f r =
     (if rd_cap r - rd_idx r < n then Inl BoundsErr else Inr (f r, r\<lparr>rd_idx := rd_idx r + n\<rparr>))"

definition readUint8 :: "reader \<Rightarrow> (nat \<times> reader) pk" where
  "readUint8 = rd_number 1 (\<lambda>r. unat (rd_at r 0))"

definition readUint16 :: "reader \<Rightarrow> (nat \<times> reader) pk" where
  "readUint16 = rd_number 2 (\<lambda>r. unat (rd_word16 r))"

definition readUint32 :: "reader \<Rightarrow> (nat \<times> reader) pk" where
  "readUint32 = rd_number 4 (\<lambda>r. unat (rd_word32 r))"

definition readInt8 :: "reader \<Rightarrow> (int \<times> reader) pk" where
  "readInt8 = rd_number 1 (\<lambda>r. sint (signed_drop_bit 24 (push_bit 24 (rd_at r 0))))"

definition readInt16 :: "reader \<Rightarrow> (int \<times> reader) pk" where
  "readInt16 = rd_number 2 (\<lambda>r. sint (signed_drop_bit 16 (push_bit 16 (rd_word16 r))))"

definition readInt32 :: "reader \<Rightarrow> (int \<times> reader) pk" where
  "readInt32 = rd_number 4 (\<lambda>r. sint (rd_word32 r))"

text \<open>\<open>new TextDecoder().decode(bytes)\<close> drops a leading byte order mark.\<close>

definition text_decode :: "byte list \<Rightarrow> string" where
  "text_decode bs = utf8_decode (if take 3 bs = [239, 187, 191] then drop 3 bs else bs)"

section \<open>Addresses and keys\<close>

record Address =
  addr_type :: TezosIDType
  addr_hash :: "byte list"
  entryPoint :: "string option"

record PublicKey =
  pk_type :: TezosIDType
  publicKey :: "byte list"

definition readPublicKeyHash :: "reader \<Rightarrow> (Address \<times> reader) pk" where
  "readPublicKeyHash rd =
     bindR (readUint8 rd) (\<lambda>(tag, rd1).
       let found = (\<lambda>t. bindR (readBytes 20 rd1) (\<lambda>(h, rd2). Inr (\<lparr>addr_type = t, addr_hash = h, entryPoint = None\<rparr>, rd2))) in
       if tag = 0 then found ED25519PublicKeyHash
       else if tag = 1 then found SECP256K1PublicKeyHash
       else if tag = 2 then found P256PublicKeyHash
       else Inl (UnknownTag tag))"

definition readAddress :: "reader \<Rightarrow> (Address \<times> reader) pk" where
  "readAddress rd =
     bindR (readUint8 rd) (\<lambda>(tag, rd1).
     bindR (if tag = 0 then readPublicKeyHash rd1
            else if tag = 1 then
              bindR (readBytes 20 rd1) (\<lambda>(h, rd2).
              bindR (readBytes 1 rd2) (\<lambda>(_, rd3).
              Inr (\<lparr>addr_type = ContractHash, addr_hash = h, entryPoint = None\<rparr>, rd3)))
            else Inl (UnknownTag tag)) (\<lambda>(address, rd2).
     if rd_length rd2 \<noteq> 0 then
       bindR (readBytes (rd_length rd2) rd2) (\<lambda>(bs, rd3). Inr (address\<lparr>entryPoint := Some (text_decode bs)\<rparr>, rd3))
     else Inr (address, rd2)))"

definition writePublicKeyHash :: "Address \<Rightarrow> writer \<Rightarrow> writer pk" where
  "writePublicKeyHash a w =
     (case addr_type a of
        ED25519PublicKeyHash \<Rightarrow> Inr (writeBytes (addr_hash a) (writeUint8 0 w))
      | SECP256K1PublicKeyHash \<Rightarrow> Inr (writeBytes (addr_hash a) (writeUint8 1 w))
      | P256PublicKeyHash \<Rightarrow> Inr (writeBytes (addr_hash a) (writeUint8 2 w))
      | _ \<Rightarrow> Inl (JsError (PlainError ''unexpected address type'')))"

definition writeAddress :: "Address \<Rightarrow> writer \<Rightarrow> writer pk" where
  "writeAddress a w =
     bindR (if addr_type a = ContractHash
            then Inr (writeUint8 0 (writeBytes (addr_hash a) (writeUint8 1 w)))
            else writePublicKeyHash a (writeUint8 0 w)) (\<lambda>w1.
     case entryPoint a of
       Some ep \<Rightarrow> Inr (if ep \<noteq> [] \<and> ep \<noteq> ''default'' then writeBytes (utf8_encode ep) w1 else w1)
     | None \<Rightarrow> Inr w1)"

definition readPublicKey :: "reader \<Rightarrow> (PublicKey \<times> reader) pk" where
  "readPublicKey rd =
     bindR (readUint8 rd) (\<lambda>(tag, rd1).
       let found = (\<lambda>t ln. bindR (readBytes ln rd1) (\<lambda>(k, rd2). Inr (\<lparr>pk_type = t, publicKey = k\<rparr>, rd2))) in
       if tag = 0 then found ED25519PublicKey 32
       else if tag = 1 then found SECP256K1PublicKey 33
       else if tag = 2 then found P256PublicKey 33
       else Inl (UnknownTag tag))"

definition writePublicKey :: "PublicKey \<Rightarrow> writer \<Rightarrow> writer pk" where
  "writePublicKey pk w =
     (case pk_type pk of
        ED25519PublicKey \<Rightarrow> Inr (writeBytes (publicKey pk) (writeUint8 0 w))
      | SECP256K1PublicKey \<Rightarrow> Inr (writeBytes (publicKey pk) (writeUint8 1 w))
      | P256PublicKey \<Rightarrow> Inr (writeBytes (publicKey pk) (writeUint8 2 w))
      | _ \<Rightarrow> Inl (JsError (PlainError ''unexpected public key type'')))"

end
