(* ===== verification/PackData.thy ===== *)
theory PackData
  imports PackBinary
begin

text \<open>
  \<open>PACK\<close> and \<open>UNPACK\<close> (\<open>binary.ts\<close>), second part: the transform functions of the types,
  \<open>writeExpr\<close>, \<open>readExpr\<close> with its two passes over the components, \<open>packData\<close> and
  \<open>unpackData\<close>.  \<open>readExpr\<close> takes fuel, \<open>2 n + 2\<close> for \<open>n\<close> bytes.
\<close>

section \<open>Iterators of transforms\<close>

datatype (plugins only: size code) 'f iter = Finite "'f option list" | Forever 'f

text \<open>\<open>args.next()\<close>, where the end of the iterator is the exception of the callers.\<close>

fun iter_next :: "'f iter \<Rightarrow> ('f \<times> 'f iter) pk" where
  "iter_next (Finite []) = Inl IteratorDone"
| "iter_next (Finite (None # fs)) = Inl (JsError (TypeErr ''prim of undefined''))"
| "iter_next (Finite (Some f # fs)) = Inr (f, Finite fs)"
| "iter_next (Forever f) = Inr (f, Forever f)"

text \<open>The argument of a type, and all arguments.\<close>

definition arg_at :: "expr list option \<Rightarrow> nat \<Rightarrow> expr option" where
  "arg_at args i = (case args of Some xs \<Rightarrow> if i < length xs then Some (xs ! i) else None | None \<Rightarrow> None)"

definition all_args :: "expr list option \<Rightarrow> expr option list" where
  "all_args args = (case args of Some xs \<Rightarrow> map Some xs | None \<Rightarrow> [None])"

definition isOrData :: "expr \<Rightarrow> bool" where
  "isOrData e = (case e of Prim p args an \<Rightarrow> p = ''Left'' \<or> p = ''Right'' | _ \<Rightarrow> False)"

definition isOptionData :: "expr \<Rightarrow> bool" where
  "isOptionData e = (case e of Prim p args an \<Rightarrow> p = ''Some'' \<or> p = ''None'' | _ \<Rightarrow> False)"

definition isPushInstruction :: "expr \<Rightarrow> bool" where
  "isPushInstruction e = (case e of Prim p args an \<Rightarrow> p = ''PUSH'' | _ \<Rightarrow> False)"

definition isEltData :: "expr \<Rightarrow> bool" where
  "isEltData e = (case e of Prim p args an \<Rightarrow> p = ''Elt'' | _ \<Rightarrow> False)"

definition isListData :: "expr \<Rightarrow> bool" where
  "isListData e = (case e of Seq xs \<Rightarrow> True | _ \<Rightarrow> False)"

definition type_args :: "expr \<Rightarrow> expr list option" where
  "type_args t = (case t of Prim p args an \<Rightarrow> args | _ \<Rightarrow> None)"

definition prim_of :: "expr \<Rightarrow> string" where
  "prim_of t = (case t of Prim p args an \<Rightarrow> p | _ \<Rightarrow> [])"

section \<open>Transforms for writing\<close>

datatype (plugins only: size code) wtf = WPass | WTyped expr | WElt expr

text \<open>The leaf types whose base58 text has a shorter form in bytes.\<close>

definition base58_bytes :: "libs \<Rightarrow> expr \<Rightarrow> expr \<Rightarrow> TezosIDType list \<Rightarrow> (TezosIDType \<times> byte list \<Rightarrow> byte list pk) \<Rightarrow> string \<Rightarrow> expr pk" where
  "base58_bytes L t d types conv s =
     bindR (checkDecodeTezosID L s types) (\<lambda>r.
       case r of
         None \<Rightarrow> Inl (MichelsonTypeError t d)
       | Some i \<Rightarrow> bindR (conv i) (\<lambda>bs. Inr (BytesLit (hexBytes bs))))"

definition write_leaf :: "libs \<Rightarrow> expr \<Rightarrow> expr \<Rightarrow> expr pk" where
  "write_leaf L t d =
     (let p = prim_of t in
      if p = ''timestamp'' then
        (case d of
           StringLit s \<Rightarrow>
             (case parseDate d of
                None \<Rightarrow> Inl (MichelsonTypeError t d)
              | Some None \<Rightarrow> Inr (IntLit ''NaN'')
              | Some (Some ms) \<Rightarrow> Inr (IntLit (int_to_dec (ms div 1000))))
         | IntLit i \<Rightarrow> Inr d
         | _ \<Rightarrow> Inl (MichelsonTypeError t d))
      else
        (case d of
           BytesLit b \<Rightarrow> Inr d
         | StringLit s \<Rightarrow>
             if p = ''chain_id'' then base58_bytes L t d [ChainID] (\<lambda>i. Inr (snd i)) s
             else if p = ''signature'' then
               base58_bytes L t d [ED25519Signature, SECP256K1Signature, P256Signature, GenericSignature]
                 (\<lambda>i. Inr (snd i)) s
             else if p = ''key_hash'' then
               base58_bytes L t d [ED25519PublicKeyHash, SECP256K1PublicKeyHash, P256PublicKeyHash]
                 (\<lambda>i. bindR (writePublicKeyHash \<lparr>addr_type = fst i, addr_hash = snd i, entryPoint = None\<rparr> new_writer)
                        (\<lambda>w. Inr (wr_buffer w))) s
             else if p = ''key'' then
               base58_bytes L t d [ED25519PublicKey, SECP256K1PublicKey, P256PublicKey]
                 (\<lambda>i. bindR (writePublicKey \<lparr>pk_type = fst i, publicKey = snd i\<rparr> new_writer)
                        (\<lambda>w. Inr (wr_buffer w))) s
             else
               (let ss = js_split ''%'' s in
                base58_bytes L t d [ED25519PublicKeyHash, SECP256K1PublicKeyHash, P256PublicKeyHash, ContractHash]
                  (\<lambda>i. bindR (writeAddress \<lparr>addr_type = fst i, addr_hash = snd i,
                                entryPoint = (if 1 < length ss then Some (ss ! 1) else None)\<rparr> new_writer)
                         (\<lambda>w. Inr (wr_buffer w))) (hd ss))
         | _ \<Rightarrow> Inl (MichelsonTypeError t d)))"

definition leaf_types :: "string list" where
  "leaf_types = [''chain_id'', ''signature'', ''key_hash'', ''key'', ''address'', ''timestamp'']"

definition writePassThrough :: "expr \<Rightarrow> (expr \<times> wtf iter) pk" where
  "writePassThrough e =
     (if isPushInstruction e then
        bindR (checked (assertMichelsonInstruction e)) (\<lambda>_.
          Inr (e, Finite [Some WPass, map_option WTyped (arg_at (type_args e) 0)]))
      else Inr (e, Forever WPass))"

text \<open>The components of a right comb as data; one that is missing throws in \<open>writeExpr\<close>.\<close>

fun all_some :: "'a option list \<Rightarrow> 'a list option" where
  "all_some [] = Some []"
| "all_some (None # xs) = None"
| "all_some (Some x # xs) = map_option ((#) x) (all_some xs)"

definition write_pair :: "expr \<Rightarrow> expr \<Rightarrow> (expr \<times> wtf iter) pk" where
  "write_pair t d =
     (if \<not> isPairData d then Inl (MichelsonTypeError t d)
      else bindR (case assertDataListIfAny d of Inl v \<Rightarrow> Inl (InstructionOutside v) | Inr b \<Rightarrow> Inr b) (\<lambda>_.
           bindR (unpackComb ''pair'' t) (\<lambda>(tc, _).
           bindR (unpackComb ''Pair'' d) (\<lambda>(dc, an).
           case all_some dc of
             None \<Rightarrow> Inl (JsError (TypeErr ''prim of undefined''))
           | Some xs \<Rightarrow> Inr (Prim ''Pair'' (Some xs) an, Finite (map (map_option WTyped) tc))))))"

text \<open>\<open>getWriteTransformFunc(t)\<close>, applied.\<close>

definition write_typed :: "libs \<Rightarrow> expr \<Rightarrow> expr \<Rightarrow> (expr \<times> wtf iter) pk" where
  "write_typed L t d =
     (let p = prim_of t; args = type_args t in
      if isPairType t then write_pair t d
      else if p = ''or'' then
        (if isOrData d
         then Inr (d, Finite [map_option WTyped (arg_at args (if prim_of d = ''Left'' then 0 else 1))])
         else Inl (MichelsonTypeError t d))
      else if p = ''option'' then
        (if isOptionData d
         then Inr (d, Finite (if prim_of d = ''Some'' then [map_option WTyped (arg_at args 0)] else []))
         else Inl (MichelsonTypeError t d))
      else if p = ''list'' \<or> p = ''set'' then
        (case d of
           Seq xs \<Rightarrow> Inr (d, Finite (map (\<lambda>_. map_option WTyped (arg_at args 0)) xs))
         | _ \<Rightarrow> Inl (MichelsonTypeError t d))
      else if p = ''map'' then
        (case d of
           Seq xs \<Rightarrow> Inr (d, Finite (map (\<lambda>_. Some (WElt t)) xs))
         | _ \<Rightarrow> Inl (MichelsonTypeError t d))
      else if in_list p leaf_types then bindR (write_leaf L t d) (\<lambda>e. Inr (e, Finite []))
      else writePassThrough d)"

fun apply_write :: "libs \<Rightarrow> wtf \<Rightarrow> expr \<Rightarrow> (expr \<times> wtf iter) pk" where
  "apply_write L WPass d = writePassThrough d"
| "apply_write L (WTyped t) d = write_typed L t d"
| "apply_write L (WElt t) elt =
     (if isEltData elt then Inr (elt, Finite (map (map_option WTyped) (all_args (type_args t))))
      else Inl (MichelsonTypeError t elt))"

section \<open>Writing\<close>

text \<open>\<open>BigInt(text)\<close>: \<open>None\<close> where it throws.\<close>

definition js_trim :: "string \<Rightarrow> string" where
  "js_trim s = rev (dropWhile is_space (rev (dropWhile is_space s)))"

definition based_digits :: "nat \<Rightarrow> string \<Rightarrow> int option" where
  "based_digits b s = (if s \<noteq> [] \<and> list_all (in_base b) s then Some (int (of_digits b s)) else None)"

definition js_BigInt :: "string \<Rightarrow> int option" where
  "js_BigInt s =
     (let u = js_trim s; head = toLowerCase (take 2 u) in
      if u = [] then Some 0
      else if head = ''0x'' then based_digits 16 (drop 2 u)
      else if head = ''0o'' then based_digits 8 (drop 2 u)
      else if head = ''0b'' then based_digits 2 (drop 2 u)
      else if hd u = CHR ''-'' then map_option uminus (based_digits 10 (tl u))
      else if hd u = CHR ''+'' then based_digits 10 (tl u)
      else based_digits 10 u)"

text \<open>The loop over the groups of a number: \<open>bits\<close> is 6 for the first one.\<close>

function write_groups :: "nat \<Rightarrow> bool \<Rightarrow> nat \<Rightarrow> writer \<Rightarrow> writer" where
  "write_groups bits sign val wr =
     (let byte = val AND (2 ^ bits - 1); rest = drop_bit bits val;
          byte = (if rest \<noteq> 0 then byte OR 128 else byte);
          byte = (if bits = 6 \<and> sign then byte OR 64 else byte);
          wr = writeUint8 (int byte) wr
      in if rest = 0 \<or> bits = 0 then wr else write_groups 7 sign rest wr)"
  by pat_completeness auto

termination
  by (relation "measure (\<lambda>(bits, sign, val, wr). val)")
    (auto simp: drop_bit_eq_div intro!: div_less_dividend one_less_power [unfolded One_nat_def] gr0I)

declare write_groups.simps [simp del]

definition no_annots :: "string list option \<Rightarrow> bool" where
  "no_annots an \<longleftrightarrow> an = None \<or> an = Some []"

definition write_tag :: "expr list option \<Rightarrow> string list option \<Rightarrow> nat" where
  "write_tag args an =
     (let n = (case args of None \<Rightarrow> 0 | Some xs \<Rightarrow> length xs) in
      if n < 3 then 3 + n * 2 + (if no_annots an then 0 else 1) else 9)"

definition write_annots :: "expr list option \<Rightarrow> string list option \<Rightarrow> writer \<Rightarrow> writer" where
  "write_annots args an wr =
     (case an of
        Some (a # as) \<Rightarrow>
          (let bytes = utf8_encode (joinWith '' '' (a # as)) in
           writeBytes bytes (writeUint32 (int (length bytes)) wr))
      | _ \<Rightarrow> (case args of Some xs \<Rightarrow> if 3 \<le> length xs then writeUint32 0 wr else wr | None \<Rightarrow> wr))"

text \<open>The number of nodes, with one for each place in a sequence.\<close>

function esize :: "expr \<Rightarrow> nat" where
  "esize (Prim p (Some xs) an) = 1 + sum_list (map (\<lambda>x. esize x + 1) xs)"
| "esize (Prim p None an) = 1"
| "esize (Seq xs) = 1 + sum_list (map (\<lambda>x. esize x + 1) xs)"
| "esize (StringLit s) = 1"
| "esize (IntLit i) = 1"
| "esize (BytesLit b) = 1"
  by (auto, metis expr.exhaust option.exhaust)

termination
  by (relation "measure size") (auto dest: expr_mem_size)

fun sub_nodes :: "expr \<Rightarrow> expr list" where
  "sub_nodes (Prim p (Some xs) an) = xs"
| "sub_nodes (Seq xs) = xs"
| "sub_nodes _ = []"

lemma sub_nodes_esize: "x \<in> set (sub_nodes e) \<Longrightarrow> esize x < esize e"
proof (cases e rule: sub_nodes.cases)
  fix p xs an
  assume "x \<in> set (sub_nodes e)" "e = Prim p (Some xs) an"
  then show ?thesis using member_le_sum_list [of "esize x + 1" "map (\<lambda>x. esize x + 1) xs"] by auto
next
  fix xs
  assume "x \<in> set (sub_nodes e)" "e = Seq xs"
  then show ?thesis using member_le_sum_list [of "esize x + 1" "map (\<lambda>x. esize x + 1) xs"] by auto
qed auto

lemma unpackComb_esize:
  assumes "unpackComb ''Pair'' d = Inr (dc, an)" and "all_some dc = Some xs" and "x \<in> set xs"
  shows "esize x < esize d"
proof -
  have *: "esize x < 1 + sum_list (map (\<lambda>x. esize x + 1) ys)"
    if "all_some (comb_args ''Pair'' ys) = Some xs" for ys
    using that assms(3) by (cases "(''Pair'', ys)" rule: comb_args.cases) auto
  from assms show ?thesis
    by (auto simp: unpackComb_def dest!: * split: expr.splits option.splits)
qed

lemma apply_write_esize:
  assumes "apply_write L tf d = Inr (e, it)" and "x \<in> set (sub_nodes e)"
  shows "esize x < esize d"
proof -
  have pair: "esize x < esize d" if "write_pair t d = Inr (e, it)" for t
    using that assms(2) unpackComb_esize by (auto simp: write_pair_def bindR_eq_Inr split: if_splits option.splits)
  have pass: "esize x < esize d" if "writePassThrough d = Inr (e, it)"
    using that assms(2) sub_nodes_esize by (auto simp: writePassThrough_def bindR_eq_Inr split: if_splits)
  have leaf: "sub_nodes e = []" if "write_leaf L t d = Inr e" for t
    using that by (auto simp: write_leaf_def base58_bytes_def bindR_eq_Inr Let_def
        split: if_splits expr.splits option.splits)
  show ?thesis
  proof (cases tf)
    case (WTyped t)
    then show ?thesis using assms pair pass leaf sub_nodes_esize
      by (auto simp: write_typed_def Let_def bindR_eq_Inr split: if_splits expr.splits)
  qed (use assms pass sub_nodes_esize in \<open>auto split: if_splits\<close>)
qed

definition deepest :: "expr list \<Rightarrow> nat" where
  "deepest xs = foldr (\<lambda>x m. max (esize x) m) xs 0"

lemma deepest_simps [simp]: "deepest [] = 0" "deepest (x # xs) = max (esize x) (deepest xs)"
  by (simp_all add: deepest_def)

lemma esize_pos [simp]: "0 < esize e"
  by (cases e rule: esize.cases) auto

lemma deepest_less: "(\<And>x. x \<in> set xs \<Longrightarrow> esize x < n) \<Longrightarrow> 0 < n \<Longrightarrow> deepest xs < n"
  by (induction xs) auto

function writeExpr :: "libs \<Rightarrow> wtf \<Rightarrow> expr \<Rightarrow> writer \<Rightarrow> writer pk"
and writeItems :: "libs \<Rightarrow> wtf iter \<Rightarrow> expr list \<Rightarrow> writer \<Rightarrow> writer pk"
where
  "writeExpr L tf ex wr =
     bindR (apply_write L tf ex) (\<lambda>(e, args).
       case e of
         Seq xs \<Rightarrow>
           bindR (writeItems L args xs new_writer) (\<lambda>w.
             Inr (writeBytes (wr_buffer w) (writeUint32 (int (length (wr_buffer w))) (writeUint8 2 wr))))
       | StringLit s \<Rightarrow>
           (let bytes = utf8_encode s in
            Inr (writeBytes bytes (writeUint32 (int (length bytes)) (writeUint8 1 wr))))
       | IntLit i \<Rightarrow>
           (case js_BigInt i of
              None \<Rightarrow> Inl (BadBigInt i)
            | Some val \<Rightarrow> Inr (write_groups 6 (val < 0) (nat \<bar>val\<bar>) (writeUint8 0 wr)))
       | BytesLit b \<Rightarrow>
           bindR (parseHex b) (\<lambda>bytes.
             Inr (writeBytes (map to_byte bytes) (writeUint32 (int (length bytes)) (writeUint8 10 wr))))
       | Prim p xs an \<Rightarrow>
           (case primTags p of
              None \<Rightarrow> Inl (CannotEncode p)
            | Some prim \<Rightarrow>
                let wr1 = writeUint8 (int prim) (writeUint8 (int (write_tag xs an)) wr) in
                bindR (case xs of
                         None \<Rightarrow> Inr wr1
                       | Some ys \<Rightarrow>
                           if length ys < 3 then writeItems L args ys wr1
                           else bindR (writeItems L args ys new_writer) (\<lambda>w.
                                  Inr (writeBytes (wr_buffer w) (writeUint32 (int (length (wr_buffer w))) wr1))))
                  (\<lambda>wr2. Inr (write_annots xs an wr2))))"
| "writeItems L args [] w = Inr w"
| "writeItems L args (v # vs) w =
     bindR (iter_next args) (\<lambda>(a, args'). bindR (writeExpr L a v w) (\<lambda>w'. writeItems L args' vs w'))"
  by pat_completeness auto

termination
proof (relation "measures [case_sum (\<lambda>(L, tf, ex, wr). esize ex) (\<lambda>(L, args, xs, w). deepest xs),
    case_sum (\<lambda>_. 0) (\<lambda>(L, args, xs, w). length xs)]", goal_cases)
qed (auto dest!: apply_write_esize intro!: deepest_less simp: less_Suc_eq_le max_def esize_pos [THEN less_imp_neq, symmetric])

declare writeExpr.simps [simp del]

section \<open>Transforms for reading\<close>

datatype (plugins only: size code) rtf = RPass | RTyped expr | RElt expr

definition readPassThrough_args :: "expr \<Rightarrow> rtf iter pk" where
  "readPassThrough_args e =
     (if isPushInstruction e then
        bindR (checked (assertMichelsonInstruction e)) (\<lambda>_.
          Inr (Finite [Some RPass, map_option RTyped (arg_at (type_args e) 0)]))
      else Inr (Forever RPass))"

text \<open>\<open>getReadTransformFuncs(t)[0]\<close>: the transforms of the components.\<close>

definition read_typed_args :: "expr \<Rightarrow> expr \<Rightarrow> rtf iter pk" where
  "read_typed_args t d =
     (let p = prim_of t; args = type_args t in
      if isPairType t then
        (if isPairData d
         then bindR (unpackComb ''pair'' t) (\<lambda>(tc, _). Inr (Finite (map (map_option RTyped) tc)))
         else Inl (MichelsonTypeError t d))
      else if p = ''or'' then
        (if isOrData d
         then Inr (Finite [map_option RTyped (arg_at args (if prim_of d = ''Left'' then 0 else 1))])
         else Inl (MichelsonTypeError t d))
      else if p = ''option'' then
        (if isOptionData d
         then Inr (Finite (if prim_of d = ''Some'' then [map_option RTyped (arg_at args 0)] else []))
         else Inl (MichelsonTypeError t d))
      else if p = ''list'' \<or> p = ''set'' then
        (if isListData d
         then Inr (case arg_at args 0 of Some a \<Rightarrow> Forever (RTyped a) | None \<Rightarrow> Finite [None])
         else Inl (MichelsonTypeError t d))
      else if p = ''map'' then
        (if isListData d then Inr (Forever (RElt t)) else Inl (MichelsonTypeError t d))
      else if in_list p leaf_types then Inr (Finite [])
      else readPassThrough_args d)"

fun apply_args :: "rtf \<Rightarrow> expr \<Rightarrow> rtf iter pk" where
  "apply_args RPass d = readPassThrough_args d"
| "apply_args (RTyped t) d = read_typed_args t d"
| "apply_args (RElt t) elt =
     (if isEltData elt then Inr (Finite (map (map_option RTyped) (all_args (type_args t))))
      else Inl (MichelsonTypeError t elt))"

text \<open>\<open>getReadTransformFuncs(t)[1]\<close>: what a value of a leaf type is read as.\<close>

definition addr_text :: "libs \<Rightarrow> Address \<Rightarrow> expr pk" where
  "addr_text L a =
     bindR (encodeTezosID L (addr_type a) (addr_hash a)) (\<lambda>s.
       Inr (StringLit (s @ (case entryPoint a of Some ep \<Rightarrow> if ep \<noteq> [] then CHR ''%'' # ep else [] | None \<Rightarrow> []))))"

definition read_leaf :: "libs \<Rightarrow> expr \<Rightarrow> expr \<Rightarrow> expr pk" where
  "read_leaf L t d =
     (let p = prim_of t in
      case d of
        StringLit s \<Rightarrow> Inr d
      | IntLit i \<Rightarrow>
          if p = ''timestamp'' then
            (case js_parseInt 10 i of
               None \<Rightarrow> Inl InvalidTime
             | Some sec \<Rightarrow> (case toISOString (sec * 1000) of
                              None \<Rightarrow> Inl InvalidTime
                            | Some u \<Rightarrow> Inr (StringLit (take 19 u @ ''Z''))))
          else Inl (MichelsonTypeError t d)
      | BytesLit b \<Rightarrow>
          if p = ''timestamp'' then Inl (MichelsonTypeError t d)
          else bindR (parseBytes b) (\<lambda>r.
            case r of
              None \<Rightarrow> Inl (MichelsonTypeError t d)
            | Some ints \<Rightarrow>
                let bytes = map to_byte ints; rd = new_reader bytes in
                if p = ''chain_id'' then bindR (encodeTezosID L ChainID bytes) (\<lambda>s. Inr (StringLit s))
                else if p = ''signature'' then bindR (encodeTezosID L GenericSignature bytes) (\<lambda>s. Inr (StringLit s))
                else if p = ''key_hash'' then bindR (readPublicKeyHash rd) (\<lambda>(addr, _). addr_text L addr)
                else if p = ''key'' then
                  bindR (readPublicKey rd) (\<lambda>(pk, _).
                  bindR (encodeTezosID L (pk_type pk) (publicKey pk)) (\<lambda>s. Inr (StringLit s)))
                else bindR (readAddress rd) (\<lambda>(addr, _). addr_text L addr))
      | _ \<Rightarrow> Inl (MichelsonTypeError t d))"

fun apply_res :: "libs \<Rightarrow> rtf \<Rightarrow> expr \<Rightarrow> expr pk" where
  "apply_res L RPass d = Inr d"
| "apply_res L (RTyped t) d = (if \<not> isPairType t \<and> in_list (prim_of t) leaf_types then read_leaf L t d else Inr d)"
| "apply_res L (RElt t) elt = Inr elt"

section \<open>Reading\<close>

declare bindR_cong [fundef_cong del]

text \<open>The bytes of a number, up to the first one with a clear high bit.\<close>

fun read_groups :: "nat \<Rightarrow> reader \<Rightarrow> (int list \<times> reader) pk" where
  "read_groups 0 rd = Inl (JsError OutOfFuel)"
| "read_groups (Suc fuel) rd =
     bindR (readInt8 rd) (\<lambda>(byte, rd1).
       if byte AND 128 \<noteq> 0
       then bindR (read_groups fuel rd1) (\<lambda>(buf, rd2). Inr (byte # buf, rd2))
       else Inr ([byte], rd1))"

text \<open>The value, from the last group down; the first one has six bits and the sign.\<close>

fun groups_value :: "nat \<Rightarrow> int list \<Rightarrow> int" where
  "groups_value bits [] = 0"
| "groups_value bits (b # bs) = push_bit bits (groups_value 7 bs) OR (b AND (2 ^ bits - 1))"

definition groups_int :: "int list \<Rightarrow> int" where
  "groups_int buf =
     (let val = groups_value 6 buf in if buf \<noteq> [] \<and> hd buf AND 64 \<noteq> 0 then - val else val)"

text \<open>Which number of arguments a tag announces, and whether annotations follow.\<close>

definition tag_args :: "nat \<Rightarrow> nat" where
  "tag_args tag = (tag - 3) div 2"

definition tag_annots :: "nat \<Rightarrow> bool" where
  "tag_annots tag \<longleftrightarrow> (tag - 3) mod 2 = 1 \<or> tag_args tag = 3"

definition read_annots :: "nat \<Rightarrow> reader \<Rightarrow> (string list option \<times> reader) pk" where
  "read_annots tag rd =
     (if tag_annots tag then
        bindR (readUint32 rd) (\<lambda>(len, rd1).
          if len \<noteq> 0 then
            bindR (readBytes len rd1) (\<lambda>(bytes, rd2). Inr (Some (js_split '' '' (text_decode bytes)), rd2))
          else Inr (None, rd1))
      else Inr (None, rd))"

text \<open>
  One pass over the components of a sequence (\<open>seqPass\<close>) or of a primitive (\<open>primPass\<close>), which
  happens twice: first with the pass-through transforms on a copy of the reader, then with the
  transforms that the first result gives.  After the second pass the transforms are asked for
  once more.
\<close>

function (sequential) readExpr :: "nat \<Rightarrow> libs \<Rightarrow> rtf \<Rightarrow> reader \<Rightarrow> (expr \<times> reader) pk"
and readWhile :: "nat \<Rightarrow> libs \<Rightarrow> rtf iter \<Rightarrow> reader \<Rightarrow> expr list pk"
and readTimes :: "nat \<Rightarrow> libs \<Rightarrow> rtf iter \<Rightarrow> nat \<Rightarrow> reader \<Rightarrow> (expr list \<times> reader) pk"
and seqPass :: "nat \<Rightarrow> libs \<Rightarrow> rtf iter \<Rightarrow> nat \<Rightarrow> reader \<Rightarrow> (expr list \<times> reader) pk"
and primPass :: "nat \<Rightarrow> libs \<Rightarrow> rtf iter \<Rightarrow> nat \<Rightarrow> reader \<Rightarrow> (expr list option \<times> reader) pk"
where
  "readExpr 0 L tf rd = Inl (JsError OutOfFuel)"
| "readExpr (Suc fuel) L tf rd =
     bindR (readUint8 rd) (\<lambda>(tag, rd1).
       if tag = 0 then
         bindR (read_groups (rd_length rd1 + 1) rd1) (\<lambda>(buf, rd2).
         bindR (apply_res L tf (IntLit (int_to_dec (groups_int buf)))) (\<lambda>e. Inr (e, rd2)))
       else if tag = 1 then
         bindR (readUint32 rd1) (\<lambda>(len, rd2).
         bindR (readBytes len rd2) (\<lambda>(bytes, rd3).
         bindR (apply_res L tf (StringLit (text_decode bytes))) (\<lambda>e. Inr (e, rd3))))
       else if tag = 10 then
         bindR (readUint32 rd1) (\<lambda>(len, rd2).
         bindR (readBytes len rd2) (\<lambda>(bytes, rd3).
         bindR (apply_res L tf (BytesLit (hexBytes bytes))) (\<lambda>e. Inr (e, rd3))))
       else if tag = 2 then
         bindR (readUint32 rd1) (\<lambda>(len, rd2).
         bindR (seqPass fuel L (Forever RPass) len rd2) (\<lambda>(res1, _).
         bindR (apply_args tf (Seq res1)) (\<lambda>it.
         bindR (seqPass fuel L it len rd2) (\<lambda>(res2, rd3).
         bindR (apply_args tf (Seq res2)) (\<lambda>_.
         bindR (apply_res L tf (Seq res2)) (\<lambda>e. Inr (e, rd3)))))))
       else if 9 < tag then Inl (UnknownTag tag)
       else
         bindR (readUint8 rd1) (\<lambda>(p, rd2).
           if length primitives \<le> p then Inl (UnknownTag p)
           else
             let prim = primitives ! p in
             bindR (primPass fuel L (Forever RPass) (tag_args tag) rd2) (\<lambda>(res1, _).
             bindR (apply_args tf (Prim prim res1 None)) (\<lambda>it.
             bindR (primPass fuel L it (tag_args tag) rd2) (\<lambda>(res2, rd3).
             bindR (apply_args tf (Prim prim res2 None)) (\<lambda>_.
             bindR (read_annots tag rd3) (\<lambda>(an, rd4).
             bindR (apply_res L tf (Prim prim res2 an)) (\<lambda>e. Inr (e, rd4)))))))))"
| "readWhile 0 L it r = Inl (JsError OutOfFuel)"
| "readWhile (Suc fuel) L it r =
     (if rd_length r = 0 then Inr []
      else bindR (iter_next it) (\<lambda>(a, it').
           bindR (readExpr fuel L a r) (\<lambda>(e, r').
           bindR (readWhile fuel L it' r') (\<lambda>es. Inr (e # es)))))"
| "readTimes 0 L it n rd = Inl (JsError OutOfFuel)"
| "readTimes (Suc fuel) L it n rd =
     (if n = 0 then Inr ([], rd)
      else bindR (iter_next it) (\<lambda>(a, it').
           bindR (readExpr fuel L a rd) (\<lambda>(e, rd1).
           bindR (readTimes fuel L it' (n - 1) rd1) (\<lambda>(es, rd2). Inr (e # es, rd2)))))"
| "seqPass 0 L it len rd = Inl (JsError OutOfFuel)"
| "seqPass (Suc fuel) L it len rd =
     bindR (sub_reader len rd) (\<lambda>(r, rd1). bindR (readWhile fuel L it r) (\<lambda>es. Inr (es, rd1)))"
| "primPass 0 L it argn rd = Inl (JsError OutOfFuel)"
| "primPass (Suc fuel) L it argn rd =
     (if argn < 3 then
        bindR (readTimes fuel L it argn rd) (\<lambda>(es, rd1). Inr (if argn = 0 then None else Some es, rd1))
      else
        bindR (readUint32 rd) (\<lambda>(len, rd1).
        bindR (seqPass fuel L it len rd1) (\<lambda>(es, rd2). Inr (Some es, rd2))))"
  by pat_completeness auto

termination
  by (relation "measure (case_sum (case_sum fst fst) (case_sum fst (case_sum fst fst)))") auto

declare readExpr.simps [simp del]

declare bindR_cong [fundef_cong]

section \<open>Entry points\<close>

definition writeTransform :: "expr option \<Rightarrow> wtf" where
  "writeTransform t = (case t of None \<Rightarrow> WPass | Some ty \<Rightarrow> WTyped ty)"

definition readTransform :: "expr option \<Rightarrow> rtf" where
  "readTransform t = (case t of None \<Rightarrow> RPass | Some ty \<Rightarrow> RTyped ty)"

definition packData :: "libs \<Rightarrow> expr \<Rightarrow> expr option \<Rightarrow> byte list pk" where
  "packData L d t =
     bindR (writeExpr L (writeTransform t) d (writeUint8 5 new_writer)) (\<lambda>w. Inr (wr_buffer w))"

definition packDataBytes :: "libs \<Rightarrow> expr \<Rightarrow> expr option \<Rightarrow> expr pk" where
  "packDataBytes L d t = bindR (packData L d t) (\<lambda>bs. Inr (BytesLit (hexBytes bs)))"

definition unpackData :: "libs \<Rightarrow> byte list \<Rightarrow> expr option \<Rightarrow> expr pk" where
  "unpackData L src t =
     bindR (readUint8 (new_reader src)) (\<lambda>(magic, r).
       if magic \<noteq> 5 then Inl BadMagic
       else bindR (readExpr (2 * length src + 2) L (readTransform t) r) (\<lambda>(ex, _).
            bindR (checked (assertMichelsonData ex)) (\<lambda>_. Inr ex)))"

text \<open>A text that is not hexadecimal has pairs that \<open>parseInt\<close> reads as numbers outside a byte (\<open>-1\<close>), which
  the source's reader keeps; here they are taken modulo 256.\<close>

definition parsed_reader :: "string \<Rightarrow> reader pk" where
  "parsed_reader b =
     bindR (parseBytes b) (\<lambda>r.
       case r of None \<Rightarrow> Inl (UnparsableBytes b) | Some ints \<Rightarrow> Inr (new_reader (map to_byte ints)))"

definition unpackDataBytes :: "libs \<Rightarrow> string \<Rightarrow> expr option \<Rightarrow> expr pk" where
  "unpackDataBytes L src t =
     bindR (parseBytes src) (\<lambda>r.
       case r of None \<Rightarrow> Inl (UnparsableBytes src) | Some ints \<Rightarrow> unpackData L (map to_byte ints) t)"

definition decodeAddressBytes :: "string \<Rightarrow> Address pk" where
  "decodeAddressBytes b = bindR (parsed_reader b) (\<lambda>rd. bindR (readAddress rd) (\<lambda>(a, _). Inr a))"

definition decodePublicKeyHashBytes :: "string \<Rightarrow> Address pk" where
  "decodePublicKeyHashBytes b = bindR (parsed_reader b) (\<lambda>rd. bindR (readPublicKeyHash rd) (\<lambda>(a, _). Inr a))"

definition decodePublicKeyBytes :: "string \<Rightarrow> PublicKey pk" where
  "decodePublicKeyBytes b = bindR (parsed_reader b) (\<lambda>rd. bindR (readPublicKey rd) (\<lambda>(a, _). Inr a))"

end
