(* ===== verification/PackProofs.thy ===== *)
theory PackProofs
  imports PackData
begin

text \<open>
  \<open>PACK\<close> and \<open>UNPACK\<close>: the writer and the reader on lists of bytes, the bytes each node of an
  expression is written as, and that reading with the transforms of a type gives back what
  writing with them took.
\<close>

unbundle bit_operations_syntax

section \<open>The writer\<close>

lemma writeBytes_append [simp]:
  "writeBytes bs (writeBytes cs w) = writeBytes (cs @ bs) w"
  "writeBytes [] w = w"
  "wr_buffer (writeBytes bs w) = wr_buffer w @ bs"
  "wr_buffer new_writer = []"
  by (simp_all add: writeBytes_def new_writer_def)

lemma low_byte: "ucast (v AND 255 :: 32 word) = (ucast v :: 8 word)"
proof -
  have "(255 :: 32 word) = mask 8" by (simp add: mask_eq_exp_minus_1)
  then show ?thesis unfolding \<open>255 = mask 8\<close> by (auto intro!: bit_eqI simp: bit_simps simp del: mask_numeral)
qed

lemma signed_byte:
  "k \<le> 24 \<Longrightarrow> (ucast (signed_drop_bit k v) :: 8 word) = ucast (drop_bit k (v :: 32 word))"
  by (rule bit_eqI) (auto simp: bit_simps)

lemma ucast_of_nat: "(ucast (of_nat n :: 32 word) :: 8 word) = byte_of n"
  by (simp add: word_unat_eq_iff unsigned_ucast_eq unsigned_of_nat byte_of_def)

lemma bit_word_of_nat: "bit (of_nat n :: 'a :: len word) i \<longleftrightarrow> i < LENGTH('a) \<and> bit n i"
  using bit_word_of_int_iff [of "int n" i, where ?'a = 'a] by (simp add: bit_simps)

lemma drop_of_nat: "k \<le> 24 \<Longrightarrow> (ucast (drop_bit k (of_nat n :: 32 word)) :: 8 word) = byte_of (n div 2 ^ k)"
  unfolding byte_of_def drop_bit_eq_div [symmetric]
  by (rule bit_word_eqI) (auto simp: bit_simps bit_word_of_nat)

lemma writeUint8_nat [simp]: "writeUint8 (int n) w = writeBytes [byte_of n] w"
  by (simp add: writeUint8_def writeBytes_def low_byte ucast_of_nat)

lemma writeUint8_numeral [simp]: "writeUint8 0 w = writeBytes [0] w" "writeUint8 1 w = writeBytes [1] w"
  "writeUint8 (numeral k) w = writeBytes [byte_of (numeral k)] w"
  using writeUint8_nat [of 0 w] writeUint8_nat [of 1 w] writeUint8_nat [of "numeral k" w]
  by (simp_all add: byte_of_def)

lemma byte_of_mod: "byte_of (n mod 256) = byte_of n"
  by (simp add: byte_of_def word_unat_eq_iff unsigned_of_nat take_bit_eq_mod)

lemma be_bytes_word: "be_bytes 4 n = [byte_of (n div 2 ^ 24), byte_of (n div 2 ^ 16), byte_of (n div 2 ^ 8), byte_of n]"
proof -
  have four: "(4 :: nat) = Suc (Suc (Suc (Suc 0)))" by simp
  have "be_bytes 4 n = be_bytes (Suc (Suc (Suc (Suc 0)))) n" unfolding four ..
  then show ?thesis
    by (simp only: be_bytes.simps byte_of_def [symmetric] byte_of_mod div_mult2_eq [symmetric])
      (simp add: byte_of_mod)
qed

lemma writeUint32_nat [simp]: "writeUint32 (int n) w = writeBytes (be_bytes 4 n) w"
  unfolding writeUint32_def writeBytes_def Let_def be_bytes_word low_byte
  by (simp add: signed_byte drop_of_nat ucast_of_nat)

text \<open>Numbers are written as the signed groups of the specification.\<close>

lemma nat_or_exp: "m < 2 ^ k \<Longrightarrow> (m :: nat) OR 2 ^ k = m + 2 ^ k"
proof -
  assume "m < 2 ^ k"
  then have "m AND 2 ^ k = 0" by (simp add: and_exp_eq_0_iff_not_bit bit_iff_odd)
  then show ?thesis by (simp add: disjunctive_add_eq_or)
qed

lemma nat_or_128: "(m :: nat) < 128 \<Longrightarrow> m OR 128 = m + 128"
  using nat_or_exp [of m 7] by simp

lemma nat_or_64: "(m :: nat) < 64 \<Longrightarrow> m OR 64 = m + 64" "(m :: nat) < 64 \<Longrightarrow> (m + 128) OR 64 = m + 64 + 128"
proof -
  show *: "m < 64 \<Longrightarrow> m OR 64 = m + 64" for m :: nat using nat_or_exp [of m 6] by simp
  show "m < 64 \<Longrightarrow> (m + 128) OR 64 = m + 64 + 128"
    using * [of m] nat_or_128 [of m] nat_or_128 [of "m + 64"] by (simp add: or.assoc or.commute or.left_commute) (metis or.assoc or.commute)
qed

lemma nat_and_mask: "(m :: nat) AND (2 ^ k - 1) = m mod 2 ^ k"
  by (metis mask_eq_exp_minus_1 take_bit_eq_mask take_bit_eq_mod)

lemma write_groups_leb: "write_groups 7 sign m wr = writeBytes (leb m) wr"
proof (induction m arbitrary: wr rule: leb.induct)
  case (1 m)
  show ?case
  proof (cases "m < 128")
    case True
    then show ?thesis
      using nat_and_mask [of m 7] by (subst write_groups.simps) (simp add: leb.simps [of m] drop_bit_eq_div)
  next
    case False
    have "m div 128 \<noteq> 0" using False by (simp add: div_eq_0_iff)
    then show ?thesis using nat_and_mask [of m 7] "1.IH" [OF False] False
      by (subst write_groups.simps) (simp add: leb.simps [of m] drop_bit_eq_div nat_or_128)
  qed
qed

lemma write_groups_sleb: "write_groups 6 sign m wr = writeBytes (sleb sign m) wr"
proof (cases "m < 64")
  case True
  then show ?thesis
    using nat_and_mask [of m 6] by (subst write_groups.simps) (simp add: sleb_def drop_bit_eq_div nat_or_64)
next
  case False
  have "m div 64 \<noteq> 0" using False by (simp add: div_eq_0_iff)
  then show ?thesis using nat_and_mask [of m 6] False
    by (subst write_groups.simps)
      (simp add: sleb_def drop_bit_eq_div nat_or_128 nat_or_64 write_groups_leb)
qed

section \<open>The reader\<close>

definition window :: "reader \<Rightarrow> byte list" where
  "window r = take (rd_cap r - rd_idx r) (drop (rd_idx r) (rd_buffer r))"

definition rahead :: "reader \<Rightarrow> byte list \<Rightarrow> bool" where
  "rahead r bs \<longleftrightarrow> rd_idx r \<le> rd_cap r \<and> rd_cap r \<le> length (rd_buffer r) \<and> (\<exists>rest. window r = bs @ rest)"

definition radv :: "nat \<Rightarrow> reader \<Rightarrow> reader" where
  "radv n r = r\<lparr>rd_idx := rd_idx r + n\<rparr>"

lemma radv_simps [simp]: "radv 0 r = r" "radv m (radv n r) = radv (n + m) r"
  by (simp_all add: radv_def add.assoc)

lemma window_radv [simp]: "window (radv n r) = drop n (window r)"
  by (simp add: window_def radv_def drop_take add.commute)

lemma window_length: "rd_cap r \<le> length (rd_buffer r) \<Longrightarrow> length (window r) = rd_length r"
  by (auto simp: window_def rd_length_def)

lemma rd_length_radv [simp]: "rd_length (radv n r) = rd_length r - n"
  by (simp add: rd_length_def radv_def)

lemma rahead_Nil: "rahead r [] \<longleftrightarrow> rd_idx r \<le> rd_cap r \<and> rd_cap r \<le> length (rd_buffer r)"
  by (simp add: rahead_def)

lemma rahead_append: "rahead r (xs @ ys) \<longleftrightarrow> rahead r xs \<and> rahead (radv (length xs) r) ys"
proof -
  have r: "rd_cap (radv n r) = rd_cap r" "rd_buffer (radv n r) = rd_buffer r" "rd_idx (radv n r) = rd_idx r + n" for n
    by (simp_all add: radv_def)
  have "rd_idx r + length xs \<le> rd_cap r"
    if "window r = xs @ zs" "rd_cap r \<le> length (rd_buffer r)" "rd_idx r \<le> rd_cap r" for zs
    using that window_length [of r] by (auto simp: rd_length_def)
  then show ?thesis by (fastforce simp: rahead_def r append_eq_conv_conj)
qed

lemma rahead_Cons: "rahead r (b # bs) \<longleftrightarrow> rahead r [b] \<and> rahead (radv 1 r) bs"
  using rahead_append [of r "[b]" bs] by simp

lemma rahead_length: "rahead r bs \<Longrightarrow> length bs \<le> rd_length r"
  by (auto simp: rahead_def window_length [symmetric])

lemma rahead_take: "rahead r bs \<Longrightarrow> length bs = n \<Longrightarrow> take n (drop (rd_idx r) (rd_buffer r)) = bs"
proof -
  assume *: "rahead r bs" "length bs = n"
  then obtain rest where rest: "window r = bs @ rest" by (auto simp: rahead_def)
  have n: "n \<le> rd_cap r - rd_idx r" using rahead_length * by (fastforce simp: rd_length_def)
  have "take n (window r) = bs" unfolding rest using *(2) by simp
  then show ?thesis using n by (simp add: window_def min_absorb1)
qed

lemma rahead_nth: "rahead r bs \<Longrightarrow> i < length bs \<Longrightarrow> rd_buffer r ! (rd_idx r + i) = bs ! i"
proof -
  assume *: "rahead r bs" "i < length bs"
  then have "take (length bs) (drop (rd_idx r) (rd_buffer r)) = bs" using rahead_take by blast
  then have "take (length bs) (drop (rd_idx r) (rd_buffer r)) ! i = bs ! i" by simp
  moreover have "rd_idx r \<le> length (rd_buffer r)"
    using * rahead_length [OF *(1)] by (auto simp: rahead_def rd_length_def)
  ultimately show ?thesis using *(2) by simp
qed

lemma readBytes_ahead: "rahead r bs \<Longrightarrow> length bs = n \<Longrightarrow> readBytes n r = Inr (bs, radv n r)"
  using rahead_take rahead_length by (fastforce simp: readBytes_def radv_def rd_length_def)

lemma rd_number_ahead:
  "rahead r bs \<Longrightarrow> length bs = n \<Longrightarrow> rd_number n f r = Inr (f r, radv n r)"
  using rahead_length by (fastforce simp: rd_number_def radv_def rd_length_def)

lemma rd_at_ahead: "rahead r bs \<Longrightarrow> i < length bs \<Longrightarrow> rd_at r i = ucast (bs ! i)"
  by (simp add: rd_at_def rahead_nth)

lemma readUint8_ahead: "rahead r [b] \<Longrightarrow> readUint8 r = Inr (unat b, radv 1 r)"
proof -
  assume *: "rahead r [b]"
  have "unat b < 2 ^ 32" by (rule less_trans [OF byte_lt]) simp
  then have "take_bit 32 (unat b) = unat b" by (rule take_bit_nat_eq_self)
  then have "unat (rd_at r 0) = unat b" using rd_at_ahead [OF *, of 0] by (simp add: unsigned_ucast_eq)
  then show ?thesis unfolding readUint8_def by (simp add: rd_number_ahead [OF *])
qed

lemma readInt8_ahead: "rahead r [b] \<Longrightarrow> readInt8 r = Inr (sint b, radv 1 r)"
proof -
  assume *: "rahead r [b]"
  have "bit (sint (signed_drop_bit 24 (push_bit 24 (ucast b :: 32 word)))) n = bit (sint b) n" for n
    by (cases "n < 8"; cases "n = 7") (auto simp: bit_simps min_def)
  then have "sint (signed_drop_bit 24 (push_bit 24 (ucast b :: 32 word))) = sint b" by (rule bit_eqI)
  then have "sint (signed_drop_bit 24 (push_bit 24 (rd_at r 0))) = sint b" using rd_at_ahead [OF *, of 0] by simp
  then show ?thesis unfolding readInt8_def by (simp add: rd_number_ahead [OF *])
qed

lemma word_of_bytes:
  "push_bit 24 (ucast (byte_of (n div 2 ^ 24))) OR push_bit 16 (ucast (byte_of (n div 2 ^ 16))) OR
     push_bit 8 (ucast (byte_of (n div 2 ^ 8))) OR ucast (byte_of n) = (of_nat n :: 32 word)"
  unfolding byte_of_def drop_bit_eq_div [symmetric]
proof (rule bit_word_eqI)
  fix i assume i: "i < LENGTH(32)"
  consider "i < 8" | "8 \<le> i" "i < 16" | "16 \<le> i" "i < 24" | "24 \<le> i" by linarith
  then show "bit (push_bit 24 (ucast (of_nat (drop_bit 24 n) :: byte)) OR push_bit 16 (ucast (of_nat (drop_bit 16 n) :: byte)) OR
      push_bit 8 (ucast (of_nat (drop_bit 8 n) :: byte)) OR ucast (of_nat n :: byte) :: 32 word) i = bit (of_nat n :: 32 word) i"
    by cases (use i in \<open>auto simp: bit_simps bit_word_of_nat\<close>)
qed

lemma readUint32_ahead: "rahead r (be_bytes 4 n) \<Longrightarrow> n < 2 ^ 32 \<Longrightarrow> readUint32 r = Inr (n, radv 4 r)"
proof -
  assume *: "rahead r (be_bytes 4 n)" and n: "n < 2 ^ 32"
  have "rd_word32 r = of_nat n"
    using rd_at_ahead [OF *, of 0] rd_at_ahead [OF *, of 1] rd_at_ahead [OF *, of 2] rd_at_ahead [OF *, of 3]
    unfolding rd_word32_def using word_of_bytes [of n] by (simp add: be_bytes_word)
  then have "unat (rd_word32 r) = n" using n by (simp add: unsigned_of_nat take_bit_nat_eq_self)
  then show ?thesis unfolding readUint32_def by (simp add: rd_number_ahead [OF *])
qed

text \<open>A reader of the next bytes.\<close>

definition within :: "reader \<Rightarrow> byte list \<Rightarrow> bool" where
  "within r bs \<longleftrightarrow> rahead r bs \<and> rd_length r = length bs"

lemma sub_reader_ahead:
  assumes "rahead r bs" and "length bs = n"
  shows "\<exists>r'. sub_reader n r = Inr (r', radv n r) \<and> within r' bs"
proof -
  let ?r = "r\<lparr>rd_cap := rd_idx r + n\<rparr>"
  have n: "n \<le> rd_cap r - rd_idx r" using rahead_length [OF assms(1)] assms(2) by (simp add: rd_length_def)
  moreover have "window ?r = bs" using rahead_take [OF assms] by (simp add: window_def)
  moreover have "rd_cap ?r \<le> length (rd_buffer ?r)" if "bs \<noteq> []"
    using n assms that by (auto simp: rahead_def)
  ultimately show ?thesis using assms
    by (auto simp: sub_reader_def radv_def within_def rahead_def rd_length_def)
qed

text \<open>The groups of a number, read back.\<close>

lemma sint_bit7: "(sint (b :: byte) AND 128 \<noteq> 0) = Zarith.more b"
proof -
  have "(sint b AND 128 \<noteq> 0) = bit (sint b) 7" using and_exp_eq_0_iff_not_bit [of "sint b" 7] by simp
  also have "\<dots> = (b AND 128 \<noteq> 0)" using and_exp_eq_0_iff_not_bit [of b 7] by (simp add: bit_simps)
  finally show ?thesis by (simp add: and_128_more)
qed

lemma sint_low: "k \<le> 7 \<Longrightarrow> take_bit k (sint (b :: byte)) = int (unat b mod 2 ^ k)"
proof -
  assume k: "k \<le> 7"
  have "take_bit k (sint b) = take_bit k (uint b)"
    using k by (intro bit_eqI) (auto simp: bit_simps min_def)
  also have "\<dots> = int (take_bit k (unat b))" unfolding of_nat_take_bit by simp
  finally show ?thesis by (simp add: take_bit_eq_mod)
qed

lemma int_and_mask: "(x :: int) AND (2 ^ k - 1) = take_bit k x"
  by (simp add: take_bit_eq_mask mask_eq_exp_minus_1)

lemma join_groups: "push_bit k (int m) OR take_bit k x = 2 ^ k * int m + take_bit k (x :: int)"
  using concat_bit_eq [of k x "int m"] unfolding concat_bit_def by (simp add: push_bit_eq_mult or.commute mult.commute)

lemma join_low:
  "push_bit 6 (int m) OR int (unat (b :: byte) mod 64) = 64 * int m + int (unat b mod 64)"
  "push_bit 7 (int m) OR int (unat (b :: byte) mod 128) = 128 * int m + int (unat b mod 128)"
  using join_groups [of 6 m "sint b"] join_groups [of 7 m "sint b"] by (simp_all add: sint_low)

lemma groups_value_leb: "groups_value 7 (map sint bs) = int (leb_val bs)"
  by (induction bs) (use int_and_mask [of _ 7] in \<open>simp_all add: join_low sint_low\<close>)

lemma groups_int_sleb: "groups_int (map sint (sleb (i < 0) (nat \<bar>i\<bar>))) = i"
proof -
  let ?bs = "sleb (i < 0) (nat \<bar>i\<bar>)"
  obtain b r where bs: "?bs = b # r" by (cases ?bs) auto
  have "groups_value 6 (map sint ?bs) = int (sleb_val ?bs)"
    using int_and_mask [of "sint b" 6] by (simp add: bs groups_value_leb join_low sint_low sleb_val_def)
  then have v: "groups_value 6 (map sint ?bs) = \<bar>i\<bar>" by (simp add: sleb_val_sleb)
  have "(sint b AND 64 \<noteq> 0) = bit (sint b) 6" using and_exp_eq_0_iff_not_bit [of "sint b" 6] by simp
  also have "\<dots> = odd (unat b div 64)"
  proof -
    have "bit (sint b) 6 = bit (unat b) 6" by (simp add: bit_simps)
    then show ?thesis by (simp add: bit_iff_odd)
  qed
  also have "\<dots> = (i < 0)" using sleb_sign [of "i < 0" "nat \<bar>i\<bar>"] unfolding bs by (cases "i < 0") (simp_all add: odd_iff_mod_2_eq_one even_iff_mod_2_eq_zero)
  finally show ?thesis using v unfolding bs groups_int_def by (auto simp: Let_def)
qed

lemma read_groups_ahead:
  assumes "rahead r bs" and "chunked bs" and "length bs \<le> n"
  shows "read_groups n r = Inr (map sint bs, radv (length bs) r)"
  using assms
proof (induction bs arbitrary: r n)
  case Nil
  then show ?case by (simp add: chunked_def)
next
  case (Cons b bs)
  obtain m where n: "n = Suc m" using Cons.prems(3) by (cases n) auto
  have b: "rahead r [b]" and r: "rahead (radv 1 r) bs" using Cons.prems(1) rahead_Cons by blast+
  show ?case
  proof (cases "bs = []")
    case True
    then show ?thesis using Cons.prems(2) by (simp add: n readInt8_ahead [OF b] sint_bit7 chunked_def)
  next
    case False
    have "chunked bs" "Zarith.more b" using Cons.prems(2) False by (auto simp: chunked_def)
    then show ?thesis using Cons.IH [OF r, of m] Cons.prems(3) False
      by (simp add: n readInt8_ahead [OF b] sint_bit7)
  qed
qed

section \<open>What is written, what is read\<close>

definition emits :: "libs \<Rightarrow> wtf \<Rightarrow> expr \<Rightarrow> byte list \<Rightarrow> bool" where
  "emits L tf d bs \<longleftrightarrow> (\<forall>w. writeExpr L tf d w = Inr (writeBytes bs w))"

definition yields :: "libs \<Rightarrow> rtf \<Rightarrow> byte list \<Rightarrow> expr \<Rightarrow> bool" where
  "yields L tf bs d \<longleftrightarrow> bs \<noteq> [] \<and>
     (\<forall>r n. rahead r bs \<longrightarrow> 2 * length bs + 1 \<le> n \<longrightarrow> readExpr n L tf r = Inr (d, radv (length bs) r))"

lemma emitsD: "emits L tf d bs \<Longrightarrow> writeExpr L tf d w = Inr (writeBytes bs w)"
  by (simp add: emits_def)

lemma yieldsD: "yields L tf bs d \<Longrightarrow> rahead r bs \<Longrightarrow> 2 * length bs + 1 \<le> n \<Longrightarrow>
    readExpr n L tf r = Inr (d, radv (length bs) r)"
  by (simp add: yields_def)

text \<open>The transforms an iterator delivers.\<close>

definition gives :: "'f iter \<Rightarrow> 'f list \<Rightarrow> bool" where
  "gives it fs \<longleftrightarrow> (case it of Finite os \<Rightarrow> \<exists>r. os = map Some fs @ r | Forever f \<Rightarrow> set fs \<subseteq> {f})"

lemma gives_Cons: "gives it (f # fs) \<Longrightarrow> \<exists>it'. iter_next it = Inr (f, it') \<and> gives it' fs"
  by (cases it) (auto simp: gives_def)

lemma gives_Nil [simp]: "gives it []"
  by (cases it) (auto simp: gives_def)

lemma gives_forever [simp]: "gives (Forever f) (replicate n f)" "gives (Forever f) (map (\<lambda>_. f) xs)"
  by (auto simp: gives_def)

lemma gives_map [simp]: "gives (Finite (map Some fs)) fs"
  by (auto simp: gives_def)

fun emits_all :: "libs \<Rightarrow> wtf list \<Rightarrow> expr list \<Rightarrow> byte list list \<Rightarrow> bool" where
  "emits_all L [] [] [] \<longleftrightarrow> True"
| "emits_all L (f # fs) (x # xs) (bs # bss) \<longleftrightarrow> emits L f x bs \<and> emits_all L fs xs bss"
| "emits_all L _ _ _ \<longleftrightarrow> False"

fun yields_all :: "libs \<Rightarrow> rtf list \<Rightarrow> byte list list \<Rightarrow> expr list \<Rightarrow> bool" where
  "yields_all L [] [] [] \<longleftrightarrow> True"
| "yields_all L (f # fs) (bs # bss) (x # xs) \<longleftrightarrow> yields L f bs x \<and> yields_all L fs bss xs"
| "yields_all L _ _ _ \<longleftrightarrow> False"

lemma writeItems_emits:
  "emits_all L fs xs bss \<Longrightarrow> gives it fs \<Longrightarrow> writeItems L it xs w = Inr (writeBytes (concat bss) w)"
proof (induction L fs xs bss arbitrary: it w rule: emits_all.induct)
  case (2 L f fs x xs bs bss)
  from gives_Cons [OF "2.prems"(2)] obtain it' where "iter_next it = Inr (f, it')" "gives it' fs"
    by blast
  moreover have "writeExpr L f x w = Inr (writeBytes bs w)" using "2.prems"(1) emitsD by simp
  ultimately show ?case using 2 by simp
qed auto

lemma yields_all_length: "yields_all L fs bss xs \<Longrightarrow> length bss = length xs \<and> length fs = length xs"
  by (induction L fs bss xs rule: yields_all.induct) auto

lemma readWhile_yields:
  "yields_all L fs bss xs \<Longrightarrow> gives it fs \<Longrightarrow> within r (concat bss) \<Longrightarrow> 2 * length (concat bss) + 2 \<le> n \<Longrightarrow>
     readWhile n L it r = Inr xs"
proof (induction L fs bss xs arbitrary: it r n rule: yields_all.induct)
  case (1 L)
  then obtain m where "n = Suc m" by (cases n) auto
  then show ?case using 1 by (simp add: within_def)
next
  case (2 L f fs bs bss x xs)
  obtain m where n: "n = Suc m" using 2 by (cases n) auto
  obtain it' where it: "iter_next it = Inr (f, it')" "gives it' fs" using gives_Cons [OF "2.prems"(2)] by blast
  have ne: "bs \<noteq> []" using 2 by (simp add: yields_def)
  have a: "rahead r bs" "within (radv (length bs) r) (concat bss)"
    using 2 by (auto simp: within_def rahead_append)
  have "0 < rd_length r" using 2 ne by (simp add: within_def)
  moreover have "readExpr m L f r = Inr (x, radv (length bs) r)" by (rule yieldsD) (use 2 a n in simp_all)
  moreover have "1 \<le> length bs" using ne by (cases bs) auto
  then have "2 * length (concat bss) + 2 \<le> m" using "2.prems"(4) n by simp
  ultimately show ?case using 2 a it by (simp add: n)
qed auto

lemma readTimes_yields:
  "yields_all L fs bss xs \<Longrightarrow> gives it fs \<Longrightarrow> rahead r (concat bss) \<Longrightarrow> 2 * length (concat bss) + length xs + 1 \<le> n \<Longrightarrow>
     readTimes n L it (length xs) r = Inr (xs, radv (length (concat bss)) r)"
proof (induction L fs bss xs arbitrary: it r n rule: yields_all.induct)
  case (1 L)
  then obtain m where "n = Suc m" by (cases n) auto
  then show ?case by simp
next
  case (2 L f fs bs bss x xs)
  obtain m where n: "n = Suc m" using 2 by (cases n) auto
  obtain it' where it: "iter_next it = Inr (f, it')" "gives it' fs" using gives_Cons [OF "2.prems"(2)] by blast
  have a: "rahead r bs" "rahead (radv (length bs) r) (concat bss)"
    using 2 by (auto simp: rahead_append)
  have "readExpr m L f r = Inr (x, radv (length bs) r)" by (rule yieldsD) (use 2 a n in simp_all)
  moreover have "2 * length (concat bss) + length xs + 1 \<le> m" using 2(5) n by simp
  ultimately show ?case using 2 a it by (simp add: n)
qed auto

section \<open>The bytes of the nodes\<close>

definition seq_bytes :: "byte list \<Rightarrow> byte list" where
  "seq_bytes body = 2 # be_bytes 4 (length body) @ body"

definition annot_bytes :: "nat \<Rightarrow> string list option \<Rightarrow> byte list" where
  "annot_bytes n an =
     (case an of
        Some (a # as) \<Rightarrow> (let bytes = utf8_encode (joinWith '' '' (a # as)) in be_bytes 4 (length bytes) @ bytes)
      | _ \<Rightarrow> if 3 \<le> n then be_bytes 4 0 else [])"

definition prim_bytes :: "nat \<Rightarrow> expr list option \<Rightarrow> string list option \<Rightarrow> byte list \<Rightarrow> byte list" where
  "prim_bytes k args an body =
     byte_of (write_tag args an) # byte_of k # (if length (args_of args) < 3 then body else be_bytes 4 (length body) @ body) @
     annot_bytes (length (args_of args)) an"

lemma write_annots_bytes: "write_annots args an w = writeBytes (annot_bytes (length (args_of args)) an) w"
  using writeUint32_nat [of 0 w]
  by (auto simp: write_annots_def annot_bytes_def Let_def split: option.splits list.splits)

lemma emits_seq:
  assumes "apply_write L tf d = Inr (Seq xs, it)" and "gives it fs" and "emits_all L fs xs bss"
  shows "emits L tf d (seq_bytes (concat bss))"
  unfolding emits_def seq_bytes_def
  by (subst writeExpr.simps) (simp add: assms(1) writeItems_emits [OF assms(3,2)] byte_of_def)

lemma emits_prim0:
  assumes "apply_write L tf d = Inr (Prim p None an, it)" and "primTags p = Some k"
  shows "emits L tf d (prim_bytes k None an [])"
  unfolding emits_def prim_bytes_def
  by (subst writeExpr.simps) (simp add: assms write_annots_bytes Let_def)

lemma emits_prim:
  assumes "apply_write L tf d = Inr (Prim p (Some xs) an, it)" and "primTags p = Some k"
    and "gives it fs" and "emits_all L fs xs bss"
  shows "emits L tf d (prim_bytes k (Some xs) an (concat bss))"
  unfolding emits_def prim_bytes_def
  by (subst writeExpr.simps) (simp add: assms(1,2) writeItems_emits [OF assms(4,3)] write_annots_bytes Let_def)

lemma emits_string:
  assumes "apply_write L tf d = Inr (StringLit s, it)"
  shows "emits L tf d (1 # be_bytes 4 (length (utf8_encode s)) @ utf8_encode s)"
  unfolding emits_def by (subst writeExpr.simps) (simp add: assms Let_def)

lemma emits_int:
  assumes "apply_write L tf d = Inr (IntLit i, it)" and "js_BigInt i = Some k"
  shows "emits L tf d (0 # sleb (k < 0) (nat \<bar>k\<bar>))"
  unfolding emits_def by (subst writeExpr.simps) (simp add: assms write_groups_sleb)

lemma emits_bytes:
  assumes "apply_write L tf d = Inr (BytesLit b, it)" and "parseHex b = Inr ints"
  shows "emits L tf d (10 # be_bytes 4 (length ints) @ map to_byte ints)"
  unfolding emits_def by (subst writeExpr.simps) (simp add: assms byte_of_def)

text \<open>Reading the nodes.\<close>

definition annots_ok :: "string list option \<Rightarrow> bool" where
  "annots_ok an \<longleftrightarrow> (case an of None \<Rightarrow> True
     | Some as \<Rightarrow> as \<noteq> [] \<and> utf8_encode (joinWith '' '' as) \<noteq> [] \<and>
         js_split '' '' (text_decode (utf8_encode (joinWith '' '' as))) = as)"

lemma byte_of_under: "n < 256 \<Longrightarrow> unat (byte_of n) = n"
  by (simp add: byte_of_def unsigned_of_nat take_bit_eq_mod)

lemma read_annots_ahead:
  assumes "rahead r (annot_bytes n an)" and "annots_ok an" and "length (annot_bytes n an) < 2 ^ 32"
    and "tag_annots tag \<longleftrightarrow> an \<noteq> None \<or> 3 \<le> n"
  shows "read_annots tag r = Inr (an, radv (length (annot_bytes n an)) r)"
proof (cases an)
  case None
  show ?thesis
  proof (cases "3 \<le> n")
    case True
    then have "rahead r (be_bytes 4 0)" using assms(1) by (simp add: annot_bytes_def None)
    then show ?thesis using True assms(4) None readUint32_ahead [of r 0]
      by (simp add: read_annots_def annot_bytes_def)
  next
    case False
    then show ?thesis using assms(4) None by (simp add: read_annots_def annot_bytes_def)
  qed
next
  case (Some as)
  let ?b = "utf8_encode (joinWith '' '' as)"
  obtain a as' where as: "as = a # as'" using assms(2) Some by (cases as) (auto simp: annots_ok_def)
  have ab: "annot_bytes n an = be_bytes 4 (length ?b) @ ?b" by (simp add: annot_bytes_def Some as Let_def)
  have "rahead r (be_bytes 4 (length ?b))" "rahead (radv 4 r) ?b"
    using assms(1) unfolding ab rahead_append by simp_all
  moreover have "length ?b < 2 ^ 32" using assms(3) unfolding ab by simp
  moreover have "?b \<noteq> []" "js_split '' '' (text_decode ?b) = as" using assms(2) by (simp_all add: annots_ok_def Some)
  ultimately show ?thesis using assms(4) Some readUint32_ahead [of r "length ?b"]
    by (simp add: read_annots_def readBytes_ahead ab [unfolded Some])
qed

lemma write_tag_facts:
  assumes "an \<noteq> Some []"
  shows "write_tag args an < 10" "3 \<le> write_tag args an"
    "tag_annots (write_tag args an) \<longleftrightarrow> an \<noteq> None \<or> 3 \<le> length (args_of args)"
    "tag_args (write_tag args an) = min 3 (length (args_of args))"
proof -
  define n where "n = length (args_of args)"
  have t: "write_tag args an = (if n < 3 then 3 + n * 2 + (if an = None then 0 else 1) else 9)"
    using assms by (cases args) (simp_all add: write_tag_def no_annots_def n_def)
  consider "n = 0" | "n = 1" | "n = 2" | "3 \<le> n" by linarith
  then show "write_tag args an < 10" "3 \<le> write_tag args an"
    "tag_annots (write_tag args an) \<longleftrightarrow> an \<noteq> None \<or> 3 \<le> length (args_of args)"
    "tag_args (write_tag args an) = min 3 (length (args_of args))"
    unfolding t n_def [symmetric] tag_annots_def tag_args_def by (cases; simp)+
qed

lemma readExpr_prim:
  assumes "rahead r (byte_of (write_tag args an) # byte_of k # rest)" and "an \<noteq> Some []"
    and "k < length primitives" and "primitives ! k = p"
  shows "readExpr (Suc n) L tf r =
     bindR (primPass n L (Forever RPass) (min 3 (length (args_of args))) (radv 2 r)) (\<lambda>(res1, _).
     bindR (apply_args tf (Prim p res1 None)) (\<lambda>it.
     bindR (primPass n L it (min 3 (length (args_of args))) (radv 2 r)) (\<lambda>(res2, rd3).
     bindR (apply_args tf (Prim p res2 None)) (\<lambda>_.
     bindR (read_annots (write_tag args an) rd3) (\<lambda>(an, rd4).
     bindR (apply_res L tf (Prim p res2 an)) (\<lambda>e. Inr (e, rd4)))))))"
proof -
  have "rahead r [byte_of (write_tag args an)]" "rahead (radv 1 r) [byte_of k]"
    using assms(1) rahead_Cons by blast+
  moreover have "k < 256" using assms(3) by (simp add: primitives_def)
  ultimately show ?thesis using write_tag_facts [OF assms(2), of args] assms(3,4)
    by (subst readExpr.simps) (simp add: readUint8_ahead byte_of_under Let_def numeral_2_eq_2)
qed

lemma primTags_index: "primTags p = Some k \<Longrightarrow> k < length primitives \<and> primitives ! k = p"
proof -
  have "index_of p ps = Some k \<Longrightarrow> k < length ps \<and> ps ! k = p" for ps
    by (induction ps arbitrary: k) (auto split: if_splits)
  then show "primTags p = Some k \<Longrightarrow> ?thesis" by (simp add: primTags_def)
qed

lemma yields_prim0:
  assumes "primTags p = Some k" and "annots_ok an" and "length (prim_bytes k None an []) < 2 ^ 32"
    and "apply_args tf (Prim p None None) = Inr it" and "apply_res L tf (Prim p None an) = Inr e"
  shows "yields L tf (prim_bytes k None an []) e"
  unfolding yields_def
proof (intro conjI allI impI)
  fix r n assume r: "rahead r (prim_bytes k None an [])" and n: "2 * length (prim_bytes k None an []) + 1 \<le> n"
  have an: "an \<noteq> Some []" using assms(2) by (auto simp: annots_ok_def)
  have b: "prim_bytes k None an [] = byte_of (write_tag None an) # byte_of k # annot_bytes 0 an"
    by (simp add: prim_bytes_def)
  obtain m where m: "n = Suc (Suc (Suc m))" using n unfolding b by (auto simp: Suc_le_eq dest!: less_imp_Suc_add)
  have "rahead (radv 2 r) (annot_bytes 0 an)" using r unfolding b by (metis append_Cons append_Nil length_Cons list.size(3) numeral_2_eq_2 rahead_append)
  then have "read_annots (write_tag None an) (radv 2 r) = Inr (an, radv (length (annot_bytes 0 an)) (radv 2 r))"
    using write_tag_facts(3) [OF an, of None] assms(2,3) unfolding b by (intro read_annots_ahead) auto
  moreover have "primPass (Suc (Suc m)) L jt 0 (radv 2 r) = Inr (None, radv 2 r)" for jt by simp
  ultimately show "readExpr n L tf r = Inr (e, radv (length (prim_bytes k None an [])) r)"
    using readExpr_prim [OF _ an, of r None k "annot_bytes 0 an" p "Suc (Suc m)" L tf] r primTags_index [OF assms(1)] assms(4,5)
    unfolding b m by simp
qed (simp add: prim_bytes_def)

definition prim_body_bytes :: "nat \<Rightarrow> byte list \<Rightarrow> byte list" where
  "prim_body_bytes n body = (if n < 3 then body else be_bytes 4 (length body) @ body)"

lemma seqPass_yields:
  assumes "rahead r (concat bss)" and "gives it fs" and "yields_all L fs bss ds"
    and "2 * length (concat bss) + 3 \<le> n"
  shows "seqPass n L it (length (concat bss)) r = Inr (ds, radv (length (concat bss)) r)"
proof -
  obtain m where n: "n = Suc m" using assms(4) by (cases n) auto
  obtain r' where r': "sub_reader (length (concat bss)) r = Inr (r', radv (length (concat bss)) r)" "within r' (concat bss)"
    using sub_reader_ahead [OF assms(1)] by blast
  have "readWhile m L it r' = Inr ds"
    using assms(4) n by (intro readWhile_yields [OF assms(3,2) r'(2)]) simp
  then show ?thesis by (simp add: n r'(1))
qed

lemma primPass_yields:
  assumes "rahead r (prim_body_bytes (length bss) (concat bss))" and "gives it fs" and "yields_all L fs bss ds"
    and "bss \<noteq> []" and "length (concat bss) < 2 ^ 32" and "2 * length (concat bss) + 4 \<le> n"
  shows "primPass n L it (min 3 (length bss)) r = Inr (Some ds, radv (length (prim_body_bytes (length bss) (concat bss))) r)"
proof -
  obtain m where n: "n = Suc m" using assms(6) by (cases n) auto
  have len: "length ds = length bss" using yields_all_length [OF assms(3)] by simp
  show ?thesis
  proof (cases "length bss < 3")
    case True
    then have "rahead r (concat bss)" using assms(1) by (simp add: prim_body_bytes_def)
    then have "readTimes m L it (length ds) r = Inr (ds, radv (length (concat bss)) r)"
      using assms(6) True by (intro readTimes_yields [OF assms(3,2)]) (simp_all add: len n)
    then show ?thesis using True assms(4) by (simp add: n len prim_body_bytes_def)
  next
    case False
    then have "rahead r (be_bytes 4 (length (concat bss)))" "rahead (radv 4 r) (concat bss)"
      using assms(1) by (simp_all add: prim_body_bytes_def rahead_append)
    then show ?thesis
      using False readUint32_ahead [of r "length (concat bss)"] seqPass_yields [of "radv 4 r" bss it fs L ds m] assms
      by (simp add: n prim_body_bytes_def)
  qed
qed

lemma yields_prim:
  assumes "primTags p = Some k" and "annots_ok an" and "length (prim_bytes k (Some xs) an (concat bss)) < 2 ^ 32"
    and "length xs = length bss" "bss \<noteq> []"
    and "yields_all L (replicate (length bss) RPass) bss ds1" and "apply_args tf (Prim p (Some ds1) None) = Inr it"
    and "gives it fs" and "yields_all L fs bss ds" and "apply_args tf (Prim p (Some ds) None) = Inr it2"
    and "apply_res L tf (Prim p (Some ds) an) = Inr e"
  shows "yields L tf (prim_bytes k (Some xs) an (concat bss)) e"
  unfolding yields_def
proof (intro conjI allI impI)
  let ?bs = "prim_bytes k (Some xs) an (concat bss)" and ?body = "prim_body_bytes (length bss) (concat bss)"
  fix r n assume r: "rahead r ?bs" and n: "2 * length ?bs + 1 \<le> n"
  have an: "an \<noteq> Some []" using assms(2) by (auto simp: annots_ok_def)
  have b: "?bs = byte_of (write_tag (Some xs) an) # byte_of k # ?body @ annot_bytes (length bss) an"
    by (simp add: prim_bytes_def prim_body_bytes_def assms(4))
  obtain m where m: "n = Suc m" using n by (cases n) auto
  have body: "length (concat bss) \<le> length ?body" by (simp add: prim_body_bytes_def)
  have "rahead (radv 2 r) (?body @ annot_bytes (length bss) an)"
    using r unfolding b by (metis append_Cons append_Nil length_Cons list.size(3) numeral_2_eq_2 rahead_append)
  then have a: "rahead (radv 2 r) ?body" "rahead (radv (length ?body) (radv 2 r)) (annot_bytes (length bss) an)"
    unfolding rahead_append by blast+
  have "read_annots (write_tag (Some xs) an) (radv (length ?body) (radv 2 r)) =
      Inr (an, radv (length (annot_bytes (length bss) an)) (radv (length ?body) (radv 2 r)))"
    using write_tag_facts(3) [OF an, of "Some xs"] assms(2-4) unfolding b by (intro read_annots_ahead [OF a(2)]) auto
  moreover have fuel: "2 * length (concat bss) + 4 \<le> m" using n m body unfolding b by simp
  moreover have small: "length (concat bss) < 2 ^ 32" using assms(3) body unfolding b by simp
  moreover have "primPass m L (Forever RPass) (min 3 (length bss)) (radv 2 r) = Inr (Some ds1, radv (length ?body) (radv 2 r))"
    by (rule primPass_yields [OF a(1) _ assms(6,5) small fuel]) simp
  moreover have "primPass m L it (min 3 (length bss)) (radv 2 r) = Inr (Some ds, radv (length ?body) (radv 2 r))"
    by (rule primPass_yields [OF a(1) assms(8,9,5) small fuel])
  ultimately show "readExpr n L tf r = Inr (e, radv (length ?bs) r)"
    using readExpr_prim [OF _ an, of r "Some xs" k "?body @ annot_bytes (length bss) an" p m L tf] r
      primTags_index [OF assms(1)] assms(7,10,11)
    unfolding b m by (simp add: assms(4) add.assoc)
qed (simp add: prim_bytes_def)

text \<open>Sequences and literals.\<close>

lemma readExpr_tag:
  assumes "rahead r (b # bs)"
  shows "readUint8 r = Inr (unat b, radv 1 r)" "rahead (radv 1 r) bs"
  using assms rahead_Cons readUint8_ahead by blast+

lemma yields_seq:
  assumes "length (concat bss) < 2 ^ 32" and "yields_all L (replicate (length bss) RPass) bss ds1"
    and "apply_args tf (Seq ds1) = Inr it" and "gives it fs" and "yields_all L fs bss ds"
    and "apply_args tf (Seq ds) = Inr it2" and "apply_res L tf (Seq ds) = Inr e"
  shows "yields L tf (seq_bytes (concat bss)) e"
  unfolding yields_def
proof (intro conjI allI impI)
  let ?c = "concat bss"
  fix r n assume r: "rahead r (seq_bytes ?c)" and n: "2 * length (seq_bytes ?c) + 1 \<le> n"
  note t = readExpr_tag [OF r [unfolded seq_bytes_def]]
  obtain m where m: "n = Suc m" using n by (cases n) auto
  have a: "rahead (radv 1 r) (be_bytes 4 (length ?c))" "rahead (radv 4 (radv 1 r)) ?c"
    using t(2) unfolding rahead_append by simp_all
  have fuel: "2 * length ?c + 3 \<le> m" using n m by (simp add: seq_bytes_def)
  have "seqPass m L (Forever RPass) (length ?c) (radv 4 (radv 1 r)) = Inr (ds1, radv (length ?c) (radv 4 (radv 1 r)))"
    by (rule seqPass_yields [OF a(2) _ assms(2) fuel]) simp
  moreover have "seqPass m L it (length ?c) (radv 4 (radv 1 r)) = Inr (ds, radv (length ?c) (radv 4 (radv 1 r)))"
    by (rule seqPass_yields [OF a(2) assms(4,5) fuel])
  ultimately show "readExpr n L tf r = Inr (e, radv (length (seq_bytes ?c)) r)"
    using t(1) readUint32_ahead [OF a(1) assms(1)] unfolding m
    by (subst readExpr.simps) (simp add: assms(3,6,7) seq_bytes_def add.assoc)
qed (simp add: seq_bytes_def)

lemma yields_sized:
  assumes "length bs < 2 ^ 32" and "unat tag \<in> {1, 10}"
    and "apply_res L tf (if unat tag = 1 then StringLit (text_decode bs) else BytesLit (hexBytes bs)) = Inr e"
  shows "yields L tf (tag # be_bytes 4 (length bs) @ bs) e"
  unfolding yields_def
proof (intro conjI allI impI)
  let ?all = "tag # be_bytes 4 (length bs) @ bs"
  fix r n assume r: "rahead r ?all" and n: "2 * length ?all + 1 \<le> n"
  note t = readExpr_tag [OF r]
  obtain m where m: "n = Suc m" using n by (cases n) auto
  have a: "rahead (radv 1 r) (be_bytes 4 (length bs))" "rahead (radv 4 (radv 1 r)) bs"
    using t(2) unfolding rahead_append by simp_all
  show "readExpr n L tf r = Inr (e, radv (length ?all) r)"
    using assms(2,3) t(1) readUint32_ahead [OF a(1) assms(1)] readBytes_ahead [OF a(2)] unfolding m
    by (subst readExpr.simps) (auto simp: add.assoc)
qed simp

lemma yields_int:
  assumes "apply_res L tf (IntLit (int_to_dec i)) = Inr e"
  shows "yields L tf (0 # sleb (i < 0) (nat \<bar>i\<bar>)) e"
  unfolding yields_def
proof (intro conjI allI impI)
  let ?s = "sleb (i < 0) (nat \<bar>i\<bar>)"
  fix r n assume r: "rahead r (0 # ?s)" and n: "2 * length (0 # ?s) + 1 \<le> n"
  note t = readExpr_tag [OF r]
  obtain m where m: "n = Suc m" using n by (cases n) auto
  have "length ?s \<le> rd_length (radv 1 r) + 1" using rahead_length [OF t(2)] by simp
  then have "read_groups (rd_length (radv 1 r) + 1) (radv 1 r) = Inr (map sint ?s, radv (length ?s) (radv 1 r))"
    by (rule read_groups_ahead [OF t(2) sleb_chunked])
  then show "readExpr n L tf r = Inr (e, radv (length (0 # ?s)) r)"
    using t(1) unfolding m by (subst readExpr.simps) (simp add: groups_int_sleb assms del: read_groups.simps)
qed simp

end
