(* ===== verification/JsDateProofs.thy ===== *)
theory JsDateProofs
  imports JsDate
begin

text \<open>
  Dates: the calendar and its inverse, and that the text \<open>toISOString\<close> gives, cut to seconds,
  is read back by \<open>parseDate\<close>, for the years 0 to 9999.
\<close>

section \<open>The calendar\<close>

lemma ceiling_div:
  assumes "0 < (n :: nat)"
  shows "(y + (n - 1)) div n = y div n + (if y mod n = 0 then 0 else 1)"
proof -
  have "(y + (n - 1)) div n = (n * (y div n) + (y mod n + (n - 1))) div n"
    by (metis add.assoc mult_div_mod_eq)
  also have "\<dots> = y div n + (y mod n + (n - 1)) div n" using assms by (subst div_mult_self4) simp_all
  also have "(y mod n + (n - 1)) div n = (if y mod n = 0 then 0 else 1)"
  proof (cases "y mod n")
    case (Suc r)
    then have "r < n" using mod_less_divisor [OF assms, of y] by linarith
    then have "(Suc r + (n - 1)) div n = (n + r) div n" using assms by (intro arg_cong [where f = "\<lambda>x. x div n"]) simp
    then show ?thesis using \<open>r < n\<close> assms Suc by (simp add: div_add_self1)
  qed (use assms in simp)
  finally show ?thesis .
qed

lemma ceiling_Suc: "0 < n \<Longrightarrow> (Suc y + (n - 1)) div n = (y + (n - 1)) div n + (if y mod n = 0 then 1 else 0)"
proof -
  assume n: "0 < n"
  have "(Suc y + (n - 1)) div n = (y + n) div n" using n by (intro arg_cong [where f = "\<lambda>x. x div n"]) simp
  also have "\<dots> = y div n + 1" using n by (simp add: div_add_self2)
  finally show ?thesis unfolding ceiling_div [OF n] by simp
qed

lemma ceiling_le: "(y + 99) div 100 \<le> (y + 3) div (4 :: nat)"
proof -
  have "y \<le> 4 * ((y + 3) div 4)" using dividend_less_times_div [of 4 "y + 3"] by simp
  then have "(y + 99) div 100 \<le> (100 * ((y + 3) div 4) + 99) div 100" by (intro div_le_mono) linarith
  also have "\<dots> = (y + 3) div 4" by (subst div_mult_self4) simp_all
  finally show ?thesis .
qed

lemma day_from_year_Suc: "day_from_year (Suc y) = day_from_year y + (if leap y then 366 else 365)"
proof -
  have m: "y mod 100 = 0 \<Longrightarrow> y mod 4 = 0" "y mod 400 = 0 \<Longrightarrow> y mod 100 = 0"
    using mod_mod_cancel [of 4 100 y] mod_mod_cancel [of 100 400 y] by simp_all
  have eqs: "(Suc y + 3) div 4 = (y + 3) div 4 + (if y mod 4 = 0 then 1 else 0)"
    "(Suc y + 99) div 100 = (y + 99) div 100 + (if y mod 100 = 0 then 1 else 0)"
    "(Suc y + 399) div 400 = (y + 399) div 400 + (if y mod 400 = 0 then 1 else 0)"
    using ceiling_Suc [of 4 y] ceiling_Suc [of 100 y] ceiling_Suc [of 400 y] by simp_all
  obtain a b c where abc: "(y + 3) div 4 = a" "(y + 99) div 100 = b" "(y + 399) div 400 = c" by blast
  have "b \<le> a" using ceiling_le [of y] unfolding abc .
  then show ?thesis
    using m unfolding day_from_year_def leap_def eqs abc
    by (cases "y mod 4 = 0"; cases "y mod 100 = 0"; cases "y mod 400 = 0") simp_all
qed

lemma day_from_year_0 [simp]: "day_from_year 0 = 0"
  by (simp add: day_from_year_def)

lemma day_from_year_ge: "365 * y \<le> day_from_year y"
  by (induction y) (auto simp: day_from_year_Suc)

lemma day_from_year_mono: "x \<le> y \<Longrightarrow> day_from_year x \<le> day_from_year y"
  by (induction y) (auto simp: day_from_year_Suc le_Suc_eq)

lemma day_from_year_400: "day_from_year (400 * q + y) = 146097 * q + day_from_year y"
proof -
  have "(4 * (100 * q) + (y + 3)) div 4 = 100 * q + (y + 3) div 4"
    "(100 * (4 * q) + (y + 99)) div 100 = 4 * q + (y + 99) div 100"
    "(400 * q + (y + 399)) div 400 = q + (y + 399) div 400"
    by (subst div_mult_self4; simp)+
  then show ?thesis using ceiling_le [of y] unfolding day_from_year_def by (simp add: add.assoc)
qed

lemma leap_400: "leap (400 * q + y) \<longleftrightarrow> leap y"
proof -
  have "(4 * (100 * q) + y) mod 4 = y mod 4" "(100 * (4 * q) + y) mod 100 = y mod 100" "(400 * q + y) mod 400 = y mod 400"
    by (simp_all only: mod_mult_self4)
  then show ?thesis by (simp add: leap_def)
qed

lemma months_400: "months (400 * q + y) = months y"
  by (simp add: months_def leap_400)

lemma find_year_spec:
  assumes "d < day_from_year (Suc y)"
  shows "day_from_year (find_year y d) \<le> d" "d < day_from_year (Suc (find_year y d))"
  using assms by (induction y) auto

lemma find_month_spec:
  "d < sum_list ns \<Longrightarrow> find_month ns d = (m, r) \<Longrightarrow>
     m < length ns \<and> r < ns ! m \<and> d = sum_list (take m ns) + r"
proof (induction ns arbitrary: d m r)
  case (Cons n ns)
  show ?case
  proof (cases "d < n")
    case False
    obtain m' r' where f: "find_month ns (d - n) = (m', r')" by (cases "find_month ns (d - n)")
    have "d - n < sum_list ns" using Cons.prems(1) False by simp
    with Cons.IH [OF this f] have "m' < length ns" "r' < ns ! m'" "d = n + sum_list (take m' ns) + r'"
      using False by auto
    then show ?thesis using Cons.prems(2) f False by auto
  qed (use Cons.prems in auto)
qed simp

lemma year_length: "sum_list (months y) = (if leap y then 366 else 365)"
  by (simp add: months_def)

lemma find_year_400:
  assumes "d < 146097"
  shows "find_year (d div 365) d < 400"
proof -
  have "d < 365 * Suc (d div 365)" using dividend_less_times_div [of 365 d] by simp
  then have "day_from_year (find_year (d div 365) d) \<le> d"
    using find_year_spec(1) [of d "d div 365"] day_from_year_ge [of "Suc (d div 365)"] by simp
  moreover have "day_from_year 400 = 146097" by (simp add: day_from_year_def)
  ultimately show ?thesis using assms day_from_year_mono [of 400 "find_year (d div 365) d"] by linarith
qed

lemma months_length: "length (months y) = 12"
  by (simp add: months_def)

text \<open>A day as year, month and day of the month, and back.\<close>

lemma civil_spec:
  assumes "civil n = (int Y, mo, d)"
  shows "1 \<le> mo \<and> mo \<le> 12 \<and> 1 \<le> d \<and> d \<le> months Y ! (mo - 1) \<and> int (day_number Y mo d) - int epoch_day = n"
proof -
  define e where "e = n + int epoch_day"
  define dd where "dd = nat (e mod 146097)"
  define y where "y = find_year (dd div 365) dd"
  obtain m r where f: "find_month (months y) (dd - day_from_year y) = (m, r)"
    by (cases "find_month (months y) (dd - day_from_year y)")
  have c: "int Y = 400 * (e div 146097) + int y" "mo = m + 1" "d = r + 1"
    using assms f by (simp_all add: civil_def Let_def e_def dd_def y_def)
  have "dd < 365 * Suc (dd div 365)" using dividend_less_times_div [of 365 dd] by simp
  then have dd: "day_from_year y \<le> dd" "dd < day_from_year (Suc y)"
    using find_year_spec [of dd "dd div 365"] day_from_year_ge [of "Suc (dd div 365)"] by (simp_all add: y_def)
  have "dd - day_from_year y < sum_list (months y)"
    using dd by (simp add: day_from_year_Suc year_length split: if_splits)
  from find_month_spec [OF this f]
  have m: "m < 12" "r < months y ! m" "dd = day_from_year y + sum_list (take m (months y)) + r"
    using dd months_length [of y] by auto
  have small: "int dd = e mod 146097" by (simp add: dd_def)
  have "y < 400" unfolding y_def by (rule find_year_400) (simp add: nat_less_iff dd_def)
  then have "0 \<le> e div 146097" using c(1) by linarith
  then obtain q where q: "e div 146097 = int q" using nonneg_int_cases by metis
  have Y: "Y = 400 * q + y" using c(1) q by linarith
  have "e = 146097 * int q + int dd" using small q by (metis mult_div_mod_eq)
  moreover have "day_number Y mo d = 146097 * q + dd"
    unfolding day_number_def Y c months_400 day_from_year_400 using m(3) by simp
  ultimately show ?thesis using m(1,2) unfolding c Y months_400 by (auto simp: e_def)
qed

lemma civil_year:
  assumes "civil n = (Y, mo, d)"
  shows "400 * ((n + int epoch_day) div 146097) \<le> Y \<and> Y < 400 * ((n + int epoch_day) div 146097) + 400"
proof -
  let ?d = "nat ((n + int epoch_day) mod 146097)"
  have "find_year (?d div 365) ?d < 400" by (rule find_year_400) (simp add: nat_less_iff)
  then show ?thesis using assms by (auto simp: civil_def Let_def split: prod.splits)
qed

section \<open>The text of a date\<close>

lemma list_all_fixd: "list_all is_digit (fixd 10 k n)"
proof (induction k arbitrary: n)
  case (Suc k)
  have "is_digit (dig (n mod 10))" using in_base_dig [of "n mod 10" 10] by (simp add: in_base_10)
  then show ?case using Suc by simp
qed simp

lemma fixd_2: "fixd b 2 n = fixd b 1 (n div b) @ [dig (n mod b)]" "fixd b 1 n = [dig (n mod b)]"
  and fixd_4: "fixd b 4 n = fixd b 2 (n div b div b) @ [dig (n div b mod b), dig (n mod b)]"
  by (simp_all add: numeral_eq_Suc)

lemma fixed_num_fixd:
  assumes "n < 10 ^ k" "lo \<le> n" "n \<le> hi"
  shows "fixed_num (fixd 10 k n) lo hi = Some n"
  using assms by (simp add: fixed_num_def list_all_fixd of_digits_fixd)

lemma pad2_fixd: "n < 100 \<Longrightarrow> pad2 n = fixd 10 2 n"
  using padStart_digits [of 10 n 2] by (simp add: pad2_def)

text \<open>The nineteen characters up to the seconds, and \<open>Z\<close>.\<close>

definition date_text :: "nat \<Rightarrow> nat \<Rightarrow> nat \<Rightarrow> nat \<Rightarrow> nat \<Rightarrow> nat \<Rightarrow> string" where
  "date_text y mo d h mi s = fixd 10 4 y @ ''-'' @ fixd 10 2 mo @ ''-'' @ fixd 10 2 d @ ''T'' @ fixd 10 2 h @ '':'' @
     fixd 10 2 mi @ '':'' @ fixd 10 2 s @ ''Z''"

lemma rfc3339_text:
  assumes "y \<le> 9999" "1 \<le> mo" "mo \<le> 12" "1 \<le> d" "d \<le> 31" "h < 24" "mi < 60" "s \<le> 60"
  shows "rfc3339Re (date_text y mo d h mi s) = Some \<lparr>rfc_year = y, rfc_month = mo, rfc_day = d, rfc_hour = h,
    rfc_minute = mi, rfc_second = s, rfc_millis = 0, rfc_offset = 0\<rparr>"
proof -
  have "fixed_num (fixd 10 4 y) 0 9999 = Some y" "fixed_num (fixd 10 2 mo) 1 12 = Some mo"
    "fixed_num (fixd 10 2 d) 1 31 = Some d" "fixed_num (fixd 10 2 h) 0 23 = Some h"
    "fixed_num (fixd 10 2 mi) 0 59 = Some mi" "fixed_num (fixd 10 2 s) 0 60 = Some s"
    by (rule fixed_num_fixd; use assms in simp)+
  then show ?thesis
    by (simp add: rfc3339Re_def date_text_def nth_append parse_fraction_def parse_zone_def)
qed

lemma not_natural_text: "\<not> isNatural (date_text y mo d h mi s)"
proof -
  have d: "is_digit c \<Longrightarrow> \<not> (of_char c < (48 :: nat) \<or> 57 < (of_char c :: nat))" for c
    by (auto simp: is_digit_def dig_val_def Let_def split: if_splits)
  have bad: "list_all is_digit ds \<Longrightarrow> \<exists>e. li_digits l (ds @ CHR ''-'' # r) = Inl e" for l ds r
    by (induction ds arbitrary: l) (auto simp: Let_def dest: d)
  have f: "list_all is_digit (fixd 10 4 y)" by (rule list_all_fixd)
  then have "fixd 10 4 y \<noteq> [] \<and> hd (fixd 10 4 y) \<noteq> CHR ''-''"
    by (cases "fixd 10 4 y") (auto dest: d simp: length_0_conv [symmetric] simp del: length_0_conv)
  then have "hd (date_text y mo d h mi s) \<noteq> CHR ''-''" by (simp add: date_text_def)
  then have "\<exists>e. li_of_string (date_text y mo d h mi s) = Inl e"
    using bad [OF f] by (simp add: li_of_string_def date_text_def)
  then show ?thesis by (auto simp: isNatural_def)
qed

text \<open>A day that the month does not have is the same day counted on into the next month; the second
  60 is accepted, and the date is invalid.\<close>

definition past_month :: "nat \<Rightarrow> nat \<Rightarrow> nat \<Rightarrow> nat \<Rightarrow> nat \<Rightarrow> nat \<Rightarrow> bool" where
  "past_month y mo d h mi s \<longleftrightarrow> y \<le> 9999 \<and> 1 \<le> mo \<and> mo \<le> 12 \<and> months y ! (mo - 1) < d \<and> d \<le> 31
     \<and> h < 24 \<and> mi < 60 \<and> s < 60"

lemma past_month_next: "past_month y mo d h mi s \<Longrightarrow> mo < 12"
  by (cases "mo = 12") (auto simp: past_month_def months_def)

lemma day_number_next:
  assumes "1 \<le> mo" "mo \<le> 12" "months y ! (mo - 1) < d"
  shows "day_number y (mo + 1) (d - months y ! (mo - 1)) = day_number y mo d"
proof -
  have "length (months y) = 12" by (simp add: months_def)
  then have "take mo (months y) = take (mo - 1) (months y) @ [months y ! (mo - 1)]"
    using take_Suc_conv_app_nth [of "mo - 1" "months y"] assms by simp
  then show ?thesis using assms by (simp add: day_number_def)
qed

lemma parse_past_month:
  assumes "past_month y mo d h mi s"
  shows "parseDate (StringLit (date_text y mo d h mi s)) =
      parseDate (StringLit (date_text y (mo + 1) (d - months y ! (mo - 1)) h mi s))"
    and "\<exists>ms. parseDate (StringLit (date_text y mo d h mi s)) = Some (Some ms)"
proof -
  note b = assms [unfolded past_month_def]
  have "rfc3339Re (date_text y mo d h mi s) = Some \<lparr>rfc_year = y, rfc_month = mo, rfc_day = d, rfc_hour = h,
      rfc_minute = mi, rfc_second = s, rfc_millis = 0, rfc_offset = 0\<rparr>"
    by (rule rfc3339_text) (use b in simp_all)
  moreover have "rfc3339Re (date_text y (mo + 1) (d - months y ! (mo - 1)) h mi s) = Some \<lparr>rfc_year = y, rfc_month = mo + 1,
      rfc_day = d - months y ! (mo - 1), rfc_hour = h, rfc_minute = mi, rfc_second = s, rfc_millis = 0, rfc_offset = 0\<rparr>"
    by (rule rfc3339_text) (use b past_month_next [OF assms] in linarith)+
  ultimately show "parseDate (StringLit (date_text y mo d h mi s)) =
      parseDate (StringLit (date_text y (mo + 1) (d - months y ! (mo - 1)) h mi s))"
      "\<exists>ms. parseDate (StringLit (date_text y mo d h mi s)) = Some (Some ms)"
    using day_number_next [of mo y d] b by (simp_all add: parseDate_def not_natural_text date_value_def)
qed

lemma parse_leap_second:
  assumes "y \<le> 9999" "1 \<le> mo" "mo \<le> 12" "1 \<le> d" "d \<le> 31" "h < 24" "mi < 60"
  shows "parseDate (StringLit (date_text y mo d h mi 60)) = Some None"
  using rfc3339_text [OF assms, of 60] by (simp add: parseDate_def not_natural_text date_value_def)

text \<open>The years 0 to 9999.\<close>

definition date_range :: "int \<Rightarrow> bool" where
  "date_range sec \<longleftrightarrow> - 62167219200 \<le> sec \<and> sec \<le> 253402300799"

lemma date_round_trip:
  assumes "date_range sec"
  shows "\<exists>u. toISOString (sec * 1000) = Some u \<and> parseDate (StringLit (take 19 u @ ''Z'')) = Some (Some (sec * 1000))"
proof -
  define n where "n = sec div 86400"
  define t where "t = nat (sec mod 86400)"
  have sec: "sec = 86400 * n + int t" and t: "t < 86400" by (simp_all add: n_def t_def nat_less_iff)
  obtain Y mo d where c: "civil n = (Y, mo, d)" by (cases "civil n")
  have "- 719528 \<le> n" "n \<le> 2932896" using assms sec t unfolding date_range_def by linarith+
  then have "0 \<le> (n + int epoch_day) div 146097" "(n + int epoch_day) div 146097 \<le> 24"
    unfolding epoch_day_def by linarith+
  then have Y: "0 \<le> Y" "Y \<le> 9999" using civil_year [OF c] by linarith+
  then obtain y where y: "Y = int y" using nonneg_int_cases by metis
  note day = civil_spec [OF c [unfolded y]]
  have d31: "d \<le> 31"
    using day months_length [of y] by (auto simp: months_def nth_Cons split: nat.splits if_splits)
  let ?h = "t div 3600" and ?mi = "t div 60 mod 60" and ?s = "t mod 60"
  have parts: "3600 * ?h + 60 * ?mi + ?s = t"
  proof -
    have "t div 3600 = t div 60 div 60" by (simp add: div_mult2_eq [symmetric])
    then show ?thesis using mult_div_mod_eq [of 60 "t div 60"] mult_div_mod_eq [of 60 t] by linarith
  qed
  have h: "?h < 24" using t by (simp add: div_less_iff_less_mult)
  have day': "sec * 1000 div 86400000 = n" "nat (sec * 1000 mod 86400000) = 1000 * t"
  proof -
    have *: "sec * 1000 = 1000 * int t + n * 86400000" "1000 * int t < 86400000" using sec t by simp_all
    show "sec * 1000 div 86400000 = n" unfolding *(1) using *(2) by (subst div_mult_self1) simp_all
    show "nat (sec * 1000 mod 86400000) = 1000 * t" unfolding *(1) using *(2) by (subst mod_mult_self1) simp
  qed
  have time: "1000 * t div 3600000 = ?h" "1000 * t div 60000 mod 60 = ?mi" "1000 * t div 1000 mod 60 = ?s" "1000 * t mod 1000 = 0"
    using div_mult_mult1 [of 1000 t 3600] div_mult_mult1 [of 1000 t 60] by simp_all
  have year: "padStart 4 (digits 10 y) = fixd 10 4 y" using Y y by (intro padStart_digits) simp_all
  have pads: "pad2 mo = fixd 10 2 mo" "pad2 d = fixd 10 2 d" "pad2 ?h = fixd 10 2 ?h" "pad2 ?mi = fixd 10 2 ?mi" "pad2 ?s = fixd 10 2 ?s"
    by (rule pad2_fixd; use day d31 h in simp)+
  have iso: "toISOString (sec * 1000) = Some (butlast (date_text y mo d ?h ?mi ?s) @ ''.000Z'')"
  proof -
    have "\<not> 8640000000000000 < \<bar>sec * 1000\<bar>" using assms unfolding date_range_def by linarith
    moreover have "padStart 3 (digits 10 0) = ''000''"
      using padStart_digits [of 10 0 3] by (simp add: fixd_zero numeral_3_eq_3)
    ultimately show ?thesis using Y
      by (simp add: toISOString_def day' c y time year pads date_text_def butlast_append)
  qed
  have "take 19 (butlast (date_text y mo d ?h ?mi ?s) @ ''.000Z'') @ ''Z'' = date_text y mo d ?h ?mi ?s"
    by (simp add: date_text_def butlast_append)
  moreover have "parseDate (StringLit (date_text y mo d ?h ?mi ?s)) = Some (Some (sec * 1000))"
  proof -
    have "rfc3339Re (date_text y mo d ?h ?mi ?s) = Some \<lparr>rfc_year = y, rfc_month = mo, rfc_day = d, rfc_hour = ?h,
        rfc_minute = ?mi, rfc_second = ?s, rfc_millis = 0, rfc_offset = 0\<rparr>"
      by (rule rfc3339_text) (use Y y day d31 h in simp_all)
    moreover have "(n * 1440 + int (60 * ?h + ?mi)) * 60000 + int (1000 * ?s) = sec * 1000"
      using parts sec by (simp add: algebra_simps)
    moreover have "?s \<noteq> 60" using mod_less_divisor [of 60 t] by linarith
    ultimately show ?thesis using day by (simp add: parseDate_def not_natural_text date_value_def)
  qed
  ultimately show ?thesis using iso by simp
qed

end
