(* ===== verification/PackLeaves.thy ===== *)
theory PackLeaves
  imports PackProofs JsDateProofs ForgeCodecProofs
begin

text \<open>
  The values of the leaf types in \<open>PACK\<close>: bytes and their hexadecimal text, the decimal text of
  integers, Base58 texts, and that the text of a chain identifier, signature, key, key hash or
  address is packed to bytes that are read as the same text.
\<close>

section \<open>Literals\<close>

lemma parseHex_hexOf: "parseHex (hexOf bs) = Inr (map (int \<circ> unat) bs)"
proof (induction bs)
  case (Cons b bs)
  have "js_parseInt 16 (hexOf [b]) = Some (int (unat b))"
    using js_parseInt_hexOf [of "[b]"] by (simp add: be_val_def)
  then show ?case using Cons by (simp add: hexOf_def hex_byte_def)
qed (simp add: hexOf_def)

lemma hex_pairs_hexOf: "hex_pairs (hexOf bs) = Some (map (int \<circ> unat) bs)"
proof (induction bs)
  case (Cons b bs)
  have "js_parseInt 16 (hexOf [b]) = Some (int (unat b))"
    using js_parseInt_hexOf [of "[b]"] by (simp add: be_val_def)
  then show ?case using Cons by (simp add: hexOf_def hex_byte_def)
qed (simp add: hexOf_def)

lemma parseBytes_hexOf: "parseBytes (hexOf bs) = Inr (Some (map (int \<circ> unat) bs))"
  by (simp add: parseBytes_def hex_pairs_hexOf)

lemma to_byte_unat [simp]: "map to_byte (map (int \<circ> unat) bs) = bs"
  by (induction bs) (simp_all add: to_byte_def)

lemma to_byte_uint [simp]: "to_byte (uint b) = b" "to_byte 0 = 0" "to_byte 1 = 1"
  by (simp_all add: to_byte_def)

lemma to_byte_unat_comp [simp]: "map (to_byte \<circ> (int \<circ> unat)) bs = bs"
  using to_byte_unat [of bs] by simp

lemma hexBytes_hexOf: "hexBytes bs = hexOf bs"
  by (simp add: hexBytes_def hexOf_def hex_byte_def [abs_def])

lemma js_trim_solid: "list_all (\<lambda>c. \<not> is_space c) s \<Longrightarrow> js_trim s = s"
proof -
  have *: "list_all (\<lambda>c. \<not> is_space c) u \<Longrightarrow> dropWhile is_space u = u" for u
    by (cases u) simp_all
  assume "list_all (\<lambda>c. \<not> is_space c) s"
  then show ?thesis using * [of s] * [of "rev s"] by (simp add: js_trim_def)
qed

lemma js_BigInt_dec: "js_BigInt (int_to_dec k) = Some k"
proof -
  have lower: "is_digit c \<Longrightarrow> lower_char c = c" for c
    by (auto simp: is_digit_def dig_val_def lower_char_def Let_def split: if_splits)
  have d: "list_all (in_base 10) (digits 10 n)" for n by (rule list_all_digits) simp_all
  then have digit: "\<forall>c\<in>set (digits 10 n). is_digit c" for n by (simp add: list_all_iff in_base_10)
  have solid: "\<forall>c\<in>set (digits 10 n). \<not> is_space c \<and> c \<noteq> CHR ''-'' \<and> c \<noteq> CHR ''+''" for n
    using d [of n] digit_not_special by (auto simp: list_all_iff)
  have trim: "js_trim (digits 10 n) = digits 10 n" "js_trim (CHR ''-'' # digits 10 n) = CHR ''-'' # digits 10 n" for n
    by (rule js_trim_solid; use solid in \<open>simp add: list_all_iff is_space_def\<close>)+
  have head: "toLowerCase (take 2 (digits 10 n)) \<notin> {''0x'', ''0o'', ''0b''}" for n
  proof -
    have "\<forall>c\<in>set (take 2 (digits 10 n)). is_digit c" using digit by (auto dest: in_set_takeD)
    then have "toLowerCase (take 2 (digits 10 n)) = take 2 (digits 10 n)" "\<forall>c\<in>set (take 2 (digits 10 n)). is_digit c"
      unfolding toLowerCase_def by (simp_all add: lower map_idI)
    moreover have "\<not> is_digit (CHR ''x'')" "\<not> is_digit (CHR ''o'')" "\<not> is_digit (CHR ''b'')"
      by (simp_all add: is_digit_def dig_val_def)
    ultimately show ?thesis by auto
  qed
  have digits: "digits 10 n = hd (digits 10 n) # tl (digits 10 n)" "hd (digits 10 n) \<noteq> CHR ''-''" "hd (digits 10 n) \<noteq> CHR ''+''" for n
    using digits_ne [of 10 n] solid [of n] by (auto intro: hd_in_set)
  have val: "based_digits 10 (digits 10 n) = Some (int n)" for n
    using d [of n] digits_ne [of 10 n] by (simp add: based_digits_def of_digits_digits)
  show ?thesis
  proof (cases "k < 0")
    case True
    obtain c r where u: "digits 10 (nat (- k)) = c # r" by (cases "digits 10 (nat (- k))") (simp_all add: digits_ne)
    have "lower_char (CHR ''-'') = CHR ''-''" by (simp add: lower_char_def)
    then have "toLowerCase (take 2 (CHR ''-'' # digits 10 (nat (- k)))) \<notin> {''0x'', ''0o'', ''0b''}"
      by (simp add: u toLowerCase_def)
    then show ?thesis using True val [of "nat (- k)"] by (simp add: int_to_dec_def js_BigInt_def trim Let_def)
  next
    case False
    then show ?thesis using head [of "nat k"] digits [of "nat k"] digits_ne [of 10 "nat k"] val [of "nat k"]
      by (simp add: int_to_dec_def js_BigInt_def trim Let_def)
  qed
qed

section \<open>Base58 texts\<close>

text \<open>The text of an identifier that Base58check gives and reads back.\<close>

definition id_text :: "libs \<Rightarrow> TezosIDType \<Rightarrow> byte list \<Rightarrow> string \<Rightarrow> bool" where
  "id_text L t payload s \<longleftrightarrow> length payload = fst (tezosPrefix t) \<and> s = bs58_encode L (snd (tezosPrefix t) @ payload) \<and>
     bs58_decode L s = Some (snd (tezosPrefix t) @ payload)"

lemma encode_id: "id_text L t payload s \<Longrightarrow> encodeTezosID L t payload = Inr s"
  by (cases "tezosPrefix t") (simp add: id_text_def encodeTezosID_def encodeBase58Check_def)

text \<open>Which type of a list is found: a payload of one type has no prefix of an earlier one.\<close>

definition apart :: "TezosIDType \<Rightarrow> TezosIDType \<Rightarrow> bool" where
  "apart u t \<longleftrightarrow>
     (let (n, p) = tezosPrefix u; (m, q) = tezosPrefix t in
      n + length p \<noteq> m + length q \<or> length p \<le> length q \<and> take (length p) q \<noteq> p)"

fun distinct_ids :: "TezosIDType list \<Rightarrow> bool" where
  "distinct_ids [] \<longleftrightarrow> True"
| "distinct_ids (u # ts) \<longleftrightarrow> list_all (apart u) ts \<and> distinct_ids ts"

lemma match_id_finds:
  assumes "t \<in> set ts" and "distinct_ids ts" and "length payload = fst (tezosPrefix t)"
  shows "match_id (snd (tezosPrefix t) @ payload) ts = Some (t, payload)"
  using assms
proof (induction ts)
  case (Cons u ts)
  obtain n p where u: "tezosPrefix u = (n, p)" by fastforce
  obtain m q where t: "tezosPrefix t = (m, q)" by fastforce
  show ?case
  proof (cases "u = t")
    case False
    then have "t \<in> set ts" using Cons.prems(1) by simp
    moreover from this have "apart u t" using Cons.prems(2) by (simp add: list_all_iff)
    ultimately show ?thesis using Cons.IH Cons.prems(2,3) by (auto simp: u t apart_def)
  qed (use Cons.prems(3) u in simp)
qed simp

lemma decode_id:
  assumes "id_text L t payload s" and "t \<in> set ts" and "distinct_ids ts"
  shows "checkDecodeTezosID L s ts = Inr (Some (t, payload))"
proof -
  have "decodeBase58Check L s = Inr (snd (tezosPrefix t) @ payload)"
    using assms(1) by (auto simp: id_text_def decodeBase58Check_def)
  moreover have "length payload = fst (tezosPrefix t)" using assms(1) by (simp add: id_text_def)
  ultimately show ?thesis using match_id_finds [OF assms(2,3)] by (simp add: checkDecodeTezosID_def)
qed

lemma ids_distinct:
  "distinct_ids [ChainID]"
  "distinct_ids [ED25519Signature, SECP256K1Signature, P256Signature, GenericSignature]"
  "distinct_ids [ED25519PublicKeyHash, SECP256K1PublicKeyHash, P256PublicKeyHash]"
  "distinct_ids [ED25519PublicKey, SECP256K1PublicKey, P256PublicKey]"
  "distinct_ids [ED25519PublicKeyHash, SECP256K1PublicKeyHash, P256PublicKeyHash, ContractHash]"
  by (simp_all add: apart_def)

section \<open>Values of the leaf types\<close>

lemma split_acc_steps:
  "split_acc [c] acc [] = [acc]"
  "split_acc [c] acc (a # u) = (if a = c then acc # split_acc [c] [] u else split_acc [c] (acc @ [a]) u)"
  by (subst split_acc.simps; simp add: startsWith_def)+

lemma split_acc_plain: "c \<notin> set s \<Longrightarrow> split_acc [c] acc s = [acc @ s]"
  by (induction s arbitrary: acc) (auto simp: split_acc_steps)

lemma split_acc_at: "c \<notin> set s \<Longrightarrow> split_acc [c] acc (s @ c # t) = (acc @ s) # split_acc [c] [] t"
  by (induction s arbitrary: acc) (auto simp: split_acc_steps)

lemma split_percent:
  "CHR ''%'' \<notin> set s \<Longrightarrow> js_split ''%'' s = [s]"
  "CHR ''%'' \<notin> set s \<Longrightarrow> CHR ''%'' \<notin> set t \<Longrightarrow> js_split ''%'' (s @ CHR ''%'' # t) = [s, t]"
  by (simp_all add: js_split_def split_acc_plain split_acc_at)

text \<open>An entrypoint as it may follow an address, and the text after the address.\<close>

definition entrypoint_ok :: "string \<Rightarrow> bool" where
  "entrypoint_ok ep \<longleftrightarrow> ep = [] \<or> ep \<noteq> ''default'' \<and> CHR ''%'' \<notin> set ep \<and> text_decode (utf8_encode ep) = ep"

definition after_address :: "string \<Rightarrow> string" where
  "after_address ep = (if ep = [] then [] else CHR ''%'' # ep)"

definition key_hash_ids :: "(byte \<times> TezosIDType) list" where
  "key_hash_ids = [(0, ED25519PublicKeyHash), (1, SECP256K1PublicKeyHash), (2, P256PublicKeyHash)]"

definition key_ids :: "(byte \<times> TezosIDType) list" where
  "key_ids = [(0, ED25519PublicKey), (1, SECP256K1PublicKey), (2, P256PublicKey)]"

text \<open>The texts of the leaf types with the bytes they are packed as.\<close>

inductive leaf_text :: "libs \<Rightarrow> string \<Rightarrow> string \<Rightarrow> byte list \<Rightarrow> bool" for L where
  chain: "id_text L ChainID pl s \<Longrightarrow> leaf_text L ''chain_id'' s pl"
| signature: "id_text L GenericSignature pl s \<Longrightarrow> leaf_text L ''signature'' s pl"
| key_hash: "(b, t) \<in> set key_hash_ids \<Longrightarrow> id_text L t pl s \<Longrightarrow> leaf_text L ''key_hash'' s (b # pl)"
| key: "(b, t) \<in> set key_ids \<Longrightarrow> id_text L t pl s \<Longrightarrow> leaf_text L ''key'' s (b # pl)"
| implicit: "(b, t) \<in> set key_hash_ids \<Longrightarrow> id_text L t pl s \<Longrightarrow> CHR ''%'' \<notin> set s \<Longrightarrow> entrypoint_ok ep \<Longrightarrow>
    leaf_text L ''address'' (s @ after_address ep) (0 # b # pl @ utf8_encode ep)"
| originated: "id_text L ContractHash pl s \<Longrightarrow> CHR ''%'' \<notin> set s \<Longrightarrow> entrypoint_ok ep \<Longrightarrow>
    leaf_text L ''address'' (s @ after_address ep) (1 # pl @ 0 # utf8_encode ep)"

lemma within_new [simp]: "within (new_reader bs) bs"
  by (auto simp: within_def rahead_def new_reader_def window_def rd_length_def)

lemma id_lengths:
  "(b, t) \<in> set key_hash_ids \<Longrightarrow> fst (tezosPrefix t) = 20"
  "(b, t) \<in> set key_hash_ids \<Longrightarrow> t \<in> set [ED25519PublicKeyHash, SECP256K1PublicKeyHash, P256PublicKeyHash]"
  "(b, t) \<in> set key_ids \<Longrightarrow> t \<in> set [ED25519PublicKey, SECP256K1PublicKey, P256PublicKey]"
  by (auto simp: key_hash_ids_def key_ids_def)

lemma write_key_hash:
  "(b, t) \<in> set key_hash_ids \<Longrightarrow>
     writePublicKeyHash \<lparr>addr_type = t, addr_hash = pl, entryPoint = ep\<rparr> w = Inr (writeBytes (b # pl) w)"
  by (auto simp: key_hash_ids_def writePublicKeyHash_def byte_of_def)

lemma write_key:
  "(b, t) \<in> set key_ids \<Longrightarrow> writePublicKey \<lparr>pk_type = t, publicKey = pl\<rparr> w = Inr (writeBytes (b # pl) w)"
  by (auto simp: key_ids_def writePublicKey_def byte_of_def)

lemma read_key_hash:
  assumes "(b, t) \<in> set key_hash_ids" and "rahead r (b # pl)" and "length pl = 20"
  shows "readPublicKeyHash r = Inr (\<lparr>addr_type = t, addr_hash = pl, entryPoint = None\<rparr>, radv (length (b # pl)) r)"
proof -
  note a = readExpr_tag [OF assms(2)]
  show ?thesis using assms(1,3) a(1) readBytes_ahead [OF a(2), of 20]
    by (auto simp: key_hash_ids_def readPublicKeyHash_def Let_def)
qed

lemma read_key:
  assumes "(b, t) \<in> set key_ids" and "rahead r (b # pl)" and "length pl = fst (tezosPrefix t)"
  shows "readPublicKey r = Inr (\<lparr>pk_type = t, publicKey = pl\<rparr>, radv (length (b # pl)) r)"
proof -
  note a = readExpr_tag [OF assms(2)]
  show ?thesis using assms(1,3) a(1) readBytes_ahead [OF a(2)]
    by (auto simp: key_ids_def readPublicKey_def Let_def)
qed

lemma read_entrypoint:
  assumes "within r (utf8_encode ep)" and "entrypoint_ok ep"
  shows "(if rd_length r \<noteq> 0 then
       bindR (readBytes (rd_length r) r) (\<lambda>(bs, rd3). Inr (a\<lparr>entryPoint := Some (text_decode bs)\<rparr>, rd3))
     else Inr (a, r)) =
     Inr (if ep = [] then a else a\<lparr>entryPoint := Some ep\<rparr>, radv (length (utf8_encode ep)) r)"
  using assms readBytes_ahead [of r "utf8_encode ep"]
  by (auto simp: within_def entrypoint_ok_def utf8_encode_def)

lemma id_length: "id_text L t pl s \<Longrightarrow> length pl = fst (tezosPrefix t)"
  by (simp add: id_text_def)

lemma readAddress_parts:
  assumes "readUint8 rd = Inr (tag, rd1)"
    and "(if tag = 0 then readPublicKeyHash rd1
            else if tag = 1 then
              bindR (readBytes 20 rd1) (\<lambda>(h, rd2).
              bindR (readBytes 1 rd2) (\<lambda>(_, rd3).
              Inr (\<lparr>addr_type = ContractHash, addr_hash = h, entryPoint = None\<rparr>, rd3)))
            else Inl (UnknownTag tag)) = Inr (a, rd2)"
    and "within rd2 (utf8_encode ep)" and "entrypoint_ok ep"
  shows "readAddress rd = Inr (if ep = [] then a else a\<lparr>entryPoint := Some ep\<rparr>, radv (length (utf8_encode ep)) rd2)"
  unfolding readAddress_def by (simp only: assms(1,2) bindR_simps prod.case read_entrypoint [OF assms(3,4)])

lemma read_address_implicit:
  assumes "(b, t) \<in> set key_hash_ids" "length pl = 20" "entrypoint_ok ep"
  shows "\<exists>r. readAddress (new_reader (0 # b # pl @ utf8_encode ep)) =
     Inr (\<lparr>addr_type = t, addr_hash = pl, entryPoint = (if ep = [] then None else Some ep)\<rparr>, r)"
proof -
  let ?r = "new_reader (0 # b # pl @ utf8_encode ep)"
  have w: "within ?r (0 # b # pl @ utf8_encode ep)" by simp
  then have "rahead ?r (0 # b # pl @ utf8_encode ep)" by (simp add: within_def)
  note a = readExpr_tag [OF this]
  have b: "rahead (radv 1 ?r) (b # pl)" "within (radv 22 ?r) (utf8_encode ep)"
  proof -
    have "rahead (radv 1 ?r) ((b # pl) @ utf8_encode ep)" using a(2) by simp
    then show "rahead (radv 1 ?r) (b # pl)" by (simp only: rahead_append)
    have "rahead (radv (length (b # pl)) (radv 1 ?r)) (utf8_encode ep)"
      using \<open>rahead (radv 1 ?r) ((b # pl) @ utf8_encode ep)\<close> unfolding rahead_append by simp
    then show "within (radv 22 ?r) (utf8_encode ep)" using w assms(2) by (simp add: within_def)
  qed
  show ?thesis
    using readAddress_parts [OF a(1) _ b(2) assms(3), of "\<lparr>addr_type = t, addr_hash = pl, entryPoint = None\<rparr>"]
      read_key_hash [OF assms(1) b(1) assms(2)] assms(2) by auto
qed

lemma read_address_originated:
  assumes "length pl = 20" "entrypoint_ok ep"
  shows "\<exists>r. readAddress (new_reader (1 # pl @ 0 # utf8_encode ep)) =
     Inr (\<lparr>addr_type = ContractHash, addr_hash = pl, entryPoint = (if ep = [] then None else Some ep)\<rparr>, r)"
proof -
  let ?r = "new_reader (1 # pl @ 0 # utf8_encode ep)"
  have w: "within ?r (1 # pl @ 0 # utf8_encode ep)" by simp
  then have "rahead ?r (1 # pl @ 0 # utf8_encode ep)" by (simp add: within_def)
  note a = readExpr_tag [OF this]
  have b: "rahead (radv 1 ?r) pl" "rahead (radv 21 ?r) [0]" "within (radv 22 ?r) (utf8_encode ep)"
  proof -
    have s: "pl @ 0 # utf8_encode ep = pl @ [0] @ utf8_encode ep" by simp
    have "rahead (radv 1 ?r) pl" "rahead (radv 21 ?r) [0]" "rahead (radv 22 ?r) (utf8_encode ep)"
      using a(2) assms(1) unfolding s rahead_append by simp_all
    then show "rahead (radv 1 ?r) pl" "rahead (radv 21 ?r) [0]" "within (radv 22 ?r) (utf8_encode ep)"
      using w assms(1) by (simp_all add: within_def)
  qed
  show ?thesis
    using readAddress_parts [OF a(1) _ b(3) assms(2), of "\<lparr>addr_type = ContractHash, addr_hash = pl, entryPoint = None\<rparr>"]
      readBytes_ahead [OF b(1) assms(1)] readBytes_ahead [OF b(2), of 1] by auto
qed

lemma write_address_leaf:
  assumes "prim_of t = ''address''" and "CHR ''%'' \<notin> set s" and "entrypoint_ok ep" and "id_text L i pl s"
    and "i \<in> set [ED25519PublicKeyHash, SECP256K1PublicKeyHash, P256PublicKeyHash, ContractHash]"
    and "\<And>e. (e = None \<and> ep = [] \<or> e = Some ep \<and> ep \<noteq> [] \<and> ep \<noteq> ''default'') \<Longrightarrow>
      writeAddress \<lparr>addr_type = i, addr_hash = pl, entryPoint = e\<rparr> new_writer = Inr (writeBytes bs new_writer)"
  shows "write_leaf L t (StringLit (s @ after_address ep)) = Inr (BytesLit (hexOf bs))"
proof -
  note d = decode_id [OF assms(4,5) ids_distinct(5)]
  show ?thesis
  proof (cases "ep = []")
    case True
    then show ?thesis using assms(6) [of None]
      by (simp add: write_leaf_def assms(1) base58_bytes_def after_address_def split_percent assms(2) d hexBytes_hexOf Let_def)
  next
    case False
    then have "CHR ''%'' \<notin> set ep" "ep \<noteq> ''default''" using assms(3) by (auto simp: entrypoint_ok_def)
    then show ?thesis using assms(6) [of "Some ep"] False
      by (simp add: write_leaf_def assms(1) base58_bytes_def after_address_def split_percent assms(2) d hexBytes_hexOf Let_def)
  qed
qed

lemma addr_text_after:
  "id_text L i pl s \<Longrightarrow> addr_text L \<lparr>addr_type = i, addr_hash = pl, entryPoint = (if ep = [] then None else Some ep)\<rparr> =
     Inr (StringLit (s @ after_address ep))"
  by (simp add: addr_text_def encode_id after_address_def)

lemma leaf_text_codec:
  assumes "leaf_text L p s bs" and "prim_of t = p"
  shows "write_leaf L t (StringLit s) = Inr (BytesLit (hexOf bs))" "read_leaf L t (BytesLit (hexOf bs)) = Inr (StringLit s)"
proof -
  have "write_leaf L t (StringLit s) = Inr (BytesLit (hexOf bs)) \<and> read_leaf L t (BytesLit (hexOf bs)) = Inr (StringLit s)"
    using assms
  proof cases
    case chain
    then show ?thesis using decode_id [OF chain(2) _ ids_distinct(1)] encode_id [OF chain(2)] assms(2)
      by (simp add: write_leaf_def read_leaf_def base58_bytes_def hexBytes_hexOf parseBytes_hexOf Let_def)
  next
    case signature
    then show ?thesis using decode_id [OF signature(2) _ ids_distinct(2)] encode_id [OF signature(2)] assms(2)
      by (simp add: write_leaf_def read_leaf_def base58_bytes_def hexBytes_hexOf parseBytes_hexOf Let_def)
  next
    case (key_hash b i pl)
    note len = id_length [OF key_hash(4)] id_lengths(1) [OF key_hash(3)]
    have "rahead (new_reader (b # pl)) (b # pl)" using within_new [of "b # pl"] by (simp only: within_def)
    from read_key_hash [OF key_hash(3) this] len key_hash
      decode_id [OF key_hash(4) id_lengths(2) [OF key_hash(3)] ids_distinct(3)] assms(2)
    show ?thesis
      by (simp add: write_leaf_def read_leaf_def base58_bytes_def hexBytes_hexOf parseBytes_hexOf write_key_hash [OF key_hash(3)]
          addr_text_def encode_id [OF key_hash(4)] Let_def del: hexOf_simps)
  next
    case (key b i pl)
    note len = id_length [OF key(4)]
    have "rahead (new_reader (b # pl)) (b # pl)" using within_new [of "b # pl"] by (simp only: within_def)
    from read_key [OF key(3) this] len key
      decode_id [OF key(4) id_lengths(3) [OF key(3)] ids_distinct(4)] assms(2)
    show ?thesis
      by (simp add: write_leaf_def read_leaf_def base58_bytes_def hexBytes_hexOf parseBytes_hexOf write_key [OF key(3)]
          encode_id [OF key(4)] Let_def del: hexOf_simps)
  next
    case (implicit b i pl u ep)
    have len: "length pl = 20" using id_length [OF implicit(5)] id_lengths(1) [OF implicit(4)] by simp
    have "write_leaf L t (StringLit (u @ after_address ep)) = Inr (BytesLit (hexOf bs))"
    proof (rule write_address_leaf [OF _ implicit(6,7,5)])
      show "prim_of t = ''address''" using assms(2) implicit(1) by simp
      show "i \<in> set [ED25519PublicKeyHash, SECP256K1PublicKeyHash, P256PublicKeyHash, ContractHash]"
        using id_lengths(2) [OF implicit(4)] by auto
      have "i \<noteq> ContractHash" using implicit(4) by (auto simp: key_hash_ids_def)
      then show "writeAddress \<lparr>addr_type = i, addr_hash = pl, entryPoint = e\<rparr> new_writer = Inr (writeBytes bs new_writer)"
        if "e = None \<and> ep = [] \<or> e = Some ep \<and> ep \<noteq> [] \<and> ep \<noteq> ''default''" for e
        using that implicit(3) by (auto simp: writeAddress_def write_key_hash [OF implicit(4)] utf8_encode_def)
    qed
    then show ?thesis
      using read_address_implicit [OF implicit(4) len implicit(7)] assms(2) implicit(1-3) addr_text_after [OF implicit(5), of ep]
      by (auto simp: read_leaf_def parseBytes_hexOf Let_def simp del: hexOf_simps)
  next
    case (originated pl u ep)
    have len: "length pl = 20" using id_length [OF originated(4)] by simp
    have "write_leaf L t (StringLit (u @ after_address ep)) = Inr (BytesLit (hexOf bs))"
    proof (rule write_address_leaf [OF _ originated(5,6,4)])
      show "prim_of t = ''address''" using assms(2) originated(1) by simp
      show "writeAddress \<lparr>addr_type = ContractHash, addr_hash = pl, entryPoint = e\<rparr> new_writer = Inr (writeBytes bs new_writer)"
        if "e = None \<and> ep = [] \<or> e = Some ep \<and> ep \<noteq> [] \<and> ep \<noteq> ''default''" for e
        using that originated(3) by (auto simp: writeAddress_def utf8_encode_def)
    qed simp
    then show ?thesis
      using read_address_originated [OF len originated(6)] assms(2) originated(1-3) addr_text_after [OF originated(4), of ep]
      by (auto simp: read_leaf_def parseBytes_hexOf Let_def simp del: hexOf_simps)
  qed
  then show "write_leaf L t (StringLit s) = Inr (BytesLit (hexOf bs))" "read_leaf L t (BytesLit (hexOf bs)) = Inr (StringLit s)"
    by blast+
qed

end
