(* ===== verification/PackRoundTrip.thy ===== *)
theory PackRoundTrip
  imports PackLeaves Demo
begin

text \<open>
  The round trip of \<open>PACK\<close>: the data of a type that are in the form unpacking gives
  (\<open>readable\<close>), and that packing and unpacking them at this type gives them back.  The proof is an
  induction over \<open>readable\<close>; it carries along that the bytes written for a type can be read
  without the type too, which the first of the two passes of \<open>readExpr\<close> does.
\<close>

section \<open>Data that unpacking gives\<close>

definition plain_type :: "expr \<Rightarrow> bool" where
  "plain_type t \<longleftrightarrow> \<not> isPairType t \<and> \<not> in_list (prim_of t) ([''or'', ''option'', ''list'', ''set'', ''map''] @ leaf_types)"

inductive readable :: "libs \<Rightarrow> wtf \<Rightarrow> expr \<Rightarrow> bool" for L where
  r_int: "readable L WPass (IntLit (int_to_dec k))"
| r_string: "text_decode (utf8_encode s) = s \<Longrightarrow> readable L WPass (StringLit s)"
| r_bytes: "readable L WPass (BytesLit (hexOf bs))"
| r_seq: "(\<And>x. x \<in> set xs \<Longrightarrow> readable L WPass x) \<Longrightarrow> readable L WPass (Seq xs)"
| r_prim0: "primTags p = Some k \<Longrightarrow> p \<noteq> ''PUSH'' \<Longrightarrow> annots_ok an \<Longrightarrow> readable L WPass (Prim p None an)"
| r_prim: "primTags p = Some k \<Longrightarrow> p \<noteq> ''PUSH'' \<Longrightarrow> annots_ok an \<Longrightarrow> xs \<noteq> [] \<Longrightarrow>
    (\<And>x. x \<in> set xs \<Longrightarrow> readable L WPass x) \<Longrightarrow> readable L WPass (Prim p (Some xs) an)"
| r_push: "assertMichelsonPushableType t = Inr () \<Longrightarrow> assertMichelsonData v = Inr () \<Longrightarrow> annots_ok an \<Longrightarrow>
    readable L WPass t \<Longrightarrow> readable L (WTyped t) v \<Longrightarrow> readable L WPass (Prim ''PUSH'' (Some [t, v]) an)"
| r_pair: "isPairType t \<Longrightarrow> unpackComb ''pair'' t = Inr ([Some t1, Some t2], a) \<Longrightarrow>
    readable L (WTyped t1) x \<Longrightarrow> readable L (WTyped t2) y \<Longrightarrow> readable L (WTyped t) (Prim ''Pair'' (Some [x, y]) None)"
| r_or: "prim_of t = ''or'' \<Longrightarrow> (p, i) \<in> {(''Left'', 0), (''Right'', 1)} \<Longrightarrow> arg_at (type_args t) i = Some t1 \<Longrightarrow>
    annots_ok an \<Longrightarrow> readable L (WTyped t1) x \<Longrightarrow> readable L (WTyped t) (Prim p (Some [x]) an)"
| r_some: "prim_of t = ''option'' \<Longrightarrow> arg_at (type_args t) 0 = Some t1 \<Longrightarrow> annots_ok an \<Longrightarrow>
    readable L (WTyped t1) x \<Longrightarrow> readable L (WTyped t) (Prim ''Some'' (Some [x]) an)"
| r_none: "prim_of t = ''option'' \<Longrightarrow> annots_ok an \<Longrightarrow> readable L (WTyped t) (Prim ''None'' None an)"
| r_list: "prim_of t = ''list'' \<or> prim_of t = ''set'' \<Longrightarrow> arg_at (type_args t) 0 = Some t1 \<Longrightarrow>
    (\<And>x. x \<in> set xs \<Longrightarrow> readable L (WTyped t1) x) \<Longrightarrow> readable L (WTyped t) (Seq xs)"
| r_map: "prim_of t = ''map'' \<Longrightarrow> (\<And>x. x \<in> set xs \<Longrightarrow> readable L (WElt t) x) \<Longrightarrow> readable L (WTyped t) (Seq xs)"
| r_elt: "type_args t = Some [t1, t2] \<Longrightarrow> annots_ok an \<Longrightarrow> readable L (WTyped t1) x \<Longrightarrow> readable L (WTyped t2) y \<Longrightarrow>
    readable L (WElt t) (Prim ''Elt'' (Some [x, y]) an)"
| r_leaf: "leaf_text L (prim_of t) s bs \<Longrightarrow> readable L (WTyped t) (StringLit s)"
| r_time: "prim_of t = ''timestamp'' \<Longrightarrow> date_range sec \<Longrightarrow> toISOString (sec * 1000) = Some u \<Longrightarrow>
    readable L (WTyped t) (StringLit (take 19 u @ ''Z''))"
| r_other: "plain_type t \<Longrightarrow> readable L WPass d \<Longrightarrow> readable L (WTyped t) d"

fun rtf_of :: "wtf \<Rightarrow> rtf" where
  "rtf_of WPass = RPass"
| "rtf_of (WTyped t) = RTyped t"
| "rtf_of (WElt t) = RElt t"

text \<open>What the first pass reads is as valid as the value itself.\<close>

definition part_valid :: "expr \<Rightarrow> bool" where
  "part_valid d \<longleftrightarrow>
     (if isEltData d
      then (\<exists>a b. type_args d = Some [a, b] \<and> assertMichelsonData a = Inr () \<and> assertMichelsonData b = Inr ())
      else assertMichelsonData d = Inr ())"

definition raw_of :: "expr \<Rightarrow> expr \<Rightarrow> bool" where
  "raw_of d d1 \<longleftrightarrow> isEltData d1 = isEltData d \<and> (part_valid d \<longrightarrow> part_valid d1)"

lemma raw_refl [simp]: "raw_of d d"
  by (simp add: raw_of_def)

definition packs :: "libs \<Rightarrow> wtf \<Rightarrow> expr \<Rightarrow> bool" where
  "packs L tf d \<longleftrightarrow> (\<exists>bs. emits L tf d bs \<and>
     (length bs < 2 ^ 32 \<longrightarrow> yields L (rtf_of tf) bs d \<and> (\<exists>d1. yields L RPass bs d1 \<and> raw_of d d1)))"

lemma packs_pass: "emits L WPass d bs \<Longrightarrow> (length bs < 2 ^ 32 \<Longrightarrow> yields L RPass bs d) \<Longrightarrow> packs L WPass d"
  unfolding packs_def by (metis raw_refl rtf_of.simps(1))

lemma packs_items:
  assumes "length fs = length xs" and "\<And>f x. (f, x) \<in> set (zip fs xs) \<Longrightarrow> packs L f x"
  shows "\<exists>bss. length bss = length xs \<and> emits_all L fs xs bss \<and>
     (length (concat bss) < 2 ^ 32 \<longrightarrow> yields_all L (map rtf_of fs) bss xs \<and>
        (\<exists>ds. yields_all L (replicate (length bss) RPass) bss ds \<and> list_all2 raw_of xs ds))"
  using assms
proof (induction fs xs rule: list_induct2)
  case Nil
  show ?case by (rule exI [of _ "[]"]) (simp add: exI [of _ "[]"])
next
  case (Cons f fs x xs)
  obtain bs where bs: "emits L f x bs"
    "length bs < 2 ^ 32 \<longrightarrow> yields L (rtf_of f) bs x \<and> (\<exists>d1. yields L RPass bs d1 \<and> raw_of x d1)"
    using Cons.prems [of f x] by (auto simp: packs_def)
  obtain bss where bss: "length bss = length xs" "emits_all L fs xs bss"
    "length (concat bss) < 2 ^ 32 \<longrightarrow> yields_all L (map rtf_of fs) bss xs \<and>
        (\<exists>ds. yields_all L (replicate (length bss) RPass) bss ds \<and> list_all2 raw_of xs ds)"
    using Cons.IH [OF Cons.prems] by (metis list.set_intros(2) zip_Cons_Cons)
  show ?case
  proof (intro exI [of _ "bs # bss"] conjI impI)
    assume "length (concat (bs # bss)) < 2 ^ 32"
    then have l: "length bs < 2 ^ 32" "length (concat bss) < 2 ^ 32" by simp_all
    then show "yields_all L (map rtf_of (f # fs)) (bs # bss) (x # xs)" using bs(2) bss(3) by simp
    from l obtain d1 ds where "yields L RPass bs d1" "raw_of x d1"
      "yields_all L (replicate (length bss) RPass) bss ds" "list_all2 raw_of xs ds" using bs(2) bss(3) by blast
    then show "\<exists>ds. yields_all L (replicate (length (bs # bss)) RPass) (bs # bss) ds \<and> list_all2 raw_of (x # xs) ds"
      by (intro exI [of _ "d1 # ds"]) simp
  qed (use bs(1) bss(1,2) in simp_all)
qed

lemma yields_unique: "yields L tf bs d \<Longrightarrow> yields L tf bs e \<Longrightarrow> d = e"
proof -
  assume *: "yields L tf bs d" "yields L tf bs e"
  have "rahead (new_reader bs) bs" using within_new [of bs] by (simp only: within_def)
  then show "d = e" using yieldsD [OF *(1), of "new_reader bs"] yieldsD [OF *(2), of "new_reader bs"] by fastforce
qed

lemma short_body:
  "length (prim_bytes k (Some xs) an (concat bss)) < n \<Longrightarrow> length (concat bss) < n"
  "length (seq_bytes (concat bss)) < n \<Longrightarrow> length (concat bss) < n"
  by (auto simp: prim_bytes_def seq_bytes_def split: if_splits)

lemma annots_none [simp]: "annots_ok None"
  by (simp add: annots_ok_def)

lemma node_prim:
  assumes "apply_write L tf (Prim p (Some xs) an) = Inr (Prim p (Some xs) an, it)" and "gives it fs"
    and "length fs = length xs" and "xs \<noteq> []" and "primTags p = Some k" and "annots_ok an" and "p \<noteq> ''PUSH''"
    and "\<And>f x. (f, x) \<in> set (zip fs xs) \<Longrightarrow> packs L f x"
    and "\<And>ds. length ds = length xs \<Longrightarrow> \<exists>it. apply_args (rtf_of tf) (Prim p (Some ds) None) = Inr it \<and> gives it (map rtf_of fs)"
    and "apply_res L (rtf_of tf) (Prim p (Some xs) an) = Inr (Prim p (Some xs) an)"
    and "\<And>ds. tf \<noteq> WPass \<Longrightarrow> list_all2 raw_of xs ds \<Longrightarrow> raw_of (Prim p (Some xs) an) (Prim p (Some ds) an)"
  shows "packs L tf (Prim p (Some xs) an)"
proof -
  obtain bss where bss: "length bss = length xs" "emits_all L fs xs bss"
    "length (concat bss) < 2 ^ 32 \<longrightarrow> yields_all L (map rtf_of fs) bss xs \<and>
        (\<exists>ds. yields_all L (replicate (length bss) RPass) bss ds \<and> list_all2 raw_of xs ds)"
    using packs_items [OF assms(3,8)] by blast
  let ?bs = "prim_bytes k (Some xs) an (concat bss)"
  have ne: "bss \<noteq> []" using bss(1) assms(4) by auto
  have pass: "apply_args RPass (Prim p (Some ds) None) = Inr (Forever RPass)" for ds
    using assms(7) by (simp add: readPassThrough_args_def isPushInstruction_def)
  show ?thesis
    unfolding packs_def
  proof (intro exI [of _ ?bs] conjI impI)
    show "emits L tf (Prim p (Some xs) an) ?bs" by (rule emits_prim [OF assms(1,5,2) bss(2)])
    assume short: "length ?bs < 2 ^ 32"
    then have typed: "yields_all L (map rtf_of fs) bss xs"
      and "\<exists>ds. yields_all L (replicate (length bss) RPass) bss ds \<and> list_all2 raw_of xs ds"
      using bss(3) short_body(1) by blast+
    then obtain ds where ds: "yields_all L (replicate (length bss) RPass) bss ds" "list_all2 raw_of xs ds" by blast
    have len: "length ds = length xs" using ds(2) by (simp add: list_all2_lengthD)
    obtain jt where jt: "apply_args (rtf_of tf) (Prim p (Some ds) None) = Inr jt" "gives jt (map rtf_of fs)"
      using assms(9) [OF len] by blast
    obtain kt where kt: "apply_args (rtf_of tf) (Prim p (Some xs) None) = Inr kt" using assms(9) [of xs] by auto
    show same: "yields L (rtf_of tf) ?bs (Prim p (Some xs) an)"
      by (rule yields_prim [OF assms(5,6) short bss(1) [symmetric] ne ds(1) jt typed kt assms(10)])
    have "yields L RPass ?bs (Prim p (Some ds) an)"
      by (rule yields_prim [OF assms(5,6) short bss(1) [symmetric] ne ds(1) pass gives_forever(1) ds(1) pass]) simp
    then show "\<exists>d1. yields L RPass ?bs d1 \<and> raw_of (Prim p (Some xs) an) d1"
      using assms(11) [OF _ ds(2)] same by (cases "tf = WPass") auto
  qed
qed

lemma node_seq:
  assumes "apply_write L tf (Seq xs) = Inr (Seq xs, it)" and "gives it fs" and "length fs = length xs"
    and "\<And>f x. (f, x) \<in> set (zip fs xs) \<Longrightarrow> packs L f x"
    and "\<And>ds. length ds = length xs \<Longrightarrow> \<exists>it. apply_args (rtf_of tf) (Seq ds) = Inr it \<and> gives it (map rtf_of fs)"
    and "apply_res L (rtf_of tf) (Seq xs) = Inr (Seq xs)"
    and "\<And>ds. list_all2 raw_of xs ds \<Longrightarrow> raw_of (Seq xs) (Seq ds)"
  shows "packs L tf (Seq xs)"
proof -
  obtain bss where bss: "length bss = length xs" "emits_all L fs xs bss"
    "length (concat bss) < 2 ^ 32 \<longrightarrow> yields_all L (map rtf_of fs) bss xs \<and>
        (\<exists>ds. yields_all L (replicate (length bss) RPass) bss ds \<and> list_all2 raw_of xs ds)"
    using packs_items [OF assms(3,4)] by blast
  let ?bs = "seq_bytes (concat bss)"
  have pass: "apply_args RPass (Seq ds) = Inr (Forever RPass)" for ds
    by (simp add: readPassThrough_args_def isPushInstruction_def)
  show ?thesis
    unfolding packs_def
  proof (intro exI [of _ ?bs] conjI impI)
    show "emits L tf (Seq xs) ?bs" by (rule emits_seq [OF assms(1,2) bss(2)])
    assume "length ?bs < 2 ^ 32"
    then have short: "length (concat bss) < 2 ^ 32" by (rule short_body(2))
    then have typed: "yields_all L (map rtf_of fs) bss xs"
      and "\<exists>ds. yields_all L (replicate (length bss) RPass) bss ds \<and> list_all2 raw_of xs ds"
      using bss(3) by blast+
    then obtain ds where ds: "yields_all L (replicate (length bss) RPass) bss ds" "list_all2 raw_of xs ds" by blast
    have len: "length ds = length xs" using ds(2) by (simp add: list_all2_lengthD)
    obtain jt where jt: "apply_args (rtf_of tf) (Seq ds) = Inr jt" "gives jt (map rtf_of fs)"
      using assms(5) [OF len] by blast
    obtain kt where kt: "apply_args (rtf_of tf) (Seq xs) = Inr kt" using assms(5) [of xs] by auto
    show "yields L (rtf_of tf) ?bs (Seq xs)"
      by (rule yields_seq [OF short ds(1) jt typed kt assms(6)])
    have "yields L RPass ?bs (Seq ds)"
      by (rule yields_seq [OF short ds(1) pass gives_forever(1) ds(1) pass]) simp
    then show "\<exists>d1. yields L RPass ?bs d1 \<and> raw_of (Seq xs) d1" using assms(7) [OF ds(2)] by blast
  qed
qed

section \<open>Validity of what the first pass reads\<close>

declare assertMichelsonData.simps [simp del] assertMichelsonInstruction.simps [simp del]

lemma data_item: "assertMichelsonData d = Inr () \<Longrightarrow> \<not> isEltData d \<and> part_valid d"
proof -
  assume d: "assertMichelsonData d = Inr ()"
  have "\<not> isEltData d"
  proof
    assume "isEltData d"
    then obtain args an where e: "d = Prim ''Elt'' args an" by (auto simp: isEltData_def split: expr.splits)
    have "\<not> in_list ''Elt'' instructionIDs" "\<not> in_list ''Elt'' [''Unit'', ''True'', ''False'', ''None'']"
      "\<not> in_list ''Elt'' [''Left'', ''Right'', ''Some'']"
      by (simp_all add: in_list_def instructionIDs_def noArgInstructionIDs_def)
    then show False using d unfolding e by (simp add: assertMichelsonData.simps Let_def)
  qed
  then show ?thesis using d by (simp add: part_valid_def)
qed

lemma part_data: "\<not> isEltData d \<Longrightarrow> part_valid d \<longleftrightarrow> assertMichelsonData d = Inr ()"
  by (simp add: part_valid_def)

text \<open>A sequence is data when its items are, map elements or not.\<close>

lemma data_seq:
  "assertMichelsonData (Seq xs) = Inr () \<longleftrightarrow>
     (\<forall>x\<in>set xs. part_valid x) \<and> (filter isEltData xs = [] \<or> length (filter isEltData xs) = length xs)"
proof -
  have elt: "(\<lambda>n. case n of Prim p args an \<Rightarrow> p = ''Elt'' | _ \<Rightarrow> False) = isEltData"
    by (rule ext) (simp add: isEltData_def)
  have item: "(case n of
         Prim p args an \<Rightarrow>
           if p = ''Elt'' then
             (case args of
                Some [a, b] \<Rightarrow> bindR (assertMichelsonData a) (\<lambda>_. assertMichelsonData b)
              | _ \<Rightarrow> invalid n (ArgumentsExpected 2))
           else assertMichelsonData n
       | _ \<Rightarrow> assertMichelsonData n) = Inr () \<longleftrightarrow> part_valid n" for n
  proof (cases "isEltData n")
    case True
    then obtain args an where e: "n = Prim ''Elt'' args an" by (auto simp: isEltData_def split: expr.splits)
    show ?thesis unfolding e part_valid_def
      by (auto simp: isEltData_def type_args_def bindR_eq_Inr split: option.splits list.splits)
  next
    case False
    then show ?thesis by (cases n) (simp_all add: isEltData_def part_valid_def)
  qed
  show ?thesis
    by (simp add: assertMichelsonData.simps(4) elt bindR_eq_Inr eachR_Inr item Let_def)
qed

lemma raw_items:
  assumes "list_all2 raw_of xs ds"
  shows "length (filter isEltData ds) = length (filter isEltData xs)" "length ds = length xs"
    "(\<forall>x\<in>set xs. part_valid x) \<longrightarrow> (\<forall>x\<in>set ds. part_valid x)"
  using assms by (induction rule: list_all2_induct) (auto simp: raw_of_def)

lemma raw_seq: "list_all2 raw_of xs ds \<Longrightarrow> raw_of (Seq xs) (Seq ds)"
proof -
  assume "list_all2 raw_of xs ds"
  note i = raw_items [OF this]
  have "isEltData (Seq xs) = False" "isEltData (Seq ds) = False" by (simp_all add: isEltData_def)
  moreover have "filter isEltData ds = [] \<longleftrightarrow> filter isEltData xs = []" using i(1) by (metis length_0_conv)
  moreover have "part_valid (Seq zs) \<longleftrightarrow> (\<forall>x\<in>set zs. part_valid x) \<and>
      (filter isEltData zs = [] \<or> length (filter isEltData zs) = length zs)" for zs
    unfolding data_seq [symmetric] by (rule part_data) (simp add: isEltData_def)
  ultimately show ?thesis using i unfolding raw_of_def by metis
qed

lemma raw_data: "raw_of d d1 \<Longrightarrow> assertMichelsonData d = Inr () \<Longrightarrow> assertMichelsonData d1 = Inr ()"
  using data_item [of d] part_data [of d1] by (auto simp: raw_of_def)

lemma raw_data_all:
  "list_all2 raw_of xs ds \<Longrightarrow> \<forall>x\<in>set xs. assertMichelsonData x = Inr () \<Longrightarrow> \<forall>x\<in>set ds. assertMichelsonData x = Inr ()"
  by (induction rule: list_all2_induct) (auto dest: raw_data)

lemma data_pair: "assertMichelsonData (Prim ''Pair'' (Some xs) an) = Inr () \<longleftrightarrow>
    2 \<le> length xs \<and> (\<forall>x\<in>set xs. assertMichelsonData x = Inr ())"
  by (simp add: assertMichelsonData.simps in_list_def Let_def eachR_Inr)

lemma data_one: "p = ''Left'' \<or> p = ''Right'' \<or> p = ''Some'' \<Longrightarrow>
    assertMichelsonData (Prim p (Some [a]) an) = assertMichelsonData a"
  by (auto simp: assertMichelsonData.simps in_list_def Let_def)

lemma raw_pair: "list_all2 raw_of xs ds \<Longrightarrow> raw_of (Prim ''Pair'' (Some xs) an) (Prim ''Pair'' (Some ds) an)"
  using raw_data_all [of xs ds] raw_items(2) [of xs ds]
  unfolding raw_of_def part_valid_def data_pair by (simp add: isEltData_def)

lemma raw_one: "p = ''Left'' \<or> p = ''Right'' \<or> p = ''Some'' \<Longrightarrow> list_all2 raw_of [x] ds \<Longrightarrow>
    raw_of (Prim p (Some [x]) an) (Prim p (Some ds) an)"
proof -
  assume p: "p = ''Left'' \<or> p = ''Right'' \<or> p = ''Some''" and "list_all2 raw_of [x] ds"
  then obtain x1 where x1: "ds = [x1]" "raw_of x x1" by (auto simp: list_all2_Cons1)
  have "p \<noteq> ''Elt''" using p by auto
  then show ?thesis using raw_data [OF x1(2)] by (simp add: x1(1) raw_of_def part_valid_def data_one [OF p] isEltData_def)
qed

lemma raw_elt: "list_all2 raw_of [x, y] ds \<Longrightarrow> raw_of (Prim ''Elt'' (Some [x, y]) an) (Prim ''Elt'' (Some ds) an)"
proof -
  assume "list_all2 raw_of [x, y] ds"
  then obtain x1 y1 where d: "ds = [x1, y1]" "raw_of x x1" "raw_of y y1" by (auto simp: list_all2_Cons1)
  then show ?thesis using raw_data [OF d(2)] raw_data [OF d(3)]
    by (simp add: d(1) raw_of_def part_valid_def isEltData_def type_args_def)
qed

lemma push_valid:
  "assertMichelsonInstruction (Prim ''PUSH'' (Some [t, v]) an) = Inr () \<longleftrightarrow>
     assertMichelsonPushableType t = Inr () \<and> assertMichelsonData v = Inr ()"
proof -
  have "\<not> in_list ''PUSH'' noArgInstructionIDs" by (simp add: in_list_def noArgInstructionIDs_def)
  then show ?thesis by (simp add: assertMichelsonInstruction.simps in_list_def Let_def bindR_eq_Inr)
qed

lemma checked_Inr: "r = Inr () \<Longrightarrow> checked r = Inr ()"
  by (simp add: checked_def)

section \<open>The cases\<close>

lemma packs_push:
  assumes "assertMichelsonPushableType t = Inr ()" and "assertMichelsonData v = Inr ()" and "annots_ok an"
    and "packs L WPass t" and "packs L (WTyped t) v"
  shows "packs L WPass (Prim ''PUSH'' (Some [t, v]) an)"
proof -
  obtain k where k: "primTags ''PUSH'' = Some k" by (simp add: primTags_def primitives_def)
  have parts: "packs L f x" if "(f, x) \<in> set (zip [WPass, WTyped t] [t, v])" for f x
    using that assms(4,5) by auto
  have len: "length [WPass, WTyped t] = length [t, v]" by simp
  obtain bss where bss: "length bss = length [t, v]" "emits_all L [WPass, WTyped t] [t, v] bss"
    "length (concat bss) < 2 ^ 32 \<longrightarrow> yields_all L (map rtf_of [WPass, WTyped t]) bss [t, v] \<and>
        (\<exists>ds. yields_all L (replicate (length bss) RPass) bss ds \<and> list_all2 raw_of [t, v] ds)"
    using packs_items [OF len parts] by blast
  obtain b1 b2 where b: "bss = [b1, b2]" using bss(1) by (auto simp: length_Suc_conv)
  let ?bs = "prim_bytes k (Some [t, v]) an (concat bss)"
  have args: "apply_args RPass (Prim ''PUSH'' (Some [t, u]) None) = Inr (Finite [Some RPass, Some (RTyped t)])"
    if "assertMichelsonData u = Inr ()" for u
    using that assms(1) push_valid [of t u None]
    by (simp add: readPassThrough_args_def isPushInstruction_def checked_Inr type_args_def arg_at_def)
  show ?thesis
  proof (rule packs_pass)
    have "apply_write L WPass (Prim ''PUSH'' (Some [t, v]) an) =
        Inr (Prim ''PUSH'' (Some [t, v]) an, Finite (map Some [WPass, WTyped t]))"
      using assms(1,2) push_valid [of t v an]
      by (simp add: writePassThrough_def isPushInstruction_def checked_Inr type_args_def arg_at_def)
    then show "emits L WPass (Prim ''PUSH'' (Some [t, v]) an) ?bs" by (rule emits_prim [OF _ k gives_map bss(2)])
    assume short: "length ?bs < 2 ^ 32"
    then obtain ds where ds: "yields_all L (replicate (length bss) RPass) bss ds" "list_all2 raw_of [t, v] ds"
      and typed: "yields_all L (map rtf_of [WPass, WTyped t]) bss [t, v]"
      using bss(3) short_body(1) by blast
    obtain t1 v1 where d: "ds = [t1, v1]" "raw_of v v1" using ds(2) by (auto simp: list_all2_Cons1)
    have "t1 = t" using ds(1) typed yields_unique [of L RPass b1 t1 t] by (simp add: b d)
    then have first: "apply_args RPass (Prim ''PUSH'' (Some ds) None) = Inr (Finite (map Some [RPass, RTyped t]))"
      using args [OF raw_data [OF d(2) assms(2)]] by (simp add: d)
    have fs: "gives (Finite (map Some [RPass, RTyped t])) (map rtf_of [WPass, WTyped t])"
      using gives_map [of "[RPass, RTyped t]"] by simp
    show "yields L RPass ?bs (Prim ''PUSH'' (Some [t, v]) an)"
      by (rule yields_prim [OF k assms(3) short bss(1) [symmetric] _ ds(1) first fs typed args [OF assms(2)]]) (simp_all add: b)
  qed
qed

lemma packs_plain:
  assumes "plain_type t" and "packs L WPass d"
  shows "packs L (WTyped t) d"
proof -
  have p: "\<not> isPairType t" "prim_of t \<noteq> ''or''" "prim_of t \<noteq> ''option''" "prim_of t \<noteq> ''list''" "prim_of t \<noteq> ''set''"
    "prim_of t \<noteq> ''map''" "\<not> in_list (prim_of t) leaf_types"
    using assms(1) by (auto simp: plain_type_def in_list_def)
  have w: "apply_write L (WTyped t) d = apply_write L WPass d" by (simp add: write_typed_def p Let_def)
  have "writeExpr L (WTyped t) d w = writeExpr L WPass d w" for w
    unfolding writeExpr.simps [of L _ d w] w ..
  then have emit: "emits L (WTyped t) d bs = emits L WPass d bs" for bs by (simp add: emits_def)
  have args: "apply_args (RTyped t) e = apply_args RPass e" for e by (simp add: read_typed_args_def p Let_def)
  have res: "apply_res L (RTyped t) e = apply_res L RPass e" for e by (simp add: p)
  have "readExpr n L (RTyped t) r = readExpr n L RPass r" for n r
    by (cases n) (simp_all only: readExpr.simps args res)
  then have "yields L (RTyped t) bs e = yields L RPass bs e" for bs e by (simp add: yields_def)
  then show ?thesis using assms(2) by (simp add: packs_def emit)
qed

lemma packs_literal: "packs L WPass (IntLit (int_to_dec k))"
  by (rule packs_pass [OF emits_int [of L WPass _ "int_to_dec k" _ k]])
    (simp_all add: writePassThrough_def isPushInstruction_def js_BigInt_dec yields_int)

lemma packs_string: "text_decode (utf8_encode s) = s \<Longrightarrow> packs L WPass (StringLit s)"
  by (rule packs_pass [OF emits_string [of L WPass _ s]])
    (use yields_sized [of "utf8_encode s" 1 L RPass] in \<open>simp_all add: writePassThrough_def isPushInstruction_def\<close>)

lemma packs_hex:
  assumes "apply_write L tf d = Inr (BytesLit (hexOf bs), it)" and "apply_res L (rtf_of tf) (BytesLit (hexOf bs)) = Inr d"
    and "raw_of d (BytesLit (hexOf bs))"
  shows "packs L tf d"
  unfolding packs_def
proof (intro exI conjI impI)
  let ?bs = "10 # be_bytes 4 (length bs) @ bs"
  show "emits L tf d ?bs" using emits_bytes [OF assms(1) parseHex_hexOf] by (simp add: to_byte_unat_comp)
  assume "length ?bs < 2 ^ 32"
  then have "length bs < 2 ^ 32" by simp
  then show "yields L (rtf_of tf) ?bs d" "yields L RPass ?bs (BytesLit (hexOf bs))"
    using assms(2) by (auto intro!: yields_sized simp: hexBytes_hexOf)
qed (rule assms(3))

lemma raw_literal: "raw_of (StringLit s) (BytesLit b)" "raw_of (StringLit s) (IntLit i)"
  by (simp_all add: raw_of_def part_valid_def isEltData_def assertMichelsonData.simps)

lemma leaf_in_types: "leaf_text L p s bs \<Longrightarrow> in_list p leaf_types"
  by (erule leaf_text.cases) (simp_all add: in_list_def leaf_types_def)

lemma leaf_not_composite:
  assumes "in_list (prim_of t) leaf_types"
  shows "\<not> isPairType t" "prim_of t \<noteq> ''or''" "prim_of t \<noteq> ''option''" "prim_of t \<noteq> ''list''" "prim_of t \<noteq> ''set''"
    "prim_of t \<noteq> ''map''"
  using assms by (cases t; auto simp: in_list_def leaf_types_def isPairType_def prim_of_def)+

lemma leaf_write: "in_list (prim_of t) leaf_types \<Longrightarrow> write_leaf L t d = Inr e \<Longrightarrow> apply_write L (WTyped t) d = Inr (e, Finite [])"
  by (simp add: write_typed_def leaf_not_composite Let_def)

lemma leaf_read: "in_list (prim_of t) leaf_types \<Longrightarrow> apply_res L (RTyped t) d = read_leaf L t d"
  by (simp add: leaf_not_composite)

lemma packs_leaf: "leaf_text L (prim_of t) s bs \<Longrightarrow> packs L (WTyped t) (StringLit s)"
  using leaf_text_codec [of L "prim_of t" s bs t] leaf_in_types [of L "prim_of t" s bs]
  by (intro packs_hex [of _ _ _ bs]) (simp_all add: leaf_write leaf_read raw_literal del: apply_write.simps apply_res.simps)

lemma packs_time:
  assumes "prim_of t = ''timestamp''" and "date_range sec" and "toISOString (sec * 1000) = Some u"
  shows "packs L (WTyped t) (StringLit (take 19 u @ ''Z''))"
  unfolding packs_def
proof (intro exI conjI impI)
  let ?d = "StringLit (take 19 u @ ''Z'')" and ?bs = "0 # sleb (sec < 0) (nat \<bar>sec\<bar>)"
  have leaf: "in_list (prim_of t) leaf_types" using assms(1) by (simp add: in_list_def leaf_types_def)
  have "parseDate ?d = Some (Some (sec * 1000))" using date_round_trip [OF assms(2)] assms(3) by auto
  then have "write_leaf L t ?d = Inr (IntLit (int_to_dec sec))" using assms(1) by (simp add: write_leaf_def)
  then show "emits L (WTyped t) ?d ?bs" 
    by (rule emits_int [OF leaf_write [OF leaf] js_BigInt_dec])
  have "read_leaf L t (IntLit (int_to_dec sec)) = Inr ?d" using assms(1,3) by (simp add: read_leaf_def)
  then show "yields L (rtf_of (WTyped t)) ?bs ?d"
    by (intro yields_int) (simp add: leaf_read [OF leaf] del: apply_res.simps)
  show "yields L RPass ?bs (IntLit (int_to_dec sec))" by (rule yields_int) simp
qed (rule raw_literal)

lemma pass_transforms:
  "\<not> isPushInstruction d \<Longrightarrow> apply_write L WPass d = Inr (d, Forever WPass)"
  "\<not> isPushInstruction d \<Longrightarrow> apply_args RPass d = Inr (Forever RPass)"
  by (simp_all add: writePassThrough_def readPassThrough_args_def)

lemma zip_replicate: "(f, x) \<in> set (zip (replicate n g) xs) \<Longrightarrow> f = g \<and> x \<in> set xs"
  by (auto dest: set_zip_leftD set_zip_rightD)

lemma packs_pass_prim:
  assumes "primTags p = Some k" "p \<noteq> ''PUSH''" "annots_ok an" "xs \<noteq> []" "\<And>x. x \<in> set xs \<Longrightarrow> packs L WPass x"
  shows "packs L WPass (Prim p (Some xs) an)"
proof (rule node_prim [where fs = "replicate (length xs) WPass"])
  have np: "\<not> isPushInstruction (Prim p args b)" for args b using assms(2) by (simp add: isPushInstruction_def)
  show "apply_write L WPass (Prim p (Some xs) an) = Inr (Prim p (Some xs) an, Forever WPass)"
    by (rule pass_transforms(1) [OF np])
  show "\<exists>it. apply_args (rtf_of WPass) (Prim p (Some ds) None) = Inr it \<and> gives it (map rtf_of (replicate (length xs) WPass))"
    for ds using pass_transforms(2) [OF np, of "Some ds"] by simp
qed (use assms in \<open>auto dest!: zip_replicate\<close>)

lemma packs_pass_seq:
  assumes "\<And>x. x \<in> set xs \<Longrightarrow> packs L WPass x"
  shows "packs L WPass (Seq xs)"
proof (rule node_seq [where fs = "replicate (length xs) WPass"])
  have np: "\<not> isPushInstruction (Seq ys)" for ys by (simp add: isPushInstruction_def)
  show "apply_write L WPass (Seq xs) = Inr (Seq xs, Forever WPass)" by (rule pass_transforms(1) [OF np])
  show "\<exists>it. apply_args (rtf_of WPass) (Seq ds) = Inr it \<and> gives it (map rtf_of (replicate (length xs) WPass))"
    for ds using pass_transforms(2) [OF np, of ds] by simp
qed (use assms in \<open>auto dest!: zip_replicate intro: raw_seq\<close>)

lemma packs_prim0:
  assumes "apply_write L tf (Prim p None an) = Inr (Prim p None an, it)" and "primTags p = Some k" and "annots_ok an"
    and "apply_args (rtf_of tf) (Prim p None None) = Inr jt" and "apply_res L (rtf_of tf) (Prim p None an) = Inr (Prim p None an)"
    and "p \<noteq> ''PUSH''"
  shows "packs L tf (Prim p None an)"
  unfolding packs_def
proof (intro exI conjI impI)
  let ?bs = "prim_bytes k None an []"
  have "\<not> isPushInstruction (Prim p None None)" using assms(6) by (simp add: isPushInstruction_def)
  note pass = pass_transforms(2) [OF this]
  show "emits L tf (Prim p None an) ?bs" by (rule emits_prim0 [OF assms(1,2)])
  assume short: "length ?bs < 2 ^ 32"
  show "yields L (rtf_of tf) ?bs (Prim p None an)" by (rule yields_prim0 [OF assms(2,3) short assms(4,5)])
  show "yields L RPass ?bs (Prim p None an)" by (rule yields_prim0 [OF assms(2,3) short pass]) simp
qed simp

lemma data_prim_tags: "\<exists>k. primTags ''Pair'' = Some k" "\<exists>k. primTags ''Left'' = Some k" "\<exists>k. primTags ''Right'' = Some k"
  "\<exists>k. primTags ''Some'' = Some k" "\<exists>k. primTags ''None'' = Some k" "\<exists>k. primTags ''Elt'' = Some k"
  by (simp_all add: primTags_def primitives_def)

lemma gives_finite: "os = map Some fs \<Longrightarrow> gives (Finite os) fs"
  by simp

lemma zip_const: "(f, x) \<in> set (zip (map (\<lambda>_. g) xs) ys) \<Longrightarrow> f = g \<and> x \<in> set ys"
  by (auto dest: set_zip_leftD set_zip_rightD)

lemma packs_pair:
  assumes "isPairType t" "unpackComb ''pair'' t = Inr ([Some t1, Some t2], a)" "packs L (WTyped t1) x" "packs L (WTyped t2) y"
  shows "packs L (WTyped t) (Prim ''Pair'' (Some [x, y]) None)"
proof -
  obtain k where k: "primTags ''Pair'' = Some k" using data_prim_tags(1) by blast
  show ?thesis
  proof (rule node_prim [where fs = "[WTyped t1, WTyped t2]" and it = "Finite [Some (WTyped t1), Some (WTyped t2)]", OF _ _ _ _ k])
    show "apply_write L (WTyped t) (Prim ''Pair'' (Some [x, y]) None) =
        Inr (Prim ''Pair'' (Some [x, y]) None, Finite [Some (WTyped t1), Some (WTyped t2)])"
      using assms(1,2) by (simp add: write_typed_def write_pair_def isPairData_def unpackComb_def [of "''Pair''"] Let_def)
    show "\<exists>it. apply_args (rtf_of (WTyped t)) (Prim ''Pair'' (Some ds) None) = Inr it \<and> gives it (map rtf_of [WTyped t1, WTyped t2])"
      for ds using assms(1,2) gives_map [of "[RTyped t1, RTyped t2]"] by (simp add: read_typed_args_def isPairData_def Let_def)
    show "apply_res L (rtf_of (WTyped t)) (Prim ''Pair'' (Some [x, y]) None) = Inr (Prim ''Pair'' (Some [x, y]) None)"
      using assms(1) by simp
  qed (use assms(3,4) in \<open>auto intro: raw_pair gives_finite\<close>)
qed

lemma packs_single:
  assumes "p = ''Left'' \<or> p = ''Right'' \<or> p = ''Some''" and "annots_ok an" and "packs L (WTyped t1) x"
    and "\<And>ds an. apply_write L (WTyped t) (Prim p (Some ds) an) = Inr (Prim p (Some ds) an, Finite [Some (WTyped t1)])"
    and "\<And>ds. apply_args (RTyped t) (Prim p (Some ds) None) = Inr (Finite [Some (RTyped t1)])"
    and "\<not> in_list (prim_of t) leaf_types"
  shows "packs L (WTyped t) (Prim p (Some [x]) an)"
proof -
  obtain k where k: "primTags p = Some k" using assms(1) data_prim_tags by blast
  show ?thesis
  proof (rule node_prim [where fs = "[WTyped t1]" and it = "Finite [Some (WTyped t1)]", OF _ _ _ _ k assms(2)])
    show "\<exists>it. apply_args (rtf_of (WTyped t)) (Prim p (Some ds) None) = Inr it \<and> gives it (map rtf_of [WTyped t1])"
      for ds using assms(5) [of ds] gives_map [of "[RTyped t1]"] by simp
    show "p \<noteq> ''PUSH''" using assms(1) by auto
    show "raw_of (Prim p (Some [x]) an) (Prim p (Some ds) an)" if "list_all2 raw_of [x] ds" for ds
      by (rule raw_one [OF assms(1) that])
    show "apply_res L (rtf_of (WTyped t)) (Prim p (Some [x]) an) = Inr (Prim p (Some [x]) an)" using assms(6) by simp
  qed (use assms(3,4) in \<open>auto intro: gives_finite\<close>)
qed

lemma not_leaf: "in_list p [''or'', ''option'', ''list'', ''set'', ''map''] \<Longrightarrow> \<not> in_list p leaf_types"
  by (auto simp: in_list_def leaf_types_def)

lemma not_pair_type: "prim_of t \<noteq> [] \<Longrightarrow> prim_of t \<noteq> ''pair'' \<Longrightarrow> \<not> isPairType t"
  by (cases t) (auto simp: prim_of_def isPairType_def)

lemma packs_or:
  assumes "prim_of t = ''or''" "(p, i) \<in> {(''Left'', 0), (''Right'', 1)}" "arg_at (type_args t) i = Some t1"
    "annots_ok an" "packs L (WTyped t1) x"
  shows "packs L (WTyped t) (Prim p (Some [x]) an)"
proof -
  have p: "p = ''Left'' \<or> p = ''Right''" "i = (if p = ''Left'' then 0 else 1)" using assms(2) by auto
  have t: "\<not> isPairType t" "\<not> in_list (prim_of t) leaf_types"
    using not_pair_type [of t] not_leaf [of "prim_of t"] by (simp_all add: assms(1) in_list_def)
  have d: "isOrData (Prim p args an)" for args an using p(1) by (simp add: isOrData_def)
  show ?thesis
  proof (rule packs_single [OF _ assms(4,5) _ _ t(2)])
    show "apply_write L (WTyped t) (Prim p (Some ds) an) = Inr (Prim p (Some ds) an, Finite [Some (WTyped t1)])" for ds an
      using assms(1,3) t d [of "Some ds" an] p(2) by (simp add: write_typed_def prim_of_def [of "Prim p (Some ds) an"] Let_def split del: if_split)
    show "apply_args (RTyped t) (Prim p (Some ds) None) = Inr (Finite [Some (RTyped t1)])" for ds
      using assms(1,3) t d [of "Some ds" None] p(2) by (simp add: read_typed_args_def prim_of_def [of "Prim p (Some ds) None"] Let_def split del: if_split)
  qed (use p(1) in blast)
qed

lemma option_type: "prim_of t = ''option'' \<Longrightarrow> \<not> isPairType t \<and> \<not> in_list (prim_of t) leaf_types"
  using not_pair_type [of t] not_leaf [of "prim_of t"] by (simp add: in_list_def)

lemma packs_some:
  assumes "prim_of t = ''option''" "arg_at (type_args t) 0 = Some t1" "annots_ok an" "packs L (WTyped t1) x"
  shows "packs L (WTyped t) (Prim ''Some'' (Some [x]) an)"
proof (rule packs_single [OF _ assms(3,4)])
  have d: "isOptionData (Prim ''Some'' args an)" for args an by (simp add: isOptionData_def)
  show "apply_write L (WTyped t) (Prim ''Some'' (Some ds) an) = Inr (Prim ''Some'' (Some ds) an, Finite [Some (WTyped t1)])" for ds an
    using assms(1,2) option_type [OF assms(1)] d
    by (simp add: write_typed_def prim_of_def [of "Prim ''Some'' (Some ds) an"] Let_def)
  show "apply_args (RTyped t) (Prim ''Some'' (Some ds) None) = Inr (Finite [Some (RTyped t1)])" for ds
    using assms(1,2) option_type [OF assms(1)] d
    by (simp add: read_typed_args_def prim_of_def [of "Prim ''Some'' (Some ds) None"] Let_def)
qed (use option_type [OF assms(1)] in auto)

lemma packs_none:
  assumes "prim_of t = ''option''" "annots_ok an"
  shows "packs L (WTyped t) (Prim ''None'' None an)"
proof -
  obtain k where k: "primTags ''None'' = Some k" using data_prim_tags(5) by blast
  have d: "isOptionData (Prim ''None'' args an)" for args an by (simp add: isOptionData_def)
  show ?thesis
  proof (rule packs_prim0 [OF _ k assms(2)])
    show "apply_write L (WTyped t) (Prim ''None'' None an) = Inr (Prim ''None'' None an, Finite [])"
      using assms(1) option_type [OF assms(1)] d
      by (simp add: write_typed_def prim_of_def [of "Prim ''None'' None an"] Let_def)
    show "apply_args (rtf_of (WTyped t)) (Prim ''None'' None None) = Inr (Finite [])"
      using assms(1) option_type [OF assms(1)] d
      by (simp add: read_typed_args_def prim_of_def [of "Prim ''None'' None None"] Let_def)
  qed (use option_type [OF assms(1)] in simp_all)
qed

lemma packs_list:
  assumes "prim_of t = ''list'' \<or> prim_of t = ''set''" "arg_at (type_args t) 0 = Some t1"
    "\<And>x. x \<in> set xs \<Longrightarrow> packs L (WTyped t1) x"
  shows "packs L (WTyped t) (Seq xs)"
proof -
  have t: "\<not> isPairType t" "\<not> in_list (prim_of t) leaf_types"
    using assms(1) not_pair_type [of t] not_leaf [of "prim_of t"] by (auto simp: in_list_def)
  show ?thesis
  proof (rule node_seq [where fs = "map (\<lambda>_. WTyped t1) xs" and it = "Finite (map (\<lambda>_. Some (WTyped t1)) xs)"])
    show "apply_write L (WTyped t) (Seq xs) = Inr (Seq xs, Finite (map (\<lambda>_. Some (WTyped t1)) xs))"
      using assms(1,2) t by (auto simp: write_typed_def Let_def)
    show "\<exists>it. apply_args (rtf_of (WTyped t)) (Seq ds) = Inr it \<and> gives it (map rtf_of (map (\<lambda>_. WTyped t1) xs))" for ds
      using assms(1,2) t gives_forever(2) [of "RTyped t1" xs] by (auto simp: read_typed_args_def isListData_def Let_def o_def)
    show "packs L f x" if "(f, x) \<in> set (zip (map (\<lambda>_. WTyped t1) xs) xs)" for f x
      using zip_const [OF that] assms(3) by simp
    show "raw_of (Seq xs) (Seq ds)" if "list_all2 raw_of xs ds" for ds by (rule raw_seq [OF that])
  qed (use t in \<open>auto intro: gives_finite\<close>)
qed

lemma packs_map:
  assumes "prim_of t = ''map''" "\<And>x. x \<in> set xs \<Longrightarrow> packs L (WElt t) x"
  shows "packs L (WTyped t) (Seq xs)"
proof -
  have t: "\<not> isPairType t" "\<not> in_list (prim_of t) leaf_types"
    using not_pair_type [of t] not_leaf [of "prim_of t"] by (simp_all add: assms(1) in_list_def)
  show ?thesis
  proof (rule node_seq [where fs = "map (\<lambda>_. WElt t) xs" and it = "Finite (map (\<lambda>_. Some (WElt t)) xs)"])
    show "apply_write L (WTyped t) (Seq xs) = Inr (Seq xs, Finite (map (\<lambda>_. Some (WElt t)) xs))"
      using assms(1) t by (simp add: write_typed_def Let_def)
    show "\<exists>it. apply_args (rtf_of (WTyped t)) (Seq ds) = Inr it \<and> gives it (map rtf_of (map (\<lambda>_. WElt t) xs))" for ds
      using assms(1) t gives_forever(2) [of "RElt t" xs] by (simp add: read_typed_args_def isListData_def Let_def o_def)
    show "packs L f x" if "(f, x) \<in> set (zip (map (\<lambda>_. WElt t) xs) xs)" for f x
      using zip_const [OF that] assms(2) by simp
    show "raw_of (Seq xs) (Seq ds)" if "list_all2 raw_of xs ds" for ds by (rule raw_seq [OF that])
  qed (use t in \<open>auto intro: gives_finite\<close>)
qed

lemma packs_elt:
  assumes "type_args t = Some [t1, t2]" "annots_ok an" "packs L (WTyped t1) x" "packs L (WTyped t2) y"
  shows "packs L (WElt t) (Prim ''Elt'' (Some [x, y]) an)"
proof -
  obtain k where k: "primTags ''Elt'' = Some k" using data_prim_tags(6) by blast
  show ?thesis
  proof (rule node_prim [where fs = "[WTyped t1, WTyped t2]" and it = "Finite [Some (WTyped t1), Some (WTyped t2)]", OF _ _ _ _ k assms(2)])
    show "apply_write L (WElt t) (Prim ''Elt'' (Some [x, y]) an) =
        Inr (Prim ''Elt'' (Some [x, y]) an, Finite [Some (WTyped t1), Some (WTyped t2)])"
      using assms(1) by (simp add: isEltData_def all_args_def)
    show "\<exists>it. apply_args (rtf_of (WElt t)) (Prim ''Elt'' (Some ds) None) = Inr it \<and> gives it (map rtf_of [WTyped t1, WTyped t2])"
      for ds using assms(1) gives_map [of "[RTyped t1, RTyped t2]"] by (simp add: isEltData_def all_args_def)
  qed (use assms(3,4) in \<open>auto intro: raw_elt gives_finite\<close>)
qed

lemma readable_packs: "readable L tf d \<Longrightarrow> packs L tf d"
proof (induction rule: readable.induct)
  case (r_prim0 p k an)
  then have np: "\<not> isPushInstruction (Prim p None args)" for args by (simp add: isPushInstruction_def)
  have "apply_args (rtf_of WPass) (Prim p None None) = Inr (Forever RPass)" unfolding rtf_of.simps by (rule pass_transforms(2) [OF np])
  then show ?case using np r_prim0 by (intro packs_prim0 [OF pass_transforms(1)]) auto
next
  case (r_bytes bs)
  show ?case by (rule packs_hex [of _ _ _ bs]) (simp_all add: writePassThrough_def isPushInstruction_def)
qed (blast intro: packs_literal packs_string packs_pass_seq packs_pass_prim packs_push packs_pair packs_or packs_some
    packs_none packs_list packs_map packs_elt packs_leaf packs_time packs_plain)+

section \<open>The round trip\<close>

lemma read_transform: "readTransform t = rtf_of (writeTransform t)"
  by (simp add: readTransform_def writeTransform_def split: option.split)

lemma magic_ahead: "rahead (new_reader (5 # bs @ extra)) [5]" "rahead (radv 1 (new_reader (5 # bs @ extra))) bs"
proof -
  have "within (new_reader (5 # bs @ extra)) ([5] @ bs @ extra)" using within_new [of "5 # bs @ extra"] by simp
  then have "rahead (new_reader (5 # bs @ extra)) ([5] @ bs @ extra)" unfolding within_def by blast
  then show "rahead (new_reader (5 # bs @ extra)) [5]" "rahead (radv 1 (new_reader (5 # bs @ extra))) bs"
    unfolding rahead_append by simp_all
qed

lemma packed_reads_back:
  assumes "readable L (writeTransform t) d" and "isMichelsonData d"
  shows "\<exists>bs. packData L d t = Inr bs \<and> packDataBytes L d t = Inr (BytesLit (hexOf bs)) \<and>
     (length bs \<le> 2 ^ 32 \<longrightarrow> (\<forall>extra. unpackData L (bs @ extra) t = Inr d) \<and> unpackDataBytes L (hexOf bs) t = Inr d)"
proof -
  obtain bs where bs: "emits L (writeTransform t) d bs"
    "length bs < 2 ^ 32 \<longrightarrow> yields L (readTransform t) bs d" 
    using readable_packs [OF assms(1)] unfolding packs_def read_transform by blast
  have pack: "packData L d t = Inr (5 # bs)" by (simp add: packData_def emitsD [OF bs(1)] byte_of_def)
  have unpack: "unpackData L ((5 # bs) @ extra) t = Inr d" if "length (5 # bs) \<le> 2 ^ 32" for extra
  proof -
    have "yields L (readTransform t) bs d" using bs(2) that by simp
    from yieldsD [OF this magic_ahead(2)]
    have "readExpr (2 * length ((5 # bs) @ extra) + 2) L (readTransform t) (radv 1 (new_reader (5 # bs @ extra))) =
        Inr (d, radv (length bs) (radv 1 (new_reader (5 # bs @ extra))))" by simp
    then show ?thesis using readUint8_ahead [OF magic_ahead(1)] assms(2)
      by (simp add: unpackData_def isMichelsonData_def checked_Inr)
  qed
  have "unpackDataBytes L (hexOf (5 # bs)) t = Inr d" if "length (5 # bs) \<le> 2 ^ 32"
    using unpack [OF that, of "[]"] unfolding unpackDataBytes_def parseBytes_hexOf bindR_simps option.case to_byte_unat by simp
  then show ?thesis using pack unpack by (intro exI [of _ "5 # bs"]) (simp add: packDataBytes_def hexBytes_hexOf del: hexOf_simps)
qed

end
