(* ===== verification/PackForging.thy ===== *)
theory PackForging
  imports PackLeaves ForgeMichelsonProofs Demo
begin

text \<open>
  Two encoders of Micheline stand in the repository: \<open>packData\<close> of \<open>taquito-michel-codec\<close>
  and \<open>valueEncoder\<close> of \<open>taquito-local-forging\<close>.  They agree: what the second writes for a
  value is what the first packs, after the byte that marks packed data.
\<close>

section \<open>The tables of primitives\<close>

lemma primitives_table: "map snd opMapping = primitives"
  by (simp add: opMapping_def primitives_def)

lemma primitives_distinct: "distinct primitives"
  by (simp add: primitives_def)

lemma primitives_length: "length primitives = 157"
  by (simp add: primitives_def)

lemma index_of_nth: "distinct ps \<Longrightarrow> i < length ps \<Longrightarrow> index_of (ps ! i) ps = Some i"
proof (induction ps arbitrary: i)
  case (Cons p ps)
  then show ?case by (cases i) (auto simp: nth_mem)
qed simp

lemma same_code:
  assumes "map_of opMappingReverse p = Some c"
  shows "\<exists>k. primTags p = Some k \<and> c = hex_byte (byte_of k)"
proof -
  have "(c, p) \<in> set opMapping" using opMappingReverse_sound(1) [OF assms] by (rule map_of_SomeD)
  then obtain i where i: "i < length opMapping" "opMapping ! i = (c, p)" by (auto simp: in_set_conv_nth)
  have n: "i < length primitives" using i(1) primitives_table by (metis length_map)
  have "map snd opMapping ! i = p" using i by simp
  then have "primTags p = Some i"
    using index_of_nth [OF primitives_distinct n] by (simp add: primTags_def primitives_table)
  moreover have "map fst opMapping ! i = hex_byte (of_nat i)"
    using n by (simp add: opMapping_keys_hex primitives_length)
  then have "c = hex_byte (byte_of i)" using i by (simp add: byte_of_def)
  ultimately show ?thesis by blast
qed

section \<open>Values on which the encoders agree\<close>

text \<open>
  The numbers of arguments for which the local forger writes what the binary format says:
  arguments in their number up to two, or as a sequence with its length and annotations.
\<close>

definition pack_shape :: "string \<Rightarrow> nat \<Rightarrow> bool \<Rightarrow> bool" where
  "pack_shape p n annotated \<longleftrightarrow>
     n = 0 \<or> (if is_lambda p \<or> p = ''view'' then 3 \<le> n \<and> \<not> annotated else is_pair p \<or> n \<le> 2)"

text \<open>
  A \<open>PUSH\<close> is left out, since \<open>packData\<close> packs its value at its type; integers are texts both
  number parsers read alike, bytes are in lower case.
\<close>

fun forge_form :: "libs \<Rightarrow> expr \<Rightarrow> bool" where
  "forge_form L (Prim p args annots) \<longleftrightarrow> p \<noteq> ''PUSH'' \<and>
     (case args of None \<Rightarrow> True | Some xs \<Rightarrow> xs \<noteq> [] \<and> list_all (forge_form L) xs) \<and>
     annots \<noteq> Some [] \<and> pack_shape p (length (args_of args)) (annots \<noteq> None)"
| "forge_form L (Seq xs) \<longleftrightarrow> list_all (forge_form L) xs"
| "forge_form L (BytesLit b) \<longleftrightarrow> toLowerCase b = b"
| "forge_form L (StringLit s) \<longleftrightarrow> True"
| "forge_form L (IntLit i) \<longleftrightarrow> js_BigInt i \<noteq> None \<and> bn_parse L i = js_BigInt i"

definition same_bytes :: "libs \<Rightarrow> expr \<Rightarrow> bool" where
  "same_bytes L v \<longleftrightarrow> (\<forall>s. valueEncoder L v = Inr s \<longrightarrow> (\<exists>bs. s = hexOf bs \<and> emits L WPass v bs))"

lemma same_items:
  assumes "\<forall>x\<in>set xs. same_bytes L x" "mapR (valueEncoder L) xs = Inr es"
  shows "\<exists>bss. es = map hexOf bss \<and> emits_all L (replicate (length xs) WPass) xs bss"
  using assms
proof (induction xs arbitrary: es)
  case Nil
  then show ?case by (intro exI [of _ "[]"]) simp
next
  case (Cons x xs)
  then obtain e es' where e: "valueEncoder L x = Inr e" "mapR (valueEncoder L) xs = Inr es'" "es = e # es'"
    by (auto simp: bindR_eq_Inr)
  then obtain bs bss where "e = hexOf bs" "emits L WPass x bs" "es' = map hexOf bss"
    "emits_all L (replicate (length xs) WPass) xs bss"
    using Cons by (auto simp: same_bytes_def)
  with e(3) show ?case by (intro exI [of _ "bs # bss"]) simp
qed

text \<open>Annotations joined by a space, as text or as hexadecimal.\<close>

lemma utf8_join: "utf8_encode (joinWith '' '' ws) = join_bytes (map utf8_encode ws)"
proof (induction "'' ''" ws rule: joinWith.induct)
  case (3 x y ys)
  have "utf8_encode (CHR '' '' # s) = 32 # utf8_encode s" "utf8_encode (s @ t) = utf8_encode s @ utf8_encode t" for s t
    by (simp_all add: utf8_encode_def byte_of_char_def)
  then show ?case using 3 by simp
qed (simp_all add: utf8_encode_def)

lemma same_annots:
  assumes "(case an of None \<Rightarrow> Inr [] | Some as \<Rightarrow> encodeAnnots as) = Inr s" "an \<noteq> Some []" "an \<noteq> None \<or> n \<le> 2"
  shows "s = hexOf (annot_bytes n an)"
proof (cases an)
  case (Some as)
  then obtain a r where "as = a # r" using assms(2) by (cases as) auto
  then show ?thesis using Some assms(1) encodeAnnots_Inr [of as s] by (simp add: annot_bytes_def utf8_join Let_def)
qed (use assms in \<open>simp add: annot_bytes_def\<close>)

lemma same_tag: "an \<noteq> Some [] \<Longrightarrow> write_tag args an = prim_tag (length (args_of args)) (an \<noteq> None)"
  by (cases args) (auto simp: write_tag_def prim_tag_def no_annots_def Let_def min_def)

lemma pack_body:
  assumes "pack_shape p n a" and "n = 0 \<longrightarrow> body = []"
  shows "prim_body p n body a =
     (if n < 3 then body else be_bytes 4 (length body) @ body @ (if a then [] else be_bytes 4 0))"
proof -
  define w where "w \<longleftrightarrow> is_lambda p \<or> p = ''view''"
  have w: "w \<Longrightarrow> \<not> is_pair p" by (auto simp: w_def)
  have b: "prim_body p n body a = (if w \<and> n \<noteq> 0 then be_bytes 4 (length body) @ body @ be_bytes 4 0
      else if is_pair p \<and> 2 < n then be_bytes 4 (length body) @ body @ (if a then [] else be_bytes 4 0) else body)"
    unfolding prim_body_def w_def by auto
  have s: "n = 0 \<or> (if w then 3 \<le> n \<and> \<not> a else is_pair p \<or> n \<le> 2)"
    using assms(1) unfolding pack_shape_def w_def .
  show ?thesis using s w assms(2) unfolding b by (cases w; cases "is_pair p"; cases "n < 3"; simp)
qed

text \<open>The bytes after the opcode.\<close>

lemma same_rest:
  assumes "pack_shape p n (an \<noteq> None)" and "an \<noteq> Some []" and "n = 0 \<longrightarrow> body = []"
    and "(case an of None \<Rightarrow> Inr [] | Some as \<Rightarrow> encodeAnnots as) = Inr ann"
    and "finishPrim p n (n \<noteq> 0) (hexOf body) ann = Inr rest"
  shows "rest = hexOf ((if n < 3 then body else be_bytes 4 (length body) @ body) @ annot_bytes n an)"
proof (cases an)
  case None
  then have ann: "ann = hexOf []" using assms(4) by simp
  have "rest = hexOf (prim_body p n body False)"
    using conjunct1 [OF finishPrim_hex [OF assms(5) [unfolded ann] refl]] by (simp only: append_Nil2 simp_thms)
  moreover have "prim_body p n body False = (if n < 3 then body else be_bytes 4 (length body) @ body) @ annot_bytes n an"
    using pack_body [OF assms(1,3)] None by (simp add: annot_bytes_def)
  ultimately show ?thesis by simp
next
  case (Some as)
  then have ann: "ann = hexOf (annot_bytes n an)" using same_annots [OF assms(4,2)] by simp
  have "4 \<le> length (annot_bytes n an)" using Some assms(2) by (cases as) (simp_all add: annot_bytes_def Let_def)
  then have "annot_bytes n an \<noteq> []" by auto
  then have "rest = hexOf (prim_body p n body True @ annot_bytes n an)"
    using conjunct1 [OF finishPrim_hex [OF assms(5) [unfolded ann] refl]] by (simp only: simp_thms)
  moreover have "prim_body p n body True = (if n < 3 then body else be_bytes 4 (length body) @ body)"
    using pack_body [OF assms(1,3)] Some by simp
  ultimately show ?thesis by simp
qed

lemma same_prim:
  assumes ok: "forge_form L (Prim p args an)" and subs: "\<forall>x\<in>set (args_of args). same_bytes L x"
  shows "same_bytes L (Prim p args an)"
  unfolding same_bytes_def
proof (intro allI impI)
  fix s assume e: "valueEncoder L (Prim p args an) = Inr s"
  define xs where "xs = args_of args"
  have args: "args = (if xs = [] then None else Some xs)" using ok by (cases args) (auto simp: xs_def)
  have n: "(case args of None \<Rightarrow> 0 | Some ys \<Rightarrow> length ys) = length xs" by (cases args) (simp_all add: xs_def)
  have mp: "(case args of None \<Rightarrow> Inr [] | Some ys \<Rightarrow> mapR (valueEncoder L) ys) = mapR (valueEncoder L) xs"
    by (cases args) (simp_all add: xs_def)
  have an: "an \<noteq> Some []" and push: "p \<noteq> ''PUSH''" using ok by simp_all
  have tag: "pad (min (2 * length xs + (if an = None then 0 else 1) + 3) 9) 2
      = Inr (hex_byte (byte_of (write_tag args an)))"
    using pad_tag [of "length xs" "an \<noteq> None"] unfolding same_tag [OF an] xs_def [symmetric] prim_tag_def
    by (cases an) simp_all
  note e' = e [unfolded valueEncoder.simps Let_def n mp tag bindR_simps]
  obtain op where op: "map_of opMappingReverse p = Some op" using e' by (cases "map_of opMappingReverse p") simp_all
  obtain es ann rest where es: "mapR (valueEncoder L) xs = Inr es"
    and ann: "(case an of None \<Rightarrow> Inr [] | Some as \<Rightarrow> encodeAnnots as) = Inr ann"
    and rest: "finishPrim p (length xs) (args \<noteq> None) (concat es) ann = Inr rest"
    and s: "s = hex_byte (byte_of (write_tag args an)) @ op @ rest"
    using e' unfolding op option.case by (simp only: bindR_eq_Inr) blast
  obtain k where k: "primTags p = Some k" "op = hex_byte (byte_of k)" using same_code [OF op] by blast
  obtain bss where bss: "es = map hexOf bss" "emits_all L (replicate (length xs) WPass) xs bss"
    using same_items [OF subs [folded xs_def] es] by blast
  have ha: "(args \<noteq> None) = (length xs \<noteq> 0)" using args by simp
  have none: "length xs = 0 \<longrightarrow> concat bss = []" using es bss(1) by (cases xs) auto
  have "pack_shape p (length xs) (an \<noteq> None)" using ok by (simp add: xs_def)
  note r = same_rest [OF this an none ann rest [unfolded bss(1) hexOf_concat [symmetric] ha]]
  have np: "\<not> isPushInstruction (Prim p args an)" using push by (simp add: isPushInstruction_def)
  have pass: "apply_write L WPass (Prim p args an) = Inr (Prim p args an, Forever WPass)"
    using np by (simp add: writePassThrough_def)
  have "emits L WPass (Prim p args an) (prim_bytes k args an (concat bss))"
  proof (cases args)
    case None
    then have "concat bss = []" using none by (simp add: xs_def)
    then show ?thesis unfolding None by (simp only: emits_prim0 [OF pass [unfolded None] k(1)])
  next
    case (Some ys)
    then show ?thesis using emits_prim [OF pass [unfolded Some] k(1) gives_forever(1)] bss(2) by (simp add: xs_def)
  qed
  moreover have "s = hexOf (prim_bytes k args an (concat bss))"
    unfolding s k(2) r prim_bytes_def xs_def [symmetric] by simp
  ultimately show "\<exists>bs. s = hexOf bs \<and> emits L WPass (Prim p args an) bs" by blast
qed

lemma plain_pass: "\<not> is_prim v \<Longrightarrow> apply_write L WPass v = Inr (v, Forever WPass)"
  by (cases v) (simp_all add: writePassThrough_def isPushInstruction_def)

lemma same_seq:
  assumes "\<forall>x\<in>set xs. same_bytes L x"
  shows "same_bytes L (Seq xs)"
  unfolding same_bytes_def
proof (intro allI impI)
  fix s assume e: "valueEncoder L (Seq xs) = Inr s"
  then obtain es where es: "mapR (valueEncoder L) xs = Inr es" by (auto simp: bindR_eq_Inr)
  then obtain bss where bss: "es = map hexOf bss" "emits_all L (replicate (length xs) WPass) xs bss"
    using same_items [OF assms] by blast
  have "s = hexOf (seq_bytes (concat bss))"
    using e es bss by (auto simp: bindR_eq_Inr Let_def hex_byte_def dig_def seq_bytes_def hexOf_concat [symmetric])
  moreover have "emits L WPass (Seq xs) (seq_bytes (concat bss))"
    by (rule emits_seq [OF plain_pass gives_forever(1) bss(2)]) simp
  ultimately show "\<exists>bs. s = hexOf bs \<and> emits L WPass (Seq xs) bs" by blast
qed

lemma same_bytes_literal:
  assumes "toLowerCase b = b"
  shows "same_bytes L (BytesLit b)"
  unfolding same_bytes_def
proof (intro allI impI)
  fix s assume e: "valueEncoder L (BytesLit b) = Inr s"
  have "\<exists>bs. b = hexOf bs" using e assms hex_text_lower [of b] by (auto simp: bytesEncoder_def split: if_splits)
  then obtain bs where b: "b = hexOf bs" by blast
  have "s = hexOf (10 # be_bytes 4 (length bs) @ bs)"
    using e b by (auto simp: bytesEncoder_def bindR_eq_Inr hex_byte_def dig_def)
  moreover have "emits L WPass (BytesLit b) (10 # be_bytes 4 (length bs) @ bs)"
    unfolding b using emits_bytes [OF plain_pass parseHex_hexOf] by (simp add: to_byte_unat_comp)
  ultimately show "\<exists>bs. s = hexOf bs \<and> emits L WPass (BytesLit b) bs" by blast
qed

lemma same_string: "same_bytes L (StringLit str)"
  unfolding same_bytes_def
proof (intro allI impI)
  fix s assume e: "valueEncoder L (StringLit str) = Inr s"
  define bs where "bs = utf8_encode str"
  have "s = hexOf (1 # be_bytes 4 (length bs) @ bs)"
    using e by (auto simp: stringEncoder_def bindR_eq_Inr hex_byte_def dig_def Let_def bs_def)
  moreover have "emits L WPass (StringLit str) (1 # be_bytes 4 (length bs) @ bs)"
    unfolding bs_def by (rule emits_string [OF plain_pass]) simp
  ultimately show "\<exists>bs. s = hexOf bs \<and> emits L WPass (StringLit str) bs" by blast
qed

lemma same_int:
  assumes "js_BigInt i \<noteq> None" "bn_parse L i = js_BigInt i"
  shows "same_bytes L (IntLit i)"
proof -
  obtain k where k: "js_BigInt i = Some k" using assms(1) by blast
  have "valueEncoder L (IntLit i) = Inr (hexOf (0 # sleb (k < 0) (nat \<bar>k\<bar>)))"
    using intEncoder_sleb [of L i k] assms(2) k by (simp add: hex_byte_def dig_def)
  moreover have "emits L WPass (IntLit i) (0 # sleb (k < 0) (nat \<bar>k\<bar>))"
    by (rule emits_int [OF plain_pass k]) simp
  ultimately show ?thesis unfolding same_bytes_def by (metis Inr_inject)
qed

lemma forge_form_same: "forge_form L v \<Longrightarrow> same_bytes L v"
proof (induction v rule: expr_induct)
  case (Prim p xs an)
  then show ?case by (intro same_prim) (simp_all add: list_all_iff)
qed (auto intro: same_string same_int same_bytes_literal same_seq same_prim simp: list_all_iff)

lemma packs_as_forged:
  assumes "forge_form L v" and "valueEncoder L v = Inr s"
  shows "packDataBytes L v None = Inr (BytesLit (''05'' @ s))"
proof -
  obtain bs where bs: "s = hexOf bs" "emits L WPass v bs"
    using forge_form_same [OF assms(1)] assms(2) unfolding same_bytes_def by blast
  have "hexBytes (5 # bs) = ''05'' @ hexOf bs" by (simp add: hexBytes_hexOf hex_byte_def dig_def)
  then show ?thesis
    by (simp add: packDataBytes_def packData_def writeTransform_def emitsD [OF bs(2)] bs(1) byte_of_def)
qed

end
