(* ===== verification/PackUtilsProofs.thy ===== *)
theory PackUtilsProofs
  imports PackLeaves
begin

text \<open>
  The helpers of \<open>taquito-michel-codec\<close>: \<open>LongInteger\<close> refines the integers, and the texts of
  timestamps.
\<close>

section \<open>Magnitudes\<close>

fun le_val :: "nat list \<Rightarrow> nat" where
  "le_val [] = 0"
| "le_val (b # bs) = b + 256 * le_val bs"

text \<open>Bytes without a leading zero.\<close>

definition normal :: "nat list \<Rightarrow> bool" where
  "normal bs \<longleftrightarrow> list_all (\<lambda>b. b < 256) bs \<and> (bs \<noteq> [] \<longrightarrow> last bs \<noteq> 0)"

declare li_append.simps [simp del]

lemma li_append_normal: "normal bs \<Longrightarrow> normal (li_append bs c) \<and> (li_append bs c = [] \<longrightarrow> bs = [] \<and> c = 0)"
proof (induction bs c rule: li_append.induct)
  case (1 c)
  have small: "c mod 256 < 256" by simp
  show ?case
  proof (cases "c = 0")
    case False
    then have ih: "normal (li_append [] (c div 256))" "li_append [] (c div 256) = [] \<longrightarrow> c div 256 = 0"
      using 1 by simp_all
    have top: "c div 256 = 0 \<Longrightarrow> c mod 256 \<noteq> 0" using False by (metis mod_mult_div_eq mult_0_right add_0_right)
    have "last (c mod 256 # li_append [] (c div 256)) \<noteq> 0"
      using ih top by (cases "li_append [] (c div 256) = []") (simp_all only: last.simps normal_def if_True if_False simp_thms)
    then show ?thesis using False ih(1) small by (simp add: normal_def li_append.simps(1) [of c])
  qed (simp add: normal_def li_append.simps)
next
  case (2 b bs c)
  let ?m = "b * 10 + c"
  have n: "normal bs" "b < 256" "bs = [] \<longrightarrow> b \<noteq> 0" using "2.prems" by (auto simp: normal_def split: if_splits)
  have ih: "normal (li_append bs (?m div 256))" "li_append bs (?m div 256) = [] \<longrightarrow> bs = [] \<and> ?m div 256 = 0"
    using "2.IH" [OF refl n(1)] by simp_all
  have small: "?m mod 256 < 256" by simp
  have top: "?m mod 256 \<noteq> 0" if "bs = []" "?m div 256 = 0"
  proof -
    have "?m mod 256 = ?m" using that(2) by (metis mod_mult_div_eq mult_0_right add_0_right)
    then show ?thesis using n(3) that(1) by simp
  qed
  have "last (?m mod 256 # li_append bs (?m div 256)) \<noteq> 0"
    using ih top by (cases "li_append bs (?m div 256) = []") (simp_all only: last.simps normal_def if_True if_False simp_thms)
  then show ?case using ih(1) small by (simp add: normal_def Let_def li_append.simps(2) [of b bs c])
qed

lemma li_append_val: "le_val (li_append bs c) = 10 * le_val bs + c"
proof (induction bs c rule: li_append.induct)
  case (1 c)
  have "c mod 256 + 256 * (c div 256) = c" by simp
  then show ?case using 1 by (simp add: li_append.simps(1) [of c])
next
  case (2 b bs c)
  let ?m = "b * 10 + c"
  have "?m mod 256 + 256 * (?m div 256) = ?m" by simp
  then show ?case using "2.IH" [OF refl] by (simp add: Let_def li_append.simps(2) [of b bs c] algebra_simps)
qed

lemma le_val_lt: "list_all (\<lambda>b. b < 256) bs \<Longrightarrow> le_val bs < 256 ^ length bs"
  by (induction bs) auto

lemma le_val_ge: "normal bs \<Longrightarrow> bs \<noteq> [] \<Longrightarrow> 256 ^ (length bs - 1) \<le> le_val bs"
proof (induction bs)
  case (Cons b bs)
  then show ?case by (cases bs) (auto simp: normal_def)
qed simp

lemma cmp_down_snoc: "length xs = length ys \<Longrightarrow>
    li_cmp_down (rev (x # xs)) (rev (y # ys)) =
      (if li_cmp_down (rev xs) (rev ys) = 0 then (if x = y then 0 else if x < y then - 1 else 1) else li_cmp_down (rev xs) (rev ys))"
proof -
  have "length us = length vs \<Longrightarrow> li_cmp_down (us @ [x]) (vs @ [y]) =
      (if li_cmp_down us vs = 0 then (if x = y then 0 else if x < y then - 1 else 1) else li_cmp_down us vs)" for us vs
    by (induction us vs rule: list_induct2) auto
  from this [of "rev xs" "rev ys"] show "length xs = length ys \<Longrightarrow> ?thesis" by simp
qed

lemma cmp_down_val:
  "length xs = length ys \<Longrightarrow> list_all (\<lambda>b. b < 256) xs \<Longrightarrow> list_all (\<lambda>b. b < 256) ys \<Longrightarrow>
     li_cmp_down (rev xs) (rev ys) = sgn (int (le_val xs) - int (le_val ys))"
proof (induction xs ys rule: list_induct2)
  case (Cons x xs y ys)
  define u v where "u = int (le_val xs)" and "v = int (le_val ys)"
  have ih: "li_cmp_down (rev xs) (rev ys) = sgn (u - v)" using Cons by (simp add: u_def v_def)
  have b: "x < 256" "y < 256" using Cons.prems by simp_all
  have "int (le_val (x # xs)) = int x + 256 * u" "int (le_val (y # ys)) = int y + 256 * v" by (simp_all add: u_def v_def)
  then show ?case using b unfolding cmp_down_snoc [OF Cons.hyps] ih by (auto simp: sgn_if split: if_splits)
qed simp

text \<open>Magnitudes compare as their lengths, and then from the top byte.\<close>

lemma magnitude_cmp:
  assumes "normal xs" "normal ys"
  shows "(if length xs \<noteq> length ys then if length xs < length ys then - 1 else 1
     else li_cmp_down (rev xs) (rev ys)) = sgn (int (le_val xs) - int (le_val ys))"
proof -
  have less: "le_val xs < le_val ys" if "length xs < length ys" "normal xs" "normal ys" for xs ys
  proof -
    have "(256 :: nat) ^ length xs \<le> 256 ^ (length ys - 1)" using that(1) by (intro power_increasing) simp_all
    moreover have "le_val xs < 256 ^ length xs" using that(2) le_val_lt by (simp add: normal_def)
    moreover have "256 ^ (length ys - 1) \<le> le_val ys" using that by (intro le_val_ge) auto
    ultimately show ?thesis by linarith
  qed
  consider "length xs < length ys" | "length ys < length xs" | "length xs = length ys" by linarith
  then show ?thesis
    by cases (use less [of xs ys] less [of ys xs] assms cmp_down_val [of xs ys] in \<open>auto simp: normal_def sgn_if\<close>)
qed

section \<open>Texts\<close>

lemma dig_code: "d < 10 \<Longrightarrow> (of_char (dig d) :: nat) = 48 + d"
proof -
  have "list_all (\<lambda>d. (of_char (dig d) :: nat) = 48 + d) [0..<10]" by (simp add: upt_conv_Cons dig_def)
  then show "d < 10 \<Longrightarrow> ?thesis" by (simp add: list_all_iff)
qed

lemma li_digits_append: "li_digits l (s @ t) = bindR (li_digits l s) (\<lambda>l'. li_digits l' t)"
  by (induction l s rule: li_digits.induct) (simp_all add: Let_def)

lemma li_digits_digits:
  "\<exists>bs. li_digits \<lparr>li_neg = neg, li_buf = []\<rparr> (digits 10 n) = Inr \<lparr>li_neg = neg, li_buf = bs\<rparr> \<and> normal bs \<and> le_val bs = n"
proof (induction n rule: less_induct)
  case (less n)
  have empty: "normal []" by (simp add: normal_def)
  show ?case
  proof (cases "n < 10")
    case True
    then show ?thesis using li_append_normal [OF empty, of n] li_append_val [of "[]" n]
      by (subst digits.simps) (simp add: dig_code)
  next
    case False
    then obtain bs where bs: "li_digits \<lparr>li_neg = neg, li_buf = []\<rparr> (digits 10 (n div 10)) = Inr \<lparr>li_neg = neg, li_buf = bs\<rparr>"
      "normal bs" "le_val bs = n div 10" using less.IH [of "n div 10"] by auto
    have "le_val (li_append bs (n mod 10)) = n" using bs(3) by (simp add: li_append_val)
    moreover have "digits 10 n = digits 10 (n div 10) @ [dig (n mod 10)]" using False by (subst digits.simps) simp
    ultimately show ?thesis using bs(1) li_append_normal [OF bs(2), of "n mod 10"]
      by (simp add: li_digits_append dig_code)
  qed
qed

text \<open>The integer a \<open>LongInteger\<close> stands for; zero has one form.\<close>

definition li_int :: "LongInteger \<Rightarrow> int" where
  "li_int l = (if li_neg l then - int (le_val (li_buf l)) else int (le_val (li_buf l)))"

definition li_normal :: "LongInteger \<Rightarrow> bool" where
  "li_normal l \<longleftrightarrow> normal (li_buf l) \<and> (li_neg l \<longrightarrow> li_buf l \<noteq> [])"

lemma normal_zero: "normal bs \<Longrightarrow> le_val bs = 0 \<longleftrightarrow> bs = []"
proof (cases "bs = []")
  case False
  assume "normal bs"
  have "0 < (256 :: nat) ^ (length bs - 1)" by simp
  also have "\<dots> \<le> le_val bs" by (rule le_val_ge [OF \<open>normal bs\<close> False])
  finally show ?thesis using False by simp
qed simp

lemma li_of_decimal: "\<exists>l. li_of_string (int_to_dec i) = Inr l \<and> li_normal l \<and> li_int l = i"
proof (cases "i < 0")
  case True
  obtain bs where "li_digits \<lparr>li_neg = True, li_buf = []\<rparr> (digits 10 (nat (- i))) = Inr \<lparr>li_neg = True, li_buf = bs\<rparr>"
    "normal bs" "le_val bs = nat (- i)" using li_digits_digits by blast
  then show ?thesis using True normal_zero [of bs]
    by (auto simp: li_of_string_def int_to_dec_def li_normal_def li_int_def)
next
  case False
  obtain bs where bs: "li_digits \<lparr>li_neg = False, li_buf = []\<rparr> (digits 10 (nat i)) = Inr \<lparr>li_neg = False, li_buf = bs\<rparr>"
    "normal bs" "le_val bs = nat i" using li_digits_digits by blast
  have "list_all (in_base 10) (digits 10 (nat i))" by (rule list_all_digits) simp_all
  then have "hd (digits 10 (nat i)) \<noteq> CHR ''-''"
    using digit_not_special digits_ne [of 10 "nat i"] by (cases "digits 10 (nat i)") auto
  then show ?thesis using False bs
    by (auto simp: li_of_string_def int_to_dec_def li_normal_def li_int_def)
qed

lemma li_cmp_int:
  assumes "li_normal a" "li_normal b"
  shows "li_cmp a b = sgn (li_int a - li_int b)"
proof -
  have pos: "li_neg a \<Longrightarrow> 0 < le_val (li_buf a)" "li_neg b \<Longrightarrow> 0 < le_val (li_buf b)"
    using assms normal_zero [of "li_buf a"] normal_zero [of "li_buf b"] by (auto simp: li_normal_def)
  note m = magnitude_cmp [of "li_buf a" "li_buf b"]
  have c: "li_cmp a b = (if li_neg a \<noteq> li_neg b then (if li_neg b then 1 else 0) - (if li_neg a then 1 else 0)
      else if \<not> li_neg a then sgn (int (le_val (li_buf a)) - int (le_val (li_buf b)))
      else - sgn (int (le_val (li_buf a)) - int (le_val (li_buf b))))"
    using m assms by (simp add: li_cmp_def li_normal_def Let_def)
  show ?thesis unfolding c li_int_def using pos by (auto simp: sgn_if)
qed

lemma li_sign_int: "li_normal l \<Longrightarrow> li_sign l = sgn (li_int l)"
  using normal_zero [of "li_buf l"] by (auto simp: li_sign_def li_normal_def li_int_def sgn_if)

lemma decimal_integers:
  "(\<exists>a b. li_of_string (int_to_dec i) = Inr a \<and> li_of_string (int_to_dec j) = Inr b \<and>
      li_cmp a b = sgn (i - j) \<and> li_sign a = sgn i) \<and>
   isDecimal (int_to_dec i) \<and> isNatural (int_to_dec i) = (0 \<le> i) \<and>
   (\<exists>a b. li_of_string ''-0'' = Inr a \<and> li_of_string ''0'' = Inr b \<and> li_cmp a b = - 1 \<and> li_sign a = li_sign b)"
proof -
  obtain a where a: "li_of_string (int_to_dec i) = Inr a" "li_normal a" "li_int a = i" using li_of_decimal by blast
  obtain b where b: "li_of_string (int_to_dec j) = Inr b" "li_normal b" "li_int b = j" using li_of_decimal by blast
  have "0 \<le> li_sign a \<longleftrightarrow> 0 \<le> i" using li_sign_int [OF a(2)] a(3) by (simp add: sgn_if)
  moreover have "\<exists>a b. li_of_string ''-0'' = Inr a \<and> li_of_string ''0'' = Inr b \<and> li_cmp a b = - 1 \<and> li_sign a = li_sign b"
    by (simp add: li_of_string_def li_append.simps li_cmp_def li_sign_def)
  ultimately show ?thesis using a b li_cmp_int [OF a(2) b(2)] li_sign_int [OF a(2)]
    by (auto simp: isDecimal_def isNatural_def)
qed

section \<open>Timestamps\<close>

text \<open>A text of digits is taken as milliseconds, where integers are seconds.\<close>

lemma write_digits_timestamp:
  assumes "prim_of t = ''timestamp''" and "n \<le> 8640000000000000"
  shows "write_leaf L t (StringLit (int_to_dec (int n))) = Inr (IntLit (int_to_dec (int n div 1000)))"
proof -
  have "isNatural (int_to_dec (int n))" using decimal_integers [of "int n" 0] by simp
  then have "parseDate (StringLit (int_to_dec (int n))) = Some (Some (int n))"
    using assms(2) by (simp add: parseDate_def time_clip_def)
  then show ?thesis using assms(1) by (simp add: write_leaf_def)
qed

text \<open>The first second of the year 10000.\<close>

lemma year_10000: "toISOString 253402300800000 = Some ''+010000-01-01T00:00:00.000Z''"
proof -
  have "civil 2932897 = (10000, 1, 1)" by (simp add: civil_def epoch_day_def day_from_year_def months_def)
  moreover have "replicate 2 (CHR ''0'') = ''00''" by (simp add: numeral_2_eq_2)
  ultimately show ?thesis by (simp add: toISOString_def pad2_def padStart_def digits.simps dig_def)
qed

lemma year_10000_unread: "parseDate (StringLit ''+010000-01-01T00:00Z'') = None"
  by (simp add: parseDate_def isNatural_def li_of_string_def rfc3339Re_def)

text \<open>A day that the month does not have, and a leap second.\<close>

lemma write_past_month:
  "prim_of t = ''timestamp'' \<Longrightarrow> past_month y mo d h mi s \<Longrightarrow> write_leaf L t (StringLit (date_text y mo d h mi s)) =
     write_leaf L t (StringLit (date_text y (mo + 1) (d - months y ! (mo - 1)) h mi s)) \<and>
   (\<exists>sec. write_leaf L t (StringLit (date_text y mo d h mi s)) = Inr (IntLit (int_to_dec sec)))"
  using parse_past_month [of y mo d h mi s] by (auto simp: write_leaf_def)

lemma write_leap_second:
  assumes "prim_of t = ''timestamp''" "y \<le> 9999" "1 \<le> mo" "mo \<le> 12" "1 \<le> d" "d \<le> 31" "h < 24" "mi < 60"
  shows "write_leaf L t (StringLit (date_text y mo d h mi 60)) = Inr (IntLit ''NaN'')"
  using parse_leap_second [OF assms(2-8)] assms(1) by (simp add: write_leaf_def)

end
