(* ===== verification/TypeBase.thy ===== *)
theory TypeBase
  imports PackData Macros
begin

text \<open>
  The Michelson type checker (\<open>michelson-typecheck.ts\<close>), first part: types as the checker
  keeps them on its stack, their annotations, equality of types and the shapes of combs.  A
  type is an expression in which an address may refer to the contract it is the address of (the
  property \<open>refContract\<close>).  Where the source reads an argument that a type or an instruction does
  not have, the model raises the \<open>TypeError\<close> at once, the source when the value is used.
\<close>

section \<open>Types and results\<close>

datatype (plugins only: size code) mtype =
    MPrim string "mtype list option" "string list option" "mtype option"
  | MSeq "mtype list"
  | MLit expr

fun embed :: "expr \<Rightarrow> mtype" where
  "embed (Prim p args an) = MPrim p (map_option (map embed) args) an None"
| "embed (Seq xs) = MSeq (map embed xs)"
| "embed e = MLit e"

fun plain :: "mtype \<Rightarrow> expr" where
  "plain (MPrim p args an r) = Prim p (map_option (map plain) args) an"
| "plain (MSeq xs) = Seq (map plain xs)"
| "plain (MLit e) = e"

datatype (plugins only: size code) tc_error =
    TypeMismatch mtype string
  | BadData mtype expr
  | InstructionError expr string
  | InvalidExpr validation_error
  | UtilError pack_error
  | MichelsonErr string
  | JsFault string

type_synonym 'a tc = "tc_error + 'a"

text \<open>What a function returns: a stack, or that it fails with a type at a nesting level.\<close>

datatype (plugins only: size code) MichelsonReturnType = Stack "mtype list" | Failed mtype nat

record Context =
  ctx_protocol :: "Protocol option"
  ctx_contract :: "expr list option"

definition ctx_proto :: "Context \<Rightarrow> Protocol" where
  "ctx_proto ctx = (case ctx_protocol ctx of Some p \<Rightarrow> p | None \<Rightarrow> DefaultProtocol)"

abbreviation ty :: "string \<Rightarrow> mtype" where
  "ty p \<equiv> MPrim p None None None"

abbreviation ty_of :: "string \<Rightarrow> mtype list \<Rightarrow> mtype" where
  "ty_of p xs \<equiv> MPrim p (Some xs) None None"

text \<open>Errors of other checks, as those of the checker.\<close>

definition valid :: "check \<Rightarrow> unit tc" where
  "valid r = (case r of Inl e \<Rightarrow> Inl (InvalidExpr e) | Inr u \<Rightarrow> Inr u)"

definition util :: "'a pk \<Rightarrow> 'a tc" where
  "util r = (case r of Inl e \<Rightarrow> Inl (UtilError e) | Inr x \<Rightarrow> Inr x)"

text \<open>\<open>rethrow(fn)\<close>: a \<open>MichelsonError\<close> becomes an error of the instruction.\<close>

fun is_michelson_error :: "tc_error \<Rightarrow> bool" where
  "is_michelson_error (UtilError (UnexpectedAnnotation p v)) = True"
| "is_michelson_error (UtilError e) = False"
| "is_michelson_error (JsFault s) = False"
| "is_michelson_error e = True"

definition rethrow :: "expr \<Rightarrow> 'a tc \<Rightarrow> 'a tc" where
  "rethrow inst r =
     (case r of Inl e \<Rightarrow> Inl (if is_michelson_error e then InstructionError inst ''message'' else e) | Inr x \<Rightarrow> Inr x)"

section \<open>Parts of a type\<close>

definition typeID :: "mtype \<Rightarrow> string" where
  "typeID t = (case t of MSeq xs \<Rightarrow> ''pair'' | MPrim p args an r \<Rightarrow> p | MLit e \<Rightarrow> [])"

definition is_pair_type :: "mtype \<Rightarrow> bool" where
  "is_pair_type t \<longleftrightarrow> (case t of MSeq xs \<Rightarrow> True | MPrim p args an r \<Rightarrow> p = ''pair'' | MLit e \<Rightarrow> False)"

definition typeArgs :: "mtype \<Rightarrow> mtype list tc" where
  "typeArgs t =
     (case t of MSeq xs \<Rightarrow> Inr xs | MPrim p (Some xs) an r \<Rightarrow> Inr xs | _ \<Rightarrow> Inl (JsFault ''args''))"

definition nth_arg :: "mtype list \<Rightarrow> nat \<Rightarrow> mtype tc" where
  "nth_arg xs i = (if i < length xs then Inr (xs ! i) else Inl (JsFault ''undefined''))"

text \<open>\<open>t.args[i]\<close>.\<close>

definition targ :: "mtype \<Rightarrow> nat \<Rightarrow> mtype tc" where
  "targ t i = (case t of MPrim p (Some xs) an r \<Rightarrow> nth_arg xs i | _ \<Rightarrow> Inl (JsFault ''args''))"

text \<open>\<open>unpackComb('pair', t)\<close>: the two components, and the type rebuilt with other ones.\<close>

definition comb_parts :: "mtype \<Rightarrow> (mtype \<times> mtype) tc" where
  "comb_parts t = bindR (typeArgs t) (\<lambda>xs.
     case xs of
       [] \<Rightarrow> Inl (JsFault ''undefined'')
     | [a, b] \<Rightarrow> Inr (a, b)
     | a # as \<Rightarrow> Inr (a, ty_of ''pair'' as))"

definition comb_with :: "mtype \<Rightarrow> mtype list \<Rightarrow> mtype" where
  "comb_with t args =
     (case t of
        MPrim p (Some xs) an r \<Rightarrow> if length xs = 2 then ty_of ''pair'' args else MPrim p (Some args) an r
      | _ \<Rightarrow> ty_of ''pair'' args)"

definition type_annots :: "mtype \<Rightarrow> UnpackedAnnotations tc" where
  "type_annots t = util (unpackAnnotations (plain t) \<lparr>specialVar = False, emptyVar = False, specialFields = False, emptyFields = False\<rparr>)"

text \<open>The size of a type, with one for each place among the arguments.\<close>

lemma mtype_mem_size: "x \<in> set xs \<Longrightarrow> size x \<le> size_list size (xs :: mtype list)"
  by (induction xs) auto

function tsize :: "mtype \<Rightarrow> nat" where
  "tsize (MPrim p (Some xs) an r) = 1 + sum_list (map (\<lambda>x. tsize x + 1) xs)"
| "tsize (MPrim p None an r) = 1"
| "tsize (MSeq xs) = 1 + sum_list (map (\<lambda>x. tsize x + 1) xs)"
| "tsize (MLit e) = 1"
  by (auto, metis mtype.exhaust option.exhaust)
termination
  by (relation "measure size") (auto dest: mtype_mem_size)

lemma tsize_mem: "x \<in> set xs \<Longrightarrow> tsize x < 1 + sum_list (map (\<lambda>x. tsize x + 1) xs)"
  using member_le_sum_list [of "tsize x + 1" "map (\<lambda>x. tsize x + 1) xs"] by auto

lemma targ_size: "targ t i = Inr u \<Longrightarrow> tsize u < tsize t"
proof -
  assume "targ t i = Inr u"
  then obtain p xs an r where t: "t = MPrim p (Some xs) an r" "u \<in> set xs"
    by (auto simp: targ_def nth_arg_def split: mtype.splits option.splits if_splits)
  show ?thesis using tsize_mem [OF t(2)] unfolding t(1) tsize.simps .
qed

lemma comb_parts_size:
  assumes "comb_parts t = Inr (a, b)"
  shows "tsize a < tsize t \<and> tsize b < tsize t"
proof -
  obtain xs where xs: "typeArgs t = Inr xs" using assms by (auto simp: comb_parts_def bindR_eq_Inr)
  then have "tsize t = 1 + sum_list (map (\<lambda>x. tsize x + 1) xs)"
    by (auto simp: typeArgs_def split: mtype.splits option.splits)
  then show ?thesis using assms xs by (auto simp: comb_parts_def split: list.splits)
qed

section \<open>Equality of types\<close>

text \<open>\<open>parseInt(x.int, 10)\<close>, NaN when there is none.\<close>

definition memo_size :: "mtype \<Rightarrow> int option" where
  "memo_size t = (case t of MLit (IntLit i) \<Rightarrow> js_parseInt 10 i | _ \<Rightarrow> None)"

definition names_differ :: "string list option \<Rightarrow> string list option \<Rightarrow> bool" where
  "names_differ a b = (case (a, b) of (Some (x # xs), Some (y # ys)) \<Rightarrow> x \<noteq> y | _ \<Rightarrow> False)"

definition same_head :: "mtype \<Rightarrow> mtype \<Rightarrow> bool \<Rightarrow> unit tc" where
  "same_head a b field =
     (if typeID a \<noteq> typeID b then Inl (TypeMismatch a ''types mismatch'')
      else bindR (type_annots a) (\<lambda>ann0. bindR (type_annots b) (\<lambda>ann1.
        if names_differ (ann_t ann0) (ann_t ann1) then Inl (TypeMismatch a ''type names mismatch'')
        else if field \<and> names_differ (ann_f ann0) (ann_f ann1) then Inl (TypeMismatch a ''field names mismatch'')
        else Inr ())))"

text \<open>Which arguments of a type are compared, and whether as fields.\<close>

definition compared :: "string \<Rightarrow> (nat \<times> bool) list" where
  "compared p =
     (if in_list p [''option'', ''list'', ''contract'', ''set'', ''ticket''] then [(0, False)]
      else if p = ''or'' then [(0, True), (1, True)]
      else if in_list p [''lambda'', ''map'', ''big_map''] then [(0, False), (1, False)]
      else [])"

function assertScalarTypesEqual :: "mtype \<Rightarrow> mtype \<Rightarrow> bool \<Rightarrow> unit tc" where
  "assertScalarTypesEqual a b field =
     bindR (same_head a b field) (\<lambda>_.
       if is_pair_type a then
         (case comb_parts a of
            Inl e \<Rightarrow> Inl e
          | Inr (a0, a1) \<Rightarrow>
              bindR (comb_parts b) (\<lambda>(b0, b1).
              bindR (assertScalarTypesEqual a0 b0 True) (\<lambda>_. assertScalarTypesEqual a1 b1 True)))
       else if in_list (typeID a) [''sapling_state'', ''sapling_transaction''] then
         bindR (targ a 0) (\<lambda>m. bindR (targ b 0) (\<lambda>n.
           if memo_size m \<noteq> None \<and> memo_size m = memo_size n then Inr ()
           else Inl (TypeMismatch a ''type argument mismatch'')))
       else eachR (\<lambda>(i, f).
              case targ a i of
                Inl e \<Rightarrow> Inl e
              | Inr x \<Rightarrow> bindR (targ b i) (\<lambda>y. assertScalarTypesEqual x y f)) (compared (typeID a)))"
  by pat_completeness auto

termination
  by (relation "measure (\<lambda>(a, b, field). tsize a)") (auto dest: targ_size comb_parts_size)

declare assertScalarTypesEqual.simps [simp del]

fun stacksEqual :: "mtype list \<Rightarrow> mtype list \<Rightarrow> unit tc" where
  "stacksEqual (x # xs) (y # ys) = bindR (assertScalarTypesEqual x y False) (\<lambda>_. stacksEqual xs ys)"
| "stacksEqual _ _ = Inr ()"

definition assertStacksEqual :: "mtype list \<Rightarrow> mtype list \<Rightarrow> unit tc" where
  "assertStacksEqual a b =
     (if length a \<noteq> length b then Inl (TypeMismatch (MSeq a) ''stack length mismatch'') else stacksEqual a b)"

section \<open>Annotations of types\<close>

definition count_ann :: "string list option \<Rightarrow> nat" where
  "count_ann a = (case a of None \<Rightarrow> 0 | Some xs \<Rightarrow> length xs)"

definition checkAnnotations :: "mtype \<Rightarrow> bool \<Rightarrow> unit tc" where
  "checkAnnotations t field =
     (case t of
        MSeq xs \<Rightarrow> Inr ()
      | _ \<Rightarrow> bindR (type_annots t) (\<lambda>ann.
          if 1 < count_ann (ann_t ann) then Inl (TypeMismatch t ''at most one type annotation allowed'')
          else if field \<and> 1 < count_ann (ann_f ann) then Inl (TypeMismatch t ''at most one field annotation allowed'')
          else if \<not> field \<and> 0 < count_ann (ann_f ann) then Inl (TypeMismatch t ''field annotations not allowed'')
          else Inr ()))"

lemma typeArgs_size: "typeArgs t = Inr xs \<Longrightarrow> x \<in> set xs \<Longrightarrow> tsize x < tsize t"
proof -
  assume t: "typeArgs t = Inr xs" and x: "x \<in> set xs"
  have "tsize t = 1 + sum_list (map (\<lambda>x. tsize x + 1) xs)"
    using t by (auto simp: typeArgs_def split: mtype.splits option.splits)
  then show ?thesis using tsize_mem [OF x] by simp
qed

function assertTypeAnnotationsValid :: "mtype \<Rightarrow> bool \<Rightarrow> unit tc" where
  "assertTypeAnnotationsValid t field =
     bindR (checkAnnotations t field) (\<lambda>_.
       if is_pair_type t \<or> typeID t = ''or'' then
         (case typeArgs t of Inl e \<Rightarrow> Inl e | Inr xs \<Rightarrow> eachR (\<lambda>a. assertTypeAnnotationsValid a True) xs)
       else
         eachR (\<lambda>i. case targ t i of Inl e \<Rightarrow> Inl e | Inr x \<Rightarrow> assertTypeAnnotationsValid x False)
           (if in_list (typeID t) [''option'', ''list'', ''contract'', ''set''] then [0]
            else if in_list (typeID t) [''lambda'', ''map'', ''big_map''] then [0, 1] else []))"
  by pat_completeness auto
termination
  by (relation "measure (\<lambda>(t, field). tsize t)") (auto dest: targ_size typeArgs_size)

declare assertTypeAnnotationsValid.simps [simp del]

end
