(* ===== verification/TypeInst.thy ===== *)
theory TypeInst
  imports TypeBase
begin

text \<open>
  The type checker, second part: annotations of instructions and results, and the instructions
  that check no other code.  Each gives the types it pushes and how many it takes off the stack
  (\<open>[..., ...stack.slice(k)]\<close>), grouped as follows: stack shuffling, pairs, collections,
  arithmetic, constants and environment, tickets and the rest.  A numeral argument is a number
  that is not negative, as the validator demands; another text is the error \<open>numeral\<close>.
\<close>

section \<open>Arguments and annotations of an instruction\<close>

text \<open>\<open>args(n, ...typeIds)\<close>: the types at \<open>n\<close> and below, each one of those named.\<close>

definition stackArgs :: "expr \<Rightarrow> mtype list \<Rightarrow> nat \<Rightarrow> string list list \<Rightarrow> mtype list tc" where
  "stackArgs inst stack n typeIds =
     (if length stack < length typeIds + n then Inl (InstructionError inst ''stack too short'')
      else if list_all2 (\<lambda>ids t. ids = [] \<or> in_list (typeID t) ids) typeIds (take (length typeIds) (drop n stack))
        then Inr (take (length typeIds) (drop n stack))
      else Inl (InstructionError inst ''stack type mismatch''))"

text \<open>The same, for a fixed number of arguments.\<close>

definition args1 :: "expr \<Rightarrow> mtype list \<Rightarrow> nat \<Rightarrow> string list \<Rightarrow> mtype tc" where
  "args1 inst stack n ids = bindR (stackArgs inst stack n [ids]) (\<lambda>s. Inr (hd s))"

definition args2 :: "expr \<Rightarrow> mtype list \<Rightarrow> nat \<Rightarrow> string list \<Rightarrow> string list \<Rightarrow> (mtype \<times> mtype) tc" where
  "args2 inst stack n ids0 ids1 = bindR (stackArgs inst stack n [ids0, ids1]) (\<lambda>s. Inr (s ! 0, s ! 1))"

definition args3 ::
    "expr \<Rightarrow> mtype list \<Rightarrow> nat \<Rightarrow> string list \<Rightarrow> string list \<Rightarrow> string list \<Rightarrow> (mtype \<times> mtype \<times> mtype) tc" where
  "args3 inst stack n ids0 ids1 ids2 = bindR (stackArgs inst stack n [ids0, ids1, ids2]) (\<lambda>s. Inr (s ! 0, s ! 1, s ! 2))"

text \<open>\<open>argAnn\<close> of a type, and the annotations of the instruction with their largest numbers.\<close>

definition argAnn :: "expr \<Rightarrow> mtype \<Rightarrow> UnpackedAnnotations tc" where
  "argAnn inst t = rethrow inst (type_annots t)"

record ann_limits =
  lim_f :: nat
  lim_t :: nat
  lim_v :: nat

definition instructionAnn :: "expr \<Rightarrow> ann_limits \<Rightarrow> bool \<Rightarrow> bool \<Rightarrow> UnpackedAnnotations tc" where
  "instructionAnn inst num special_var special_fields =
     bindR (rethrow inst (util (unpackAnnotations inst
         \<lparr>specialVar = special_var, emptyVar = 1 < lim_v num, specialFields = special_fields, emptyFields = 1 < lim_f num\<rparr>)))
       (\<lambda>a. if lim_f num < count_ann (ann_f a) \<or> lim_t num < count_ann (ann_t a) \<or> lim_v num < count_ann (ann_v a)
            then Inl (InstructionError inst ''too many annotations'') else Inr a)"

abbreviation limits :: "nat \<Rightarrow> nat \<Rightarrow> nat \<Rightarrow> ann_limits" where
  "limits f t v \<equiv> \<lparr>lim_f = f, lim_t = t, lim_v = v\<rparr>"

text \<open>What \<open>annotate\<close> does with a class of annotations: \<open>undefined\<close>, \<open>null\<close>, or a list.\<close>

datatype (plugins only: size code) ann_spec = Undef | Keep | Put "string list"

definition spec_of :: "string list option \<Rightarrow> ann_spec" where
  "spec_of a = (case a of None \<Rightarrow> Undef | Some xs \<Rightarrow> Put xs)"

definition spec_list :: "ann_spec \<Rightarrow> string list option \<Rightarrow> string list" where
  "spec_list s src =
     (case s of Undef \<Rightarrow> [] | Keep \<Rightarrow> (case src of Some xs \<Rightarrow> xs | None \<Rightarrow> []) | Put xs \<Rightarrow> xs)"

fun set_annots :: "mtype \<Rightarrow> string list \<Rightarrow> mtype" where
  "set_annots (MPrim p xs an r) as = MPrim p xs (if as = [] then None else Some as) r"
| "set_annots (MSeq xs) as = MPrim ''pair'' (Some xs) (if as = [] then None else Some as) None"
| "set_annots (MLit e) as = MLit e"

definition annotate :: "expr \<Rightarrow> mtype \<Rightarrow> ann_spec \<Rightarrow> ann_spec \<Rightarrow> ann_spec \<Rightarrow> mtype tc" where
  "annotate inst t v tn f =
     bindR (argAnn inst t) (\<lambda>src.
       Inr (set_annots t (spec_list v (ann_v src) @ spec_list tn (ann_t src) @ spec_list f (ann_f src))))"

definition annotateVar :: "expr \<Rightarrow> mtype \<Rightarrow> string option \<Rightarrow> mtype tc" where
  "annotateVar inst t def =
     bindR (instructionAnn inst (limits 0 0 1) False False) (\<lambda>ia.
       annotate inst t (case ann_v ia of Some vs \<Rightarrow> Put vs | None \<Rightarrow> (case def of Some d \<Rightarrow> Put [d] | None \<Rightarrow> Keep)) Keep Undef)"

text \<open>\<open>annotate(t, instructionAnn(num))\<close>.\<close>

definition annotateAll :: "expr \<Rightarrow> mtype \<Rightarrow> ann_limits \<Rightarrow> mtype tc" where
  "annotateAll inst t num =
     bindR (instructionAnn inst num False False) (\<lambda>ia.
       annotate inst t (spec_of (ann_v ia)) (spec_of (ann_t ia)) (spec_of (ann_f ia)))"

definition ann_at :: "string list option \<Rightarrow> nat \<Rightarrow> string option" where
  "ann_at a n = (case a of Some xs \<Rightarrow> if n < length xs then Some (xs ! n) else None | None \<Rightarrow> None)"

definition annotateField ::
    "expr \<Rightarrow> mtype \<Rightarrow> mtype \<Rightarrow> UnpackedAnnotations \<Rightarrow> nat \<Rightarrow> string \<Rightarrow> mtype tc" where
  "annotateField inst arg field insAnn n defField =
     bindR (argAnn inst field) (\<lambda>fa.
       let fieldAnn = ann_at (ann_f fa) 0; insFieldAnn = ann_at (ann_f insAnn) n in
       if insFieldAnn \<noteq> None \<and> insFieldAnn \<noteq> Some ''%'' \<and> fieldAnn \<noteq> None \<and> insFieldAnn \<noteq> fieldAnn
       then Inl (InstructionError inst ''field names do not match'')
       else bindR (argAnn inst arg) (\<lambda>aa.
         let varAnn = ann_at (ann_v aa) 0;
             of_field = (case fieldAnn of Some fn \<Rightarrow> Put [CHR ''@'' # tl fn] | None \<Rightarrow> Undef) in
         annotate inst field
           (case ann_at (ann_v insAnn) n of
              None \<Rightarrow> Keep
            | Some v \<Rightarrow>
                if v = ''@%'' then of_field
                else if v = ''@%%'' then
                  (case varAnn of
                     Some w \<Rightarrow> Put [''@'' @ tl w @ ''.'' @ (case fieldAnn of Some fn \<Rightarrow> tl fn | None \<Rightarrow> defField)]
                   | None \<Rightarrow> of_field)
                else Put [v])
           Keep Undef))"

definition varSuffix :: "UnpackedAnnotations \<Rightarrow> string \<Rightarrow> string list" where
  "varSuffix a suffix = [''@'' @ (case ann_at (ann_v a) 0 of Some v \<Rightarrow> tl v @ ''.'' | None \<Rightarrow> []) @ suffix]"

section \<open>Combs\<close>

function getN :: "expr \<Rightarrow> mtype \<Rightarrow> nat \<Rightarrow> mtype list tc" where
  "getN inst src i =
     (case comb_parts src of
        Inl e \<Rightarrow> Inl e
      | Inr (a, b) \<Rightarrow>
          if i = 1 then Inr [a]
          else if i = 2 then Inr [a, b]
          else if is_pair_type b then bindR (getN inst b (i - 1)) (\<lambda>xs. Inr (a # xs))
          else Inl (InstructionError inst ''not enough fields''))"
  by pat_completeness auto
termination
  by (relation "measure (\<lambda>(inst, src, i). tsize src)") (auto dest: comb_parts_size)

function getNth :: "expr \<Rightarrow> mtype \<Rightarrow> nat \<Rightarrow> mtype tc" where
  "getNth inst src i =
     (if i = 0 then Inr src
      else case comb_parts src of
        Inl e \<Rightarrow> Inl e
      | Inr (a, b) \<Rightarrow>
          if i = 1 then Inr a
          else if is_pair_type b then getNth inst b (i - 2)
          else if i = 2 then Inr b
          else Inl (InstructionError inst ''not enough fields''))"
  by pat_completeness auto
termination
  by (relation "measure (\<lambda>(inst, src, i). tsize src)") (auto dest: comb_parts_size)

function updateNth :: "expr \<Rightarrow> mtype \<Rightarrow> mtype \<Rightarrow> nat \<Rightarrow> mtype tc" where
  "updateNth inst src x i =
     (if i = 0 then Inr x
      else case comb_parts src of
        Inl e \<Rightarrow> Inl e
      | Inr (a, b) \<Rightarrow>
          if i = 1 then Inr (comb_with src [x, b])
          else if is_pair_type b then bindR (updateNth inst b x (i - 2)) (\<lambda>u. Inr (comb_with src [a, u]))
          else if i = 2 then Inr (comb_with src [a, x])
          else Inl (InstructionError inst ''not enough fields''))"
  by pat_completeness auto
termination
  by (relation "measure (\<lambda>(inst, src, x, i). tsize src)") (auto dest: comb_parts_size)

declare getN.simps [simp del] getNth.simps [simp del] updateNth.simps [simp del]

text \<open>A numeral argument.\<close>

definition inst_nat :: "expr list option \<Rightarrow> nat \<Rightarrow> nat tc" where
  "inst_nat as i =
     (case arg_at as i of
        Some (IntLit t) \<Rightarrow> (case js_parseInt 10 t of Some k \<Rightarrow> if 0 \<le> k then Inr (nat k) else Inl (JsFault ''numeral'')
                            | None \<Rightarrow> Inl (JsFault ''numeral''))
      | _ \<Rightarrow> Inl (JsFault ''numeral''))"

definition inst_type :: "expr list option \<Rightarrow> nat \<Rightarrow> mtype tc" where
  "inst_type as i = (case arg_at as i of Some t \<Rightarrow> Inr (embed t) | None \<Rightarrow> Inl (JsFault ''args''))"

text \<open>The types pushed, and how many are taken off.\<close>

type_synonym effect = "mtype list \<times> nat"

abbreviation push1 :: "nat \<Rightarrow> mtype tc \<Rightarrow> effect tc" where
  "push1 k r \<equiv> bindR r (\<lambda>t. Inr ([t], k))"

abbreviation push2 :: "nat \<Rightarrow> mtype tc \<Rightarrow> mtype tc \<Rightarrow> effect tc" where
  "push2 k r q \<equiv> bindR r (\<lambda>t. bindR q (\<lambda>u. Inr ([t, u], k)))"

text \<open>Checks of other parts, with \<open>rethrow\<close>.\<close>

definition ensureTypesEqual :: "expr \<Rightarrow> mtype \<Rightarrow> mtype \<Rightarrow> unit tc" where
  "ensureTypesEqual inst a b = rethrow inst (assertScalarTypesEqual a b False)"

definition ensureStacksEqual :: "expr \<Rightarrow> mtype list \<Rightarrow> mtype list \<Rightarrow> unit tc" where
  "ensureStacksEqual inst a b = rethrow inst (assertStacksEqual a b)"

definition ensureKind :: "expr \<Rightarrow> type_kind \<Rightarrow> mtype \<Rightarrow> unit tc" where
  "ensureKind inst k t = rethrow inst (valid (typeCheck k (plain t)))"

definition var_spec :: "UnpackedAnnotations \<Rightarrow> nat \<Rightarrow> ann_spec" where
  "var_spec ia n = (case ann_at (ann_v ia) n of Some v \<Rightarrow> if v = ''@'' then Undef else Put [v] | None \<Rightarrow> Undef)"

abbreviation failure :: "expr \<Rightarrow> string \<Rightarrow> 'a tc" where
  "failure inst m \<equiv> Inl (InstructionError inst m)"

section \<open>Stack shuffling\<close>

definition dup_type :: "expr \<Rightarrow> nat \<Rightarrow> mtype list \<Rightarrow> effect tc" where
  "dup_type inst n stack =
     (if n = 0 then failure inst ''DUP 0 is forbidden''
      else bindR (args1 inst stack (n - 1) []) (\<lambda>s.
        if typeID s = ''ticket'' then failure inst ''ticket can not be DUPed'' else Inr ([s], 0)))"

definition drop_type :: "expr \<Rightarrow> nat \<Rightarrow> mtype list \<Rightarrow> effect tc" where
  "drop_type inst n stack =
     bindR (if n = 0 then Inr () else bindR (args1 inst stack (n - 1) []) (\<lambda>_. Inr ())) (\<lambda>_. Inr ([], n))"

definition count_arg :: "expr list option \<Rightarrow> nat \<Rightarrow> nat tc" where
  "count_arg as n = (case as of None \<Rightarrow> Inr n | Some xs \<Rightarrow> inst_nat as 0)"

definition stack_inst :: "expr \<Rightarrow> string \<Rightarrow> expr list option \<Rightarrow> mtype list \<Rightarrow> effect tc" where
  "stack_inst inst p as stack =
     (if p = ''DUP'' then bindR (count_arg as 1) (\<lambda>n. dup_type inst n stack)
      else if p = ''SWAP'' then
        bindR (args2 inst stack 0 [] []) (\<lambda>(a, b).
        bindR (instructionAnn inst (limits 0 0 0) False False) (\<lambda>_. Inr ([b, a], 2)))
      else if p = ''DROP'' then
        bindR (instructionAnn inst (limits 0 0 0) False False) (\<lambda>_.
        bindR (count_arg as 1) (\<lambda>n. drop_type inst n stack))
      else if p = ''DIG'' then
        bindR (instructionAnn inst (limits 0 0 0) False False) (\<lambda>_.
        bindR (inst_nat as 0) (\<lambda>n.
        bindR (args1 inst stack n []) (\<lambda>s. Inr (s # take n stack, n + 1))))
      else if p = ''DUG'' then
        bindR (instructionAnn inst (limits 0 0 0) False False) (\<lambda>_.
        bindR (inst_nat as 0) (\<lambda>n.
        bindR (args1 inst stack 0 []) (\<lambda>s. Inr (take n (drop 1 stack) @ [s], n + 1))))
      else if p = ''CAST'' then
        bindR (instructionAnn inst (limits 0 0 0) False False) (\<lambda>_.
        bindR (args1 inst stack 0 []) (\<lambda>s.
        bindR (inst_type as 0) (\<lambda>t.
        bindR (assertTypeAnnotationsValid t False) (\<lambda>_.
        bindR (ensureTypesEqual inst t s) (\<lambda>_. Inr ([t], 1))))))
      else bindR (args1 inst stack 0 []) (\<lambda>s. push1 1 (annotateVar inst s None)))"

section \<open>Pairs\<close>

text \<open>The part of a variable annotation after its last full stop.\<close>

definition trim_ann :: "string \<Rightarrow> string" where
  "trim_ann s = (if CHR ''.'' \<in> set (tl s) then rev (takeWhile (\<lambda>c. c \<noteq> CHR ''.'') (rev s)) else tl s)"

definition pair_field :: "expr \<Rightarrow> UnpackedAnnotations \<Rightarrow> nat \<Rightarrow> mtype \<Rightarrow> mtype tc" where
  "pair_field inst ia i v =
     bindR (argAnn inst v) (\<lambda>va.
       annotate inst v Keep Keep
         (case ann_at (ann_f ia) i of
            Some f \<Rightarrow> if f = ''%'' then Undef
                      else if f = ''%@'' then (case ann_at (ann_v va) 0 of Some w \<Rightarrow> Put [CHR ''%'' # trim_ann w] | None \<Rightarrow> Undef)
                      else Put [f]
          | None \<Rightarrow> Undef))"

fun mapiR :: "(nat \<Rightarrow> 'a \<Rightarrow> 'e + 'b) \<Rightarrow> nat \<Rightarrow> 'a list \<Rightarrow> 'e + 'b list" where
  "mapiR f i [] = Inr []"
| "mapiR f i (x # xs) = bindR (f i x) (\<lambda>y. bindR (mapiR f (Suc i) xs) (\<lambda>ys. Inr (y # ys)))"

definition pair_inst :: "expr \<Rightarrow> string \<Rightarrow> expr list option \<Rightarrow> mtype list \<Rightarrow> effect tc" where
  "pair_inst inst p as stack =
     (if p = ''PAIR'' then
        bindR (count_arg as 2) (\<lambda>n.
        if n < 2 then failure inst ''PAIR is forbidden''
        else bindR (stackArgs inst stack 0 (replicate n [])) (\<lambda>s.
             bindR (instructionAnn inst (limits n 1 1) False True) (\<lambda>ia.
             bindR (mapiR (pair_field inst ia) 0 s) (\<lambda>xs.
             push1 n (annotate inst (ty_of ''pair'' xs) (spec_of (ann_v ia)) (spec_of (ann_t ia)) Undef)))))
      else if p = ''UNPAIR'' then
        bindR (count_arg as 2) (\<lambda>n.
        if n < 2 then failure inst ''UNPAIR is forbidden''
        else bindR (args1 inst stack 0 [''pair'']) (\<lambda>s.
             bindR (instructionAnn inst (limits 2 0 2) True False) (\<lambda>ia.
             bindR (getN inst s n) (\<lambda>fields.
             bindR (mapiR (\<lambda>i field. annotateField inst s field ia i (if i = 0 then ''car'' else ''cdr'')) 0 fields) (\<lambda>xs.
             Inr (xs, 1))))))
      else if p = ''CAR'' \<or> p = ''CDR'' then
        bindR (args1 inst stack 0 [''pair'']) (\<lambda>s.
        bindR (comb_parts s) (\<lambda>(a, b).
        bindR (instructionAnn inst (limits 1 0 1) True False) (\<lambda>ia.
        push1 1 (annotateField inst (comb_with s [a, b]) (if p = ''CAR'' then a else b) ia 0 (if p = ''CAR'' then ''car'' else ''cdr'')))))
      else if p = ''GET'' then
        bindR (inst_nat as 0) (\<lambda>n.
        bindR (args1 inst stack 0 [''pair'']) (\<lambda>s.
        bindR (getNth inst s n) (\<lambda>t. push1 1 (annotateVar inst t None))))
      else
        bindR (inst_nat as 0) (\<lambda>n.
        bindR (args2 inst stack 0 [] [''pair'']) (\<lambda>(x, s).
        bindR (updateNth inst s x n) (\<lambda>t. push1 2 (annotateVar inst t None)))))"

section \<open>Collections, options and unions\<close>

text \<open>\<open>UPDATE\<close> without an argument.\<close>

definition update_coll :: "expr \<Rightarrow> mtype list \<Rightarrow> effect tc" where
  "update_coll inst stack =
     bindR (args2 inst stack 0 [] [''bool'', ''option'']) (\<lambda>(k, v).
     bindR (ensureKind inst Comparable k) (\<lambda>_.
     if typeID v = ''bool'' then
       bindR (args1 inst stack 2 [''set'']) (\<lambda>c.
       bindR (targ c 0) (\<lambda>ck.
       bindR (ensureTypesEqual inst k ck) (\<lambda>_.
       bindR (annotate inst k Undef Keep Undef) (\<lambda>k'. push1 3 (annotateVar inst (ty_of ''set'' [k']) None)))))
     else
       bindR (args1 inst stack 2 [''map'', ''big_map'']) (\<lambda>c.
       bindR (targ c 0) (\<lambda>ck.
       bindR (ensureTypesEqual inst k ck) (\<lambda>_.
       bindR (targ v 0) (\<lambda>vt.
       bindR (if typeID c = ''map'' then Inr () else ensureKind inst BigMapStorable vt) (\<lambda>_.
       bindR (annotate inst k Undef Keep Undef) (\<lambda>k'.
       bindR (annotate inst vt Undef Keep Undef) (\<lambda>v'.
       push1 3 (annotateVar inst (ty_of (typeID c) [k', v']) None))))))))))"

definition get_and_update :: "expr \<Rightarrow> mtype list \<Rightarrow> effect tc" where
  "get_and_update inst stack =
     bindR (instructionAnn inst (limits 0 0 2) False False) (\<lambda>ia.
     bindR (args3 inst stack 0 [] [''option''] [''map'', ''big_map'']) (\<lambda>(k, v, c).
     bindR (ensureKind inst Comparable k) (\<lambda>_.
     bindR (targ c 0) (\<lambda>ck.
     bindR (ensureTypesEqual inst k ck) (\<lambda>_.
     bindR (targ v 0) (\<lambda>vt.
     bindR (targ c 1) (\<lambda>cv.
     bindR (ensureTypesEqual inst vt cv) (\<lambda>_.
     bindR (if typeID c = ''map'' then Inr () else ensureKind inst BigMapStorable vt) (\<lambda>_.
     bindR (annotate inst k Undef Keep Undef) (\<lambda>k'.
     bindR (annotate inst vt Undef Keep Undef) (\<lambda>v'.
     push2 3 (annotate inst (ty_of ''option'' [cv]) (var_spec ia 0) Undef Undef)
       (annotate inst (ty_of (typeID c) [k', v']) (var_spec ia 1) Undef Undef))))))))))))"

definition left_right :: "expr \<Rightarrow> bool \<Rightarrow> expr list option \<Rightarrow> mtype list \<Rightarrow> effect tc" where
  "left_right inst left as stack =
     bindR (args1 inst stack 0 []) (\<lambda>s.
     bindR (instructionAnn inst (limits 2 1 1) False True) (\<lambda>ia.
     bindR (argAnn inst s) (\<lambda>va.
     bindR (annotate inst s Keep Keep
        (case ann_at (ann_f ia) 0 of
           Some f \<Rightarrow> if f = ''%'' then Undef
                     else if f = ''%@'' then (case ann_at (ann_v va) 0 of Some v \<Rightarrow> Put [CHR ''%'' # tl v] | None \<Rightarrow> Undef)
                     else spec_of (ann_f ia)
         | None \<Rightarrow> Undef)) (\<lambda>c0.
     bindR (inst_type as 0) (\<lambda>other.
     bindR (annotate inst other Undef Keep
        (case ann_at (ann_f ia) 1 of Some f \<Rightarrow> if f = ''%'' then Undef else spec_of (ann_f ia) | None \<Rightarrow> Undef)) (\<lambda>c1.
     push1 1 (annotate inst (ty_of ''or'' (if left then [c0, c1] else [c1, c0])) (spec_of (ann_v ia)) (spec_of (ann_t ia)) Undef)))))))"

definition coll_inst :: "expr \<Rightarrow> string \<Rightarrow> expr list option \<Rightarrow> mtype list \<Rightarrow> effect tc" where
  "coll_inst inst p as stack =
     (if p = ''SOME'' then
        bindR (args1 inst stack 0 []) (\<lambda>s. push1 1 (annotateAll inst (ty_of ''option'' [s]) (limits 0 1 1)))
      else if p = ''NONE'' \<or> p = ''NIL'' then
        bindR (inst_type as 0) (\<lambda>t.
        bindR (assertTypeAnnotationsValid t False) (\<lambda>_.
        push1 0 (annotateAll inst (ty_of (if p = ''NONE'' then ''option'' else ''list'') [t]) (limits 0 1 1))))
      else if p = ''LEFT'' \<or> p = ''RIGHT'' then left_right inst (p = ''LEFT'') as stack
      else if p = ''CONS'' then
        bindR (args2 inst stack 0 [] [''list'']) (\<lambda>(x, l).
        bindR (targ l 0) (\<lambda>t.
        bindR (ensureTypesEqual inst x t) (\<lambda>_. push1 2 (annotateVar inst (ty_of ''list'' [t]) None))))
      else if p = ''SIZE'' then
        bindR (args1 inst stack 0 [''string'', ''list'', ''set'', ''map'', ''bytes'']) (\<lambda>_. push1 1 (annotateVar inst (ty ''nat'') None))
      else if p = ''MEM'' then
        bindR (args2 inst stack 0 [] [''set'', ''map'', ''big_map'']) (\<lambda>(k, c).
        bindR (ensureKind inst Comparable k) (\<lambda>_.
        bindR (targ c 0) (\<lambda>ck.
        bindR (ensureTypesEqual inst k ck) (\<lambda>_. push1 2 (annotateVar inst (ty ''bool'') None)))))
      else if p = ''GET'' then
        bindR (args2 inst stack 0 [] [''map'', ''big_map'']) (\<lambda>(k, c).
        bindR (ensureKind inst Comparable k) (\<lambda>_.
        bindR (targ c 0) (\<lambda>ck.
        bindR (ensureTypesEqual inst k ck) (\<lambda>_.
        bindR (targ c 1) (\<lambda>cv. push1 2 (annotateVar inst (ty_of ''option'' [cv]) None))))))
      else if p = ''UPDATE'' then update_coll inst stack
      else if p = ''GET_AND_UPDATE'' then get_and_update inst stack
      else if p = ''EMPTY_SET'' then
        bindR (inst_type as 0) (\<lambda>t.
        bindR (assertTypeAnnotationsValid t False) (\<lambda>_.
        bindR (ensureKind inst Comparable t) (\<lambda>_.
        push1 0 (annotateAll inst (MPrim ''set'' (map_option (map embed) as) None None) (limits 0 1 1)))))
      else
        bindR (inst_type as 0) (\<lambda>t.
        bindR (assertTypeAnnotationsValid t False) (\<lambda>_.
        bindR (ensureKind inst Comparable t) (\<lambda>_.
        bindR (inst_type as 1) (\<lambda>u.
        bindR (assertTypeAnnotationsValid u False) (\<lambda>_.
        bindR (if p = ''EMPTY_BIG_MAP'' then ensureKind inst BigMapStorable t else Inr ()) (\<lambda>_.
        push1 0 (annotateAll inst (MPrim (if p = ''EMPTY_MAP'' then ''map'' else ''big_map'') (map_option (map embed) as) None None)
          (limits 0 1 1)))))))))"

section \<open>Texts, bytes and numbers\<close>

definition arith :: "expr \<Rightarrow> nat \<Rightarrow> mtype \<Rightarrow> effect tc" where
  "arith inst k t = push1 k (annotateVar inst t None)"

definition num_types :: "string list" where
  "num_types = [''nat'', ''int'', ''timestamp'', ''mutez'', ''bls12_381_g1'', ''bls12_381_g2'', ''bls12_381_fr'']"

definition add_inst :: "expr \<Rightarrow> mtype list \<Rightarrow> effect tc" where
  "add_inst inst stack =
     bindR (args2 inst stack 0 num_types num_types) (\<lambda>(s0, s1).
       let a = typeID s0; b = typeID s1 in
       if a = ''nat'' \<and> b = ''int'' \<or> a = ''int'' \<and> b = ''nat'' then arith inst 2 (ty ''int'')
       else if a = ''int'' \<and> b = ''timestamp'' \<or> a = ''timestamp'' \<and> b = ''int'' then arith inst 2 (ty ''timestamp'')
       else if in_list a [''int'', ''nat'', ''mutez'', ''bls12_381_g1'', ''bls12_381_g2'', ''bls12_381_fr''] \<and> a = b
         then arith inst 2 s0
       else failure inst ''can not add'')"

definition sub_inst :: "Protocol \<Rightarrow> expr \<Rightarrow> mtype list \<Rightarrow> effect tc" where
  "sub_inst proto inst stack =
     (let ids = (if ProtoInferiorTo proto PsiThaCa then [''nat'', ''int'', ''timestamp'', ''mutez'']
                 else [''nat'', ''int'', ''timestamp'']) in
      bindR (args2 inst stack 0 ids ids) (\<lambda>(s0, s1).
       let a = typeID s0; b = typeID s1 in
       if (a = ''nat'' \<or> a = ''int'') \<and> (b = ''nat'' \<or> b = ''int'') \<or> a = ''timestamp'' \<and> b = ''timestamp''
         then arith inst 2 (ty ''int'')
       else if a = ''timestamp'' \<and> b = ''int'' then arith inst 2 (ty ''timestamp'')
       else if a = ''mutez'' \<and> b = ''mutez'' then arith inst 2 (ty ''mutez'')
       else failure inst ''can not subtract''))"

definition mul_inst :: "expr \<Rightarrow> mtype list \<Rightarrow> effect tc" where
  "mul_inst inst stack =
     (let ids = [''nat'', ''int'', ''mutez'', ''bls12_381_g1'', ''bls12_381_g2'', ''bls12_381_fr''] in
      bindR (args2 inst stack 0 ids ids) (\<lambda>(s0, s1).
       let a = typeID s0; b = typeID s1; num = (\<lambda>x. x = ''nat'' \<or> x = ''int'') in
       if a = ''nat'' \<and> b = ''int'' \<or> a = ''int'' \<and> b = ''nat'' then arith inst 2 (ty ''int'')
       else if a = ''nat'' \<and> b = ''mutez'' \<or> a = ''mutez'' \<and> b = ''nat'' then arith inst 2 (ty ''mutez'')
       else if in_list a [''bls12_381_g1'', ''bls12_381_g2'', ''bls12_381_fr''] \<and> b = ''bls12_381_fr'' \<or> num a \<and> a = b
         then arith inst 2 s0
       else if num a \<and> b = ''bls12_381_fr'' \<or> num b \<and> a = ''bls12_381_fr'' then arith inst 2 (ty ''bls12_381_fr'')
       else failure inst ''can not multiply''))"

definition ediv_inst :: "expr \<Rightarrow> mtype list \<Rightarrow> effect tc" where
  "ediv_inst inst stack =
     (let ids = [''nat'', ''int'', ''mutez''];
          res = (\<lambda>q r. arith inst 2 (ty_of ''option'' [ty_of ''pair'' [ty q, ty r]])) in
      bindR (args2 inst stack 0 ids ids) (\<lambda>(s0, s1).
       let a = typeID s0; b = typeID s1; num = (\<lambda>x. x = ''nat'' \<or> x = ''int'') in
       if a = ''nat'' \<and> b = ''nat'' then res ''nat'' ''nat''
       else if num a \<and> num b then res ''int'' ''nat''
       else if a = ''mutez'' \<and> b = ''nat'' then res ''mutez'' ''mutez''
       else if a = ''mutez'' \<and> b = ''mutez'' then res ''nat'' ''mutez''
       else failure inst ''can not divide''))"

text \<open>\<open>OR\<close> and \<open>XOR\<close>, and \<open>AND\<close>, which also takes an \<open>int\<close> and a \<open>nat\<close>.\<close>

definition logic_inst :: "expr \<Rightarrow> bool \<Rightarrow> mtype list \<Rightarrow> effect tc" where
  "logic_inst inst land stack =
     bindR (args2 inst stack 0 ([''nat'', ''bytes'', ''bool''] @ (if land then [''int''] else [])) [''nat'', ''bytes'', ''bool'']) (\<lambda>(s0, s1).
       if \<not> (land \<and> typeID s0 = ''int'' \<and> typeID s1 = ''nat'') \<and> typeID s0 \<noteq> typeID s1
       then failure inst ''both arguments must be of the same type''
       else arith inst 2 s1)"

text \<open>Instructions from one type to one type.\<close>

definition unary :: "expr \<Rightarrow> mtype list \<Rightarrow> string list \<Rightarrow> mtype \<Rightarrow> effect tc" where
  "unary inst stack ids t = bindR (args1 inst stack 0 ids) (\<lambda>_. arith inst 1 t)"

definition arith_inst :: "Protocol \<Rightarrow> expr \<Rightarrow> string \<Rightarrow> mtype list \<Rightarrow> effect tc" where
  "arith_inst proto inst p stack =
     (if p = ''ADD'' then add_inst inst stack
      else if p = ''SUB'' then sub_inst proto inst stack
      else if p = ''SUB_MUTEZ'' then
        bindR (args2 inst stack 0 [''mutez''] [''mutez'']) (\<lambda>_. arith inst 2 (ty_of ''option'' [ty ''mutez'']))
      else if p = ''MUL'' then mul_inst inst stack
      else if p = ''EDIV'' then ediv_inst inst stack
      else if p = ''ABS'' then unary inst stack [''int''] (ty ''nat'')
      else if p = ''ISNAT'' then unary inst stack [''int''] (ty_of ''option'' [ty ''nat''])
      else if p = ''INT'' then unary inst stack [''nat'', ''bls12_381_fr'', ''bytes''] (ty ''int'')
      else if p = ''BYTES'' then unary inst stack [''nat'', ''int''] (ty ''bytes'')
      else if p = ''NAT'' then unary inst stack [''bytes''] (ty ''nat'')
      else if p = ''NEG'' then
        bindR (args1 inst stack 0 [''nat'', ''int'', ''bls12_381_g1'', ''bls12_381_g2'', ''bls12_381_fr'']) (\<lambda>s.
          arith inst 1 (if typeID s = ''nat'' \<or> typeID s = ''int'' then ty ''int'' else s))
      else if p = ''LSL'' \<or> p = ''LSR'' then
        bindR (args2 inst stack 0 [''nat'', ''bytes''] [''nat'', ''bytes'']) (\<lambda>_. arith inst 2 (ty ''nat''))
      else if p = ''OR'' \<or> p = ''XOR'' then logic_inst inst False stack
      else if p = ''AND'' then logic_inst inst True stack
      else if p = ''NOT'' then
        bindR (args1 inst stack 0 [''nat'', ''bytes'', ''bool'', ''int'']) (\<lambda>s.
          arith inst 1 (if typeID s = ''bool'' then ty ''bool'' else ty ''int''))
      else if p = ''COMPARE'' then
        bindR (args2 inst stack 0 [] []) (\<lambda>(s0, s1).
        bindR (ensureKind inst Comparable s0) (\<lambda>_.
        bindR (ensureKind inst Comparable s1) (\<lambda>_. arith inst 2 (ty ''int''))))
      else unary inst stack [''int''] (ty ''bool''))"

section \<open>Texts and constants of the environment\<close>

definition concat_inst :: "expr \<Rightarrow> mtype list \<Rightarrow> effect tc" where
  "concat_inst inst stack =
     bindR (args1 inst stack 0 [''string'', ''list'', ''bytes'']) (\<lambda>s0.
       if typeID s0 = ''list'' then
         bindR (targ s0 0) (\<lambda>t.
           if typeID t \<noteq> ''string'' \<and> typeID t \<noteq> ''bytes'' then failure inst ''can not concatenate''
           else push1 1 (annotateVar inst t None))
       else
         bindR (args1 inst stack 1 [''string'', ''bytes'']) (\<lambda>s1.
           if typeID s0 \<noteq> typeID s1 then failure inst ''can not concatenate''
           else push1 2 (annotateVar inst s1 None)))"

text \<open>What is pushed without looking at the stack, with the default variable annotation.\<close>

fun environment :: "string \<Rightarrow> (string \<times> string option) option" where
  "environment p =
     (if p = ''NOW'' then Some (''timestamp'', Some ''@now'')
      else if p = ''AMOUNT'' then Some (''mutez'', Some ''@amount'')
      else if p = ''BALANCE'' then Some (''mutez'', Some ''@balance'')
      else if p = ''SOURCE'' then Some (''address'', Some ''@source'')
      else if p = ''SENDER'' then Some (''address'', Some ''@sender'')
      else if p = ''CHAIN_ID'' then Some (''chain_id'', None)
      else if p = ''LEVEL'' then Some (''nat'', Some ''@level'')
      else if p = ''TOTAL_VOTING_POWER'' \<or> p = ''MIN_BLOCK_TIME'' then Some (''nat'', None)
      else None)"

definition text_inst :: "expr \<Rightarrow> string \<Rightarrow> expr list option \<Rightarrow> mtype list \<Rightarrow> effect tc" where
  "text_inst inst p as stack =
     (if p = ''CONCAT'' then concat_inst inst stack
      else if p = ''SLICE'' then
        bindR (args3 inst stack 0 [''nat''] [''nat''] [''string'', ''bytes'']) (\<lambda>(a, b, s).
          push1 3 (annotateVar inst (ty_of ''option'' [s]) (Some ''@slice'')))
      else if p = ''PACK'' then
        bindR (args1 inst stack 0 []) (\<lambda>s.
        bindR (ensureKind inst Packable s) (\<lambda>_. push1 1 (annotateVar inst (ty ''bytes'') (Some ''@packed''))))
      else if p = ''UNPACK'' then
        bindR (args1 inst stack 0 [''bytes'']) (\<lambda>_.
        bindR (inst_type as 0) (\<lambda>t.
        bindR (assertTypeAnnotationsValid t False) (\<lambda>_.
          push1 1 (annotateVar inst (ty_of ''option'' [t]) (Some ''@unpacked'')))))
      else if p = ''CHECK_SIGNATURE'' then
        bindR (args3 inst stack 0 [''key''] [''signature''] [''bytes'']) (\<lambda>_. push1 3 (annotateVar inst (ty ''bool'') None))
      else if p = ''HASH_KEY'' then
        bindR (args1 inst stack 0 [''key'']) (\<lambda>_. push1 1 (annotateVar inst (ty ''key_hash'') None))
      else bindR (args1 inst stack 0 [''bytes'']) (\<lambda>_. push1 1 (annotateVar inst (ty ''bytes'') None)))"

section \<open>Functions, tickets, operations\<close>

definition ticket_inst :: "Protocol \<Rightarrow> expr \<Rightarrow> string \<Rightarrow> mtype list \<Rightarrow> effect tc" where
  "ticket_inst proto inst p stack =
     (if p = ''TICKET'' then
        bindR (args2 inst stack 0 [] [''nat'']) (\<lambda>(s, _).
        bindR (ensureKind inst Comparable s) (\<lambda>_.
        if ProtoInferiorTo proto PtLimaPtL then push1 2 (annotateAll inst (ty_of ''ticket'' [s]) (limits 0 1 1))
        else bindR (annotateAll inst (ty_of ''ticket'' [s]) (limits 0 1 1)) (\<lambda>t.
             push1 2 (annotateVar inst (ty_of ''option'' [t]) None))))
      else if p = ''JOIN_TICKETS'' then
        bindR (args1 inst stack 0 [''pair'']) (\<lambda>s.
        bindR (comb_parts s) (\<lambda>(a, b).
        if typeID a \<noteq> ''ticket'' then failure inst ''ticket expected''
        else bindR (ensureTypesEqual inst a b) (\<lambda>_.
             bindR (annotate inst a Undef Keep Undef) (\<lambda>a'. push1 1 (annotateVar inst (ty_of ''option'' [a']) None)))))
      else if p = ''SPLIT_TICKET'' then
        bindR (args2 inst stack 0 [''ticket''] [''pair'']) (\<lambda>(s, q).
        bindR (comb_parts q) (\<lambda>(a, b).
        if typeID a \<noteq> ''nat'' then failure inst ''nat expected''
        else bindR (ensureTypesEqual inst a b) (\<lambda>_.
             bindR (annotate inst s Undef Keep Undef) (\<lambda>s'.
             push1 2 (annotateVar inst (ty_of ''option'' [ty_of ''pair'' [s', s']]) None)))))
      else
        bindR (instructionAnn inst (limits 0 0 2) False False) (\<lambda>ia.
        bindR (args1 inst stack 0 [''ticket'']) (\<lambda>s.
        bindR (targ s 0) (\<lambda>t.
        bindR (annotate inst t Undef Keep Undef) (\<lambda>t'.
        push2 1 (annotate inst (ty_of ''pair'' [ty ''address'', t', ty ''nat'']) (var_spec ia 0) Undef Undef)
          (annotate inst s (var_spec ia 1) Keep Undef))))))"

definition sapling_update :: "Protocol \<Rightarrow> expr \<Rightarrow> mtype list \<Rightarrow> effect tc" where
  "sapling_update proto inst stack =
     bindR (args2 inst stack 0 [''sapling_transaction''] [''sapling_state'']) (\<lambda>(x, s).
     bindR (targ x 0) (\<lambda>m. bindR (targ s 0) (\<lambda>n.
     if memo_size m = None \<or> memo_size m \<noteq> memo_size n then failure inst ''sapling memo size mismatch''
     else bindR (annotate inst s Undef Keep Undef) (\<lambda>s'.
          let result = ty_of ''pair'' [ty ''int'', s'] in
          push1 2 (annotateVar inst (ty_of ''option''
            [if ProtoInferiorTo proto PtJakarta then result else ty_of ''pair'' [ty ''bytes'', result]]) None)))))"

definition misc_inst :: "Protocol \<Rightarrow> expr \<Rightarrow> string \<Rightarrow> expr list option \<Rightarrow> mtype list \<Rightarrow> effect tc" where
  "misc_inst proto inst p as stack =
     (if p = ''UNIT'' then push1 0 (annotateAll inst (ty ''unit'') (limits 0 1 1))
      else if p = ''EXEC'' then
        bindR (args2 inst stack 0 [] [''lambda'']) (\<lambda>(x, l).
        bindR (targ l 0) (\<lambda>t.
        bindR (ensureTypesEqual inst x t) (\<lambda>_. bindR (targ l 1) (\<lambda>u. push1 2 (annotateVar inst u None)))))
      else if p = ''APPLY'' then
        bindR (args2 inst stack 0 [] [''lambda'']) (\<lambda>(x, l).
        bindR (ensureKind inst Storable x) (\<lambda>_.
        bindR (ensureKind inst Pushable x) (\<lambda>_.
        bindR (targ l 0) (\<lambda>pt.
        if \<not> is_pair_type pt then failure inst ''the argument of the function must be a pair''
        else bindR (typeArgs pt) (\<lambda>pts.
             bindR (nth_arg pts 0) (\<lambda>t.
             bindR (ensureTypesEqual inst x t) (\<lambda>_.
             bindR (nth_arg pts 1) (\<lambda>rest.
             bindR (targ l 1) (\<lambda>u. push1 2 (annotateVar inst (ty_of ''lambda'' [rest, u]) None))))))))))
      else if p = ''TRANSFER_TOKENS'' then
        bindR (args3 inst stack 0 [] [''mutez''] [''contract'']) (\<lambda>(x, _, c).
        bindR (targ c 0) (\<lambda>t.
        bindR (ensureTypesEqual inst x t) (\<lambda>_. push1 3 (annotateVar inst (ty ''operation'') None))))
      else if p = ''SET_DELEGATE'' then
        bindR (args1 inst stack 0 [''option'']) (\<lambda>s.
        bindR (targ s 0) (\<lambda>t.
        if typeID t \<noteq> ''key_hash'' then failure inst ''key hash expected''
        else push1 1 (annotateVar inst (ty ''operation'') None)))
      else if p = ''IMPLICIT_ACCOUNT'' then
        bindR (args1 inst stack 0 [''key_hash'']) (\<lambda>_. push1 1 (annotateVar inst (ty_of ''contract'' [ty ''unit'']) None))
      else if p = ''ADDRESS'' then
        bindR (args1 inst stack 0 [''contract'']) (\<lambda>s.
        bindR (instructionAnn inst (limits 0 0 1) False False) (\<lambda>ia.
        bindR (argAnn inst s) (\<lambda>sa.
        push1 1 (annotate inst (MPrim ''address'' None None (Some s))
          (Put (case ann_v ia of Some vs \<Rightarrow> vs | None \<Rightarrow> varSuffix sa ''address'')) Undef Undef))))
      else if p = ''VOTING_POWER'' then
        bindR (args1 inst stack 0 [''key_hash'']) (\<lambda>_. push1 1 (annotateVar inst (ty ''nat'') None))
      else if p = ''PAIRING_CHECK'' then
        bindR (args1 inst stack 0 [''list'']) (\<lambda>s.
        bindR (targ s 0) (\<lambda>q.
        if \<not> is_pair_type q then failure inst ''pair expected''
        else bindR (comb_parts q) (\<lambda>(a, b).
             if typeID a \<noteq> ''bls12_381_g1'' then failure inst ''bls12_381_g1 expected''
             else if typeID b \<noteq> ''bls12_381_g2'' then failure inst ''bls12_381_g2 expected''
             else push1 1 (annotateVar inst (ty ''bool'') None))))
      else if p = ''SAPLING_EMPTY_STATE'' then
        bindR (inst_type as 0) (\<lambda>t. push1 0 (annotateAll inst (ty_of ''sapling_state'' [t]) (limits 0 1 1)))
      else if p = ''SAPLING_VERIFY_UPDATE'' then sapling_update proto inst stack
      else if p = ''OPEN_CHEST'' then
        bindR (args3 inst stack 0 [''chest_key''] [''chest''] [''nat'']) (\<lambda>_.
          push1 3 (annotateVar inst (ty_of ''or'' [ty ''bytes'', ty ''bool'']) None))
      else if p = ''VIEW'' then
        bindR (args2 inst stack 0 [] [''address'']) (\<lambda>(x, _).
        bindR (ensureKind inst Pushable x) (\<lambda>_.
        bindR (inst_type as 1) (\<lambda>t. push1 2 (annotateVar inst (ty_of ''option'' [t]) None))))
      else
        bindR (instructionAnn inst (limits 1 1 0) False False) (\<lambda>ia.
        bindR (case as of
                 None \<Rightarrow> Inr ()
               | Some _ \<Rightarrow> bindR (args1 inst stack 0 []) (\<lambda>s. bindR (inst_type as 0) (\<lambda>t. ensureTypesEqual inst s t))) (\<lambda>_.
        push1 1 (annotate inst (ty ''operation'') (spec_of (ann_v ia)) (spec_of (ann_t ia)) (spec_of (ann_f ia))))))"

end
