(* ===== verification/TypeCheck.thy ===== *)
theory TypeCheck
  imports TypeInst
begin

text \<open>
  The type checker, third part: entrypoints of contracts, data at a type, and the mutually
  recursive checks of code, data and contracts.  The trace callback is left out.  The views of
  a contract are checked in the order of the contract.
\<close>

section \<open>Contracts\<close>

definition contractSection :: "expr list \<Rightarrow> string \<Rightarrow> expr tc" where
  "contractSection contract sec =
     (case find (\<lambda>s. prim_of s = sec) contract of
        Some s \<Rightarrow> Inr s | None \<Rightarrow> Inl (MichelsonErr ''missing contract section''))"

definition inst_arg :: "expr \<Rightarrow> nat \<Rightarrow> expr tc" where
  "inst_arg e i = (case arg_at (type_args e) i of Some x \<Rightarrow> Inr x | None \<Rightarrow> Inl (JsFault ''args''))"

definition section_arg :: "expr list \<Rightarrow> string \<Rightarrow> expr tc" where
  "section_arg contract sec = bindR (contractSection contract sec) (\<lambda>s. inst_arg s 0)"

definition view_name :: "expr \<Rightarrow> string" where
  "view_name e = (case arg_at (type_args e) 0 of Some (StringLit s) \<Rightarrow> s | _ \<Rightarrow> ''undefined'')"

text \<open>A later view of a name takes the place of an earlier one.\<close>

fun put_view :: "expr \<Rightarrow> expr list \<Rightarrow> expr list" where
  "put_view v [] = [v]"
| "put_view v (w # ws) = (if view_name v = view_name w then v # ws else w # put_view v ws)"

definition contractViews :: "expr list \<Rightarrow> expr list" where
  "contractViews contract = foldl (\<lambda>vs s. if prim_of s = ''view'' then put_view s vs else vs) [] contract"

definition isContract :: "expr \<Rightarrow> bool" where
  "isContract v = (case v of Seq xs \<Rightarrow> list_ex (\<lambda>s. in_list (prim_of s) [''parameter'', ''storage'', ''code'']) xs | _ \<Rightarrow> False)"

definition isOrType :: "expr \<Rightarrow> bool" where
  "isOrType t = (case t of Seq xs \<Rightarrow> True | Prim p as an \<Rightarrow> p = ''or'' | _ \<Rightarrow> False)"

definition expr_annots :: "expr \<Rightarrow> UnpackedAnnotations tc" where
  "expr_annots e = util (unpackAnnotations e \<lparr>specialVar = False, emptyVar = False, specialFields = False, emptyFields = False\<rparr>)"

text \<open>The arguments of a union type, or of a sequence.\<close>

definition expr_args :: "expr \<Rightarrow> expr list tc" where
  "expr_args e = (case e of Seq xs \<Rightarrow> Inr xs | Prim p (Some xs) an \<Rightarrow> Inr xs | _ \<Rightarrow> Inl (JsFault ''args''))"

lemma find_mem: "find P xs = Some x \<Longrightarrow> x \<in> set xs"
  by (induction xs) (auto split: if_splits)

lemma inst_arg_esize: "inst_arg e i = Inr x \<Longrightarrow> esize x < esize e"
proof -
  assume "inst_arg e i = Inr x"
  then obtain p xs an where e: "e = Prim p (Some xs) an" "x \<in> set xs"
    by (auto simp: inst_arg_def arg_at_def type_args_def split: expr.splits option.splits if_splits)
  then show ?thesis using sub_nodes_esize [of x e] by simp
qed

lemma expr_args_esize: "expr_args e = Inr xs \<Longrightarrow> x \<in> set xs \<Longrightarrow> esize x < esize e"
proof -
  assume "expr_args e = Inr xs" and x: "x \<in> set xs"
  then have "sub_nodes e = xs" by (auto simp: expr_args_def split: expr.splits option.splits)
  then show ?thesis using sub_nodes_esize [of x e] x by simp
qed

lemma section_arg_esize: "section_arg secs sec = Inr x \<Longrightarrow> esize x < esize (Seq secs)"
proof -
  assume "section_arg secs sec = Inr x"
  then obtain s where s: "s \<in> set secs" "inst_arg s 0 = Inr x"
    by (auto simp: section_arg_def contractSection_def bindR_eq_Inr split: option.splits dest: find_mem)
  then show ?thesis using inst_arg_esize [OF s(2)] sub_nodes_esize [of s "Seq secs"] by simp
qed

lemma isContract_Seq: "isContract src \<Longrightarrow> \<exists>xs. src = Seq xs"
  by (cases src) (auto simp: isContract_def)

function contractEntryPoints :: "expr \<Rightarrow> (string \<times> expr) list tc" where
  "contractEntryPoints src =
     (if isContract src then
        (case section_arg (sub_nodes src) ''parameter'' of
           Inl e \<Rightarrow> Inl e
         | Inr t \<Rightarrow>
             bindR (contractEntryPoints t) (\<lambda>ch.
             bindR (contractSection (sub_nodes src) ''parameter'') (\<lambda>param.
             bindR (expr_annots param) (\<lambda>a.
               Inr ((case ann_at (ann_f a) 0 of Some f \<Rightarrow> [(f, t)] | None \<Rightarrow> []) @ ch)))))
      else if isOrType src then
        bindR (mapR (\<lambda>i.
          case (case expr_args src of Inl e \<Rightarrow> Inl e | Inr xs \<Rightarrow> if i < length xs then Inr (xs ! i) else Inl (JsFault ''undefined'')) of
            Inl e \<Rightarrow> Inl e
          | Inr x \<Rightarrow>
              bindR (expr_annots x) (\<lambda>a.
              let own = (case ann_at (ann_f a) 0 of Some f \<Rightarrow> [(f, x)] | None \<Rightarrow> []) in
              if prim_of x = ''or'' then bindR (contractEntryPoints x) (\<lambda>ch. Inr (own @ ch)) else Inr own)) [0, 1])
          (\<lambda>es. Inr (concat es))
      else Inr [])"
  by pat_completeness auto
termination
proof (relation "measure esize", goal_cases)
  case (2 src t)
  then obtain xs where "src = Seq xs" using isContract_Seq by blast
  then show ?case using section_arg_esize 2 by auto
next
  case (3 src i x)
  then show ?case by (auto intro: expr_args_esize split: sum.splits if_splits)
qed auto

declare contractEntryPoints.simps [simp del]

definition contractEntryPoint :: "expr \<Rightarrow> string option \<Rightarrow> expr option tc" where
  "contractEntryPoint src ep =
     bindR (contractEntryPoints src) (\<lambda>eps.
       let name = (case ep of Some e \<Rightarrow> if e = [] then ''%default'' else e | None \<Rightarrow> ''%default'') in
       case find (\<lambda>x. fst x = name) eps of
         Some x \<Rightarrow> Inr (Some (snd x))
       | None \<Rightarrow>
           if name = ''%default'' then
             (if isContract src then bindR (section_arg (sub_nodes src) ''parameter'') (\<lambda>t. Inr (Some t)) else Inr (Some src))
           else Inr None)"

section \<open>Data of the atomic types\<close>

definition bytes_ok :: "string \<Rightarrow> bool tc" where
  "bytes_ok b = bindR (util (parseBytes b)) (\<lambda>r. Inr (r \<noteq> None))"

definition tezos_id :: "libs \<Rightarrow> string \<Rightarrow> TezosIDType list \<Rightarrow> bool tc" where
  "tezos_id L s ids = bindR (util (checkDecodeTezosID L s ids)) (\<lambda>r. Inr (r \<noteq> None))"

definition succeeds :: "'a pk \<Rightarrow> bool" where
  "succeeds r = (case r of Inl e \<Rightarrow> False | Inr x \<Rightarrow> True)"

text \<open>The text before the first percent sign.\<close>

definition before_entrypoint :: "string \<Rightarrow> string" where
  "before_entrypoint s = takeWhile (\<lambda>c. c \<noteq> CHR ''%'') s"

definition is_prim_in :: "expr \<Rightarrow> string list \<Rightarrow> bool" where
  "is_prim_in d ps \<longleftrightarrow> (case d of Prim p as an \<Rightarrow> in_list p ps | _ \<Rightarrow> False)"

text \<open>Whether a literal is a value of an atomic type; \<open>None\<close> for the other types.\<close>

definition atomic_valid :: "libs \<Rightarrow> string \<Rightarrow> expr \<Rightarrow> bool tc option" where
  "atomic_valid L p d =
     (if p = ''int'' then Some (Inr (case d of IntLit i \<Rightarrow> isDecimal i | _ \<Rightarrow> False))
      else if p = ''nat'' \<or> p = ''mutez'' then Some (Inr (case d of IntLit i \<Rightarrow> isNatural i | _ \<Rightarrow> False))
      else if p = ''string'' then Some (Inr (case d of StringLit s \<Rightarrow> True | _ \<Rightarrow> False))
      else if in_list p [''bytes'', ''bls12_381_g1'', ''bls12_381_g2''] then
        Some (case d of BytesLit b \<Rightarrow> bytes_ok b | _ \<Rightarrow> Inr False)
      else if p = ''bool'' then Some (Inr (is_prim_in d [''True'', ''False'']))
      else if p = ''key_hash'' then
        Some (case d of
                StringLit s \<Rightarrow> tezos_id L s [ED25519PublicKeyHash, SECP256K1PublicKeyHash, P256PublicKeyHash]
              | BytesLit b \<Rightarrow> Inr (succeeds (decodePublicKeyHashBytes b))
              | _ \<Rightarrow> Inr False)
      else if p = ''timestamp'' then
        Some (Inr (case d of StringLit s \<Rightarrow> parseDate d \<noteq> None | IntLit i \<Rightarrow> parseDate d \<noteq> None | _ \<Rightarrow> False))
      else if p = ''address'' then
        Some (case d of
                StringLit s \<Rightarrow> tezos_id L (before_entrypoint s)
                  [ED25519PublicKeyHash, SECP256K1PublicKeyHash, P256PublicKeyHash, ContractHash, TxRollupL2Address, RollupAddress]
              | BytesLit b \<Rightarrow> Inr (succeeds (decodeAddressBytes b))
              | _ \<Rightarrow> Inr False)
      else if p = ''key'' then
        Some (case d of
                StringLit s \<Rightarrow> tezos_id L s [ED25519PublicKey, SECP256K1PublicKey, P256PublicKey]
              | BytesLit b \<Rightarrow> Inr (succeeds (decodePublicKeyBytes b))
              | _ \<Rightarrow> Inr False)
      else if p = ''unit'' then Some (Inr (is_prim_in d [''Unit'']))
      else if p = ''signature'' then
        Some (case d of
                BytesLit b \<Rightarrow> Inr True
              | StringLit s \<Rightarrow> tezos_id L s [ED25519Signature, SECP256K1Signature, P256Signature, GenericSignature]
              | _ \<Rightarrow> Inr False)
      else if p = ''chain_id'' then
        Some (case d of
                StringLit s \<Rightarrow> bindR (util (decodeBase58Check L s)) (\<lambda>_. Inr True)
              | BytesLit b \<Rightarrow> bytes_ok b
              | _ \<Rightarrow> Inr False)
      else if p = ''bls12_381_fr'' then
        Some (case d of IntLit i \<Rightarrow> Inr (isDecimal i) | BytesLit b \<Rightarrow> bytes_ok b | _ \<Rightarrow> Inr False)
      else if p = ''sapling_state'' then Some (Inr (isListData d))
      else None)"

text \<open>\<open>isFunction\<close>: only sequences of instructions, at every depth.\<close>

fun isFunction :: "expr \<Rightarrow> bool" where
  "isFunction (Seq xs) \<longleftrightarrow> list_all (\<lambda>v. isFunction v \<or> (is_prim v \<and> isInstruction (prim_of v))) xs"
| "isFunction d \<longleftrightarrow> False"

section \<open>Instructions without code\<close>

definition self_inst :: "Context \<Rightarrow> expr \<Rightarrow> string \<Rightarrow> effect tc" where
  "self_inst ctx inst p =
     (if p = ''SELF'' then
        (case ctx_contract ctx of
           None \<Rightarrow> failure inst ''contract required''
         | Some c \<Rightarrow>
             bindR (instructionAnn inst (limits 1 0 1) False False) (\<lambda>ia.
             bindR (contractEntryPoint (Seq c) (ann_at (ann_f ia) 0)) (\<lambda>ep.
             case ep of
               None \<Rightarrow> failure inst ''contract has no such entrypoint''
             | Some t \<Rightarrow> push1 0 (annotate inst (ty_of ''contract'' [embed t])
                 (Put (case ann_v ia of Some vs \<Rightarrow> vs | None \<Rightarrow> [''@self''])) Undef Undef))))
      else
        bindR (case ctx_contract ctx of
                 None \<Rightarrow> Inr (ty ''address'')
               | Some c \<Rightarrow> bindR (section_arg c ''parameter'') (\<lambda>t.
                   Inr (MPrim ''address'' None None (Some (ty_of ''contract'' [embed t]))))) (\<lambda>addr.
        push1 0 (annotateVar inst addr (Some ''@address''))))"

definition contract_inst :: "expr \<Rightarrow> expr list option \<Rightarrow> mtype list \<Rightarrow> effect tc" where
  "contract_inst inst as stack =
     bindR (args1 inst stack 0 [''address'']) (\<lambda>s.
     bindR (inst_type as 0) (\<lambda>t.
     bindR (assertTypeAnnotationsValid t False) (\<lambda>_.
     bindR (instructionAnn inst (limits 1 0 1) False False) (\<lambda>ia.
     bindR (case s of
              MPrim p xs an (Some c) \<Rightarrow>
                bindR (contractEntryPoint (plain c) (ann_at (ann_f ia) 0)) (\<lambda>ep.
                case ep of
                  None \<Rightarrow> failure inst ''contract has no such entrypoint''
                | Some e \<Rightarrow> ensureTypesEqual inst (embed e) t)
            | _ \<Rightarrow> Inr ()) (\<lambda>_.
     bindR (argAnn inst s) (\<lambda>sa.
     push1 1 (annotate inst (ty_of ''option'' [ty_of ''contract'' [t]])
       (Put (case ann_v ia of Some vs \<Rightarrow> vs | None \<Rightarrow> varSuffix sa ''contract'')) Undef Undef)))))))"

text \<open>The \<open>switch\<close> over the instructions without code.\<close>

definition simple_inst :: "Context \<Rightarrow> expr \<Rightarrow> string \<Rightarrow> expr list option \<Rightarrow> mtype list \<Rightarrow> effect tc" where
  "simple_inst ctx inst p as stack =
     (if in_list p [''DUP'', ''SWAP'', ''DROP'', ''DIG'', ''DUG'', ''CAST'', ''RENAME''] then stack_inst inst p as stack
      else if in_list p [''PAIR'', ''UNPAIR'', ''CAR'', ''CDR''] \<or> in_list p [''GET'', ''UPDATE''] \<and> as \<noteq> None then
        pair_inst inst p as stack
      else if in_list p [''SOME'', ''NONE'', ''NIL'', ''LEFT'', ''RIGHT'', ''CONS'', ''SIZE'', ''MEM'', ''GET'', ''UPDATE'',
          ''GET_AND_UPDATE'', ''EMPTY_SET'', ''EMPTY_MAP'', ''EMPTY_BIG_MAP''] then coll_inst inst p as stack
      else if in_list p [''ADD'', ''SUB'', ''SUB_MUTEZ'', ''MUL'', ''EDIV'', ''ABS'', ''ISNAT'', ''INT'', ''BYTES'', ''NAT'', ''NEG'',
          ''LSL'', ''LSR'', ''OR'', ''XOR'', ''AND'', ''NOT'', ''COMPARE'', ''EQ'', ''NEQ'', ''LT'', ''GT'', ''LE'', ''GE''] then
        arith_inst (ctx_proto ctx) inst p stack
      else if in_list p [''CONCAT'', ''SLICE'', ''PACK'', ''UNPACK'', ''CHECK_SIGNATURE'', ''HASH_KEY'', ''BLAKE2B'', ''SHA256'',
          ''SHA512'', ''KECCAK'', ''SHA3''] then text_inst inst p as stack
      else if in_list p [''TICKET'', ''JOIN_TICKETS'', ''SPLIT_TICKET'', ''READ_TICKET''] then
        ticket_inst (ctx_proto ctx) inst p stack
      else if in_list p [''UNIT'', ''EXEC'', ''APPLY'', ''TRANSFER_TOKENS'', ''SET_DELEGATE'', ''IMPLICIT_ACCOUNT'', ''ADDRESS'',
          ''VOTING_POWER'', ''PAIRING_CHECK'', ''SAPLING_EMPTY_STATE'', ''SAPLING_VERIFY_UPDATE'', ''OPEN_CHEST'', ''VIEW'', ''EMIT''] then
        misc_inst (ctx_proto ctx) inst p as stack
      else if p = ''SELF'' \<or> p = ''SELF_ADDRESS'' then self_inst ctx inst p
      else if p = ''CONTRACT'' then contract_inst inst as stack
      else (case environment p of
              Some (t, def) \<Rightarrow> push1 0 (annotateVar inst (ty t) def)
            | None \<Rightarrow> Inl (MichelsonErr ''unexpected instruction'')))"

definition apply_effect :: "mtype list \<Rightarrow> effect tc \<Rightarrow> MichelsonReturnType tc" where
  "apply_effect stack r = bindR r (\<lambda>(new, k). Inr (Stack (new @ drop k stack)))"

text \<open>\<open>FAILWITH\<close> and \<open>NEVER\<close>, which return no stack.\<close>

definition fail_inst :: "Context \<Rightarrow> expr \<Rightarrow> string \<Rightarrow> mtype list \<Rightarrow> MichelsonReturnType tc" where
  "fail_inst ctx inst p stack =
     (if p = ''FAILWITH'' then
        bindR (args1 inst stack 0 []) (\<lambda>s.
        bindR (if ProtoInferiorTo (ctx_proto ctx) PtEdo2Zk then Inr () else ensureKind inst Packable s) (\<lambda>_.
          Inr (Failed s 0)))
      else bindR (args1 inst stack 0 [''never'']) (\<lambda>_. Inr (Failed (ty ''never'') 0)))"

section \<open>Instructions with code\<close>

text \<open>What two branches return together, and a failing body one level deeper.\<close>

fun branchType :: "expr \<Rightarrow> MichelsonReturnType \<Rightarrow> MichelsonReturnType \<Rightarrow> MichelsonReturnType tc" where
  "branchType inst (Failed t n) br1 = Inr br1"
| "branchType inst (Stack s) (Failed t n) = Inr (Stack s)"
| "branchType inst (Stack s) (Stack s') = bindR (ensureStacksEqual inst s s') (\<lambda>_. Inr (Stack s))"

definition on_stack :: "MichelsonReturnType \<Rightarrow> (mtype list \<Rightarrow> MichelsonReturnType tc) \<Rightarrow> MichelsonReturnType tc" where
  "on_stack body f = (case body of Failed t n \<Rightarrow> Inr (Failed t (n + 1)) | Stack s \<Rightarrow> f s)"

text \<open>The element \<open>MAP\<close> and \<open>ITER\<close> put on the stack.\<close>

definition elt_type :: "mtype \<Rightarrow> mtype tc" where
  "elt_type s =
     (case s of
        MPrim p xs an r \<Rightarrow> if p = ''map'' then Inr (MPrim ''pair'' xs None None) else targ s 0
      | _ \<Rightarrow> targ s 0)"

definition put_var :: "expr \<Rightarrow> mtype \<Rightarrow> mtype \<Rightarrow> string \<Rightarrow> mtype tc" where
  "put_var inst s t suffix = bindR (argAnn inst s) (\<lambda>va. annotate inst t (Put (varSuffix va suffix)) Keep Undef)"

text \<open>The stacks the branches and bodies start with.\<close>

definition left_name :: "expr \<Rightarrow> mtype \<Rightarrow> string \<Rightarrow> string tc" where
  "left_name inst t def = bindR (argAnn inst t) (\<lambda>a. Inr (case ann_at (ann_f a) 0 of Some f \<Rightarrow> tl f | None \<Rightarrow> def))"

definition branch_stacks :: "expr \<Rightarrow> string \<Rightarrow> mtype list \<Rightarrow> (mtype list \<times> mtype list) tc" where
  "branch_stacks inst p stack =
     bindR (instructionAnn inst (limits 0 0 0) False False) (\<lambda>_.
       let tail = drop 1 stack in
       if p = ''IF_NONE'' then
         bindR (args1 inst stack 0 [''option'']) (\<lambda>s.
         bindR (targ s 0) (\<lambda>t. bindR (put_var inst s t ''some'') (\<lambda>x. Inr (tail, x # tail))))
       else if p = ''IF_LEFT'' then
         bindR (args1 inst stack 0 [''or'']) (\<lambda>s.
         bindR (targ s 0) (\<lambda>l. bindR (targ s 1) (\<lambda>r.
         bindR (left_name inst l ''left'') (\<lambda>ln. bindR (left_name inst r ''right'') (\<lambda>rn.
         bindR (put_var inst s l ln) (\<lambda>x. bindR (put_var inst s r rn) (\<lambda>y. Inr (x # tail, y # tail))))))))
       else if p = ''IF_CONS'' then
         bindR (args1 inst stack 0 [''list'']) (\<lambda>s.
         bindR (targ s 0) (\<lambda>t.
         bindR (put_var inst s t ''hd'') (\<lambda>x. bindR (put_var inst s s ''tl'') (\<lambda>y. Inr (x # y # tail, tail)))))
       else bindR (args1 inst stack 0 [''bool'']) (\<lambda>_. Inr (tail, tail)))"

text \<open>The type a loop is over, and the stack its body starts with.\<close>

definition loop_start :: "expr \<Rightarrow> string \<Rightarrow> mtype list \<Rightarrow> (mtype \<times> mtype list) tc" where
  "loop_start inst p stack =
     (if p = ''MAP'' then
        bindR (args1 inst stack 0 [''list'', ''map'', ''option'']) (\<lambda>s.
        bindR (elt_type s) (\<lambda>e. bindR (put_var inst s e ''elt'') (\<lambda>x. Inr (s, x # drop 1 stack))))
      else
        bindR (instructionAnn inst (limits 0 0 0) False False) (\<lambda>_.
        if p = ''ITER'' then
          bindR (args1 inst stack 0 [''set'', ''list'', ''map'']) (\<lambda>s.
          bindR (elt_type s) (\<lambda>e. bindR (put_var inst s e ''elt'') (\<lambda>x. Inr (s, x # drop 1 stack))))
        else if p = ''LOOP'' then
          bindR (args1 inst stack 0 [''bool'']) (\<lambda>s. Inr (s, drop 1 stack))
        else
          bindR (args1 inst stack 0 [''or'']) (\<lambda>s.
          bindR (targ s 0) (\<lambda>e. bindR (put_var inst s e ''left'') (\<lambda>x. Inr (s, x # drop 1 stack))))))"

text \<open>What the loop returns, from the stack its body returns.\<close>

definition map_end :: "expr \<Rightarrow> mtype \<Rightarrow> mtype list \<Rightarrow> mtype list \<Rightarrow> MichelsonReturnType tc" where
  "map_end inst s tail body =
     (case body of
        [] \<Rightarrow> failure inst ''function must return a value''
      | x # rest \<Rightarrow>
          bindR (ensureStacksEqual inst rest tail) (\<lambda>_.
          bindR (if typeID s = ''map'' then bindR (targ s 0) (\<lambda>k. Inr [k, x]) else Inr [x]) (\<lambda>xs.
          bindR (annotateVar inst (ty_of (typeID s) xs) None) (\<lambda>t. Inr (Stack (t # tail))))))"

definition loop_end :: "expr \<Rightarrow> string \<Rightarrow> mtype \<Rightarrow> mtype list \<Rightarrow> MichelsonReturnType \<Rightarrow> MichelsonReturnType tc" where
  "loop_end inst p s tail body =
     (if p = ''MAP'' then
        (case body of
           Failed t n \<Rightarrow> if typeID t = ''never'' then Inr (Failed t (n + 1)) else failure inst ''FAIL is not allowed in MAP''
         | Stack st \<Rightarrow> map_end inst s tail st)
      else on_stack body (\<lambda>st.
        if p = ''ITER'' then bindR (ensureStacksEqual inst st tail) (\<lambda>_. Inr (Stack tail))
        else if p = ''LOOP'' then bindR (ensureStacksEqual inst st (ty ''bool'' # tail)) (\<lambda>_. Inr (Stack tail))
        else
          bindR (ensureStacksEqual inst st (s # tail)) (\<lambda>_.
          bindR (targ s 1) (\<lambda>r.
          bindR (instructionAnn inst (limits 0 0 1) False False) (\<lambda>ia.
          bindR (annotate inst r (spec_of (ann_v ia)) Keep Undef) (\<lambda>t. Inr (Stack (t # tail))))))))"

text \<open>The stack of a function's body, and the function pushed.\<close>

definition lambda_start :: "string \<Rightarrow> expr list option \<Rightarrow> (mtype \<times> mtype \<times> mtype list) tc" where
  "lambda_start p as =
     bindR (inst_type as 0) (\<lambda>a.
     bindR (assertTypeAnnotationsValid a False) (\<lambda>_.
     bindR (inst_type as 1) (\<lambda>r.
     bindR (assertTypeAnnotationsValid r False) (\<lambda>_.
       Inr (a, r, if p = ''LAMBDA_REC'' then [a, ty_of ''lambda'' [a, r]] else [a])))))"

definition lambda_end :: "expr \<Rightarrow> mtype \<Rightarrow> mtype \<Rightarrow> mtype list \<Rightarrow> MichelsonReturnType \<Rightarrow> MichelsonReturnType tc" where
  "lambda_end inst a r stack body =
     on_stack body (\<lambda>st.
       case st of
         [x] \<Rightarrow>
           bindR (ensureTypesEqual inst r x) (\<lambda>_.
           bindR (annotateVar inst (ty_of ''lambda'' [a, r]) None) (\<lambda>t. Inr (Stack (t # stack))))
       | _ \<Rightarrow> failure inst ''function must return a value'')"

definition create_start :: "expr \<Rightarrow> mtype list \<Rightarrow> (UnpackedAnnotations \<times> mtype) tc" where
  "create_start inst stack =
     bindR (instructionAnn inst (limits 0 0 2) False False) (\<lambda>ia.
     bindR (args3 inst stack 0 [''option''] [''mutez''] []) (\<lambda>(d, _, s).
     bindR (targ d 0) (\<lambda>k.
     if typeID k \<noteq> ''key_hash'' then failure inst ''key hash expected''
     else bindR (ensureKind inst Storable s) (\<lambda>_. Inr (ia, s)))))"

definition create_end :: "expr \<Rightarrow> UnpackedAnnotations \<Rightarrow> mtype \<Rightarrow> expr list \<Rightarrow> mtype list \<Rightarrow> MichelsonReturnType tc" where
  "create_end inst ia s secs stack =
     bindR (section_arg secs ''storage'') (\<lambda>st.
     bindR (assertScalarTypesEqual (embed st) s False) (\<lambda>_.
     bindR (annotate inst (ty ''operation'') (var_spec ia 0) Undef Undef) (\<lambda>t0.
     bindR (section_arg secs ''parameter'') (\<lambda>param.
     bindR (annotate inst (MPrim ''address'' None None (Some (ty_of ''contract'' [embed param]))) (var_spec ia 1) Undef Undef) (\<lambda>t1.
       Inr (Stack (t0 # t1 # drop 3 stack)))))))"

section \<open>Code, data and contracts\<close>

text \<open>The stack a section starts with: a pair of its parameter and the storage.\<close>

definition with_annot :: "mtype \<Rightarrow> string \<Rightarrow> mtype" where
  "with_annot t a =
     (case t of MPrim p xs an r \<Rightarrow> MPrim p xs (Some [a]) r | _ \<Rightarrow> MPrim [] None (Some [a]) None)"

definition section_stack :: "expr \<Rightarrow> expr \<Rightarrow> mtype list tc" where
  "section_stack parameter storage =
     bindR (assertTypeAnnotationsValid (embed parameter) True) (\<lambda>_.
     bindR (assertTypeAnnotationsValid (embed storage) False) (\<lambda>_.
       Inr [ty_of ''pair'' [with_annot (embed parameter) ''@parameter'', with_annot (embed storage) ''@storage'']]))"

definition section_end :: "expr \<Rightarrow> mtype \<Rightarrow> MichelsonReturnType \<Rightarrow> MichelsonReturnType tc" where
  "section_end code ret out =
     (case out of
        Failed t n \<Rightarrow> Inr out
      | Stack st \<Rightarrow> bindR (rethrow code (assertStacksEqual st [ret])) (\<lambda>_. Inr out))"

definition expected_type :: "expr \<Rightarrow> mtype" where
  "expected_type storage = ty_of ''pair'' [ty_of ''list'' [ty ''operation''], embed storage]"

text \<open>\<open>DIP\<close>: how many types it protects, and its code.\<close>

definition dip_args :: "expr list option \<Rightarrow> (nat \<times> expr) tc" where
  "dip_args as =
     (case as of
        Some [a, b] \<Rightarrow> bindR (inst_nat as 0) (\<lambda>n. Inr (n, b))
      | Some (a # xs) \<Rightarrow> Inr (1, a)
      | _ \<Rightarrow> Inl (JsFault ''args''))"

definition dip_start :: "expr \<Rightarrow> nat \<Rightarrow> mtype list \<Rightarrow> unit tc" where
  "dip_start inst n stack =
     bindR (instructionAnn inst (limits 0 0 0) False False) (\<lambda>_. bindR (drop_type inst n stack) (\<lambda>_. Inr ()))"

definition code_list :: "expr \<Rightarrow> expr list tc" where
  "code_list e = (case e of Seq xs \<Rightarrow> Inr xs | _ \<Rightarrow> Inl (JsFault ''not iterable''))"

lemma dip_args_esize: "dip_args as = Inr (n, b) \<Longrightarrow> esize b < esize (Prim p as an)"
proof -
  assume "dip_args as = Inr (n, b)"
  then obtain xs where xs: "as = Some xs" "b \<in> set xs"
    by (auto simp: dip_args_def bindR_eq_Inr split: option.splits list.splits)
  then show ?thesis using sub_nodes_esize [of b "Prim p as an"] by simp
qed

lemma code_list_Inr: "code_list e = Inr xs \<Longrightarrow> e = Seq xs"
  by (auto simp: code_list_def split: expr.splits)

lemma put_view_mem: "v \<in> set (put_view w ws) \<Longrightarrow> v = w \<or> v \<in> set ws"
  by (induction ws) (auto split: if_splits)

lemma contractViews_mem: "v \<in> set (contractViews secs) \<Longrightarrow> v \<in> set secs"
proof -
  have "v \<in> set (foldl (\<lambda>vs s. if prim_of s = ''view'' then put_view s vs else vs) ws secs) \<Longrightarrow> v \<in> set ws \<or> v \<in> set secs" for ws
    by (induction secs arbitrary: ws) (auto dest: put_view_mem split: if_splits)
  from this [of "[]"] show "v \<in> set (contractViews secs) \<Longrightarrow> ?thesis" by (simp add: contractViews_def)
qed

lemma view_arg_esize: "v \<in> set (contractViews secs) \<Longrightarrow> inst_arg v i = Inr c \<Longrightarrow> esize c < esize (Seq secs)"
  using contractViews_mem [of v secs] inst_arg_esize [of v i c] sub_nodes_esize [of v "Seq secs"] by force

fun both :: "expr option list \<Rightarrow> (expr \<times> expr) tc" where
  "both [Some a, Some b] = Inr (a, b)"
| "both _ = Inl (JsFault ''undefined'')"

lemma both_Inr: "both dc = Inr (a, b) \<longleftrightarrow> dc = [Some a, Some b]"
  by (induction dc rule: both.induct) auto

definition pair_data :: "expr \<Rightarrow> (expr \<times> expr) tc" where
  "pair_data d =
     bindR (case assertDataListIfAny d of Inl v \<Rightarrow> Inl (MichelsonErr ''unexpected item'') | Inr b \<Rightarrow> Inr b) (\<lambda>_.
     bindR (util (unpackComb ''Pair'' d)) (\<lambda>(dc, an). both dc))"

lemma pair_data_esize: "pair_data d = Inr (a, b) \<Longrightarrow> esize a < esize d \<and> esize b < esize d"
proof -
  assume "pair_data d = Inr (a, b)"
  then obtain an where "unpackComb ''Pair'' d = Inr ([Some a, Some b], an)"
    by (auto simp: pair_data_def util_def bindR_eq_Inr both_Inr split: sum.splits)
  then show ?thesis using unpackComb_esize [of d "[Some a, Some b]" an "[a, b]"] by simp
qed

text \<open>The items of a list or set.\<close>

definition list_items :: "expr \<Rightarrow> (expr list option) tc" where
  "list_items d =
     (case assertDataListIfAny d of
        Inl v \<Rightarrow> Inl (MichelsonErr ''unexpected item'')
      | Inr b \<Rightarrow> Inr (if b then Some (sub_nodes d) else None))"

definition elt_args :: "mtype \<Rightarrow> expr \<Rightarrow> expr \<Rightarrow> (expr \<times> expr) tc" where
  "elt_args t d v =
     (if \<not> isEltData v then Inl (BadData t d)
      else bindR (inst_arg v 0) (\<lambda>a. bindR (inst_arg v 1) (\<lambda>b. Inr (a, b))))"

definition ticket_type :: "mtype \<Rightarrow> mtype" where
  "ticket_type u = ty_of ''pair'' [ty ''address'', u, ty ''nat'']"

lemma list_items_esize: "list_items d = Inr (Some xs) \<Longrightarrow> x \<in> set xs \<Longrightarrow> esize x < esize d"
  by (auto simp: list_items_def dest: sub_nodes_esize split: sum.splits if_splits)

lemma elt_args_esize: "elt_args t d v = Inr (a, b) \<Longrightarrow> esize a < esize v \<and> esize b < esize v"
  by (auto simp: elt_args_def bindR_eq_Inr dest: inst_arg_esize split: if_splits)

lemma ticket_rank [simp]: "typeID (ticket_type u) \<noteq> ''ticket''"
  by (simp add: typeID_def ticket_type_def)

declare bindR_cong [fundef_cong del]

lemma code_args_esize: "inst_arg inst i = Inr c \<Longrightarrow> code_list c = Inr xs \<Longrightarrow> esize (Seq xs) < esize inst"
  using code_list_Inr [of c xs] inst_arg_esize [of inst i c] by (simp only:)

lemma create_args_esize: "bindR (inst_arg inst i) code_list = Inr xs \<Longrightarrow> esize (Seq xs) < esize inst"
  by (auto simp only: bindR_eq_Inr intro: code_args_esize)

lemma elt_sub_esize: "v \<in> set (sub_nodes d) \<Longrightarrow> elt_args t d v = Inr (a, b) \<Longrightarrow> esize a < esize d \<and> esize b < esize d"
  using sub_nodes_esize [of v d] elt_args_esize [of t d v a b] by linarith

lemmas check_esize = pair_data_esize [THEN conjunct1] pair_data_esize [THEN conjunct2] inst_arg_esize list_items_esize
  elt_sub_esize [THEN conjunct1] elt_sub_esize [THEN conjunct2] dip_args_esize create_args_esize section_arg_esize view_arg_esize

function dataValid :: "libs \<Rightarrow> Context \<Rightarrow> expr \<Rightarrow> mtype \<Rightarrow> unit tc"
and functionTypeInternal :: "libs \<Rightarrow> Context \<Rightarrow> expr \<Rightarrow> mtype list \<Rightarrow> MichelsonReturnType tc"
and instructionListType :: "libs \<Rightarrow> Context \<Rightarrow> expr list \<Rightarrow> mtype list \<Rightarrow> MichelsonReturnType tc"
and assertContractValid :: "libs \<Rightarrow> Protocol option \<Rightarrow> expr list \<Rightarrow> MichelsonReturnType tc"
where
  "dataValid L ctx d t =
     (if is_pair_type t then
        (if \<not> isPairData d then Inl (BadData t d)
         else case pair_data d of
           Inl e \<Rightarrow> Inl e
         | Inr (a, b) \<Rightarrow>
             bindR (comb_parts t) (\<lambda>(ta, tb).
             bindR (dataValid L ctx a ta) (\<lambda>_. dataValid L ctx b tb)))
      else case atomic_valid L (typeID t) d of
        Some r \<Rightarrow> bindR r (\<lambda>ok. if ok then Inr () else Inl (BadData t d))
      | None \<Rightarrow>
      if typeID t = ''option'' then
        (if is_prim_in d [''None''] then Inr ()
         else if is_prim_in d [''Some''] then
           (case inst_arg d 0 of Inl e \<Rightarrow> Inl e | Inr a \<Rightarrow> bindR (targ t 0) (\<lambda>u. dataValid L ctx a u))
         else Inl (BadData t d))
      else if typeID t = ''list'' \<or> typeID t = ''set'' then
        (case list_items d of
           Inl e \<Rightarrow> Inl e
         | Inr None \<Rightarrow> Inl (BadData t d)
         | Inr (Some xs) \<Rightarrow> eachR (\<lambda>x. bindR (targ t 0) (\<lambda>u. dataValid L ctx x u)) xs)
      else if typeID t = ''or'' then
        (if is_prim_in d [''Left'', ''Right''] then
           (case inst_arg d 0 of
              Inl e \<Rightarrow> Inl e
            | Inr a \<Rightarrow> bindR (targ t (if is_prim_in d [''Left''] then 0 else 1)) (\<lambda>u. dataValid L ctx a u))
         else Inl (BadData t d))
      else if typeID t = ''lambda'' then
        (if isFunction d then
           bindR (targ t 0) (\<lambda>a.
           bindR (functionTypeInternal L ctx d [a]) (\<lambda>ret.
             case ret of
               Failed u n \<Rightarrow> Inl (BadData t d)
             | Stack st \<Rightarrow>
                 (case st of
                    [x] \<Rightarrow> bindR (targ t 1) (\<lambda>r. assertScalarTypesEqual r x False)
                  | _ \<Rightarrow> Inl (BadData t d))))
         else Inl (BadData t d))
      else if typeID t = ''map'' \<or> typeID t = ''big_map'' then
        (if isListData d then
           eachR (\<lambda>v.
             case elt_args t d v of
               Inl e \<Rightarrow> Inl e
             | Inr (a, b) \<Rightarrow>
                 bindR (targ t 0) (\<lambda>k. bindR (dataValid L ctx a k) (\<lambda>_.
                 bindR (targ t 1) (\<lambda>u. dataValid L ctx b u)))) (sub_nodes d)
         else Inl (BadData t d))
      else if typeID t = ''ticket'' then bindR (targ t 0) (\<lambda>u. dataValid L ctx d (ticket_type u))
      else Inl (BadData t d))"
| "functionTypeInternal L ctx inst stack =
     (case inst of
        Seq xs \<Rightarrow>
          bindR (instructionListType L ctx xs stack) (\<lambda>ret.
            Inr (case ret of Failed t n \<Rightarrow> Failed t (n + 1) | Stack s \<Rightarrow> Stack s))
      | Prim p as an \<Rightarrow>
          if in_list p [''IF_NONE'', ''IF_LEFT'', ''IF_CONS'', ''IF''] then
            bindR (branch_stacks inst p stack) (\<lambda>(s0, s1).
            case (inst_arg inst 0, inst_arg inst 1) of
              (Inr c0, Inr c1) \<Rightarrow>
                bindR (functionTypeInternal L ctx c0 s0) (\<lambda>br0.
                bindR (functionTypeInternal L ctx c1 s1) (\<lambda>br1. branchType inst br0 br1))
            | _ \<Rightarrow> Inl (JsFault ''args''))
          else if in_list p [''MAP'', ''ITER'', ''LOOP'', ''LOOP_LEFT''] then
            bindR (loop_start inst p stack) (\<lambda>(s, st).
            case inst_arg inst 0 of
              Inl e \<Rightarrow> Inl e
            | Inr c \<Rightarrow> bindR (functionTypeInternal L ctx c st) (\<lambda>body. loop_end inst p s (drop 1 stack) body))
          else if p = ''DIP'' then
            (case dip_args as of
               Inl e \<Rightarrow> Inl e
             | Inr (n, c) \<Rightarrow>
                 bindR (dip_start inst n stack) (\<lambda>_.
                 bindR (functionTypeInternal L ctx c (drop n stack)) (\<lambda>body.
                 on_stack body (\<lambda>s. Inr (Stack (take n stack @ s))))))
          else if p = ''CREATE_CONTRACT'' then
            bindR (create_start inst stack) (\<lambda>(ia, s).
            case bindR (inst_arg inst 0) code_list of
              Inl e \<Rightarrow> Inl e
            | Inr secs \<Rightarrow>
                bindR (assertContractValid L None secs) (\<lambda>_. create_end inst ia s secs stack))
          else if p = ''PUSH'' then
            (case inst_arg inst 1 of
               Inl e \<Rightarrow> Inl e
             | Inr v \<Rightarrow>
                 bindR (inst_type as 0) (\<lambda>t.
                 bindR (assertTypeAnnotationsValid t False) (\<lambda>_.
                 bindR (dataValid L (ctx\<lparr>ctx_contract := None\<rparr>) v t) (\<lambda>_.
                 bindR (annotateVar inst t None) (\<lambda>u. Inr (Stack (u # stack)))))))
          else if p = ''LAMBDA'' \<or> p = ''LAMBDA_REC'' then
            bindR (lambda_start p as) (\<lambda>(a, r, s).
            case inst_arg inst 2 of
              Inl e \<Rightarrow> Inl e
            | Inr c \<Rightarrow>
                bindR (functionTypeInternal L (ctx\<lparr>ctx_contract := None\<rparr>) c s) (\<lambda>body.
                lambda_end inst a r stack body))
          else if p = ''FAILWITH'' \<or> p = ''NEVER'' then fail_inst ctx inst p stack
          else apply_effect stack (simple_inst ctx inst p as stack)
      | _ \<Rightarrow> Inl (MichelsonErr ''unexpected instruction''))"
| "instructionListType L ctx [] stack = Inr (Stack stack)"
| "instructionListType L ctx (op # ops) stack =
     bindR (functionTypeInternal L ctx op stack) (\<lambda>ft.
       case ft of
         Stack s \<Rightarrow> instructionListType L ctx ops s
       | Failed t n \<Rightarrow>
           if n = 0 \<and> typeID t \<noteq> ''never'' \<and> ops \<noteq> [] then Inl (MichelsonErr ''FAIL must appear in a tail position'')
           else Inr (Failed t n))"
| "assertContractValid L proto secs =
     (case (section_arg secs ''parameter'', section_arg secs ''storage'', section_arg secs ''code'') of
        (Inr parameter, Inr storage, Inr code) \<Rightarrow>
          let ctx = \<lparr>ctx_protocol = proto, ctx_contract = Some secs\<rparr> in
          bindR (section_stack parameter storage) (\<lambda>st.
          bindR (functionTypeInternal L ctx code st) (\<lambda>out.
          bindR (section_end code (expected_type storage) out) (\<lambda>ret.
          bindR (eachR (\<lambda>v.
            case (inst_arg v 1, inst_arg v 2, inst_arg v 3) of
              (Inr p, Inr r, Inr c) \<Rightarrow>
                bindR (section_stack p storage) (\<lambda>vst.
                bindR (functionTypeInternal L ctx c vst) (\<lambda>vout.
                bindR (section_end c (embed r) vout) (\<lambda>_. Inr ())))
            | _ \<Rightarrow> Inl (JsFault ''args'')) (contractViews secs)) (\<lambda>_. Inr ret))))
      | _ \<Rightarrow> Inl (MichelsonErr ''missing contract section''))"
  by pat_completeness auto
termination
  apply (relation "measures [
    case_sum (case_sum (\<lambda>(L, ctx, d, t). esize d) (\<lambda>(L, ctx, inst, st). esize inst))
      (case_sum (\<lambda>(L, ctx, ops, st). sum_list (map (\<lambda>x. esize x + 1) ops)) (\<lambda>(L, proto, secs). esize (Seq secs))),
    case_sum (case_sum (\<lambda>(L, ctx, d, t). if typeID t = ''ticket'' then 5 else 4) (\<lambda>_. 2)) (case_sum (\<lambda>_. 3) (\<lambda>_. 1))]")
  apply (simp only: wf_measures)
  apply (simp_all only: in_measures sum.case prod.case)
  apply ((rule disjI1, (elim Pair_inject)?, hypsubst?, (rule check_esize; (assumption | (rule sym, assumption))))[1]
      | (rule disjI1, simp only: prod.inject, elim conjE, (rule check_esize; (assumption | (rule sym, assumption))))[1] | simp)+
  done

end
