(* ===== verification/TypeContract.thy ===== *)
theory TypeContract
  imports TypeCheck Parser
begin

text \<open>
  The exported functions of the type checker and the class \<open>Contract\<close>
  (\<open>michelson-contract.ts\<close>), which parses and checks a script and keeps it with its options.
  \<open>localeCompare\<close> of the texts is a parameter, since its order is that of the host.
\<close>

declare dataValid.simps [simp del] functionTypeInternal.simps [simp del]
  instructionListType.simps [simp del] assertContractValid.simps [simp del]

declare bindR_cong [fundef_cong]

section \<open>Exported functions\<close>

definition no_context :: Context where
  "no_context = \<lparr>ctx_protocol = None, ctx_contract = None\<rparr>"

definition is_ok :: "'e + 'a \<Rightarrow> bool" where
  "is_ok r = (case r of Inl e \<Rightarrow> False | Inr x \<Rightarrow> True)"

definition assertDataValid :: "libs \<Rightarrow> Context \<Rightarrow> expr \<Rightarrow> mtype \<Rightarrow> unit tc" where
  "assertDataValid L ctx d t = bindR (assertTypeAnnotationsValid t False) (\<lambda>_. dataValid L ctx d t)"

definition functionType :: "libs \<Rightarrow> Context \<Rightarrow> expr \<Rightarrow> mtype list \<Rightarrow> MichelsonReturnType tc" where
  "functionType L ctx inst stack =
     bindR (eachR (\<lambda>t. assertTypeAnnotationsValid t False) stack) (\<lambda>_.
     bindR (case ctx_contract ctx of
              None \<Rightarrow> Inr ()
            | Some c \<Rightarrow> eachR (\<lambda>sec. bindR (section_arg c sec) (\<lambda>t. assertTypeAnnotationsValid (embed t) False))
                [''parameter'', ''storage'']) (\<lambda>_.
     functionTypeInternal L ctx inst stack))"

text \<open>\<open>assertTypesEqual\<close> of two types or of two stacks, which it goes on to compare as pairs.\<close>

definition assertTypesEqual :: "mtype \<Rightarrow> mtype \<Rightarrow> bool \<Rightarrow> unit tc" where
  "assertTypesEqual a b field =
     bindR (case a of
              MSeq xs \<Rightarrow>
                bindR (eachR (\<lambda>v. assertTypeAnnotationsValid v False) xs) (\<lambda>_.
                case b of
                  MSeq ys \<Rightarrow> eachR (\<lambda>v. assertTypeAnnotationsValid v False) ys
                | _ \<Rightarrow> Inl (JsFault ''not iterable''))
            | _ \<Rightarrow> bindR (assertTypeAnnotationsValid a False) (\<lambda>_. assertTypeAnnotationsValid b False)) (\<lambda>_.
     assertScalarTypesEqual a b field)"

definition isTypeAnnotationsValid :: "mtype \<Rightarrow> bool \<Rightarrow> bool" where
  "isTypeAnnotationsValid t field = is_ok (assertTypeAnnotationsValid t field)"

definition isContractValid :: "libs \<Rightarrow> Protocol option \<Rightarrow> expr list \<Rightarrow> MichelsonReturnType option" where
  "isContractValid L proto contract = (case assertContractValid L proto contract of Inl e \<Rightarrow> None | Inr ret \<Rightarrow> Some ret)"

definition isDataValid :: "libs \<Rightarrow> Context \<Rightarrow> expr \<Rightarrow> mtype \<Rightarrow> bool" where
  "isDataValid L ctx d t = is_ok (assertDataValid L ctx d t)"

definition isTypeEqual :: "mtype \<Rightarrow> mtype \<Rightarrow> bool \<Rightarrow> bool" where
  "isTypeEqual a b field = is_ok (assertTypesEqual a b field)"

section \<open>Order of data\<close>

definition sign_of :: "int \<Rightarrow> int" where
  "sign_of x = (if x < 0 then - 1 else if x > 0 then 1 else 0)"

definition literal_bytes :: "libs \<Rightarrow> expr \<Rightarrow> byte list tc" where
  "literal_bytes L d =
     (case d of
        StringLit s \<Rightarrow> util (decodeBase58Check L s)
      | BytesLit b \<Rightarrow> bindR (util (parseBytes b)) (\<lambda>r. Inr (case r of Some xs \<Rightarrow> map to_byte xs | None \<Rightarrow> []))
      | _ \<Rightarrow> Inr [])"

text \<open>The order of two literals of a type that is not a pair; \<open>None\<close> when they are not comparable.\<close>

definition compare_literals :: "libs \<Rightarrow> (string \<Rightarrow> string \<Rightarrow> int) \<Rightarrow> string \<Rightarrow> expr \<Rightarrow> expr \<Rightarrow> int option tc" where
  "compare_literals L localeCompare p a b =
     (if in_list p [''int'', ''nat'', ''mutez''] then
        (case (a, b) of
           (IntLit i, IntLit j) \<Rightarrow>
             bindR (util (li_of_string i)) (\<lambda>x. bindR (util (li_of_string j)) (\<lambda>y. Inr (Some (li_cmp x y))))
         | _ \<Rightarrow> Inr None)
      else if p = ''string'' then
        Inr (case (a, b) of (StringLit s, StringLit u) \<Rightarrow> Some (sign_of (localeCompare s u)) | _ \<Rightarrow> None)
      else if p = ''bytes'' then
        (case (a, b) of
           (BytesLit s, BytesLit u) \<Rightarrow>
             bindR (util (parseBytes s)) (\<lambda>x. bindR (util (parseBytes u)) (\<lambda>y.
               Inr (case (x, y) of
                      (Some xs, Some ys) \<Rightarrow> Some (compareBytes (map to_byte xs) (map to_byte ys))
                    | _ \<Rightarrow> None)))
         | _ \<Rightarrow> Inr None)
      else if p = ''bool'' then
        Inr (if is_prim_in a [''True'', ''False''] \<and> is_prim_in b [''True'', ''False'']
             then Some (if prim_of a = prim_of b then 0 else if prim_of a = ''False'' then - 1 else 1) else None)
      else if in_list p [''key'', ''key_hash'', ''address'', ''signature'', ''chain_id''] then
        (case (a, b) of
           (IntLit i, _) \<Rightarrow> Inr None | (_, IntLit i) \<Rightarrow> Inr None
         | (Prim q as an, _) \<Rightarrow> Inr None | (_, Prim q as an) \<Rightarrow> Inr None
         | (Seq xs, _) \<Rightarrow> Inr None | (_, Seq xs) \<Rightarrow> Inr None
         | _ \<Rightarrow> bindR (literal_bytes L a) (\<lambda>x. bindR (literal_bytes L b) (\<lambda>y. Inr (Some (compareBytes x y)))))
      else if p = ''timestamp'' then
        Inr (case (parseDate a, parseDate b) of
               (Some (Some x), Some (Some y)) \<Rightarrow> Some (sign_of (x - y))
             | (Some x, Some y) \<Rightarrow> Some 0
             | _ \<Rightarrow> None)
      else if p = ''unit'' then Inr (if is_prim_in a [''Unit''] \<and> is_prim_in b [''Unit''] then Some 0 else None)
      else Inr None)"

function compareMichelsonData :: "libs \<Rightarrow> (string \<Rightarrow> string \<Rightarrow> int) \<Rightarrow> mtype \<Rightarrow> expr \<Rightarrow> expr \<Rightarrow> int tc" where
  "compareMichelsonData L localeCompare t a b =
     (if is_pair_type t then
        (if \<not> (isPairData a \<and> isPairData b) then Inl (BadData t a)
         else case pair_data a of
           Inl e \<Rightarrow> Inl e
         | Inr (a0, a1) \<Rightarrow>
             bindR (pair_data b) (\<lambda>(b0, b1).
             bindR (comb_parts t) (\<lambda>(t0, t1).
             bindR (compareMichelsonData L localeCompare t0 a0 b0) (\<lambda>x.
               if x \<noteq> 0 then Inr x else compareMichelsonData L localeCompare t0 a1 b1))))
      else bindR (compare_literals L localeCompare (typeID t) a b) (\<lambda>r.
             case r of Some x \<Rightarrow> Inr x | None \<Rightarrow> Inl (BadData t a)))"
  by pat_completeness auto

termination
  by (relation "measure (\<lambda>(L, localeCompare, t, a, b). esize a)") (auto dest: pair_data_esize)

declare compareMichelsonData.simps [simp del]

section \<open>The class Contract\<close>

record contract_object =
  co_contract :: "expr list"
  co_protocol :: "Protocol option"
  co_output :: MichelsonReturnType

datatype (plugins only: size code) contract_error =
    ParserError parse_error
  | ValidationError validation_error
  | CheckError tc_error
  | EmptyExpression string
  | InvalidEntrypointError "string option"

datatype (plugins only: size code) source = SrcText string | SrcObject json

definition co_ctx :: "contract_object \<Rightarrow> Context" where
  "co_ctx c = \<lparr>ctx_protocol = co_protocol c, ctx_contract = Some (co_contract c)\<rparr>"

definition new_Contract :: "libs \<Rightarrow> parser_options \<Rightarrow> expr list \<Rightarrow> contract_error + contract_object" where
  "new_Contract L opt contract =
     (case assertContractValid L (opt_protocol opt) contract of
        Inl e \<Rightarrow> Inl (CheckError e)
      | Inr out \<Rightarrow> Inr \<lparr>co_contract = contract, co_protocol = opt_protocol opt, co_output = out\<rparr>)"

text \<open>The text or object as an expression; an empty text is an error.\<close>

definition parse_source :: "parser_options \<Rightarrow> string \<Rightarrow> source \<Rightarrow> contract_error + expr" where
  "parse_source opt what src =
     (case (case src of
              SrcText s \<Rightarrow> bindR (parseScript opt s) (\<lambda>r. Inr (map_option Seq r))
            | SrcObject j \<Rightarrow> bindR (parseJSON opt j) (\<lambda>e. Inr (Some e))) of
        Inl e \<Rightarrow> Inl (ParserError e)
      | Inr None \<Rightarrow> Inl (EmptyExpression what)
      | Inr (Some e) \<Rightarrow> Inr e)"

definition checked_expr :: "check \<Rightarrow> 'a \<Rightarrow> contract_error + 'a" where
  "checked_expr r x = (case r of Inl e \<Rightarrow> Inl (ValidationError e) | Inr u \<Rightarrow> Inr x)"

definition parseContract :: "libs \<Rightarrow> parser_options \<Rightarrow> source \<Rightarrow> contract_error + contract_object" where
  "parseContract L opt src =
     bindR (parse_source opt ''contract'' src) (\<lambda>e.
     bindR (checked_expr (assertMichelsonContract e) (sub_nodes e)) (new_Contract L opt))"

definition parseTypeExpression :: "parser_options \<Rightarrow> source \<Rightarrow> contract_error + expr" where
  "parseTypeExpression opt src =
     bindR (parse_source opt ''type expression'' src) (\<lambda>e.
     bindR (checked_expr (assertMichelsonType e) e) (\<lambda>t.
     case assertTypeAnnotationsValid (embed t) False of Inl err \<Rightarrow> Inl (CheckError err) | Inr u \<Rightarrow> Inr t))"

definition parseDataExpression :: "parser_options \<Rightarrow> source \<Rightarrow> contract_error + expr" where
  "parseDataExpression opt src =
     bindR (parse_source opt ''data expression'' src) (\<lambda>e. checked_expr (assertMichelsonData e) e)"

definition co_section :: "contract_object \<Rightarrow> string \<Rightarrow> expr tc" where
  "co_section c sec = contractSection (co_contract c) sec"

definition co_entryPoints :: "contract_object \<Rightarrow> (string \<times> expr) list tc" where
  "co_entryPoints c = contractEntryPoints (Seq (co_contract c))"

definition co_entryPoint :: "contract_object \<Rightarrow> string option \<Rightarrow> expr option tc" where
  "co_entryPoint c ep = contractEntryPoint (Seq (co_contract c)) ep"

definition co_assertDataValid :: "libs \<Rightarrow> contract_object \<Rightarrow> expr \<Rightarrow> mtype \<Rightarrow> unit tc" where
  "co_assertDataValid L c d t = assertDataValid L (co_ctx c) d t"

definition co_isDataValid :: "libs \<Rightarrow> contract_object \<Rightarrow> expr \<Rightarrow> mtype \<Rightarrow> bool" where
  "co_isDataValid L c d t = isDataValid L (co_ctx c) d t"

definition co_assertParameterValid :: "libs \<Rightarrow> contract_object \<Rightarrow> string option \<Rightarrow> expr \<Rightarrow> contract_error + unit" where
  "co_assertParameterValid L c ep d =
     (case co_entryPoint c ep of
        Inl e \<Rightarrow> Inl (CheckError e)
      | Inr None \<Rightarrow> Inl (InvalidEntrypointError ep)
      | Inr (Some t) \<Rightarrow> (case co_assertDataValid L c d (embed t) of Inl e \<Rightarrow> Inl (CheckError e) | Inr u \<Rightarrow> Inr u))"

definition co_isParameterValid :: "libs \<Rightarrow> contract_object \<Rightarrow> string option \<Rightarrow> expr \<Rightarrow> bool" where
  "co_isParameterValid L c ep d = is_ok (co_assertParameterValid L c ep d)"

definition co_functionType :: "libs \<Rightarrow> contract_object \<Rightarrow> expr \<Rightarrow> mtype list \<Rightarrow> MichelsonReturnType tc" where
  "co_functionType L c inst stack = functionType L (co_ctx c) inst stack"

definition dummyContract :: "expr list" where
  "dummyContract =
     [Prim ''parameter'' (Some [Prim ''unit'' None None]) None,
      Prim ''storage'' (Some [Prim ''unit'' None None]) None,
      Prim ''code'' (Some [Seq [Prim ''CAR'' None None,
        Prim ''NIL'' (Some [Prim ''operation'' None None]) None, Prim ''PAIR'' None None]]) None]"

end
