(* ===== verification/Interpreter.thy ===== *)
theory Interpreter
  imports StackMachine TypeContract PackUtilsProofs
begin

text \<open>
  A reference semantics for code the type checker accepts, after the Michelson language
  reference: the machine of \<open>StackMachine\<close> with numbers, lists, typed constants and loops.  A run
  takes fuel, one unit for each nested call; its result is \<open>None\<close> when the fuel does not do,
  otherwise a stack or a fault.  The values of a type are those of \<open>has_type\<close>.
\<close>

section \<open>Values of a type\<close>

fun has_type :: "sval \<Rightarrow> mtype \<Rightarrow> bool" where
  "has_type (IntV i) t \<longleftrightarrow> typeID t = ''int'' \<or> typeID t = ''nat'' \<and> 0 \<le> i"
| "has_type (BoolV b) t \<longleftrightarrow> typeID t = ''bool''"
| "has_type UnitV t \<longleftrightarrow> typeID t = ''unit''"
| "has_type (PairV a b) t \<longleftrightarrow> is_pair_type t \<and>
     (case comb_parts t of Inr (ta, tb) \<Rightarrow> has_type a ta \<and> has_type b tb | Inl e \<Rightarrow> False)"
| "has_type NoneV t \<longleftrightarrow> typeID t = ''option''"
| "has_type (SomeV a) t \<longleftrightarrow> typeID t = ''option'' \<and> (case targ t 0 of Inr u \<Rightarrow> has_type a u | Inl e \<Rightarrow> False)"
| "has_type (LeftV a) t \<longleftrightarrow> typeID t = ''or'' \<and> (case targ t 0 of Inr u \<Rightarrow> has_type a u | Inl e \<Rightarrow> False)"
| "has_type (RightV a) t \<longleftrightarrow> typeID t = ''or'' \<and> (case targ t 1 of Inr u \<Rightarrow> has_type a u | Inl e \<Rightarrow> False)"
| "has_type (ListV xs) t \<longleftrightarrow> typeID t = ''list'' \<and>
     (case targ t 0 of Inr u \<Rightarrow> list_all (\<lambda>x. has_type x u) xs | Inl e \<Rightarrow> False)"

abbreviation typed_stack :: "sval list \<Rightarrow> mtype list \<Rightarrow> bool" where
  "typed_stack s ts \<equiv> list_all2 has_type s ts"

text \<open>The value data denotes at a type.\<close>

function value_of :: "expr \<Rightarrow> mtype \<Rightarrow> sval option" where
  "value_of d t =
     (if is_pair_type t then
        (case pair_data d of
           Inl e \<Rightarrow> None
         | Inr (a, b) \<Rightarrow>
             (case comb_parts t of
                Inl e \<Rightarrow> None
              | Inr (ta, tb) \<Rightarrow>
                  (case (value_of a ta, value_of b tb) of (Some v, Some w) \<Rightarrow> Some (PairV v w) | _ \<Rightarrow> None)))
      else if typeID t = ''int'' \<or> typeID t = ''nat'' then
        (case d of IntLit i \<Rightarrow> (case li_of_string i of Inr l \<Rightarrow> Some (IntV (li_int l)) | Inl e \<Rightarrow> None) | _ \<Rightarrow> None)
      else if typeID t = ''bool'' then Some (BoolV (is_prim_in d [''True'']))
      else if typeID t = ''unit'' then Some UnitV
      else if typeID t = ''option'' then
        (if is_prim_in d [''None''] then Some NoneV
         else case (inst_arg d 0, targ t 0) of (Inr a, Inr u) \<Rightarrow> map_option SomeV (value_of a u) | _ \<Rightarrow> None)
      else if typeID t = ''or'' then
        (case (inst_arg d 0, targ t (if is_prim_in d [''Left''] then 0 else 1)) of
           (Inr a, Inr u) \<Rightarrow> map_option (if is_prim_in d [''Left''] then LeftV else RightV) (value_of a u)
         | _ \<Rightarrow> None)
      else if typeID t = ''list'' then
        (case (list_items d, targ t 0) of
           (Inr (Some xs), Inr u) \<Rightarrow> map_option ListV (all_some (map (\<lambda>x. value_of x u) xs))
         | _ \<Rightarrow> None)
      else None)"
  by pat_completeness auto

termination
  by (relation "measure (\<lambda>(d, t). esize d)") (auto dest: pair_data_esize inst_arg_esize [OF sym] list_items_esize [OF sym])

declare value_of.simps [simp del]

section \<open>Instructions without code\<close>

fun some_op :: "sval list \<Rightarrow> outcome" where
  "some_op (v # s) = Inr (SomeV v # s)"
| "some_op _ = Inl IllTyped"

fun cons_op :: "sval list \<Rightarrow> outcome" where
  "cons_op (v # ListV xs # s) = Inr (ListV (v # xs) # s)"
| "cons_op _ = Inl IllTyped"

fun size_op :: "sval list \<Rightarrow> outcome" where
  "size_op (ListV xs # s) = Inr (IntV (int (length xs)) # s)"
| "size_op _ = Inl IllTyped"

fun num2_op :: "(int \<Rightarrow> int \<Rightarrow> sval) \<Rightarrow> sval list \<Rightarrow> outcome" where
  "num2_op f (IntV i # IntV j # s) = Inr (f i j # s)"
| "num2_op f _ = Inl IllTyped"

fun num1_op :: "(int \<Rightarrow> sval) \<Rightarrow> sval list \<Rightarrow> outcome" where
  "num1_op f (IntV i # s) = Inr (f i # s)"
| "num1_op f _ = Inl IllTyped"

text \<open>Euclidean division, the remainder not negative.\<close>

definition ediv_val :: "int \<Rightarrow> int \<Rightarrow> sval" where
  "ediv_val i j =
     (if j = 0 then NoneV else SomeV (PairV (IntV ((i - i mod \<bar>j\<bar>) div j)) (IntV (i mod \<bar>j\<bar>))))"

fun bit_op :: "(int \<Rightarrow> int \<Rightarrow> int) \<Rightarrow> (bool \<Rightarrow> bool \<Rightarrow> bool) \<Rightarrow> sval list \<Rightarrow> outcome" where
  "bit_op f g (IntV i # IntV j # s) = Inr (IntV (f i j) # s)"
| "bit_op f g (BoolV a # BoolV b # s) = Inr (BoolV (g a b) # s)"
| "bit_op f g _ = Inl IllTyped"

fun not_op :: "sval list \<Rightarrow> outcome" where
  "not_op (IntV i # s) = Inr (IntV (- i - 1) # s)"
| "not_op (BoolV b # s) = Inr (BoolV (\<not> b) # s)"
| "not_op _ = Inl IllTyped"

definition run0 :: "string \<Rightarrow> sval list \<Rightarrow> outcome" where
  "run0 p s =
     (if p = ''SOME'' then some_op s else if p = ''CONS'' then cons_op s else if p = ''SIZE'' then size_op s
      else if p = ''ADD'' then num2_op (\<lambda>i j. IntV (i + j)) s
      else if p = ''SUB'' then num2_op (\<lambda>i j. IntV (i - j)) s
      else if p = ''MUL'' then num2_op (\<lambda>i j. IntV (i * j)) s
      else if p = ''EDIV'' then num2_op ediv_val s
      else if p = ''NEG'' then num1_op (\<lambda>i. IntV (- i)) s
      else if p = ''ABS'' then num1_op (\<lambda>i. IntV \<bar>i\<bar>) s
      else if p = ''INT'' then num1_op IntV s
      else if p = ''ISNAT'' then num1_op (\<lambda>i. if 0 \<le> i then SomeV (IntV i) else NoneV) s
      else if p = ''AND'' then bit_op (and) (\<and>) s
      else if p = ''OR'' then bit_op (or) (\<or>) s
      else if p = ''XOR'' then bit_op (xor) (\<noteq>) s
      else if p = ''NOT'' then not_op s
      else exec0 p s)"

text \<open>Combs of the first values of a stack, and their parts.\<close>

fun comb_val :: "nat \<Rightarrow> sval list \<Rightarrow> (sval \<times> sval list) option" where
  "comb_val n [] = None"
| "comb_val n (v # s) =
     (if n \<le> 1 then Some (v, s) else map_option (\<lambda>(w, r). (PairV v w, r)) (comb_val (n - 1) s))"

fun uncomb_val :: "nat \<Rightarrow> sval \<Rightarrow> sval list option" where
  "uncomb_val n (PairV a b) = (if n \<le> 1 then Some [PairV a b] else map_option (\<lambda>xs. a # xs) (uncomb_val (n - 1) b))"
| "uncomb_val n v = (if n \<le> 1 then Some [v] else None)"

fun set_op :: "nat \<Rightarrow> sval \<Rightarrow> sval \<Rightarrow> sval option" where
  "set_op 0 x v = Some x"
| "set_op (Suc 0) x (PairV a b) = Some (PairV x b)"
| "set_op (Suc (Suc n)) x (PairV a b) = map_option (PairV a) (set_op n x b)"
| "set_op n x v = None"

definition run_num :: "string \<Rightarrow> nat \<Rightarrow> sval list \<Rightarrow> outcome" where
  "run_num p n s =
     (if p = ''DROP'' then (if n \<le> length s then Inr (drop n s) else Inl IllTyped)
      else if p = ''DUG'' then
        (if n < length s then Inr (take n (tl s) @ hd s # drop n (tl s)) else Inl IllTyped)
      else if p = ''PAIR'' then
        (case comb_val n s of Some (v, r) \<Rightarrow> if 2 \<le> n then Inr (v # r) else Inl IllTyped | None \<Rightarrow> Inl IllTyped)
      else if p = ''UNPAIR'' then
        (case s of
           [] \<Rightarrow> Inl IllTyped
         | v # r \<Rightarrow> (case uncomb_val n v of Some xs \<Rightarrow> if 2 \<le> n then Inr (xs @ r) else Inl IllTyped | None \<Rightarrow> Inl IllTyped))
      else if p = ''UPDATE'' then
        (case s of
           x # v # r \<Rightarrow> (case set_op n x v of Some w \<Rightarrow> Inr (w # r) | None \<Rightarrow> Inl IllTyped)
         | _ \<Rightarrow> Inl IllTyped)
      else exec_num p n s)"

definition run_type :: "string \<Rightarrow> sval list \<Rightarrow> outcome" where
  "run_type p s =
     (if p = ''NONE'' then Inr (NoneV # s) else if p = ''NIL'' then Inr (ListV [] # s)
      else if p = ''LEFT'' then (case s of v # r \<Rightarrow> Inr (LeftV v # r) | [] \<Rightarrow> Inl IllTyped)
      else if p = ''RIGHT'' then (case s of v # r \<Rightarrow> Inr (RightV v # r) | [] \<Rightarrow> Inl IllTyped)
      else if p = ''CAST'' then Inr s
      else Inl IllTyped)"

definition run_push :: "expr \<Rightarrow> expr \<Rightarrow> sval list \<Rightarrow> outcome" where
  "run_push t d s = (case value_of d (embed t) of Some v \<Rightarrow> Inr (v # s) | None \<Rightarrow> Inl IllTyped)"

text \<open>An instruction that runs no other code; a numeral argument is read as the checker reads it.\<close>

definition run_simple :: "string \<Rightarrow> expr list option \<Rightarrow> sval list \<Rightarrow> outcome" where
  "run_simple p as s =
     (case as of
        None \<Rightarrow> run0 p s
      | Some [a] \<Rightarrow> (case inst_nat as 0 of Inr n \<Rightarrow> run_num p n s | Inl e \<Rightarrow> run_type p s)
      | Some [t, d] \<Rightarrow> if p = ''PUSH'' then run_push t d s else Inl IllTyped
      | _ \<Rightarrow> Inl IllTyped)"

section \<open>Code\<close>

type_synonym result = "outcome option"

definition and_then :: "result \<Rightarrow> (sval list \<Rightarrow> result) \<Rightarrow> result" where
  "and_then r f = (case r of Some (Inr s) \<Rightarrow> f s | _ \<Rightarrow> r)"

text \<open>The branch taken, and the stack it starts with.\<close>

definition branch_start :: "string \<Rightarrow> sval list \<Rightarrow> (bool \<times> sval list) option" where
  "branch_start p s =
     (case s of
        BoolV b # r \<Rightarrow> if p = ''IF'' then Some (b, r) else None
      | NoneV # r \<Rightarrow> if p = ''IF_NONE'' then Some (True, r) else None
      | SomeV v # r \<Rightarrow> if p = ''IF_NONE'' then Some (False, v # r) else None
      | LeftV v # r \<Rightarrow> if p = ''IF_LEFT'' then Some (True, v # r) else None
      | RightV v # r \<Rightarrow> if p = ''IF_LEFT'' then Some (False, v # r) else None
      | ListV (x # xs) # r \<Rightarrow> if p = ''IF_CONS'' then Some (True, x # ListV xs # r) else None
      | ListV [] # r \<Rightarrow> if p = ''IF_CONS'' then Some (False, r) else None
      | _ \<Rightarrow> None)"

text \<open>Loops over the body \<open>f\<close>: for each item, and for each item with the results collected.\<close>

fun iter_items :: "(sval list \<Rightarrow> result) \<Rightarrow> sval list \<Rightarrow> sval list \<Rightarrow> result" where
  "iter_items f [] s = Some (Inr s)"
| "iter_items f (x # xs) s = and_then (f (x # s)) (iter_items f xs)"

fun map_items :: "(sval list \<Rightarrow> result) \<Rightarrow> sval list \<Rightarrow> sval list \<Rightarrow> sval list \<Rightarrow> result" where
  "map_items f [] ys s = Some (Inr (ListV (rev ys) # s))"
| "map_items f (x # xs) ys s =
     and_then (f (x # s)) (\<lambda>r. case r of [] \<Rightarrow> Some (Inl IllTyped) | y # s' \<Rightarrow> map_items f xs (y # ys) s')"

fun run :: "nat \<Rightarrow> expr \<Rightarrow> sval list \<Rightarrow> result"
and runs :: "nat \<Rightarrow> expr list \<Rightarrow> sval list \<Rightarrow> result"
where
  "run 0 e s = None"
| "run (Suc n) e s =
     (case e of
        Seq xs \<Rightarrow> runs n xs s
      | Prim p as an \<Rightarrow>
          if in_list p [''IF_NONE'', ''IF_LEFT'', ''IF_CONS'', ''IF''] then
            (case (as, branch_start p s) of
               (Some [a, b], Some (True, r)) \<Rightarrow> run n a r
             | (Some [a, b], Some (False, r)) \<Rightarrow> run n b r
             | _ \<Rightarrow> Some (Inl IllTyped))
          else if p = ''ITER'' then
            (case (as, s) of
               (Some [c], ListV xs # r) \<Rightarrow> iter_items (run n c) xs r
             | _ \<Rightarrow> Some (Inl IllTyped))
          else if p = ''MAP'' then
            (case (as, s) of
               (Some [c], ListV xs # r) \<Rightarrow> map_items (run n c) xs [] r
             | (Some [c], NoneV # r) \<Rightarrow> Some (Inr (NoneV # r))
             | (Some [c], SomeV x # r) \<Rightarrow>
                 and_then (run n c (x # r)) (\<lambda>q. case q of [] \<Rightarrow> Some (Inl IllTyped) | y # r' \<Rightarrow> Some (Inr (SomeV y # r')))
             | _ \<Rightarrow> Some (Inl IllTyped))
          else if p = ''LOOP'' then
            (case (as, s) of
               (Some [c], BoolV b # r) \<Rightarrow> if b then and_then (run n c r) (run n e) else Some (Inr r)
             | _ \<Rightarrow> Some (Inl IllTyped))
          else if p = ''LOOP_LEFT'' then
            (case (as, s) of
               (Some [c], LeftV v # r) \<Rightarrow> and_then (run n c (v # r)) (run n e)
             | (Some [c], RightV v # r) \<Rightarrow> Some (Inr (v # r))
             | _ \<Rightarrow> Some (Inl IllTyped))
          else if p = ''DIP'' then
            (case dip_args as of
               Inl err \<Rightarrow> Some (Inl IllTyped)
             | Inr (k, c) \<Rightarrow>
                 if length s < k then Some (Inl IllTyped)
                 else and_then (run n c (drop k s)) (\<lambda>r. Some (Inr (take k s @ r))))
          else Some (run_simple p as s)
      | _ \<Rightarrow> Some (Inl IllTyped))"
| "runs 0 es s = None"
| "runs (Suc n) [] s = Some (Inr s)"
| "runs (Suc n) (e # es) s = and_then (run n e s) (runs n es)"

text \<open>The instructions it has, the types of constants, and code of nothing else.  The checker does
  not ask that \<open>COMPARE\<close> compares two values of one type, nor that \<open>DUG\<close> finds its place in the
  stack, so code with these is left out.\<close>

definition relations :: "string list" where
  "relations = [''EQ'', ''NEQ'', ''LT'', ''GT'', ''LE'', ''GE'']"

definition arith_instructions :: "string list" where
  "arith_instructions =
     relations @ [''ADD'', ''SUB'', ''MUL'', ''EDIV'', ''NEG'', ''ABS'', ''INT'', ''ISNAT'', ''AND'', ''OR'', ''XOR'', ''NOT'']"

definition step_instructions :: "string list" where
  "step_instructions =
     [''SWAP'', ''DROP'', ''DUP'', ''RENAME''] @ [''PAIR'', ''UNPAIR'', ''CAR'', ''CDR''] @ [''SOME'', ''CONS'', ''SIZE''] @
     [''UNIT''] @ arith_instructions"

definition counted_instructions :: "string list" where
  "counted_instructions = [''DUP'', ''DROP'', ''DIG''] @ [''PAIR'', ''UNPAIR'', ''GET'', ''UPDATE'']"

definition typed_instructions :: "string list" where
  "typed_instructions = [''NONE'', ''NIL'', ''LEFT'', ''RIGHT''] @ [''CAST'']"

fun machine_type :: "mtype \<Rightarrow> bool" where
  "machine_type (MPrim p None an r) \<longleftrightarrow> in_list p [''int'', ''nat'', ''bool'', ''unit'']"
| "machine_type (MPrim p (Some ts) an r) \<longleftrightarrow>
     (p = ''pair'' \<or> in_list p [''option'', ''list''] \<and> length ts = 1 \<or> p = ''or'' \<and> length ts = 2) \<and> list_all machine_type ts"
| "machine_type (MSeq ts) \<longleftrightarrow> list_all machine_type ts"
| "machine_type (MLit e) \<longleftrightarrow> False"

definition is_intlit :: "expr \<Rightarrow> bool" where
  "is_intlit e = (case e of IntLit i \<Rightarrow> True | _ \<Rightarrow> False)"

text \<open>Code that may return: a loop over code that always fails is itself taken for failing by the
  checker, though it may run the code no time at all, so such loops are left out as well.\<close>

fun may_return :: "expr \<Rightarrow> bool" where
  "may_return (Seq xs) \<longleftrightarrow> list_all may_return xs"
| "may_return (Prim p None an) \<longleftrightarrow> p \<noteq> ''FAILWITH''"
| "may_return (Prim p (Some [a]) an) \<longleftrightarrow> is_intlit a \<or> in_list p typed_instructions \<or> may_return a"
| "may_return (Prim p (Some [a, b]) an) \<longleftrightarrow>
     p = ''PUSH'' \<or> p \<noteq> ''DIP'' \<and> may_return a \<or> may_return b"
| "may_return _ \<longleftrightarrow> True"

fun machine_code :: "expr \<Rightarrow> bool" where
  "machine_code (Seq xs) \<longleftrightarrow> list_all machine_code xs"
| "machine_code (Prim p None an) \<longleftrightarrow> p = ''FAILWITH'' \<or> in_list p step_instructions"
| "machine_code (Prim p (Some [a]) an) \<longleftrightarrow>
     (if is_intlit a then in_list p counted_instructions
      else in_list p typed_instructions \<or> p = ''DIP'' \<and> machine_code a \<or>
        in_list p [''MAP'', ''ITER'', ''LOOP'', ''LOOP_LEFT''] \<and> machine_code a \<and> may_return a)"
| "machine_code (Prim p (Some [a, b]) an) \<longleftrightarrow>
     (if p = ''PUSH'' then machine_type (embed a)
      else if p = ''DIP'' then machine_code b
      else in_list p [''IF_NONE'', ''IF_LEFT'', ''IF_CONS'', ''IF''] \<and> machine_code a \<and> machine_code b)"
| "machine_code _ \<longleftrightarrow> False"

end
