(* ===== verification/TypeSoundness.thy ===== *)
theory TypeSoundness
  imports Interpreter
begin

text \<open>
  Soundness of the type checker for the instructions of the reference machine: values of a type
  do not depend on its annotations, types that are equal have the same values, and code the
  checker accepts never gets stuck on values of the types it was checked with.
\<close>

section \<open>Shapes of types and of values\<close>

lemma typeID_simps [simp]: "typeID (MPrim p xs an r) = p" "typeID (MSeq ys) = ''pair''" "typeID (MLit e) = []"
  by (simp_all add: typeID_def)

lemma is_pair_typeID: "is_pair_type t \<longleftrightarrow> typeID t = ''pair''"
  by (cases t) (auto simp: is_pair_type_def)

lemma targ_simps [simp]: "targ (MPrim p (Some xs) an r) i = nth_arg xs i" "targ (MPrim p None an r) i = Inl (JsFault ''args'')"
  by (simp_all add: targ_def)

lemma nth_arg_Cons [simp]: "nth_arg (x # xs) 0 = Inr x" "nth_arg (x # xs) (Suc i) = nth_arg xs i"
  by (simp_all add: nth_arg_def)

lemma comb_parts_pair [simp]: "comb_parts (MPrim p (Some [a, b]) an r) = Inr (a, b)"
  by (simp add: comb_parts_def typeArgs_def)

lemma typeArgs_set_annots [simp]: "typeArgs (set_annots t as) = typeArgs t"
  by (cases t) (auto simp: typeArgs_def split: option.splits)

lemma typeID_set_annots [simp]: "typeID (set_annots t as) = typeID t"
  by (cases t) auto

lemma has_type_set_annots [simp]: "has_type v (set_annots t as) \<longleftrightarrow> has_type v t"
proof (cases t)
  case (MSeq xs)
  then show ?thesis by (cases v) (auto simp: is_pair_typeID comb_parts_def typeArgs_def)
next
  case (MPrim p xs an r)
  then show ?thesis by (cases v; cases xs) (auto simp: is_pair_typeID comb_parts_def typeArgs_def)
qed simp

lemma has_type_pair: "is_pair_type t \<Longrightarrow> comb_parts t = Inr (a, b) \<Longrightarrow>
    has_type v t \<longleftrightarrow> (\<exists>x y. v = PairV x y \<and> has_type x a \<and> has_type y b)"
  by (cases v) (auto simp: is_pair_typeID)

lemma has_type_or: "typeID t = ''or'' \<Longrightarrow> targ t 0 = Inr a \<Longrightarrow> targ t 1 = Inr b \<Longrightarrow>
    has_type v t \<longleftrightarrow> (\<exists>x. v = LeftV x \<and> has_type x a \<or> v = RightV x \<and> has_type x b)"
  by (cases v) (auto simp: is_pair_typeID)

lemma has_type_option: "typeID t = ''option'' \<Longrightarrow> targ t 0 = Inr a \<Longrightarrow>
    has_type v t \<longleftrightarrow> v = NoneV \<or> (\<exists>x. v = SomeV x \<and> has_type x a)"
  by (cases v) (auto simp: is_pair_typeID)

lemma has_type_list: "typeID t = ''list'' \<Longrightarrow> targ t 0 = Inr a \<Longrightarrow>
    has_type v t \<longleftrightarrow> (\<exists>xs. v = ListV xs \<and> list_all (\<lambda>x. has_type x a) xs)"
  by (cases v) (auto simp: is_pair_typeID)

lemma has_type_atomic:
  "typeID t = ''int'' \<Longrightarrow> has_type v t \<longleftrightarrow> (\<exists>i. v = IntV i)"
  "typeID t = ''nat'' \<Longrightarrow> has_type v t \<longleftrightarrow> (\<exists>i. v = IntV i \<and> 0 \<le> i)"
  "typeID t = ''bool'' \<Longrightarrow> has_type v t \<longleftrightarrow> (\<exists>b. v = BoolV b)"
  "typeID t = ''unit'' \<Longrightarrow> has_type v t \<longleftrightarrow> v = UnitV"
  by (cases v; auto simp: is_pair_typeID)+

lemma has_type_inhabited: "has_type v t \<Longrightarrow>
    in_list (typeID t) [''int'', ''nat'', ''bool'', ''unit'', ''pair'', ''option'', ''or'', ''list'']"
  by (cases v) (auto simp: is_pair_typeID in_list_def)

lemma in_list_Cons [simp]: "in_list x (y # ys) \<longleftrightarrow> x = y \<or> in_list x ys" "\<not> in_list x []"
  by (auto simp: in_list_def)

section \<open>Annotations do not matter\<close>

lemma annotate_has_type: "annotate inst t v tn f = Inr u \<Longrightarrow> has_type x u \<longleftrightarrow> has_type x t"
  by (auto simp: annotate_def bindR_eq_Inr)

lemma annotateVar_has_type: "annotateVar inst t d = Inr u \<Longrightarrow> has_type x u \<longleftrightarrow> has_type x t"
  by (auto simp: annotateVar_def bindR_eq_Inr annotate_has_type)

lemma annotateAll_has_type: "annotateAll inst t n = Inr u \<Longrightarrow> has_type x u \<longleftrightarrow> has_type x t"
  by (auto simp: annotateAll_def bindR_eq_Inr annotate_has_type)

lemma put_var_has_type: "put_var inst s t n = Inr u \<Longrightarrow> has_type x u \<longleftrightarrow> has_type x t"
  by (auto simp: put_var_def bindR_eq_Inr annotate_has_type)

lemma annotateField_has_type: "annotateField inst a t ia n d = Inr u \<Longrightarrow> has_type x u \<longleftrightarrow> has_type x t"
  by (auto simp: annotateField_def bindR_eq_Inr Let_def annotate_has_type split: if_splits)

lemma pair_field_has_type: "pair_field inst ia n t = Inr u \<Longrightarrow> has_type x u \<longleftrightarrow> has_type x t"
  by (auto simp: pair_field_def bindR_eq_Inr annotate_has_type)

lemma arith_effect: "arith inst k t = Inr (new, j) \<longleftrightarrow> (\<exists>u. annotateVar inst t None = Inr u \<and> new = [u] \<and> j = k)"
  by (auto simp: arith_def bindR_eq_Inr)

lemma annotate_typeID: "annotate inst t v tn f = Inr u \<Longrightarrow> typeID u = typeID t"
  by (auto simp: annotate_def bindR_eq_Inr)

lemma annotateVar_typeID: "annotateVar inst t d = Inr u \<Longrightarrow> typeID u = typeID t"
  by (auto simp: annotateVar_def bindR_eq_Inr annotate_typeID)

lemma annotateAll_typeID: "annotateAll inst t n = Inr u \<Longrightarrow> typeID u = typeID t"
  by (auto simp: annotateAll_def bindR_eq_Inr annotate_typeID)

lemmas annotation_irrelevant = annotate_has_type annotateVar_has_type annotateAll_has_type put_var_has_type
  annotateField_has_type pair_field_has_type annotate_typeID annotateVar_typeID annotateAll_typeID

section \<open>Equal types have the same values\<close>

lemma same_head_typeID: "same_head a b f = Inr () \<Longrightarrow> typeID b = typeID a"
  by (auto simp: same_head_def split: if_splits)

lemma eachR_mem: "eachR f xs = Inr () \<longleftrightarrow> (\<forall>x \<in> set xs. f x = Inr ())"
  by (induction xs) (auto simp: bindR_eq_Inr)

lemma equal_types_typeID: "assertScalarTypesEqual a b f = Inr () \<Longrightarrow> typeID b = typeID a"
  by (subst (asm) assertScalarTypesEqual.simps) (auto simp: bindR_eq_Inr dest: same_head_typeID)

lemma equal_types_pair:
  assumes "assertScalarTypesEqual a b f = Inr ()" and "is_pair_type a"
  obtains a0 a1 b0 b1 where "comb_parts a = Inr (a0, a1)" "comb_parts b = Inr (b0, b1)"
    "assertScalarTypesEqual a0 b0 True = Inr ()" "assertScalarTypesEqual a1 b1 True = Inr ()"
  using assms by (subst (asm) assertScalarTypesEqual.simps) (auto simp: bindR_eq_Inr split: sum.splits)

lemma equal_types_targ:
  assumes "assertScalarTypesEqual a b f = Inr ()" and "\<not> is_pair_type a"
    and "\<not> in_list (typeID a) [''sapling_state'', ''sapling_transaction'']" and "(i, g) \<in> set (compared (typeID a))"
  shows "\<exists>x y. targ a i = Inr x \<and> targ b i = Inr y \<and> assertScalarTypesEqual x y g = Inr ()"
proof -
  from assms(1-3) have "eachR (\<lambda>(i, f).
      case targ a i of Inl e \<Rightarrow> Inl e | Inr x \<Rightarrow> bindR (targ b i) (\<lambda>y. assertScalarTypesEqual x y f)) (compared (typeID a)) = Inr ()"
    by (subst (asm) assertScalarTypesEqual.simps) (simp only: bindR_eq_Inr if_False, blast)
  with assms(4) show ?thesis by (fastforce simp: eachR_mem bindR_eq_Inr split: sum.splits)
qed

lemma compared_simps [simp]:
  "compared ''option'' = [(0, False)]" "compared ''list'' = [(0, False)]" "compared ''or'' = [(0, True), (1, True)]"
  by (simp_all add: compared_def)

lemma equal_types_values: "assertScalarTypesEqual a b f = Inr () \<Longrightarrow> has_type v a \<longleftrightarrow> has_type v b"
proof (induction v arbitrary: a b f)
  case (PairV x y)
  have id: "is_pair_type b \<longleftrightarrow> is_pair_type a"
    using equal_types_typeID [OF PairV.prems] by (simp add: is_pair_typeID)
  show ?case
  proof (cases "is_pair_type a")
    case True
    then show ?thesis using PairV.IH id by (elim equal_types_pair [OF PairV.prems]) auto
  qed (simp add: id)
next
  case (SomeV x)
  have id: "typeID b = typeID a" using equal_types_typeID [OF SomeV.prems] .
  show ?case
  proof (cases "typeID a = ''option''")
    case True
    then obtain u w where "targ a 0 = Inr u" "targ b 0 = Inr w" "assertScalarTypesEqual u w False = Inr ()"
      using equal_types_targ [OF SomeV.prems, of 0 False] by (auto simp: is_pair_typeID)
    then show ?thesis using SomeV.IH id by auto
  qed (simp add: id)
next
  case (LeftV x)
  have id: "typeID b = typeID a" using equal_types_typeID [OF LeftV.prems] .
  show ?case
  proof (cases "typeID a = ''or''")
    case True
    then obtain u w where "targ a 0 = Inr u" "targ b 0 = Inr w" "assertScalarTypesEqual u w True = Inr ()"
      using equal_types_targ [OF LeftV.prems, of 0 True] by (auto simp: is_pair_typeID)
    then show ?thesis using LeftV.IH id by auto
  qed (simp add: id)
next
  case (RightV x)
  have id: "typeID b = typeID a" using equal_types_typeID [OF RightV.prems] .
  show ?case
  proof (cases "typeID a = ''or''")
    case True
    then obtain u w where "targ a 1 = Inr u" "targ b 1 = Inr w" "assertScalarTypesEqual u w True = Inr ()"
      using equal_types_targ [OF RightV.prems, of 1 True] by (auto simp: is_pair_typeID)
    then show ?thesis using RightV.IH id by auto
  qed (simp add: id)
next
  case (ListV xs)
  have id: "typeID b = typeID a" using equal_types_typeID [OF ListV.prems] .
  show ?case
  proof (cases "typeID a = ''list''")
    case True
    then obtain u w where "targ a 0 = Inr u" "targ b 0 = Inr w" "assertScalarTypesEqual u w False = Inr ()"
      using equal_types_targ [OF ListV.prems, of 0 False] by (auto simp: is_pair_typeID)
    then show ?thesis using ListV.IH id by (auto simp: list_all_iff)
  qed (simp add: id)
qed (auto dest: equal_types_typeID)

end
