(* ===== verification/InstSoundness.thy ===== *)
theory InstSoundness
  imports TypeSoundness
begin

text \<open>
  Soundness of the instructions that run no other code: on values of the types the checker was
  given, the machine takes the step, and leaves values of the types the checker gives.
\<close>

section \<open>Arguments on the stack\<close>

lemma args1_Inr: "args1 inst stack 0 ids = Inr t \<longleftrightarrow> (\<exists>r. stack = t # r \<and> (ids = [] \<or> in_list (typeID t) ids))"
  by (cases stack) (auto simp: args1_def stackArgs_def bindR_eq_Inr)

lemma args2_Inr: "args2 inst stack 0 ids0 ids1 = Inr (a, b) \<longleftrightarrow>
    (\<exists>r. stack = a # b # r \<and> (ids0 = [] \<or> in_list (typeID a) ids0) \<and> (ids1 = [] \<or> in_list (typeID b) ids1))"
  by (cases stack; cases "tl stack") (auto simp: args2_def stackArgs_def bindR_eq_Inr)

lemma args_at_Inr: "args1 inst stack n ids = Inr t \<longleftrightarrow> n < length stack \<and> t = stack ! n \<and> (ids = [] \<or> in_list (typeID t) ids)"
proof -
  have "take 1 (drop n stack) = [stack ! n]" if "n < length stack"
    using that by (simp add: take_Suc hd_drop_conv_nth)
  then show ?thesis by (cases "n < length stack") (auto simp: args1_def stackArgs_def bindR_eq_Inr)
qed

lemma args_many: "stackArgs inst stack 0 (replicate n []) = Inr xs \<longleftrightarrow> n \<le> length stack \<and> xs = take n stack"
  by (auto simp: stackArgs_def list_all2_conv_all_nth)

text \<open>What a step must do: typed by the stack the effect leaves.\<close>

definition sound_step :: "effect tc \<Rightarrow> mtype list \<Rightarrow> outcome \<Rightarrow> bool" where
  "sound_step eff ts out \<longleftrightarrow>
     (case eff of Inl e \<Rightarrow> True | Inr (new, k) \<Rightarrow> (\<exists>s'. out = Inr s' \<and> typed_stack s' (new @ drop k ts)))"

lemma sound_stepI: "(\<And>new k. eff = Inr (new, k) \<Longrightarrow> \<exists>s'. out = Inr s' \<and> typed_stack s' (new @ drop k ts)) \<Longrightarrow> sound_step eff ts out"
  by (auto simp: sound_step_def split: sum.splits)

named_theorems values_of "values of types by the name of the type"

lemmas [values_of] = has_type_atomic annotation_irrelevant

section \<open>Numbers and truth values\<close>

definition numeric :: "string list \<Rightarrow> bool" where
  "numeric ids \<longleftrightarrow> ids \<noteq> [] \<and> list_all (\<lambda>p. \<not> in_list p [''bool'', ''unit'', ''pair'', ''option'', ''or'', ''list'']) ids"

definition number_of :: "int \<Rightarrow> mtype \<Rightarrow> bool" where
  "number_of i t \<longleftrightarrow> typeID t = ''int'' \<or> typeID t = ''nat'' \<and> 0 \<le> i"

lemma numeric_value: "has_type v t \<Longrightarrow> numeric ids \<Longrightarrow> in_list (typeID t) ids \<Longrightarrow> \<exists>i. v = IntV i \<and> number_of i t"
  by (cases v) (auto simp: numeric_def number_of_def list_all_iff in_list_def is_pair_typeID)

lemma two_numbers:
  assumes "typed_stack s ts" and "args2 inst ts 0 ids0 ids1 = Inr (a, b)" and "numeric ids0" and "numeric ids1"
  shows "\<exists>i j q. s = IntV i # IntV j # q \<and> typed_stack q (drop 2 ts) \<and> number_of i a \<and> number_of j b"
proof -
  from assms obtain v w q where s: "s = v # w # q" "has_type v a" "has_type w b" "typed_stack q (drop 2 ts)"
    by (auto simp: args2_Inr list_all2_Cons2)
  moreover have "in_list (typeID a) ids0" "in_list (typeID b) ids1"
    using assms by (auto simp: args2_Inr numeric_def)
  ultimately show ?thesis using numeric_value assms(3,4) by blast
qed

lemma numeric_lists [simp]: "numeric num_types" "numeric [''nat'', ''int'', ''mutez'']"
  "numeric [''nat'', ''int'', ''timestamp'']" "numeric [''nat'', ''int'', ''timestamp'', ''mutez'']"
  "numeric [''nat'', ''int'', ''mutez'', ''bls12_381_g1'', ''bls12_381_g2'', ''bls12_381_fr'']"
  by (simp_all add: numeric_def num_types_def)

lemma add_sound: "typed_stack s ts \<Longrightarrow> sound_step (add_inst inst ts) ts (num2_op (\<lambda>i j. IntV (i + j)) s)"
proof (rule sound_stepI)
  fix new k assume s: "typed_stack s ts" and eff: "add_inst inst ts = Inr (new, k)"
  obtain a b where ab: "args2 inst ts 0 num_types num_types = Inr (a, b)"
    using eff by (auto simp: add_inst_def bindR_eq_Inr)
  from two_numbers [OF s ab] obtain i j q where
    "s = IntV i # IntV j # q" "typed_stack q (drop 2 ts)" "number_of i a" "number_of j b" by auto
  then show "\<exists>s'. num2_op (\<lambda>i j. IntV (i + j)) s = Inr s' \<and> typed_stack s' (new @ drop k ts)"
    using eff unfolding number_of_def
    by (elim disjE conjE) (auto simp: add_inst_def ab bindR_eq_Inr Let_def arith_effect annotation_irrelevant)
qed

lemma sub_sound: "typed_stack s ts \<Longrightarrow> sound_step (sub_inst proto inst ts) ts (num2_op (\<lambda>i j. IntV (i - j)) s)"
proof (rule sound_stepI)
  fix new k assume s: "typed_stack s ts" and eff: "sub_inst proto inst ts = Inr (new, k)"
  define ids where "ids = (if ProtoInferiorTo proto PsiThaCa then [''nat'', ''int'', ''timestamp'', ''mutez''] else [''nat'', ''int'', ''timestamp''])"
  obtain a b where ab: "args2 inst ts 0 ids ids = Inr (a, b)"
    using eff unfolding sub_inst_def ids_def [symmetric] by (auto simp: bindR_eq_Inr Let_def)
  have "numeric ids" by (simp add: ids_def)
  from two_numbers [OF s ab this this] obtain i j q where
    "s = IntV i # IntV j # q" "typed_stack q (drop 2 ts)" "number_of i a" "number_of j b" by auto
  then show "\<exists>s'. num2_op (\<lambda>i j. IntV (i - j)) s = Inr s' \<and> typed_stack s' (new @ drop k ts)"
    using eff unfolding number_of_def sub_inst_def ids_def [symmetric]
    by (elim disjE conjE) (auto simp: ab bindR_eq_Inr Let_def arith_effect annotation_irrelevant)
qed

lemma mul_sound: "typed_stack s ts \<Longrightarrow> sound_step (mul_inst inst ts) ts (num2_op (\<lambda>i j. IntV (i * j)) s)"
proof (rule sound_stepI)
  fix new k assume s: "typed_stack s ts" and eff: "mul_inst inst ts = Inr (new, k)"
  let ?ids = "[''nat'', ''int'', ''mutez'', ''bls12_381_g1'', ''bls12_381_g2'', ''bls12_381_fr'']"
  obtain a b where ab: "args2 inst ts 0 ?ids ?ids = Inr (a, b)"
    using eff by (auto simp: mul_inst_def bindR_eq_Inr Let_def)
  from two_numbers [OF s ab] obtain i j q where
    "s = IntV i # IntV j # q" "typed_stack q (drop 2 ts)" "number_of i a" "number_of j b" by auto
  then show "\<exists>s'. num2_op (\<lambda>i j. IntV (i * j)) s = Inr s' \<and> typed_stack s' (new @ drop k ts)"
    using eff unfolding number_of_def
    by (elim disjE conjE) (auto simp: mul_inst_def ab bindR_eq_Inr Let_def arith_effect annotation_irrelevant)
qed

lemma ediv_val_type:
  "has_type (ediv_val i j) (ty_of ''option'' [ty_of ''pair'' [ty ''int'', ty ''nat'']])"
  "0 \<le> i \<Longrightarrow> 0 \<le> j \<Longrightarrow> has_type (ediv_val i j) (ty_of ''option'' [ty_of ''pair'' [ty ''nat'', ty ''nat'']])"
  by (auto simp: ediv_val_def is_pair_type_def minus_mod_eq_mult_div pos_imp_zdiv_nonneg_iff)

lemma ediv_sound: "typed_stack s ts \<Longrightarrow> sound_step (ediv_inst inst ts) ts (num2_op ediv_val s)"
proof (rule sound_stepI)
  fix new k assume s: "typed_stack s ts" and eff: "ediv_inst inst ts = Inr (new, k)"
  let ?ids = "[''nat'', ''int'', ''mutez'']"
  obtain a b where ab: "args2 inst ts 0 ?ids ?ids = Inr (a, b)"
    using eff by (auto simp: ediv_inst_def bindR_eq_Inr Let_def)
  from two_numbers [OF s ab] obtain i j q where
    "s = IntV i # IntV j # q" "typed_stack q (drop 2 ts)" "number_of i a" "number_of j b" by auto
  then show "\<exists>s'. num2_op ediv_val s = Inr s' \<and> typed_stack s' (new @ drop k ts)"
    using eff ediv_val_type unfolding number_of_def
    by (elim disjE conjE) (auto simp: ediv_inst_def ab bindR_eq_Inr Let_def arith_effect annotation_irrelevant
        simp del: has_type.simps)
qed

lemma logic_sound:
  assumes f: "\<And>i j. 0 \<le> j \<Longrightarrow> (0 \<le> i \<or> land) \<Longrightarrow> 0 \<le> f i j"
  shows "typed_stack s ts \<Longrightarrow> sound_step (logic_inst inst land ts) ts (bit_op f g s)"
proof (rule sound_stepI)
  fix new k assume s: "typed_stack s ts" and eff: "logic_inst inst land ts = Inr (new, k)"
  then obtain a b r v w q where ab: "ts = a # b # r" "s = v # w # q" "has_type v a" "has_type w b" "typed_stack q r"
    and eff': "arith inst 2 b = Inr (new, k)"
    and id: "in_list (typeID b) [''nat'', ''bytes'', ''bool'']"
            "typeID a = typeID b \<or> land \<and> typeID a = ''int'' \<and> typeID b = ''nat''"
    by (auto simp: logic_inst_def bindR_eq_Inr args2_Inr list_all2_Cons2 split: if_splits)
  have "\<not> has_type w b" if "typeID b = ''bytes''" using has_type_inhabited that by fastforce
  then consider (n) "typeID b = ''nat''" | (t) "typeID b = ''bool''" using id(1) ab(4) by auto
  then show "\<exists>s'. bit_op f g s = Inr s' \<and> typed_stack s' (new @ drop k ts)"
  proof cases
    case n
    then obtain i j where "v = IntV i" "w = IntV j" "0 \<le> j" "0 \<le> i \<or> land"
      using id(2) ab(3,4) by (auto simp: has_type_atomic)
    then show ?thesis using ab eff' n f by (auto simp: arith_effect annotation_irrelevant)
  next
    case t
    then obtain x y where "v = BoolV x" "w = BoolV y" using id(2) ab(3,4) by (auto simp: has_type_atomic)
    then show ?thesis using ab eff' t by (auto simp: arith_effect annotation_irrelevant)
  qed
qed

lemma unary_sound:
  assumes "\<And>v t. has_type v t \<Longrightarrow> in_list (typeID t) ids \<Longrightarrow> \<exists>w. (\<forall>q. out (v # q) = Inr (w # q)) \<and> has_type w t'" and "ids \<noteq> []"
  shows "typed_stack s ts \<Longrightarrow> sound_step (unary inst ts ids t') ts (out s)"
proof (rule sound_stepI)
  fix new k assume "typed_stack s ts" and "unary inst ts ids t' = Inr (new, k)"
  then obtain a r v q u where *: "ts = a # r" "s = v # q" "has_type v a" "typed_stack q r" "in_list (typeID a) ids"
    "new = [u]" "k = 1" "annotateVar inst t' None = Inr u"
    using assms(2) by (auto simp: unary_def bindR_eq_Inr args1_Inr arith_effect list_all2_Cons2)
  then obtain w where "out s = Inr (w # q)" "has_type w t'" using assms(1) by blast
  then show "\<exists>s'. out s = Inr s' \<and> typed_stack s' (new @ drop k ts)" using * by (auto simp: annotation_irrelevant)
qed

lemma relation_sound: "in_list p relations \<Longrightarrow> has_type v t \<Longrightarrow> in_list (typeID t) [''int''] \<Longrightarrow>
    \<exists>w. (\<forall>q. rel_op p (v # q) = Inr (w # q)) \<and> has_type w (ty ''bool'')"
  by (auto simp: has_type_atomic cmp_rel_def relations_def)

lemma neg_sound: "typed_stack s ts \<Longrightarrow> sound_step (arith_inst proto inst ''NEG'' ts) ts (num1_op (\<lambda>i. IntV (- i)) s)"
proof (rule sound_stepI)
  fix new k assume "typed_stack s ts" and eff: "arith_inst proto inst ''NEG'' ts = Inr (new, k)"
  then obtain a r v q where *: "ts = a # r" "s = v # q" "has_type v a" "typed_stack q r"
     "in_list (typeID a) [''nat'', ''int'', ''bls12_381_g1'', ''bls12_381_g2'', ''bls12_381_fr'']"
    by (auto simp: arith_inst_def bindR_eq_Inr args1_Inr arith_effect list_all2_Cons2)
  moreover obtain i where "v = IntV i" "number_of i a"
    using numeric_value [OF *(3) _ *(5)] by (auto simp: numeric_def)
  ultimately show "\<exists>s'. num1_op (\<lambda>i. IntV (- i)) s = Inr s' \<and> typed_stack s' (new @ drop k ts)"
    using eff unfolding number_of_def
    by (elim disjE conjE) (auto simp: arith_inst_def bindR_eq_Inr args1_Inr arith_effect annotation_irrelevant)
qed

lemma not_sound: "typed_stack s ts \<Longrightarrow> sound_step (arith_inst proto inst ''NOT'' ts) ts (not_op s)"
proof (rule sound_stepI)
  fix new k assume "typed_stack s ts" and eff: "arith_inst proto inst ''NOT'' ts = Inr (new, k)"
  then obtain a r v q where *: "ts = a # r" "s = v # q" "has_type v a" "typed_stack q r"
     "in_list (typeID a) [''nat'', ''bytes'', ''bool'', ''int'']"
    by (auto simp: arith_inst_def bindR_eq_Inr args1_Inr arith_effect list_all2_Cons2)
  then consider (t) b where "v = BoolV b" "typeID a = ''bool''" | (n) i where "v = IntV i" "number_of i a"
    using has_type_inhabited [OF *(3)] by (auto simp: has_type_atomic number_of_def)
  then show "\<exists>s'. not_op s = Inr s' \<and> typed_stack s' (new @ drop k ts)"
    using eff * unfolding number_of_def
    by cases (auto simp: arith_inst_def bindR_eq_Inr args1_Inr arith_effect annotation_irrelevant)
qed

section \<open>Combs\<close>

lemma mapiR_all2: "mapiR f i xs = Inr ys \<Longrightarrow> list_all2 (\<lambda>x y. \<exists>n. f n x = Inr y) xs ys"
  by (induction xs arbitrary: i ys) (auto simp: bindR_eq_Inr)

lemma typed_mapiR:
  assumes "mapiR f i ts = Inr us" and "\<And>n t u v. f n t = Inr u \<Longrightarrow> has_type v u \<longleftrightarrow> has_type v t"
  shows "typed_stack s us \<longleftrightarrow> typed_stack s ts"
proof -
  have "list_all2 (\<lambda>t u. \<forall>v. has_type v u \<longleftrightarrow> has_type v t) ts us"
    using mapiR_all2 [OF assms(1)] by (rule list_all2_mono) (use assms(2) in blast)
  then show ?thesis by (auto simp: list_all2_conv_all_nth)
qed

lemma comb_parts_long [simp]: "comb_parts (MPrim p (Some (a # b # c # as)) an r) = Inr (a, ty_of ''pair'' (b # c # as))"
  by (simp add: comb_parts_def typeArgs_def)

lemma comb_sound: "typed_stack s (ts @ r) \<Longrightarrow> 2 \<le> length ts \<Longrightarrow>
    \<exists>v q. comb_val (length ts) s = Some (v, q) \<and> has_type v (ty_of ''pair'' ts) \<and> typed_stack q r"
proof (induction ts arbitrary: s)
  case (Cons t ts)
  then obtain v s' where s: "s = v # s'" "has_type v t" "typed_stack s' (ts @ r)" by (auto simp: list_all2_Cons2)
  show ?case
  proof (cases "2 \<le> length ts")
    case True
    then obtain a b c where "ts = a # b # c" by (cases ts; cases "tl ts") auto
    with Cons.IH [OF s(3) True] s show ?thesis by (auto simp: is_pair_typeID)
  next
    case False
    then obtain u where "ts = [u]" using Cons.prems(2) by (cases ts; cases "tl ts") auto
    then show ?thesis using s by (auto simp: is_pair_typeID list_all2_Cons2)
  qed
qed simp

lemma getN_sound: "getN inst t n = Inr us \<Longrightarrow> is_pair_type t \<Longrightarrow> 2 \<le> n \<Longrightarrow> has_type v t \<Longrightarrow>
    \<exists>xs. uncomb_val n v = Some xs \<and> typed_stack xs us"
proof (induction inst t n arbitrary: v us rule: getN.induct)
  case (1 inst t n)
  obtain a b where ab: "comb_parts t = Inr (a, b)"
    using "1.prems"(1) by (subst (asm) getN.simps) (auto split: sum.splits)
  then obtain x y where v: "v = PairV x y" "has_type x a" "has_type y b"
    using "1.prems"(2,4) by (auto simp: has_type_pair)
  show ?case
  proof (cases "n = 2")
    case True
    then have "us = [a, b]" using "1.prems"(1) ab by (subst (asm) getN.simps) simp
    moreover have "uncomb_val 1 y = Some [y]" by (cases y) auto
    ultimately show ?thesis using v True by auto
  next
    case False
    then obtain vs where vs: "is_pair_type b" "getN inst b (n - 1) = Inr vs" "us = a # vs"
      using "1.prems"(1,3) ab by (subst (asm) getN.simps) (auto simp: bindR_eq_Inr split: if_splits)
    then obtain xs where "uncomb_val (n - 1) y = Some xs" "typed_stack xs vs"
      using "1.IH" [OF ab refl _ False vs(1) vs(2) vs(1) _ v(3)] "1.prems"(3) False by force
    then show ?thesis using v vs "1.prems"(3) by auto
  qed
qed

lemma getNth_sound: "getNth inst t n = Inr u \<Longrightarrow> is_pair_type t \<or> n = 0 \<Longrightarrow> has_type v t \<Longrightarrow>
    \<exists>w. get_op n v = Some w \<and> has_type w u"
proof (induction inst t n arbitrary: v u rule: getNth.induct)
  case (1 inst t n)
  show ?case
  proof (cases "n = 0")
    case False
    obtain a b where ab: "comb_parts t = Inr (a, b)"
      using "1.prems"(1) False by (subst (asm) getNth.simps) (auto split: sum.splits)
    then obtain x y where v: "v = PairV x y" "has_type x a" "has_type y b"
      using "1.prems"(2,3) False by (auto simp: has_type_pair)
    consider (one) "n = 1" | (more) m where "n = Suc (Suc m)" using False by (metis One_nat_def not0_implies_Suc)
    then show ?thesis
    proof cases
      case one
      then show ?thesis using "1.prems"(1) ab v by (subst (asm) getNth.simps) auto
    next
      case more
      have "\<exists>w. get_op m y = Some w \<and> has_type w u"
      proof (cases "is_pair_type b")
        case True
        then have "getNth inst b (n - 2) = Inr u"
          using "1.prems"(1) ab more by (subst (asm) getNth.simps) auto
        then show ?thesis using "1.IH" [OF False ab refl _ True] True v more by auto
      next
        case no: False
        then show ?thesis using "1.prems"(1) ab v more by (subst (asm) getNth.simps) (auto split: if_splits)
      qed
      then show ?thesis using v more by auto
    qed
  qed (use "1.prems" in \<open>simp add: getNth.simps\<close>)
qed

lemma comb_with_parts: "is_pair_type t \<Longrightarrow> is_pair_type (comb_with t [a, b]) \<and> comb_parts (comb_with t [a, b]) = Inr (a, b)"
  by (auto simp: comb_with_def is_pair_type_def split: mtype.splits option.splits)

lemma has_type_comb_with: "is_pair_type t \<Longrightarrow> has_type x a \<Longrightarrow> has_type y b \<Longrightarrow> has_type (PairV x y) (comb_with t [a, b])"
  using comb_with_parts [of t a b] by simp

lemma updateNth_sound: "updateNth inst t u n = Inr t' \<Longrightarrow> is_pair_type t \<or> n = 0 \<Longrightarrow> has_type v t \<Longrightarrow> has_type w u \<Longrightarrow>
    \<exists>z. set_op n w v = Some z \<and> has_type z t'"
proof (induction inst t u n arbitrary: v t' rule: updateNth.induct)
  case (1 inst t u n)
  show ?case
  proof (cases "n = 0")
    case False
    obtain a b where ab: "comb_parts t = Inr (a, b)"
      using "1.prems"(1) False by (subst (asm) updateNth.simps) (auto split: sum.splits)
    then obtain x y where v: "v = PairV x y" "has_type x a" "has_type y b"
      using "1.prems"(2,3) False by (auto simp: has_type_pair)
    have pair: "is_pair_type t" using "1.prems"(2) False by simp
    consider (one) "n = 1" | (more) m where "n = Suc (Suc m)" using False by (metis One_nat_def not0_implies_Suc)
    then show ?thesis
    proof cases
      case one
      then have "t' = comb_with t [u, b]" using "1.prems"(1) ab by (subst (asm) updateNth.simps) auto
      then show ?thesis using one v pair "1.prems"(4) by (auto intro: has_type_comb_with simp del: has_type.simps)
    next
      case more
      have "\<exists>z b'. set_op m w y = Some z \<and> has_type z b' \<and> t' = comb_with t [a, b']"
      proof (cases "is_pair_type b")
        case True
        then obtain b' where "updateNth inst b u (n - 2) = Inr b'" "t' = comb_with t [a, b']"
          using "1.prems"(1) ab more by (subst (asm) updateNth.simps) (auto simp: bindR_eq_Inr)
        then show ?thesis using "1.IH" [OF False ab refl _ True, of b' y] True v more "1.prems"(4) by auto
      next
        case no: False
        then show ?thesis using "1.prems"(1,4) ab v more by (subst (asm) updateNth.simps) (auto split: if_splits)
      qed
      then show ?thesis using v more pair by (auto intro: has_type_comb_with simp del: has_type.simps)
    qed
  qed (use "1.prems" in \<open>simp add: updateNth.simps\<close>)
qed

section \<open>Groups of instructions\<close>

lemma arith_sound:
  assumes "in_list p arith_instructions" and "typed_stack s ts"
  shows "sound_step (arith_inst proto inst p ts) ts (run0 p s)"
proof -
  have abs: "sound_step (unary inst ts [''int''] (ty ''nat'')) ts (num1_op (\<lambda>i. IntV \<bar>i\<bar>) s)"
    by (rule unary_sound [OF _ _ assms(2)]) (auto simp: has_type_atomic)
  have isnat: "sound_step (unary inst ts [''int''] (ty_of ''option'' [ty ''nat''])) ts (num1_op (\<lambda>i. if 0 \<le> i then SomeV (IntV i) else NoneV) s)"
    by (rule unary_sound [OF _ _ assms(2)]) (auto simp: has_type_atomic)
  have int: "sound_step (unary inst ts [''nat'', ''bls12_381_fr'', ''bytes''] (ty ''int'')) ts (num1_op IntV s)"
    by (rule unary_sound [OF _ _ assms(2)]) (use has_type_inhabited in \<open>fastforce simp: has_type_atomic\<close>)+
  have rel: "sound_step (unary inst ts [''int''] (ty ''bool'')) ts (rel_op p s)" if "in_list p relations"
    by (rule unary_sound [OF relation_sound [OF that] _ assms(2)]) auto
  note neg = neg_sound [OF assms(2), of proto inst, unfolded arith_inst_def, simplified]
  note no = not_sound [OF assms(2), of proto inst, unfolded arith_inst_def, simplified]
  have logic: "sound_step (logic_inst inst True ts) ts (bit_op (and) (\<and>) s)"
      "sound_step (logic_inst inst False ts) ts (bit_op (or) (\<or>) s)"
      "sound_step (logic_inst inst False ts) ts (bit_op (xor) (\<noteq>) s)"
    by (rule logic_sound [OF _ assms(2)]; simp)+
  have rels: "arith_inst proto inst p ts = unary inst ts [''int''] (ty ''bool'')" "run0 p s = rel_op p s"
    if "in_list p relations" using that unfolding relations_def in_list_Cons simp_thms
    by (elim disjE; simp add: arith_inst_def run0_def exec0_def)+
  show ?thesis
  proof (cases "in_list p relations")
    case True
    then show ?thesis using rel rels by simp
  next
    case False
    then have "in_list p [''ADD'', ''SUB'', ''MUL'', ''EDIV'', ''NEG'', ''ABS'', ''INT'', ''ISNAT'', ''AND'', ''OR'', ''XOR'', ''NOT'']"
      using assms(1) by (auto simp: arith_instructions_def in_list_def)
    then show ?thesis unfolding in_list_Cons simp_thms
      by (elim disjE) (simp_all add: arith_inst_def run0_def add_sound [OF assms(2)] sub_sound [OF assms(2)]
          mul_sound [OF assms(2)] ediv_sound [OF assms(2)] abs [simplified] isnat [simplified] int [simplified] neg no
          logic logic [simplified])
  qed
qed

lemma ensureTypesEqual_has_type: "ensureTypesEqual inst a b = Inr () \<Longrightarrow> has_type v a \<longleftrightarrow> has_type v b"
  by (auto simp: ensureTypesEqual_def rethrow_def equal_types_values split: sum.splits)

lemma stack_plain_sound:
  assumes "in_list p [''SWAP'', ''DROP'', ''DUP'', ''RENAME'']" and "typed_stack s ts"
  shows "sound_step (stack_inst inst p None ts) ts (run0 p s)"
  using assms(1) unfolding in_list_Cons simp_thms
proof (elim disjE)
  assume p: "p = ''SWAP''"
  show ?thesis unfolding p by (rule sound_stepI)
    (use assms(2) in \<open>auto simp: stack_inst_def run0_def bindR_eq_Inr args2_Inr list_all2_Cons2\<close>)
next
  assume p: "p = ''DROP''"
  show ?thesis unfolding p by (rule sound_stepI)
    (use assms(2) in \<open>auto simp: stack_inst_def run0_def drop_type_def count_arg_def bindR_eq_Inr args1_Inr list_all2_Cons2\<close>)
next
  assume p: "p = ''DUP''"
  show ?thesis unfolding p by (rule sound_stepI)
    (use assms(2) in \<open>auto simp: stack_inst_def run0_def dup_type_def count_arg_def bindR_eq_Inr args1_Inr list_all2_Cons2 split: if_splits\<close>)
next
  assume p: "p = ''RENAME''"
  show ?thesis unfolding p by (rule sound_stepI)
    (use assms(2) in \<open>auto simp: stack_inst_def run0_def bindR_eq_Inr args1_Inr list_all2_Cons2 annotation_irrelevant\<close>)
qed simp

lemma dip_take_drop: "typed_stack s ts \<Longrightarrow> typed_stack (take n s) (take n ts) \<and> typed_stack (drop n s) (drop n ts)"
  by (auto intro: list_all2_takeI list_all2_dropI)

lemma stack_counted_sound:
  assumes "in_list p [''DUP'', ''DROP'', ''DIG'']" and "typed_stack s ts" and "inst_nat as 0 = Inr n" and "as \<noteq> None"
  shows "sound_step (stack_inst inst p as ts) ts (run_num p n s)"
  using assms(1) unfolding in_list_Cons simp_thms
proof (elim disjE)
  have len: "length s = length ts" using assms(2) by (rule list_all2_lengthD)
  have nth: "i < length ts \<Longrightarrow> has_type (s ! i) (ts ! i)" for i using assms(2) by (simp add: list_all2_conv_all_nth)
  have count: "count_arg as m = Inr n" for m using assms(3,4) by (auto simp: count_arg_def)
  {
    assume p: "p = ''DUP''"
    show ?thesis unfolding p by (rule sound_stepI)
      (use assms(2) len nth in \<open>auto simp: stack_inst_def run_num_def exec_num_def dup_op_def dup_type_def count bindR_eq_Inr args_at_Inr split: if_splits\<close>)
  next
    assume p: "p = ''DROP''"
    show ?thesis unfolding p by (rule sound_stepI)
      (use assms(2) len in \<open>auto simp: stack_inst_def run_num_def drop_type_def count bindR_eq_Inr args_at_Inr dip_take_drop split: if_splits\<close>)
  next
    assume p: "p = ''DIG''"
    show ?thesis unfolding p by (rule sound_stepI)
      (use assms len nth in \<open>auto simp: stack_inst_def run_num_def exec_num_def dig_op_def bindR_eq_Inr args_at_Inr intro!: list_all2_appendI dest: dip_take_drop\<close>)
  }
qed simp

lemma pair_sound:
  assumes "typed_stack s ts" and "count_arg as 2 = Inr n"
  shows "sound_step (pair_inst inst ''PAIR'' as ts) ts
    (case comb_val n s of Some (v, r) \<Rightarrow> if 2 \<le> n then Inr (v # r) else Inl IllTyped | None \<Rightarrow> Inl IllTyped)"
proof (rule sound_stepI)
  fix new k assume "pair_inst inst ''PAIR'' as ts = Inr (new, k)"
  then obtain ia xs u where *: "2 \<le> n" "n \<le> length ts" "mapiR (pair_field inst ia) 0 (take n ts) = Inr xs"
    "annotate inst (ty_of ''pair'' xs) (spec_of (ann_v ia)) (spec_of (ann_t ia)) Undef = Inr u" "new = [u]" "k = n"
    using assms(2) by (auto simp: pair_inst_def bindR_eq_Inr args_many not_less split: if_splits)
  then have "typed_stack (take n s) xs" using assms(1) typed_mapiR [OF *(3)] by (auto simp: annotation_irrelevant dest: dip_take_drop)
  then have "typed_stack (take n s @ drop n s) (xs @ drop n ts)" using assms(1) dip_take_drop by (blast intro: list_all2_appendI)
  moreover have "length xs = n" using mapiR_all2 [OF *(3)] *(2) by (auto dest: list_all2_lengthD)
  ultimately obtain v q where "comb_val n s = Some (v, q)" "has_type v (ty_of ''pair'' xs)" "typed_stack q (drop n ts)"
    using comb_sound [of s xs "drop n ts"] *(1) by auto
  then show "\<exists>s'. (case comb_val n s of Some (v, r) \<Rightarrow> if 2 \<le> n then Inr (v # r) else Inl IllTyped | None \<Rightarrow> Inl IllTyped) = Inr s' \<and>
      typed_stack s' (new @ drop k ts)"
    using * by (auto simp: annotation_irrelevant)
qed

lemma unpair_sound:
  assumes "typed_stack s ts" and "count_arg as 2 = Inr n"
  shows "sound_step (pair_inst inst ''UNPAIR'' as ts) ts (run_num ''UNPAIR'' n s)"
proof (rule sound_stepI)
  fix new k assume "pair_inst inst ''UNPAIR'' as ts = Inr (new, k)"
  then obtain t r ia fs where *: "2 \<le> n" "ts = t # r" "is_pair_type t" "getN inst t n = Inr fs" "k = 1"
    "mapiR (\<lambda>i field. annotateField inst t field ia i (if i = 0 then ''car'' else ''cdr'')) 0 fs = Inr new"
    using assms(2) by (auto simp: pair_inst_def bindR_eq_Inr args1_Inr is_pair_typeID not_less split: if_splits)
  then obtain v q where s: "s = v # q" "has_type v t" "typed_stack q r" using assms(1) by (auto simp: list_all2_Cons2)
  then obtain xs where "uncomb_val n v = Some xs" "typed_stack xs fs" using getN_sound [OF *(4,3,1)] by blast
  moreover have "typed_stack xs new \<longleftrightarrow> typed_stack xs fs" using typed_mapiR [OF *(6)] by (simp add: annotateField_has_type)
  ultimately show "\<exists>s'. run_num ''UNPAIR'' n s = Inr s' \<and> typed_stack s' (new @ drop k ts)"
    using * s by (auto simp: run_num_def intro: list_all2_appendI)
qed

lemma pair_op_comb: "pair_op s = (case comb_val 2 s of Some (v, r) \<Rightarrow> Inr (v # r) | None \<Rightarrow> Inl IllTyped)"
  by (cases s rule: pair_op.cases) auto

lemma unpair_op_comb: "unpair_op s = run_num ''UNPAIR'' 2 s"
proof (cases s rule: unpair_op.cases)
  case (1 a b s)
  have "uncomb_val 1 b = Some [b]" by (cases b) auto
  then show ?thesis using 1 by (simp add: run_num_def)
qed (auto simp: run_num_def)

lemma pair_plain_sound:
  assumes "in_list p [''PAIR'', ''UNPAIR'', ''CAR'', ''CDR'']" and "typed_stack s ts"
  shows "sound_step (pair_inst inst p None ts) ts (run0 p s)"
  using assms(1) unfolding in_list_Cons simp_thms
proof (elim disjE)
  assume p: "p = ''PAIR''"
  then show ?thesis using pair_sound [OF assms(2), of None 2] by (simp add: count_arg_def run0_def pair_op_comb cong: option.case_cong)
next
  assume p: "p = ''UNPAIR''"
  then show ?thesis using unpair_sound [OF assms(2), of None 2] by (simp add: count_arg_def run0_def unpair_op_comb)
next
  assume p: "p = ''CAR''"
  show ?thesis unfolding p by (rule sound_stepI)
    (use assms(2) in \<open>auto simp: pair_inst_def run0_def bindR_eq_Inr args1_Inr is_pair_typeID list_all2_Cons2 annotation_irrelevant has_type_pair\<close>)
next
  assume p: "p = ''CDR''"
  show ?thesis unfolding p by (rule sound_stepI)
    (use assms(2) in \<open>auto simp: pair_inst_def run0_def bindR_eq_Inr args1_Inr is_pair_typeID list_all2_Cons2 annotation_irrelevant has_type_pair\<close>)
qed simp

lemma pair_counted_sound:
  assumes "in_list p [''PAIR'', ''UNPAIR'', ''GET'', ''UPDATE'']" and "typed_stack s ts" and "inst_nat as 0 = Inr n" and "as \<noteq> None"
  shows "sound_step (pair_inst inst p as ts) ts (run_num p n s)"
  using assms(1) unfolding in_list_Cons simp_thms
proof (elim disjE)
  have count: "count_arg as m = Inr n" for m using assms(3,4) by (auto simp: count_arg_def)
  {
    assume p: "p = ''PAIR''"
    show ?thesis using pair_sound [OF assms(2) count] unfolding p run_num_def by simp
  next
    assume p: "p = ''UNPAIR''"
    show ?thesis using unpair_sound [OF assms(2) count] unfolding p .
  next
    assume p: "p = ''GET''"
    show ?thesis unfolding p
    proof (rule sound_stepI)
      fix new k assume "pair_inst inst ''GET'' as ts = Inr (new, k)"
      then obtain t r u w where *: "ts = t # r" "is_pair_type t" "getNth inst t n = Inr u" "annotateVar inst u None = Inr w" "new = [w]" "k = 1"
        using assms(3) by (auto simp: pair_inst_def bindR_eq_Inr args1_Inr is_pair_typeID)
      then obtain v q where "s = v # q" "has_type v t" "typed_stack q r" using assms(2) by (auto simp: list_all2_Cons2)
      then show "\<exists>s'. run_num ''GET'' n s = Inr s' \<and> typed_stack s' (new @ drop k ts)"
        using getNth_sound [OF *(3), of v] * by (auto simp: run_num_def exec_num_def annotation_irrelevant)
    qed
  next
    assume p: "p = ''UPDATE''"
    show ?thesis unfolding p
    proof (rule sound_stepI)
      fix new k assume "pair_inst inst ''UPDATE'' as ts = Inr (new, k)"
      then obtain t x r u w where *: "ts = x # t # r" "is_pair_type t" "updateNth inst t x n = Inr u" "annotateVar inst u None = Inr w" "new = [w]" "k = 2"
        using assms(3) by (auto simp: pair_inst_def bindR_eq_Inr args2_Inr is_pair_typeID)
      then obtain z v q where "s = z # v # q" "has_type z x" "has_type v t" "typed_stack q r" using assms(2) by (auto simp: list_all2_Cons2)
      then show "\<exists>s'. run_num ''UPDATE'' n s = Inr s' \<and> typed_stack s' (new @ drop k ts)"
        using updateNth_sound [OF *(3), of v z] * by (auto simp: run_num_def annotation_irrelevant)
    qed
  }
qed simp

lemma coll_plain_sound:
  assumes "in_list p [''SOME'', ''CONS'', ''SIZE'']" and "typed_stack s ts"
  shows "sound_step (coll_inst inst p None ts) ts (run0 p s)"
  using assms(1) unfolding in_list_Cons simp_thms
proof (elim disjE)
  assume p: "p = ''SOME''"
  show ?thesis unfolding p by (rule sound_stepI)
    (use assms(2) in \<open>auto simp: coll_inst_def run0_def bindR_eq_Inr args1_Inr list_all2_Cons2 annotation_irrelevant\<close>)
next
  assume p: "p = ''CONS''"
  show ?thesis unfolding p
  proof (rule sound_stepI)
    fix new k assume "coll_inst inst ''CONS'' None ts = Inr (new, k)"
    then obtain x l r t u where *: "ts = x # l # r" "typeID l = ''list''" "targ l 0 = Inr t" "ensureTypesEqual inst x t = Inr ()"
        "annotateVar inst (ty_of ''list'' [t]) None = Inr u" "new = [u]" "k = 2"
      by (auto simp: coll_inst_def bindR_eq_Inr args2_Inr)
    then obtain v w q where s: "s = v # w # q" "has_type v x" "has_type w l" "typed_stack q r"
      using assms(2) by (auto simp: list_all2_Cons2)
    then obtain ys where "w = ListV ys" "list_all (\<lambda>x. has_type x t) ys" using * by (auto simp: has_type_list)
    moreover have "has_type v t" using *(4) s(2) by (auto simp: ensureTypesEqual_has_type)
    ultimately have "w = ListV ys" "has_type (ListV (v # ys)) u" using annotateVar_has_type [OF *(5)] by auto
    then show "\<exists>s'. run0 ''CONS'' s = Inr s' \<and> typed_stack s' (new @ drop k ts)"
      using s * by (auto simp: run0_def simp del: has_type.simps)
  qed
next
  assume p: "p = ''SIZE''"
  have "\<not> has_type v t" if "in_list (typeID t) [''string'', ''set'', ''map'', ''bytes'']" for v t
    using that has_type_inhabited [of v t] by auto
  then have size: "\<exists>xs. v = ListV xs" if "has_type v t" "in_list (typeID t) [''string'', ''list'', ''set'', ''map'', ''bytes'']" for v t
    using that by (cases v) (auto simp: is_pair_typeID)
  show ?thesis unfolding p
  proof (rule sound_stepI)
    fix new k assume "coll_inst inst ''SIZE'' None ts = Inr (new, k)"
    then obtain t r u where *: "ts = t # r" "in_list (typeID t) [''string'', ''list'', ''set'', ''map'', ''bytes'']"
        "annotateVar inst (ty ''nat'') None = Inr u" "new = [u]" "k = 1"
      by (auto simp: coll_inst_def bindR_eq_Inr args1_Inr)
    then obtain v q where s: "s = v # q" "has_type v t" "typed_stack q r" using assms(2) by (auto simp: list_all2_Cons2)
    then show "\<exists>s'. run0 ''SIZE'' s = Inr s' \<and> typed_stack s' (new @ drop k ts)"
      using size [OF s(2) *(2)] * by (auto simp: run0_def annotation_irrelevant)
  qed
qed simp

lemma coll_typed_sound:
  assumes "in_list p [''NONE'', ''NIL'', ''LEFT'', ''RIGHT'']" and "typed_stack s ts"
  shows "sound_step (coll_inst inst p as ts) ts (run_type p s)"
  using assms(1) unfolding in_list_Cons simp_thms
proof (elim disjE)
  have lr: "sound_step (left_right inst left as ts) ts (case s of v # r \<Rightarrow> Inr ((if left then LeftV else RightV) v # r) | [] \<Rightarrow> Inl IllTyped)" for left
    by (rule sound_stepI)
      (use assms(2) in \<open>auto simp: left_right_def bindR_eq_Inr args1_Inr list_all2_Cons2 annotation_irrelevant\<close>)
  {
    assume p: "p = ''NONE''"
    show ?thesis unfolding p by (rule sound_stepI)
      (use assms(2) in \<open>auto simp: coll_inst_def run_type_def bindR_eq_Inr annotation_irrelevant\<close>)
  next
    assume p: "p = ''NIL''"
    have nil: "has_type (ListV []) (ty_of ''list'' [t])" for t by simp
    show ?thesis unfolding p by (rule sound_stepI)
      (use assms(2) nil in \<open>auto simp: coll_inst_def run_type_def bindR_eq_Inr annotation_irrelevant simp del: has_type.simps\<close>)
  next
    assume p: "p = ''LEFT''"
    show ?thesis using lr [of True] unfolding p coll_inst_def run_type_def by (simp cong: list.case_cong)
  next
    assume p: "p = ''RIGHT''"
    show ?thesis using lr [of False] unfolding p coll_inst_def run_type_def by (simp cong: list.case_cong)
  }
qed simp

lemma unit_sound: "typed_stack s ts \<Longrightarrow> sound_step (misc_inst proto inst ''UNIT'' as ts) ts (run0 ''UNIT'' s)"
  by (rule sound_stepI) (auto simp: misc_inst_def run0_def bindR_eq_Inr annotation_irrelevant)

lemma cast_sound: "typed_stack s ts \<Longrightarrow> sound_step (stack_inst inst ''CAST'' as ts) ts (run_type ''CAST'' s)"
  by (rule sound_stepI)
    (auto simp: stack_inst_def run_type_def bindR_eq_Inr args1_Inr list_all2_Cons2 ensureTypesEqual_has_type)

section \<open>All of them\<close>

lemma in_list_append: "in_list p (ps @ qs) \<longleftrightarrow> in_list p ps \<or> in_list p qs"
  by (simp add: in_list_def)

lemma plain_sound:
  assumes "in_list p step_instructions" and "typed_stack s ts"
  shows "sound_step (simple_inst ctx inst p None ts) ts (run0 p s)"
proof -
  consider "in_list p [''SWAP'', ''DROP'', ''DUP'', ''RENAME'']" | "in_list p [''PAIR'', ''UNPAIR'', ''CAR'', ''CDR'']"
    | "in_list p [''SOME'', ''CONS'', ''SIZE'']" | "in_list p [''UNIT'']" | "in_list p arith_instructions"
    using assms(1) unfolding step_instructions_def in_list_append by blast
  then show ?thesis
  proof cases
    case 1
    have "simple_inst ctx inst p None ts = stack_inst inst p None ts" using 1 unfolding in_list_Cons simp_thms by (elim disjE; simp add: simple_inst_def)
    then show ?thesis using stack_plain_sound [OF 1 assms(2)] by simp
  next
    case 2
    have "simple_inst ctx inst p None ts = pair_inst inst p None ts" using 2 unfolding in_list_Cons simp_thms by (elim disjE; simp add: simple_inst_def)
    then show ?thesis using pair_plain_sound [OF 2 assms(2)] by simp
  next
    case 3
    have "simple_inst ctx inst p None ts = coll_inst inst p None ts" using 3 unfolding in_list_Cons simp_thms by (elim disjE; simp add: simple_inst_def)
    then show ?thesis using coll_plain_sound [OF 3 assms(2)] by simp
  next
    case 4
    have "simple_inst ctx inst p None ts = misc_inst (ctx_proto ctx) inst p None ts" using 4 by (simp add: simple_inst_def)
    then show ?thesis using unit_sound [OF assms(2)] 4 by simp
  next
    case 5
    then have "simple_inst ctx inst p None ts = arith_inst (ctx_proto ctx) inst p ts"
      unfolding arith_instructions_def relations_def append.simps in_list_Cons simp_thms
      by (elim disjE; simp add: simple_inst_def)
    then show ?thesis using arith_sound [OF 5 assms(2)] by simp
  qed
qed

lemma counted_sound:
  assumes "in_list p counted_instructions" and "typed_stack s ts" and "inst_nat (Some [a]) 0 = Inr n"
  shows "sound_step (simple_inst ctx inst p (Some [a]) ts) ts (run_num p n s)"
proof -
  consider "in_list p [''DUP'', ''DROP'', ''DIG'']" | "in_list p [''PAIR'', ''UNPAIR'', ''GET'', ''UPDATE'']"
    using assms(1) unfolding counted_instructions_def in_list_append by blast
  then show ?thesis
  proof cases
    case 1
    have "simple_inst ctx inst p (Some [a]) ts = stack_inst inst p (Some [a]) ts" using 1 unfolding in_list_Cons simp_thms by (elim disjE; simp add: simple_inst_def)
    then show ?thesis using stack_counted_sound [OF 1 assms(2,3)] by simp
  next
    case 2
    have "simple_inst ctx inst p (Some [a]) ts = pair_inst inst p (Some [a]) ts" using 2 unfolding in_list_Cons simp_thms by (elim disjE; simp add: simple_inst_def)
    then show ?thesis using pair_counted_sound [OF 2 assms(2,3)] by simp
  qed
qed

lemma typed_sound:
  assumes "in_list p typed_instructions" and "typed_stack s ts"
  shows "sound_step (simple_inst ctx inst p as ts) ts (run_type p s)"
proof (cases "p = ''CAST''")
  case True
  then show ?thesis using cast_sound [OF assms(2)] by (simp add: simple_inst_def)
next
  case False
  then have p: "in_list p [''NONE'', ''NIL'', ''LEFT'', ''RIGHT'']" using assms(1) unfolding typed_instructions_def in_list_append by auto
  have "simple_inst ctx inst p as ts = coll_inst inst p as ts" using p unfolding in_list_Cons simp_thms by (elim disjE; simp add: simple_inst_def)
  then show ?thesis using coll_typed_sound [OF p assms(2)] by simp
qed

end
