(* ===== verification/CodeSoundness.thy ===== *)
theory CodeSoundness
  imports InstSoundness
begin

text \<open>
  Soundness of code: constants, branches, loops and sequences.  A run of checked code on values
  of the types it was checked with ends in a stack of the types the checker gives, fails with a
  value, or has not ended; it is never stuck.
\<close>

section \<open>Data denotes a value of its type\<close>

lemma machine_type_comb:
  assumes "machine_type t" and "comb_parts t = Inr (a, b)"
  shows "machine_type a \<and> machine_type b"
proof -
  obtain xs where xs: "typeArgs t = Inr xs" "list_all machine_type xs"
    using assms by (cases t rule: machine_type.cases) (auto simp: comb_parts_def typeArgs_def)
  then show ?thesis using assms(2) by (auto simp: comb_parts_def split: list.splits)
qed

lemma machine_type_targ: "machine_type t \<Longrightarrow> targ t i = Inr u \<Longrightarrow> machine_type u"
  by (cases t rule: machine_type.cases) (auto simp: targ_def nth_arg_def list_all_length split: if_splits)

lemma machine_type_args:
  assumes "machine_type t"
  shows "typeID t = ''option'' \<Longrightarrow> \<exists>u. targ t 0 = Inr u" "typeID t = ''list'' \<Longrightarrow> \<exists>u. targ t 0 = Inr u"
    "typeID t = ''or'' \<Longrightarrow> \<exists>u v. targ t 0 = Inr u \<and> targ t 1 = Inr v"
  using assms by (cases t rule: machine_type.cases; auto simp: nth_arg_def)+

lemma natural_value: "li_of_string i = Inr l \<Longrightarrow> isNatural i \<Longrightarrow> 0 \<le> li_int l"
  by (auto simp: isNatural_def li_sign_def li_int_def split: if_splits)

lemma all_some_map: "(\<And>x. x \<in> set xs \<Longrightarrow> \<exists>v. f x = Some v \<and> P v) \<Longrightarrow>
    \<exists>vs. all_some (map f xs) = Some vs \<and> list_all P vs"
  by (induction xs) fastforce+

lemma machine_types: "machine_type t \<Longrightarrow> \<not> is_pair_type t \<Longrightarrow>
    typeID t = ''int'' \<or> typeID t = ''nat'' \<or> typeID t = ''bool'' \<or> typeID t = ''unit'' \<or> typeID t = ''option'' \<or>
    typeID t = ''list'' \<or> typeID t = ''or''"
  by (cases t rule: machine_type.cases) (auto simp: is_pair_typeID)

lemma atomic_structured [simp]:
  "atomic_valid L ''option'' d = None" "atomic_valid L ''list'' d = None" "atomic_valid L ''or'' d = None"
  "atomic_valid L ''int'' d = Some (Inr (case d of IntLit i \<Rightarrow> isDecimal i | _ \<Rightarrow> False))"
  "atomic_valid L ''nat'' d = Some (Inr (case d of IntLit i \<Rightarrow> isNatural i | _ \<Rightarrow> False))"
  "atomic_valid L ''bool'' d = Some (Inr (is_prim_in d [''True'', ''False'']))"
  "atomic_valid L ''unit'' d = Some (Inr (is_prim_in d [''Unit'']))"
  by (simp_all add: atomic_valid_def)

lemma valid_value: "dataValid L ctx d t = Inr () \<Longrightarrow> machine_type t \<Longrightarrow> \<exists>v. value_of d t = Some v \<and> has_type v t"
proof (induction d t rule: value_of.induct)
  case (1 d t)
  show ?case
  proof (cases "is_pair_type t")
    case True
    then obtain a b ta tb where *: "pair_data d = Inr (a, b)" "comb_parts t = Inr (ta, tb)"
      "dataValid L ctx a ta = Inr ()" "dataValid L ctx b tb = Inr ()"
      using "1.prems"(1) by (subst (asm) dataValid.simps) (auto simp: bindR_eq_Inr split: sum.splits if_splits)
    then obtain v w where "value_of a ta = Some v" "has_type v ta" "value_of b tb = Some w" "has_type w tb"
      using "1.IH"(1,2) [OF True *(1) refl *(2) refl] machine_type_comb [OF "1.prems"(2) *(2)] by auto
    then show ?thesis using True * by (subst value_of.simps) auto
  next
    case False
    from machine_types [OF "1.prems"(2) False] consider
      (int) "typeID t = ''int''" | (nat) "typeID t = ''nat''" | (bool) "typeID t = ''bool''" | (unit) "typeID t = ''unit''"
      | (option) "typeID t = ''option''" | (list) "typeID t = ''list''" | (union) "typeID t = ''or''"
      by blast
    then show ?thesis
    proof cases
      case int
      then obtain i l where "d = IntLit i" "li_of_string i = Inr l"
        using "1.prems"(1) False by (subst (asm) dataValid.simps) (auto simp: isDecimal_def split: expr.splits if_splits sum.splits)
      then show ?thesis using int False by (subst value_of.simps) auto
    next
      case nat
      then obtain i l where "d = IntLit i" "li_of_string i = Inr l" "isNatural i"
        using "1.prems"(1) False
        by (subst (asm) dataValid.simps) (auto simp: isNatural_def split: expr.splits if_splits sum.splits)
      then show ?thesis using nat False natural_value by (subst value_of.simps) auto
    next
      case bool
      then show ?thesis using False by (subst value_of.simps) auto
    next
      case unit
      then show ?thesis using False by (subst value_of.simps) auto
    next
      case option
      then obtain u where u: "targ t 0 = Inr u" using machine_type_args(1) [OF "1.prems"(2)] by blast
      show ?thesis
      proof (cases "is_prim_in d [''None'']")
        case True
        then show ?thesis using option False by (subst value_of.simps) auto
      next
        case no: False
        then obtain a where a: "inst_arg d 0 = Inr a" "dataValid L ctx a u = Inr ()"
          using "1.prems"(1) False option u
          by (subst (asm) dataValid.simps) (auto simp: bindR_eq_Inr split: sum.splits if_splits)
        then obtain v where "value_of a u = Some v" "has_type v u"
          using "1.IH"(3) [OF False _ _ _ option no refl a(1) u] option machine_type_targ [OF "1.prems"(2) u] by auto
        then show ?thesis using option False no a u by (subst value_of.simps) auto
      qed
    next
      case union
      let ?i = "if is_prim_in d [''Left''] then 0 else 1 :: nat"
      obtain u where u: "targ t ?i = Inr u"
        using machine_type_args(3) [OF "1.prems"(2) union] by (cases "is_prim_in d [''Left'']") auto
      obtain a where a: "inst_arg d 0 = Inr a" "dataValid L ctx a u = Inr ()"
        using "1.prems"(1) False union u
        by (subst (asm) dataValid.simps) (auto simp: bindR_eq_Inr split: sum.splits if_splits)
      then obtain v where "value_of a u = Some v" "has_type v u"
        using "1.IH"(4) [OF False _ _ _ _ union refl a(1) u] union machine_type_targ [OF "1.prems"(2) u] by auto
      then show ?thesis using union False a u by (subst value_of.simps) (auto split: if_splits)
    next
      case list
      then obtain u where u: "targ t 0 = Inr u" using machine_type_args(2) [OF "1.prems"(2)] by blast
      obtain xs where xs: "list_items d = Inr (Some xs)" "\<forall>x \<in> set xs. dataValid L ctx x u = Inr ()"
        using "1.prems"(1) False list u
        by (subst (asm) dataValid.simps) (auto simp: bindR_eq_Inr eachR_mem split: sum.splits option.splits)
      have "\<exists>v. value_of x u = Some v \<and> has_type v u" if "x \<in> set xs" for x
        using "1.IH"(5) [OF False _ _ _ _ _ list refl xs(1) refl u that] xs(2) that list machine_type_targ [OF "1.prems"(2) u] by auto
      from all_some_map [of xs "\<lambda>x. value_of x u" "\<lambda>v. has_type v u", OF this] obtain vs where
        "all_some (map (\<lambda>x. value_of x u) xs) = Some vs" "list_all (\<lambda>v. has_type v u) vs" by blast
      then show ?thesis using list False xs u by (subst value_of.simps) auto
    qed
  qed
qed

section \<open>What a checked instruction consists of\<close>

lemma inst_arg_simps [simp]:
  "inst_arg (Prim p (Some (a # as)) an) 0 = Inr a" "inst_arg (Prim p (Some (a # b # as)) an) 1 = Inr b"
  "inst_arg (Prim p (Some (a # b # as)) an) (Suc 0) = Inr b"
  by (simp_all add: inst_arg_def arg_at_def type_args_def)

abbreviation branches :: "string list" where
  "branches \<equiv> [''IF_NONE'', ''IF_LEFT'', ''IF_CONS'', ''IF'']"

abbreviation loops :: "string list" where
  "loops \<equiv> [''MAP'', ''ITER'', ''LOOP'', ''LOOP_LEFT'']"

lemma not_branch [simp]:
  "in_list p loops \<Longrightarrow> \<not> in_list p branches" "p = ''DIP'' \<Longrightarrow> \<not> in_list p branches" "p = ''PUSH'' \<Longrightarrow> \<not> in_list p branches"
  "p = ''FAILWITH'' \<Longrightarrow> \<not> in_list p branches"
  unfolding in_list_Cons by auto

lemma checked_seq: "functionTypeInternal L ctx (Seq xs) ts = Inr ret \<longleftrightarrow>
    (\<exists>r. instructionListType L ctx xs ts = Inr r \<and> ret = (case r of Failed t n \<Rightarrow> Failed t (n + 1) | Stack s \<Rightarrow> Stack s))"
  by (subst functionTypeInternal.simps) (auto simp: bindR_eq_Inr)

lemma checked_branch: "in_list p branches \<Longrightarrow> functionTypeInternal L ctx (Prim p (Some [a, b]) an) ts = Inr ret \<longleftrightarrow>
    (\<exists>s0 s1 r0 r1. branch_stacks (Prim p (Some [a, b]) an) p ts = Inr (s0, s1) \<and>
      functionTypeInternal L ctx a s0 = Inr r0 \<and> functionTypeInternal L ctx b s1 = Inr r1 \<and>
      branchType (Prim p (Some [a, b]) an) r0 r1 = Inr ret)"
  by (subst functionTypeInternal.simps) (auto simp: bindR_eq_Inr)

lemma checked_loop: "in_list p loops \<Longrightarrow> functionTypeInternal L ctx (Prim p (Some [c]) an) ts = Inr ret \<longleftrightarrow>
    (\<exists>s st body. loop_start (Prim p (Some [c]) an) p ts = Inr (s, st) \<and> functionTypeInternal L ctx c st = Inr body \<and>
      loop_end (Prim p (Some [c]) an) p s (drop 1 ts) body = Inr ret)"
  by (subst functionTypeInternal.simps, frule not_branch(1), simp only: expr.case if_False if_True simp_thms sum.case inst_arg_simps)
    (auto simp: bindR_eq_Inr)

lemma checked_dip: "functionTypeInternal L ctx (Prim ''DIP'' as an) ts = Inr ret \<longleftrightarrow>
    (\<exists>n c body. dip_args as = Inr (n, c) \<and> dip_start (Prim ''DIP'' as an) n ts = Inr () \<and>
      functionTypeInternal L ctx c (drop n ts) = Inr body \<and>
      on_stack body (\<lambda>s. Inr (Stack (take n ts @ s))) = Inr ret)"
  by (subst functionTypeInternal.simps) (auto simp: bindR_eq_Inr split: sum.splits)

lemma checked_push: "functionTypeInternal L ctx (Prim ''PUSH'' (Some [a, b]) an) ts = Inr ret \<longleftrightarrow>
    (\<exists>u. assertTypeAnnotationsValid (embed a) False = Inr () \<and> dataValid L (ctx\<lparr>ctx_contract := None\<rparr>) b (embed a) = Inr () \<and>
      annotateVar (Prim ''PUSH'' (Some [a, b]) an) (embed a) None = Inr u \<and> ret = Stack (u # ts))"
  by (subst functionTypeInternal.simps) (auto simp: bindR_eq_Inr inst_type_def arg_at_def)

lemma checked_fail: "functionTypeInternal L ctx (Prim ''FAILWITH'' as an) ts = fail_inst ctx (Prim ''FAILWITH'' as an) ''FAILWITH'' ts"
  by (subst functionTypeInternal.simps) simp

definition code_instructions :: "string list" where
  "code_instructions = branches @ loops @ [''DIP'', ''CREATE_CONTRACT'', ''PUSH'', ''LAMBDA'', ''LAMBDA_REC'', ''FAILWITH'', ''NEVER'']"

lemma checked_simple: "\<not> in_list p code_instructions \<Longrightarrow>
    functionTypeInternal L ctx (Prim p as an) ts = apply_effect ts (simple_inst ctx (Prim p as an) p as ts)"
  unfolding code_instructions_def in_list_append by (subst functionTypeInternal.simps) auto

lemma simple_names:
  "in_list p step_instructions \<Longrightarrow> \<not> in_list p code_instructions" "in_list p counted_instructions \<Longrightarrow> \<not> in_list p code_instructions"
  "in_list p typed_instructions \<Longrightarrow> \<not> in_list p code_instructions"
  unfolding step_instructions_def counted_instructions_def typed_instructions_def arith_instructions_def relations_def
    code_instructions_def append.simps in_list_Cons simp_thms
  by (elim disjE; simp)+

section \<open>Runs\<close>

definition safe :: "MichelsonReturnType \<Rightarrow> result \<Rightarrow> bool" where
  "safe ret out \<longleftrightarrow>
     (case out of
        None \<Rightarrow> True
      | Some (Inl (FailedWith v)) \<Rightarrow> True
      | Some (Inl IllTyped) \<Rightarrow> False
      | Some (Inr s) \<Rightarrow> (case ret of Stack ts \<Rightarrow> typed_stack s ts | Failed t n \<Rightarrow> False))"

lemma safe_simps [simp]:
  "safe ret None" "safe ret (Some (Inl (FailedWith v)))" "\<not> safe ret (Some (Inl IllTyped))"
  "safe (Stack ts) (Some (Inr s)) \<longleftrightarrow> typed_stack s ts" "\<not> safe (Failed t n) (Some (Inr s))"
  by (simp_all add: safe_def)

lemma safe_fault: "safe ret (Some (Inl f)) \<Longrightarrow> safe ret' (Some (Inl f))"
  by (cases f) simp_all

lemma safe_failed: "safe (Failed t n) out \<Longrightarrow> safe ret out"
  by (auto simp: safe_def split: option.splits sum.splits fault.splits)

lemma and_then_safe:
  assumes "safe (Stack ts) r" and "\<And>s. typed_stack s ts \<Longrightarrow> safe ret (g s)"
  shows "safe ret (and_then r g)"
  using assms by (auto simp: and_then_def intro: safe_fault split: option.splits sum.splits)

lemma and_then_failed: "safe (Failed t n) r \<Longrightarrow> safe ret (and_then r g)"
  by (auto simp: and_then_def intro: safe_fault split: option.splits sum.splits)

lemma stacks_equal_typed: "ensureStacksEqual inst a b = Inr () \<Longrightarrow> typed_stack s a \<longleftrightarrow> typed_stack s b"
proof -
  assume "ensureStacksEqual inst a b = Inr ()"
  then have "length a = length b" "stacksEqual a b = Inr ()"
    by (auto simp: ensureStacksEqual_def rethrow_def assertStacksEqual_def split: sum.splits if_splits)
  then show ?thesis
    by (induction a b arbitrary: s rule: list_induct2) (auto simp: bindR_eq_Inr list_all2_Cons2 equal_types_values)
qed

lemma branch_safe:
  assumes "branchType inst r0 r1 = Inr ret"
  shows "safe r0 out \<Longrightarrow> safe ret out" and "safe r1 out \<Longrightarrow> safe ret out"
proof -
  have eq: "safe (Stack a) out \<longleftrightarrow> safe (Stack b) out" if "ensureStacksEqual inst a b = Inr ()" for a b
    using stacks_equal_typed [OF that] by (auto simp: safe_def split: option.splits sum.splits fault.splits)
  show "safe r0 out \<Longrightarrow> safe ret out" "safe r1 out \<Longrightarrow> safe ret out"
    using assms by (cases "(inst, r0, r1)" rule: branchType.cases; auto simp: bindR_eq_Inr eq intro: safe_failed)+
qed

lemma branch_start_typed:
  assumes "in_list p branches" and "branch_stacks inst p ts = Inr (s0, s1)" and "typed_stack s ts"
  shows "\<exists>b r. branch_start p s = Some (b, r) \<and> typed_stack r (if b then s0 else s1)"
  using assms(1) unfolding in_list_Cons simp_thms
proof (elim disjE)
  assume p: "p = ''IF_NONE''"
  then obtain t u x r where *: "ts = t # r" "typeID t = ''option''" "targ t 0 = Inr u" "put_var inst t u ''some'' = Inr x" "s0 = r" "s1 = x # r"
    using assms(2) by (auto simp: branch_stacks_def bindR_eq_Inr args1_Inr Let_def)
  then obtain v q where "s = v # q" "has_type v t" "typed_stack q r" using assms(3) by (auto simp: list_all2_Cons2)
  then show ?thesis using * p by (auto simp: has_type_option branch_start_def annotation_irrelevant)
next
  assume p: "p = ''IF_LEFT''"
  then obtain t l m x y r where *: "ts = t # r" "typeID t = ''or''" "targ t 0 = Inr l" "targ t 1 = Inr m" "s0 = x # r" "s1 = y # r"
      "\<And>v. has_type v x \<longleftrightarrow> has_type v l" "\<And>v. has_type v y \<longleftrightarrow> has_type v m"
    using assms(2) by (auto simp: branch_stacks_def bindR_eq_Inr args1_Inr Let_def annotation_irrelevant)
  then obtain v q where "s = v # q" "has_type v t" "typed_stack q r" using assms(3) by (auto simp: list_all2_Cons2)
  then show ?thesis using * p by (auto simp: has_type_or branch_start_def)
next
  assume p: "p = ''IF_CONS''"
  then obtain t u x y r where *: "ts = t # r" "typeID t = ''list''" "targ t 0 = Inr u" "s0 = x # y # r" "s1 = r"
      "put_var inst t u ''hd'' = Inr x" "put_var inst t t ''tl'' = Inr y"
    using assms(2) by (auto simp: branch_stacks_def bindR_eq_Inr args1_Inr Let_def)
  then obtain v q where s: "s = v # q" "has_type v t" "typed_stack q r" using assms(3) by (auto simp: list_all2_Cons2)
  then obtain xs where "v = ListV xs" "list_all (\<lambda>x. has_type x u) xs" using * by (auto simp: has_type_list)
  moreover note put_var_has_type [OF *(6)] put_var_has_type [OF *(7)]
  ultimately show ?thesis using * p s by (cases xs) (auto simp: branch_start_def)
next
  assume p: "p = ''IF''"
  then obtain t r where *: "ts = t # r" "typeID t = ''bool''" "s0 = r" "s1 = r"
    using assms(2) by (auto simp: branch_stacks_def bindR_eq_Inr args1_Inr Let_def)
  then obtain v q where "s = v # q" "has_type v t" "typed_stack q r" using assms(3) by (auto simp: list_all2_Cons2)
  then show ?thesis using * p by (auto simp: has_type_atomic branch_start_def)
qed simp

lemma iter_items_safe:
  assumes "\<And>x r. has_type x t \<Longrightarrow> typed_stack r ts \<Longrightarrow> safe (Stack ts) (f (x # r))"
  shows "list_all (\<lambda>x. has_type x t) xs \<Longrightarrow> typed_stack r ts \<Longrightarrow> safe (Stack ts) (iter_items f xs r)"
  by (induction xs arbitrary: r) (auto intro: and_then_safe assms)

lemma map_items_safe:
  assumes "\<And>x r. has_type x t \<Longrightarrow> typed_stack r ts \<Longrightarrow> safe (Stack (u # ts)) (f (x # r))"
    and "typeID l = ''list''" and "targ l 0 = Inr u"
  shows "list_all (\<lambda>x. has_type x t) xs \<Longrightarrow> list_all (\<lambda>x. has_type x u) ys \<Longrightarrow> typed_stack r ts \<Longrightarrow>
    safe (Stack (l # ts)) (map_items f xs ys r)"
proof (induction xs arbitrary: r ys)
  case (Cons x xs)
  then have "safe (Stack (u # ts)) (f (x # r))" using assms(1) by simp
  then show ?case unfolding map_items.simps
    by (rule and_then_safe) (use Cons in \<open>auto simp: list_all2_Cons2\<close>)
qed (simp add: assms list_all_iff)

text \<open>Code that may return is not taken for failing.\<close>

lemma may_return_stack:
  "functionTypeInternal L ctx e ts = Inr ret \<Longrightarrow> machine_code e \<Longrightarrow> may_return e \<Longrightarrow> \<exists>ts'. ret = Stack ts'"
proof (induction e arbitrary: ts ret rule: machine_code.induct)
  case (1 xs)
  have "\<exists>ts'. r = Stack ts'" if "instructionListType L ctx ys us = Inr r" "set ys \<subseteq> set xs" for ys us r
    using that
  proof (induction ys arbitrary: us)
    case (Cons y ys)
    then obtain us' where "functionTypeInternal L ctx y us = Inr (Stack us')" "instructionListType L ctx ys us' = Inr r"
      using "1.IH" "1.prems"(2,3) by (fastforce simp: instructionListType.simps bindR_eq_Inr list_all_iff)
    then show ?case using Cons by auto
  qed (auto simp: instructionListType.simps)
  then show ?case using "1.prems"(1) by (fastforce simp: checked_seq)
next
  case (2 p an)
  then show ?case using checked_simple [OF simple_names(1)] by (auto simp: apply_effect_def bindR_eq_Inr)
next
  case (3 p a an)
  then consider "in_list p counted_instructions \<or> in_list p typed_instructions" | "p = ''DIP''" "machine_code a" "may_return a" "\<not> is_intlit a"
    | "in_list p loops" "machine_code a" "may_return a" "\<not> is_intlit a"
    by (auto simp only: machine_code.simps may_return.simps split: if_splits)
  then show ?case
  proof cases
    case 1
    then have "\<not> in_list p code_instructions" using simple_names by blast
    then show ?thesis using "3.prems"(1) checked_simple by (auto simp: apply_effect_def bindR_eq_Inr)
  next
    case 2
    then show ?thesis using 3 by (fastforce simp: checked_dip dip_args_def on_stack_def)
  next
    case l: 3
    obtain s st body where b: "functionTypeInternal L ctx a st = Inr body" "loop_end (Prim p (Some [a]) an) p s (drop 1 ts) body = Inr ret"
      using "3.prems"(1) unfolding checked_loop [OF l(1)] by blast
    then obtain st' where "body = Stack st'" using "3.IH" l by auto
    then show ?thesis using b(2)
      by (auto simp: loop_end_def map_end_def on_stack_def bindR_eq_Inr split: if_splits list.splits)
  qed
next
  case (4 p a b an)
  then consider "p = ''PUSH''" | "p = ''DIP''" "machine_code b" "may_return b" | "in_list p branches" "machine_code a" "machine_code b"
    "may_return a \<or> may_return b"
    by (auto simp only: machine_code.simps may_return.simps split: if_splits)
  then show ?case
  proof cases
    case 1
    then show ?thesis using "4.prems"(1) by (auto simp: checked_push)
  next
    case 2
    then show ?thesis using 4 by (fastforce simp: checked_dip dip_args_def on_stack_def bindR_eq_Inr)
  next
    case br: 3
    then obtain s0 s1 r0 r1 where *: "functionTypeInternal L ctx a s0 = Inr r0" "functionTypeInternal L ctx b s1 = Inr r1"
        "branchType (Prim p (Some [a, b]) an) r0 r1 = Inr ret"
      using "4.prems"(1) unfolding checked_branch [OF br(1)] by blast
    have "(\<exists>st. r0 = Stack st) \<or> (\<exists>st. r1 = Stack st)" using "4.IH" br * by auto
    then show ?thesis using *(3) by (cases r0; cases r1) (auto simp: bindR_eq_Inr)
  qed
qed auto

section \<open>Soundness\<close>

definition sound_run :: "libs \<Rightarrow> Context \<Rightarrow> nat \<Rightarrow> bool" where
  "sound_run L ctx n \<longleftrightarrow> (\<forall>e ts s ret. machine_code e \<longrightarrow> functionTypeInternal L ctx e ts = Inr ret \<longrightarrow>
     typed_stack s ts \<longrightarrow> safe ret (run n e s))"

definition sound_runs :: "libs \<Rightarrow> Context \<Rightarrow> nat \<Rightarrow> bool" where
  "sound_runs L ctx n \<longleftrightarrow> (\<forall>es ts s ret. list_all machine_code es \<longrightarrow> instructionListType L ctx es ts = Inr ret \<longrightarrow>
     typed_stack s ts \<longrightarrow> safe ret (runs n es s))"

lemma sound_runD: "sound_run L ctx n \<Longrightarrow> machine_code e \<Longrightarrow> functionTypeInternal L ctx e ts = Inr ret \<Longrightarrow>
    typed_stack s ts \<Longrightarrow> safe ret (run n e s)"
  by (simp add: sound_run_def)

lemma run_code_names:
  "\<not> in_list p code_instructions \<Longrightarrow> run (Suc n) (Prim p as an) s = Some (run_simple p as s)"
  "in_list p [''PUSH'', ''FAILWITH''] \<Longrightarrow> run (Suc n) (Prim p as an) s = Some (run_simple p as s)"
  unfolding code_instructions_def in_list_append by auto

lemma effect_safe: "sound_step eff ts out \<Longrightarrow> apply_effect ts eff = Inr ret \<Longrightarrow> safe ret (Some out)"
  by (auto simp: sound_step_def apply_effect_def bindR_eq_Inr)

lemma intlit_cases: "is_intlit a \<longleftrightarrow> (\<exists>i. a = IntLit i)"
  by (cases a) (auto simp: is_intlit_def)

lemma simple_safe:
  assumes "typed_stack s ts" and "functionTypeInternal L ctx (Prim p as an) ts = Inr ret"
    and "as = None \<and> in_list p step_instructions \<or> (\<exists>a. as = Some [a] \<and> is_intlit a \<and> in_list p counted_instructions) \<or>
      (\<exists>a. as = Some [a] \<and> \<not> is_intlit a \<and> in_list p typed_instructions)"
  shows "safe ret (run (Suc n) (Prim p as an) s)"
proof -
  have names: "\<not> in_list p code_instructions" using assms(3) simple_names by blast
  have eff: "apply_effect ts (simple_inst ctx (Prim p as an) p as ts) = Inr ret"
    using assms(2) by (simp add: checked_simple [OF names])
  from assms(3) consider (plain) "as = None" "in_list p step_instructions"
    | (counted) i where "as = Some [IntLit i]" "in_list p counted_instructions"
    | (typed) a where "as = Some [a]" "\<not> is_intlit a" "in_list p typed_instructions"
    using intlit_cases by blast
  then have "safe ret (Some (run_simple p as s))"
  proof cases
    case plain
    then show ?thesis using effect_safe [OF plain_sound [OF plain(2) assms(1)]] eff by (simp add: run_simple_def)
  next
    case counted
    show ?thesis
    proof (cases "inst_nat as 0")
      case (Inr k)
      then show ?thesis using effect_safe [OF counted_sound [OF counted(2) assms(1)]] eff counted by (simp add: run_simple_def)
    next
      case (Inl e)
      have "count_arg as m = Inl e" for m using counted Inl by (simp add: count_arg_def)
      then have "simple_inst ctx (Prim p as an) p as ts \<noteq> Inr x" for x
        using counted Inl unfolding counted_instructions_def append.simps in_list_Cons simp_thms
        by (elim disjE; simp add: simple_inst_def stack_inst_def pair_inst_def bindR_eq_Inr)
      then show ?thesis using eff by (auto simp: apply_effect_def bindR_eq_Inr)
    qed
  next
    case typed
    have "inst_nat as 0 = Inl (JsFault ''numeral'')"
      using typed by (auto simp: inst_nat_def arg_at_def is_intlit_def split: expr.splits)
    then show ?thesis using effect_safe [OF typed_sound [OF typed(3) assms(1)]] eff typed(1) by (simp add: run_simple_def)
  qed
  then show ?thesis using run_code_names(1) [OF names] by simp
qed

lemma push_safe:
  assumes "typed_stack s ts" and "functionTypeInternal L ctx (Prim ''PUSH'' (Some [a, b]) an) ts = Inr ret" and "machine_type (embed a)"
  shows "safe ret (run (Suc n) (Prim ''PUSH'' (Some [a, b]) an) s)"
proof -
  obtain u where *: "dataValid L (ctx\<lparr>ctx_contract := None\<rparr>) b (embed a) = Inr ()"
      "annotateVar (Prim ''PUSH'' (Some [a, b]) an) (embed a) None = Inr u" "ret = Stack (u # ts)"
    using assms(2) unfolding checked_push by blast
  then obtain v where "value_of b (embed a) = Some v" "has_type v (embed a)" using valid_value assms(3) by blast
  then show ?thesis using * assms(1) annotateVar_has_type [OF *(2)]
    by (subst run_code_names(2)) (auto simp: run_simple_def run_push_def)
qed

lemma fail_safe:
  assumes "typed_stack s ts" and "functionTypeInternal L ctx (Prim ''FAILWITH'' None an) ts = Inr ret"
  shows "safe ret (run (Suc n) (Prim ''FAILWITH'' None an) s)"
proof -
  obtain t r where "ts = t # r" using assms(2) by (auto simp: checked_fail fail_inst_def bindR_eq_Inr args1_Inr)
  then obtain v q where "s = v # q" using assms(1) by (auto simp: list_all2_Cons2)
  then show ?thesis by (subst run_code_names(2)) (auto simp: run_simple_def run0_def)
qed

lemma dip_safe:
  assumes "typed_stack s ts" and "functionTypeInternal L ctx (Prim ''DIP'' as an) ts = Inr ret" and "sound_run L ctx n"
    and "\<And>k c. dip_args as = Inr (k, c) \<Longrightarrow> machine_code c"
  shows "safe ret (run (Suc n) (Prim ''DIP'' as an) s)"
proof -
  obtain k c body where *: "dip_args as = Inr (k, c)" "dip_start (Prim ''DIP'' as an) k ts = Inr ()"
      "functionTypeInternal L ctx c (drop k ts) = Inr body" "on_stack body (\<lambda>s. Inr (Stack (take k ts @ s))) = Inr ret"
    using assms(2) unfolding checked_dip by blast
  have len: "k \<le> length s" using *(2) list_all2_lengthD [OF assms(1)]
    by (auto simp: dip_start_def drop_type_def bindR_eq_Inr args_at_Inr split: if_splits)
  have tail: "typed_stack (drop k s) (drop k ts)" "typed_stack (take k s) (take k ts)" using dip_take_drop [OF assms(1)] by auto
  from sound_runD [OF assms(3) assms(4) [OF *(1)] *(3) tail(1)] have body: "safe body (run n c (drop k s))" .
  have "safe ret (and_then (run n c (drop k s)) (\<lambda>r. Some (Inr (take k s @ r))))"
  proof (cases body)
    case (Stack st)
    then show ?thesis using body *(4) tail(2) by (auto simp: on_stack_def intro!: and_then_safe list_all2_appendI)
  next
    case (Failed t m)
    then show ?thesis using body and_then_failed by blast
  qed
  then show ?thesis using *(1) len by simp
qed

lemma elt_type_list: "typeID t = ''list'' \<or> typeID t = ''option'' \<Longrightarrow> elt_type t = targ t 0"
  by (cases t) (auto simp: elt_type_def)

lemma loop_value: "has_type v t \<Longrightarrow> in_list (typeID t) [''set'', ''list'', ''map''] \<Longrightarrow> typeID t = ''list''"
  "has_type v t \<Longrightarrow> in_list (typeID t) [''list'', ''map'', ''option''] \<Longrightarrow> typeID t = ''list'' \<or> typeID t = ''option''"
  using has_type_inhabited [of v t] by auto

lemma iter_safe:
  assumes "loop_start inst ''ITER'' ts = Inr (t, st)" and "loop_end inst ''ITER'' t (drop 1 ts) (Stack bs) = Inr ret"
    and "typed_stack s ts" and f: "\<And>r. typed_stack r st \<Longrightarrow> safe (Stack bs) (f r)"
  shows "\<exists>xs q. s = ListV xs # q \<and> safe ret (iter_items f xs q)"
proof -
  obtain r e x where ts: "ts = t # r" "in_list (typeID t) [''set'', ''list'', ''map'']" "elt_type t = Inr e"
      "put_var inst t e ''elt'' = Inr x" "st = x # r"
    using assms(1) by (auto simp: loop_start_def bindR_eq_Inr args1_Inr)
  then obtain v q where s: "s = v # q" "has_type v t" "typed_stack q r" using assms(3) by (auto simp: list_all2_Cons2)
  then have t: "typeID t = ''list''" "targ t 0 = Inr e" using ts(2,3) loop_value(1) elt_type_list [of t] by auto
  then obtain xs where xs: "v = ListV xs" "list_all (\<lambda>x. has_type x e) xs" using s(2) by (auto simp: has_type_list)
  have eq: "ensureStacksEqual inst bs r = Inr ()" "ret = Stack r"
    using assms(2) ts(1) by (auto simp: loop_end_def on_stack_def bindR_eq_Inr)
  have "safe (Stack r) (f (y # q'))" if "has_type y e" "typed_stack q' r" for y q'
    using f [of "y # q'"] that ts(5) put_var_has_type [OF ts(4)] stacks_equal_typed [OF eq(1)]
    by (auto simp: safe_def split: option.splits sum.splits fault.splits)
  then show ?thesis using iter_items_safe [of e r f xs q] xs s eq by auto
qed

lemma map_safe:
  assumes "loop_start inst ''MAP'' ts = Inr (t, st)" and "loop_end inst ''MAP'' t (drop 1 ts) (Stack bs) = Inr ret"
    and "typed_stack s ts" and f: "\<And>r. typed_stack r st \<Longrightarrow> safe (Stack bs) (f r)"
  shows "\<exists>v q. s = v # q \<and>
    ((\<exists>xs. v = ListV xs \<and> safe ret (map_items f xs [] q)) \<or> (v = NoneV \<and> safe ret (Some (Inr (NoneV # q)))) \<or>
     (\<exists>x. v = SomeV x \<and> safe ret (and_then (f (x # q))
       (\<lambda>z. case z of [] \<Rightarrow> Some (Inl IllTyped) | y # r' \<Rightarrow> Some (Inr (SomeV y # r'))))))"
proof -
  obtain r e x where ts: "ts = t # r" "in_list (typeID t) [''list'', ''map'', ''option'']" "elt_type t = Inr e"
      "put_var inst t e ''elt'' = Inr x" "st = x # r"
    using assms(1) by (auto simp: loop_start_def bindR_eq_Inr args1_Inr)
  then obtain v q where s: "s = v # q" "has_type v t" "typed_stack q r" using assms(3) by (auto simp: list_all2_Cons2)
  then have t: "typeID t = ''list'' \<or> typeID t = ''option''" "targ t 0 = Inr e" using ts(2,3) loop_value(2) elt_type_list [of t] by auto
  obtain y bs' where bs: "bs = y # bs'" "ensureStacksEqual inst bs' r = Inr ()"
    using assms(2) ts(1) by (auto simp: loop_end_def map_end_def bindR_eq_Inr split: list.splits)
  obtain u where u: "annotateVar inst (ty_of (typeID t) [y]) None = Inr u" "ret = Stack (u # r)"
    using assms(2) ts(1) bs t(1) by (auto simp: loop_end_def map_end_def bindR_eq_Inr)
  note uv = annotateVar_has_type [OF u(1)]
  have body: "safe (Stack (y # r)) (f (z # q'))" if "has_type z e" "typed_stack q' r" for z q'
    using f [of "z # q'"] that ts(5) put_var_has_type [OF ts(4)] stacks_equal_typed [OF bs(2)] bs(1)
    by (auto simp: safe_def list_all2_Cons2 split: option.splits sum.splits fault.splits)
  show ?thesis
  proof (cases "typeID t = ''list''")
    case True
    then obtain xs where xs: "v = ListV xs" "list_all (\<lambda>x. has_type x e) xs" using s(2) t(2) by (auto simp: has_type_list)
    have "safe (Stack (ty_of ''list'' [y] # r)) (map_items f xs [] q)"
      using map_items_safe [of e r y f "ty_of ''list'' [y]" xs "[]" q] body xs s by auto
    then have "safe ret (map_items f xs [] q)" using uv u(2) True
      by (auto simp: safe_def list_all2_Cons2 split: option.splits sum.splits fault.splits)
    then show ?thesis using xs s by auto
  next
    case False
    then have o: "typeID t = ''option''" using t(1) by simp
    have none: "has_type NoneV u" using uv o by simp
    have some: "has_type (SomeV w) u" if "has_type w y" for w using uv o that by simp
    consider "v = NoneV" | z where "v = SomeV z" "has_type z e" using s(2) has_type_option [OF o t(2)] by blast
    then show ?thesis
    proof cases
      case 1
      then show ?thesis using none s u by simp
    next
      case 2
      have "safe ret (and_then (f (z # q)) (\<lambda>z. case z of [] \<Rightarrow> Some (Inl IllTyped) | y # r' \<Rightarrow> Some (Inr (SomeV y # r'))))"
        by (rule and_then_safe [OF body]) (use 2 s some u in \<open>auto simp: list_all2_Cons2 simp del: has_type.simps\<close>)
      then show ?thesis using 2 s by simp
    qed
  qed
qed

lemma loop_safe:
  assumes "loop_start inst ''LOOP'' ts = Inr (t, st)" and "loop_end inst ''LOOP'' t (drop 1 ts) (Stack bs) = Inr ret"
    and "typed_stack s ts" and f: "\<And>r. typed_stack r st \<Longrightarrow> safe (Stack bs) (f r)"
    and again: "\<And>r. typed_stack r ts \<Longrightarrow> safe ret (g r)"
  shows "\<exists>b q. s = BoolV b # q \<and> safe ret (if b then and_then (f q) g else Some (Inr q))"
proof -
  obtain r where ts: "ts = t # r" "typeID t = ''bool''" "st = r"
    using assms(1) by (auto simp: loop_start_def bindR_eq_Inr args1_Inr)
  then obtain b q where s: "s = BoolV b # q" "typed_stack q r" using assms(3) by (auto simp: list_all2_Cons2 has_type_atomic)
  have eq: "ensureStacksEqual inst bs (ty ''bool'' # r) = Inr ()" "ret = Stack r"
    using assms(2) ts(1) by (auto simp: loop_end_def on_stack_def bindR_eq_Inr)
  have "typed_stack z bs \<longleftrightarrow> typed_stack z ts" for z
    using stacks_equal_typed [OF eq(1), of z] ts by (auto simp: list_all2_Cons2 has_type_atomic)
  then have "safe ret (and_then (f q) g)" using f [of q] s(2) ts(3) again by (auto intro: and_then_safe)
  then show ?thesis using s eq by auto
qed

lemma loop_left_safe:
  assumes "loop_start inst ''LOOP_LEFT'' ts = Inr (t, st)" and "loop_end inst ''LOOP_LEFT'' t (drop 1 ts) (Stack bs) = Inr ret"
    and "typed_stack s ts" and f: "\<And>r. typed_stack r st \<Longrightarrow> safe (Stack bs) (f r)"
    and again: "\<And>r. typed_stack r ts \<Longrightarrow> safe ret (g r)"
  shows "\<exists>v q. s = LeftV v # q \<and> safe ret (and_then (f (v # q)) g) \<or> s = RightV v # q \<and> safe ret (Some (Inr (v # q)))"
proof -
  obtain r e x where ts: "ts = t # r" "typeID t = ''or''" "targ t 0 = Inr e" "put_var inst t e ''left'' = Inr x" "st = x # r"
    using assms(1) by (auto simp: loop_start_def bindR_eq_Inr args1_Inr)
  obtain e' u and ia :: UnpackedAnnotations where eq: "ensureStacksEqual inst bs (t # r) = Inr ()" "targ t 1 = Inr e'"
      "annotate inst e' (spec_of (ann_v ia)) Keep Undef = Inr u" "ret = Stack (u # r)"
    using assms(2) ts(1) by (auto simp: loop_end_def on_stack_def bindR_eq_Inr)
  obtain w q where s: "s = w # q" "has_type w t" "typed_stack q r" using assms(3) ts(1) by (auto simp: list_all2_Cons2)
  have bs: "typed_stack z bs \<longleftrightarrow> typed_stack z ts" for z using stacks_equal_typed [OF eq(1)] ts(1) by auto
  from s(2) has_type_or [OF ts(2,3) eq(2)] consider (l) v where "w = LeftV v" "has_type v e" | (r) v where "w = RightV v" "has_type v e'"
    by blast
  then show ?thesis
  proof cases
    case l
    have "safe (Stack bs) (f (v # q))" using f ts(5) s(3) l put_var_has_type [OF ts(4)] by simp
    then have "safe ret (and_then (f (v # q)) g)" using bs again by (auto intro: and_then_safe)
    then show ?thesis using s l by auto
  next
    case r
    then show ?thesis using s eq(4) annotate_has_type [OF eq(3)] by auto
  qed
qed

lemma checked_loop_safe:
  assumes p: "in_list p loops" and ft: "functionTypeInternal L ctx (Prim p (Some [c]) an) ts = Inr ret"
    and c: "machine_code c" "may_return c" and s: "typed_stack s ts" and IH: "sound_run L ctx n"
  shows "safe ret (run (Suc n) (Prim p (Some [c]) an) s)"
proof -
  let ?e = "Prim p (Some [c]) an"
  obtain t st body where start: "loop_start ?e p ts = Inr (t, st)" and b: "functionTypeInternal L ctx c st = Inr body"
      and end_: "loop_end ?e p t (drop 1 ts) body = Inr ret"
    using ft unfolding checked_loop [OF p] by blast
  obtain bs where bs: "body = Stack bs" using may_return_stack [OF b c] by blast
  have f: "safe (Stack bs) (run n c r)" if "typed_stack r st" for r using sound_runD [OF IH c(1) b that] bs by simp
  have "in_list p [''PUSH''] = False" "machine_code ?e"
    using p c by (auto simp: is_intlit_def split: expr.splits)
  then have again: "safe ret (run n ?e r)" if "typed_stack r ts" for r using sound_runD [OF IH _ ft that] by blast
  show ?thesis using p unfolding in_list_Cons simp_thms
  proof (elim disjE)
    assume "p = ''ITER''"
    then show ?thesis using iter_safe [OF _ _ s, of ?e t st bs ret "run n c"] start end_ bs f by auto
  next
    assume "p = ''MAP''"
    then show ?thesis using map_safe [OF _ _ s, of ?e t st bs ret "run n c"] start end_ bs f by auto
  next
    assume "p = ''LOOP''"
    then show ?thesis using loop_safe [OF _ _ s, of ?e t st bs ret "run n c" "run n ?e"] start end_ bs f again by auto
  next
    assume "p = ''LOOP_LEFT''"
    then show ?thesis using loop_left_safe [OF _ _ s, of ?e t st bs ret "run n c" "run n ?e"] start end_ bs f again by auto
  qed simp
qed

lemma checked_branch_safe:
  assumes p: "in_list p branches" and ft: "functionTypeInternal L ctx (Prim p (Some [a, b]) an) ts = Inr ret"
    and c: "machine_code a" "machine_code b" and s: "typed_stack s ts" and IH: "sound_run L ctx n"
  shows "safe ret (run (Suc n) (Prim p (Some [a, b]) an) s)"
proof -
  obtain s0 s1 r0 r1 where *: "branch_stacks (Prim p (Some [a, b]) an) p ts = Inr (s0, s1)"
      "functionTypeInternal L ctx a s0 = Inr r0" "functionTypeInternal L ctx b s1 = Inr r1"
      "branchType (Prim p (Some [a, b]) an) r0 r1 = Inr ret"
    using ft unfolding checked_branch [OF p] by blast
  obtain l r where r: "branch_start p s = Some (l, r)" "typed_stack r (if l then s0 else s1)"
    using branch_start_typed [OF p *(1) s] by blast
  show ?thesis
  proof (cases l)
    case True
    then have "safe r0 (run n a r)" using sound_runD [OF IH c(1) *(2)] r by simp
    then show ?thesis using branch_safe(1) [OF *(4)] p r(1) True by simp
  next
    case False
    then have "safe r1 (run n b r)" using sound_runD [OF IH c(2) *(3)] r by simp
    then show ?thesis using branch_safe(2) [OF *(4)] p r(1) False by simp
  qed
qed

lemma sound_run_Suc:
  assumes "sound_run L ctx n" and "sound_runs L ctx n"
  shows "sound_run L ctx (Suc n)"
  unfolding sound_run_def
proof (intro allI impI)
  fix e ts s ret
  assume code: "machine_code e" and ft: "functionTypeInternal L ctx e ts = Inr ret" and s: "typed_stack s ts"
  show "safe ret (run (Suc n) e s)"
  proof (cases e rule: machine_code.cases)
    case (1 xs)
    then obtain r where "instructionListType L ctx xs ts = Inr r" "ret = (case r of Failed t n \<Rightarrow> Failed t (n + 1) | Stack s \<Rightarrow> Stack s)"
      using ft by (auto simp: checked_seq)
    moreover from this have "safe r (runs n xs s)" using assms(2) code s 1 by (auto simp: sound_runs_def)
    ultimately show ?thesis using 1 by (auto intro: safe_failed split: MichelsonReturnType.splits)
  next
    case (2 p an)
    then have ft2: "functionTypeInternal L ctx (Prim p None an) ts = Inr ret" using ft by simp
    from code 2 consider "p = ''FAILWITH''" | "in_list p step_instructions" by (auto simp only: machine_code.simps)
    then show ?thesis unfolding 2
    proof cases
      case 1
      then show "safe ret (run (Suc n) (Prim p None an) s)" using fail_safe [OF s] ft2 by blast
    next
      case 2
      then show "safe ret (run (Suc n) (Prim p None an) s)" using simple_safe [OF s ft2] by blast
    qed
  next
    case (3 p a an)
    then have ft3: "functionTypeInternal L ctx (Prim p (Some [a]) an) ts = Inr ret" using ft by simp
    from code 3 consider "is_intlit a" "in_list p counted_instructions" | "\<not> is_intlit a" "in_list p typed_instructions"
      | "p = ''DIP''" "machine_code a" | "in_list p loops" "machine_code a" "may_return a"
      by (auto simp only: machine_code.simps split: if_splits)
    then show ?thesis unfolding 3
    proof cases
      case d: 3
      then show "safe ret (run (Suc n) (Prim p (Some [a]) an) s)"
        using dip_safe [OF s _ assms(1), of "Some [a]" an ret] ft3 by (auto simp: dip_args_def)
    next
      case 4
      then show "safe ret (run (Suc n) (Prim p (Some [a]) an) s)" using checked_loop_safe ft3 s assms(1) by blast
    qed (use simple_safe [OF s ft3] in blast)+
  next
    case (4 p a b an)
    then have ft4: "functionTypeInternal L ctx (Prim p (Some [a, b]) an) ts = Inr ret" using ft by simp
    from code 4 consider "p = ''PUSH''" "machine_type (embed a)" | "p = ''DIP''" "machine_code b"
      | "in_list p branches" "machine_code a" "machine_code b"
      by (auto simp only: machine_code.simps split: if_splits)
    then show ?thesis unfolding 4
    proof cases
      case 1
      then show "safe ret (run (Suc n) (Prim p (Some [a, b]) an) s)" using push_safe [OF s] ft4 by blast
    next
      case 2
      then show "safe ret (run (Suc n) (Prim p (Some [a, b]) an) s)"
        using dip_safe [OF s _ assms(1), of "Some [a, b]" an ret] ft4 by (auto simp: dip_args_def bindR_eq_Inr)
    next
      case 3
      then show "safe ret (run (Suc n) (Prim p (Some [a, b]) an) s)" using checked_branch_safe ft4 s assms(1) by blast
    qed
  qed (use code in auto)
qed

lemma sound_runs_Suc:
  assumes "sound_run L ctx n" and "sound_runs L ctx n"
  shows "sound_runs L ctx (Suc n)"
  unfolding sound_runs_def
proof (intro allI impI)
  fix es ts s ret
  assume code: "list_all machine_code es" and ft: "instructionListType L ctx es ts = Inr ret" and s: "typed_stack s ts"
  show "safe ret (runs (Suc n) es s)"
  proof (cases es)
    case Nil
    then show ?thesis using ft s by (auto simp: instructionListType.simps)
  next
    case (Cons e es')
    then obtain r where r: "functionTypeInternal L ctx e ts = Inr r"
        "(case r of Stack s \<Rightarrow> instructionListType L ctx es' s
          | Failed t n \<Rightarrow> if n = 0 \<and> typeID t \<noteq> ''never'' \<and> es' \<noteq> [] then Inl (MichelsonErr ''FAIL must appear in a tail position'')
              else Inr (Failed t n)) = Inr ret"
      using ft by (auto simp: instructionListType.simps bindR_eq_Inr)
    have first: "safe r (run n e s)" using sound_runD [OF assms(1) _ r(1) s] code Cons by simp
    show ?thesis
    proof (cases r)
      case (Stack us)
      then show ?thesis using first r(2) assms(2) code Cons by (auto simp: sound_runs_def intro!: and_then_safe)
    next
      case (Failed t m)
      then show ?thesis using first Cons and_then_failed by auto
    qed
  qed
qed

lemma sound_all: "sound_run L ctx n \<and> sound_runs L ctx n"
proof (induction n)
  case 0
  show ?case by (simp add: sound_run_def sound_runs_def)
next
  case (Suc n)
  then show ?case using sound_run_Suc sound_runs_Suc by blast
qed

lemma checked_code_safe:
  "machine_code e \<Longrightarrow> functionTypeInternal L ctx e ts = Inr ret \<Longrightarrow> typed_stack s ts \<Longrightarrow> safe ret (run n e s)"
  using sound_all sound_runD by blast

end
