(* ===== verification/ContractSoundness.thy ===== *)
theory ContractSoundness
  imports CodeSoundness
begin

text \<open>
  Soundness for whole contracts, the end of runs without \<open>LOOP\<close>, and what the checker lets
  through: comparisons of different types, and code behind code that it takes for failing.
\<close>

section \<open>Code without LOOP ends\<close>

fun loop_free :: "expr \<Rightarrow> bool" where
  "loop_free (Seq xs) \<longleftrightarrow> list_all loop_free xs"
| "loop_free (Prim p None an) \<longleftrightarrow> \<not> in_list p [''LOOP'', ''LOOP_LEFT'']"
| "loop_free (Prim p (Some as) an) \<longleftrightarrow> \<not> in_list p [''LOOP'', ''LOOP_LEFT''] \<and> list_all loop_free as"
| "loop_free e \<longleftrightarrow> True"

lemma and_then_ends: "r \<noteq> None \<Longrightarrow> (\<And>s. g s \<noteq> None) \<Longrightarrow> and_then r g \<noteq> None"
  by (auto simp: and_then_def split: option.splits sum.splits)

lemma iter_items_ends: "(\<And>s. f s \<noteq> None) \<Longrightarrow> iter_items f xs s \<noteq> None"
proof (induction xs arbitrary: s)
  case (Cons x xs)
  then show ?case unfolding iter_items.simps by (intro and_then_ends) blast+
qed simp

lemma map_items_ends: "(\<And>s. f s \<noteq> None) \<Longrightarrow> map_items f xs ys s \<noteq> None"
proof (induction xs arbitrary: ys s)
  case (Cons x xs)
  then show ?case unfolding map_items.simps by (intro and_then_ends) (auto split: list.splits simp del: not_None_eq)
qed simp

lemma arg_esize: "a \<in> set as \<Longrightarrow> esize a < esize (Prim p (Some as) an)"
  using sub_nodes_esize [of a "Prim p (Some as) an"] by simp

lemma loop_free_arg: "loop_free (Prim p (Some as) an) \<Longrightarrow> a \<in> set as \<Longrightarrow> loop_free a"
  by (auto simp: list_all_iff)

lemma iter_ends:
  assumes "\<And>c r. as = Some [c] \<Longrightarrow> run n c r \<noteq> None"
  shows "run (Suc n) (Prim ''ITER'' as an) s \<noteq> None"
proof -
  have "iter_items (run n c) xs r \<noteq> None" if "as = Some [c]" for c xs r
    using iter_items_ends [of "run n c"] assms [OF that] by blast
  then show ?thesis by (simp split: option.split list.split sval.split)
qed

lemma map_ends:
  assumes "\<And>c r. as = Some [c] \<Longrightarrow> run n c r \<noteq> None"
  shows "run (Suc n) (Prim ''MAP'' as an) s \<noteq> None"
proof -
  have "map_items (run n c) xs [] r \<noteq> None" if "as = Some [c]" for c xs r
    using map_items_ends [of "run n c"] assms [OF that] by blast
  moreover have "and_then (run n c r) (\<lambda>q. case q of [] \<Rightarrow> Some (Inl IllTyped) | y # r' \<Rightarrow> Some (Inr (SomeV y # r'))) \<noteq> None"
    if "as = Some [c]" for c r
    by (rule and_then_ends [OF assms [OF that]]) (simp split: list.split)
  ultimately show ?thesis by (simp split: option.split list.split sval.split)
qed

lemma dip_ends:
  assumes "\<And>k c r. dip_args as = Inr (k, c) \<Longrightarrow> run n c r \<noteq> None"
  shows "run (Suc n) (Prim ''DIP'' as an) s \<noteq> None"
proof -
  have "and_then (run n c (drop k s)) (\<lambda>r. Some (Inr (take k s @ r))) \<noteq> None" if "dip_args as = Inr (k, c)" for k c
    by (rule and_then_ends [OF assms [OF that]]) simp
  then show ?thesis by (simp split: sum.split)
qed

lemma branch_ends:
  assumes "in_list p branches" and "\<And>a b r. as = Some [a, b] \<Longrightarrow> run n a r \<noteq> None \<and> run n b r \<noteq> None"
  shows "run (Suc n) (Prim p as an) s \<noteq> None"
proof -
  have "run (Suc n) (Prim p as an) s =
     (case (as, branch_start p s) of
        (Some [a, b], Some (True, r)) \<Rightarrow> run n a r
      | (Some [a, b], Some (False, r)) \<Rightarrow> run n b r
      | _ \<Rightarrow> Some (Inl IllTyped))" using assms(1) by simp
  then show ?thesis using assms(2) by (simp split: option.split list.split bool.split)
qed

lemma simple_ends:
  assumes "\<not> in_list p branches" and "\<not> in_list p loops" and "p \<noteq> ''DIP''"
  shows "run (Suc n) (Prim p as an) s \<noteq> None"
proof -
  have "run (Suc n) (Prim p as an) s = Some (run_simple p as s)" using assms by simp
  then show ?thesis by simp
qed

lemma prim_ends:
  assumes "\<not> in_list p [''LOOP'', ''LOOP_LEFT'']" and arg: "\<And>xs a r. as = Some xs \<Longrightarrow> a \<in> set xs \<Longrightarrow> run n a r \<noteq> None"
  shows "run (Suc n) (Prim p as an) s \<noteq> None"
proof -
  from assms(1) consider (br) "in_list p branches" | (it) "p = ''ITER''" | (mp) "p = ''MAP''" | (dip) "p = ''DIP''"
    | "\<not> in_list p branches" "\<not> in_list p loops" "p \<noteq> ''DIP''" by fastforce
  then show ?thesis
  proof cases
    case br
    then show ?thesis by (rule branch_ends) (simp add: arg del: not_None_eq)
  next
    case it
    show ?thesis unfolding it by (rule iter_ends) (simp add: arg del: not_None_eq)
  next
    case mp
    show ?thesis unfolding mp by (rule map_ends) (simp add: arg del: not_None_eq)
  next
    case dip
    have "run n c r \<noteq> None" if "dip_args as = Inr (k, c)" for k c r
    proof -
      from that obtain xs where "as = Some xs" "c \<in> set xs"
        by (auto simp: dip_args_def bindR_eq_Inr split: option.splits list.splits)
      then show ?thesis by (rule arg)
    qed
    then show ?thesis unfolding dip by (rule dip_ends)
  qed (rule simple_ends)
qed

lemma runs_end:
  "(loop_free e \<longrightarrow> esize e < n \<longrightarrow> run n e s \<noteq> None) \<and>
   (list_all loop_free es \<longrightarrow> sum_list (map (\<lambda>x. esize x + 1) es) < n \<longrightarrow> runs n es s \<noteq> None)"
proof (induction n arbitrary: e es s)
  case (Suc n)
  have "run (Suc n) e s \<noteq> None" if lf: "loop_free e" and sz: "esize e < Suc n"
  proof (cases e)
    case (Seq xs)
    then show ?thesis using Suc lf sz by auto
  next
    case (Prim p as an)
    have "run n a r \<noteq> None" if "as = Some xs" "a \<in> set xs" for xs a r
      using Suc arg_esize [of a xs p an] loop_free_arg [of p xs an a] that lf sz Prim by auto
    moreover have "\<not> in_list p [''LOOP'', ''LOOP_LEFT'']" using lf Prim by (cases as) auto
    ultimately show ?thesis unfolding Prim by (metis prim_ends)
  qed auto
  moreover have "runs (Suc n) es s \<noteq> None"
    if "list_all loop_free es" "sum_list (map (\<lambda>x. esize x + 1) es) < Suc n"
  proof (cases es)
    case (Cons x xs)
    have "run n x s \<noteq> None" "runs n xs r \<noteq> None" for r using Suc [of x r xs] Suc [of x s xs] that Cons by auto
    then show ?thesis using Cons and_then_ends by simp
  qed simp
  ultimately show ?case by blast
qed simp

lemma loop_free_ends: "loop_free e \<Longrightarrow> \<exists>out. run (esize e + 1) e s = Some out"
  using runs_end [of e "esize e + 1"] by auto

section \<open>Contracts\<close>

lemma functionType_Inr: "functionType L ctx e ts = Inr ret \<Longrightarrow> functionTypeInternal L ctx e ts = Inr ret"
  by (auto simp: functionType_def bindR_eq_Inr)

lemma safe_cases:
  assumes "safe ret (Some out)"
  shows "(\<exists>v. out = Inl (FailedWith v)) \<or> (\<exists>s' ts'. out = Inr s' \<and> ret = Stack ts' \<and> typed_stack s' ts')"
  using assms by (auto simp: safe_def split: sum.splits fault.splits MichelsonReturnType.splits)

lemma has_type_with_annot:
  assumes "has_type v (MPrim p xs an r)"
  shows "has_type v (with_annot (MPrim p xs an r) a)"
proof -
  have "has_type v (set_annots (MPrim p xs an r) [a])" using assms by (simp only: has_type_set_annots)
  then show ?thesis by (simp add: with_annot_def)
qed

lemma no_operations: "has_type v (ty_of ''list'' [ty ''operation'']) \<Longrightarrow> v = ListV []"
proof -
  assume "has_type v (ty_of ''list'' [ty ''operation''])"
  then obtain xs where "v = ListV xs" "list_all (\<lambda>x. has_type x (ty ''operation'')) xs" by (auto simp: has_type_list)
  moreover have "\<not> has_type x (ty ''operation'')" for x using has_type_inhabited [of x "ty ''operation''"] by auto
  ultimately show ?thesis by (cases xs) auto
qed

text \<open>The code of a checked contract, on a parameter and a storage of its types.\<close>

lemma contract_code_safe:
  assumes ok: "assertContractValid L proto secs = Inr ret"
    and secs: "section_arg secs ''parameter'' = Inr (Prim pp pas pan)" "section_arg secs ''storage'' = Inr (Prim sp sas san)"
      "section_arg secs ''code'' = Inr code"
    and vals: "has_type v (embed (Prim pp pas pan))" "has_type w (embed (Prim sp sas san))"
    and code: "machine_code code" and run: "run n code [PairV v w] = Some out"
  shows "(\<exists>x. out = Inl (FailedWith x)) \<or> (\<exists>w'. out = Inr [PairV (ListV []) w'] \<and> has_type w' (embed (Prim sp sas san)))"
proof -
  let ?ctx = "\<lparr>ctx_protocol = proto, ctx_contract = Some secs\<rparr>"
  obtain st res where st: "section_stack (Prim pp pas pan) (Prim sp sas san) = Inr st" "functionTypeInternal L ?ctx code st = Inr res"
      "section_end code (expected_type (Prim sp sas san)) res = Inr ret"
    using ok secs by (subst (asm) assertContractValid.simps) (auto simp: bindR_eq_Inr Let_def)
  have "typed_stack [PairV v w] st"
    using st(1) vals has_type_with_annot by (auto simp: section_stack_def bindR_eq_Inr is_pair_type_def)
  from checked_code_safe [OF code st(2) this, of n] have "safe res (Some out)" using run by simp
  then consider "\<exists>x. out = Inl (FailedWith x)" | s' ts' where "out = Inr s'" "res = Stack ts'" "typed_stack s' ts'"
    using safe_cases by blast
  then show ?thesis
  proof cases
    case 2
    then have eq: "rethrow code (assertStacksEqual ts' [expected_type (Prim sp sas san)]) = Inr ()"
      using st(3) by (auto simp: section_end_def bindR_eq_Inr)
    then have "typed_stack s' [expected_type (Prim sp sas san)]"
      using stacks_equal_typed [of code ts' "[expected_type (Prim sp sas san)]" s'] 2(3) by (simp add: ensureStacksEqual_def)
    then obtain x where x: "s' = [x]" "has_type x (expected_type (Prim sp sas san))" by (auto simp: list_all2_Cons2)
    then obtain l w' where "x = PairV l w'" "has_type l (ty_of ''list'' [ty ''operation''])" "has_type w' (embed (Prim sp sas san))"
      using has_type_pair [of "expected_type (Prim sp sas san)"] by (auto simp: expected_type_def is_pair_type_def simp del: has_type.simps)
    then show ?thesis using 2(1) x no_operations by auto
  qed simp
qed

section \<open>What the checker lets through\<close>

text \<open>\<open>COMPARE\<close> of two comparable types, whatever they are.\<close>

lemma no_instruction_annots [simp]:
  "instructionAnn (Prim p as None) num sv sf = Inr \<lparr>ann_f = None, ann_t = None, ann_v = None\<rparr>"
  by (simp add: instructionAnn_def unpackAnnotations_def util_def rethrow_def count_ann_def)

lemma compare_any:
  assumes "typeCheck Comparable (plain a) = Inr ()" and "typeCheck Comparable (plain b) = Inr ()"
  shows "functionTypeInternal L ctx (Prim ''COMPARE'' None None) (a # b # ts) = Inr (Stack (ty ''int'' # ts))"
proof -
  have "\<not> in_list ''COMPARE'' code_instructions" by (simp add: code_instructions_def)
  moreover have "simple_inst ctx (Prim ''COMPARE'' None None) ''COMPARE'' None (a # b # ts) = Inr ([ty ''int''], 2)"
    using assms by (simp add: simple_inst_def arith_inst_def args2_def stackArgs_def ensureKind_def valid_def rethrow_def arith_def
        annotateVar_def annotate_def argAnn_def type_annots_def util_def unpackAnnotations_def spec_list_def)
  ultimately show ?thesis by (simp add: checked_simple apply_effect_def)
qed

text \<open>A function that always fails makes the code after it unreachable for the checker.\<close>

lemma fail_function:
  assumes "assertTypeAnnotationsValid (embed a) False = Inr ()" and "assertTypeAnnotationsValid (embed r) False = Inr ()"
    and "typeCheck Packable (plain (embed a)) = Inr ()"
  shows "instructionListType L ctx (Prim ''LAMBDA'' (Some [a, r, Seq [Prim ''FAILWITH'' None None]]) None # rest) ts =
    Inr (Failed (embed a) 2)"
proof -
  have "functionTypeInternal L c (Prim ''FAILWITH'' None None) [embed a] = Inr (Failed (embed a) 0)" for c
    using assms(3) by (simp add: checked_fail fail_inst_def args1_def stackArgs_def ensureKind_def valid_def rethrow_def)
  then have body: "functionTypeInternal L c (Seq [Prim ''FAILWITH'' None None]) [embed a] = Inr (Failed (embed a) 1)" for c
    by (simp add: checked_seq instructionListType.simps)
  have "functionTypeInternal L ctx (Prim ''LAMBDA'' (Some [a, r, Seq [Prim ''FAILWITH'' None None]]) None) ts = Inr (Failed (embed a) 2)"
    using assms(1,2) body
    by (subst functionTypeInternal.simps)
      (simp add: lambda_start_def inst_type_def arg_at_def inst_arg_def type_args_def lambda_end_def on_stack_def)
  then show ?thesis by (simp add: instructionListType.simps)
qed

text \<open>So does a loop over failing code, which runs no time at all on an empty list.\<close>

lemma fail_loop:
  "\<exists>t. instructionListType L ctx (Prim ''ITER'' (Some [Seq [Prim ''FAILWITH'' None None]]) None # rest) (ty_of ''list'' [ty ''int''] # ts) =
    Inr (Failed t 2)"
proof -
  define u where "u = MPrim ''int'' None (Some [''@elt'']) None"
  have start: "loop_start (Prim ''ITER'' (Some [Seq [Prim ''FAILWITH'' None None]]) None) ''ITER'' (ty_of ''list'' [ty ''int''] # ts) =
      Inr (ty_of ''list'' [ty ''int''], u # ts)"
    by (simp add: loop_start_def args1_def stackArgs_def elt_type_def put_var_def argAnn_def type_annots_def util_def
        unpackAnnotations_def rethrow_def annotate_def spec_list_def varSuffix_def ann_at_def u_def)
  have "functionTypeInternal L ctx (Prim ''FAILWITH'' None None) (u # ts) = Inr (Failed u 0)"
    by (simp add: checked_fail fail_inst_def args1_def stackArgs_def ensureKind_def valid_def rethrow_def u_def typeIDs_def simpleComparableTypeIDs_def assertArgCount_def)
  then have "functionTypeInternal L ctx (Seq [Prim ''FAILWITH'' None None]) (u # ts) = Inr (Failed u 1)"
    by (simp add: checked_seq instructionListType.simps)
  then have "functionTypeInternal L ctx (Prim ''ITER'' (Some [Seq [Prim ''FAILWITH'' None None]]) None) (ty_of ''list'' [ty ''int''] # ts) =
      Inr (Failed u 2)"
    using checked_loop [of "''ITER''"] start by (simp add: loop_end_def on_stack_def)
  then show ?thesis by (simp add: instructionListType.simps)
qed

text \<open>A contract with any code at all behind such a function.\<close>

definition unit_contract :: "expr list \<Rightarrow> expr list" where
  "unit_contract code =
     [Prim ''parameter'' (Some [Prim ''unit'' None None]) None, Prim ''storage'' (Some [Prim ''unit'' None None]) None,
      Prim ''code'' (Some [Seq code]) None]"

definition failing_function :: expr where
  "failing_function = Prim ''LAMBDA'' (Some [Prim ''unit'' None None, Prim ''unit'' None None, Seq [Prim ''FAILWITH'' None None]]) None"

lemma unit_annots [simp]: "assertTypeAnnotationsValid (MPrim ''unit'' None an None) f = checkAnnotations (MPrim ''unit'' None an None) f"
  by (subst assertTypeAnnotationsValid.simps) (auto simp: is_pair_typeID bindR_def split: sum.splits)

lemma unit_no_annots [simp]: "checkAnnotations (ty p) f = Inr ()"
  by (simp add: checkAnnotations_def type_annots_def util_def unpackAnnotations_def count_ann_def)

lemma unchecked_code: "assertContractValid L proto (unit_contract (failing_function # rest)) = Inr (Failed (ty ''unit'') 3)"
proof -
  have secs: "section_arg (unit_contract c) ''parameter'' = Inr (Prim ''unit'' None None)"
      "section_arg (unit_contract c) ''storage'' = Inr (Prim ''unit'' None None)"
      "section_arg (unit_contract c) ''code'' = Inr (Seq c)" "contractViews (unit_contract c) = []" for c
    by (simp_all add: unit_contract_def section_arg_def contractSection_def prim_of_def inst_arg_def arg_at_def type_args_def contractViews_def)
  have "typeCheck Packable (plain (embed (Prim ''unit'' None None))) = Inr ()" by (simp add: typeIDs_def simpleComparableTypeIDs_def assertArgCount_def)
  then have code: "functionTypeInternal L ctx (Seq (failing_function # rest)) ts = Inr (Failed (ty ''unit'') 3)" for ctx ts
    using fail_function [of "Prim ''unit'' None None" "Prim ''unit'' None None" L ctx rest ts] by (simp add: checked_seq failing_function_def)
  show ?thesis
    by (subst assertContractValid.simps) (simp add: secs code section_stack_def section_end_def Let_def)
qed

end
