(* ===== verification/CheckerFrame.thy ===== *)
theory CheckerFrame
  imports CodeSoundness
begin

text \<open>
  The frame property of the type checker: what it finds about code does not depend on the types
  further down the stack.  Every instruction reads as many types as it asks \<open>args\<close> for, and takes
  no more off the stack than it has read; only \<open>DUG\<close> and \<open>EMIT\<close> without a type take types off
  without looking whether they are there.
\<close>

section \<open>Instructions without code\<close>

text \<open>When the first result is a value, so is the second, and the relation holds between them.\<close>

definition follows :: "('a \<Rightarrow> 'b \<Rightarrow> bool) \<Rightarrow> 'a tc \<Rightarrow> 'b tc \<Rightarrow> bool" where
  "follows R r r' \<longleftrightarrow> (\<forall>x. r = Inr x \<longrightarrow> (\<exists>y. r' = Inr y \<and> R x y))"

text \<open>An effect found on a stack of \<open>m\<close> types is found again, and takes off at most \<open>m\<close> of them.\<close>

definition within :: "nat \<Rightarrow> mtype list \<times> nat \<Rightarrow> mtype list \<times> nat \<Rightarrow> bool" where
  "within m x y \<longleftrightarrow> y = x \<and> snd x \<le> m"

abbreviation keeps :: "nat \<Rightarrow> effect tc \<Rightarrow> effect tc \<Rightarrow> bool" where
  "keeps m \<equiv> follows (within m)"

lemma followsD: "follows R r r' \<Longrightarrow> r = Inr x \<Longrightarrow> \<exists>y. r' = Inr y \<and> R x y"
  by (simp add: follows_def)

lemma within_simps [simp]: "within m (new, k) y \<longleftrightarrow> y = (new, k) \<and> k \<le> m"
  by (simp add: within_def)

lemma stackArgs_more: "stackArgs inst ts n ids = Inr r \<Longrightarrow>
    stackArgs inst (ts @ us) n ids = Inr r \<and> length ids + n \<le> length ts"
  by (auto simp: stackArgs_def split: if_splits)

lemma args1_more: "args1 inst ts n ids = Inr r \<Longrightarrow> args1 inst (ts @ us) n ids = Inr r \<and> 1 + n \<le> length ts"
  by (auto simp: args1_def bindR_eq_Inr dest: stackArgs_more [where us = us])

lemma args2_more: "args2 inst ts n i j = Inr r \<Longrightarrow> args2 inst (ts @ us) n i j = Inr r \<and> 2 + n \<le> length ts"
  by (auto simp: args2_def bindR_eq_Inr dest: stackArgs_more [where us = us])

lemma args3_more: "args3 inst ts n i j k = Inr r \<Longrightarrow> args3 inst (ts @ us) n i j k = Inr r \<and> 3 + n \<le> length ts"
  by (auto simp: args3_def bindR_eq_Inr dest: stackArgs_more [where us = us])

lemma follows_Inr: "R x y \<Longrightarrow> follows R (Inr x) (Inr y)"
  by (simp add: follows_def)

lemma follows_Inl: "follows R (Inl e) r"
  by (simp add: follows_def)

lemma follows_bind: "(\<And>x. follows R (f x) (f' x)) \<Longrightarrow> follows R (bindR r f) (bindR r f')"
  by (cases r) (simp_all add: follows_def)

lemma follows_if: "(b \<Longrightarrow> follows R x x') \<Longrightarrow> (\<not> b \<Longrightarrow> follows R y y') \<Longrightarrow> follows R (if b then x else y) (if b then x' else y')"
  by simp

lemma follows_prod: "(\<And>a b. follows R (f a b) (f' a b)) \<Longrightarrow> follows R (case p of (a, b) \<Rightarrow> f a b) (case p of (a, b) \<Rightarrow> f' a b)"
  by (cases p) simp

lemma follows_option: "follows R x x' \<Longrightarrow> (\<And>a. follows R (f a) (f' a)) \<Longrightarrow>
    follows R (case q of None \<Rightarrow> x | Some a \<Rightarrow> f a) (case q of None \<Rightarrow> x' | Some a \<Rightarrow> f' a)"
  by (cases q) simp_all

lemma follows_args1: "(\<And>s. 1 + n \<le> length ts \<Longrightarrow> follows R (f s) (f' s)) \<Longrightarrow>
    follows R (bindR (args1 inst ts n ids) f) (bindR (args1 inst (ts @ us) n ids) f')"
  using args1_more [of inst ts n ids _ us] by (cases "args1 inst ts n ids") (auto simp: follows_def)

lemma follows_args2: "(\<And>s. 2 + n \<le> length ts \<Longrightarrow> follows R (f s) (f' s)) \<Longrightarrow>
    follows R (bindR (args2 inst ts n i j) f) (bindR (args2 inst (ts @ us) n i j) f')"
  using args2_more [of inst ts n i j _ us] by (cases "args2 inst ts n i j") (auto simp: follows_def)

lemma follows_args3: "(\<And>s. 3 + n \<le> length ts \<Longrightarrow> follows R (f s) (f' s)) \<Longrightarrow>
    follows R (bindR (args3 inst ts n i j k) f) (bindR (args3 inst (ts @ us) n i j k) f')"
  using args3_more [of inst ts n i j k _ us] by (cases "args3 inst ts n i j k") (auto simp: follows_def)

lemma follows_stackArgs: "(\<And>s. length ids + n \<le> length ts \<Longrightarrow> follows R (f s) (f' s)) \<Longrightarrow>
    follows R (bindR (stackArgs inst ts n ids) f) (bindR (stackArgs inst (ts @ us) n ids) f')"
  using stackArgs_more [of inst ts n ids _ us] by (cases "stackArgs inst ts n ids") (auto simp: follows_def)

lemmas follows_rules = follows_args1 follows_args2 follows_args3 follows_stackArgs follows_bind follows_prod follows_if follows_option
  follows_Inr follows_Inl

lemma drop_keeps: "keeps (length ts) (drop_type inst n ts) (drop_type inst n (ts @ us))"
proof (cases n)
  case 0
  then show ?thesis by (simp add: drop_type_def follows_def)
next
  case (Suc k)
  then show ?thesis using args1_more [of inst ts k "[]" _ us]
    by (cases "args1 inst ts k []") (auto simp: drop_type_def follows_def bindR_eq_Inr)
qed

lemma stack_keeps: "p \<noteq> ''DUG'' \<Longrightarrow> keeps (length ts) (stack_inst inst p as ts) (stack_inst inst p as (ts @ us))"
  unfolding stack_inst_def dup_type_def by (intro follows_rules drop_keeps) simp_all

lemma pair_keeps: "keeps (length ts) (pair_inst inst p as ts) (pair_inst inst p as (ts @ us))"
  unfolding pair_inst_def by (intro follows_rules) simp_all

lemma coll_keeps: "keeps (length ts) (coll_inst inst p as ts) (coll_inst inst p as (ts @ us))"
  unfolding coll_inst_def left_right_def update_coll_def get_and_update_def by (intro follows_rules) simp_all

lemma arith_keeps: "keeps (length ts) (arith_inst proto inst p ts) (arith_inst proto inst p (ts @ us))"
  unfolding arith_inst_def add_inst_def sub_inst_def mul_inst_def ediv_inst_def logic_inst_def unary_def arith_def Let_def
  by (intro follows_rules) simp_all

lemma text_keeps: "keeps (length ts) (text_inst inst p as ts) (text_inst inst p as (ts @ us))"
  unfolding text_inst_def concat_inst_def by (intro follows_rules) simp_all

lemma ticket_keeps: "keeps (length ts) (ticket_inst proto inst p ts) (ticket_inst proto inst p (ts @ us))"
  unfolding ticket_inst_def by (intro follows_rules) simp_all

lemma misc_keeps:
  assumes "p = ''EMIT'' \<longrightarrow> as \<noteq> None" and "in_list p [''UNIT'', ''EXEC'', ''APPLY'', ''TRANSFER_TOKENS'', ''SET_DELEGATE'', ''IMPLICIT_ACCOUNT'',
    ''ADDRESS'', ''VOTING_POWER'', ''PAIRING_CHECK'', ''SAPLING_EMPTY_STATE'', ''SAPLING_VERIFY_UPDATE'', ''OPEN_CHEST'', ''VIEW'', ''EMIT'']"
  shows "keeps (length ts) (misc_inst proto inst p as ts) (misc_inst proto inst p as (ts @ us))"
proof (cases as)
  case (Some xs)
  show ?thesis unfolding misc_inst_def sapling_update_def Let_def Some option.case bindR_assoc by (intro follows_rules) simp_all
next
  case None
  then have "p \<noteq> ''EMIT''" using assms(1) by blast
  then have "p \<in> set [''UNIT'', ''EXEC'', ''APPLY'', ''TRANSFER_TOKENS'', ''SET_DELEGATE'', ''IMPLICIT_ACCOUNT'', ''ADDRESS'',
      ''VOTING_POWER'', ''PAIRING_CHECK'', ''SAPLING_EMPTY_STATE'', ''SAPLING_VERIFY_UPDATE'', ''OPEN_CHEST'', ''VIEW'']"
    using assms(2) by (auto simp: in_list_def)
  then show ?thesis unfolding misc_inst_def sapling_update_def Let_def
    by (intro follows_rules) simp_all
qed

lemma contract_keeps: "keeps (length ts) (contract_inst inst as ts) (contract_inst inst as (ts @ us))"
  unfolding contract_inst_def by (intro follows_rules) simp_all

lemma self_keeps: "keeps m (self_inst ctx inst p) (self_inst ctx inst p)"
  unfolding self_inst_def by (intro follows_rules) simp_all

lemma simple_keeps:
  assumes "p \<noteq> ''DUG''" "p = ''EMIT'' \<longrightarrow> as \<noteq> None"
  shows "keeps (length ts) (simple_inst ctx inst p as ts) (simple_inst ctx inst p as (ts @ us))"
  unfolding simple_inst_def
  by (intro follows_if stack_keeps pair_keeps coll_keeps arith_keeps text_keeps ticket_keeps misc_keeps self_keeps contract_keeps assms
      follows_option follows_prod follows_bind follows_Inr follows_Inl) simp_all

lemma effect_more:
  assumes "p \<noteq> ''DUG''" "p = ''EMIT'' \<longrightarrow> as \<noteq> None" and "apply_effect ts (simple_inst ctx inst p as ts) = Inr ret"
  shows "\<exists>ts'. ret = Stack ts' \<and> apply_effect (ts @ us) (simple_inst ctx inst p as (ts @ us)) = Inr (Stack (ts' @ us))"
proof -
  obtain new k where e: "simple_inst ctx inst p as ts = Inr (new, k)" "ret = Stack (new @ drop k ts)"
    using assms(3) by (auto simp: apply_effect_def bindR_eq_Inr)
  then show ?thesis using followsD [OF simple_keeps [OF assms(1,2)] e(1), of us] by (simp add: apply_effect_def)
qed

section \<open>Stacks that are compared\<close>

lemma stacksEqual_append: "length a = length b \<Longrightarrow> stacksEqual (a @ c) (b @ d) = bindR (stacksEqual a b) (\<lambda>_. stacksEqual c d)"
  by (induction a b rule: list_induct2) (simp_all add: bindR_assoc)

lemma equal_more:
  "ensureStacksEqual inst a b = Inr () \<Longrightarrow> assertStacksEqual us us = Inr () \<Longrightarrow> ensureStacksEqual inst (a @ us) (b @ us) = Inr ()"
  by (auto simp: ensureStacksEqual_def assertStacksEqual_def rethrow_def stacksEqual_append split: sum.splits if_splits)

text \<open>What code returns, with more types at the bottom of the stack.\<close>

fun with_frame :: "mtype list \<Rightarrow> MichelsonReturnType \<Rightarrow> MichelsonReturnType" where
  "with_frame us (Stack ts) = Stack (ts @ us)"
| "with_frame us (Failed t n) = Failed t n"

lemma drop_more: "k \<le> length ts \<Longrightarrow> drop k (ts @ us) = drop k ts @ us"
  by simp

lemma branch_stacks_more:
  "follows (\<lambda>(a, b) y. y = (a @ us, b @ us)) (branch_stacks inst p ts) (branch_stacks inst p (ts @ us))"
  unfolding branch_stacks_def Let_def by (intro follows_rules) simp_all

lemma branchType_more: "branchType inst a b = Inr ret \<Longrightarrow> assertStacksEqual us us = Inr () \<Longrightarrow>
    branchType inst (with_frame us a) (with_frame us b) = Inr (with_frame us ret)"
  by (cases "(inst, a, b)" rule: branchType.cases) (auto simp: bindR_eq_Inr dest: equal_more)

lemma loop_start_more:
  "follows (\<lambda>(s, st) y. y = (s, st @ us) \<and> ts \<noteq> []) (loop_start inst p ts) (loop_start inst p (ts @ us))"
  unfolding loop_start_def by (intro follows_rules) auto

lemma loop_end_more:
  assumes "loop_end inst p s tail body = Inr ret" and us: "assertStacksEqual us us = Inr ()"
  shows "loop_end inst p s (tail @ us) (with_frame us body) = Inr (with_frame us ret)"
proof (cases body)
  case (Failed t n)
  then show ?thesis using assms(1) by (auto simp: loop_end_def on_stack_def split: if_splits)
next
  case (Stack st)
  show ?thesis
    using assms(1) equal_more [OF _ us, of inst st tail] equal_more [OF _ us, of inst st "ty ''bool'' # tail"]
      equal_more [OF _ us, of inst st "s # tail"] equal_more [OF _ us, of inst "tl st" tail]
    by (auto simp: loop_end_def on_stack_def Stack map_end_def bindR_eq_Inr split: if_splits list.splits)
qed

lemma lambda_end_more: "lambda_end inst a r ts body = Inr ret \<Longrightarrow> lambda_end inst a r (ts @ us) body = Inr (with_frame us ret)"
  by (auto simp: lambda_end_def on_stack_def bindR_eq_Inr split: MichelsonReturnType.splits list.splits)

lemma dip_start_more: "dip_start inst n ts = Inr () \<Longrightarrow> dip_start inst n (ts @ us) = Inr () \<and> n \<le> length ts"
proof -
  assume s: "dip_start inst n ts = Inr ()"
  then obtain x where d: "drop_type inst n ts = Inr x" by (auto simp: dip_start_def bindR_eq_Inr)
  obtain new k where x: "x = (new, k)" by (cases x)
  have "k = n" using d x by (auto simp: drop_type_def bindR_eq_Inr)
  then show ?thesis using s followsD [OF drop_keeps d [unfolded x], of us] by (auto simp: dip_start_def bindR_eq_Inr)
qed

lemma create_start_more: "follows (\<lambda>x y. y = x \<and> 3 \<le> length ts) (create_start inst ts) (create_start inst (ts @ us))"
  unfolding create_start_def by (intro follows_rules) simp_all

lemma create_end_more: "create_end inst ia s secs ts = Inr ret \<Longrightarrow> 3 \<le> length ts \<Longrightarrow>
    create_end inst ia s secs (ts @ us) = Inr (with_frame us ret)"
  by (auto simp: create_end_def bindR_eq_Inr)

lemma fail_more: "follows (\<lambda>x y. y = with_frame us x) (fail_inst ctx inst p ts) (fail_inst ctx inst p (ts @ us))"
  unfolding fail_inst_def by (intro follows_rules) simp_all

section \<open>Code\<close>

text \<open>When code is accepted, by its kind.\<close>

lemma checked_Branch:
  assumes "in_list p branches"
  shows "functionTypeInternal L ctx (Prim p as an) ts = Inr ret \<longleftrightarrow>
    (\<exists>s0 s1 c0 c1 r0 r1. branch_stacks (Prim p as an) p ts = Inr (s0, s1) \<and> inst_arg (Prim p as an) 0 = Inr c0 \<and>
       inst_arg (Prim p as an) 1 = Inr c1 \<and> functionTypeInternal L ctx c0 s0 = Inr r0 \<and>
       functionTypeInternal L ctx c1 s1 = Inr r1 \<and> branchType (Prim p as an) r0 r1 = Inr ret)"
  using assms
  by (subst functionTypeInternal.simps, cases "inst_arg (Prim p as an) 0"; cases "inst_arg (Prim p as an) 1")
    (auto simp: bindR_eq_Inr)

lemma checked_Loop:
  assumes "in_list p loops"
  shows "functionTypeInternal L ctx (Prim p as an) ts = Inr ret \<longleftrightarrow>
    (\<exists>s st c body. loop_start (Prim p as an) p ts = Inr (s, st) \<and> inst_arg (Prim p as an) 0 = Inr c \<and>
       functionTypeInternal L ctx c st = Inr body \<and> loop_end (Prim p as an) p s (drop 1 ts) body = Inr ret)"
  using assms not_branch(1) [OF assms]
  by (subst functionTypeInternal.simps, cases "inst_arg (Prim p as an) 0") (auto simp: bindR_eq_Inr)

lemma checked_Create: "functionTypeInternal L ctx (Prim ''CREATE_CONTRACT'' as an) ts = Inr ret \<longleftrightarrow>
    (\<exists>ia s secs x. create_start (Prim ''CREATE_CONTRACT'' as an) ts = Inr (ia, s) \<and>
       bindR (inst_arg (Prim ''CREATE_CONTRACT'' as an) 0) code_list = Inr secs \<and> assertContractValid L None secs = Inr x \<and>
       create_end (Prim ''CREATE_CONTRACT'' as an) ia s secs ts = Inr ret)"
  by (subst functionTypeInternal.simps, cases "bindR (inst_arg (Prim ''CREATE_CONTRACT'' as an) 0) code_list")
    (auto simp: bindR_eq_Inr [where m = "create_start _ _"] bindR_eq_Inr [where m = "assertContractValid _ _ _"])

lemma checked_Push: "functionTypeInternal L ctx (Prim ''PUSH'' as an) ts = Inr ret \<longleftrightarrow>
    (\<exists>v t u. inst_arg (Prim ''PUSH'' as an) 1 = Inr v \<and> inst_type as 0 = Inr t \<and> assertTypeAnnotationsValid t False = Inr () \<and>
       dataValid L (ctx\<lparr>ctx_contract := None\<rparr>) v t = Inr () \<and> annotateVar (Prim ''PUSH'' as an) t None = Inr u \<and> ret = Stack (u # ts))"
  by (subst functionTypeInternal.simps) (auto simp: in_list_def bindR_eq_Inr split: sum.splits)

lemma checked_Lambda:
  assumes "p = ''LAMBDA'' \<or> p = ''LAMBDA_REC''"
  shows "functionTypeInternal L ctx (Prim p as an) ts = Inr ret \<longleftrightarrow>
    (\<exists>a r s c body. lambda_start p as = Inr (a, r, s) \<and> inst_arg (Prim p as an) 2 = Inr c \<and>
       functionTypeInternal L (ctx\<lparr>ctx_contract := None\<rparr>) c s = Inr body \<and> lambda_end (Prim p as an) a r ts body = Inr ret)"
proof -
  have "\<not> in_list p branches" "\<not> in_list p loops" "p \<noteq> ''DIP''" "p \<noteq> ''CREATE_CONTRACT''" "p \<noteq> ''PUSH''"
    using assms by (auto simp: in_list_def)
  then show ?thesis using assms
    by (subst functionTypeInternal.simps, cases "inst_arg (Prim p as an) 2") (simp_all add: bindR_eq_Inr split_paired_Ex)
qed

lemma checked_Other:
  assumes "\<not> in_list p branches" "\<not> in_list p loops"
    "p \<noteq> ''DIP''" "p \<noteq> ''CREATE_CONTRACT''" "p \<noteq> ''PUSH''" "p \<noteq> ''LAMBDA''" "p \<noteq> ''LAMBDA_REC''"
  shows "functionTypeInternal L ctx (Prim p as an) ts =
     (if p = ''FAILWITH'' \<or> p = ''NEVER'' then fail_inst ctx (Prim p as an) p ts
      else apply_effect ts (simple_inst ctx (Prim p as an) p as ts))"
  using assms by (subst functionTypeInternal.simps) simp

text \<open>The instructions that take types off the stack unchecked are left out where the code runs on
  the stack; the bodies of functions, contracts and data have stacks of their own.\<close>

fun depth_checked :: "expr \<Rightarrow> bool" where
  "depth_checked (Seq xs) \<longleftrightarrow> list_all depth_checked xs"
| "depth_checked (Prim p args an) \<longleftrightarrow> p \<noteq> ''DUG'' \<and> (p = ''EMIT'' \<longrightarrow> args \<noteq> None) \<and>
     (in_list p [''LAMBDA'', ''LAMBDA_REC'', ''CREATE_CONTRACT'', ''PUSH''] \<or>
      (case args of None \<Rightarrow> True | Some xs \<Rightarrow> list_all depth_checked xs))"
| "depth_checked e \<longleftrightarrow> True"

lemma inst_arg_mem: "inst_arg (Prim p args an) i = Inr c \<Longrightarrow> \<exists>xs. args = Some xs \<and> c \<in> set xs"
  by (auto simp: inst_arg_def arg_at_def type_args_def split: option.splits if_splits)

lemma arg_checked:
  "inst_arg (Prim p args an) i = Inr c \<Longrightarrow> depth_checked (Prim p args an) \<Longrightarrow>
     \<not> in_list p [''LAMBDA'', ''LAMBDA_REC'', ''CREATE_CONTRACT'', ''PUSH''] \<Longrightarrow> depth_checked c"
  using inst_arg_mem [of p args an i c] by (auto simp: list_all_iff)

lemma dip_checked: "dip_args args = Inr (n, c) \<Longrightarrow> depth_checked (Prim ''DIP'' args an) \<Longrightarrow> depth_checked c"
  by (auto simp: dip_args_def bindR_eq_Inr in_list_def split: option.splits list.splits)

lemma list_frame:
  assumes "\<And>x ts ret. x \<in> set xs \<Longrightarrow> functionTypeInternal L ctx x ts = Inr ret \<Longrightarrow>
      functionTypeInternal L ctx x (ts @ us) = Inr (with_frame us ret)"
    and "instructionListType L ctx xs ts = Inr ret"
  shows "instructionListType L ctx xs (ts @ us) = Inr (with_frame us ret)"
  using assms
proof (induction xs arbitrary: ts)
  case Nil
  then show ?case by (auto simp: instructionListType.simps)
next
  case (Cons x xs)
  obtain ft where ft: "functionTypeInternal L ctx x ts = Inr ft"
      "(case ft of Stack s \<Rightarrow> instructionListType L ctx xs s
        | Failed t n \<Rightarrow> if n = 0 \<and> typeID t \<noteq> ''never'' \<and> xs \<noteq> [] then Inl (MichelsonErr ''FAIL must appear in a tail position'')
                         else Inr (Failed t n)) = Inr ret"
    using Cons.prems(2) by (auto simp: instructionListType.simps bindR_eq_Inr)
  have x: "functionTypeInternal L ctx x (ts @ us) = Inr (with_frame us ft)" by (rule Cons.prems(1) [OF _ ft(1)]) simp
  show ?case
  proof (cases ft)
    case (Stack s)
    have "instructionListType L ctx xs (s @ us) = Inr (with_frame us ret)"
      by (rule Cons.IH) (use Cons.prems(1) ft(2) Stack in auto)
    then show ?thesis using x Stack by (simp add: instructionListType.simps)
  next
    case (Failed t n)
    then show ?thesis using x ft(2) by (auto simp: instructionListType.simps split: if_splits)
  qed
qed

lemma code_frame:
  assumes us: "assertStacksEqual us us = Inr ()"
  shows "functionTypeInternal L ctx e ts = Inr ret \<Longrightarrow> depth_checked e \<Longrightarrow>
    functionTypeInternal L ctx e (ts @ us) = Inr (with_frame us ret)"
proof (induction e arbitrary: ts ret rule: measure_induct_rule [where f = esize])
  case (less e)
  show ?case
  proof (cases e)
    case (Seq xs)
    obtain r where r: "instructionListType L ctx xs ts = Inr r" "ret = (case r of Failed t n \<Rightarrow> Failed t (n + 1) | Stack s \<Rightarrow> Stack s)"
      using less.prems(1) unfolding Seq checked_seq by blast
    have "instructionListType L ctx xs (ts @ us) = Inr (with_frame us r)"
    proof (rule list_frame [OF _ r(1)])
      fix x ts ret assume x: "x \<in> set xs" "functionTypeInternal L ctx x ts = Inr ret"
      have "esize x < esize e" "depth_checked x"
        using x(1) sub_nodes_esize [of x e] less.prems(2) Seq by (auto simp: list_all_iff)
      then show "functionTypeInternal L ctx x (ts @ us) = Inr (with_frame us ret)" using less.IH x(2) by blast
    qed
    then show ?thesis unfolding Seq checked_seq using r(2) by (cases r) auto
  next
    case (Prim p as an)
    note ft = less.prems(1) [unfolded Prim] and d = less.prems(2) [unfolded Prim]
    have arg: "functionTypeInternal L ctx c (st @ us) = Inr (with_frame us r)"
      if "inst_arg (Prim p as an) i = Inr c" "functionTypeInternal L ctx c st = Inr r"
        "\<not> in_list p [''LAMBDA'', ''LAMBDA_REC'', ''CREATE_CONTRACT'', ''PUSH'']" for i c st r
      using less.IH [OF _ that(2) arg_checked [OF that(1) d that(3)]] inst_arg_esize [OF that(1)] Prim by blast
    consider "in_list p branches" | "in_list p loops" | "p = ''DIP''" | "p = ''CREATE_CONTRACT''" | "p = ''PUSH''"
      | "p = ''LAMBDA'' \<or> p = ''LAMBDA_REC''"
      | "\<not> in_list p branches" "\<not> in_list p loops" "p \<noteq> ''DIP''" "p \<noteq> ''CREATE_CONTRACT''" "p \<noteq> ''PUSH''" "p \<noteq> ''LAMBDA''" "p \<noteq> ''LAMBDA_REC''"
      by blast
    then show ?thesis
    proof cases
      case 1
      obtain s0 s1 c0 c1 r0 r1 where b: "branch_stacks (Prim p as an) p ts = Inr (s0, s1)" "inst_arg (Prim p as an) 0 = Inr c0"
          "inst_arg (Prim p as an) 1 = Inr c1" "functionTypeInternal L ctx c0 s0 = Inr r0" "functionTypeInternal L ctx c1 s1 = Inr r1"
          "branchType (Prim p as an) r0 r1 = Inr ret"
        using ft unfolding checked_Branch [OF 1] by blast
      have n: "\<not> in_list p [''LAMBDA'', ''LAMBDA_REC'', ''CREATE_CONTRACT'', ''PUSH'']" using 1 by (auto simp: in_list_def)
      show ?thesis unfolding Prim checked_Branch [OF 1]
        using followsD [OF branch_stacks_more b(1), of us] arg [OF b(2,4) n] arg [OF b(3,5) n] branchType_more [OF b(6) us] b(2,3) by auto
    next
      case 2
      obtain s st c body where l: "loop_start (Prim p as an) p ts = Inr (s, st)" "inst_arg (Prim p as an) 0 = Inr c"
          "functionTypeInternal L ctx c st = Inr body" "loop_end (Prim p as an) p s (drop 1 ts) body = Inr ret"
        using ft unfolding checked_Loop [OF 2] by blast
      have n: "\<not> in_list p [''LAMBDA'', ''LAMBDA_REC'', ''CREATE_CONTRACT'', ''PUSH'']" using 2 by (auto simp: in_list_def)
      have st: "loop_start (Prim p as an) p (ts @ us) = Inr (s, st @ us)" "ts \<noteq> []"
        using followsD [OF loop_start_more l(1), of us] by auto
      then have "drop 1 (ts @ us) = drop 1 ts @ us" by (cases ts) simp_all
      then show ?thesis unfolding Prim checked_Loop [OF 2]
        using st(1) l(2) arg [OF l(2,3) n] loop_end_more [OF l(4) us] by metis
    next
      case 3
      obtain n c body where i: "dip_args as = Inr (n, c)" "dip_start (Prim ''DIP'' as an) n ts = Inr ()"
          "functionTypeInternal L ctx c (drop n ts) = Inr body" "on_stack body (\<lambda>s. Inr (Stack (take n ts @ s))) = Inr ret"
        using ft unfolding 3 checked_dip by blast
      have s: "dip_start (Prim ''DIP'' as an) n (ts @ us) = Inr ()" "n \<le> length ts" using dip_start_more [OF i(2), of us] by blast+
      have "functionTypeInternal L ctx c (drop n ts @ us) = Inr (with_frame us body)"
        using less.IH [OF _ i(3) dip_checked [OF i(1)]] dip_args_esize [OF i(1)] d 3 Prim by blast
      moreover have "drop n (ts @ us) = drop n ts @ us" "take n (ts @ us) = take n ts" using s(2) by simp_all
      moreover have "on_stack (with_frame us body) (\<lambda>s. Inr (Stack (take n ts @ s))) = Inr (with_frame us ret)"
        using i(4) by (cases body) (auto simp: on_stack_def)
      ultimately show ?thesis unfolding Prim 3 checked_dip using i(1) s(1) by metis
    next
      case 4
      obtain ia s secs x where c: "create_start (Prim ''CREATE_CONTRACT'' as an) ts = Inr (ia, s)"
          "bindR (inst_arg (Prim ''CREATE_CONTRACT'' as an) 0) code_list = Inr secs" "assertContractValid L None secs = Inr x"
          "create_end (Prim ''CREATE_CONTRACT'' as an) ia s secs ts = Inr ret"
        using ft unfolding 4 checked_Create by blast
      then show ?thesis unfolding Prim 4 checked_Create
        using followsD [OF create_start_more c(1), of us] create_end_more [OF c(4), of us] by metis
    next
      case 5
      then show ?thesis using ft unfolding Prim 5 checked_Push by auto
    next
      case 6
      then show ?thesis using ft lambda_end_more [where us = us] unfolding Prim checked_Lambda [OF 6] by meson
    next
      case 7
      note eq = checked_Other [OF 7]
      show ?thesis
      proof (cases "p = ''FAILWITH'' \<or> p = ''NEVER''")
        case True
        then show ?thesis using ft followsD [OF fail_more, of ctx _ p ts ret us] unfolding Prim eq by auto
      next
        case False
        have "p \<noteq> ''DUG''" "p = ''EMIT'' \<longrightarrow> as \<noteq> None" using d by simp_all
        then show ?thesis using ft False effect_more [of p as ts ctx "Prim p as an" ret us] unfolding Prim eq by auto
      qed
    qed
  qed (use less.prems(1) in \<open>subst (asm) functionTypeInternal.simps, simp\<close>)+
qed

text \<open>The exported function also checks the types it is given.\<close>

lemma functionType_frame:
  assumes "functionType L ctx e ts = Inr ret" and "depth_checked e" and "assertStacksEqual us us = Inr ()"
    and "eachR (\<lambda>t. assertTypeAnnotationsValid t False) us = Inr ()"
  shows "functionType L ctx e (ts @ us) = Inr (with_frame us ret)"
proof -
  have "eachR f (xs @ ys) = bindR (eachR f xs) (\<lambda>_. eachR f ys)" for f :: "mtype \<Rightarrow> unit tc" and xs ys
    by (induction xs) (simp_all add: bindR_assoc)
  then show ?thesis using assms code_frame [OF assms(3)] by (auto simp: functionType_def bindR_eq_Inr)
qed

text \<open>What \<open>DUG\<close> does on a stack that is too short: the top goes to the bottom.\<close>

lemma dug_too_deep:
  assumes "inst_nat (Some [IntLit t]) 0 = Inr n" and "length ts \<le> n"
  shows "functionTypeInternal L ctx (Prim ''DUG'' (Some [IntLit t]) None) (x # ts) = Inr (Stack (ts @ [x]))"
proof -
  have "instructionAnn (Prim ''DUG'' (Some [IntLit t]) None) (limits 0 0 0) False False = Inr \<lparr>ann_f = None, ann_t = None, ann_v = None\<rparr>"
    by code_simp
  then show ?thesis using assms
    by (simp add: checked_Other in_list_def simple_inst_def stack_inst_def apply_effect_def args1_def stackArgs_def)
qed

end
