(* ===== verification/JsValue.thy ===== *)
theory JsValue
  imports PackData JsDate TezosPrefix
begin

text \<open>
  The JavaScript values that \<open>taquito-michelson-encoder\<close> reads and builds, and the parts of
  the language it uses on them: property access, \<open>Object.keys\<close>, spread, conversions to text and
  number, strict comparison, \<open>sort\<close> and \<open>JSON.stringify\<close>.  \<open>bignumber.js\<close> and
  \<open>fast-json-stable-stringify\<close> are parameters.  An object has the properties of its own; what it
  inherits is not in the model, and where a conversion depends on more than the model has the
  result is the error \<open>Unmodelled\<close>.
\<close>

section \<open>Values\<close>

text \<open>
  Numbers are the integral ones and NaN.  A BigNumber is the text its \<open>toFixed\<close> prints
  (\<open>NaN\<close> for the one that is none).  \<open>JsSym\<close> is the symbol \<open>UnitValue\<close>.  An object lists its
  properties in the order they were added.  A \<open>MichelsonMap\<close> lists its entries, and has the types
  of its keys and values when it was given a type.
\<close>

datatype (plugins only: size code) jsval =
    JsUndefined
  | JsNull
  | JsBool bool
  | JsNum int
  | JsNaN
  | JsStr string
  | JsSym
  | JsBig string
  | JsU8 "byte list"
  | JsArr "jsval list"
  | JsObj "(string \<times> jsval) list"
  | JsMap "(jsval \<times> jsval) list" "(expr \<times> expr) option"

text \<open>
  What the encoder throws: \<open>ValidationError\<close> is a subclass of \<open>TokenValidationError\<close>, by its name;
  \<open>UtilError\<close> an exception of \<open>taquito-utils\<close>.
\<close>

datatype (plugins only: size code) enc_error =
    ValidationError string jsval
  | InvalidTokenError
  | TokenArgumentValidationError
  | TokenComparisonError jsval jsval
  | OrTokenDecodingError jsval
  | EncodeTicketError
  | EncodeTicketDeprecatedError
  | InvalidMapTypeError
  | MapTypecheckError jsval string
  | InvalidRpcResponseError
  | InvalidScriptError
  | InvalidBigMapSchema
  | InvalidBigMapDiff
  | MissingArgumentError
  | BigMapEncodingError enc_error
  | StorageEncodingError enc_error
  | ParameterEncodingError enc_error
  | ViewEncodingError string enc_error
  | JsTypeError string
  | JsRangeError
  | UtilError js_error
  | Unmodelled

type_synonym 'a enc = "enc_error + 'a"

definition from_utils :: "'a res \<Rightarrow> 'a enc" where
  "from_utils m = (case m of Inl e \<Rightarrow> Inl (UtilError e) | Inr x \<Rightarrow> Inr x)"

text \<open>
  The parameters: \<open>big_number\<close> is \<open>new BigNumber(value).toFixed()\<close>, \<open>big_string\<close> takes such a text
  to what \<open>toString\<close> prints, \<open>stringify\<close> is \<open>fast-json-stable-stringify\<close>.
\<close>

record enc_libs =
  utils :: libs
  big_number :: "jsval \<Rightarrow> string"
  big_string :: "string \<Rightarrow> string"
  stringify :: "jsval \<Rightarrow> string"

fun truthy :: "jsval \<Rightarrow> bool" where
  "truthy JsUndefined = False"
| "truthy JsNull = False"
| "truthy (JsBool b) = b"
| "truthy (JsNum n) = (n \<noteq> 0)"
| "truthy JsNaN = False"
| "truthy (JsStr s) = (s \<noteq> [])"
| "truthy _ = True"

definition nullish :: "jsval \<Rightarrow> bool" where
  "nullish v = (v = JsUndefined \<or> v = JsNull)"

text \<open>A size under which what is read out of a value is not larger.\<close>

function vsize :: "jsval \<Rightarrow> nat" where
  "vsize (JsArr xs) = 1 + sum_list (map (\<lambda>x. vsize x + 1) xs)"
| "vsize (JsObj ps) = 1 + sum_list (map (\<lambda>p. vsize (snd p) + 1) ps)"
| "vsize (JsMap es sch) = 1 + sum_list (map (\<lambda>e. vsize (fst e) + vsize (snd e)) es)"
| "vsize JsUndefined = 1" | "vsize JsNull = 1" | "vsize (JsBool b) = 1" | "vsize (JsNum n) = 1"
| "vsize JsNaN = 1" | "vsize (JsStr s) = 1" | "vsize JsSym = 1" | "vsize (JsBig s) = 1" | "vsize (JsU8 bs) = 2"
  by (auto, metis jsval.exhaust)
termination
  by (relation "measure size") (auto simp: size_list_estimation' less_Suc_eq_le intro: size_list_estimation')

lemma vsize_elem: "x \<in> set xs \<Longrightarrow> vsize x \<le> (\<Sum>x\<leftarrow>xs. Suc (vsize x))"
  using member_le_sum_list [of "Suc (vsize x)" "map (\<lambda>x. Suc (vsize x)) xs"] by auto

lemma vsize_prop: "(k, x) \<in> set ps \<Longrightarrow> vsize x \<le> (\<Sum>p\<leftarrow>ps. Suc (vsize (snd p)))"
  using member_le_sum_list [of "Suc (vsize x)" "map (\<lambda>p. Suc (vsize (snd p))) ps"] by force

lemma vsize_pos: "1 \<le> vsize v"
  by (cases v) simp_all

section \<open>Properties\<close>

text \<open>Names that are array indices, which \<open>Object.keys\<close> lists first and in order.\<close>

definition is_index :: "string \<Rightarrow> bool" where
  "is_index s = (s \<noteq> [] \<and> list_all is_digit s \<and> (hd s \<noteq> CHR ''0'' \<or> length s = 1) \<and> int (of_digits 10 s) < 4294967295)"

definition js_keys_of :: "string list \<Rightarrow> string list" where
  "js_keys_of ks = sort_key (of_digits 10) (filter is_index ks) @ filter (\<lambda>k. \<not> is_index k) ks"

definition index_names :: "nat \<Rightarrow> string list" where
  "index_names n = map (digits 10) [0..<n]"

text \<open>\<open>Object.keys(value)\<close>; the internals of the library classes are not in the model.\<close>

definition js_keys :: "jsval \<Rightarrow> string list enc" where
  "js_keys v =
     (case v of
        JsUndefined \<Rightarrow> Inl (JsTypeError ''undefined to object'')
      | JsNull \<Rightarrow> Inl (JsTypeError ''null to object'')
      | JsObj ps \<Rightarrow> Inr (js_keys_of (map fst ps))
      | JsArr xs \<Rightarrow> Inr (index_names (length xs))
      | JsU8 bs \<Rightarrow> Inr (index_names (length bs))
      | JsStr s \<Rightarrow> Inr (index_names (js_length s))
      | JsBig s \<Rightarrow> Inl Unmodelled
      | JsMap es sch \<Rightarrow> Inl Unmodelled
      | _ \<Rightarrow> Inr [])"

text \<open>\<open>value[name]\<close>.\<close>

definition js_get :: "jsval \<Rightarrow> string \<Rightarrow> jsval enc" where
  "js_get v k =
     (case v of
        JsUndefined \<Rightarrow> Inl (JsTypeError k)
      | JsNull \<Rightarrow> Inl (JsTypeError k)
      | JsObj ps \<Rightarrow> Inr (case map_of ps k of Some x \<Rightarrow> x | None \<Rightarrow> JsUndefined)
      | JsArr xs \<Rightarrow>
          Inr (if is_index k \<and> of_digits 10 k < length xs then xs ! of_digits 10 k
               else if k = ''length'' then JsNum (int (length xs)) else JsUndefined)
      | JsU8 bs \<Rightarrow>
          Inr (if is_index k \<and> of_digits 10 k < length bs then JsNum (uint (bs ! of_digits 10 k))
               else if k = ''length'' then JsNum (int (length bs)) else JsUndefined)
      | JsStr s \<Rightarrow>
          if k = ''length'' then Inr (JsNum (int (js_length s)))
          else if \<not> is_index k then Inr JsUndefined
          else if \<not> ascii s then Inl Unmodelled
          else Inr (if of_digits 10 k < length s then JsStr [s ! of_digits 10 k] else JsUndefined)
      | _ \<Rightarrow> Inr JsUndefined)"

text \<open>\<open>value[i]\<close> of an index, a chain of two, and the first property, \<open>val[Object.keys(val)[0]]\<close>.\<close>

definition js_at :: "jsval \<Rightarrow> nat \<Rightarrow> jsval enc" where
  "js_at v i = js_get v (digits 10 i)"

definition js_arg :: "jsval \<Rightarrow> nat \<Rightarrow> jsval enc" where
  "js_arg v i = bindR (js_get v ''args'') (\<lambda>a. js_at a i)"

definition js_first :: "jsval \<Rightarrow> jsval enc" where
  "js_first v = bindR (js_keys v) (\<lambda>ks. js_get v (case ks of [] \<Rightarrow> ''undefined'' | k # _ \<Rightarrow> k))"

text \<open>\<open>name in value\<close>.\<close>

definition js_has :: "jsval \<Rightarrow> string \<Rightarrow> bool enc" where
  "js_has v k =
     (case v of
        JsObj ps \<Rightarrow> Inr (map_of ps k \<noteq> None)
      | JsArr xs \<Rightarrow> Inr (k = ''length'' \<or> is_index k \<and> of_digits 10 k < length xs)
      | JsU8 xs \<Rightarrow> Inr (k = ''length'' \<or> is_index k \<and> of_digits 10 k < length xs)
      | JsBig s \<Rightarrow> Inl Unmodelled
      | JsMap es sch \<Rightarrow> Inl Unmodelled
      | _ \<Rightarrow> Inl (JsTypeError k))"

definition is_object_type :: "jsval \<Rightarrow> bool" where
  "is_object_type v =
     (case v of JsNull \<Rightarrow> True | JsBig _ \<Rightarrow> True | JsU8 _ \<Rightarrow> True | JsArr _ \<Rightarrow> True | JsObj _ \<Rightarrow> True | JsMap _ _ \<Rightarrow> True
      | _ \<Rightarrow> False)"

text \<open>\<open>{...left, ...right}\<close> of two objects: a name that is there keeps its place.\<close>

fun put_prop :: "(string \<times> 'a) list \<Rightarrow> string \<Rightarrow> 'a \<Rightarrow> (string \<times> 'a) list" where
  "put_prop [] k v = [(k, v)]"
| "put_prop (p # ps) k v = (if fst p = k then (k, v) # ps else p # put_prop ps k v)"

definition spread :: "(string \<times> 'a) list \<Rightarrow> (string \<times> 'a) list \<Rightarrow> (string \<times> 'a) list" where
  "spread l r = foldl (\<lambda>ps (k, v). put_prop ps k v) l r"

definition obj_props :: "jsval \<Rightarrow> (string \<times> jsval) list enc" where
  "obj_props v = (case v of JsObj ps \<Rightarrow> Inr ps | JsNull \<Rightarrow> Inr [] | JsUndefined \<Rightarrow> Inr [] | JsNum _ \<Rightarrow> Inr []
     | JsBool _ \<Rightarrow> Inr [] | JsNaN \<Rightarrow> Inr [] | JsSym \<Rightarrow> Inr [] | _ \<Rightarrow> Inl Unmodelled)"

definition js_spread :: "jsval \<Rightarrow> jsval \<Rightarrow> jsval enc" where
  "js_spread l r = bindR (obj_props l) (\<lambda>a. bindR (obj_props r) (\<lambda>b. Inr (JsObj (spread (spread [] a) b))))"

section \<open>Conversions\<close>

text \<open>\<open>String(value)\<close>; numbers are below 10 to the 21, where they print in full.\<close>

function js_String :: "enc_libs \<Rightarrow> jsval \<Rightarrow> string" where
  "js_String E (JsArr xs) = joinWith '','' (map (\<lambda>x. if nullish x then [] else js_String E x) xs)"
| "js_String E JsUndefined = ''undefined''"
| "js_String E JsNull = ''null''"
| "js_String E (JsBool b) = (if b then ''true'' else ''false'')"
| "js_String E (JsNum n) = js_number_text n"
| "js_String E JsNaN = ''NaN''"
| "js_String E (JsStr s) = s"
| "js_String E JsSym = ''Symbol()''"
| "js_String E (JsBig s) = big_string E s"
| "js_String E (JsU8 bs) = joinWith '','' (map (\<lambda>b. digits 10 (unat b)) bs)"
| "js_String E (JsObj ps) = ''[object Object]''"
| "js_String E (JsMap es sch) = ''[object Object]''"
  by (auto, metis jsval.exhaust)
termination
  by (relation "measure (\<lambda>(E, v). size v)") (auto simp: less_Suc_eq_le intro: size_list_estimation')

text \<open>\<open>Number(text)\<close>: a decimal integer is rounded; a text no numeral can have is NaN.\<close>

definition js_trim_text :: "string \<Rightarrow> string" where
  "js_trim_text s = rev (dropWhile is_space (rev (dropWhile is_space s)))"

definition Number_text :: "string \<Rightarrow> int option enc" where
  "Number_text s =
     (let t = js_trim_text s; u = (if t \<noteq> [] \<and> hd t = CHR ''+'' \<and> hd (tl t @ ''+'') \<noteq> CHR ''-'' then tl t else t) in
      if t = [] then Inr (Some 0)
      else case dec_to_int u of
        Some i \<Rightarrow> Inr (Some (to_double i))
      | None \<Rightarrow> if list_all (\<lambda>c. is_hex c \<or> c \<in> set ''+-.xXoOInfity'') t then Inl Unmodelled else Inr None)"

text \<open>\<open>Number(value)\<close>, \<open>None\<close> for NaN.\<close>

definition js_Number :: "enc_libs \<Rightarrow> jsval \<Rightarrow> int option enc" where
  "js_Number E v =
     (case v of
        JsUndefined \<Rightarrow> Inr None
      | JsNull \<Rightarrow> Inr (Some 0)
      | JsBool b \<Rightarrow> Inr (Some (if b then 1 else 0))
      | JsNum n \<Rightarrow> Inr (Some n)
      | JsNaN \<Rightarrow> Inr None
      | JsStr s \<Rightarrow> Number_text s
      | JsSym \<Rightarrow> Inl (JsTypeError ''symbol to number'')
      | JsBig s \<Rightarrow> Number_text s
      | JsU8 bs \<Rightarrow> Number_text (js_String E v)
      | JsArr xs \<Rightarrow> Number_text (js_String E v)
      | JsObj ps \<Rightarrow> Inr None
      | JsMap es sch \<Rightarrow> Inr None)"

text \<open>\<open>a < b\<close> of texts, by code units.\<close>

fun str_less :: "string \<Rightarrow> string \<Rightarrow> bool" where
  "str_less xs [] = False"
| "str_less [] (y # ys) = True"
| "str_less (x # xs) (y # ys) =
     (if x = y then str_less xs ys else (of_char x :: nat) < of_char y)"

text \<open>\<open>/^[0-9a-fA-F]*$/.test(value) && value.length % 2 === 0\<close>.\<close>

definition even_length :: "jsval \<Rightarrow> bool enc" where
  "even_length v = bindR (js_get v ''length'') (\<lambda>n. Inr (case n of JsNum k \<Rightarrow> even k | _ \<Rightarrow> False))"

definition hex_valid :: "enc_libs \<Rightarrow> jsval \<Rightarrow> bool enc" where
  "hex_valid E v =
     (if v = JsSym then Inl (JsTypeError ''symbol to string'')
      else if list_all is_hex (js_String E v) then even_length v else Inr False)"

text \<open>Arguments that the callee takes as a text.\<close>

definition with_text :: "jsval \<Rightarrow> (string \<Rightarrow> 'a enc) \<Rightarrow> 'a enc" where
  "with_text v f = (case v of JsStr s \<Rightarrow> f s | _ \<Rightarrow> Inl (JsTypeError ''not a string''))"

definition opt_text :: "string option \<Rightarrow> jsval" where
  "opt_text s = (case s of Some x \<Rightarrow> JsStr x | None \<Rightarrow> JsUndefined)"

section \<open>Sorting\<close>

text \<open>
  \<open>xs.sort(compare)\<close>: stable, the comparator may throw or return \<open>undefined\<close> (\<open>None\<close>, which
  counts as 0), and elements that are \<open>undefined\<close> come last without being compared.
\<close>

fun insR :: "('a \<Rightarrow> 'a \<Rightarrow> int option enc) \<Rightarrow> 'a \<Rightarrow> 'a list \<Rightarrow> 'a list enc" where
  "insR c x [] = Inr [x]"
| "insR c x (y # ys) =
     bindR (c x y) (\<lambda>r. if (case r of Some n \<Rightarrow> n \<le> 0 | None \<Rightarrow> True) then Inr (x # y # ys)
                        else bindR (insR c x ys) (\<lambda>zs. Inr (y # zs)))"

fun sortR :: "('a \<Rightarrow> 'a \<Rightarrow> int option enc) \<Rightarrow> 'a list \<Rightarrow> 'a list enc" where
  "sortR c [] = Inr []"
| "sortR c (x # xs) = bindR (sortR c xs) (insR c x)"

definition js_sort :: "(jsval \<Rightarrow> jsval \<Rightarrow> int option enc) \<Rightarrow> jsval list \<Rightarrow> jsval list enc" where
  "js_sort c xs = bindR (sortR c (filter (\<lambda>x. x \<noteq> JsUndefined) xs))
     (\<lambda>ys. Inr (ys @ filter (\<lambda>x. x = JsUndefined) xs))"

section \<open>JSON text\<close>

definition json_char :: "char \<Rightarrow> string" where
  "json_char c = (let n = of_char c :: nat in
     if c = CHR 0x22 then [CHR 0x5C, CHR 0x22] else if c = CHR 0x5C then [CHR 0x5C, CHR 0x5C]
     else if n = 8 then CHR 0x5C # ''b'' else if n = 9 then CHR 0x5C # ''t'' else if n = 10 then CHR 0x5C # ''n''
     else if n = 12 then CHR 0x5C # ''f'' else if n = 13 then CHR 0x5C # ''r''
     else if n < 32 then CHR 0x5C # ''u00'' @ [dig (n div 16), dig (n mod 16)] else [c])"

definition json_string :: "string \<Rightarrow> string" where
  "json_string s = CHR 0x22 # concat (map json_char s) @ [CHR 0x22]"

text \<open>\<open>JSON.stringify(value)\<close>, \<open>None\<close> for the values it leaves out; the properties in the order
  of \<open>Object.keys\<close>.  The types of a \<open>MichelsonMap\<close>, which encoded data does not hold, are left out.\<close>

definition in_key_order :: "(string \<times> 'a) list \<Rightarrow> (string \<times> 'a) list" where
  "in_key_order ps = sort_key (\<lambda>p. of_digits 10 (fst p)) (filter (\<lambda>p. is_index (fst p)) ps) @ filter (\<lambda>p. \<not> is_index (fst p)) ps"

function json_text :: "enc_libs \<Rightarrow> jsval \<Rightarrow> string option" where
  "json_text E (JsArr xs) =
     Some (''['' @ joinWith '','' (map (\<lambda>x. case json_text E x of Some s \<Rightarrow> s | None \<Rightarrow> ''null'') xs) @ '']'')"
| "json_text E (JsObj ps) =
     Some (''{'' @ joinWith '','' (concat (map (\<lambda>p. case snd p of Some s \<Rightarrow> [json_string (fst p) @ '':'' @ s] | None \<Rightarrow> [])
        (in_key_order (map (\<lambda>p. (fst p, json_text E (snd p))) ps)))) @ ''}'')"
| "json_text E JsUndefined = None"
| "json_text E JsSym = None"
| "json_text E JsNull = Some ''null''"
| "json_text E JsNaN = Some ''null''"
| "json_text E (JsBool b) = Some (if b then ''true'' else ''false'')"
| "json_text E (JsNum n) = Some (js_number_text n)"
| "json_text E (JsStr s) = Some (json_string s)"
| "json_text E (JsBig s) = Some (json_string (big_string E s))"
| "json_text E (JsU8 bs) = Some (''{'' @ joinWith '',''
     (map (\<lambda>(i, b). json_string (digits 10 i) @ '':'' @ digits 10 (unat b)) (enumerate 0 bs)) @ ''}'')"
| "json_text E (JsMap es sch) = Some (''{'' @ json_string ''valueMap'' @ '':{},'' @ json_string ''keyMap'' @ '':{}}'')"
  by (auto, metis jsval.exhaust)
termination
  by (relation "measure (\<lambda>(E, v). vsize v)") (auto simp: less_Suc_eq_le dest: vsize_elem vsize_prop)

end
