(* ===== verification/Tokens.thy ===== *)
theory Tokens
  imports JsValue
begin

text \<open>
  The token classes of \<open>taquito-michelson-encoder\<close> (\<open>tokens/\<close>): \<open>createToken\<close>, the names of the
  fields and branches, and the operations that read a type only, \<open>ExtractSchema\<close>,
  \<open>generateSchema\<close>, \<open>ExtractSignature\<close> and \<open>findAndReturnTokens\<close>.  The operations of a composite
  class are definitions of their own that take the operation on the tokens below as an argument;
  the congruence rule of each says that these are smaller.
\<close>

section \<open>Classes and tokens\<close>

datatype (plugins only: size code) token_class =
    PairToken | NatToken | StringToken | BigMapToken | AddressToken | TxRollupL2AddressToken | MapToken
  | BoolToken | OrToken | ContractToken | ListToken | MutezToken | BytesToken | OptionToken | TimestampToken
  | IntToken | UnitToken | KeyToken | KeyHashToken | SignatureToken | LambdaToken | OperationToken | SetToken
  | ChainIDToken | TicketToken | TicketDeprecatedToken | NeverToken | SaplingStateToken
  | SaplingTransactionToken | SaplingTransactionDeprecatedToken | Bls12381frToken | Bls12381g1Token
  | Bls12381g2Token | ChestToken | ChestKeyToken | GlobalConstantToken

definition tokens :: "(string \<times> token_class) list" where
  "tokens = [(''pair'', PairToken), (''nat'', NatToken), (''string'', StringToken), (''big_map'', BigMapToken),
     (''address'', AddressToken), (''tx_rollup_l2_address'', TxRollupL2AddressToken), (''map'', MapToken),
     (''bool'', BoolToken), (''or'', OrToken), (''contract'', ContractToken), (''list'', ListToken),
     (''mutez'', MutezToken), (''bytes'', BytesToken), (''option'', OptionToken), (''timestamp'', TimestampToken),
     (''int'', IntToken), (''unit'', UnitToken), (''key'', KeyToken), (''key_hash'', KeyHashToken),
     (''signature'', SignatureToken), (''lambda'', LambdaToken), (''operation'', OperationToken), (''set'', SetToken),
     (''chain_id'', ChainIDToken), (''ticket'', TicketToken), (''ticket_deprecated'', TicketDeprecatedToken),
     (''never'', NeverToken), (''sapling_state'', SaplingStateToken),
     (''sapling_transaction'', SaplingTransactionToken),
     (''sapling_transaction_deprecated'', SaplingTransactionDeprecatedToken), (''bls12_381_fr'', Bls12381frToken),
     (''bls12_381_g1'', Bls12381g1Token), (''bls12_381_g2'', Bls12381g2Token), (''chest'', ChestToken),
     (''chest_key'', ChestKeyToken), (''constant'', GlobalConstantToken)]"

text \<open>The static field \<open>prim\<close> of a class.\<close>

definition class_prim :: "token_class \<Rightarrow> string" where
  "class_prim c = (case find (\<lambda>x. snd x = c) tokens of Some x \<Rightarrow> fst x | None \<Rightarrow> [])"

text \<open>The classes that extend \<open>ComparableToken\<close>.\<close>

fun comparable :: "token_class \<Rightarrow> bool" where
  "comparable c \<longleftrightarrow> c \<in> {PairToken, NatToken, StringToken, AddressToken, TxRollupL2AddressToken, BoolToken, OrToken,
     MutezToken, BytesToken, OptionToken, TimestampToken, IntToken, UnitToken, KeyToken, KeyHashToken,
     SignatureToken, ChainIDToken}"

text \<open>A token: its class, \<open>val\<close> and \<open>idx\<close>.\<close>

record Token =
  tok_class :: token_class
  tok_val :: expr
  tok_idx :: nat

text \<open>\<open>createToken\<close>; a sequence is a pair, and its token's \<open>val\<close> is the primitive.\<close>

definition createToken :: "expr \<Rightarrow> nat \<Rightarrow> Token enc" where
  "createToken val idx =
     (case val of
        Seq xs \<Rightarrow> Inr \<lparr>tok_class = PairToken, tok_val = Prim ''pair'' (Some xs) None, tok_idx = idx\<rparr>
      | Prim p args an \<Rightarrow>
          (case map_of tokens p of
             Some c \<Rightarrow> Inr \<lparr>tok_class = c, tok_val = val, tok_idx = idx\<rparr>
           | None \<Rightarrow> Inl InvalidTokenError)
      | _ \<Rightarrow> Inl InvalidTokenError)"

text \<open>The measure of the recursions, and \<open>this.createToken(this.val.args[j], idx)\<close>.\<close>

definition tok_size :: "Token \<Rightarrow> nat" where
  "tok_size tk = esize (tok_val tk)"

definition tok_arg :: "Token \<Rightarrow> nat \<Rightarrow> expr enc" where
  "tok_arg tk j =
     (case type_args (tok_val tk) of
        Some xs \<Rightarrow> if j < length xs then Inr (xs ! j) else Inl (JsTypeError ''prim'')
      | None \<Rightarrow> Inl (JsTypeError ''args''))"

definition sub_token :: "Token \<Rightarrow> nat \<Rightarrow> nat \<Rightarrow> Token enc" where
  "sub_token tk j idx = bindR (tok_arg tk j) (\<lambda>x. createToken x idx)"

lemma createToken_size: "createToken val idx = Inr tk \<Longrightarrow> tok_size tk = esize val"
  by (auto simp: createToken_def tok_size_def split: expr.splits option.splits)

lemma tok_arg_size: "tok_arg tk j = Inr x \<Longrightarrow> esize x < tok_size tk"
  using sub_nodes_esize [of x "tok_val tk"]
  by (cases "tok_val tk" rule: sub_nodes.cases)
    (auto simp: tok_arg_def tok_size_def type_args_def split: option.splits if_splits)

lemma sub_token_size: "sub_token tk j idx = Inr k \<Longrightarrow> tok_size k < tok_size tk"
  by (auto simp: sub_token_def bindR_eq_Inr createToken_size dest: tok_arg_size)

lemma esize_elem: "x \<in> set xs \<Longrightarrow> esize x < Suc (\<Sum>x\<leftarrow>xs. Suc (esize x))"
  using sub_nodes_esize [of x "Seq xs"] by simp

section \<open>Names\<close>

definition annots_of :: "Token \<Rightarrow> string list option" where
  "annots_of tk = (case tok_val tk of Prim p args an \<Rightarrow> an | _ \<Rightarrow> None)"

definition hasAnnotations :: "Token \<Rightarrow> bool" where
  "hasAnnotations tk = (case annots_of tk of Some (a # as) \<Rightarrow> True | _ \<Rightarrow> False)"

text \<open>\<open>.replace(/(%|:)(_Liq_entry_)?/, '')\<close>.\<close>

fun strip_annot :: "string \<Rightarrow> string" where
  "strip_annot [] = []"
| "strip_annot (c # s) =
     (if c = CHR ''%'' \<or> c = CHR '':'' then (if startsWith s ''_Liq_entry_'' then drop 11 s else s)
      else c # strip_annot s)"

definition token_annot :: "Token \<Rightarrow> string" where
  "token_annot tk = strip_annot (case annots_of tk of Some (a # as) \<Rightarrow> a | _ \<Rightarrow> digits 10 (tok_idx tk))"

text \<open>\<open>annot()\<close>; an option without annotations has the name of its content.\<close>

function annot :: "Token \<Rightarrow> string enc" where
  "annot tk =
     (if tok_class tk = OptionToken \<and> annots_of tk = None then bindR (sub_token tk 0 (tok_idx tk)) (\<lambda>k. annot k)
      else Inr (token_annot tk))"
  by pat_completeness auto
termination
  by (relation "measure tok_size") (auto dest: sub_token_size)

declare annot.simps [simp del]

text \<open>\<open>typeWithoutAnnotations\<close>.\<close>

function withoutAnnotations :: "expr \<Rightarrow> expr" where
  "withoutAnnotations (Seq xs) = Seq (map withoutAnnotations xs)"
| "withoutAnnotations (Prim p (Some xs) an) = Prim p (Some (map withoutAnnotations xs)) None"
| "withoutAnnotations (Prim p None an) = Prim p None None"
| "withoutAnnotations (IntLit i) = IntLit i"
| "withoutAnnotations (StringLit s) = StringLit s"
| "withoutAnnotations (BytesLit b) = BytesLit b"
  by (auto, metis expr.exhaust option.exhaust)
termination
  by (relation "measure esize") (auto dest: esize_elem)

text \<open>A Michelson expression as the JavaScript object it is.\<close>

function js_of_expr :: "expr \<Rightarrow> jsval" where
  "js_of_expr (Seq xs) = JsArr (map js_of_expr xs)"
| "js_of_expr (Prim p (Some xs) None) = JsObj [(''prim'', JsStr p), (''args'', JsArr (map js_of_expr xs))]"
| "js_of_expr (Prim p (Some xs) (Some an)) =
     JsObj [(''prim'', JsStr p), (''args'', JsArr (map js_of_expr xs)), (''annots'', JsArr (map JsStr an))]"
| "js_of_expr (Prim p None None) = JsObj [(''prim'', JsStr p)]"
| "js_of_expr (Prim p None (Some an)) = JsObj [(''prim'', JsStr p), (''annots'', JsArr (map JsStr an))]"
| "js_of_expr (IntLit i) = JsObj [(''int'', JsStr i)]"
| "js_of_expr (StringLit s) = JsObj [(''string'', JsStr s)]"
| "js_of_expr (BytesLit b) = JsObj [(''bytes'', JsStr b)]"
  by (auto, metis expr.exhaust option.exhaust)
termination
  by (relation "measure esize") (auto dest: esize_elem)

section \<open>Pairs and unions\<close>

text \<open>\<open>collapse\<close> on a type: the two components of a pair, a longer one folded to the right.\<close>

definition pair_args :: "Token \<Rightarrow> (expr \<times> expr) enc" where
  "pair_args tk =
     (case type_args (tok_val tk) of
        None \<Rightarrow> Inl TokenArgumentValidationError
      | Some (a # b # c # xs) \<Rightarrow> Inr (a, Prim ''pair'' (Some (b # c # xs)) None)
      | Some [a, b] \<Rightarrow> Inr (a, b)
      | Some _ \<Rightarrow> Inl (JsTypeError ''prim''))"

lemma pair_args_size: "pair_args tk = Inr (a, b) \<Longrightarrow> esize a < tok_size tk \<and> esize b < tok_size tk"
  by (cases "tok_val tk" rule: sub_nodes.cases)
    (auto simp: pair_args_def tok_size_def type_args_def split: list.splits)

text \<open>\<open>Object.keys(schema).length\<close>.\<close>

definition key_count :: "jsval \<Rightarrow> nat enc" where
  "key_count s = bindR (js_keys s) (\<lambda>ks. Inr (length ks))"

definition inline_pair :: "Token \<Rightarrow> bool" where
  "inline_pair tk \<longleftrightarrow> tok_class tk = PairToken \<and> \<not> hasAnnotations tk"

definition inline_or :: "Token \<Rightarrow> bool" where
  "inline_or tk \<longleftrightarrow> tok_class tk = OrToken \<and> \<not> hasAnnotations tk"

text \<open>\<open>{ [token.annot()]: value }\<close> unless the token is inlined.\<close>

definition named :: "bool \<Rightarrow> Token \<Rightarrow> (Token \<Rightarrow> jsval enc) \<Rightarrow> jsval enc" where
  "named inline tk f =
     (if inline then f tk else bindR (annot tk) (\<lambda>a. bindR (f tk) (\<lambda>x. Inr (JsObj [(a, x)]))))"

text \<open>\<open>PairToken.traversal\<close>; \<open>schema\<close> is \<open>ExtractSchema\<close>, for the number of fields on the left.\<close>

definition pair_traversal :: "(Token \<Rightarrow> jsval enc) \<Rightarrow> (Token \<Rightarrow> jsval enc) \<Rightarrow> (Token \<Rightarrow> jsval enc) \<Rightarrow> Token \<Rightarrow> jsval enc" where
  "pair_traversal schema getLeft getRight tk =
     bindR (pair_args tk) (\<lambda>(a, b).
     bindR (createToken a (tok_idx tk)) (\<lambda>left.
     bindR (if tok_class left = PairToken then bindR (schema left) key_count else Inr 1) (\<lambda>keyCount.
     bindR (named (inline_pair left) left getLeft) (\<lambda>leftValue.
     bindR (createToken b (tok_idx tk + keyCount)) (\<lambda>right.
     bindR (named (inline_pair right) right getRight) (\<lambda>rightValue.
     js_spread leftValue rightValue))))))"

lemma pair_traversal_cong [fundef_cong]:
  assumes "tk = tk'"
    and "\<And>k. tok_size k < tok_size tk' \<Longrightarrow> s k = s' k"
    and "\<And>k. tok_size k < tok_size tk' \<Longrightarrow> f k = f' k"
    and "\<And>k. tok_size k < tok_size tk' \<Longrightarrow> g k = g' k"
  shows "pair_traversal s f g tk = pair_traversal s' f' g' tk'"
  unfolding pair_traversal_def assms(1) named_def
  by (intro bindR_cong refl if_cong; clarsimp; intro bindR_cong refl if_cong)
    (auto dest!: pair_args_size createToken_size intro!: assms(2-4) bindR_cong)

text \<open>\<open>OrToken.traversal\<close>: only a union without annotations is inlined and counted.\<close>

definition or_traversal ::
    "(Token \<Rightarrow> jsval enc) \<Rightarrow> (Token \<Rightarrow> jsval enc) \<Rightarrow> (Token \<Rightarrow> jsval enc) \<Rightarrow> (jsval \<Rightarrow> jsval \<Rightarrow> jsval enc) \<Rightarrow> Token \<Rightarrow> jsval enc" where
  "or_traversal schema getLeft getRight join tk =
     bindR (sub_token tk 0 (tok_idx tk)) (\<lambda>left.
     bindR (named (inline_or left) left getLeft) (\<lambda>leftValue.
     bindR (if inline_or left then bindR (schema left) key_count else Inr 1) (\<lambda>keyCount.
     bindR (sub_token tk 1 (tok_idx tk + keyCount)) (\<lambda>right.
     bindR (named (inline_or right) right getRight) (\<lambda>rightValue.
     join leftValue rightValue)))))"

lemma or_traversal_cong [fundef_cong]:
  assumes "tk = tk'"
    and "\<And>k. tok_size k < tok_size tk' \<Longrightarrow> s k = s' k"
    and "\<And>k. tok_size k < tok_size tk' \<Longrightarrow> f k = f' k"
    and "\<And>k. tok_size k < tok_size tk' \<Longrightarrow> g k = g' k"
    and "c = c'"
  shows "or_traversal s f g c tk = or_traversal s' f' g' c' tk'"
  unfolding or_traversal_def assms(1,5) named_def
  by (intro bindR_cong refl if_cong) (auto dest!: sub_token_size intro!: assms(2-4) bindR_cong)

section \<open>Schemas\<close>

text \<open>\<open>Number(this.val.args[0]['int'])\<close> of the sapling types.\<close>

definition memo_text :: "Token \<Rightarrow> jsval enc" where
  "memo_text tk = bindR (tok_arg tk 0) (\<lambda>x. Inr (case x of IntLit i \<Rightarrow> JsStr i | _ \<Rightarrow> JsUndefined))"

definition memo_number :: "Token \<Rightarrow> jsval enc" where
  "memo_number tk = bindR (memo_text tk) (\<lambda>t. case t of
     JsStr s \<Rightarrow> bindR (Number_text s) (\<lambda>n. Inr (case n of Some i \<Rightarrow> JsNum i | None \<Rightarrow> JsNaN))
   | _ \<Rightarrow> Inr JsNaN)"

definition sapling_ExtractSchema :: "Token \<Rightarrow> jsval enc" where
  "sapling_ExtractSchema tk =
     bindR (memo_number tk) (\<lambda>n. Inr (JsObj [(class_prim (tok_class tk), JsObj [(''memo-size'', n)])]))"

function ExtractSchema :: "Token \<Rightarrow> jsval enc" where
  "ExtractSchema tk =
     (let prim = class_prim (tok_class tk) in
      case tok_class tk of
        PairToken \<Rightarrow> pair_traversal (\<lambda>k. ExtractSchema k) (\<lambda>k. ExtractSchema k) (\<lambda>k. ExtractSchema k) tk
      | OrToken \<Rightarrow> or_traversal (\<lambda>k. ExtractSchema k) (\<lambda>k. ExtractSchema k) (\<lambda>k. ExtractSchema k) js_spread tk
      | OptionToken \<Rightarrow> bindR (sub_token tk 0 0) (\<lambda>k. ExtractSchema k)
      | ListToken \<Rightarrow> bindR (sub_token tk 0 (tok_idx tk)) (\<lambda>k. bindR (ExtractSchema k) (\<lambda>s. Inr (JsObj [(prim, s)])))
      | MapToken \<Rightarrow>
          bindR (bindR (sub_token tk 0 0) (\<lambda>k. ExtractSchema k)) (\<lambda>ks.
          bindR (bindR (sub_token tk 1 0) (\<lambda>v. ExtractSchema v)) (\<lambda>vs.
          Inr (JsObj [(prim, JsObj [(''key'', ks), (''value'', vs)])])))
      | BigMapToken \<Rightarrow>
          bindR (bindR (sub_token tk 0 0) (\<lambda>k. ExtractSchema k)) (\<lambda>ks.
          bindR (bindR (sub_token tk 1 0) (\<lambda>v. ExtractSchema v)) (\<lambda>vs.
          Inr (JsObj [(prim, JsObj [(''key'', ks), (''value'', vs)])])))
      | LambdaToken \<Rightarrow>
          bindR (bindR (sub_token tk 0 (tok_idx tk)) (\<lambda>k. ExtractSchema k)) (\<lambda>ps.
          bindR (bindR (sub_token tk 1 (tok_idx tk + 1)) (\<lambda>v. ExtractSchema v)) (\<lambda>rs.
          Inr (JsObj [(prim, JsObj [(''parameters'', ps), (''returns'', rs)])])))
      | TicketToken \<Rightarrow>
          bindR (bindR (sub_token tk 0 (tok_idx tk)) (\<lambda>k. ExtractSchema k)) (\<lambda>s.
          Inr (JsObj [(''ticketer'', JsStr ''contract''), (''value'', s), (''amount'', JsStr ''int'')]))
      | TicketDeprecatedToken \<Rightarrow>
          bindR (bindR (sub_token tk 0 (tok_idx tk)) (\<lambda>k. ExtractSchema k)) (\<lambda>s.
          Inr (JsObj [(''ticketer'', JsStr ''contract''), (''value'', s), (''amount'', JsStr ''int'')]))
      | SaplingStateToken \<Rightarrow> sapling_ExtractSchema tk
      | SaplingTransactionToken \<Rightarrow> sapling_ExtractSchema tk
      | SaplingTransactionDeprecatedToken \<Rightarrow> sapling_ExtractSchema tk
      | _ \<Rightarrow> Inr (JsStr prim))"
  by pat_completeness auto
termination
  by (relation "measure tok_size") (auto dest: sub_token_size)

declare ExtractSchema.simps [simp del]

text \<open>The \<open>generateSchema\<close> of the classes without tokens below.\<close>

definition base_schema :: "string \<Rightarrow> jsval \<Rightarrow> jsval" where
  "base_schema prim s = JsObj [(''__michelsonType'', JsStr prim), (''schema'', s)]"

definition leaf_generateSchema :: "Token \<Rightarrow> jsval" where
  "leaf_generateSchema tk = base_schema (class_prim (tok_class tk)) (JsStr (class_prim (tok_class tk)))"

definition sapling_generateSchema :: "Token \<Rightarrow> jsval enc" where
  "sapling_generateSchema tk =
     bindR (memo_text tk) (\<lambda>m. Inr (base_schema (class_prim (tok_class tk)) (JsObj [(''memoSize'', m)])))"

definition constant_hash :: "Token \<Rightarrow> jsval enc" where
  "constant_hash tk = bindR (tok_arg tk 0) (\<lambda>x. Inr (case x of StringLit s \<Rightarrow> JsStr s | _ \<Rightarrow> JsUndefined))"

definition constant_generateSchema :: "Token \<Rightarrow> jsval enc" where
  "constant_generateSchema tk = bindR (constant_hash tk) (\<lambda>h. Inr (base_schema ''constant'' (JsObj [(''hash'', h)])))"

text \<open>The schema of a token below, of which an inlined one gives its fields.\<close>

definition inner_schema :: "bool \<Rightarrow> (Token \<Rightarrow> jsval enc) \<Rightarrow> Token \<Rightarrow> jsval enc" where
  "inner_schema inline gen k = bindR (gen k) (\<lambda>s. if inline then js_get s ''schema'' else Inr s)"

definition pair_generateSchema :: "(Token \<Rightarrow> jsval enc) \<Rightarrow> Token \<Rightarrow> jsval enc" where
  "pair_generateSchema gen tk =
     bindR (pair_traversal ExtractSchema (\<lambda>k. inner_schema (inline_pair k) gen k) (\<lambda>k. inner_schema (inline_pair k) gen k) tk)
       (\<lambda>s. Inr (base_schema ''pair'' s))"

lemma pair_generateSchema_cong [fundef_cong]:
  "tk = tk' \<Longrightarrow> (\<And>k. tok_size k < tok_size tk' \<Longrightarrow> g k = g' k) \<Longrightarrow> pair_generateSchema g tk = pair_generateSchema g' tk'"
  unfolding pair_generateSchema_def inner_schema_def
  by (intro bindR_cong pair_traversal_cong refl) simp_all

definition or_generateSchema :: "(Token \<Rightarrow> jsval enc) \<Rightarrow> Token \<Rightarrow> jsval enc" where
  "or_generateSchema gen tk =
     bindR (or_traversal ExtractSchema (\<lambda>k. inner_schema (inline_or k) gen k) (\<lambda>k. inner_schema (inline_or k) gen k) js_spread tk)
       (\<lambda>s. Inr (base_schema ''or'' s))"

lemma or_generateSchema_cong [fundef_cong]:
  "tk = tk' \<Longrightarrow> (\<And>k. tok_size k < tok_size tk' \<Longrightarrow> g k = g' k) \<Longrightarrow> or_generateSchema g tk = or_generateSchema g' tk'"
  unfolding or_generateSchema_def inner_schema_def
  by (intro bindR_cong or_traversal_cong refl) simp_all

function generateSchema :: "Token \<Rightarrow> jsval enc" where
  "generateSchema tk =
     (let prim = class_prim (tok_class tk) in
      case tok_class tk of
        PairToken \<Rightarrow> pair_generateSchema (\<lambda>k. generateSchema k) tk
      | OrToken \<Rightarrow> or_generateSchema (\<lambda>k. generateSchema k) tk
      | OptionToken \<Rightarrow> bindR (bindR (sub_token tk 0 0) (\<lambda>k. generateSchema k)) (\<lambda>s. Inr (base_schema prim s))
      | ListToken \<Rightarrow> bindR (bindR (sub_token tk 0 (tok_idx tk)) (\<lambda>k. generateSchema k)) (\<lambda>s. Inr (base_schema prim s))
      | SetToken \<Rightarrow> bindR (bindR (sub_token tk 0 0) (\<lambda>k. generateSchema k)) (\<lambda>s. Inr (base_schema prim s))
      | MapToken \<Rightarrow>
          bindR (bindR (sub_token tk 0 0) (\<lambda>k. generateSchema k)) (\<lambda>ks.
          bindR (bindR (sub_token tk 1 0) (\<lambda>v. generateSchema v)) (\<lambda>vs.
          Inr (base_schema prim (JsObj [(''key'', ks), (''value'', vs)]))))
      | BigMapToken \<Rightarrow>
          bindR (bindR (sub_token tk 0 0) (\<lambda>k. generateSchema k)) (\<lambda>ks.
          bindR (bindR (sub_token tk 1 0) (\<lambda>v. generateSchema v)) (\<lambda>vs.
          Inr (base_schema prim (JsObj [(''key'', ks), (''value'', vs)]))))
      | LambdaToken \<Rightarrow>
          bindR (bindR (sub_token tk 0 (tok_idx tk)) (\<lambda>k. generateSchema k)) (\<lambda>ps.
          bindR (bindR (sub_token tk 1 (tok_idx tk + 1)) (\<lambda>v. generateSchema v)) (\<lambda>rs.
          Inr (base_schema prim (JsObj [(''parameters'', ps), (''returns'', rs)]))))
      | TicketToken \<Rightarrow>
          bindR (bindR (sub_token tk 0 (tok_idx tk)) (\<lambda>k. generateSchema k)) (\<lambda>s.
          Inr (base_schema prim (JsObj [(''value'', s), (''ticketer'', base_schema ''contract'' (JsStr ''contract'')),
            (''amount'', base_schema ''int'' (JsStr ''int''))])))
      | TicketDeprecatedToken \<Rightarrow>
          bindR (bindR (sub_token tk 0 (tok_idx tk)) (\<lambda>k. generateSchema k)) (\<lambda>s.
          Inr (base_schema prim (JsObj [(''value'', s), (''ticketer'', base_schema ''contract'' (JsStr ''contract'')),
            (''amount'', base_schema ''int'' (JsStr ''int''))])))
      | ContractToken \<Rightarrow>
          bindR (bindR (sub_token tk 0 0) (\<lambda>k. generateSchema k)) (\<lambda>s.
          Inr (base_schema prim (JsObj [(''parameter'', s)])))
      | SaplingStateToken \<Rightarrow> sapling_generateSchema tk
      | SaplingTransactionToken \<Rightarrow> sapling_generateSchema tk
      | SaplingTransactionDeprecatedToken \<Rightarrow> sapling_generateSchema tk
      | GlobalConstantToken \<Rightarrow> constant_generateSchema tk
      | _ \<Rightarrow> Inr (leaf_generateSchema tk))"
  by pat_completeness auto
termination
  by (relation "measure tok_size") (auto dest: sub_token_size)

declare generateSchema.simps [simp del]

section \<open>Tokens below a pair or a union\<close>

text \<open>\<open>PairToken.tokens\<close>: the fields of a pair on the left count, whether it is inlined or not.\<close>

definition pair_tokens :: "Token \<Rightarrow> (Token \<times> Token) enc" where
  "pair_tokens tk =
     bindR (pair_args tk) (\<lambda>(a, b).
     bindR (createToken a (tok_idx tk)) (\<lambda>left.
     bindR (if tok_class left = PairToken then bindR (ExtractSchema left) key_count else Inr 1) (\<lambda>cnt.
     bindR (createToken b (tok_idx tk + cnt)) (\<lambda>right.
     bindR (if tok_class right = PairToken then bindR (ExtractSchema right) key_count else Inr 1) (\<lambda>_.
     Inr (left, right))))))"

text \<open>The two tokens of a union, as \<open>Encode\<close>, \<open>EncodeObject\<close>, \<open>Execute\<close>, \<open>findToken\<close> and
  \<open>ExtractSignature\<close> make them: a union on the left counts with or without annotations.\<close>

definition or_tokens :: "Token \<Rightarrow> (Token \<times> Token) enc" where
  "or_tokens tk =
     bindR (sub_token tk 0 (tok_idx tk)) (\<lambda>left.
     bindR (if tok_class left = OrToken then bindR (ExtractSchema left) key_count else Inr 1) (\<lambda>keyCount.
     bindR (sub_token tk 1 (tok_idx tk + keyCount)) (\<lambda>right.
     Inr (left, right))))"

lemma pair_tokens_size: "pair_tokens tk = Inr (l, r) \<Longrightarrow> tok_size l < tok_size tk \<and> tok_size r < tok_size tk"
  by (auto simp: pair_tokens_def bindR_eq_Inr createToken_size dest!: pair_args_size)

lemma or_tokens_size: "or_tokens tk = Inr (l, r) \<Longrightarrow> tok_size l < tok_size tk \<and> tok_size r < tok_size tk"
  by (auto simp: or_tokens_def bindR_eq_Inr dest: sub_token_size)

section \<open>Signatures\<close>

text \<open>\<open>PairToken.ExtractSignature\<close> counts the labels of a union on the left, and one for a pair.\<close>

definition pair_ExtractSignature :: "(Token \<Rightarrow> jsval list list enc) \<Rightarrow> Token \<Rightarrow> jsval list list enc" where
  "pair_ExtractSignature sig tk =
     bindR (pair_args tk) (\<lambda>(a, b).
     bindR (createToken a (tok_idx tk)) (\<lambda>left.
     bindR (if tok_class left = OrToken then bindR (ExtractSchema left) key_count else Inr 1) (\<lambda>keyCount.
     bindR (createToken b (tok_idx tk + keyCount)) (\<lambda>right.
     bindR (sig left) (\<lambda>ls.
     bindR (if ls = [] then Inr [] else sig right) (\<lambda>rs.
     Inr (concat (map (\<lambda>l. map (\<lambda>r. l @ r) rs) ls))))))))"

lemma pair_ExtractSignature_cong [fundef_cong]:
  "tk = tk' \<Longrightarrow> (\<And>k. tok_size k < tok_size tk' \<Longrightarrow> g k = g' k) \<Longrightarrow>
     pair_ExtractSignature g tk = pair_ExtractSignature g' tk'"
  unfolding pair_ExtractSignature_def
  by (simp, rule bindR_cong [OF refl]) (auto dest!: pair_args_size simp: createToken_size intro!: bindR_cong)

text \<open>\<open>OrToken.ExtractSignature\<close>: the label, unless the branch is a union itself.\<close>

definition labelled :: "(Token \<Rightarrow> jsval list list enc) \<Rightarrow> Token \<Rightarrow> jsval list list enc" where
  "labelled sig k =
     (if tok_class k = OrToken then sig k
      else bindR (sig k) (\<lambda>ss. if ss = [] then Inr [] else bindR (annot k) (\<lambda>a. Inr (map (\<lambda>s. JsStr a # s) ss))))"

definition or_ExtractSignature :: "(Token \<Rightarrow> jsval list list enc) \<Rightarrow> Token \<Rightarrow> jsval list list enc" where
  "or_ExtractSignature sig tk =
     bindR (or_tokens tk) (\<lambda>(left, right).
     bindR (labelled sig left) (\<lambda>ls. bindR (labelled sig right) (\<lambda>rs. Inr (ls @ rs))))"

lemma or_ExtractSignature_cong [fundef_cong]:
  "tk = tk' \<Longrightarrow> (\<And>k. tok_size k < tok_size tk' \<Longrightarrow> g k = g' k) \<Longrightarrow>
     or_ExtractSignature g tk = or_ExtractSignature g' tk'"
  unfolding or_ExtractSignature_def labelled_def
  by (simp, rule bindR_cong [OF refl]) (auto dest!: or_tokens_size intro!: bindR_cong)

function ExtractSignature :: "Token \<Rightarrow> jsval list list enc" where
  "ExtractSignature tk =
     (case tok_class tk of
        PairToken \<Rightarrow> pair_ExtractSignature (\<lambda>k. ExtractSignature k) tk
      | OrToken \<Rightarrow> or_ExtractSignature (\<lambda>k. ExtractSignature k) tk
      | OptionToken \<Rightarrow> bindR (bindR (sub_token tk 0 0) (\<lambda>k. ExtractSignature k)) (\<lambda>ss. Inr (ss @ [[]]))
      | _ \<Rightarrow> bindR (ExtractSchema tk) (\<lambda>s. Inr [[s]]))"
  by pat_completeness auto
termination
  by (relation "measure tok_size") (auto dest: sub_token_size)

declare ExtractSignature.simps [simp del]

section \<open>Looking for tokens\<close>

text \<open>\<open>OrToken.findAndReturnTokens\<close>, over the tokens of \<open>traversal\<close>.\<close>

definition or_find :: "(Token \<Rightarrow> Token list enc) \<Rightarrow> Token \<Rightarrow> Token list enc" where
  "or_find f tk =
     bindR (sub_token tk 0 (tok_idx tk)) (\<lambda>left.
     bindR (if inline_or left then Inr [] else annot left) (\<lambda>_.
     bindR (f left) (\<lambda>ls.
     bindR (if inline_or left then bindR (ExtractSchema left) key_count else Inr 1) (\<lambda>keyCount.
     bindR (sub_token tk 1 (tok_idx tk + keyCount)) (\<lambda>right.
     bindR (if inline_or right then Inr [] else annot right) (\<lambda>_.
     bindR (f right) (\<lambda>rs. Inr (ls @ rs))))))))"

lemma or_find_cong [fundef_cong]:
  "tk = tk' \<Longrightarrow> (\<And>k. tok_size k < tok_size tk' \<Longrightarrow> g k = g' k) \<Longrightarrow> or_find g tk = or_find g' tk'"
  unfolding or_find_def by (simp, intro bindR_cong refl) (auto dest!: sub_token_size)

text \<open>The tokens that \<open>findAndReturnTokens\<close> appends to its argument, in their order.\<close>

function findAndReturnTokens :: "string \<Rightarrow> Token \<Rightarrow> Token list enc" where
  "findAndReturnTokens p tk =
     (let here = (if class_prim (tok_class tk) = p then [tk] else []);
          one = (\<lambda>j i. bindR (sub_token tk j i) (\<lambda>k. findAndReturnTokens p k)) in
      case tok_class tk of
        PairToken \<Rightarrow>
          bindR (pair_tokens tk) (\<lambda>(l, r).
          bindR (findAndReturnTokens p l) (\<lambda>ls. bindR (findAndReturnTokens p r) (\<lambda>rs. Inr (here @ ls @ rs))))
      | OrToken \<Rightarrow> bindR (or_find (\<lambda>k. findAndReturnTokens p k) tk) (\<lambda>ts. Inr (here @ ts))
      | OptionToken \<Rightarrow> bindR (one 0 (tok_idx tk)) (\<lambda>ts. Inr (here @ ts))
      | ListToken \<Rightarrow> bindR (one 0 (tok_idx tk)) (\<lambda>ts. Inr (here @ ts))
      | SetToken \<Rightarrow> bindR (one 0 0) (\<lambda>ts. Inr (here @ ts))
      | MapToken \<Rightarrow> bindR (one 0 0) (\<lambda>ks. bindR (one 1 0) (\<lambda>vs. Inr (here @ ks @ vs)))
      | BigMapToken \<Rightarrow> bindR (one 0 0) (\<lambda>ks. bindR (one 1 0) (\<lambda>vs. Inr (here @ ks @ vs)))
      | LambdaToken \<Rightarrow> bindR (one 0 (tok_idx tk)) (\<lambda>ks. bindR (one 1 (tok_idx tk)) (\<lambda>vs. Inr (here @ ks @ vs)))
      | TicketToken \<Rightarrow> bindR (one 0 (tok_idx tk)) (\<lambda>ts. Inr (here @ ts))
      | TicketDeprecatedToken \<Rightarrow> bindR (one 0 (tok_idx tk)) (\<lambda>ts. Inr (here @ ts))
      | _ \<Rightarrow> Inr here)"
  by pat_completeness auto
termination
  by (relation "measure (\<lambda>(p, tk). tok_size tk)") (auto dest: sub_token_size pair_tokens_size)

declare findAndReturnTokens.simps [simp del]

end
