(* ===== verification/TokenLeaves.thy ===== *)
theory TokenLeaves
  imports Tokens
begin

text \<open>
  The token classes without tokens below them (\<open>tokens/\<close> and \<open>tokens/comparable/\<close>): the check of a
  value, \<open>EncodeObject\<close>, \<open>Execute\<close>, \<open>ToKey\<close>, \<open>ToBigMapKey\<close> and \<open>compare\<close> of each.  A semantics is
  a function per primitive that replaces the coding of its values.
\<close>

section \<open>Shared pieces\<close>

type_synonym semantics = "string \<Rightarrow> (jsval \<Rightarrow> expr option \<Rightarrow> jsval enc) option"

definition no_sem :: semantics where
  "no_sem p = None"

definition with_sem :: "semantics \<Rightarrow> string \<Rightarrow> jsval \<Rightarrow> expr option \<Rightarrow> jsval enc \<Rightarrow> jsval enc" where
  "with_sem sem p v t k = (case sem p of Some f \<Rightarrow> f v t | None \<Rightarrow> k)"

lemma with_sem_none [simp]: "with_sem no_sem p v t k = k"
  by (simp add: with_sem_def no_sem_def)

definition js_obj1 :: "string \<Rightarrow> jsval \<Rightarrow> jsval" where
  "js_obj1 k v = JsObj [(k, v)]"

definition js_prim0 :: "string \<Rightarrow> jsval" where
  "js_prim0 p = JsObj [(''prim'', JsStr p)]"

definition js_prim :: "string \<Rightarrow> jsval list \<Rightarrow> jsval" where
  "js_prim p xs = JsObj [(''prim'', JsStr p), (''args'', JsArr xs)]"

definition big_key :: "jsval \<Rightarrow> jsval \<Rightarrow> jsval" where
  "big_key k t = JsObj [(''key'', k), (''type'', t)]"

text \<open>\<open>this.isValid(value)\<close> and the exception it leads to.\<close>

definition require :: "bool \<Rightarrow> string \<Rightarrow> jsval \<Rightarrow> unit enc" where
  "require ok err v = (if ok then Inr () else Inl (ValidationError err v))"

lemma require_Inr [simp]: "require ok err v = Inr u \<longleftrightarrow> ok"
  by (simp add: require_def)

text \<open>\<open>compare\<close> of \<open>ComparableToken\<close>: \<open>===\<close> and \<open><\<close> on two texts or two numbers.\<close>

definition base_compare :: "jsval \<Rightarrow> jsval \<Rightarrow> int option enc" where
  "base_compare a b =
     (case (a, b) of
        (JsStr s, JsStr t) \<Rightarrow> Inr (Some (if s = t then 0 else if str_less s t then - 1 else 1))
      | (JsNum m, JsNum n) \<Rightarrow> Inr (Some (if m = n then 0 else if m < n then - 1 else 1))
      | _ \<Rightarrow> Inl Unmodelled)"

text \<open>\<open>Number(a)\<close> against \<open>Number(b)\<close>; NaN is not equal to and not below anything.\<close>

definition number_compare :: "enc_libs \<Rightarrow> jsval \<Rightarrow> jsval \<Rightarrow> int option enc" where
  "number_compare E a b =
     bindR (js_Number E a) (\<lambda>o1. bindR (js_Number E b) (\<lambda>o2.
       Inr (Some (case (o1, o2) of
           (Some m, Some n) \<Rightarrow> if m = n then 0 else if m < n then - 1 else 1
         | _ \<Rightarrow> 1))))"

section \<open>Numbers\<close>

definition big_toFixed :: "string \<Rightarrow> string" where
  "big_toFixed s = (if s = ''-0'' then ''0'' else s)"

definition int_isValid :: "enc_libs \<Rightarrow> jsval \<Rightarrow> unit enc" where
  "int_isValid E v = require (big_number E v \<noteq> ''NaN'') ''IntValidationError'' v"

definition int_EncodeObject :: "enc_libs \<Rightarrow> semantics \<Rightarrow> jsval \<Rightarrow> jsval enc" where
  "int_EncodeObject E sem v =
     bindR (int_isValid E v) (\<lambda>_. with_sem sem ''int'' v None (Inr (js_obj1 ''int'' (JsStr (big_toFixed (big_number E v))))))"

definition int_Execute :: "enc_libs \<Rightarrow> jsval \<Rightarrow> jsval enc" where
  "int_Execute E v = bindR (js_first v) (\<lambda>x. Inr (JsBig (big_number E x)))"

definition int_ToKey :: "jsval \<Rightarrow> jsval enc" where
  "int_ToKey v = js_get v ''int''"

definition int_ToBigMapKey :: "enc_libs \<Rightarrow> jsval \<Rightarrow> jsval enc" where
  "int_ToBigMapKey E v = Inr (big_key (js_obj1 ''int'' (JsStr (js_String E v))) (js_prim0 ''int''))"

definition nat_isValid :: "enc_libs \<Rightarrow> jsval \<Rightarrow> unit enc" where
  "nat_isValid E v =
     require (big_number E v \<noteq> ''NaN'' \<and> \<not> startsWith (big_number E v) ''-'') ''NatValidationError'' v"

definition nat_EncodeObject :: "enc_libs \<Rightarrow> semantics \<Rightarrow> jsval \<Rightarrow> jsval enc" where
  "nat_EncodeObject E sem v =
     bindR (nat_isValid E v) (\<lambda>_. with_sem sem ''nat'' v None (Inr (js_obj1 ''int'' (JsStr (big_toFixed (big_number E v))))))"

definition nat_Execute :: "enc_libs \<Rightarrow> jsval \<Rightarrow> jsval enc" where
  "nat_Execute E v = bindR (js_first v) (\<lambda>x. Inr (JsBig (big_number E x)))"

definition nat_ToKey :: "enc_libs \<Rightarrow> jsval \<Rightarrow> jsval enc" where
  "nat_ToKey E v = bindR (js_get v ''int'') (\<lambda>x. Inr (JsBig (big_number E x)))"

definition nat_ToBigMapKey :: "enc_libs \<Rightarrow> jsval \<Rightarrow> jsval enc" where
  "nat_ToBigMapKey E v = Inr (big_key (js_obj1 ''int'' (JsStr (js_String E v))) (js_prim0 ''nat''))"

definition mutez_isValid :: "enc_libs \<Rightarrow> jsval \<Rightarrow> unit enc" where
  "mutez_isValid E v = require (big_number E v \<noteq> ''NaN'') ''MutezValidationError'' v"

definition mutez_EncodeObject :: "enc_libs \<Rightarrow> semantics \<Rightarrow> jsval \<Rightarrow> jsval enc" where
  "mutez_EncodeObject E sem v =
     bindR (mutez_isValid E v) (\<lambda>_. with_sem sem ''mutez'' v None (Inr (js_obj1 ''int'' (JsStr (js_String E v)))))"

definition mutez_Execute :: "enc_libs \<Rightarrow> jsval \<Rightarrow> jsval enc" where
  "mutez_Execute E v = bindR (js_first v) (\<lambda>x. Inr (JsBig (big_number E x)))"

definition mutez_ToKey :: "jsval \<Rightarrow> jsval enc" where
  "mutez_ToKey v = js_get v ''int''"

definition mutez_ToBigMapKey :: "enc_libs \<Rightarrow> jsval \<Rightarrow> jsval enc" where
  "mutez_ToBigMapKey E v = Inr (big_key (js_obj1 ''int'' (JsStr (js_String E v))) (js_prim0 ''mutez''))"

section \<open>Text, booleans, unit\<close>

definition string_EncodeObject :: "semantics \<Rightarrow> jsval \<Rightarrow> jsval enc" where
  "string_EncodeObject sem v = with_sem sem ''string'' v None (Inr (js_obj1 ''string'' v))"

definition string_Execute :: "jsval \<Rightarrow> jsval enc" where
  "string_Execute v = js_first v"

definition string_ToKey :: "jsval \<Rightarrow> jsval enc" where
  "string_ToKey v = js_get v ''string''"

definition string_ToBigMapKey :: "jsval \<Rightarrow> jsval enc" where
  "string_ToBigMapKey v = Inr (big_key (js_obj1 ''string'' v) (js_prim0 ''string''))"

definition bool_EncodeObject :: "semantics \<Rightarrow> jsval \<Rightarrow> jsval enc" where
  "bool_EncodeObject sem v = with_sem sem ''bool'' v None (Inr (js_prim0 (if truthy v then ''True'' else ''False'')))"

definition bool_Execute :: "enc_libs \<Rightarrow> jsval \<Rightarrow> jsval enc" where
  "bool_Execute E v = bindR (js_get v ''prim'') (\<lambda>p. Inr (JsBool (toLowerCase (js_String E p) = ''true'')))"

definition bool_ToKey :: "jsval \<Rightarrow> jsval enc" where
  "bool_ToKey v = bool_EncodeObject no_sem v"

definition bool_ToBigMapKey :: "jsval \<Rightarrow> jsval enc" where
  "bool_ToBigMapKey v = bindR (bool_EncodeObject no_sem v) (\<lambda>k. Inr (big_key k (js_prim0 ''bool'')))"

definition bool_compare :: "jsval \<Rightarrow> jsval \<Rightarrow> int option enc" where
  "bool_compare a b =
     Inr (Some (if (truthy a \<and> truthy b) \<or> (\<not> truthy a \<and> \<not> truthy b) then 0 else if truthy a then 1 else - 1))"

definition unit_EncodeObject :: "semantics \<Rightarrow> jsval \<Rightarrow> jsval enc" where
  "unit_EncodeObject sem v = with_sem sem ''unit'' v None (Inr (js_prim0 ''Unit''))"

definition unit_Execute :: "jsval \<Rightarrow> jsval enc" where
  "unit_Execute v = Inr JsSym"

definition unit_ToKey :: "jsval \<Rightarrow> jsval enc" where
  "unit_ToKey v = Inr JsSym"

definition unit_ToBigMapKey :: "jsval \<Rightarrow> jsval enc" where
  "unit_ToBigMapKey v = Inr (big_key (js_prim0 ''Unit'') (js_prim0 ''unit''))"

definition unit_compare :: "jsval \<Rightarrow> jsval \<Rightarrow> int option enc" where
  "unit_compare a b = Inr (Some 0)"

section \<open>Bytes\<close>

definition convertUint8ArrayToHexString :: "jsval \<Rightarrow> jsval enc" where
  "convertUint8ArrayToHexString v =
     (case v of
        JsUndefined \<Rightarrow> Inl (JsTypeError ''constructor'')
      | JsNull \<Rightarrow> Inl (JsTypeError ''constructor'')
      | JsU8 bs \<Rightarrow> Inr (JsStr (hexOf bs))
      | _ \<Rightarrow> Inr v)"

definition bytes_isValid :: "jsval \<Rightarrow> unit enc" where
  "bytes_isValid v =
     require (case v of JsStr s \<Rightarrow> list_all is_hex s \<and> even (js_length s) | _ \<Rightarrow> False) ''BytesValidationError'' v"

definition bytes_EncodeObject :: "enc_libs \<Rightarrow> semantics \<Rightarrow> jsval \<Rightarrow> jsval enc" where
  "bytes_EncodeObject E sem v0 =
     bindR (convertUint8ArrayToHexString v0) (\<lambda>v1.
     let v = (case v1 of JsStr s \<Rightarrow> JsStr (stripHexPrefix s) | _ \<Rightarrow> v1) in
     bindR (bytes_isValid v) (\<lambda>_.
     with_sem sem ''bytes'' v None (Inr (js_obj1 ''bytes'' (JsStr (js_String E v))))))"

text \<open>\<open>Encode\<close> strips the prefix before any check, and throws on what is no text.\<close>

definition bytes_Encode :: "enc_libs \<Rightarrow> jsval \<Rightarrow> jsval enc" where
  "bytes_Encode E v0 =
     bindR (convertUint8ArrayToHexString v0) (\<lambda>v1. with_text v1 (\<lambda>s.
     let v = JsStr (stripHexPrefix s) in
     bindR (bytes_isValid v) (\<lambda>_. Inr (js_obj1 ''bytes'' (JsStr (js_String E v))))))"

definition bytes_Execute :: "jsval \<Rightarrow> jsval enc" where
  "bytes_Execute v = js_get v ''bytes''"

definition bytes_ToKey :: "jsval \<Rightarrow> jsval enc" where
  "bytes_ToKey v = bindR (js_get v ''bytes'') (\<lambda>b. bindR (js_get v ''string'') (\<lambda>s. Inr (if truthy s then s else b)))"

definition bytes_ToBigMapKey :: "jsval \<Rightarrow> jsval enc" where
  "bytes_ToBigMapKey v = Inr (big_key (js_obj1 ''bytes'' v) (js_prim0 ''bytes''))"

text \<open>\<open>bls12_381_g1\<close>, \<open>bls12_381_g2\<close>, \<open>chest\<close> and \<open>chest_key\<close> share their code but for the names.\<close>

definition hex_class_EncodeObject :: "string \<Rightarrow> string \<Rightarrow> enc_libs \<Rightarrow> semantics \<Rightarrow> jsval \<Rightarrow> jsval enc" where
  "hex_class_EncodeObject prim err E sem v0 =
     bindR (convertUint8ArrayToHexString v0) (\<lambda>v.
     bindR (hex_valid E v) (\<lambda>ok. bindR (require ok err v) (\<lambda>_.
     with_sem sem prim v None (Inr (js_obj1 ''bytes'' v)))))"

definition bls12_381_g1_EncodeObject :: "enc_libs \<Rightarrow> semantics \<Rightarrow> jsval \<Rightarrow> jsval enc" where
  "bls12_381_g1_EncodeObject E sem v = hex_class_EncodeObject ''bls12_381_g1'' ''Bls12381g1ValidationError'' E sem v"

definition bls12_381_g2_EncodeObject :: "enc_libs \<Rightarrow> semantics \<Rightarrow> jsval \<Rightarrow> jsval enc" where
  "bls12_381_g2_EncodeObject E sem v = hex_class_EncodeObject ''bls12_381_g2'' ''Bls12381g2ValidationError'' E sem v"

definition chest_EncodeObject :: "enc_libs \<Rightarrow> semantics \<Rightarrow> jsval \<Rightarrow> jsval enc" where
  "chest_EncodeObject E sem v = hex_class_EncodeObject ''chest'' ''ChestValidationError'' E sem v"

definition chest_key_EncodeObject :: "enc_libs \<Rightarrow> semantics \<Rightarrow> jsval \<Rightarrow> jsval enc" where
  "chest_key_EncodeObject E sem v = hex_class_EncodeObject ''chest_key'' ''ChestKeyValidationError'' E sem v"

text \<open>\<open>bls12_381_fr\<close> asks the semantics first and takes numbers.\<close>

definition bls12_381_fr_EncodeObject :: "enc_libs \<Rightarrow> semantics \<Rightarrow> jsval \<Rightarrow> jsval enc" where
  "bls12_381_fr_EncodeObject E sem v0 =
     with_sem sem ''bls12_381_fr'' v0 None
       (case v0 of
          JsNum n \<Rightarrow> Inr (js_obj1 ''int'' (JsStr (js_String E v0)))
        | JsNaN \<Rightarrow> Inr (js_obj1 ''int'' (JsStr (js_String E v0)))
        | _ \<Rightarrow> bindR (convertUint8ArrayToHexString v0) (\<lambda>v.
            bindR (hex_valid E v) (\<lambda>ok. bindR (require ok ''Bls12381frValidationError'' v) (\<lambda>_.
            Inr (js_obj1 ''bytes'' v)))))"

definition hex_class_Execute :: "jsval \<Rightarrow> jsval enc" where
  "hex_class_Execute v = js_get v ''bytes''"

text \<open>\<open>validateBytes\<close> of the sapling transactions: \<open>/^(0x|0X)?([0-9a-fA-F]*$)/\<close>.\<close>

definition validateBytes :: "enc_libs \<Rightarrow> string \<Rightarrow> jsval \<Rightarrow> jsval enc" where
  "validateBytes E err v =
     (if v = JsSym then Inl (JsTypeError ''symbol to string'')
      else let s = js_String E v;
               r = (if take 2 s = ''0x'' \<or> take 2 s = ''0X'' then drop 2 s else s) in
           bindR (require (list_all is_hex r \<and> even (length r)) err v) (\<lambda>_. Inr (JsStr r)))"

definition sapling_transaction_EncodeObject :: "enc_libs \<Rightarrow> semantics \<Rightarrow> jsval \<Rightarrow> jsval enc" where
  "sapling_transaction_EncodeObject E sem v0 =
     bindR (convertUint8ArrayToHexString v0) (\<lambda>v1.
     bindR (validateBytes E ''SaplingTransactionValidationError'' v1) (\<lambda>v.
     with_sem sem ''sapling_transaction'' v None (Inr (js_obj1 ''bytes'' (JsStr (js_String E v))))))"

definition sapling_transaction_deprecated_EncodeObject :: "enc_libs \<Rightarrow> semantics \<Rightarrow> jsval \<Rightarrow> jsval enc" where
  "sapling_transaction_deprecated_EncodeObject E sem v0 =
     bindR (convertUint8ArrayToHexString v0) (\<lambda>v1.
     bindR (validateBytes E ''SaplingTransactionDeprecatedValidationError'' v1) (\<lambda>v.
     with_sem sem ''sapling_transaction_deprecated'' v None (Inr (js_obj1 ''bytes'' (JsStr (js_String E v))))))"

section \<open>Timestamps\<close>

text \<open>\<open>new Date(n * 1000).toISOString()\<close> and \<open>new Date(text).toISOString()\<close>.\<close>

definition iso_of :: "int option \<Rightarrow> jsval enc" where
  "iso_of t = (case t of
     Some ms \<Rightarrow> (case toISOString ms of Some s \<Rightarrow> Inr (JsStr s) | None \<Rightarrow> Inl JsRangeError)
   | None \<Rightarrow> Inl JsRangeError)"

definition iso_of_seconds :: "enc_libs \<Rightarrow> jsval \<Rightarrow> jsval enc" where
  "iso_of_seconds E v = bindR (js_Number E v) (\<lambda>n. iso_of (map_option (\<lambda>i. i * 1000) n))"

definition timestamp_Execute :: "enc_libs \<Rightarrow> jsval \<Rightarrow> jsval enc" where
  "timestamp_Execute E v =
     bindR (js_get v ''string'') (\<lambda>s.
     if truthy s then
       (case s of
          JsStr t \<Rightarrow>
            if list_all is_digit t then iso_of_seconds E s
            else (case rfc3339Re t of Some r \<Rightarrow> iso_of (date_value r) | None \<Rightarrow> Inl Unmodelled)
        | _ \<Rightarrow> Inl Unmodelled)
     else bindR (js_get v ''int'') (\<lambda>i. if truthy i then iso_of_seconds E i else Inr JsUndefined))"

definition timestamp_EncodeObject :: "enc_libs \<Rightarrow> semantics \<Rightarrow> jsval \<Rightarrow> jsval enc" where
  "timestamp_EncodeObject E sem v =
     with_sem sem ''timestamp'' v None
       (case v of
          JsNum n \<Rightarrow> Inr (js_obj1 ''int'' (JsStr (js_String E v)))
        | JsNaN \<Rightarrow> Inr (js_obj1 ''int'' (JsStr (js_String E v)))
        | _ \<Rightarrow> Inr (js_obj1 ''string'' v))"

definition timestamp_ToKey :: "jsval \<Rightarrow> jsval enc" where
  "timestamp_ToKey v = js_get v ''string''"

definition timestamp_ToBigMapKey :: "jsval \<Rightarrow> jsval enc" where
  "timestamp_ToBigMapKey v = Inr (big_key (js_obj1 ''string'' v) (js_prim0 ''timestamp''))"

section \<open>Addresses and keys\<close>

text \<open>A validator of \<open>taquito-utils\<close> on any value; what is no text matches no prefix.\<close>

definition validates :: "(libs \<Rightarrow> string \<Rightarrow> ValidationResult) \<Rightarrow> enc_libs \<Rightarrow> jsval \<Rightarrow> bool" where
  "validates f E v = (case v of JsStr s \<Rightarrow> f (utils E) s = VALID | _ \<Rightarrow> False)"

definition string_class_EncodeObject ::
    "string \<Rightarrow> string \<Rightarrow> (libs \<Rightarrow> string \<Rightarrow> ValidationResult) \<Rightarrow> enc_libs \<Rightarrow> semantics \<Rightarrow> jsval \<Rightarrow> jsval enc" where
  "string_class_EncodeObject prim err valid E sem v =
     bindR (require (validates valid E v) err v) (\<lambda>_. with_sem sem prim v None (Inr (js_obj1 ''string'' v)))"

definition address_EncodeObject :: "enc_libs \<Rightarrow> semantics \<Rightarrow> jsval \<Rightarrow> jsval enc" where
  "address_EncodeObject E sem v = string_class_EncodeObject ''address'' ''AddressValidationError'' validateAddress E sem v"

definition address_Execute :: "enc_libs \<Rightarrow> jsval \<Rightarrow> jsval enc" where
  "address_Execute E v =
     bindR (js_get v ''string'') (\<lambda>s.
     if truthy s then Inr s
     else bindR (js_get v ''bytes'') (\<lambda>b.
       if \<not> truthy b then Inl (ValidationError ''AddressValidationError'' v)
       else with_text b (\<lambda>t. bindR (from_utils (encodePubKey (utils E) t)) (\<lambda>a. Inr (JsStr a)))))"

definition address_ToKey :: "enc_libs \<Rightarrow> jsval \<Rightarrow> jsval enc" where
  "address_ToKey E v =
     bindR (js_get v ''bytes'') (\<lambda>b. bindR (js_get v ''string'') (\<lambda>s.
     if truthy s then Inr s
     else if \<not> truthy b then Inl (ValidationError ''AddressValidationError'' (JsObj [(''bytes'', b), (''string'', s)]))
     else with_text b (\<lambda>t. bindR (from_utils (encodePubKey (utils E) t)) (\<lambda>a. Inr (JsStr a)))))"

definition address_ToBigMapKey :: "enc_libs \<Rightarrow> jsval \<Rightarrow> jsval enc" where
  "address_ToBigMapKey E v =
     with_text v (\<lambda>t. bindR (from_utils (b58decode (utils E) t)) (\<lambda>d.
       Inr (big_key (js_obj1 ''bytes'' (JsStr d)) (js_prim0 ''bytes''))))"

definition address_compare :: "jsval \<Rightarrow> jsval \<Rightarrow> int option enc" where
  "address_compare a b =
     with_text a (\<lambda>s. with_text b (\<lambda>t.
       let implicit1 = startsWith s ''tz''; implicit2 = startsWith t ''tz'' in
       if implicit1 \<and> \<not> implicit2 then Inr (Some (- 1))
       else if implicit2 \<and> \<not> implicit1 then Inr (Some 1)
       else base_compare a b))"

definition key_hash_EncodeObject :: "enc_libs \<Rightarrow> semantics \<Rightarrow> jsval \<Rightarrow> jsval enc" where
  "key_hash_EncodeObject E sem v = string_class_EncodeObject ''key_hash'' ''KeyHashValidationError'' validateKeyHash E sem v"

definition key_hash_Execute :: "enc_libs \<Rightarrow> jsval \<Rightarrow> jsval enc" where
  "key_hash_Execute E v =
     bindR (js_get v ''string'') (\<lambda>s.
     if truthy s then Inr s
     else bindR (js_get v ''bytes'') (\<lambda>b. with_text b (\<lambda>t.
       bindR (from_utils (encodeKeyHash (utils E) t)) (\<lambda>a. Inr (opt_text a)))))"

definition key_hash_ToKey :: "enc_libs \<Rightarrow> jsval \<Rightarrow> jsval enc" where
  "key_hash_ToKey E v =
     bindR (js_get v ''string'') (\<lambda>s. bindR (js_get v ''bytes'') (\<lambda>b.
     if truthy s then Inr s
     else with_text b (\<lambda>t. bindR (from_utils (encodeKeyHash (utils E) t)) (\<lambda>a. Inr (opt_text a)))))"

definition key_hash_ToBigMapKey :: "jsval \<Rightarrow> jsval enc" where
  "key_hash_ToBigMapKey v = Inr (big_key (js_obj1 ''string'' v) (js_prim0 ''key_hash''))"

definition tx_rollup_l2_address_EncodeObject :: "enc_libs \<Rightarrow> semantics \<Rightarrow> jsval \<Rightarrow> jsval enc" where
  "tx_rollup_l2_address_EncodeObject E sem v =
     string_class_EncodeObject ''tx_rollup_l2_address'' ''TxRollupL2AddressValidationError'' validateAddress E sem v"

definition tx_rollup_l2_address_Execute :: "enc_libs \<Rightarrow> jsval \<Rightarrow> jsval enc" where
  "tx_rollup_l2_address_Execute E v =
     bindR (js_get v ''string'') (\<lambda>s.
     if truthy s then Inr s
     else bindR (js_get v ''bytes'') (\<lambda>b.
       if \<not> truthy b then Inl (ValidationError ''TxRollupL2AddressValidationError'' v)
       else with_text b (\<lambda>t. Inr (JsStr (encodeL2Address (utils E) t)))))"

definition tx_rollup_l2_address_ToKey :: "enc_libs \<Rightarrow> jsval \<Rightarrow> jsval enc" where
  "tx_rollup_l2_address_ToKey E v =
     bindR (js_get v ''bytes'') (\<lambda>b. bindR (js_get v ''string'') (\<lambda>s.
     if truthy s then Inr s
     else if \<not> truthy b then Inl (ValidationError ''TxRollupL2AddressValidationError'' b)
     else with_text b (\<lambda>t. Inr (JsStr (encodeL2Address (utils E) t)))))"

definition tx_rollup_l2_address_ToBigMapKey :: "enc_libs \<Rightarrow> jsval \<Rightarrow> jsval enc" where
  "tx_rollup_l2_address_ToBigMapKey E v =
     with_text v (\<lambda>t. bindR (from_utils (b58decodeL2Address (utils E) t)) (\<lambda>d.
       Inr (big_key (js_obj1 ''bytes'' (JsStr d)) (js_prim0 ''bytes''))))"

definition key_EncodeObject :: "enc_libs \<Rightarrow> semantics \<Rightarrow> jsval \<Rightarrow> jsval enc" where
  "key_EncodeObject E sem v = string_class_EncodeObject ''key'' ''KeyValidationError'' validatePublicKey E sem v"

definition key_Execute :: "enc_libs \<Rightarrow> jsval \<Rightarrow> jsval enc" where
  "key_Execute E v =
     bindR (js_get v ''string'') (\<lambda>s.
     if truthy s then Inr s
     else bindR (js_get v ''bytes'') (\<lambda>b. with_text b (\<lambda>t.
       bindR (from_utils (encodeKey (utils E) t)) (\<lambda>a. Inr (opt_text a)))))"

definition key_ToBigMapKey :: "jsval \<Rightarrow> jsval enc" where
  "key_ToBigMapKey v = Inr (big_key (js_obj1 ''string'' v) (js_prim0 ''key''))"

text \<open>\<open>Buffer.compare\<close>, and the bytes of a P256 key after the first.\<close>

fun buffer_compare :: "byte list \<Rightarrow> byte list \<Rightarrow> int" where
  "buffer_compare [] [] = 0"
| "buffer_compare [] (y # ys) = - 1"
| "buffer_compare (x # xs) [] = 1"
| "buffer_compare (x # xs) (y # ys) = (if x = y then buffer_compare xs ys else if x < y then - 1 else 1)"

definition getP256PublicKeyComparableBytes :: "enc_libs \<Rightarrow> string \<Rightarrow> byte list enc" where
  "getP256PublicKeyComparableBytes E k =
     bindR (from_utils (b58cdecode (utils E) k (prefix_bytes ''p2pk''))) (\<lambda>bs. Inr (drop 1 bs))"

definition key_compare :: "enc_libs \<Rightarrow> jsval \<Rightarrow> jsval \<Rightarrow> int option enc" where
  "key_compare E a b =
     with_text a (\<lambda>key1. with_text b (\<lambda>key2.
       let p1 = take 4 key1; p2 = take 4 key2 in
       if p1 = ''edpk'' \<and> p2 \<noteq> ''edpk'' then Inr (Some (- 1))
       else if p1 = ''sppk'' \<and> p2 \<noteq> ''sppk'' then Inr (Some (if p2 = ''edpk'' then 1 else - 1))
       else if p1 = ''p2pk'' then
         (if p2 \<noteq> ''p2pk'' then Inr (Some 1)
          else bindR (getP256PublicKeyComparableBytes E key1) (\<lambda>b1.
               bindR (getP256PublicKeyComparableBytes E key2) (\<lambda>b2. Inr (Some (buffer_compare b1 b2)))))
       else base_compare a b))"

definition signature_EncodeObject :: "enc_libs \<Rightarrow> semantics \<Rightarrow> jsval \<Rightarrow> jsval enc" where
  "signature_EncodeObject E sem v =
     string_class_EncodeObject ''signature'' ''SignatureValidationError'' validateSignature E sem v"

definition signature_Execute :: "jsval \<Rightarrow> jsval enc" where
  "signature_Execute v = bindR (js_get v ''string'') (\<lambda>s. if truthy s then Inr s else js_get v ''bytes'')"

definition signature_ToBigMapKey :: "jsval \<Rightarrow> jsval enc" where
  "signature_ToBigMapKey v = Inr (big_key (js_obj1 ''string'' v) (js_prim0 ''signature''))"

definition chain_id_EncodeObject :: "enc_libs \<Rightarrow> semantics \<Rightarrow> jsval \<Rightarrow> jsval enc" where
  "chain_id_EncodeObject E sem v =
     string_class_EncodeObject ''chain_id'' ''ChainIDValidationError'' validateChain E sem v"

definition chain_id_Execute :: "jsval \<Rightarrow> jsval enc" where
  "chain_id_Execute v = js_first v"

definition chain_id_ToKey :: "jsval \<Rightarrow> jsval enc" where
  "chain_id_ToKey v = js_get v ''string''"

definition chain_id_ToBigMapKey :: "jsval \<Rightarrow> jsval enc" where
  "chain_id_ToBigMapKey v = Inr (big_key (js_obj1 ''string'' v) (js_prim0 ''chain_id''))"

definition contract_EncodeObject :: "enc_libs \<Rightarrow> semantics \<Rightarrow> jsval \<Rightarrow> jsval enc" where
  "contract_EncodeObject E sem v =
     string_class_EncodeObject ''contract'' ''ContractValidationError'' validateAddress E sem v"

definition contract_Execute :: "enc_libs \<Rightarrow> jsval \<Rightarrow> jsval enc" where
  "contract_Execute E v =
     bindR (js_get v ''string'') (\<lambda>s.
     if truthy s then Inr s
     else bindR (js_get v ''bytes'') (\<lambda>b.
       if \<not> truthy b then Inl (ValidationError ''ContractValidationError'' v)
       else with_text b (\<lambda>t. bindR (from_utils (encodePubKey (utils E) t)) (\<lambda>a. Inr (JsStr a)))))"

section \<open>Code, operations, and values that cannot be written\<close>

definition lambda_EncodeObject :: "semantics \<Rightarrow> jsval \<Rightarrow> jsval enc" where
  "lambda_EncodeObject sem v = with_sem sem ''lambda'' v None (Inr v)"

definition lambda_Execute :: "jsval \<Rightarrow> jsval enc" where
  "lambda_Execute v = bindR (js_get v ''string'') (\<lambda>s. Inr (if truthy s then s else v))"

definition operation_EncodeObject :: "semantics \<Rightarrow> jsval \<Rightarrow> jsval enc" where
  "operation_EncodeObject sem v = with_sem sem ''operation'' v None (Inr (js_obj1 ''string'' v))"

definition operation_Execute :: "jsval \<Rightarrow> jsval enc" where
  "operation_Execute v = js_get v ''string''"

definition never_EncodeObject :: "semantics \<Rightarrow> jsval \<Rightarrow> jsval enc" where
  "never_EncodeObject sem v = with_sem sem ''never'' v None (Inl (ValidationError ''NeverTokenError'' v))"

definition never_Execute :: "jsval \<Rightarrow> jsval enc" where
  "never_Execute v = Inl (ValidationError ''NeverTokenError'' v)"

text \<open>The message of the exception reads \<open>this.val.args[0]['string']\<close>, which may throw itself.\<close>

definition constant_EncodeObject :: "semantics \<Rightarrow> Token \<Rightarrow> jsval \<Rightarrow> jsval enc" where
  "constant_EncodeObject sem tk v =
     with_sem sem ''constant'' v None
       (bindR (constant_hash tk) (\<lambda>_. Inl (ValidationError ''GlobalConstantEncodingError'' v)))"

definition constant_Execute :: "semantics \<Rightarrow> Token \<Rightarrow> jsval \<Rightarrow> jsval enc" where
  "constant_Execute sem tk v =
     with_sem sem ''constant'' v (Some (tok_val tk))
       (bindR (constant_hash tk) (\<lambda>_. Inl (ValidationError ''GlobalConstantDecodingError'' v)))"

definition ticket_EncodeObject :: "semantics \<Rightarrow> Token \<Rightarrow> jsval \<Rightarrow> jsval enc" where
  "ticket_EncodeObject sem tk v = with_sem sem ''ticket'' v (Some (tok_val tk)) (Inl EncodeTicketError)"

definition ticket_deprecated_EncodeObject :: "semantics \<Rightarrow> Token \<Rightarrow> jsval \<Rightarrow> jsval enc" where
  "ticket_deprecated_EncodeObject sem tk v =
     with_sem sem ''ticket_deprecated'' v (Some (tok_val tk)) (Inl EncodeTicketDeprecatedError)"

definition sapling_state_isValid :: "jsval \<Rightarrow> bool enc" where
  "sapling_state_isValid v =
     (if is_object_type v then bindR (js_keys v) (\<lambda>ks. Inr (ks = [])) else Inr False)"

definition sapling_state_EncodeObject :: "semantics \<Rightarrow> jsval \<Rightarrow> jsval enc" where
  "sapling_state_EncodeObject sem v =
     with_sem sem ''sapling_state'' v None
       (bindR (sapling_state_isValid v) (\<lambda>ok.
        bindR (require ok ''SaplingStateValidationError'' v) (\<lambda>_. Inr (JsArr []))))"

definition sapling_state_Execute :: "semantics \<Rightarrow> Token \<Rightarrow> jsval \<Rightarrow> jsval enc" where
  "sapling_state_Execute sem tk v =
     with_sem sem ''sapling_state'' v (Some (tok_val tk))
       (bindR (js_has v ''int'') (\<lambda>h.
        if h then js_get v ''int'' else Inl (ValidationError ''SaplingStateValidationError'' v)))"

definition sapling_transaction_Execute :: "string \<Rightarrow> jsval \<Rightarrow> jsval enc" where
  "sapling_transaction_Execute err v = Inl (ValidationError err v)"

end
