(* ===== verification/Encoder.thy ===== *)
theory Encoder
  imports TokenLeaves
begin

text \<open>
  From JavaScript values to Michelson: \<open>MichelsonMap\<close>, and \<open>compare\<close>, \<open>EncodeObject\<close>, \<open>Encode\<close>
  and \<open>ToBigMapKey\<close> of the tokens.  Sets and maps sort with \<open>compare\<close>, which encodes the values of
  unions; \<open>EncodeObject\<close> and \<open>compare\<close> are therefore one recursion, on the size of the value first and
  of the type second.
\<close>

section \<open>Sizes\<close>

lemma sum_list_mem: "(x :: 'a) \<in> set xs \<Longrightarrow> (f x :: nat) \<le> sum_list (map f xs)"
  using member_le_sum_list [of "f x" "map f xs"] by simp

lemma js_get_size: "js_get v k = Inr x \<Longrightarrow> vsize x \<le> vsize v"
proof (cases v)
  fix ps
  assume g: "js_get v k = Inr x" and v: "v = JsObj ps"
  show ?thesis
  proof (cases "map_of ps k")
    case None
    then show ?thesis using g v by (auto simp: js_get_def)
  next
    case (Some y)
    then have "(k, y) \<in> set ps" by (rule map_of_SomeD)
    from vsize_prop [OF this] show ?thesis using g v Some by (simp add: js_get_def)
  qed
next
  fix xs
  assume g: "js_get v k = Inr x" and v: "v = JsArr xs"
  show ?thesis
  proof (cases "is_index k \<and> of_digits 10 k < length xs")
    case True
    then have "x \<in> set xs" using g v by (auto simp: js_get_def)
    from vsize_elem [OF this] show ?thesis using v by simp
  next
    case False
    then show ?thesis using g v by (auto simp: js_get_def split: if_splits)
  qed
qed (auto simp: js_get_def vsize_pos split: if_splits)

text \<open>What an object lists under its own names is smaller than the object.\<close>

lemma js_get_own_size: "js_keys v = Inr ks \<Longrightarrow> ks \<noteq> [] \<Longrightarrow> is_object_type v \<Longrightarrow> js_get v k = Inr x \<Longrightarrow> vsize x < vsize v"
proof -
  assume ks: "js_keys v = Inr ks" "ks \<noteq> []" and o: "is_object_type v" and g: "js_get v k = Inr x"
  consider ps where "v = JsObj ps" | xs where "v = JsArr xs" | bs where "v = JsU8 bs"
    using ks o by (cases v) (auto simp: js_keys_def is_object_type_def)
  then show ?thesis
  proof cases
    case 1
    then have "ps \<noteq> []" using ks by (auto simp: js_keys_def js_keys_of_def)
    then have "1 < vsize v" using 1 by (cases ps) auto
    moreover have "(k, y) \<in> set ps \<Longrightarrow> vsize y < vsize v" for y using vsize_prop [of k y ps] 1 by auto
    ultimately show ?thesis using g 1 map_of_SomeD [of ps k] by (auto simp: js_get_def split: option.splits)
  next
    case 2
    then have "xs \<noteq> []" using ks by (auto simp: js_keys_def index_names_def)
    then have "1 < vsize v" using 2 by (cases xs) auto
    moreover have "y \<in> set xs \<Longrightarrow> vsize y < vsize v" for y using vsize_elem [of y xs] 2 by auto
    ultimately show ?thesis using g 2 by (auto simp: js_get_def split: if_splits)
  next
    case 3
    then show ?thesis using g by (auto simp: js_get_def split: if_splits)
  qed
qed

lemma object_size: "js_keys v = Inr ks \<Longrightarrow> ks \<noteq> [] \<Longrightarrow> is_object_type v \<Longrightarrow> 1 < vsize v"
proof (cases v)
  fix ps
  assume "js_keys v = Inr ks" "ks \<noteq> []" and v: "v = JsObj ps"
  then have "ps \<noteq> []" by (auto simp: js_keys_def js_keys_of_def)
  then show ?thesis using v by (cases ps) auto
next
  fix xs
  assume "js_keys v = Inr ks" "ks \<noteq> []" and v: "v = JsArr xs"
  then have "xs \<noteq> []" by (auto simp: js_keys_def index_names_def)
  then show ?thesis using v by (cases xs) auto
qed (auto simp: js_keys_def is_object_type_def)

lemma insR_set: "insR c x ys = Inr zs \<Longrightarrow> set zs = insert x (set ys)"
  by (induction ys arbitrary: zs) (auto simp: bindR_eq_Inr split: if_splits)

lemma sortR_set: "sortR c xs = Inr ys \<Longrightarrow> set ys = set xs"
  by (induction xs arbitrary: ys) (auto simp: bindR_eq_Inr dest: insR_set)

lemma js_sort_set: "js_sort c xs = Inr ys \<Longrightarrow> set ys = set xs"
  by (auto simp: js_sort_def bindR_eq_Inr dest: sortR_set)

lemma insR_cong: "(\<And>y. y \<in> set ys \<Longrightarrow> c x y = c' x y) \<Longrightarrow> insR c x ys = insR c' x ys"
  by (induction ys) (auto intro!: bindR_cong)

lemma sortR_cong: "(\<And>x y. x \<in> set xs \<Longrightarrow> y \<in> set xs \<Longrightarrow> c x y = c' x y) \<Longrightarrow> sortR c xs = sortR c' xs"
  by (induction xs) (auto intro!: bindR_cong insR_cong dest: sortR_set)

lemma js_sort_cong:
  assumes "xs = ys" "\<And>x y. x \<in> set ys \<Longrightarrow> y \<in> set ys \<Longrightarrow> c x y = c' x y"
  shows "js_sort c xs = js_sort c' ys"
proof -
  have "sortR c (filter (\<lambda>x. x \<noteq> JsUndefined) ys) = sortR c' (filter (\<lambda>x. x \<noteq> JsUndefined) ys)"
    by (rule sortR_cong) (auto intro: assms(2))
  then show ?thesis by (simp add: js_sort_def assms(1))
qed

section \<open>MichelsonMap\<close>

text \<open>A \<open>Schema\<close> is the token of its type and that of the big map in it.\<close>

record Schema =
  schema_root :: Token
  schema_bigMap :: "Token option"

text \<open>The constructor: a big map is the root or the first component of a pair.\<close>

definition newSchema :: "expr \<Rightarrow> Schema enc" where
  "newSchema val =
     bindR (createToken val 0) (\<lambda>root.
     if tok_class root = BigMapToken then Inr \<lparr>schema_root = root, schema_bigMap = Some root\<rparr>
     else case val of
       Prim p (Some xs) an \<Rightarrow>
         if p = ''pair'' then
           (case xs of
              [] \<Rightarrow> Inl (JsTypeError ''in of undefined'')
            | exp # _ \<Rightarrow>
                Inr \<lparr>schema_root = root, schema_bigMap =
                  (case exp of
                     Prim q (Some ys) bn \<Rightarrow>
                       if q = ''big_map'' then Some \<lparr>tok_class = BigMapToken, tok_val = exp, tok_idx = 0\<rparr> else None
                   | _ \<Rightarrow> None)\<rparr>)
         else Inr \<lparr>schema_root = root, schema_bigMap = None\<rparr>
     | _ \<Rightarrow> Inr \<lparr>schema_root = root, schema_bigMap = None\<rparr>)"

text \<open>
  \<open>Schema.Typecheck\<close> (\<open>schema/storage.ts\<close>) of the schema made from a type; \<open>enc\<close> is \<open>EncodeObject\<close>.
\<close>

definition all_truthy :: "jsval \<Rightarrow> string list \<Rightarrow> bool enc" where
  "all_truthy v ks = foldr (\<lambda>k rest. bindR (js_get v k) (\<lambda>x. if truthy x then rest else Inr False)) ks (Inr True)"

definition Typecheck :: "enc_libs \<Rightarrow> (Token \<Rightarrow> jsval \<Rightarrow> jsval enc) \<Rightarrow> expr \<Rightarrow> jsval \<Rightarrow> bool enc" where
  "Typecheck E enc t v =
     bindR (createToken t 0) (\<lambda>root.
     bindR (if tok_class root = BigMapToken then bindR (js_Number E v) (\<lambda>n. Inr (n \<noteq> None)) else Inr False) (\<lambda>big.
     bindR (if \<not> big \<and> (tok_class root = TicketToken \<or> tok_class root = TicketDeprecatedToken)
            then all_truthy v [''ticketer'', ''value'', ''amount''] else Inr False) (\<lambda>ticket.
     bindR (if tok_class root = MapToken then bindR (sub_token root 1 0) (\<lambda>k. Inr (tok_class k = BigMapToken))
            else Inr False) (\<lambda>maps.
     if big \<or> ticket \<or> maps then Inr True
     else Inr (case enc root v of Inl e \<Rightarrow> False | Inr m \<Rightarrow> True)))))"

lemma Typecheck_cong:
  assumes "\<And>k. enc k v = enc' k v"
  shows "Typecheck E enc t v = Typecheck E enc' t v"
  unfolding Typecheck_def assms ..

text \<open>\<open>assertTypecheckKey\<close> and \<open>assertTypecheckValue\<close>.\<close>

definition assertTypecheck :: "enc_libs \<Rightarrow> (Token \<Rightarrow> jsval \<Rightarrow> jsval enc) \<Rightarrow> expr option \<Rightarrow> string \<Rightarrow> jsval \<Rightarrow> unit enc" where
  "assertTypecheck E enc t what v =
     (case t of
        None \<Rightarrow> Inr ()
      | Some ty \<Rightarrow> bindR (Typecheck E enc ty v) (\<lambda>ok. if ok then Inr () else Inl (MapTypecheckError v what)))"

lemma assertTypecheck_cong: "(\<And>k. enc k v = enc' k v) \<Longrightarrow> assertTypecheck E enc t w v = assertTypecheck E enc' t w v"
  using Typecheck_cong [of enc v enc'] by (auto simp: assertTypecheck_def split: option.splits)

text \<open>The entries, one for each serialised key: \<open>set\<close> replaces key and value where they stand.\<close>

fun put_entry :: "enc_libs \<Rightarrow> (jsval \<times> jsval) list \<Rightarrow> jsval \<Rightarrow> jsval \<Rightarrow> (jsval \<times> jsval) list" where
  "put_entry E [] k v = [(k, v)]"
| "put_entry E (e # es) k v =
     (if stringify E (fst e) = stringify E k then (k, v) # es else e # put_entry E es k v)"

definition entry_of :: "enc_libs \<Rightarrow> (jsval \<times> jsval) list \<Rightarrow> jsval \<Rightarrow> jsval" where
  "entry_of E es k = (case find (\<lambda>e. stringify E (fst e) = stringify E k) es of Some e \<Rightarrow> snd e | None \<Rightarrow> JsUndefined)"

definition map_get :: "enc_libs \<Rightarrow> (Token \<Rightarrow> jsval \<Rightarrow> jsval enc) \<Rightarrow> (jsval \<times> jsval) list \<Rightarrow> (expr \<times> expr) option \<Rightarrow> jsval \<Rightarrow> jsval enc" where
  "map_get E enc es sch k =
     bindR (assertTypecheck E enc (map_option fst sch) ''key'' k) (\<lambda>_. Inr (entry_of E es k))"

definition map_set ::
    "enc_libs \<Rightarrow> (Token \<Rightarrow> jsval \<Rightarrow> jsval enc) \<Rightarrow> (jsval \<times> jsval) list \<Rightarrow> (expr \<times> expr) option \<Rightarrow> jsval \<Rightarrow> jsval
      \<Rightarrow> (jsval \<times> jsval) list enc" where
  "map_set E enc es sch k v =
     bindR (assertTypecheck E enc (map_option fst sch) ''key'' k) (\<lambda>_.
     bindR (assertTypecheck E enc (map_option snd sch) ''value'' v) (\<lambda>_. Inr (put_entry E es k v)))"

definition map_has :: "enc_libs \<Rightarrow> (Token \<Rightarrow> jsval \<Rightarrow> jsval enc) \<Rightarrow> (jsval \<times> jsval) list \<Rightarrow> (expr \<times> expr) option \<Rightarrow> jsval \<Rightarrow> bool enc" where
  "map_has E enc es sch k =
     bindR (assertTypecheck E enc (map_option fst sch) ''key'' k) (\<lambda>_.
       Inr (\<exists>e \<in> set es. stringify E (fst e) = stringify E k))"

definition map_delete ::
    "enc_libs \<Rightarrow> (Token \<Rightarrow> jsval \<Rightarrow> jsval enc) \<Rightarrow> (jsval \<times> jsval) list \<Rightarrow> (expr \<times> expr) option \<Rightarrow> jsval \<Rightarrow> (jsval \<times> jsval) list enc" where
  "map_delete E enc es sch k =
     bindR (assertTypecheck E enc (map_option fst sch) ''key'' k) (\<lambda>_.
       Inr (filter (\<lambda>e. stringify E (fst e) \<noteq> stringify E k) es))"

text \<open>\<open>new MichelsonMap(type)\<close>: \<open>isMapType\<close> and the two schemas; \<open>fromLiteral\<close> without a type.\<close>

definition newMichelsonMap :: "expr \<Rightarrow> jsval enc" where
  "newMichelsonMap t =
     (case type_args t of
        Some [k, v] \<Rightarrow> bindR (newSchema k) (\<lambda>_. bindR (newSchema v) (\<lambda>_. Inr (JsMap [] (Some (k, v)))))
      | _ \<Rightarrow> Inl InvalidMapTypeError)"

text \<open>\<open>setType\<close>, \<open>removeType\<close>, \<open>clear\<close>, \<open>size\<close>, \<open>keys\<close> and \<open>values\<close> of the map with the entries \<open>es\<close>.\<close>

definition map_setType :: "(jsval \<times> jsval) list \<Rightarrow> expr \<Rightarrow> jsval enc" where
  "map_setType es t =
     (case type_args t of
        Some [k, v] \<Rightarrow> bindR (newSchema k) (\<lambda>_. bindR (newSchema v) (\<lambda>_. Inr (JsMap es (Some (k, v)))))
      | _ \<Rightarrow> Inl InvalidMapTypeError)"

definition map_removeType :: "(jsval \<times> jsval) list \<Rightarrow> jsval" where
  "map_removeType es = JsMap es None"

definition map_clear :: "(expr \<times> expr) option \<Rightarrow> jsval" where
  "map_clear sch = JsMap [] sch"

definition map_size :: "(jsval \<times> jsval) list \<Rightarrow> nat" where
  "map_size es = length es"

definition map_keys :: "(jsval \<times> jsval) list \<Rightarrow> jsval list" where
  "map_keys es = map fst es"

definition map_values :: "(jsval \<times> jsval) list \<Rightarrow> jsval list" where
  "map_values es = map snd es"

definition fromLiteral :: "enc_libs \<Rightarrow> jsval \<Rightarrow> string list \<Rightarrow> (jsval \<times> jsval) list enc" where
  "fromLiteral E v ks = foldl (\<lambda>acc k. bindR acc (\<lambda>es. bindR (js_get v k) (\<lambda>x. Inr (put_entry E es (JsStr k) x)))) (Inr []) ks"

definition objLitToMichelsonMap :: "enc_libs \<Rightarrow> jsval \<Rightarrow> jsval enc" where
  "objLitToMichelsonMap E v =
     (case v of
        JsMap es sch \<Rightarrow> Inr v
      | _ \<Rightarrow>
          if is_object_type v then
            bindR (js_keys v) (\<lambda>ks. if ks = [] then Inr (JsMap [] None)
              else bindR (fromLiteral E v ks) (\<lambda>es. Inr (JsMap es None)))
          else Inr v)"

lemma put_entry_mem: "e \<in> set (put_entry E es k v) \<Longrightarrow> e = (k, v) \<or> e \<in> set es"
  by (induction es) (auto split: if_splits)

lemma fromLiteral_mem:
  assumes "fromLiteral E v ks = Inr es" "e \<in> set es"
  shows "\<exists>k. fst e = JsStr k \<and> js_get v k = Inr (snd e)"
  using assms
proof (induction ks arbitrary: es rule: rev_induct)
  case Nil
  then show ?case by (simp add: fromLiteral_def)
next
  case (snoc k ks)
  then obtain es0 x where s: "fromLiteral E v ks = Inr es0" "js_get v k = Inr x" "es = put_entry E es0 (JsStr k) x"
    by (auto simp: fromLiteral_def bindR_eq_Inr)
  show ?case using put_entry_mem [of e E es0 "JsStr k" x] snoc.IH [OF s(1)] snoc.prems(2) s by auto
qed

lemma objLit_size:
  assumes "objLitToMichelsonMap E v = Inr (JsMap es sch)" "e \<in> set es"
  shows "vsize (fst e) < vsize v \<and> vsize (snd e) < vsize v"
proof (cases v)
  fix es' sch'
  assume v: "v = JsMap es' sch'"
  then have "e \<in> set es'" using assms by (simp add: objLitToMichelsonMap_def)
  from sum_list_mem [OF this, of "\<lambda>e. vsize (fst e) + vsize (snd e)"] show ?thesis using v by simp
qed (use assms fromLiteral_mem [of E v _ es e] js_get_own_size [of v] object_size [of v] in
  \<open>fastforce simp: objLitToMichelsonMap_def is_object_type_def bindR_eq_Inr split: if_splits\<close>)+

lemma entry_of_size: "e \<in> set es \<Longrightarrow> (\<And>e. e \<in> set es \<Longrightarrow> vsize (snd e) < n) \<Longrightarrow> vsize (entry_of E es k) < n"
proof -
  assume e: "e \<in> set es" and all: "\<And>e. e \<in> set es \<Longrightarrow> vsize (snd e) < n"
  show ?thesis
  proof (cases "find (\<lambda>e. stringify E (fst e) = stringify E k) es")
    case None
    then show ?thesis using all [OF e] vsize_pos [of "snd e"] by (simp add: entry_of_def)
  next
    case (Some x)
    then have "x \<in> set es" by (metis find_Some_iff nth_mem)
    then show ?thesis using all Some by (simp add: entry_of_def)
  qed
qed

end
