(* ===== verification/EncoderObject.thy ===== *)
theory EncoderObject
  imports Encoder
begin

text \<open>
  \<open>EncodeObject\<close> and \<open>compare\<close> of the composite tokens and of all tokens, then \<open>Encode\<close>, which takes
  the values from a stack of arguments, and \<open>ToBigMapKey\<close>.
\<close>

section \<open>Pairs, unions, options\<close>

text \<open>\<open>args\<close> for an inlined pair, else \<open>args[token.annot()]\<close>.\<close>

definition field_value :: "Token \<Rightarrow> jsval \<Rightarrow> jsval enc" where
  "field_value tk v = (if inline_pair tk then Inr v else bindR (annot tk) (\<lambda>a. js_get v a))"

definition pair_EncodeObject :: "(Token \<Rightarrow> jsval \<Rightarrow> jsval enc) \<Rightarrow> Token \<Rightarrow> jsval \<Rightarrow> jsval enc" where
  "pair_EncodeObject enc tk v =
     bindR (pair_tokens tk) (\<lambda>(l, r).
     bindR (field_value l v) (\<lambda>leftValue. bindR (field_value r v) (\<lambda>rightValue.
     bindR (enc l leftValue) (\<lambda>a. bindR (enc r rightValue) (\<lambda>b. Inr (js_prim ''Pair'' [a, b]))))))"

definition pair_compare :: "(Token \<Rightarrow> jsval \<Rightarrow> jsval \<Rightarrow> int option enc) \<Rightarrow> Token \<Rightarrow> jsval \<Rightarrow> jsval \<Rightarrow> int option enc" where
  "pair_compare cmp tk v1 v2 =
     bindR (pair_tokens tk) (\<lambda>(l, r).
     if comparable (tok_class l) \<and> comparable (tok_class r) then
       bindR (field_value l v1) (\<lambda>a1. bindR (field_value l v2) (\<lambda>a2.
       bindR (cmp l a1 a2) (\<lambda>result.
       if result = Some 0 then
         bindR (field_value r v1) (\<lambda>b1. bindR (field_value r v2) (\<lambda>b2. cmp r b1 b2))
       else Inr result)))
     else Inl (TokenComparisonError v1 v2))"

text \<open>The label, \<open>Object.keys(args)[0]\<close>, and its text.\<close>

definition first_key :: "jsval \<Rightarrow> string option enc" where
  "first_key v = bindR (js_keys v) (\<lambda>ks. Inr (case ks of [] \<Rightarrow> None | k # _ \<Rightarrow> Some k))"

definition label_text :: "string option \<Rightarrow> string" where
  "label_text l = (case l of Some k \<Rightarrow> k | None \<Rightarrow> ''undefined'')"

definition is_branch :: "Token \<Rightarrow> string \<Rightarrow> bool enc" where
  "is_branch tk label = bindR (annot tk) (\<lambda>a. Inr (a = label \<and> tok_class tk \<noteq> OrToken))"

text \<open>The encoding of a union below, tried on the whole value: \<open>null\<close> when the label is not there.\<close>

definition or_attempt :: "(Token \<Rightarrow> jsval \<Rightarrow> jsval enc) \<Rightarrow> Token \<Rightarrow> jsval \<Rightarrow> jsval enc" where
  "or_attempt enc k v = (if tok_class k = OrToken then enc k v else Inr JsNull)"

definition or_EncodeObject :: "(Token \<Rightarrow> jsval \<Rightarrow> jsval enc) \<Rightarrow> Token \<Rightarrow> jsval \<Rightarrow> jsval enc" where
  "or_EncodeObject enc tk v =
     bindR (first_key v) (\<lambda>key.
     let label = label_text key in
     bindR (or_tokens tk) (\<lambda>(l, r).
     bindR (is_branch l label) (\<lambda>isl.
     if isl then bindR (js_get v label) (\<lambda>x. bindR (enc l x) (\<lambda>m. Inr (js_prim ''Left'' [m])))
     else bindR (is_branch r label) (\<lambda>isr.
     if isr then bindR (js_get v label) (\<lambda>x. bindR (enc r x) (\<lambda>m. Inr (js_prim ''Right'' [m])))
     else bindR (or_attempt enc l v) (\<lambda>m.
       if truthy m then Inr (js_prim ''Left'' [m])
       else bindR (or_attempt enc r v) (\<lambda>m.
         if truthy m then Inr (js_prim ''Right'' [m]) else Inr JsNull))))))"

text \<open>\<open>OrToken.findToken\<close>.\<close>

function findToken :: "Token \<Rightarrow> string \<Rightarrow> Token option enc" where
  "findToken tk label =
     bindR (or_tokens tk) (\<lambda>(l, r).
     bindR (is_branch l label) (\<lambda>isl.
     if isl \<and> comparable (tok_class l) then Inr (Some l)
     else bindR (is_branch r label) (\<lambda>isr.
     if isr \<and> comparable (tok_class r) then Inr (Some r)
     else bindR (if tok_class l = OrToken then findToken l label else Inr None) (\<lambda>t.
       case t of
         Some k \<Rightarrow> Inr (Some k)
       | None \<Rightarrow> if tok_class r = OrToken then findToken r label else Inr None))))"
  by pat_completeness auto
termination
  by (relation "measure (\<lambda>(tk, label). tok_size tk)") (auto dest: or_tokens_size)

declare findToken.simps [simp del]

definition or_compare ::
    "enc_libs \<Rightarrow> (Token \<Rightarrow> jsval \<Rightarrow> jsval enc) \<Rightarrow> (Token \<Rightarrow> jsval \<Rightarrow> jsval \<Rightarrow> int option enc) \<Rightarrow> Token \<Rightarrow> jsval \<Rightarrow> jsval
      \<Rightarrow> int option enc" where
  "or_compare E enc cmp tk v1 v2 =
     bindR (first_key v1) (\<lambda>label1. bindR (first_key v2) (\<lambda>label2.
     if label1 = label2 then
       bindR (findToken tk (label_text label1)) (\<lambda>t.
         case t of
           Some k \<Rightarrow> bindR (js_get v1 (label_text label1)) (\<lambda>a. bindR (js_get v2 (label_text label1)) (\<lambda>b. cmp k a b))
         | None \<Rightarrow> Inr None)
     else
       bindR (enc tk v1) (\<lambda>m1. bindR (enc tk v2) (\<lambda>m2.
         case (json_text E m1, json_text E m2) of
           (Some s1, Some s2) \<Rightarrow> Inr (Some (if str_less s1 s2 then - 1 else 1))
         | _ \<Rightarrow> Inl Unmodelled))))"

definition option_EncodeObject :: "(Token \<Rightarrow> jsval \<Rightarrow> jsval enc) \<Rightarrow> Token \<Rightarrow> jsval \<Rightarrow> jsval enc" where
  "option_EncodeObject enc tk v =
     (if nullish v then Inr (js_prim0 ''None'')
      else bindR (sub_token tk 0 0) (\<lambda>k. bindR (enc k v) (\<lambda>m. Inr (js_prim ''Some'' [m]))))"

definition option_compare :: "(Token \<Rightarrow> jsval \<Rightarrow> jsval \<Rightarrow> int option enc) \<Rightarrow> Token \<Rightarrow> jsval \<Rightarrow> jsval \<Rightarrow> int option enc" where
  "option_compare cmp tk v1 v2 =
     (if \<not> truthy v1 then Inr (Some (- 1))
      else if \<not> truthy v2 then Inr (Some 1)
      else bindR (sub_token tk 0 0) (\<lambda>k. cmp k v1 v2))"

section \<open>Collections\<close>

text \<open>In a collection the elements are encoded without the semantics.\<close>

definition list_EncodeObject :: "(Token \<Rightarrow> jsval \<Rightarrow> jsval enc) \<Rightarrow> semantics \<Rightarrow> Token \<Rightarrow> jsval \<Rightarrow> jsval enc" where
  "list_EncodeObject enc sem tk v =
     bindR (sub_token tk 0 0) (\<lambda>k.
     case v of
       JsArr xs \<Rightarrow> with_sem sem ''list'' v None (bindR (mapR (enc k) xs) (\<lambda>ms. Inr (JsArr ms)))
     | _ \<Rightarrow> Inl (ValidationError ''ListValidationError'' v))"

definition set_EncodeObject ::
    "(Token \<Rightarrow> jsval \<Rightarrow> jsval enc) \<Rightarrow> (Token \<Rightarrow> jsval \<Rightarrow> jsval \<Rightarrow> int option enc) \<Rightarrow> semantics \<Rightarrow> Token \<Rightarrow> jsval \<Rightarrow> jsval enc" where
  "set_EncodeObject enc cmp sem tk v =
     (case v of
        JsArr xs \<Rightarrow>
          with_sem sem ''set'' v None
            (bindR (js_sort (\<lambda>a b. bindR (sub_token tk 0 0) (\<lambda>k. cmp k a b)) xs) (\<lambda>ys.
             bindR (mapR (\<lambda>y. bindR (sub_token tk 0 0) (\<lambda>k. enc k y)) ys) (\<lambda>ms. Inr (JsArr ms))))
      | _ \<Rightarrow> Inl (ValidationError ''SetValidationError'' v))"

definition js_elt :: "jsval \<Rightarrow> jsval \<Rightarrow> jsval" where
  "js_elt k v = js_prim ''Elt'' [k, v]"

text \<open>The entries of a map or a big map, in the order of their keys.\<close>

definition map_elts ::
    "enc_libs \<Rightarrow> (Token \<Rightarrow> jsval \<Rightarrow> jsval enc) \<Rightarrow> (Token \<Rightarrow> jsval \<Rightarrow> jsval \<Rightarrow> int option enc) \<Rightarrow> Token
      \<Rightarrow> (jsval \<times> jsval) list \<Rightarrow> (expr \<times> expr) option \<Rightarrow> jsval enc" where
  "map_elts E enc cmp tk es sch =
     bindR (js_sort (\<lambda>a b. bindR (sub_token tk 0 0) (\<lambda>k. cmp k a b)) (map fst es)) (\<lambda>keys.
     bindR (mapR (\<lambda>key.
       bindR (sub_token tk 0 0) (\<lambda>kt. bindR (enc kt key) (\<lambda>mk.
       bindR (sub_token tk 1 0) (\<lambda>vt. bindR (map_get E enc es sch key) (\<lambda>x. bindR (enc vt x) (\<lambda>mv.
       Inr (js_elt mk mv))))))) keys) (\<lambda>ms. Inr (JsArr ms)))"

definition map_EncodeObject ::
    "enc_libs \<Rightarrow> (Token \<Rightarrow> jsval \<Rightarrow> jsval enc) \<Rightarrow> (Token \<Rightarrow> jsval \<Rightarrow> jsval \<Rightarrow> int option enc) \<Rightarrow> semantics \<Rightarrow> Token \<Rightarrow> jsval
      \<Rightarrow> jsval enc" where
  "map_EncodeObject E enc cmp sem tk v =
     bindR (objLitToMichelsonMap E v) (\<lambda>m.
     case m of
       JsMap es sch \<Rightarrow> with_sem sem ''map'' m None (map_elts E enc cmp tk es sch)
     | _ \<Rightarrow> Inl (ValidationError ''MapValidationError'' m))"

definition bigmap_EncodeObject ::
    "enc_libs \<Rightarrow> (Token \<Rightarrow> jsval \<Rightarrow> jsval enc) \<Rightarrow> (Token \<Rightarrow> jsval \<Rightarrow> jsval \<Rightarrow> int option enc) \<Rightarrow> semantics \<Rightarrow> Token \<Rightarrow> jsval
      \<Rightarrow> jsval enc" where
  "bigmap_EncodeObject E enc cmp sem tk v =
     bindR (objLitToMichelsonMap E v) (\<lambda>m.
     case m of
       JsMap es sch \<Rightarrow> with_sem sem ''big_map'' m (Some (tok_val tk)) (map_elts E enc cmp tk es sch)
     | _ \<Rightarrow> Inl (ValidationError ''BigMapValidationError'' m))"

section \<open>What the operations ask of the tokens below\<close>

lemma field_value_size: "field_value tk v = Inr x \<Longrightarrow> vsize x \<le> vsize v"
  by (auto simp: field_value_def bindR_eq_Inr dest: js_get_size split: if_splits)

lemma pair_EncodeObject_cong [fundef_cong]:
  assumes "tk = tk'" "v = v'"
    and "\<And>k x. tok_size k < tok_size tk' \<Longrightarrow> vsize x \<le> vsize v' \<Longrightarrow> f k x = f' k x"
  shows "pair_EncodeObject f tk v = pair_EncodeObject f' tk' v'"
  unfolding pair_EncodeObject_def assms(1,2)
  by (rule bindR_cong [OF refl]) (auto dest!: pair_tokens_size field_value_size intro!: bindR_cong assms(3))

lemma pair_compare_cong [fundef_cong]:
  assumes "tk = tk'" "a = a'" "b = b'"
    and "\<And>k x y. tok_size k < tok_size tk' \<Longrightarrow> vsize x \<le> vsize a' \<Longrightarrow> vsize y \<le> vsize b' \<Longrightarrow> f k x y = f' k x y"
  shows "pair_compare f tk a b = pair_compare f' tk' a' b'"
  unfolding pair_compare_def assms(1-3)
  by (rule bindR_cong [OF refl]) (auto dest!: pair_tokens_size field_value_size intro!: bindR_cong assms(4))

lemma or_EncodeObject_cong [fundef_cong]:
  assumes "tk = tk'" "v = v'"
    and "\<And>k x. tok_size k < tok_size tk' \<Longrightarrow> vsize x \<le> vsize v' \<Longrightarrow> f k x = f' k x"
  shows "or_EncodeObject f tk v = or_EncodeObject f' tk' v'"
  unfolding or_EncodeObject_def or_attempt_def assms(1,2) Let_def
  by (intro bindR_cong refl) (auto dest!: or_tokens_size js_get_size intro!: bindR_cong assms(3))

lemma findToken_size: "findToken tk l = Inr (Some k) \<Longrightarrow> tok_size k < tok_size tk"
proof (induction "tok_size tk" arbitrary: tk rule: less_induct)
  case less
  obtain a b where ab: "or_tokens tk = Inr (a, b)"
    using less.prems findToken.simps [of tk l] by (auto simp: bindR_eq_Inr)
  note smaller = or_tokens_size [OF ab]
  have below: "findToken x l = Inr (Some k) \<Longrightarrow> tok_size k < tok_size tk" if "x = a \<or> x = b" for x
    using less.hyps [of x] that smaller by fastforce
  obtain isl where isl: "is_branch a l = Inr isl"
    using less.prems findToken.simps [of tk l] ab by (auto simp: bindR_eq_Inr)
  show ?case
    using less.prems findToken.simps [of tk l] ab isl smaller below [of a] below [of b]
    by (auto simp: bindR_eq_Inr split: if_splits option.splits)
qed

lemma or_compare_cong [fundef_cong]:
  assumes "tk = tk'" "a = a'" "b = b'"
    and "\<And>k x. k = tk' \<Longrightarrow> x = a' \<or> x = b' \<Longrightarrow> e k x = e' k x"
    and "\<And>k x y. tok_size k < tok_size tk' \<Longrightarrow> vsize x \<le> vsize a' \<Longrightarrow> vsize y \<le> vsize b' \<Longrightarrow> f k x y = f' k x y"
  shows "or_compare E e f tk a b = or_compare E e' f' tk' a' b'"
  unfolding or_compare_def assms(1-3)
  by (intro bindR_cong refl)
    (auto dest!: findToken_size js_get_size intro!: bindR_cong assms(4,5) split: option.splits)

lemma option_EncodeObject_cong [fundef_cong]:
  assumes "tk = tk'" "v = v'"
    and "\<And>k x. tok_size k < tok_size tk' \<Longrightarrow> x = v' \<Longrightarrow> f k x = f' k x"
  shows "option_EncodeObject f tk v = option_EncodeObject f' tk' v'"
  unfolding option_EncodeObject_def assms(1,2)
  by (intro if_cong bindR_cong refl) (auto dest!: sub_token_size intro!: assms(3))

lemma option_compare_cong [fundef_cong]:
  assumes "tk = tk'" "a = a'" "b = b'"
    and "\<And>k x y. tok_size k < tok_size tk' \<Longrightarrow> x = a' \<Longrightarrow> y = b' \<Longrightarrow> f k x y = f' k x y"
  shows "option_compare f tk a b = option_compare f' tk' a' b'"
  unfolding option_compare_def assms(1-3)
  by (intro if_cong bindR_cong refl) (auto dest!: sub_token_size intro!: assms(4))

lemma elem_size: "x \<in> set xs \<Longrightarrow> vsize x < vsize (JsArr xs)"
  using vsize_elem [of x xs] by simp

lemma list_EncodeObject_cong [fundef_cong]:
  assumes "sem = sem'" "tk = tk'" "v = v'"
    and "\<And>k x. vsize x < vsize v' \<Longrightarrow> f k x = f' k x"
  shows "list_EncodeObject f sem tk v = list_EncodeObject f' sem' tk' v'"
proof (cases v')
  fix xs
  assume v: "v' = JsArr xs"
  have "mapR (f k) xs = mapR (f' k) xs" for k by (rule mapR_cong [OF refl]) (simp add: assms(4) v elem_size del: vsize.simps)
  then show ?thesis by (simp add: list_EncodeObject_def assms(1-3) v)
qed (simp_all add: list_EncodeObject_def assms(1-3))

lemma set_EncodeObject_cong [fundef_cong]:
  assumes "sem = sem'" "tk = tk'" "v = v'"
    and "\<And>k x. vsize x < vsize v' \<Longrightarrow> f k x = f' k x"
    and "\<And>k x y. vsize x < vsize v' \<Longrightarrow> vsize y < vsize v' \<Longrightarrow> g k x y = g' k x y"
  shows "set_EncodeObject f g sem tk v = set_EncodeObject f' g' sem' tk' v'"
proof (cases v')
  fix xs
  assume v: "v' = JsArr xs"
  have s: "js_sort (\<lambda>a b. bindR (sub_token tk' 0 0) (\<lambda>k. g k a b)) xs = js_sort (\<lambda>a b. bindR (sub_token tk' 0 0) (\<lambda>k. g' k a b)) xs"
    by (rule js_sort_cong [OF refl]) (simp add: assms(5) v elem_size del: vsize.simps)
  have "mapR (\<lambda>y. bindR (sub_token tk' 0 0) (\<lambda>k. f k y)) ys = mapR (\<lambda>y. bindR (sub_token tk' 0 0) (\<lambda>k. f' k y)) ys"
    if "js_sort (\<lambda>a b. bindR (sub_token tk' 0 0) (\<lambda>k. g' k a b)) xs = Inr ys" for ys
    by (rule mapR_cong [OF refl]) (simp add: assms(4) v elem_size js_sort_set [OF that] del: vsize.simps)
  then show ?thesis by (simp add: set_EncodeObject_def assms(1-3) v s cong: bindR_cong)
qed (simp_all add: set_EncodeObject_def assms(1-3))

lemma map_elts_cong:
  assumes "\<And>e. e \<in> set es \<Longrightarrow> vsize (fst e) < n \<and> vsize (snd e) < n"
    and "\<And>k x. vsize x < n \<Longrightarrow> f k x = f' k x"
    and "\<And>k x y. vsize x < n \<Longrightarrow> vsize y < n \<Longrightarrow> g k x y = g' k x y"
  shows "map_elts E f g tk es sch = map_elts E f' g' tk es sch"
proof -
  have s: "js_sort (\<lambda>a b. bindR (sub_token tk 0 0) (\<lambda>k. g k a b)) (map fst es) =
      js_sort (\<lambda>a b. bindR (sub_token tk 0 0) (\<lambda>k. g' k a b)) (map fst es)"
    by (rule js_sort_cong [OF refl]) (use assms(1) in \<open>auto intro!: bindR_cong assms(3)\<close>)
  have g: "map_get E f es sch key = map_get E f' es sch key" if "key \<in> set (map fst es)" for key
  proof -
    have "vsize key < n" using that assms(1) by auto
    then show ?thesis using assertTypecheck_cong [of f key f'] assms(2) by (simp add: map_get_def)
  qed
  have v: "vsize x < n" if get: "map_get E f' es sch key = Inr x" and mem: "key \<in> set (map fst es)" for key x
  proof -
    obtain e where "e \<in> set es" using mem by auto
    then show ?thesis using get entry_of_size [of e es n E key] assms(1) by (auto simp: map_get_def bindR_eq_Inr)
  qed
  have "mapR (\<lambda>key. bindR (sub_token tk 0 0) (\<lambda>kt. bindR (f kt key) (\<lambda>mk.
      bindR (sub_token tk 1 0) (\<lambda>vt. bindR (map_get E f es sch key) (\<lambda>x. bindR (f vt x) (\<lambda>mv. Inr (js_elt mk mv))))))) keys =
    mapR (\<lambda>key. bindR (sub_token tk 0 0) (\<lambda>kt. bindR (f' kt key) (\<lambda>mk.
      bindR (sub_token tk 1 0) (\<lambda>vt. bindR (map_get E f' es sch key) (\<lambda>x. bindR (f' vt x) (\<lambda>mv. Inr (js_elt mk mv))))))) keys"
    if "js_sort (\<lambda>a b. bindR (sub_token tk 0 0) (\<lambda>k. g' k a b)) (map fst es) = Inr keys" for keys
  proof (rule mapR_cong [OF refl])
    fix key
    assume "key \<in> set keys"
    then have mem: "key \<in> set (map fst es)" using js_sort_set [OF that] by simp
    then have key: "vsize key < n" using assms(1) by auto
    show "bindR (sub_token tk 0 0) (\<lambda>kt. bindR (f kt key) (\<lambda>mk.
        bindR (sub_token tk 1 0) (\<lambda>vt. bindR (map_get E f es sch key) (\<lambda>x. bindR (f vt x) (\<lambda>mv. Inr (js_elt mk mv)))))) =
      bindR (sub_token tk 0 0) (\<lambda>kt. bindR (f' kt key) (\<lambda>mk.
        bindR (sub_token tk 1 0) (\<lambda>vt. bindR (map_get E f' es sch key) (\<lambda>x. bindR (f' vt x) (\<lambda>mv. Inr (js_elt mk mv))))))"
      by (intro bindR_cong refl assms(2) key g [OF mem]) (auto dest: v [OF _ mem])
  qed
  then show ?thesis unfolding map_elts_def s by (intro bindR_cong refl) simp
qed

lemma map_EncodeObject_cong [fundef_cong]:
  assumes "sem = sem'" "tk = tk'" "v = v'"
    and "\<And>k x. vsize x < vsize v' \<Longrightarrow> f k x = f' k x"
    and "\<And>k x y. vsize x < vsize v' \<Longrightarrow> vsize y < vsize v' \<Longrightarrow> g k x y = g' k x y"
  shows "map_EncodeObject E f g sem tk v = map_EncodeObject E f' g' sem' tk' v'"
  unfolding map_EncodeObject_def assms(1-3)
  by (intro bindR_cong refl) (auto split: jsval.splits intro!: arg_cong [where f = "with_sem sem' ''map'' _ None"]
      map_elts_cong [where n = "vsize v'"] assms(4,5) dest: objLit_size)

lemma bigmap_EncodeObject_cong [fundef_cong]:
  assumes "sem = sem'" "tk = tk'" "v = v'"
    and "\<And>k x. vsize x < vsize v' \<Longrightarrow> f k x = f' k x"
    and "\<And>k x y. vsize x < vsize v' \<Longrightarrow> vsize y < vsize v' \<Longrightarrow> g k x y = g' k x y"
  shows "bigmap_EncodeObject E f g sem tk v = bigmap_EncodeObject E f' g' sem' tk' v'"
  unfolding bigmap_EncodeObject_def assms(1-3)
  by (intro bindR_cong refl) (auto split: jsval.splits intro!: arg_cong [where f = "with_sem sem' ''big_map'' _ _"]
      map_elts_cong [where n = "vsize v'"] assms(4,5) dest: objLit_size)

section \<open>All tokens\<close>

function EncodeObject :: "enc_libs \<Rightarrow> semantics \<Rightarrow> Token \<Rightarrow> jsval \<Rightarrow> jsval enc"
and token_compare :: "enc_libs \<Rightarrow> Token \<Rightarrow> jsval \<Rightarrow> jsval \<Rightarrow> int option enc" where
  "EncodeObject E sem tk v =
     (case tok_class tk of
        PairToken \<Rightarrow> pair_EncodeObject (\<lambda>k x. EncodeObject E sem k x) tk v
      | OrToken \<Rightarrow> or_EncodeObject (\<lambda>k x. EncodeObject E sem k x) tk v
      | OptionToken \<Rightarrow> option_EncodeObject (\<lambda>k x. EncodeObject E sem k x) tk v
      | ListToken \<Rightarrow> list_EncodeObject (\<lambda>k x. EncodeObject E no_sem k x) sem tk v
      | SetToken \<Rightarrow> set_EncodeObject (\<lambda>k x. EncodeObject E no_sem k x) (\<lambda>k a b. token_compare E k a b) sem tk v
      | MapToken \<Rightarrow> map_EncodeObject E (\<lambda>k x. EncodeObject E no_sem k x) (\<lambda>k a b. token_compare E k a b) sem tk v
      | BigMapToken \<Rightarrow> bigmap_EncodeObject E (\<lambda>k x. EncodeObject E no_sem k x) (\<lambda>k a b. token_compare E k a b) sem tk v
      | NatToken \<Rightarrow> nat_EncodeObject E sem v
      | StringToken \<Rightarrow> string_EncodeObject sem v
      | AddressToken \<Rightarrow> address_EncodeObject E sem v
      | TxRollupL2AddressToken \<Rightarrow> tx_rollup_l2_address_EncodeObject E sem v
      | BoolToken \<Rightarrow> bool_EncodeObject sem v
      | ContractToken \<Rightarrow> contract_EncodeObject E sem v
      | MutezToken \<Rightarrow> mutez_EncodeObject E sem v
      | BytesToken \<Rightarrow> bytes_EncodeObject E sem v
      | TimestampToken \<Rightarrow> timestamp_EncodeObject E sem v
      | IntToken \<Rightarrow> int_EncodeObject E sem v
      | UnitToken \<Rightarrow> unit_EncodeObject sem v
      | KeyToken \<Rightarrow> key_EncodeObject E sem v
      | KeyHashToken \<Rightarrow> key_hash_EncodeObject E sem v
      | SignatureToken \<Rightarrow> signature_EncodeObject E sem v
      | LambdaToken \<Rightarrow> lambda_EncodeObject sem v
      | OperationToken \<Rightarrow> operation_EncodeObject sem v
      | ChainIDToken \<Rightarrow> chain_id_EncodeObject E sem v
      | TicketToken \<Rightarrow> ticket_EncodeObject sem tk v
      | TicketDeprecatedToken \<Rightarrow> ticket_deprecated_EncodeObject sem tk v
      | NeverToken \<Rightarrow> never_EncodeObject sem v
      | SaplingStateToken \<Rightarrow> sapling_state_EncodeObject sem v
      | SaplingTransactionToken \<Rightarrow> sapling_transaction_EncodeObject E sem v
      | SaplingTransactionDeprecatedToken \<Rightarrow> sapling_transaction_deprecated_EncodeObject E sem v
      | Bls12381frToken \<Rightarrow> bls12_381_fr_EncodeObject E sem v
      | Bls12381g1Token \<Rightarrow> bls12_381_g1_EncodeObject E sem v
      | Bls12381g2Token \<Rightarrow> bls12_381_g2_EncodeObject E sem v
      | ChestToken \<Rightarrow> chest_EncodeObject E sem v
      | ChestKeyToken \<Rightarrow> chest_key_EncodeObject E sem v
      | GlobalConstantToken \<Rightarrow> constant_EncodeObject sem tk v)"
| "token_compare E tk a b =
     (if tok_class tk = PairToken then pair_compare (\<lambda>k x y. token_compare E k x y) tk a b
      else if tok_class tk = OrToken then
        or_compare E (\<lambda>k x. EncodeObject E no_sem k x) (\<lambda>k x y. token_compare E k x y) tk a b
      else if tok_class tk = OptionToken then option_compare (\<lambda>k x y. token_compare E k x y) tk a b
      else if tok_class tk = IntToken \<or> tok_class tk = NatToken \<or> tok_class tk = MutezToken then number_compare E a b
      else if tok_class tk = BoolToken then bool_compare a b
      else if tok_class tk = UnitToken then unit_compare a b
      else if tok_class tk = AddressToken then address_compare a b
      else if tok_class tk = KeyToken then key_compare E a b
      else if comparable (tok_class tk) then base_compare a b
      else Inl (JsTypeError ''compare is not a function''))"
  by pat_completeness auto
termination
  by (relation "measures [case_sum (\<lambda>(E, sem, tk, v). vsize v) (\<lambda>(E, tk, a, b). max (vsize a) (vsize b)),
    case_sum (\<lambda>(E, sem, tk, v). tok_size tk) (\<lambda>(E, tk, a, b). tok_size tk), case_sum (\<lambda>_. 0) (\<lambda>_. 1)]") auto

declare EncodeObject.simps [simp del] token_compare.simps [simp del]

section \<open>Encoding from a stack of arguments\<close>

text \<open>\<open>args.pop()\<close>; the head of the list is the last element of the array.\<close>

fun stack_pop :: "jsval list \<Rightarrow> jsval \<times> jsval list" where
  "stack_pop [] = (JsUndefined, [])"
| "stack_pop (x # xs) = (x, xs)"

definition pair_Encode :: "(Token \<Rightarrow> jsval list \<Rightarrow> (jsval \<times> jsval list) enc) \<Rightarrow> Token \<Rightarrow> jsval list \<Rightarrow> (jsval \<times> jsval list) enc" where
  "pair_Encode enc tk args =
     bindR (pair_tokens tk) (\<lambda>(l, r).
     bindR (enc l args) (\<lambda>(a, args1). bindR (enc r args1) (\<lambda>(b, args2). Inr (js_prim ''Pair'' [a, b], args2))))"

definition or_attempt_args ::
    "(Token \<Rightarrow> jsval list \<Rightarrow> (jsval \<times> jsval list) enc) \<Rightarrow> Token \<Rightarrow> jsval list \<Rightarrow> (jsval \<times> jsval list) enc" where
  "or_attempt_args enc k args = (if tok_class k = OrToken then enc k args else Inr (JsNull, args))"

definition or_Encode ::
    "enc_libs \<Rightarrow> (Token \<Rightarrow> jsval list \<Rightarrow> (jsval \<times> jsval list) enc) \<Rightarrow> Token \<Rightarrow> jsval list \<Rightarrow> (jsval \<times> jsval list) enc" where
  "or_Encode E enc tk args =
     (let label = js_String E (fst (stack_pop args)) in
     bindR (or_tokens tk) (\<lambda>(l, r).
     bindR (is_branch l label) (\<lambda>isl.
     if isl then bindR (enc l (snd (stack_pop args))) (\<lambda>(m, args1). Inr (js_prim ''Left'' [m], args1))
     else bindR (is_branch r label) (\<lambda>isr.
     if isr then bindR (enc r (snd (stack_pop args))) (\<lambda>(m, args1). Inr (js_prim ''Right'' [m], args1))
     else bindR (or_attempt_args enc l args) (\<lambda>(m, args1).
       if truthy m then Inr (js_prim ''Left'' [m], args1)
       else bindR (or_attempt_args enc r args1) (\<lambda>(m, args2).
         if truthy m then Inr (js_prim ''Right'' [m], args2) else Inr (JsNull, args2)))))))"

definition option_Encode ::
    "(Token \<Rightarrow> jsval list \<Rightarrow> (jsval \<times> jsval list) enc) \<Rightarrow> Token \<Rightarrow> jsval list \<Rightarrow> (jsval \<times> jsval list) enc" where
  "option_Encode enc tk args =
     (if nullish (fst (stack_pop args)) then Inr (js_prim0 ''None'', snd (stack_pop args))
      else bindR (sub_token tk 0 0) (\<lambda>k. bindR (enc k args) (\<lambda>(m, args1). Inr (js_prim ''Some'' [m], args1))))"

text \<open>\<open>ListToken.Encode\<close> checks the value before it makes the token of the elements.\<close>

definition list_Encode :: "enc_libs \<Rightarrow> Token \<Rightarrow> jsval \<Rightarrow> jsval enc" where
  "list_Encode E tk v =
     (case v of
        JsArr xs \<Rightarrow> bindR (sub_token tk 0 0) (\<lambda>k. bindR (mapR (EncodeObject E no_sem k) xs) (\<lambda>ms. Inr (JsArr ms)))
      | _ \<Rightarrow> Inl (ValidationError ''ListValidationError'' v))"

text \<open>\<open>OperationToken.Encode(...args)\<close> takes the array of arguments itself for the value.\<close>

definition operation_Encode :: "jsval list \<Rightarrow> jsval" where
  "operation_Encode args = js_obj1 ''string'' (JsArr (rev args))"

text \<open>The other classes pop their value and encode it without semantics.\<close>

definition value_Encode :: "enc_libs \<Rightarrow> Token \<Rightarrow> jsval \<Rightarrow> jsval enc" where
  "value_Encode E tk v =
     (if tok_class tk = BytesToken then bytes_Encode E v
      else if tok_class tk = ListToken then list_Encode E tk v
      else EncodeObject E no_sem tk v)"

lemma pair_Encode_cong [fundef_cong]:
  assumes "tk = tk'" "args = args'"
    and "\<And>k xs. tok_size k < tok_size tk' \<Longrightarrow> f k xs = f' k xs"
  shows "pair_Encode f tk args = pair_Encode f' tk' args'"
  unfolding pair_Encode_def assms(1,2)
  by (rule bindR_cong [OF refl]) (auto dest!: pair_tokens_size intro!: bindR_cong assms(3))

lemma or_Encode_cong [fundef_cong]:
  assumes "tk = tk'" "args = args'"
    and "\<And>k xs. tok_size k < tok_size tk' \<Longrightarrow> f k xs = f' k xs"
  shows "or_Encode E f tk args = or_Encode E f' tk' args'"
  unfolding or_Encode_def or_attempt_args_def assms(1,2) Let_def
  by (rule bindR_cong [OF refl]) (auto dest!: or_tokens_size intro!: bindR_cong assms(3))

lemma option_Encode_cong [fundef_cong]:
  assumes "tk = tk'" "args = args'"
    and "\<And>k xs. tok_size k < tok_size tk' \<Longrightarrow> f k xs = f' k xs"
  shows "option_Encode f tk args = option_Encode f' tk' args'"
  unfolding option_Encode_def assms(1,2)
  by (intro if_cong bindR_cong refl) (auto dest!: sub_token_size intro!: assms(3))

function Encode :: "enc_libs \<Rightarrow> Token \<Rightarrow> jsval list \<Rightarrow> (jsval \<times> jsval list) enc" where
  "Encode E tk args =
     (case tok_class tk of
        PairToken \<Rightarrow> pair_Encode (\<lambda>k xs. Encode E k xs) tk args
      | OrToken \<Rightarrow> or_Encode E (\<lambda>k xs. Encode E k xs) tk args
      | OptionToken \<Rightarrow> option_Encode (\<lambda>k xs. Encode E k xs) tk args
      | OperationToken \<Rightarrow> Inr (operation_Encode args, args)
      | _ \<Rightarrow> bindR (value_Encode E tk (fst (stack_pop args))) (\<lambda>m. Inr (m, snd (stack_pop args))))"
  by pat_completeness auto
termination
  by (relation "measure (\<lambda>(E, tk, args). tok_size tk)") auto

declare Encode.simps [simp del]

section \<open>Keys of big maps\<close>

definition structured_ToBigMapKey :: "enc_libs \<Rightarrow> Token \<Rightarrow> jsval \<Rightarrow> jsval enc" where
  "structured_ToBigMapKey E tk v =
     bindR (EncodeObject E no_sem tk v) (\<lambda>k. Inr (big_key k (js_of_expr (withoutAnnotations (tok_val tk)))))"

definition ToBigMapKey :: "enc_libs \<Rightarrow> Token \<Rightarrow> jsval \<Rightarrow> jsval enc" where
  "ToBigMapKey E tk v =
     (case tok_class tk of
        PairToken \<Rightarrow> structured_ToBigMapKey E tk v
      | OrToken \<Rightarrow> structured_ToBigMapKey E tk v
      | OptionToken \<Rightarrow> structured_ToBigMapKey E tk v
      | NatToken \<Rightarrow> nat_ToBigMapKey E v
      | IntToken \<Rightarrow> int_ToBigMapKey E v
      | MutezToken \<Rightarrow> mutez_ToBigMapKey E v
      | StringToken \<Rightarrow> string_ToBigMapKey v
      | BytesToken \<Rightarrow> bytes_ToBigMapKey v
      | BoolToken \<Rightarrow> bool_ToBigMapKey v
      | UnitToken \<Rightarrow> unit_ToBigMapKey v
      | TimestampToken \<Rightarrow> timestamp_ToBigMapKey v
      | AddressToken \<Rightarrow> address_ToBigMapKey E v
      | TxRollupL2AddressToken \<Rightarrow> tx_rollup_l2_address_ToBigMapKey E v
      | KeyToken \<Rightarrow> key_ToBigMapKey v
      | KeyHashToken \<Rightarrow> key_hash_ToBigMapKey v
      | SignatureToken \<Rightarrow> signature_ToBigMapKey v
      | ChainIDToken \<Rightarrow> chain_id_ToBigMapKey v
      | _ \<Rightarrow> Inl (JsTypeError ''ToBigMapKey is not a function''))"

end
