(* ===== verification/EncoderExecute.thy ===== *)
theory EncoderExecute
  imports EncoderObject
begin

text \<open>
  From Michelson to JavaScript values: \<open>Execute\<close> and \<open>ToKey\<close> of the tokens, and the schema classes
  over them (\<open>schema/storage.ts\<close>, \<open>schema/parameter.ts\<close>, \<open>schema/view-schema.ts\<close>).
\<close>

section \<open>Execute of the composite tokens\<close>

text \<open>\<open>collapse(val, 'Pair')\<close>: the two components of a pair of data, in any of its forms.\<close>

definition pair_of_args :: "jsval list \<Rightarrow> jsval \<times> jsval" where
  "pair_of_args xs =
     (case xs of
        a # b # c # ys \<Rightarrow> (a, js_prim ''Pair'' (b # c # ys))
      | [a, b] \<Rightarrow> (a, b)
      | [a] \<Rightarrow> (a, JsUndefined)
      | [] \<Rightarrow> (JsUndefined, JsUndefined))"

definition collapse_data :: "jsval \<Rightarrow> (jsval \<times> jsval) enc" where
  "collapse_data v =
     (case v of
        JsArr xs \<Rightarrow> Inr (pair_of_args xs)
      | _ \<Rightarrow> bindR (js_get v ''args'') (\<lambda>a.
          case a of
            JsUndefined \<Rightarrow> Inl TokenArgumentValidationError
          | JsNull \<Rightarrow> Inl (JsTypeError ''length'')
          | JsArr xs \<Rightarrow> Inr (pair_of_args xs)
          | _ \<Rightarrow> Inl Unmodelled))"

definition pair_Execute :: "(Token \<Rightarrow> jsval \<Rightarrow> jsval enc) \<Rightarrow> Token \<Rightarrow> jsval \<Rightarrow> jsval enc" where
  "pair_Execute ex tk v =
     bindR (collapse_data v) (\<lambda>(a, b). pair_traversal ExtractSchema (\<lambda>l. ex l a) (\<lambda>r. ex r b) tk)"

text \<open>The value under the label of its branch, or of the union below.\<close>

definition branch_value :: "(Token \<Rightarrow> jsval \<Rightarrow> jsval enc) \<Rightarrow> Token \<Rightarrow> jsval \<Rightarrow> jsval enc" where
  "branch_value ex k v =
     (if tok_class k = OrToken then bindR (js_arg v 0) (\<lambda>x. ex k x)
      else bindR (annot k) (\<lambda>a. bindR (js_arg v 0) (\<lambda>x. bindR (ex k x) (\<lambda>y. Inr (JsObj [(a, y)])))))"

definition or_Execute :: "(Token \<Rightarrow> jsval \<Rightarrow> jsval enc) \<Rightarrow> Token \<Rightarrow> jsval \<Rightarrow> jsval enc" where
  "or_Execute ex tk v =
     bindR (or_tokens tk) (\<lambda>(l, r).
     bindR (js_get v ''prim'') (\<lambda>p.
     if p = JsStr ''Right'' then branch_value ex r v
     else if p = JsStr ''Left'' then branch_value ex l v
     else Inl (OrTokenDecodingError p)))"

definition option_Execute :: "(Token \<Rightarrow> jsval \<Rightarrow> jsval enc) \<Rightarrow> Token \<Rightarrow> jsval \<Rightarrow> jsval enc" where
  "option_Execute ex tk v =
     bindR (js_get v ''prim'') (\<lambda>p.
     if p = JsStr ''None'' then Inr JsNull
     else bindR (sub_token tk 0 0) (\<lambda>k. bindR (js_arg v 0) (\<lambda>x. ex k x)))"

definition list_Execute :: "(Token \<Rightarrow> jsval \<Rightarrow> jsval enc) \<Rightarrow> Token \<Rightarrow> jsval \<Rightarrow> jsval enc" where
  "list_Execute ex tk v =
     bindR (sub_token tk 0 0) (\<lambda>k.
     case v of
       JsArr xs \<Rightarrow> bindR (mapR (\<lambda>x. ex k x) xs) (\<lambda>ys. Inr (JsArr ys))
     | _ \<Rightarrow> Inl (ValidationError ''ListValidationError'' v))"

definition set_Execute :: "(Token \<Rightarrow> jsval \<Rightarrow> jsval enc) \<Rightarrow> Token \<Rightarrow> jsval \<Rightarrow> jsval enc" where
  "set_Execute ex tk v =
     (case v of
        JsArr xs \<Rightarrow> bindR (mapR (\<lambda>x. bindR (sub_token tk 0 0) (\<lambda>k. ex k x)) xs) (\<lambda>ys. Inr (JsArr ys))
      | _ \<Rightarrow> Inl (JsTypeError ''reduce''))"

text \<open>\<open>ToKey\<close>; \<open>ex\<close> is \<open>Execute\<close> without semantics.  \<open>BoolToken\<close> encodes what it is given.\<close>

definition ToKey :: "enc_libs \<Rightarrow> (Token \<Rightarrow> jsval \<Rightarrow> jsval enc) \<Rightarrow> Token \<Rightarrow> jsval \<Rightarrow> jsval enc" where
  "ToKey E ex k v =
     (case tok_class k of
        PairToken \<Rightarrow> ex k v
      | OrToken \<Rightarrow> ex k v
      | OptionToken \<Rightarrow> ex k v
      | KeyToken \<Rightarrow> ex k v
      | SignatureToken \<Rightarrow> ex k v
      | NatToken \<Rightarrow> nat_ToKey E v
      | IntToken \<Rightarrow> int_ToKey v
      | MutezToken \<Rightarrow> mutez_ToKey v
      | StringToken \<Rightarrow> string_ToKey v
      | BytesToken \<Rightarrow> bytes_ToKey v
      | BoolToken \<Rightarrow> bool_ToKey v
      | UnitToken \<Rightarrow> unit_ToKey v
      | TimestampToken \<Rightarrow> timestamp_ToKey v
      | AddressToken \<Rightarrow> address_ToKey E v
      | TxRollupL2AddressToken \<Rightarrow> tx_rollup_l2_address_ToKey E v
      | KeyHashToken \<Rightarrow> key_hash_ToKey E v
      | ChainIDToken \<Rightarrow> chain_id_ToKey v
      | _ \<Rightarrow> Inl (JsTypeError ''ToKey is not a function''))"

text \<open>Each entry of a map is read and set in turn; \<open>set\<close> checks it against the type of the map.\<close>

fun fill_map ::
    "(jsval \<Rightarrow> (jsval \<times> jsval) enc) \<Rightarrow> ((jsval \<times> jsval) list \<Rightarrow> jsval \<Rightarrow> jsval \<Rightarrow> (jsval \<times> jsval) list enc)
      \<Rightarrow> jsval list \<Rightarrow> (jsval \<times> jsval) list \<Rightarrow> (jsval \<times> jsval) list enc" where
  "fill_map rd put [] es = Inr es"
| "fill_map rd put (c # cs) es = bindR (rd c) (\<lambda>(k, x). bindR (put es k x) (\<lambda>es'. fill_map rd put cs es'))"

definition read_entry ::
    "enc_libs \<Rightarrow> (Token \<Rightarrow> jsval \<Rightarrow> jsval enc) \<Rightarrow> (Token \<Rightarrow> jsval \<Rightarrow> jsval enc) \<Rightarrow> Token \<Rightarrow> jsval \<Rightarrow> (jsval \<times> jsval) enc" where
  "read_entry E ex0 ex tk c =
     bindR (sub_token tk 0 0) (\<lambda>kt. bindR (js_arg c 0) (\<lambda>a. bindR (ToKey E ex0 kt a) (\<lambda>k.
     bindR (sub_token tk 1 0) (\<lambda>vt. bindR (js_arg c 1) (\<lambda>b. bindR (ex vt b) (\<lambda>x. Inr (k, x)))))))"

definition set_entry :: "enc_libs \<Rightarrow> (expr \<times> expr) option \<Rightarrow> (jsval \<times> jsval) list \<Rightarrow> jsval \<Rightarrow> jsval \<Rightarrow> (jsval \<times> jsval) list enc" where
  "set_entry E sch es k x = map_set E (EncodeObject E no_sem) es sch k x"

definition map_of_elts ::
    "enc_libs \<Rightarrow> (Token \<Rightarrow> jsval \<Rightarrow> jsval enc) \<Rightarrow> (Token \<Rightarrow> jsval \<Rightarrow> jsval enc) \<Rightarrow> Token \<Rightarrow> jsval list \<Rightarrow> jsval enc" where
  "map_of_elts E ex0 ex tk xs =
     bindR (newMichelsonMap (tok_val tk)) (\<lambda>m.
     case m of
       JsMap es sch \<Rightarrow> bindR (fill_map (read_entry E ex0 ex tk) (set_entry E sch) xs es) (\<lambda>es'. Inr (JsMap es' sch))
     | _ \<Rightarrow> Inr m)"

definition map_Execute ::
    "enc_libs \<Rightarrow> (Token \<Rightarrow> jsval \<Rightarrow> jsval enc) \<Rightarrow> (Token \<Rightarrow> jsval \<Rightarrow> jsval enc) \<Rightarrow> Token \<Rightarrow> jsval \<Rightarrow> jsval enc" where
  "map_Execute E ex0 ex tk v =
     (case v of
        JsArr xs \<Rightarrow> map_of_elts E ex0 ex tk xs
      | JsMap _ _ \<Rightarrow> Inl Unmodelled
      | _ \<Rightarrow> bindR (newMichelsonMap (tok_val tk)) (\<lambda>_. Inl (JsTypeError ''forEach'')))"

text \<open>A big map is its entries, or the number of the map in the storage.\<close>

definition bigmap_Execute :: "enc_libs \<Rightarrow> (Token \<Rightarrow> jsval \<Rightarrow> jsval enc) \<Rightarrow> semantics \<Rightarrow> Token \<Rightarrow> jsval \<Rightarrow> jsval enc" where
  "bigmap_Execute E ex0 sem tk v =
     with_sem sem ''big_map'' v (Some (tok_val tk))
       (case v of
          JsArr xs \<Rightarrow> map_of_elts E ex0 ex0 tk xs
        | _ \<Rightarrow> bindR (js_has v ''int'') (\<lambda>h.
            if h then js_get v ''int'' else Inl (ValidationError ''BigMapValidationError'' v)))"

text \<open>A ticket, with its value and amount side by side or in a pair.\<close>

definition ticket_Execute :: "string \<Rightarrow> enc_libs \<Rightarrow> (Token \<Rightarrow> jsval \<Rightarrow> jsval enc) \<Rightarrow> semantics \<Rightarrow> Token \<Rightarrow> jsval \<Rightarrow> jsval enc" where
  "ticket_Execute prim E ex sem tk v =
     with_sem sem prim v (Some (tok_val tk))
       (bindR (sub_token tk 0 (tok_idx tk)) (\<lambda>vt.
        bindR (js_arg v 2) (\<lambda>third.
        bindR (if third = JsUndefined then bindR (js_arg v 1) (\<lambda>p. bindR (js_get p ''args'') (\<lambda>a. Inr (a \<noteq> JsUndefined)))
               else Inr False) (\<lambda>nested.
        bindR (bindR (js_arg v 0) (contract_Execute E)) (\<lambda>ticketer.
        bindR (bindR (if nested then bindR (js_arg v 1) (\<lambda>p. js_arg p 0) else js_arg v 1) (\<lambda>x. ex vt x)) (\<lambda>val.
        bindR (bindR (if nested then bindR (js_arg v 1) (\<lambda>p. js_arg p 1) else js_arg v 2) (int_Execute E)) (\<lambda>amount.
        Inr (JsObj [(''ticketer'', ticketer), (''value'', val), (''amount'', amount)]))))))))"

lemma pair_Execute_cong [fundef_cong]:
  assumes "tk = tk'" "v = v'"
    and "\<And>k x. tok_size k < tok_size tk' \<Longrightarrow> f k x = f' k x"
  shows "pair_Execute f tk v = pair_Execute f' tk' v'"
  unfolding pair_Execute_def assms(1,2)
  by (rule bindR_cong [OF refl]) (auto intro!: pair_traversal_cong assms(3))

lemma or_Execute_cong [fundef_cong]:
  assumes "tk = tk'" "v = v'"
    and "\<And>k x. tok_size k < tok_size tk' \<Longrightarrow> f k x = f' k x"
  shows "or_Execute f tk v = or_Execute f' tk' v'"
  unfolding or_Execute_def branch_value_def assms(1,2)
  by (rule bindR_cong [OF refl]) (auto dest!: or_tokens_size intro!: bindR_cong assms(3))

lemma option_Execute_cong [fundef_cong]:
  assumes "tk = tk'" "v = v'"
    and "\<And>k x. tok_size k < tok_size tk' \<Longrightarrow> f k x = f' k x"
  shows "option_Execute f tk v = option_Execute f' tk' v'"
  unfolding option_Execute_def assms(1,2)
  by (intro if_cong bindR_cong refl) (auto dest!: sub_token_size intro!: assms(3))

lemma list_Execute_cong [fundef_cong]:
  assumes "tk = tk'" "v = v'"
    and "\<And>k x. tok_size k < tok_size tk' \<Longrightarrow> f k x = f' k x"
  shows "list_Execute f tk v = list_Execute f' tk' v'"
  unfolding list_Execute_def assms(1,2)
  by (rule bindR_cong [OF refl]) (auto dest!: sub_token_size intro!: bindR_cong mapR_cong assms(3) split: jsval.split)

lemma set_Execute_cong [fundef_cong]:
  assumes "tk = tk'" "v = v'"
    and "\<And>k x. tok_size k < tok_size tk' \<Longrightarrow> f k x = f' k x"
  shows "set_Execute f tk v = set_Execute f' tk' v'"
  unfolding set_Execute_def assms(1,2)
  by (auto dest!: sub_token_size intro!: bindR_cong mapR_cong assms(3) split: jsval.split)

lemma fill_map_cong: "(\<And>c. rd c = rd' c) \<Longrightarrow> fill_map rd put xs es = fill_map rd' put xs es"
  by (induction xs arbitrary: es) (auto intro!: bindR_cong)

lemma map_of_elts_cong:
  assumes "\<And>k x. tok_size k < tok_size tk \<Longrightarrow> f k x = f' k x"
    and "\<And>k x. tok_size k < tok_size tk \<Longrightarrow> g k x = g' k x"
  shows "map_of_elts E f g tk xs = map_of_elts E f' g' tk xs"
proof -
  have k: "ToKey E f k x = ToKey E f' k x" if "tok_size k < tok_size tk" for k x
    using assms(1) [OF that] by (simp add: ToKey_def split: token_class.split)
  have "read_entry E f g tk c = read_entry E f' g' tk c" for c
    unfolding read_entry_def by (intro bindR_cong refl) (auto dest!: sub_token_size intro: k assms(2))
  then have r: "fill_map (read_entry E f g tk) put xs es = fill_map (read_entry E f' g' tk) put xs es" for put es
    by (rule fill_map_cong)
  show ?thesis unfolding map_of_elts_def r ..
qed

lemma map_Execute_cong [fundef_cong]:
  assumes "tk = tk'" "v = v'"
    and "\<And>k x. tok_size k < tok_size tk' \<Longrightarrow> f k x = f' k x"
    and "\<And>k x. tok_size k < tok_size tk' \<Longrightarrow> g k x = g' k x"
  shows "map_Execute E f g tk v = map_Execute E f' g' tk' v'"
  using map_of_elts_cong [of tk' f f' g g', OF assms(3,4)] by (simp add: map_Execute_def assms(1,2) split: jsval.split)

lemma bigmap_Execute_cong [fundef_cong]:
  assumes "sem = sem'" "tk = tk'" "v = v'"
    and "\<And>k x. tok_size k < tok_size tk' \<Longrightarrow> f k x = f' k x"
  shows "bigmap_Execute E f sem tk v = bigmap_Execute E f' sem' tk' v'"
  using map_of_elts_cong [of tk' f f' f f', OF assms(4,4)] by (simp add: bigmap_Execute_def assms(1-3) split: jsval.split)

lemma ticket_Execute_cong [fundef_cong]:
  assumes "sem = sem'" "tk = tk'" "v = v'"
    and "\<And>k x. tok_size k < tok_size tk' \<Longrightarrow> f k x = f' k x"
  shows "ticket_Execute p E f sem tk v = ticket_Execute p E f' sem' tk' v'"
  unfolding ticket_Execute_def assms(1-3)
  by (intro arg_cong [where f = "with_sem sem' p _ _"] bindR_cong refl) (auto dest!: sub_token_size intro!: assms(4))

section \<open>All tokens\<close>

function Execute :: "enc_libs \<Rightarrow> semantics \<Rightarrow> Token \<Rightarrow> jsval \<Rightarrow> jsval enc" where
  "Execute E sem tk v =
     (case tok_class tk of
        PairToken \<Rightarrow> pair_Execute (\<lambda>k x. Execute E sem k x) tk v
      | OrToken \<Rightarrow> or_Execute (\<lambda>k x. Execute E sem k x) tk v
      | OptionToken \<Rightarrow> option_Execute (\<lambda>k x. Execute E sem k x) tk v
      | ListToken \<Rightarrow> list_Execute (\<lambda>k x. Execute E sem k x) tk v
      | SetToken \<Rightarrow> set_Execute (\<lambda>k x. Execute E sem k x) tk v
      | MapToken \<Rightarrow> map_Execute E (\<lambda>k x. Execute E no_sem k x) (\<lambda>k x. Execute E sem k x) tk v
      | BigMapToken \<Rightarrow> bigmap_Execute E (\<lambda>k x. Execute E no_sem k x) sem tk v
      | TicketToken \<Rightarrow> ticket_Execute ''ticket'' E (\<lambda>k x. Execute E sem k x) sem tk v
      | TicketDeprecatedToken \<Rightarrow> ticket_Execute ''ticket_deprecated'' E (\<lambda>k x. Execute E sem k x) sem tk v
      | NatToken \<Rightarrow> nat_Execute E v
      | StringToken \<Rightarrow> string_Execute v
      | AddressToken \<Rightarrow> address_Execute E v
      | TxRollupL2AddressToken \<Rightarrow> tx_rollup_l2_address_Execute E v
      | BoolToken \<Rightarrow> bool_Execute E v
      | ContractToken \<Rightarrow> contract_Execute E v
      | MutezToken \<Rightarrow> mutez_Execute E v
      | BytesToken \<Rightarrow> bytes_Execute v
      | TimestampToken \<Rightarrow> timestamp_Execute E v
      | IntToken \<Rightarrow> int_Execute E v
      | UnitToken \<Rightarrow> unit_Execute v
      | KeyToken \<Rightarrow> key_Execute E v
      | KeyHashToken \<Rightarrow> key_hash_Execute E v
      | SignatureToken \<Rightarrow> signature_Execute v
      | LambdaToken \<Rightarrow> lambda_Execute v
      | OperationToken \<Rightarrow> operation_Execute v
      | ChainIDToken \<Rightarrow> chain_id_Execute v
      | NeverToken \<Rightarrow> never_Execute v
      | SaplingStateToken \<Rightarrow> sapling_state_Execute sem tk v
      | SaplingTransactionToken \<Rightarrow> sapling_transaction_Execute ''SaplingTransactionValidationError'' v
      | SaplingTransactionDeprecatedToken \<Rightarrow> sapling_transaction_Execute ''SaplingTransactionDeprecatedValidationError'' v
      | Bls12381frToken \<Rightarrow> hex_class_Execute v
      | Bls12381g1Token \<Rightarrow> hex_class_Execute v
      | Bls12381g2Token \<Rightarrow> hex_class_Execute v
      | ChestToken \<Rightarrow> hex_class_Execute v
      | ChestKeyToken \<Rightarrow> hex_class_Execute v
      | GlobalConstantToken \<Rightarrow> constant_Execute sem tk v)"
  by pat_completeness auto
termination
  by (relation "measure (\<lambda>(E, sem, tk, v). tok_size tk)") auto

declare Execute.simps [simp del]

end
