(* ===== verification/EncoderSchemas.thy ===== *)
theory EncoderSchemas
  imports EncoderExecute
begin

text \<open>
  The schema classes of \<open>taquito-michelson-encoder\<close>: \<open>Schema\<close> of a storage, \<open>ParameterSchema\<close> of the
  entry points and \<open>ViewSchema\<close> of a view.  A script is the list of its top-level sections.
\<close>

section \<open>Schema of a storage\<close>

text \<open>\<open>Schema.fromRPCResponse\<close>: a section that is an array is searched for its exceptions only.\<close>

function storage_section :: "expr list \<Rightarrow> expr enc" where
  "storage_section code =
     (case code of
        [] \<Rightarrow> Inl InvalidRpcResponseError
      | x # xs \<Rightarrow>
          (case x of
             Seq ys \<Rightarrow> bindR (bindR (storage_section ys) newSchema) (\<lambda>_. storage_section xs)
           | Prim p args an \<Rightarrow>
               if p = ''storage'' then
                 (case args of
                    Some (t # _) \<Rightarrow> Inr t
                  | Some [] \<Rightarrow> Inl (JsTypeError ''prim'')
                  | None \<Rightarrow> Inl InvalidRpcResponseError)
               else storage_section xs
           | _ \<Rightarrow> storage_section xs))"
  by pat_completeness auto
termination
  by (relation "measure (size_list size)") auto

declare storage_section.simps [simp del]

definition Schema_fromRPCResponse :: "expr list \<Rightarrow> Schema enc" where
  "Schema_fromRPCResponse code = bindR (storage_section code) newSchema"

definition removeTopLevelAnnotation :: "Token \<Rightarrow> jsval \<Rightarrow> jsval enc" where
  "removeTopLevelAnnotation root obj =
     (if (tok_class root = PairToken \<or> tok_class root = OrToken) \<and> hasAnnotations root \<and> is_object_type obj then
        bindR (js_keys obj) (\<lambda>ks. case ks of [k] \<Rightarrow> js_get obj k | _ \<Rightarrow> Inr obj)
      else Inr obj)"

definition Schema_Execute :: "enc_libs \<Rightarrow> Schema \<Rightarrow> jsval \<Rightarrow> semantics \<Rightarrow> jsval enc" where
  "Schema_Execute E S v sem = bindR (Execute E sem (schema_root S) v) (removeTopLevelAnnotation (schema_root S))"

definition Schema_ExecuteOnBigMapDiff :: "enc_libs \<Rightarrow> Schema \<Rightarrow> jsval \<Rightarrow> semantics \<Rightarrow> jsval enc" where
  "Schema_ExecuteOnBigMapDiff E S diff sem =
     (case schema_bigMap S of
        None \<Rightarrow> Inl InvalidBigMapSchema
      | Some b \<Rightarrow>
          (case diff of
             JsArr xs \<Rightarrow>
               bindR (mapR (\<lambda>d. bindR (js_get d ''key'') (\<lambda>k. bindR (js_get d ''value'') (\<lambda>x.
                 Inr (js_obj1 ''args'' (JsArr [k, x]))))) xs) (\<lambda>elts. Execute E sem b (JsArr elts))
           | _ \<Rightarrow> Inl InvalidBigMapDiff))"

definition Schema_ExecuteOnBigMapValue :: "enc_libs \<Rightarrow> Schema \<Rightarrow> jsval \<Rightarrow> semantics \<Rightarrow> jsval enc" where
  "Schema_ExecuteOnBigMapValue E S v sem =
     (case schema_bigMap S of
        None \<Rightarrow> Inl InvalidBigMapSchema
      | Some b \<Rightarrow> bindR (sub_token b 1 0) (\<lambda>k. Execute E sem k v))"

definition Schema_EncodeBigMapKey :: "enc_libs \<Rightarrow> Schema \<Rightarrow> jsval \<Rightarrow> jsval enc" where
  "Schema_EncodeBigMapKey E S key =
     (case schema_bigMap S of
        None \<Rightarrow> Inl InvalidBigMapSchema
      | Some b \<Rightarrow>
          (case bindR (sub_token b 0 0) (\<lambda>k. ToBigMapKey E k key) of
             Inl e \<Rightarrow> Inl (BigMapEncodingError e)
           | Inr r \<Rightarrow> Inr r))"

text \<open>An exception of a token is passed on, any other is wrapped.\<close>

definition wrap_error :: "(enc_error \<Rightarrow> enc_error) \<Rightarrow> 'a enc \<Rightarrow> 'a enc" where
  "wrap_error w m = (case m of Inl (ValidationError c v) \<Rightarrow> Inl (ValidationError c v) | Inl e \<Rightarrow> Inl (w e) | Inr x \<Rightarrow> Inr x)"

definition Schema_Encode :: "enc_libs \<Rightarrow> Schema \<Rightarrow> jsval \<Rightarrow> semantics \<Rightarrow> jsval enc" where
  "Schema_Encode E S v sem = wrap_error StorageEncodingError (EncodeObject E sem (schema_root S) v)"

definition Schema_ExtractSchema :: "Schema \<Rightarrow> jsval enc" where
  "Schema_ExtractSchema S = bindR (ExtractSchema (schema_root S)) (removeTopLevelAnnotation (schema_root S))"

definition Schema_generateSchema :: "Schema \<Rightarrow> jsval enc" where
  "Schema_generateSchema S = bindR (generateSchema (schema_root S)) (removeTopLevelAnnotation (schema_root S))"

definition Schema_findToken :: "Schema \<Rightarrow> string \<Rightarrow> Token list enc" where
  "Schema_findToken S p = findAndReturnTokens p (schema_root S)"

section \<open>Looking for a value by its type\<close>

text \<open>\<open>collapse\<close> of the schemas: primitive, arguments and annotations of an expression, with a long
  pair folded to the right; a literal has none of them.\<close>

definition collapsed :: "string \<Rightarrow> expr \<Rightarrow> string option \<times> expr list option \<times> string list option" where
  "collapsed prim e =
     (let (p, args, an) = (case e of Seq xs \<Rightarrow> (Some prim, Some xs, None) | Prim q xs bn \<Rightarrow> (Some q, xs, bn) | _ \<Rightarrow> (None, None, None)) in
      case args of
        Some (a # b # c # xs) \<Rightarrow> if p = Some prim then (p, Some [a, Prim prim (Some (b # c # xs)) None], an) else (p, args, an)
      | _ \<Rightarrow> (p, args, an))"

lemma collapsed_size: "collapsed prim e = (p, Some xs, an) \<Longrightarrow> x \<in> set xs \<Longrightarrow> esize x < esize e"
proof (cases e rule: sub_nodes.cases)
  fix q ys bn
  assume c: "collapsed prim e = (p, Some xs, an)" "x \<in> set xs" and e: "e = Prim q (Some ys) bn"
  show ?thesis using c e esize_elem [of x ys]
    by (cases ys rule: remdups_adj.cases) (auto simp: collapsed_def Let_def split: list.splits if_splits)
next
  fix ys
  assume c: "collapsed prim e = (p, Some xs, an)" "x \<in> set xs" and e: "e = Seq ys"
  show ?thesis using c e esize_elem [of x ys] by (auto simp: collapsed_def Let_def split: list.splits if_splits)
qed (auto simp: collapsed_def)

function deepEqual :: "expr \<Rightarrow> expr \<Rightarrow> bool" where
  "deepEqual a b =
     (case (collapsed ''pair'' a, collapsed ''pair'' b) of
        ((p, xs, an), (q, ys, bn)) \<Rightarrow>
          p = q \<and> an = bn \<and>
          (case (xs, ys) of
             (None, None) \<Rightarrow> True
           | (Some us, Some vs) \<Rightarrow> length us = length vs \<and> list_all (\<lambda>(u, v). deepEqual u v) (zip us vs)
           | _ \<Rightarrow> False))"
  by pat_completeness auto
termination
  by (relation "measure (\<lambda>(a, b). esize a)") (auto dest!: set_zip_leftD dest: collapsed_size sym)

declare deepEqual.simps [simp del]

text \<open>\<open>findValue\<close>, along the pairs of the type and of the storage; \<open>None\<close> is \<open>undefined\<close>.\<close>

definition is_pair_schema :: "expr \<Rightarrow> bool" where
  "is_pair_schema t = (case t of Seq _ \<Rightarrow> True | Prim p _ _ \<Rightarrow> p = ''pair'' | _ \<Rightarrow> False)"

function findValue :: "expr \<Rightarrow> expr option \<Rightarrow> expr \<Rightarrow> expr option enc" where
  "findValue sch storage t =
     (if deepEqual t sch then Inr storage
      else if is_pair_schema sch then
        (case (collapsed ''pair'' sch, storage) of
           (_, None) \<Rightarrow> Inl (JsTypeError ''prim'')
         | ((_, None, _), _) \<Rightarrow> Inl MissingArgumentError
         | ((_, Some us, _), Some st) \<Rightarrow>
             (case collapsed ''Pair'' st of
                (_, None, _) \<Rightarrow> Inl MissingArgumentError
              | (_, Some vs, _) \<Rightarrow>
                  (case us of
                     [] \<Rightarrow> Inr None
                   | [u] \<Rightarrow> bindR (findValue u (case vs of v # _ \<Rightarrow> Some v | [] \<Rightarrow> None) t) (\<lambda>r.
                       case r of Some x \<Rightarrow> Inr (Some x) | None \<Rightarrow> Inl (JsTypeError ''prim''))
                   | u # w # _ \<Rightarrow>
                       bindR (findValue u (case vs of v # _ \<Rightarrow> Some v | [] \<Rightarrow> None) t) (\<lambda>r.
                         case r of
                           Some x \<Rightarrow> Inr (Some x)
                         | None \<Rightarrow> findValue w (case vs of _ # v # _ \<Rightarrow> Some v | _ \<Rightarrow> None) t))))
      else Inr None)"
  by pat_completeness auto
termination
  by (relation "measure (\<lambda>(s, v, t). esize s)") (auto dest: collapsed_size [OF sym] collapsed_size)

declare findValue.simps [simp del]

definition FindFirstInTopLevelPair :: "Schema \<Rightarrow> expr \<Rightarrow> expr \<Rightarrow> expr option enc" where
  "FindFirstInTopLevelPair S storage valueType = findValue (tok_val (schema_root S)) (Some storage) valueType"

section \<open>Schema of the entry points\<close>

text \<open>\<open>ParameterSchema.fromRPCResponse\<close>; the schema is its root token.\<close>

definition is_section :: "string \<Rightarrow> expr \<Rightarrow> bool" where
  "is_section p x = (case x of Prim q _ _ \<Rightarrow> q = p | _ \<Rightarrow> False)"

definition ParameterSchema_fromRPCResponse :: "expr list \<Rightarrow> Token enc" where
  "ParameterSchema_fromRPCResponse code =
     (case find (is_section ''parameter'') code of
        Some (Prim p (Some (t # _)) an) \<Rightarrow> createToken t 0
      | Some (Prim p (Some []) an) \<Rightarrow> Inl (JsTypeError ''prim'')
      | _ \<Rightarrow> Inl InvalidRpcResponseError)"

definition isMultipleEntryPoint :: "Token \<Rightarrow> bool enc" where
  "isMultipleEntryPoint root =
     (if tok_class root = OrToken then Inr True
      else if tok_class root = OptionToken then
        bindR (sub_token root 0 (tok_idx root)) (\<lambda>k. Inr (tok_class k = OrToken))
      else Inr False)"

definition parameter_hasAnnotation :: "Token \<Rightarrow> bool enc" where
  "parameter_hasAnnotation root =
     bindR (isMultipleEntryPoint root) (\<lambda>m.
     if m then bindR (ExtractSchema root) (\<lambda>s. bindR (first_key s) (\<lambda>k. Inr (k \<noteq> Some ''0'')))
     else Inr True)"

text \<open>\<open>ParameterSchema.Encode(...args)\<close>: the arguments are reversed, so the first is popped first.\<close>

definition parameter_Encode :: "enc_libs \<Rightarrow> Token \<Rightarrow> jsval list \<Rightarrow> jsval enc" where
  "parameter_Encode E root args = wrap_error ParameterEncodingError (bindR (Encode E root args) (\<lambda>(m, _). Inr m))"

definition parameter_EncodeObject :: "enc_libs \<Rightarrow> Token \<Rightarrow> jsval \<Rightarrow> semantics \<Rightarrow> jsval enc" where
  "parameter_EncodeObject E root v sem = wrap_error ParameterEncodingError (EncodeObject E sem root v)"

definition parameter_Execute :: "enc_libs \<Rightarrow> Token \<Rightarrow> jsval \<Rightarrow> semantics \<Rightarrow> jsval enc" where
  "parameter_Execute E root v sem = Execute E sem root v"

definition parameter_ExtractSignatures :: "Token \<Rightarrow> jsval list list enc" where
  "parameter_ExtractSignatures root = ExtractSignature root"

section \<open>Schema of a view\<close>

record ViewSchema =
  viewName :: string
  rootArgsType :: Token
  rootReturnType :: Token
  viewInstructions :: expr

definition newViewSchema :: "expr list \<Rightarrow> ViewSchema enc" where
  "newViewSchema val =
     (case val of
        [StringLit name, a, r, instrs] \<Rightarrow>
          bindR (createToken a 0) (\<lambda>ta. bindR (createToken r 0) (\<lambda>tr.
          Inr \<lparr>viewName = name, rootArgsType = ta, rootReturnType = tr, viewInstructions = instrs\<rparr>))
      | _ \<Rightarrow> Inl InvalidScriptError)"

definition ViewSchema_fromRPCResponse :: "expr list \<Rightarrow> ViewSchema list enc" where
  "ViewSchema_fromRPCResponse code =
     mapR (\<lambda>view. case view of
         Prim p (Some xs) an \<Rightarrow> if length xs = 4 then newViewSchema xs else Inl InvalidScriptError
       | _ \<Rightarrow> Inl InvalidScriptError) (filter (is_section ''view'') code)"

definition encodeViewArgs :: "enc_libs \<Rightarrow> ViewSchema \<Rightarrow> jsval \<Rightarrow> jsval enc" where
  "encodeViewArgs E V args =
     (case EncodeObject E no_sem (rootArgsType V) args of
        Inl e \<Rightarrow> Inl (ViewEncodingError (viewName V) e)
      | Inr m \<Rightarrow> Inr m)"

definition decodeViewResult :: "enc_libs \<Rightarrow> ViewSchema \<Rightarrow> jsval \<Rightarrow> semantics \<Rightarrow> jsval enc" where
  "decodeViewResult E V v sem = Execute E sem (rootReturnType V) v"

definition extractArgsSchema :: "ViewSchema \<Rightarrow> jsval enc" where
  "extractArgsSchema V = ExtractSchema (rootArgsType V)"

definition extractResultSchema :: "ViewSchema \<Rightarrow> jsval enc" where
  "extractResultSchema V = ExtractSchema (rootReturnType V)"

end
