(* ===== verification/EncoderSpec.thy ===== *)
theory EncoderSpec
  imports EncoderSchemas
begin

text \<open>
  Which JavaScript value stands for which Michelson data, as a relation that mentions neither
  \<open>EncodeObject\<close> nor \<open>Execute\<close>, and the names that a type must keep apart for it.
\<close>

section \<open>Labels of a union\<close>

text \<open>All labels of a union and of the unions below it.\<close>

function or_labels :: "Token \<Rightarrow> string list enc" where
  "or_labels tk =
     bindR (or_tokens tk) (\<lambda>(l, r).
     bindR (if tok_class l = OrToken then or_labels l else bindR (annot l) (\<lambda>a. Inr [a])) (\<lambda>ls.
     bindR (if tok_class r = OrToken then or_labels r else bindR (annot r) (\<lambda>a. Inr [a])) (\<lambda>rs.
     Inr (ls @ rs))))"
  by pat_completeness auto
termination
  by (relation "measure tok_size") (auto dest: or_tokens_size)

declare or_labels.simps [simp del]

section \<open>Leaves\<close>

text \<open>A text that \<open>bignumber.js\<close> reads and prints unchanged.\<close>

definition number_text :: "enc_libs \<Rightarrow> string \<Rightarrow> bool" where
  "number_text E s \<longleftrightarrow> s \<noteq> ''NaN'' \<and> s \<noteq> ''-0'' \<and> big_number E (JsBig s) = s \<and> big_number E (JsStr s) = s"

text \<open>A text that \<open>toISOString\<close> prints for the date it denotes.\<close>

definition iso_text :: "string \<Rightarrow> bool" where
  "iso_text s \<longleftrightarrow> s \<noteq> [] \<and> \<not> list_all is_digit s \<and>
     (case rfc3339Re s of
        Some r \<Rightarrow> (case date_value r of Some t \<Rightarrow> toISOString t = Some s | None \<Rightarrow> False)
      | None \<Rightarrow> False)"

definition hex_even :: "string \<Rightarrow> bool" where
  "hex_even s \<longleftrightarrow> list_all is_hex s \<and> even (js_length s)"

text \<open>The validator of a class whose values are base58 texts.\<close>

definition class_validator :: "token_class \<Rightarrow> (libs \<Rightarrow> string \<Rightarrow> ValidationResult) option" where
  "class_validator c =
     (case c of
        AddressToken \<Rightarrow> Some validateAddress
      | TxRollupL2AddressToken \<Rightarrow> Some validateAddress
      | ContractToken \<Rightarrow> Some validateAddress
      | KeyHashToken \<Rightarrow> Some validateKeyHash
      | KeyToken \<Rightarrow> Some validatePublicKey
      | SignatureToken \<Rightarrow> Some validateSignature
      | ChainIDToken \<Rightarrow> Some validateChain
      | _ \<Rightarrow> None)"

definition valid_text :: "enc_libs \<Rightarrow> token_class \<Rightarrow> string \<Rightarrow> bool" where
  "valid_text E c s \<longleftrightarrow> s \<noteq> [] \<and> (case class_validator c of Some f \<Rightarrow> f (utils E) s = VALID | None \<Rightarrow> False)"

definition hex_class :: "token_class \<Rightarrow> bool" where
  "hex_class c \<longleftrightarrow> c = BytesToken \<or> c = Bls12381frToken \<or> c = Bls12381g1Token \<or> c = Bls12381g2Token \<or> c = ChestToken \<or> c = ChestKeyToken"

definition leaf_reads :: "enc_libs \<Rightarrow> token_class \<Rightarrow> jsval \<Rightarrow> jsval \<Rightarrow> bool" where
  "leaf_reads E c m v =
     (case v of
        JsBig s \<Rightarrow> m = js_obj1 ''int'' (JsStr s) \<and> number_text E s \<and>
          (c = IntToken \<or> (c = NatToken \<and> \<not> startsWith s ''-'') \<or> (c = MutezToken \<and> big_string E s = s))
      | JsBool b \<Rightarrow> c = BoolToken \<and> m = js_prim0 (if b then ''True'' else ''False'')
      | JsSym \<Rightarrow> c = UnitToken \<and> m = js_prim0 ''Unit''
      | JsStr s \<Rightarrow>
          (m = js_obj1 ''string'' v \<and> (c = StringToken \<or> c = OperationToken \<or> (c = TimestampToken \<and> iso_text s) \<or> valid_text E c s))
          \<or> (m = js_obj1 ''bytes'' v \<and> hex_class c \<and> hex_even s)
      | JsArr xs \<Rightarrow> c = LambdaToken \<and> m = v
      | _ \<Rightarrow> False)"

text \<open>As the key of a map: numbers are texts but for \<open>nat\<close>, dates any text; no booleans.\<close>

definition leaf_key_reads :: "enc_libs \<Rightarrow> token_class \<Rightarrow> jsval \<Rightarrow> jsval \<Rightarrow> bool" where
  "leaf_key_reads E c m v =
     (case v of
        JsBig s \<Rightarrow> m = js_obj1 ''int'' (JsStr s) \<and> number_text E s \<and> c = NatToken \<and> \<not> startsWith s ''-''
      | JsSym \<Rightarrow> c = UnitToken \<and> m = js_prim0 ''Unit''
      | JsStr s \<Rightarrow>
          (m = js_obj1 ''int'' v \<and> number_text E s \<and> (c = IntToken \<or> c = MutezToken))
          \<or> (m = js_obj1 ''string'' v \<and> (c = StringToken \<or> c = TimestampToken \<or> (c \<noteq> ContractToken \<and> valid_text E c s)))
          \<or> (m = js_obj1 ''bytes'' v \<and> c = BytesToken \<and> hex_even s)
      | _ \<Rightarrow> False)"

section \<open>All values\<close>

text \<open>The properties that a component contributes to the object of its pair.\<close>

fun contributes :: "Token \<Rightarrow> string \<Rightarrow> jsval \<Rightarrow> (string \<times> jsval) list \<Rightarrow> bool" where
  "contributes k a x ps \<longleftrightarrow> (if inline_pair k then x = JsObj ps else ps = [(a, x)])"

inductive reads_data :: "enc_libs \<Rightarrow> Token \<Rightarrow> jsval \<Rightarrow> jsval \<Rightarrow> bool"
and reads_key :: "enc_libs \<Rightarrow> Token \<Rightarrow> jsval \<Rightarrow> jsval \<Rightarrow> bool"
for E :: enc_libs where
  reads_leaf: "leaf_reads E (tok_class tk) m v \<Longrightarrow> reads_data E tk m v"
| reads_pair:
    "tok_class tk = PairToken \<Longrightarrow> pair_tokens tk = Inr (l, r) \<Longrightarrow> annot l = Inr la \<Longrightarrow> annot r = Inr ra \<Longrightarrow>
     reads_data E l a x \<Longrightarrow> reads_data E r b y \<Longrightarrow> contributes l la x ps \<Longrightarrow> contributes r ra y qs \<Longrightarrow>
     distinct (map fst (ps @ qs)) \<Longrightarrow> reads_data E tk (js_prim ''Pair'' [a, b]) (JsObj (ps @ qs))"
| reads_left:
    "tok_class tk = OrToken \<Longrightarrow> or_tokens tk = Inr (l, r) \<Longrightarrow> or_labels tk = Inr ls \<Longrightarrow> distinct ls \<Longrightarrow>
     tok_class l \<noteq> OrToken \<Longrightarrow> annot l = Inr a \<Longrightarrow> reads_data E l m x \<Longrightarrow>
     reads_data E tk (js_prim ''Left'' [m]) (JsObj [(a, x)])"
| reads_right:
    "tok_class tk = OrToken \<Longrightarrow> or_tokens tk = Inr (l, r) \<Longrightarrow> or_labels tk = Inr ls \<Longrightarrow> distinct ls \<Longrightarrow>
     tok_class r \<noteq> OrToken \<Longrightarrow> annot r = Inr a \<Longrightarrow> reads_data E r m x \<Longrightarrow>
     reads_data E tk (js_prim ''Right'' [m]) (JsObj [(a, x)])"
| reads_left_or:
    "tok_class tk = OrToken \<Longrightarrow> or_tokens tk = Inr (l, r) \<Longrightarrow> or_labels tk = Inr ls \<Longrightarrow> distinct ls \<Longrightarrow>
     tok_class l = OrToken \<Longrightarrow> reads_data E l m v \<Longrightarrow> reads_data E tk (js_prim ''Left'' [m]) v"
| reads_right_or:
    "tok_class tk = OrToken \<Longrightarrow> or_tokens tk = Inr (l, r) \<Longrightarrow> or_labels tk = Inr ls \<Longrightarrow> distinct ls \<Longrightarrow>
     tok_class r = OrToken \<Longrightarrow> reads_data E r m v \<Longrightarrow> reads_data E tk (js_prim ''Right'' [m]) v"
| reads_none: "tok_class tk = OptionToken \<Longrightarrow> reads_data E tk (js_prim0 ''None'') JsNull"
| reads_some:
    "tok_class tk = OptionToken \<Longrightarrow> sub_token tk 0 0 = Inr k \<Longrightarrow> reads_data E k m v \<Longrightarrow> \<not> nullish v \<Longrightarrow>
     reads_data E tk (js_prim ''Some'' [m]) v"
| reads_list:
    "tok_class tk = ListToken \<Longrightarrow> sub_token tk 0 0 = Inr k \<Longrightarrow> list_all2 (reads_data E k) ms xs \<Longrightarrow>
     reads_data E tk (JsArr ms) (JsArr xs)"
| reads_set:
    "tok_class tk = SetToken \<Longrightarrow> sub_token tk 0 0 = Inr k \<Longrightarrow> list_all2 (reads_data E k) ms xs \<Longrightarrow>
     js_sort (token_compare E k) xs = Inr xs \<Longrightarrow> reads_data E tk (JsArr ms) (JsArr xs)"
| reads_map:
    "tok_class tk = MapToken \<or> tok_class tk = BigMapToken \<Longrightarrow> type_args (tok_val tk) = Some [kt, vt] \<Longrightarrow>
     newMichelsonMap (tok_val tk) = Inr (JsMap [] (Some (kt, vt))) \<Longrightarrow> createToken kt 0 = Inr k \<Longrightarrow> createToken vt 0 = Inr w \<Longrightarrow>
     list_all2 (reads_key E k) mks ks \<Longrightarrow> list_all2 (reads_data E w) mvs vs \<Longrightarrow> length ks = length vs \<Longrightarrow>
     js_sort (token_compare E k) ks = Inr ks \<Longrightarrow> distinct (map (stringify E) ks) \<Longrightarrow>
     reads_data E tk (JsArr (map2 js_elt mks mvs)) (JsMap (zip ks vs) (Some (kt, vt)))"
| reads_key_leaf: "leaf_key_reads E (tok_class tk) m v \<Longrightarrow> reads_key E tk m v"
| reads_key_composite:
    "tok_class tk = PairToken \<or> tok_class tk = OrToken \<or> tok_class tk = OptionToken \<Longrightarrow> reads_data E tk m v \<Longrightarrow> reads_key E tk m v"

section \<open>The arguments of a value\<close>

text \<open>
  The arguments that a value is spread into for \<open>Encode\<close>: the fields of a pair in turn, the label of a
  union before what is in it.  The empty list is a union without the label; \<open>Unmodelled\<close> are an
  operation and an optional value whose first argument is missing, for which \<open>Encode\<close> does
  something else.
\<close>

definition some_args :: "jsval list enc \<Rightarrow> jsval list enc" where
  "some_args m = bindR m (\<lambda>xs. if xs = [] then Inl Unmodelled else Inr xs)"

function arguments_of :: "Token \<Rightarrow> jsval \<Rightarrow> jsval list enc" where
  "arguments_of tk v =
     (case tok_class tk of
        PairToken \<Rightarrow>
          bindR (pair_tokens tk) (\<lambda>(l, r). bindR (field_value l v) (\<lambda>x. bindR (field_value r v) (\<lambda>y.
          bindR (some_args (arguments_of l x)) (\<lambda>xs. bindR (some_args (arguments_of r y)) (\<lambda>ys. Inr (xs @ ys))))))
      | OrToken \<Rightarrow>
          bindR (first_key v) (\<lambda>key.
          case key of
            None \<Rightarrow> Inl Unmodelled
          | Some label \<Rightarrow>
              bindR (or_tokens tk) (\<lambda>(l, r).
              bindR (is_branch l label) (\<lambda>isl.
              if isl then bindR (js_get v label) (\<lambda>x. bindR (some_args (arguments_of l x)) (\<lambda>xs. Inr (JsStr label # xs)))
              else bindR (is_branch r label) (\<lambda>isr.
              if isr then bindR (js_get v label) (\<lambda>x. bindR (some_args (arguments_of r x)) (\<lambda>xs. Inr (JsStr label # xs)))
              else bindR (if tok_class l = OrToken then arguments_of l v else Inr []) (\<lambda>xs.
                if xs \<noteq> [] then Inr xs
                else if tok_class r = OrToken then arguments_of r v else Inr [])))))
      | OptionToken \<Rightarrow>
          if nullish v then Inr [v]
          else bindR (sub_token tk 0 0) (\<lambda>k. bindR (some_args (arguments_of k v)) (\<lambda>xs.
            if nullish (hd xs) then Inl Unmodelled else Inr xs))
      | OperationToken \<Rightarrow> Inl Unmodelled
      | _ \<Rightarrow> Inr [v])"
  by pat_completeness auto
termination
  by (relation "measure (\<lambda>(tk, v). tok_size tk)") (auto dest: sub_token_size pair_tokens_size or_tokens_size)

declare arguments_of.simps [simp del]

end
