(* ===== verification/EncoderProofs.thy ===== *)
theory EncoderProofs
  imports EncoderSpec
begin

text \<open>
  The encoder against its specification: what \<open>reads_data\<close> relates, \<open>EncodeObject\<close> and \<open>Execute\<close>
  take to each other.  Then \<open>Encode\<close> on the flattened value, the order of sets and maps, and the
  values that are lost.
\<close>

section \<open>Objects with one property\<close>

named_theorems enc_simps "reading the objects of the encoder"

lemma js_get_obj1 [enc_simps]: "js_get (js_obj1 k v) k' = Inr (if k' = k then v else JsUndefined)"
  by (simp add: js_get_def js_obj1_def)

lemma js_keys_single [enc_simps]: "js_keys (JsObj [(k, v)]) = Inr [k]"
  by (simp add: js_keys_def js_keys_of_def)

lemma js_first_obj1 [enc_simps]: "js_first (js_obj1 k v) = Inr v"
  by (simp add: js_first_def js_obj1_def js_keys_single js_get_def)

lemma js_get_prim [enc_simps]:
  "js_get (js_prim0 p) ''prim'' = Inr (JsStr p)"
  "js_get (js_prim p xs) ''prim'' = Inr (JsStr p)"
  "js_get (js_prim p xs) ''args'' = Inr (JsArr xs)"
  by (simp_all add: js_get_def js_prim0_def js_prim_def)

lemma is_index_01: "is_index ''0''" "is_index ''1''"
  by (simp_all add: is_index_def is_digit_def dig_val_def Let_def of_digits_def)

lemma js_arg_prim [enc_simps]:
  "js_arg (js_prim p (x # xs)) 0 = Inr x"
  "js_arg (js_prim p (x # y # xs)) 1 = Inr y"
proof -
  have d: "digits 10 0 = ''0''" "digits 10 1 = ''1''" by (simp_all add: digits.simps dig_def)
  have o: "of_digits 10 ''0'' = 0" "of_digits 10 ''1'' = 1" by (simp_all add: of_digits_def dig_val_def)
  show "js_arg (js_prim p (x # xs)) 0 = Inr x" "js_arg (js_prim p (x # y # xs)) 1 = Inr y"
    unfolding js_arg_def js_get_prim bindR_simps js_at_def d
    by (simp_all add: js_get_def is_index_01 o)
qed

lemma truthy_prim [enc_simps]: "truthy (js_prim p xs)" "truthy (js_prim0 p)"
  by (simp_all add: js_prim_def js_prim0_def)

section \<open>Leaves\<close>

lemma require_True [simp]: "require True e v = Inr ()"
  by (simp add: require_def)

lemma hex_strip: "list_all is_hex s \<Longrightarrow> stripHexPrefix s = s"
  using hex_not_0x [of s] by (simp add: stripHexPrefix_def startsWith_def numeral_2_eq_2)

lemma hex_even_valid: "hex_even s \<Longrightarrow> hex_valid E (JsStr s) = Inr True"
  by (simp add: hex_even_def hex_valid_def even_length_def js_get_def)

lemma negative_zero: "big_toFixed s = s" if "s \<noteq> ''-0''"
  using that by (simp add: big_toFixed_def)

lemmas leaf_coding = int_EncodeObject_def int_isValid_def int_Execute_def nat_EncodeObject_def nat_isValid_def nat_Execute_def
  mutez_EncodeObject_def mutez_isValid_def mutez_Execute_def string_EncodeObject_def string_Execute_def bool_EncodeObject_def
  unit_EncodeObject_def unit_Execute_def bytes_EncodeObject_def bytes_isValid_def bytes_Execute_def
  timestamp_EncodeObject_def address_EncodeObject_def address_Execute_def
  tx_rollup_l2_address_EncodeObject_def tx_rollup_l2_address_Execute_def contract_EncodeObject_def contract_Execute_def
  key_hash_EncodeObject_def key_hash_Execute_def key_EncodeObject_def key_Execute_def signature_EncodeObject_def
  signature_Execute_def chain_id_EncodeObject_def chain_id_Execute_def lambda_EncodeObject_def lambda_Execute_def
  operation_EncodeObject_def operation_Execute_def hex_class_Execute_def hex_class_EncodeObject_def
  bls12_381_g1_EncodeObject_def bls12_381_g2_EncodeObject_def bls12_381_fr_EncodeObject_def chest_EncodeObject_def
  chest_key_EncodeObject_def string_class_EncodeObject_def validates_def convertUint8ArrayToHexString_def
  Let_def

lemma timestamp_reads: "iso_text s \<Longrightarrow> timestamp_Execute E (js_obj1 ''string'' (JsStr s)) = Inr (JsStr s)"
  by (auto simp: iso_text_def timestamp_Execute_def js_get_obj1 iso_of_def split: option.splits)

lemma bool_reads: "bool_Execute E (js_prim0 (if b then ''True'' else ''False'')) = Inr (JsBool b)"
proof -
  have "toLowerCase ''True'' = ''true''" "toLowerCase ''False'' \<noteq> ''true''" by code_simp+
  then show ?thesis by (simp add: bool_Execute_def js_get_prim)
qed

lemma leaf_encode:
  assumes "leaf_reads E (tok_class tk) m v"
  shows "EncodeObject E no_sem tk v = Inr m"
proof (cases v)
  case (JsStr s)
  show ?thesis using assms
    by (cases "tok_class tk")
      (auto simp: JsStr leaf_reads_def valid_text_def class_validator_def hex_class_def EncodeObject.simps [of E no_sem tk]
        leaf_coding hex_strip hex_even_valid dest: hex_even_def [THEN iffD1])
qed (use assms in \<open>auto simp: leaf_reads_def EncodeObject.simps [of E no_sem tk] leaf_coding number_text_def negative_zero\<close>)

lemma leaf_decode:
  assumes "leaf_reads E (tok_class tk) m v"
  shows "Execute E no_sem tk m = Inr v"
proof (cases v)
  case (JsStr s)
  show ?thesis using assms
    by (cases "tok_class tk")
      (auto simp: JsStr leaf_reads_def valid_text_def class_validator_def hex_class_def Execute.simps [of E no_sem tk]
        leaf_coding enc_simps timestamp_reads)
next
  case (JsArr xs)
  then show ?thesis using assms
    by (auto simp: leaf_reads_def Execute.simps [of E no_sem tk] leaf_coding js_get_def is_index_def is_digit_def dig_val_def)
qed (use assms in \<open>auto simp: leaf_reads_def Execute.simps [of E no_sem tk] leaf_coding number_text_def enc_simps bool_reads\<close>)

lemma leaf_key_encode:
  assumes "leaf_key_reads E (tok_class tk) m v"
  shows "EncodeObject E no_sem tk v = Inr m"
proof (cases v)
  case (JsStr s)
  show ?thesis using assms
    by (cases "tok_class tk")
      (auto simp: JsStr leaf_key_reads_def valid_text_def class_validator_def EncodeObject.simps [of E no_sem tk]
        leaf_coding hex_strip number_text_def negative_zero dest: hex_even_def [THEN iffD1])
qed (use assms in \<open>auto simp: leaf_key_reads_def EncodeObject.simps [of E no_sem tk] leaf_coding number_text_def negative_zero\<close>)

lemma leaf_key_decode:
  assumes "leaf_key_reads E (tok_class tk) m v"
  shows "ToKey E (Execute E no_sem) tk m = Inr v"
proof (cases v)
  case (JsStr s)
  show ?thesis using assms
    by (cases "tok_class tk")
      (auto simp: JsStr leaf_key_reads_def valid_text_def class_validator_def ToKey_def Execute.simps [of E no_sem tk]
        int_ToKey_def mutez_ToKey_def string_ToKey_def timestamp_ToKey_def chain_id_ToKey_def bytes_ToKey_def
        address_ToKey_def tx_rollup_l2_address_ToKey_def key_hash_ToKey_def leaf_coding enc_simps)
qed (use assms in \<open>auto simp: leaf_key_reads_def ToKey_def nat_ToKey_def unit_ToKey_def number_text_def enc_simps\<close>)

section \<open>Pairs\<close>

lemma pair_tokens_args:
  assumes "pair_tokens tk = Inr (l, r)"
  shows "pair_traversal ExtractSchema f g tk =
    bindR (named (inline_pair l) l f) (\<lambda>x. bindR (named (inline_pair r) r g) (\<lambda>y. js_spread x y))"
  using assms by (auto simp: pair_tokens_def pair_traversal_def bindR_eq_Inr)

lemma put_prop_new: "k \<notin> fst ` set ps \<Longrightarrow> put_prop ps k v = ps @ [(k, v)]"
  by (induction ps) auto

lemma spread_new: "distinct (map fst (ps @ qs)) \<Longrightarrow> spread ps qs = ps @ qs"
proof (induction qs arbitrary: ps)
  case Nil
  then show ?case by (simp add: spread_def)
next
  case (Cons q qs)
  obtain k v where q: "q = (k, v)" by (cases q)
  have "spread ps (q # qs) = spread (put_prop ps k v) qs" by (simp add: spread_def q)
  also have "\<dots> = spread (ps @ [(k, v)]) qs" using Cons.prems q by (subst put_prop_new) auto
  also have "\<dots> = (ps @ [(k, v)]) @ qs" using Cons.prems q by (intro Cons.IH) simp
  finally show ?case by (simp add: q)
qed

lemma js_spread_new: "distinct (map fst (ps @ qs)) \<Longrightarrow> js_spread (JsObj ps) (JsObj qs) = Inr (JsObj (ps @ qs))"
  using spread_new [of "[]" ps] spread_new [of ps qs] by (simp add: js_spread_def obj_props_def)

text \<open>An object stands for a value of an inlined pair when it has all its properties.\<close>

definition agrees :: "Token \<Rightarrow> jsval \<Rightarrow> jsval \<Rightarrow> bool" where
  "agrees tk v u \<longleftrightarrow> u = v \<or>
     (inline_pair tk \<and> (\<exists>ps qs. v = JsObj ps \<and> u = JsObj qs \<and> (\<forall>k x. (k, x) \<in> set ps \<longrightarrow> map_of qs k = Some x)))"

lemma agrees_refl [simp]: "agrees tk v v"
  by (simp add: agrees_def)

lemma contributes_named:
  "contributes k a x ps \<Longrightarrow> annot k = Inr a \<Longrightarrow> f k = Inr x \<Longrightarrow> named (inline_pair k) k f = Inr (JsObj ps)"
  by (auto simp: named_def split: if_splits)

lemma contributes_field:
  assumes "contributes k a x ps" "annot k = Inr a" "\<forall>n y. (n, y) \<in> set ps \<longrightarrow> map_of us n = Some y"
  shows "\<exists>u. field_value k (JsObj us) = Inr u \<and> agrees k x u"
  using assms by (cases "inline_pair k") (auto simp: field_value_def js_get_def agrees_def)

lemma class_pair_steps:
  assumes "tok_class tk = PairToken"
  shows "EncodeObject E sem tk v = pair_EncodeObject (EncodeObject E sem) tk v"
    and "Execute E sem tk v = pair_Execute (Execute E sem) tk v"
  using assms by (simp_all add: EncodeObject.simps [of E sem tk] Execute.simps [of E sem tk])

lemma pair_step:
  assumes c: "tok_class tk = PairToken" and t: "pair_tokens tk = Inr (l, r)" and n: "annot l = Inr la" "annot r = Inr ra"
    and l: "Execute E no_sem l a = Inr x" "\<And>u. agrees l x u \<Longrightarrow> EncodeObject E no_sem l u = Inr a"
    and r: "Execute E no_sem r b = Inr y" "\<And>u. agrees r y u \<Longrightarrow> EncodeObject E no_sem r u = Inr b"
    and ps: "contributes l la x ps" "contributes r ra y qs" and d: "distinct (map fst (ps @ qs))"
  shows "Execute E no_sem tk (js_prim ''Pair'' [a, b]) = Inr (JsObj (ps @ qs))"
    and "agrees tk (JsObj (ps @ qs)) u \<Longrightarrow> EncodeObject E no_sem tk u = Inr (js_prim ''Pair'' [a, b])"
proof -
  have "collapse_data (js_prim ''Pair'' [a, b]) = Inr (a, b)"
    by (simp add: collapse_data_def js_prim_def js_get_def pair_of_args_def)
  then show "Execute E no_sem tk (js_prim ''Pair'' [a, b]) = Inr (JsObj (ps @ qs))"
    using contributes_named [OF ps(1) n(1), where f = "\<lambda>k. Execute E no_sem k a"]
      contributes_named [OF ps(2) n(2), where f = "\<lambda>k. Execute E no_sem k b"] l(1) r(1)
    by (simp add: class_pair_steps(2) [OF c] pair_Execute_def pair_tokens_args [OF t] js_spread_new [OF d])
  show "EncodeObject E no_sem tk u = Inr (js_prim ''Pair'' [a, b])" if ag: "agrees tk (JsObj (ps @ qs)) u"
  proof -
    obtain us where us: "u = JsObj us" "\<forall>n z. (n, z) \<in> set (ps @ qs) \<longrightarrow> map_of us n = Some z"
      using ag map_of_eq_Some_iff [OF d] by (auto simp: agrees_def simp del: set_append map_of_append)
    obtain u1 where "field_value l u = Inr u1" "agrees l x u1"
      using contributes_field [OF ps(1) n(1), of us] us by auto
    moreover obtain u2 where "field_value r u = Inr u2" "agrees r y u2"
      using contributes_field [OF ps(2) n(2), of us] us by auto
    ultimately show ?thesis
      by (simp add: class_pair_steps(1) [OF c] pair_EncodeObject_def t l(2) r(2))
  qed
qed

section \<open>Unions\<close>

definition branch_labels :: "Token \<Rightarrow> string list enc" where
  "branch_labels k = (if tok_class k = OrToken then or_labels k else bindR (annot k) (\<lambda>a. Inr [a]))"

lemma or_labels_split:
  assumes "or_labels tk = Inr ls" "or_tokens tk = Inr (l, r)"
  obtains ll rl where "branch_labels l = Inr ll" "branch_labels r = Inr rl" "ls = ll @ rl"
  using assms or_labels.simps [of tk] by (auto simp: branch_labels_def bindR_eq_Inr)

lemma is_branch_or: "tok_class k = OrToken \<Longrightarrow> is_branch k lab = Inr False"
  by (simp add: is_branch_def annot.simps [of k])

lemma is_branch_miss: "branch_labels k = Inr ls \<Longrightarrow> lab \<notin> set ls \<Longrightarrow> is_branch k lab = Inr False"
  by (cases "tok_class k = OrToken") (simp_all add: is_branch_or, auto simp: branch_labels_def is_branch_def bindR_eq_Inr)

lemma is_branch_hit: "tok_class k \<noteq> OrToken \<Longrightarrow> annot k = Inr a \<Longrightarrow> is_branch k a = Inr True"
  by (simp add: is_branch_def)

lemma first_key_single: "first_key (JsObj [(lab, x)]) = Inr (Some lab)"
  by (simp add: first_key_def js_keys_single)

lemma js_get_single: "js_get (JsObj [(lab, x)]) lab = Inr x"
  by (simp add: js_get_def)

lemma class_or_steps:
  assumes "tok_class tk = OrToken"
  shows "EncodeObject E sem tk v = or_EncodeObject (EncodeObject E sem) tk v"
    and "Execute E sem tk v = or_Execute (Execute E sem) tk v"
  using assms by (simp_all add: EncodeObject.simps [of E sem tk] Execute.simps [of E sem tk])

text \<open>A label that no branch has is not refused: the value becomes \<open>null\<close>.\<close>

lemma unknown_label:
  assumes "tok_class tk = OrToken" "or_labels tk = Inr ls" "first_key v = Inr (Some lab)" "lab \<notin> set ls"
  shows "EncodeObject E sem tk v = Inr JsNull"
  using assms
proof (induction "tok_size tk" arbitrary: tk ls rule: less_induct)
  case less
  obtain l r where t: "or_tokens tk = Inr (l, r)"
    using less.prems(2) or_labels.simps [of tk] by (auto simp: bindR_eq_Inr)
  obtain ll rl where s: "branch_labels l = Inr ll" "branch_labels r = Inr rl" "ls = ll @ rl"
    using or_labels_split [OF less.prems(2) t] .
  have a: "or_attempt (EncodeObject E sem) k v = Inr JsNull" if "k = l \<and> kl = ll \<or> k = r \<and> kl = rl" for k kl
    using less.hyps [of k kl] or_tokens_size [OF t] s less.prems(3,4) that
    by (auto simp: or_attempt_def branch_labels_def)
  show ?case
    using is_branch_miss [OF s(1)] is_branch_miss [OF s(2)] less.prems(3,4) s(3) a [of l ll] a [of r rl]
    by (simp add: class_or_steps(1) [OF less.prems(1)] or_EncodeObject_def label_text_def t)
qed

lemma or_miss:
  "tok_class tk = OrToken \<Longrightarrow> or_labels tk = Inr ls \<Longrightarrow> lab \<notin> set ls \<Longrightarrow>
    EncodeObject E sem tk (JsObj [(lab, x)]) = Inr JsNull"
  by (rule unknown_label) (simp_all add: first_key_single)

lemma reads_or:
  "reads_data E tk m v \<Longrightarrow> tok_class tk = OrToken \<Longrightarrow>
    \<exists>lab x b m' ls. v = JsObj [(lab, x)] \<and> m = js_prim b [m'] \<and> or_labels tk = Inr ls \<and> lab \<in> set ls"
proof (induction rule: reads_data_reads_key.inducts(1) [where ?P2.0 = "\<lambda>_ _ _. True"])
  case (reads_leaf tk m v)
  then show ?case by (auto simp: leaf_reads_def valid_text_def class_validator_def hex_class_def split: jsval.splits)
next
  case (reads_left tk l r ls a m x)
  obtain ll rl where "branch_labels l = Inr ll" "branch_labels r = Inr rl" "ls = ll @ rl"
    using or_labels_split [OF reads_left(3,2)] .
  then show ?case using reads_left by (auto simp: branch_labels_def)
next
  case (reads_right tk l r ls a m x)
  obtain ll rl where "branch_labels l = Inr ll" "branch_labels r = Inr rl" "ls = ll @ rl"
    using or_labels_split [OF reads_right(3,2)] .
  then show ?case using reads_right by (auto simp: branch_labels_def)
next
  case (reads_left_or tk l r ls m v)
  obtain ll rl where "branch_labels l = Inr ll" "branch_labels r = Inr rl" "ls = ll @ rl"
    using or_labels_split [OF reads_left_or(3,2)] .
  then show ?case using reads_left_or by (auto simp: branch_labels_def)
next
  case (reads_right_or tk l r ls m v)
  obtain ll rl where "branch_labels l = Inr ll" "branch_labels r = Inr rl" "ls = ll @ rl"
    using or_labels_split [OF reads_right_or(3,2)] .
  then show ?case using reads_right_or by (auto simp: branch_labels_def)
qed simp_all

lemma or_step_here:
  assumes c: "tok_class tk = OrToken" and t: "or_tokens tk = Inr (l, r)" and ls: "or_labels tk = Inr ls" "distinct ls"
    and k: "k = l \<and> b = ''Left'' \<or> k = r \<and> b = ''Right''" "tok_class k \<noteq> OrToken" "annot k = Inr a"
    and i: "Execute E no_sem k m = Inr x" "EncodeObject E no_sem k x = Inr m"
  shows "Execute E no_sem tk (js_prim b [m]) = Inr (JsObj [(a, x)])"
    and "EncodeObject E no_sem tk (JsObj [(a, x)]) = Inr (js_prim b [m])"
proof -
  show "Execute E no_sem tk (js_prim b [m]) = Inr (JsObj [(a, x)])"
    using k i(1) by (auto simp: class_or_steps(2) [OF c] or_Execute_def t enc_simps branch_value_def)
  obtain ll rl where s: "branch_labels l = Inr ll" "branch_labels r = Inr rl" "ls = ll @ rl"
    using or_labels_split [OF ls(1) t] .
  show "EncodeObject E no_sem tk (JsObj [(a, x)]) = Inr (js_prim b [m])"
  proof (cases "k = l \<and> b = ''Left''")
    case True
    then show ?thesis using is_branch_hit [OF k(2,3)] i(2)
      by (simp add: class_or_steps(1) [OF c] or_EncodeObject_def first_key_single label_text_def t js_get_single)
  next
    case False
    then have f: "k = r" "b = ''Right''" using k(1) by auto
    then have "a \<notin> set ll" using s k ls(2) by (auto simp: branch_labels_def)
    then show ?thesis using f is_branch_miss [OF s(1)] is_branch_hit [OF k(2,3)] i(2)
      by (simp add: class_or_steps(1) [OF c] or_EncodeObject_def first_key_single label_text_def t js_get_single)
  qed
qed

lemma or_step_below:
  assumes c: "tok_class tk = OrToken" and t: "or_tokens tk = Inr (l, r)" and ls: "or_labels tk = Inr ls" "distinct ls"
    and k: "k = l \<and> b = ''Left'' \<or> k = r \<and> b = ''Right''" "tok_class k = OrToken" "reads_data E k m v"
    and i: "Execute E no_sem k m = Inr v" "EncodeObject E no_sem k v = Inr m"
  shows "Execute E no_sem tk (js_prim b [m]) = Inr v"
    and "EncodeObject E no_sem tk v = Inr (js_prim b [m])"
proof -
  show "Execute E no_sem tk (js_prim b [m]) = Inr v"
    using k i(1) by (auto simp: class_or_steps(2) [OF c] or_Execute_def t enc_simps branch_value_def)
  obtain lab x b' m' kl where v: "v = JsObj [(lab, x)]" "m = js_prim b' [m']" "or_labels k = Inr kl" "lab \<in> set kl"
    using reads_or [OF k(3,2)] by blast
  obtain ll rl where s: "branch_labels l = Inr ll" "branch_labels r = Inr rl" "ls = ll @ rl"
    using or_labels_split [OF ls(1) t] .
  show "EncodeObject E no_sem tk v = Inr (js_prim b [m])"
  proof (cases "k = l \<and> b = ''Left''")
    case True
    then have "lab \<in> set ll" using s(1) v k(2) by (simp add: branch_labels_def)
    then have "is_branch r lab = Inr False" using is_branch_miss [OF s(2)] s(3) ls(2) by auto
    then show ?thesis using True i(2) k(2) is_branch_or [of l]
      by (simp add: class_or_steps(1) [OF c] or_EncodeObject_def v first_key_single label_text_def t or_attempt_def enc_simps)
  next
    case False
    then have f: "k = r" "b = ''Right''" using k(1) by auto
    then have m: "lab \<in> set rl" "lab \<notin> set ll" using s v k(2) ls(2) by (auto simp: branch_labels_def)
    have "or_attempt (EncodeObject E no_sem) l v = Inr JsNull"
      using or_miss [of l ll lab E no_sem x] s(1) m(2) v(1) by (auto simp: or_attempt_def branch_labels_def)
    then show ?thesis using f i(2) k(2) is_branch_or [of r] is_branch_miss [OF s(1) m(2)]
      by (simp add: class_or_steps(1) [OF c] or_EncodeObject_def v first_key_single label_text_def t enc_simps)
        (simp add: or_attempt_def enc_simps)
  qed
qed

section \<open>Collections\<close>

lemma mapR_list_all2: "mapR f xs = Inr ys \<longleftrightarrow> list_all2 (\<lambda>x y. f x = Inr y) xs ys"
  by (induction xs arbitrary: ys) (auto simp: bindR_eq_Inr list_all2_Cons1)

text \<open>What the classes with a case of their own in \<open>Typecheck\<close> need.\<close>

definition checkable :: "Token \<Rightarrow> jsval \<Rightarrow> bool" where
  "checkable k v \<longleftrightarrow> (tok_class k = BigMapToken \<longrightarrow> (\<exists>es sch. v = JsMap es sch)) \<and>
     (tok_class k = MapToken \<longrightarrow> (\<exists>w. sub_token k 1 0 = Inr w))"

lemma Typecheck_encoded:
  assumes "createToken t 0 = Inr k" "EncodeObject E no_sem k v = Inr m" "checkable k v"
  shows "Typecheck E (EncodeObject E no_sem) t v = Inr True"
proof -
  have "tok_class k \<noteq> TicketToken" "tok_class k \<noteq> TicketDeprecatedToken"
    using assms(2) by (auto simp: EncodeObject.simps [of E no_sem k] ticket_EncodeObject_def ticket_deprecated_EncodeObject_def)
  then show ?thesis using assms by (auto simp: Typecheck_def checkable_def js_Number_def)
qed

lemma sub_tokens:
  assumes "type_args (tok_val tk) = Some [kt, vt]"
  shows "sub_token tk 0 0 = createToken kt 0" "sub_token tk 1 0 = createToken vt 0" "sub_token tk (Suc 0) 0 = createToken vt 0"
  using assms by (simp_all add: sub_token_def tok_arg_def)

lemma map_set_new:
  assumes "createToken kt 0 = Inr k" "EncodeObject E no_sem k x = Inr mk" "checkable k x"
    and "createToken vt 0 = Inr w" "EncodeObject E no_sem w y = Inr mv" "checkable w y"
    and "stringify E x \<notin> (\<lambda>e. stringify E (fst e)) ` set es"
  shows "set_entry E (Some (kt, vt)) es x y = Inr (es @ [(x, y)])"
proof -
  have "put_entry E es x y = es @ [(x, y)]" using assms(7) by (induction es) auto
  then show ?thesis
    by (simp add: set_entry_def map_set_def assertTypecheck_def Typecheck_encoded [OF assms(1-3)] Typecheck_encoded [OF assms(4-6)])
qed

lemma entry_of_zip:
  assumes "distinct (map (stringify E) ks)" "length ks = length vs" "i < length ks"
  shows "entry_of E (zip ks vs) (ks ! i) = vs ! i"
  using assms
proof (induction ks arbitrary: vs i)
  case (Cons k ks)
  then obtain v vs' where vs: "vs = v # vs'" by (cases vs) auto
  show ?case
  proof (cases i)
    case (Suc j)
    then have "j < length ks" using Cons.prems by simp
    then have "ks ! j \<in> set ks" by simp
    then have "stringify E (ks ! j) \<in> stringify E ` set ks" by (rule imageI)
    moreover have "stringify E k \<notin> stringify E ` set ks" using Cons.prems(1) by simp
    ultimately have "stringify E k \<noteq> stringify E (ks ! j)" by metis
    then show ?thesis using Cons.IH [of vs' j] Cons.prems by (simp add: Suc vs entry_of_def)
  qed (simp add: vs entry_of_def)
qed simp

lemma fill_map_reads:
  assumes args: "type_args (tok_val tk) = Some [kt, vt]"
    and toks: "createToken kt 0 = Inr k" "createToken vt 0 = Inr w"
    and lists: "list_all2 (\<lambda>m x. ToKey E (Execute E no_sem) k m = Inr x \<and> EncodeObject E no_sem k x = Inr m \<and> checkable k x) mks ks"
      "list_all2 (\<lambda>m y. Execute E no_sem w m = Inr y \<and> EncodeObject E no_sem w y = Inr m \<and> checkable w y) mvs vs"
      "length ks = length vs" "distinct (map (\<lambda>e. stringify E (fst e)) es @ map (stringify E) ks)"
  shows "fill_map (read_entry E (Execute E no_sem) (Execute E no_sem) tk) (set_entry E (Some (kt, vt))) (map2 js_elt mks mvs) es
    = Inr (es @ zip ks vs)"
  using lists
proof (induction mks arbitrary: ks mvs vs es)
  case Nil
  then show ?case by simp
next
  case (Cons mk mks)
  then obtain x ks' where ks: "ks = x # ks'" by (auto simp: list_all2_Cons1)
  with Cons.prems(3) obtain y vs' where vs: "vs = y # vs'" by (cases vs) auto
  with Cons.prems(2) obtain mv mvs' where mvs: "mvs = mv # mvs'" by (auto simp: list_all2_Cons2)
  have rd: "read_entry E (Execute E no_sem) (Execute E no_sem) tk (js_elt mk mv) = Inr (x, y)"
    using Cons.prems(1,2) ks vs mvs
    by (simp add: read_entry_def sub_tokens [OF args] toks js_elt_def enc_simps js_arg_prim(2) [simplified])
  have new: "set_entry E (Some (kt, vt)) es x y = Inr (es @ [(x, y)])"
    using Cons.prems ks vs mvs by (intro map_set_new [OF toks(1) _ _ toks(2)]) auto
  have "fill_map (read_entry E (Execute E no_sem) (Execute E no_sem) tk) (set_entry E (Some (kt, vt))) (map2 js_elt mks mvs') (es @ [(x, y)])
      = Inr ((es @ [(x, y)]) @ zip ks' vs')"
    using Cons.prems ks vs mvs by (intro Cons.IH) auto
  then show ?case by (simp add: ks vs mvs rd new)
qed

lemma map_elts_reads:
  assumes args: "type_args (tok_val tk) = Some [kt, vt]"
    and toks: "createToken kt 0 = Inr k" "createToken vt 0 = Inr w"
    and keys: "list_all2 (\<lambda>m x. EncodeObject E no_sem k x = Inr m \<and> checkable k x) mks ks"
    and vals: "list_all2 (\<lambda>m y. EncodeObject E no_sem w y = Inr m) mvs vs"
    and len: "length ks = length vs" and dist: "distinct (map (stringify E) ks)" and srt: "js_sort (token_compare E k) ks = Inr ks"
  shows "map_elts E (EncodeObject E no_sem) (token_compare E) tk (zip ks vs) (Some (kt, vt)) = Inr (JsArr (map2 js_elt mks mvs))"
proof -
  have l: "length mks = length ks" "length mvs = length vs" using keys vals by (simp_all add: list_all2_lengthD)
  have "list_all2 (\<lambda>key y. bindR (sub_token tk 0 0) (\<lambda>kt'. bindR (EncodeObject E no_sem kt' key) (\<lambda>mk.
       bindR (sub_token tk 1 0) (\<lambda>vt'. bindR (map_get E (EncodeObject E no_sem) (zip ks vs) (Some (kt, vt)) key) (\<lambda>x.
       bindR (EncodeObject E no_sem vt' x) (\<lambda>mv. Inr (js_elt mk mv)))))) = Inr y) ks (map2 js_elt mks mvs)"
  proof (rule list_all2_all_nthI)
    show "length ks = length (map2 js_elt mks mvs)" using l len by simp
    fix i
    assume i: "i < length ks"
    have k: "EncodeObject E no_sem k (ks ! i) = Inr (mks ! i)" "checkable k (ks ! i)"
      using keys i l by (auto simp: list_all2_conv_all_nth)
    have v: "EncodeObject E no_sem w (vs ! i) = Inr (mvs ! i)" using vals len i l by (auto simp: list_all2_conv_all_nth)
    show "bindR (sub_token tk 0 0) (\<lambda>kt'. bindR (EncodeObject E no_sem kt' (ks ! i)) (\<lambda>mk.
       bindR (sub_token tk 1 0) (\<lambda>vt'. bindR (map_get E (EncodeObject E no_sem) (zip ks vs) (Some (kt, vt)) (ks ! i)) (\<lambda>x.
       bindR (EncodeObject E no_sem vt' x) (\<lambda>mv. Inr (js_elt mk mv)))))) = Inr (map2 js_elt mks mvs ! i)"
      using i l len by (simp add: sub_tokens [OF args] toks k v map_get_def assertTypecheck_def
          Typecheck_encoded [OF toks(1) k] entry_of_zip [OF dist len i])
  qed
  then show ?thesis
    using srt len by (simp only: map_elts_def sub_tokens(1) [OF args] toks(1) bindR_simps map_fst_zip mapR_list_all2 [THEN iffD2])
qed

section \<open>The encoder refines the specification\<close>

lemma not_inline: "tok_class tk \<noteq> PairToken \<Longrightarrow> agrees tk v u \<longleftrightarrow> u = v"
  by (auto simp: agrees_def inline_pair_def)

lemma map_step:
  assumes c: "tok_class tk = MapToken \<or> tok_class tk = BigMapToken" and args: "type_args (tok_val tk) = Some [kt, vt]"
    and new: "newMichelsonMap (tok_val tk) = Inr (JsMap [] (Some (kt, vt)))"
    and toks: "createToken kt 0 = Inr k" "createToken vt 0 = Inr w"
    and keys: "list_all2 (\<lambda>m x. ToKey E (Execute E no_sem) k m = Inr x \<and> EncodeObject E no_sem k x = Inr m \<and> checkable k x) mks ks"
    and vals: "list_all2 (\<lambda>m y. Execute E no_sem w m = Inr y \<and> EncodeObject E no_sem w y = Inr m \<and> checkable w y) mvs vs"
    and rest: "length ks = length vs" "js_sort (token_compare E k) ks = Inr ks" "distinct (map (stringify E) ks)"
  shows "Execute E no_sem tk (JsArr (map2 js_elt mks mvs)) = Inr (JsMap (zip ks vs) (Some (kt, vt)))"
    and "EncodeObject E no_sem tk (JsMap (zip ks vs) (Some (kt, vt))) = Inr (JsArr (map2 js_elt mks mvs))"
proof -
  have f: "fill_map (read_entry E (Execute E no_sem) (Execute E no_sem) tk) (set_entry E (Some (kt, vt))) (map2 js_elt mks mvs) []
      = Inr (zip ks vs)"
    using fill_map_reads [OF args toks keys vals rest(1), of "[]"] rest(3) by simp
  then have "map_of_elts E (Execute E no_sem) (Execute E no_sem) tk (map2 js_elt mks mvs) = Inr (JsMap (zip ks vs) (Some (kt, vt)))"
    by (simp add: map_of_elts_def new)
  then show "Execute E no_sem tk (JsArr (map2 js_elt mks mvs)) = Inr (JsMap (zip ks vs) (Some (kt, vt)))"
    using c by (auto simp: Execute.simps [of E no_sem tk] map_Execute_def bigmap_Execute_def)
  have k: "list_all2 (\<lambda>m x. EncodeObject E no_sem k x = Inr m \<and> checkable k x) mks ks"
    by (rule list_all2_mono [OF keys]) simp
  have v: "list_all2 (\<lambda>m y. EncodeObject E no_sem w y = Inr m) mvs vs" by (rule list_all2_mono [OF vals]) simp
  show "EncodeObject E no_sem tk (JsMap (zip ks vs) (Some (kt, vt))) = Inr (JsArr (map2 js_elt mks mvs))"
    using c map_elts_reads [OF args toks k v rest(1,3,2)]
    by (auto simp: EncodeObject.simps [of E no_sem tk] map_EncodeObject_def bigmap_EncodeObject_def objLitToMichelsonMap_def)
qed

lemma list_step:
  assumes c: "tok_class tk = ListToken \<or> tok_class tk = SetToken \<and> js_sort (token_compare E k) xs = Inr xs"
    and k: "sub_token tk 0 0 = Inr k"
    and l: "list_all2 (\<lambda>m x. Execute E no_sem k m = Inr x \<and> EncodeObject E no_sem k x = Inr m) ms xs"
  shows "Execute E no_sem tk (JsArr ms) = Inr (JsArr xs)" and "EncodeObject E no_sem tk (JsArr xs) = Inr (JsArr ms)"
proof -
  have "mapR (Execute E no_sem k) ms = Inr xs" unfolding mapR_list_all2 by (rule list_all2_mono [OF l]) simp
  then show "Execute E no_sem tk (JsArr ms) = Inr (JsArr xs)"
    using c k by (auto simp: Execute.simps [of E no_sem tk] list_Execute_def set_Execute_def)
  have "list_all2 (\<lambda>x m. EncodeObject E no_sem k x = Inr m) xs ms"
    using l by (auto simp: list_all2_conv_all_nth)
  then have "mapR (EncodeObject E no_sem k) xs = Inr ms" by (simp add: mapR_list_all2)
  then show "EncodeObject E no_sem tk (JsArr xs) = Inr (JsArr ms)"
    using c k by (auto simp: EncodeObject.simps [of E no_sem tk] list_EncodeObject_def set_EncodeObject_def)
qed

lemma leaf_class:
  "leaf_reads E c m v \<Longrightarrow> c \<noteq> PairToken \<and> c \<noteq> OrToken \<and> c \<noteq> MapToken \<and> c \<noteq> BigMapToken"
  "leaf_key_reads E c m v \<Longrightarrow> c \<noteq> MapToken \<and> c \<noteq> BigMapToken"
  by (auto simp: leaf_reads_def leaf_key_reads_def valid_text_def class_validator_def hex_class_def split: jsval.splits)

text \<open>Both directions at once, for the values and for the keys of maps.\<close>

lemma encoder_refines:
  "reads_data E tk m v \<Longrightarrow>
     Execute E no_sem tk m = Inr v \<and> (\<forall>u. agrees tk v u \<longrightarrow> EncodeObject E no_sem tk u = Inr m) \<and> checkable tk v"
  "reads_key E tk m v \<Longrightarrow>
     ToKey E (Execute E no_sem) tk m = Inr v \<and> EncodeObject E no_sem tk v = Inr m \<and> checkable tk v"
proof (induction rule: reads_data_reads_key.inducts)
  case (reads_leaf tk m v)
  then show ?case using leaf_encode leaf_decode leaf_class(1) by (auto simp: not_inline checkable_def)
next
  case (reads_pair tk l r la ra a x b y ps qs)
  then show ?case using pair_step [OF reads_pair(1-4) _ _ _ _ reads_pair(5-7)] by (simp add: checkable_def)
next
  case (reads_left tk l r ls a m x)
  then show ?case using or_step_here [OF reads_left(1-4), of l "''Left''"] by (simp add: not_inline checkable_def)
next
  case (reads_right tk l r ls a m x)
  then show ?case using or_step_here [OF reads_right(1-4), of r "''Right''"] by (simp add: not_inline checkable_def)
next
  case (reads_left_or tk l r ls m v)
  then show ?case using or_step_below [OF reads_left_or(1-4), of l "''Left''"] by (simp add: not_inline checkable_def)
next
  case (reads_right_or tk l r ls m v)
  then show ?case using or_step_below [OF reads_right_or(1-4), of r "''Right''"] by (simp add: not_inline checkable_def)
next
  case (reads_none tk)
  then show ?case
    by (simp add: not_inline checkable_def EncodeObject.simps [of E no_sem tk] Execute.simps [of E no_sem tk]
        option_EncodeObject_def option_Execute_def nullish_def enc_simps)
next
  case (reads_some tk k m v)
  then show ?case
    by (simp add: not_inline checkable_def EncodeObject.simps [of E no_sem tk] Execute.simps [of E no_sem tk]
        option_EncodeObject_def option_Execute_def enc_simps)
next
  case (reads_list tk k ms xs)
  have "list_all2 (\<lambda>m x. Execute E no_sem k m = Inr x \<and> EncodeObject E no_sem k x = Inr m) ms xs"
    by (rule list_all2_mono [OF reads_list(3)]) simp
  then show ?case using list_step [of tk E k xs ms] reads_list(1,2) by (simp add: not_inline checkable_def)
next
  case (reads_set tk k ms xs)
  have "list_all2 (\<lambda>m x. Execute E no_sem k m = Inr x \<and> EncodeObject E no_sem k x = Inr m) ms xs"
    by (rule list_all2_mono [OF reads_set(3)]) simp
  then show ?case using list_step [of tk E k xs ms] reads_set(1,2,4) by (simp add: not_inline checkable_def)
next
  case (reads_map tk kt vt k w mks ks mvs vs)
  have k: "list_all2 (\<lambda>m x. ToKey E (Execute E no_sem) k m = Inr x \<and> EncodeObject E no_sem k x = Inr m \<and> checkable k x) mks ks"
    by (rule list_all2_mono [OF reads_map.IH(1)]) simp
  have v: "list_all2 (\<lambda>m y. Execute E no_sem w m = Inr y \<and> EncodeObject E no_sem w y = Inr m \<and> checkable w y) mvs vs"
    by (rule list_all2_mono [OF reads_map.IH(2)]) simp
  have rest: "length ks = length vs" "js_sort (token_compare E k) ks = Inr ks" "distinct (map (stringify E) ks)"
    using reads_map by simp_all
  show ?case using map_step [OF reads_map.hyps(1-5) k v rest] reads_map.hyps(1,2,5)
    by (auto simp: not_inline checkable_def sub_tokens(2,3))
next
  case (reads_key_leaf tk m v)
  then show ?case using leaf_key_encode leaf_key_decode leaf_class(2) by (auto simp: checkable_def)
next
  case (reads_key_composite tk m v)
  then show ?case by (auto simp: ToKey_def checkable_def)
qed

section \<open>Encoding from arguments\<close>

text \<open>\<open>Encode\<close> takes the arguments of a value off the stack and leaves the rest; for a union without
  the label it leaves the stack as it is.\<close>

definition takes :: "enc_libs \<Rightarrow> Token \<Rightarrow> jsval \<Rightarrow> jsval \<Rightarrow> jsval list \<Rightarrow> bool" where
  "takes E tk v m xs \<longleftrightarrow>
     (xs \<noteq> [] \<longrightarrow> (\<forall>rest. Encode E tk (xs @ rest) = Inr (m, rest))) \<and>
     (tok_class tk = OrToken \<longrightarrow> (\<exists>label. first_key v = Inr (Some label) \<and>
        (if xs = [] then m = JsNull \<and> (\<forall>rest. Encode E tk (JsStr label # rest) = Inr (JsNull, JsStr label # rest))
         else truthy m \<and> hd xs = JsStr label)))"

lemma some_args_Inr: "some_args m = Inr xs \<longleftrightarrow> m = Inr xs \<and> xs \<noteq> []"
  by (auto simp: some_args_def bindR_eq_Inr)

lemma takes_pair:
  assumes c: "tok_class tk = PairToken" and e: "EncodeObject E no_sem tk v = Inr m" and a: "arguments_of tk v = Inr xs"
    and IH: "\<And>k x n ys. tok_size k < tok_size tk \<Longrightarrow> EncodeObject E no_sem k x = Inr n \<Longrightarrow> arguments_of k x = Inr ys \<Longrightarrow>
      takes E k x n ys"
  shows "takes E tk v m xs"
proof -
  obtain l r x y ys zs where t: "pair_tokens tk = Inr (l, r)" "field_value l v = Inr x" "field_value r v = Inr y"
    "arguments_of l x = Inr ys" "ys \<noteq> []" "arguments_of r y = Inr zs" "zs \<noteq> []" "xs = ys @ zs"
    using a c by (subst (asm) arguments_of.simps) (auto simp: bindR_eq_Inr some_args_Inr split: if_splits)
  obtain n1 n2 where n: "EncodeObject E no_sem l x = Inr n1" "EncodeObject E no_sem r y = Inr n2" "m = js_prim ''Pair'' [n1, n2]"
    using e t by (auto simp: class_pair_steps(1) [OF c] pair_EncodeObject_def bindR_eq_Inr)
  have "Encode E l (ys @ rest) = Inr (n1, rest)" "Encode E r (zs @ rest) = Inr (n2, rest)" for rest
    using IH [of l x n1 ys] IH [of r y n2 zs] pair_tokens_size [OF t(1)] n t(4-7) by (auto simp: takes_def)
  then show ?thesis using t c n(3) by (simp add: takes_def Encode.simps [of E tk] pair_Encode_def)
qed

lemma takes_option:
  assumes c: "tok_class tk = OptionToken" and e: "EncodeObject E no_sem tk v = Inr m" and a: "arguments_of tk v = Inr xs"
    and IH: "\<And>k x n ys. tok_size k < tok_size tk \<Longrightarrow> EncodeObject E no_sem k x = Inr n \<Longrightarrow> arguments_of k x = Inr ys \<Longrightarrow>
      takes E k x n ys"
  shows "takes E tk v m xs"
proof (cases "nullish v")
  case True
  then have "xs = [v]" using a c by (subst (asm) arguments_of.simps) simp
  moreover have "m = js_prim0 ''None''" using e c True by (simp add: EncodeObject.simps [of E no_sem tk] option_EncodeObject_def)
  ultimately show ?thesis using c True by (simp add: takes_def Encode.simps [of E tk] option_Encode_def)
next
  case False
  obtain k where k: "sub_token tk 0 0 = Inr k" "arguments_of k v = Inr xs" "xs \<noteq> []" "\<not> nullish (hd xs)"
    using a c False by (subst (asm) arguments_of.simps) (auto simp: bindR_eq_Inr some_args_Inr split: if_splits)
  obtain n where n: "EncodeObject E no_sem k v = Inr n" "m = js_prim ''Some'' [n]"
    using e c False k by (auto simp: EncodeObject.simps [of E no_sem tk] option_EncodeObject_def bindR_eq_Inr)
  have "Encode E k (xs @ rest) = Inr (n, rest)" for rest
    using IH [OF sub_token_size [OF k(1)] n(1) k(2)] k(3) by (simp add: takes_def)
  moreover obtain x xs' where "xs = x # xs'" using k(3) by (cases xs) auto
  ultimately show ?thesis using c k n(2) by (simp add: takes_def Encode.simps [of E tk] option_Encode_def)
qed

lemma class_or_Encode: "tok_class tk = OrToken \<Longrightarrow> Encode E tk args = or_Encode E (Encode E) tk args"
  by (simp add: Encode.simps [of E tk])

lemma takes_or:
  assumes c: "tok_class tk = OrToken" and e: "EncodeObject E no_sem tk v = Inr m" and a: "arguments_of tk v = Inr xs"
    and IH: "\<And>k x n ys. tok_size k < tok_size tk \<Longrightarrow> EncodeObject E no_sem k x = Inr n \<Longrightarrow> arguments_of k x = Inr ys \<Longrightarrow>
      takes E k x n ys"
  shows "takes E tk v m xs"
proof -
  obtain label l r isl where f: "first_key v = Inr (Some label)" and t: "or_tokens tk = Inr (l, r)" and isl: "is_branch l label = Inr isl"
    using a c by (subst (asm) arguments_of.simps) (auto simp: bindR_eq_Inr split: option.splits)
  note sizes = or_tokens_size [OF t]
  note unfold = class_or_steps(1) [OF c] class_or_Encode [OF c] or_EncodeObject_def or_Encode_def t f isl label_text_def
  have here: "takes E tk v m xs"
    if k: "k = l \<and> b = ''Left'' \<and> isl \<or> k = r \<and> b = ''Right'' \<and> \<not> isl \<and> is_branch r label = Inr True"
      and x: "js_get v label = Inr x" "arguments_of k x = Inr ys" "ys \<noteq> []" "xs = JsStr label # ys" for k b x ys
  proof -
    obtain n where n: "EncodeObject E no_sem k x = Inr n" "m = js_prim b [n]"
      using e k x(1) by (auto simp: unfold bindR_eq_Inr)
    have "Encode E k (ys @ rest) = Inr (n, rest)" for rest
      using IH [OF _ n(1) x(2)] sizes k x(3) by (auto simp: takes_def)
    then show ?thesis using k x n(2) c f by (auto simp: takes_def unfold enc_simps)
  qed
  show ?thesis
  proof (cases isl)
    case True
    then obtain x ys where "js_get v label = Inr x" "arguments_of l x = Inr ys" "ys \<noteq> []" "xs = JsStr label # ys"
      using a c f t isl by (subst (asm) arguments_of.simps) (auto simp: bindR_eq_Inr some_args_Inr split: if_splits)
    then show ?thesis using here [of l "''Left''"] True by blast
  next
    case False
    then obtain isr where isr: "is_branch r label = Inr isr"
      using a c f t isl by (subst (asm) arguments_of.simps) (auto simp: bindR_eq_Inr)
    show ?thesis
    proof (cases isr)
      case True
      then obtain x ys where "js_get v label = Inr x" "arguments_of r x = Inr ys" "ys \<noteq> []" "xs = JsStr label # ys"
        using a c f t isl isr False by (subst (asm) arguments_of.simps) (auto simp: bindR_eq_Inr some_args_Inr split: if_splits)
      then show ?thesis using here [of r "''Right''"] True False isr by simp
    next
      case no_r: False
      obtain ys where ys: "(if tok_class l = OrToken then arguments_of l v else Inr []) = Inr ys"
        "(if ys \<noteq> [] then Inr ys else if tok_class r = OrToken then arguments_of r v else Inr []) = Inr xs"
        using a c f t isl isr False no_r by (subst (asm) arguments_of.simps) (auto simp: bindR_eq_Inr)
      obtain n where n: "or_attempt (EncodeObject E no_sem) l v = Inr n"
        "(if truthy n then Inr (js_prim ''Left'' [n]) else bindR (or_attempt (EncodeObject E no_sem) r v)
          (\<lambda>n. if truthy n then Inr (js_prim ''Right'' [n]) else Inr JsNull)) = Inr m"
        using e isr False no_r by (auto simp: unfold bindR_eq_Inr)
      have l: "takes E l v n ys" if "tok_class l = OrToken"
        using IH [of l v n ys] sizes that ys(1) n(1) by (simp add: or_attempt_def)
      have l_enc: "or_attempt_args (Encode E) l (JsStr label # rest) = Inr (JsNull, JsStr label # rest) \<and> n = JsNull"
        if "ys = []" for rest
        using l that n(1) f by (auto simp: or_attempt_args_def or_attempt_def takes_def)
      show ?thesis
      proof (cases "ys = []")
        case no_l: False
        then have o: "tok_class l = OrToken" using ys(1) by (auto split: if_splits)
        from l [OF o] no_l f o have "truthy n" "\<exists>zs. ys = JsStr label # zs" "\<And>rest. Encode E l (ys @ rest) = Inr (n, rest)"
          by (auto simp: takes_def neq_Nil_conv)
        then show ?thesis using o n(2) no_l ys(2) c f isr False no_r
          by (auto simp: takes_def unfold or_attempt_args_def enc_simps)
      next
        case no_l: True
        have "n = JsNull" using l_enc [OF no_l] by simp
        then have "bindR (or_attempt (EncodeObject E no_sem) r v)
          (\<lambda>n. if truthy n then Inr (js_prim ''Right'' [n]) else Inr JsNull) = Inr m" using n(2) by simp
        then obtain n2 where n2: "or_attempt (EncodeObject E no_sem) r v = Inr n2"
          "(if truthy n2 then Inr (js_prim ''Right'' [n2]) else Inr JsNull :: jsval enc) = Inr m"
          unfolding bindR_eq_Inr by (elim exE conjE) (rule that)
        have r: "takes E r v n2 xs" if "tok_class r = OrToken"
          using IH [of r v n2 xs] sizes that ys(2) n2(1) no_l by (simp add: or_attempt_def)
        show ?thesis
        proof (cases "xs = []")
          case no_xs: False
          then have o: "tok_class r = OrToken" using ys(2) no_l by (auto split: if_splits)
          from r [OF o] no_xs f o have "truthy n2" "\<exists>zs. xs = JsStr label # zs" "\<And>rest. Encode E r (xs @ rest) = Inr (n2, rest)"
            by (auto simp: takes_def neq_Nil_conv)
          then show ?thesis using o n2(2) c f isr False no_r l_enc [OF no_l]
            by (auto simp: takes_def unfold or_attempt_args_def [of _ r] enc_simps)
        next
          case no_xs: True
          have "or_attempt_args (Encode E) r (JsStr label # rest) = Inr (JsNull, JsStr label # rest) \<and> n2 = JsNull" for rest
            using r no_xs n2(1) f by (auto simp: or_attempt_args_def or_attempt_def takes_def)
          then show ?thesis using n2(2) c f isr False no_r l_enc [OF no_l] no_xs
            by (auto simp: takes_def unfold)
        qed
      qed
    qed
  qed
qed

lemma takes_value:
  assumes c: "tok_class tk \<notin> {PairToken, OrToken, OptionToken, OperationToken}" and e: "EncodeObject E no_sem tk v = Inr m"
  shows "arguments_of tk v = Inr xs \<Longrightarrow> takes E tk v m xs"
proof -
  assume "arguments_of tk v = Inr xs"
  then have "xs = [v]" using c by (subst (asm) arguments_of.simps) (auto split: token_class.splits)
  moreover have "value_Encode E tk v = Inr m"
  proof (cases "tok_class tk = BytesToken")
    case True
    then show ?thesis using e
      by (auto simp: value_Encode_def bytes_Encode_def EncodeObject.simps [of E no_sem tk] bytes_EncodeObject_def bytes_isValid_def
          bindR_eq_Inr with_text_def Let_def split: jsval.splits)
  next
    case False
    then show ?thesis using e
      by (cases v) (auto simp: value_Encode_def list_Encode_def EncodeObject.simps [of E no_sem tk] list_EncodeObject_def bindR_eq_Inr)
  qed
  ultimately show ?thesis using c by (auto simp: takes_def Encode.simps [of E tk] split: token_class.splits)
qed

lemma Encode_arguments:
  "EncodeObject E no_sem tk v = Inr m \<Longrightarrow> arguments_of tk v = Inr xs \<Longrightarrow> takes E tk v m xs"
proof (induction "tok_size tk" arbitrary: tk v m xs rule: less_induct)
  case less
  have IH: "tok_size k < tok_size tk \<Longrightarrow> EncodeObject E no_sem k x = Inr n \<Longrightarrow> arguments_of k x = Inr ys \<Longrightarrow> takes E k x n ys"
    for k x n ys using less.hyps by blast
  consider "tok_class tk = PairToken" | "tok_class tk = OrToken" | "tok_class tk = OptionToken" | "tok_class tk = OperationToken"
    | "tok_class tk \<notin> {PairToken, OrToken, OptionToken, OperationToken}" by auto
  then show ?case
  proof cases
    case 4
    then show ?thesis using less.prems(2) by (subst (asm) arguments_of.simps) simp
  qed (use takes_pair takes_or takes_option takes_value less.prems IH in blast)+
qed

end
