(* ===== verification/EncoderOrder.thy ===== *)
theory EncoderOrder
  imports EncoderProofs "HOL-Library.Char_ord" "HOL-Library.List_Lexorder" "HOL-Library.Multiset"
begin

text \<open>
  The order of sets and maps: where \<open>compare\<close> ranks the values by a linear order, \<open>sort\<close> is the
  sort of the library, so what is encoded does not depend on the order of insertion.  Numbers are
  compared as doubles, exactly below 2 to the 53 and not above.
\<close>

section \<open>Sorting by a rank\<close>

definition rank_compare :: "('a \<Rightarrow> 'b :: linorder) \<Rightarrow> 'a \<Rightarrow> 'a \<Rightarrow> int" where
  "rank_compare f x y = (if f x = f y then 0 else if f x < f y then - 1 else 1)"

lemma insR_rank:
  "(\<And>y. y \<in> set ys \<Longrightarrow> c x y = Inr (Some (rank_compare f x y))) \<Longrightarrow> insR c x ys = Inr (insort_key f x ys)"
  by (induction ys) (auto simp: rank_compare_def)

lemma sortR_rank:
  "(\<And>x y. x \<in> set xs \<Longrightarrow> y \<in> set xs \<Longrightarrow> c x y = Inr (Some (rank_compare f x y))) \<Longrightarrow> sortR c xs = Inr (sort_key f xs)"
proof (induction xs)
  case Nil
  then show ?case by simp
next
  case (Cons x xs)
  have "sortR c xs = Inr (sort_key f xs)" by (rule Cons.IH) (simp add: Cons.prems)
  then show ?case using insR_rank [of "sort_key f xs" c x f] Cons.prems by simp
qed

lemma js_sort_rank:
  assumes "\<And>x y. x \<in> set xs \<Longrightarrow> y \<in> set xs \<Longrightarrow> c x y = Inr (Some (rank_compare f x y))" and "JsUndefined \<notin> set xs"
  shows "js_sort c xs = Inr (sort_key f xs)"
proof -
  have "filter (\<lambda>x. x \<noteq> JsUndefined) xs = xs" "filter (\<lambda>x. x = JsUndefined) xs = []"
    using assms(2) by (auto simp: filter_id_conv filter_empty_conv)
  then show ?thesis using sortR_rank [of xs c f] assms(1) by (simp add: js_sort_def)
qed

lemma sort_key_permuted:
  assumes "inj_on f (set xs)" "mset xs = mset ys"
  shows "sort_key f xs = sort_key f ys"
proof -
  have "sort (map f zs) = map f (sort_key f zs)" for zs
    by (rule properties_for_sort) (simp_all add: mset_map)
  moreover have "sort (map f xs) = sort (map f ys)"
    by (rule properties_for_sort) (simp_all add: assms(2) mset_map)
  ultimately have m: "map f (sort_key f xs) = map f (sort_key f ys)" by simp
  have "set xs = set ys" using assms(2) by (rule mset_eq_setD)
  then show ?thesis using m assms(1) by (auto intro: map_inj_on)
qed

section \<open>Texts and numbers\<close>

lemma char_less: "(of_char x < (of_char y :: nat)) \<longleftrightarrow> x < (y :: char)"
  by (simp add: less_char_def)

lemma str_less_lex: "str_less s t \<longleftrightarrow> s < (t :: string)"
  by (induction s t rule: str_less.induct) (simp_all only: str_less.simps char_less not_less_Nil Nil_less_Cons Cons_less_Cons, auto)

text \<open>The classes that keep the comparison of texts.\<close>

definition text_class :: "token_class \<Rightarrow> bool" where
  "text_class c \<longleftrightarrow> c = StringToken \<or> c = BytesToken \<or> c = TimestampToken \<or> c = KeyHashToken \<or> c = SignatureToken \<or>
     c = ChainIDToken \<or> c = TxRollupL2AddressToken"

definition number_class :: "token_class \<Rightarrow> bool" where
  "number_class c \<longleftrightarrow> c = IntToken \<or> c = NatToken \<or> c = MutezToken"

fun str_of :: "jsval \<Rightarrow> string" where
  "str_of (JsStr s) = s"
| "str_of _ = []"

fun num_of :: "jsval \<Rightarrow> int" where
  "num_of (JsNum n) = n"
| "num_of _ = 0"

text \<open>Values on which \<open>compare\<close> is a linear order: texts, or JavaScript numbers.\<close>

definition plain_keys :: "token_class \<Rightarrow> jsval list \<Rightarrow> bool" where
  "plain_keys c xs \<longleftrightarrow> text_class c \<and> (\<forall>x \<in> set xs. \<exists>s. x = JsStr s) \<or> number_class c \<and> (\<forall>x \<in> set xs. \<exists>n. x = JsNum n)"

lemma text_compare: "text_class (tok_class k) \<Longrightarrow> token_compare E k (JsStr s) (JsStr t) = Inr (Some (rank_compare str_of (JsStr s) (JsStr t)))"
proof -
  assume "text_class (tok_class k)"
  then have "token_compare E k (JsStr s) (JsStr t) = base_compare (JsStr s) (JsStr t)"
    unfolding text_class_def by (elim disjE) (simp_all add: token_compare.simps [of E k])
  then show ?thesis by (simp add: base_compare_def rank_compare_def str_less_lex)
qed

lemma num_compare: "number_class (tok_class k) \<Longrightarrow> token_compare E k (JsNum m) (JsNum n) = Inr (Some (rank_compare num_of (JsNum m) (JsNum n)))"
  by (auto simp: number_class_def token_compare.simps [of E k] number_compare_def js_Number_def rank_compare_def)

lemma text_sort:
  assumes "text_class (tok_class k)" "\<forall>x \<in> set xs. \<exists>s. x = JsStr s"
  shows "js_sort (token_compare E k) xs = Inr (sort_key str_of xs)" "inj_on str_of (set xs)"
proof -
  show "js_sort (token_compare E k) xs = Inr (sort_key str_of xs)"
  proof (rule js_sort_rank)
    fix x y
    assume "x \<in> set xs" "y \<in> set xs"
    then obtain a b where "x = JsStr a" "y = JsStr b" using assms(2) by meson
    then show "token_compare E k x y = Inr (Some (rank_compare str_of x y))" using text_compare [OF assms(1)] by simp
  qed (use assms(2) in auto)
  show "inj_on str_of (set xs)" by (intro inj_onI) (metis assms(2) str_of.simps(1))
qed

lemma num_sort:
  assumes "number_class (tok_class k)" "\<forall>x \<in> set xs. \<exists>n. x = JsNum n"
  shows "js_sort (token_compare E k) xs = Inr (sort_key num_of xs)" "inj_on num_of (set xs)"
proof -
  show "js_sort (token_compare E k) xs = Inr (sort_key num_of xs)"
  proof (rule js_sort_rank)
    fix x y
    assume "x \<in> set xs" "y \<in> set xs"
    then obtain a b where "x = JsNum a" "y = JsNum b" using assms(2) by meson
    then show "token_compare E k x y = Inr (Some (rank_compare num_of x y))" using num_compare [OF assms(1)] by simp
  qed (use assms(2) in auto)
  show "inj_on num_of (set xs)" by (intro inj_onI) (metis assms(2) num_of.simps(1))
qed

lemma plain_sort:
  assumes "plain_keys (tok_class k) xs" "mset xs = mset ys"
  shows "\<exists>zs. js_sort (token_compare E k) xs = Inr zs \<and> js_sort (token_compare E k) ys = Inr zs"
proof -
  have s: "set ys = set xs" using assms(2) mset_eq_setD by metis
  from assms(1) [unfolded plain_keys_def] show ?thesis
  proof (elim disjE conjE)
    assume t: "text_class (tok_class k)" "\<forall>x \<in> set xs. \<exists>s. x = JsStr s"
    note ys = text_sort(1) [OF t(1) t(2) [folded s]]
    show ?thesis unfolding text_sort(1) [OF t] ys using sort_key_permuted [OF text_sort(2) [OF t] assms(2)] by simp
  next
    assume t: "number_class (tok_class k)" "\<forall>x \<in> set xs. \<exists>n. x = JsNum n"
    note ys = num_sort(1) [OF t(1) t(2) [folded s]]
    show ?thesis unfolding num_sort(1) [OF t] ys using sort_key_permuted [OF num_sort(2) [OF t] assms(2)] by simp
  qed
qed

text \<open>Sets, and maps whose keys are serialised apart.\<close>

lemma set_order:
  assumes "tok_class tk = SetToken" "sub_token tk 0 0 = Inr k" "plain_keys (tok_class k) xs" "mset xs = mset ys"
  shows "EncodeObject E no_sem tk (JsArr xs) = EncodeObject E no_sem tk (JsArr ys)"
  using plain_sort [OF assms(3,4), of E]
  by (auto simp: EncodeObject.simps [of E no_sem tk] set_EncodeObject_def assms(1,2))

lemma find_unique:
  "distinct (map f es) \<Longrightarrow> e \<in> set es \<Longrightarrow> f e = a \<Longrightarrow> find (\<lambda>e. f e = a) es = Some e"
  by (induction es) (auto simp: rev_image_eqI)

lemma entry_of_permuted:
  assumes "distinct (map (\<lambda>e. stringify E (fst e)) es)" "mset es = mset fs"
  shows "entry_of E es k = entry_of E fs k"
proof (cases "\<exists>e \<in> set es. stringify E (fst e) = stringify E k")
  case True
  then obtain e where e: "e \<in> set es" "stringify E (fst e) = stringify E k" by blast
  have "distinct (map (\<lambda>e. stringify E (fst e)) fs)"
    using assms mset_eq_imp_distinct_iff [of "map (\<lambda>e. stringify E (fst e)) es" "map (\<lambda>e. stringify E (fst e)) fs"] by simp
  moreover have "e \<in> set fs" using e(1) assms(2) by (metis mset_eq_setD)
  ultimately show ?thesis using find_unique [OF assms(1) e(1), of "stringify E k"] find_unique [of "\<lambda>e. stringify E (fst e)" fs e "stringify E k"] e(2)
    by (simp add: entry_of_def)
next
  case False
  moreover have "set fs = set es" using assms(2) by (metis mset_eq_setD)
  ultimately have "find (\<lambda>e. stringify E (fst e) = stringify E k) es = None" "find (\<lambda>e. stringify E (fst e) = stringify E k) fs = None"
    by (auto simp: find_None_iff)
  then show ?thesis by (simp add: entry_of_def)
qed

lemma map_order:
  assumes "tok_class tk = MapToken \<or> tok_class tk = BigMapToken" "sub_token tk 0 0 = Inr k"
    and "plain_keys (tok_class k) (map fst es)" "distinct (map (\<lambda>e. stringify E (fst e)) es)" "mset es = mset fs"
  shows "EncodeObject E no_sem tk (JsMap es sch) = EncodeObject E no_sem tk (JsMap fs sch)"
proof -
  have "mset (map fst es) = mset (map fst fs)" using assms(5) by (simp add: mset_map)
  then obtain zs where "js_sort (token_compare E k) (map fst es) = Inr zs" "js_sort (token_compare E k) (map fst fs) = Inr zs"
    using plain_sort [OF assms(3)] by metis
  moreover have "map_get E enc es sch = map_get E enc fs sch" for enc
    by (rule ext) (simp add: map_get_def entry_of_permuted [OF assms(4,5)])
  ultimately have "map_elts E (EncodeObject E no_sem) (token_compare E) tk es sch = map_elts E (EncodeObject E no_sem) (token_compare E) tk fs sch"
    by (simp add: map_elts_def assms(2))
  then show ?thesis using assms(1)
    by (auto simp: EncodeObject.simps [of E no_sem tk] map_EncodeObject_def bigmap_EncodeObject_def objLitToMichelsonMap_def)
qed

section \<open>Numbers as doubles\<close>

lemma dropWhile_id: "s \<noteq> [] \<Longrightarrow> \<not> P (hd s) \<Longrightarrow> dropWhile P s = s"
  by (cases s) auto

lemma numeral_ends: "int_to_dec i \<noteq> [] \<and> \<not> is_space (hd (int_to_dec i)) \<and> \<not> is_space (last (int_to_dec i)) \<and> hd (int_to_dec i) \<noteq> CHR ''+''"
proof -
  have ne: "digits 10 n \<noteq> []" for n by (rule digits_ne)
  have mem: "\<not> is_space c \<and> c \<noteq> CHR ''+''" if "c \<in> set (digits 10 n)" for n c
    using list_all_digits [of 10 n] digit_not_special [of 10 c] that by (auto simp: list_all_iff)
  have ends: "hd (digits 10 n) \<in> set (digits 10 n)" "last (digits 10 n) \<in> set (digits 10 n)" for n
    using ne by auto
  have "\<not> is_space (CHR ''-'')" by code_simp
  then show ?thesis using ne mem [OF ends(1)] mem [OF ends(2)]
    by (simp add: int_to_dec_def)
qed

lemma Number_numeral: "Number_text (int_to_dec i) = Inr (Some (to_double i))"
proof -
  have "js_trim_text (int_to_dec i) = int_to_dec i"
    using numeral_ends [of i] by (simp add: js_trim_text_def dropWhile_id hd_rev)
  then show ?thesis using numeral_ends [of i] by (simp add: Number_text_def Let_def)
qed

lemma small_numbers_exact:
  assumes "number_class (tok_class k)" "\<bar>m\<bar> \<le> 2 ^ 53" "\<bar>n\<bar> \<le> 2 ^ 53"
  shows "token_compare E k (JsStr (int_to_dec m)) (JsStr (int_to_dec n)) = Inr (Some (sgn (m - n)))"
  using assms by (auto simp: number_class_def token_compare.simps [of E k] number_compare_def js_Number_def Number_numeral
      to_double_small)

text \<open>Above, two numbers may round to one, and \<open>sort\<close> leaves them as they were.\<close>

lemma round_even_big: "0 \<le> j \<Longrightarrow> j < 2 ^ 51 \<Longrightarrow> round_even (2 ^ 53 + 4 * j + 1) = 2 ^ 53 + 4 * j"
proof -
  assume j: "0 \<le> j" "j < (2 :: int) ^ 51"
  have len: "bit_len n = k" if "2 ^ (k - 1) \<le> n" "n < 2 ^ k" "0 < k" for n k
    using that
  proof (induction k arbitrary: n)
    case (Suc k)
    show ?case
    proof (cases k)
      case 0
      then have "n = 1" using Suc.prems by simp
      then show ?thesis using 0 by (simp add: bit_len.simps [of 1] bit_len.simps [of 0])
    next
      case (Suc l)
      then have "bit_len (n div 2) = k" using Suc.IH [of "n div 2"] Suc.prems by auto
      moreover have "0 < n" using Suc.prems by (smt (verit) zero_less_power)
      ultimately show ?thesis by (simp add: bit_len.simps [of n])
    qed
  qed simp
  have "bit_len (2 ^ 53 + 4 * j + 1) = 54" by (rule len) (use j in auto)
  moreover have "(2 ^ 53 + 4 * j + 1) div 2 = 2 ^ 52 + 2 * j" by simp
  moreover have "(2 ^ 53 + 4 * j + 1) mod 2 = 1" by simp presburger
  ultimately show ?thesis using j by (simp add: round_even_def Let_def)
qed

end
