(* ===== verification/EncoderLosses.thy ===== *)
theory EncoderLosses
  imports EncoderOrder
begin

text \<open>
  Values that the encoder does not keep: unknown labels of a union, absent values inside nested options,
  boolean keys of maps, and the branch of an annotated union at the root of a storage.
\<close>

section \<open>Unions\<close>

text \<open>At an annotated root \<open>Schema.Execute\<close> takes the object of a branch for the annotation.\<close>

lemma storage_branch:
  assumes root: "tok_class (schema_root S) = OrToken" "hasAnnotations (schema_root S)"
    and t: "or_tokens (schema_root S) = Inr (l, r)"
    and k: "k = l \<and> b = ''Left'' \<or> k = r \<and> b = ''Right''" "tok_class k \<noteq> OrToken" "annot k = Inr a"
  shows "Schema_Execute E S (js_prim b [m]) sem = Execute E sem k m"
proof -
  have "Execute E sem (schema_root S) (js_prim b [m]) = bindR (Execute E sem k m) (\<lambda>x. Inr (JsObj [(a, x)]))"
    using k by (auto simp: class_or_steps(2) [OF root(1)] or_Execute_def t enc_simps branch_value_def)
  then show ?thesis
    by (cases "Execute E sem k m")
      (simp_all add: Schema_Execute_def removeTopLevelAnnotation_def root is_object_type_def js_keys_single js_get_def)
qed

section \<open>Options\<close>

text \<open>\<open>Some (... (Some None))\<close> with a number of \<open>Some\<close>s, and a type of at least \<open>n\<close> options inside
  each other.\<close>

fun somes :: "nat \<Rightarrow> jsval" where
  "somes 0 = js_prim0 ''None''"
| "somes (Suc j) = js_prim ''Some'' [somes j]"

fun option_depth :: "Token \<Rightarrow> nat \<Rightarrow> bool" where
  "option_depth tk 0 \<longleftrightarrow> True"
| "option_depth tk (Suc n) \<longleftrightarrow> tok_class tk = OptionToken \<and>
     (case sub_token tk 0 0 of Inl e \<Rightarrow> n = 0 | Inr k \<Rightarrow> option_depth k n)"

lemma option_EncodeObject_cases:
  assumes "tok_class tk = OptionToken" and "EncodeObject E sem tk v = Inr m"
  shows "nullish v \<and> m = js_prim0 ''None'' \<or>
    (\<exists>k m'. \<not> nullish v \<and> sub_token tk 0 0 = Inr k \<and> EncodeObject E sem k v = Inr m' \<and> m = js_prim ''Some'' [m'])"
  using assms by (auto simp: EncodeObject.simps [of E sem tk] option_EncodeObject_def bindR_eq_Inr split: if_splits)

lemma some_not_none: "js_prim ''Some'' [m] \<noteq> js_prim0 ''None''" "js_prim0 ''None'' \<noteq> js_prim ''Some'' [m]" "js_prim ''Some'' [m] = js_prim ''Some'' [m'] \<longleftrightarrow> m = m'"
  by (simp_all add: js_prim_def js_prim0_def)

lemma somes_unwritten:
  "option_depth tk n \<Longrightarrow> 0 < j \<Longrightarrow> j < n \<Longrightarrow> EncodeObject E sem tk v \<noteq> Inr (somes j)"
proof (induction j arbitrary: tk n v)
  case (Suc j)
  obtain n' where n: "n = Suc n'" using Suc.prems(3) by (cases n) auto
  show ?case
  proof
    assume e: "EncodeObject E sem tk v = Inr (somes (Suc j))"
    obtain k where k: "\<not> nullish v" "sub_token tk 0 0 = Inr k" "EncodeObject E sem k v = Inr (somes j)"
      using option_EncodeObject_cases [OF _ e] Suc.prems(1) n by (auto simp: some_not_none)
    have d: "option_depth k n'" using Suc.prems(1) n k(2) by simp
    show False
    proof (cases j)
      case 0
      then have "tok_class k = OptionToken" using d Suc.prems(3) n by (cases n') auto
      then show False using option_EncodeObject_cases [OF _ k(3)] k(1) 0 by (auto simp: some_not_none)
    next
      case Suc
      then show False using Suc.IH [OF d] k(3) Suc.prems(3) n by simp
    qed
  qed
qed simp

lemma somes_read: "option_depth tk n \<Longrightarrow> j < n \<Longrightarrow> Execute E sem tk (somes j) = Inr JsNull"
proof (induction j arbitrary: tk n)
  case 0
  then have "tok_class tk = OptionToken" by (cases n) auto
  then show ?case by (simp add: Execute.simps [of E sem tk] option_Execute_def enc_simps)
next
  case (Suc j)
  obtain n' where n: "n = Suc n'" "0 < n'" using Suc.prems(2) by (cases n) auto
  then obtain k where k: "tok_class tk = OptionToken" "sub_token tk 0 0 = Inr k" "option_depth k n'"
    using Suc.prems(1) by (auto split: sum.splits)
  then show ?case using Suc.IH [OF k(3)] Suc.prems(2) n by (simp add: Execute.simps [of E sem tk] option_Execute_def enc_simps)
qed

lemma null_written: "option_depth tk n \<Longrightarrow> 0 < n \<Longrightarrow> EncodeObject E sem tk JsNull = Inr (somes 0)"
  by (cases n) (auto simp: EncodeObject.simps [of E sem tk] option_EncodeObject_def nullish_def)

section \<open>Maps with boolean keys\<close>

lemma bool_key: "tok_class k = BoolToken \<Longrightarrow> ToKey E ex k (js_prim0 b) = Inr (js_prim0 ''True'')"
  by (simp add: ToKey_def bool_ToKey_def bool_EncodeObject_def enc_simps)

lemma set_bool_entry:
  "set_entry E sch es0 k x = Inr es \<Longrightarrow> es0 = [] \<or> (\<exists>y. es0 = [(k, y)]) \<Longrightarrow> es = [(k, x)]"
  by (auto simp: set_entry_def map_set_def bindR_eq_Inr)

lemma fill_bool_map:
  assumes k: "sub_token tk 0 0 = Inr k" "tok_class k = BoolToken" and w: "sub_token tk 1 0 = Inr w"
    and f: "fill_map (read_entry E ex0 ex tk) (set_entry E sch) (map (\<lambda>(b, m). js_elt (js_prim0 b) m) (kvs @ [kv])) es0 = Inr es"
    and es0: "es0 = [] \<or> (\<exists>y. es0 = [(js_prim0 ''True'', y)])"
  shows "\<exists>x. es = [(js_prim0 ''True'', x)] \<and> ex w (snd kv) = Inr x"
proof -
  have rd: "read_entry E ex0 ex tk (js_elt (js_prim0 b) m) = bindR (ex w m) (\<lambda>x. Inr (js_prim0 ''True'', x))" for b m
    unfolding read_entry_def k(1) w js_elt_def bindR_simps js_arg_prim bool_key [OF k(2)] ..
  show ?thesis using f es0
  proof (induction kvs arbitrary: es0)
    case Nil
    then show ?case by (auto simp: rd bindR_eq_Inr dest!: set_bool_entry split: prod.splits)
  next
    case (Cons p kvs)
    then obtain x es1 where p: "set_entry E sch es0 (js_prim0 ''True'') x = Inr es1"
      "fill_map (read_entry E ex0 ex tk) (set_entry E sch) (map (\<lambda>(b, m). js_elt (js_prim0 b) m) (kvs @ [kv])) es1 = Inr es"
      by (cases p) (auto simp: rd bindR_eq_Inr)
    show ?case by (rule Cons.IH [OF p(2)]) (use set_bool_entry [OF p(1) Cons.prems(2)] in simp)
  qed
qed

lemma bool_keys_collapse:
  assumes c: "tok_class tk = MapToken" and k: "sub_token tk 0 0 = Inr k" "tok_class k = BoolToken" and w: "sub_token tk 1 0 = Inr w"
    and e: "Execute E sem tk (JsArr (map (\<lambda>(b, m). js_elt (js_prim0 b) m) (kvs @ [kv]))) = Inr (JsMap es sch)"
  shows "\<exists>x. es = [(js_prim0 ''True'', x)] \<and> Execute E sem w (snd kv) = Inr x"
proof -
  have "fill_map (read_entry E (Execute E no_sem) (Execute E sem) tk) (set_entry E sch)
      (map (\<lambda>(b, m). js_elt (js_prim0 b) m) (kvs @ [kv])) [] = Inr es"
    using e by (auto simp: Execute.simps [of E sem tk] c map_Execute_def map_of_elts_def newMichelsonMap_def bindR_eq_Inr
        split: option.splits list.splits)
  then show ?thesis by (rule fill_bool_map [OF k w]) simp
qed

end
