(* ===== verification/EncoderMaps.thy ===== *)
theory EncoderMaps
  imports EncoderObject
begin

text \<open>
  \<open>MichelsonMap\<close> against finite maps: an interface of maps whose keys are compared by what they are
  serialised to, the entries of a \<open>MichelsonMap\<close> as an instance of it, and sequences of operations.
\<close>

section \<open>Maps with serialised keys\<close>

locale serialised_map =
  fixes serial :: "'k \<Rightarrow> 's"
    and entry :: "'m \<Rightarrow> 's \<Rightarrow> 'v option"
    and put :: "'m \<Rightarrow> 'k \<Rightarrow> 'v \<Rightarrow> 'm"
    and drop_key :: "'m \<Rightarrow> 'k \<Rightarrow> 'm"
    and none :: 'm
    and well :: "'m \<Rightarrow> bool"
  assumes entry_none: "entry none s = None"
    and entry_put: "well m \<Longrightarrow> entry (put m k v) = (entry m)(serial k \<mapsto> v)"
    and entry_drop: "well m \<Longrightarrow> entry (drop_key m k) = (entry m)(serial k := None)"
    and well_none: "well none"
    and well_put: "well m \<Longrightarrow> well (put m k v)"
    and well_drop: "well m \<Longrightarrow> well (drop_key m k)"
begin

lemma after_put: "well m \<Longrightarrow> entry m = f \<Longrightarrow> well (put m k v) \<and> entry (put m k v) = f(serial k \<mapsto> v)"
  by (simp add: entry_put well_put)

lemma after_drop: "well m \<Longrightarrow> entry m = f \<Longrightarrow> well (drop_key m k) \<and> entry (drop_key m k) = f(serial k := None)"
  by (simp add: entry_drop well_drop)

lemma fresh: "well none \<and> entry none = Map.empty"
  by (simp add: well_none entry_none fun_eq_iff)

end

section \<open>The entries of a MichelsonMap\<close>

definition keyed :: "enc_libs \<Rightarrow> (jsval \<times> jsval) list \<Rightarrow> (string \<times> jsval) list" where
  "keyed E es = map (\<lambda>e. (stringify E (fst e), snd e)) es"

definition entries_of :: "enc_libs \<Rightarrow> (jsval \<times> jsval) list \<Rightarrow> string \<Rightarrow> jsval option" where
  "entries_of E es = map_of (keyed E es)"

definition no_key_twice :: "enc_libs \<Rightarrow> (jsval \<times> jsval) list \<Rightarrow> bool" where
  "no_key_twice E es = distinct (map fst (keyed E es))"

definition drop_entry :: "enc_libs \<Rightarrow> (jsval \<times> jsval) list \<Rightarrow> jsval \<Rightarrow> (jsval \<times> jsval) list" where
  "drop_entry E es k = filter (\<lambda>e. stringify E (fst e) \<noteq> stringify E k) es"

lemma keyed_simps [simp]:
  "keyed E [] = []" "keyed E (e # es) = (stringify E (fst e), snd e) # keyed E es"
  by (simp_all add: keyed_def)

lemma keys_put: "fst ` set (keyed E (put_entry E es k v)) = insert (stringify E k) (fst ` set (keyed E es))"
  by (induction es) auto

lemma no_key_twice_put: "no_key_twice E es \<Longrightarrow> no_key_twice E (put_entry E es k v)"
proof (induction es)
  case (Cons e es)
  then have "stringify E (fst e) \<notin> fst ` set (keyed E es)" "no_key_twice E es" by (auto simp: no_key_twice_def)
  then show ?case using Cons.IH keys_put [of E es k v] by (auto simp: no_key_twice_def image_iff)
qed (simp add: no_key_twice_def)

lemma map_of_drop: "map_of (keyed E (drop_entry E es k)) = (map_of (keyed E es))(stringify E k := None)"
  by (induction es) (auto simp: drop_entry_def fun_eq_iff)

interpretation michelson_map: serialised_map "stringify E" "entries_of E" "put_entry E" "drop_entry E" "[]" "no_key_twice E"
  for E :: enc_libs
proof unfold_locales
  fix m k v
  show "entries_of E (put_entry E m k v) = (entries_of E m)(stringify E k \<mapsto> v)"
    by (induction m) (auto simp: entries_of_def fun_eq_iff)
  show "no_key_twice E m \<Longrightarrow> no_key_twice E (put_entry E m k v)" by (rule no_key_twice_put)
  show "no_key_twice E m \<Longrightarrow> no_key_twice E (drop_entry E m k)"
    by (induction m) (auto simp: no_key_twice_def drop_entry_def keyed_def)
qed (simp_all add: entries_of_def no_key_twice_def map_of_drop)

lemma entry_of_entries: "entry_of E es k = (case entries_of E es (stringify E k) of Some x \<Rightarrow> x | None \<Rightarrow> JsUndefined)"
  by (induction es) (auto simp: entry_of_def entries_of_def split: option.splits)

lemma has_entry: "(\<exists>e \<in> set es. stringify E (fst e) = stringify E k) \<longleftrightarrow> entries_of E es (stringify E k) \<noteq> None"
  by (induction es) (auto simp: entries_of_def)

section \<open>Sequences of operations\<close>

datatype map_op = SetOp jsval jsval | DeleteOp jsval | ClearOp

text \<open>On a \<open>MichelsonMap\<close> with the types \<open>sch\<close>, and on a finite map.\<close>

fun map_step :: "enc_libs \<Rightarrow> (expr \<times> expr) option \<Rightarrow> map_op \<Rightarrow> (jsval \<times> jsval) list \<Rightarrow> (jsval \<times> jsval) list enc" where
  "map_step E sch (SetOp k v) es = map_set E (EncodeObject E no_sem) es sch k v"
| "map_step E sch (DeleteOp k) es = map_delete E (EncodeObject E no_sem) es sch k"
| "map_step E sch ClearOp es = Inr []"

fun map_steps :: "enc_libs \<Rightarrow> (expr \<times> expr) option \<Rightarrow> map_op list \<Rightarrow> (jsval \<times> jsval) list \<Rightarrow> (jsval \<times> jsval) list enc" where
  "map_steps E sch [] es = Inr es"
| "map_steps E sch (op # ops) es = bindR (map_step E sch op es) (map_steps E sch ops)"

fun fmap_step :: "enc_libs \<Rightarrow> map_op \<Rightarrow> (string \<Rightarrow> jsval option) \<Rightarrow> string \<Rightarrow> jsval option" where
  "fmap_step E (SetOp k v) f = f(stringify E k \<mapsto> v)"
| "fmap_step E (DeleteOp k) f = f(stringify E k := None)"
| "fmap_step E ClearOp f = Map.empty"

definition fmap_steps :: "enc_libs \<Rightarrow> map_op list \<Rightarrow> string \<Rightarrow> jsval option" where
  "fmap_steps E ops = fold (fmap_step E) ops Map.empty"

lemma map_step_refines:
  assumes "map_step E sch op es = Inr es'" "no_key_twice E es" "entries_of E es = f"
  shows "no_key_twice E es' \<and> entries_of E es' = fmap_step E op f"
proof (cases op)
  case (SetOp k v)
  then have "es' = put_entry E es k v" using assms(1) by (auto simp: map_set_def bindR_eq_Inr)
  then show ?thesis using michelson_map.after_put [OF assms(2,3)] SetOp by simp
next
  case (DeleteOp k)
  then have "es' = drop_entry E es k" using assms(1) by (auto simp: map_delete_def bindR_eq_Inr drop_entry_def)
  then show ?thesis using michelson_map.after_drop [OF assms(2,3)] DeleteOp by simp
next
  case ClearOp
  then show ?thesis using assms(1) michelson_map.fresh [of E] by simp
qed

lemma map_steps_refine:
  assumes "map_steps E sch ops es = Inr es'" "no_key_twice E es" "entries_of E es = f"
  shows "no_key_twice E es' \<and> entries_of E es' = fold (fmap_step E) ops f"
  using assms
proof (induction ops arbitrary: es f)
  case (Cons op ops)
  then obtain es1 where s: "map_step E sch op es = Inr es1" "map_steps E sch ops es1 = Inr es'" by (auto simp: bindR_eq_Inr)
  show ?case using Cons.IH [OF s(2)] map_step_refines [OF s(1) Cons.prems(2,3)] by simp
qed simp

lemma map_get_refines:
  assumes "map_steps E sch ops [] = Inr es" "map_get E (EncodeObject E no_sem) es sch k = Inr x"
  shows "x = (case fmap_steps E ops (stringify E k) of Some y \<Rightarrow> y | None \<Rightarrow> JsUndefined)"
  using map_steps_refine [OF assms(1)] michelson_map.fresh [of E] assms(2)
  by (auto simp: fmap_steps_def map_get_def bindR_eq_Inr entry_of_entries)

end
