(* ===== verification/EncoderNames.thy ===== *)
theory EncoderNames
  imports Tokens
begin

text \<open>
  The two descriptions of a type: \<open>ExtractSchema\<close> gives what is left of the schema that
  \<open>generateSchema\<close> makes when the Michelson types in it are dropped.
\<close>

text \<open>The Michelson type and the schema of a generated one, and the parts of the schema.\<close>

definition typed_schema :: "jsval \<Rightarrow> (string \<times> jsval) option" where
  "typed_schema g = (case g of JsObj [(t, JsStr p), (s, x)] \<Rightarrow> Some (p, x) | _ \<Rightarrow> None)"

definition props_of :: "jsval \<Rightarrow> (string \<times> jsval) list" where
  "props_of x = (case x of JsObj ps \<Rightarrow> ps | _ \<Rightarrow> [])"

definition ticket_order :: "'a list \<Rightarrow> 'a list" where
  "ticket_order ps = (case ps of [u, v, w] \<Rightarrow> [v, u, w] | _ \<Rightarrow> ps)"

definition memo_schema :: "string \<Rightarrow> jsval \<Rightarrow> jsval" where
  "memo_schema p x =
     JsObj [(p, JsObj [(''memo-size'', case map snd (props_of x) of
         [JsStr m] \<Rightarrow> (case Number_text m of Inr (Some i) \<Rightarrow> JsNum i | _ \<Rightarrow> JsNaN)
       | _ \<Rightarrow> JsNaN)])]"

lemma typed_schema_size: "typed_schema g = Some (p, x) \<Longrightarrow> vsize x < vsize g"
  by (auto simp: typed_schema_def split: jsval.splits list.splits)

lemma props_of_size: "q \<in> set (props_of x) \<Longrightarrow> vsize (snd q) \<le> vsize x"
  using vsize_prop [of "fst q" "snd q"] by (fastforce simp: props_of_def split: jsval.splits)

lemma part_size: "typed_schema g = Some (p, x) \<Longrightarrow> q \<in> set (props_of x) \<Longrightarrow> vsize (snd q) < vsize g"
  using typed_schema_size props_of_size by (meson le_less_trans)

lemma ticket_order_set: "set (ticket_order ps) = set ps"
  by (auto simp: ticket_order_def split: list.splits)

text \<open>The plain schema inside a generated one.\<close>

function plain_schema :: "jsval \<Rightarrow> jsval" where
  "plain_schema g =
     (case typed_schema g of
        None \<Rightarrow> g
      | Some (p, x) \<Rightarrow>
          if p = ''pair'' \<or> p = ''or'' then JsObj (map (\<lambda>q. (fst q, plain_schema (snd q))) (props_of x))
          else if p = ''option'' then plain_schema x
          else if p = ''list'' then JsObj [(p, plain_schema x)]
          else if p = ''map'' \<or> p = ''big_map'' \<or> p = ''lambda'' then
            JsObj [(p, JsObj (map (\<lambda>q. (fst q, plain_schema (snd q))) (props_of x)))]
          else if p = ''ticket'' \<or> p = ''ticket_deprecated'' then
            JsObj (map (\<lambda>q. (fst q, plain_schema (snd q))) (ticket_order (props_of x)))
          else if p = ''sapling_state'' \<or> p = ''sapling_transaction'' \<or> p = ''sapling_transaction_deprecated'' then
            memo_schema p x
          else JsStr p)"
  by pat_completeness auto
termination
  by (relation "measure vsize")
    (simp_all only: in_measure wf_measure ticket_order_set, (metis part_size typed_schema_size)+)

declare plain_schema.simps [simp del]

definition plain_fields :: "(string \<times> jsval) list \<Rightarrow> (string \<times> jsval) list" where
  "plain_fields ps = map (\<lambda>q. (fst q, plain_schema (snd q))) ps"

lemma plain_fields_simps [simp]:
  "plain_fields [] = []" "plain_fields (q # qs) = (fst q, plain_schema (snd q)) # plain_fields qs"
  by (simp_all add: plain_fields_def)

lemma plain_put: "plain_fields (put_prop ps k v) = put_prop (plain_fields ps) k (plain_schema v)"
  by (induction ps) auto

lemma plain_spread: "plain_fields (spread ps qs) = spread (plain_fields ps) (plain_fields qs)"
  unfolding spread_def by (induction qs arbitrary: ps) (simp_all add: plain_put split: prod.split)

lemma typed_base: "typed_schema (base_schema p x) = Some (p, x)"
  by (simp add: typed_schema_def base_schema_def)

lemma plain_base_fields:
  "p = ''pair'' \<or> p = ''or'' \<Longrightarrow> plain_schema (base_schema p (JsObj ps)) = JsObj (plain_fields ps)"
  by (elim disjE; subst plain_schema.simps; simp add: typed_base props_of_def plain_fields_def)

lemma plain_js_spread:
  "js_spread (JsObj (plain_fields ps)) (JsObj (plain_fields qs)) = Inr (JsObj (plain_fields (spread (spread [] ps) qs)))"
  by (simp add: js_spread_def obj_props_def plain_spread)

lemma js_get_base: "js_get (base_schema p x) ''schema'' = Inr x"
  by (simp add: js_get_def base_schema_def)

text \<open>One side of a pair or a union.\<close>

lemma side_agrees:
  assumes IH: "\<And>g s. generateSchema k = Inr g \<Longrightarrow> ExtractSchema k = Inr s \<Longrightarrow> s = plain_schema g"
    and i: "i \<longrightarrow> (\<forall>g. generateSchema k = Inr g \<longrightarrow> (\<exists>p ps. (p = ''pair'' \<or> p = ''or'') \<and> g = base_schema p (JsObj ps)))"
    and g: "named i k f = Inr G" and f: "f k = inner_schema i generateSchema k" and s: "named i k ExtractSchema = Inr S"
  shows "\<exists>ps. G = JsObj ps \<and> S = JsObj (plain_fields ps)"
proof (cases i)
  case True
  then obtain x where x: "generateSchema k = Inr x" "js_get x ''schema'' = Inr G"
    using g f by (auto simp: named_def inner_schema_def bindR_eq_Inr)
  obtain p ps where p: "p = ''pair'' \<or> p = ''or''" "x = base_schema p (JsObj ps)" using i True x(1) by blast
  have "S = plain_schema x" using IH [OF x(1)] s True by (simp add: named_def)
  moreover have "G = JsObj ps" using x(2) by (simp add: p(2) js_get_base)
  ultimately show ?thesis using plain_base_fields [OF p(1), of ps] p(2) by blast
next
  case False
  then show ?thesis using g f s IH by (auto simp: named_def inner_schema_def bindR_eq_Inr)
qed

lemma js_spread_obj: "js_spread a b = Inr c \<Longrightarrow> \<exists>ps. c = JsObj ps"
  by (auto simp: js_spread_def bindR_eq_Inr)

lemma pair_generated: "tok_class k = PairToken \<Longrightarrow> generateSchema k = Inr g \<Longrightarrow> \<exists>ps. g = base_schema ''pair'' (JsObj ps)"
  by (subst (asm) generateSchema.simps)
    (auto simp: pair_generateSchema_def pair_traversal_def bindR_eq_Inr Let_def dest!: js_spread_obj)

lemma or_generated: "tok_class k = OrToken \<Longrightarrow> generateSchema k = Inr g \<Longrightarrow> \<exists>ps. g = base_schema ''or'' (JsObj ps)"
  by (subst (asm) generateSchema.simps)
    (auto simp: or_generateSchema_def or_traversal_def bindR_eq_Inr Let_def dest!: js_spread_obj)

lemma pair_agrees:
  assumes IH: "\<And>k g s. tok_size k < tok_size tk \<Longrightarrow> generateSchema k = Inr g \<Longrightarrow> ExtractSchema k = Inr s \<Longrightarrow> s = plain_schema g"
    and g: "pair_generateSchema generateSchema tk = Inr g" and s: "pair_traversal ExtractSchema ExtractSchema ExtractSchema tk = Inr s"
  shows "s = plain_schema g"
proof -
  obtain a b l n r L R where t: "pair_args tk = Inr (a, b)" "createToken a (tok_idx tk) = Inr l"
      "(if tok_class l = PairToken then bindR (ExtractSchema l) key_count else Inr 1) = Inr n"
      "createToken b (tok_idx tk + n) = Inr r" and S: "named (inline_pair l) l ExtractSchema = Inr L"
      "named (inline_pair r) r ExtractSchema = Inr R" "js_spread L R = Inr s"
    using s by (auto simp: pair_traversal_def bindR_eq_Inr)
  obtain L' R' x where G: "named (inline_pair l) l (\<lambda>k. inner_schema (inline_pair k) generateSchema k) = Inr L'"
      "named (inline_pair r) r (\<lambda>k. inner_schema (inline_pair k) generateSchema k) = Inr R'"
      "js_spread L' R' = Inr x" "g = base_schema ''pair'' x"
    using g t by (auto simp: pair_generateSchema_def pair_traversal_def bindR_eq_Inr)
  have sizes: "tok_size l < tok_size tk" "tok_size r < tok_size tk"
    using pair_args_size [OF t(1)] createToken_size [OF t(2)] createToken_size [OF t(4)] by simp_all
  have i: "inline_pair k \<longrightarrow> (\<forall>g. generateSchema k = Inr g \<longrightarrow> (\<exists>p ps. (p = ''pair'' \<or> p = ''or'') \<and> g = base_schema p (JsObj ps)))" for k
    using pair_generated by (fastforce simp: inline_pair_def)
  obtain ps where ps: "L' = JsObj ps" "L = JsObj (plain_fields ps)"
    using side_agrees [OF IH [OF sizes(1)] i G(1) refl S(1)] by blast
  obtain qs where qs: "R' = JsObj qs" "R = JsObj (plain_fields qs)"
    using side_agrees [OF IH [OF sizes(2)] i G(2) refl S(2)] by blast
  have "x = JsObj (spread (spread [] ps) qs)" using G(3) ps qs by (simp add: js_spread_def obj_props_def)
  then show ?thesis using S(3) ps qs G(4) plain_js_spread plain_base_fields by simp
qed

lemma or_agrees:
  assumes IH: "\<And>k g s. tok_size k < tok_size tk \<Longrightarrow> generateSchema k = Inr g \<Longrightarrow> ExtractSchema k = Inr s \<Longrightarrow> s = plain_schema g"
    and g: "or_generateSchema generateSchema tk = Inr g" and s: "or_traversal ExtractSchema ExtractSchema ExtractSchema js_spread tk = Inr s"
  shows "s = plain_schema g"
proof -
  obtain l n r L R where t: "sub_token tk 0 (tok_idx tk) = Inr l" "(if inline_or l then bindR (ExtractSchema l) key_count else Inr 1) = Inr n"
      "sub_token tk 1 (tok_idx tk + n) = Inr r" and S: "named (inline_or l) l ExtractSchema = Inr L"
      "named (inline_or r) r ExtractSchema = Inr R" "js_spread L R = Inr s"
    using s by (auto simp: or_traversal_def bindR_eq_Inr)
  obtain L' R' x where G: "named (inline_or l) l (\<lambda>k. inner_schema (inline_or k) generateSchema k) = Inr L'"
      "named (inline_or r) r (\<lambda>k. inner_schema (inline_or k) generateSchema k) = Inr R'"
      "js_spread L' R' = Inr x" "g = base_schema ''or'' x"
    using g t by (auto simp: or_generateSchema_def or_traversal_def bindR_eq_Inr)
  have i: "inline_or k \<longrightarrow> (\<forall>g. generateSchema k = Inr g \<longrightarrow> (\<exists>p ps. (p = ''pair'' \<or> p = ''or'') \<and> g = base_schema p (JsObj ps)))" for k
    using or_generated by (fastforce simp: inline_or_def)
  obtain ps where ps: "L' = JsObj ps" "L = JsObj (plain_fields ps)"
    using side_agrees [OF IH [OF sub_token_size [OF t(1)]] i G(1) refl S(1)] by blast
  obtain qs where qs: "R' = JsObj qs" "R = JsObj (plain_fields qs)"
    using side_agrees [OF IH [OF sub_token_size [OF t(3)]] i G(2) refl S(2)] by blast
  have "x = JsObj (spread (spread [] ps) qs)" using G(3) ps qs by (simp add: js_spread_def obj_props_def)
  then show ?thesis using S(3) ps qs G(4) plain_js_spread plain_base_fields by simp
qed

section \<open>The classes with one or two types below\<close>

lemma plain_typed:
  "plain_schema (base_schema p x) =
     (if p = ''pair'' \<or> p = ''or'' then JsObj (plain_fields (props_of x))
      else if p = ''option'' then plain_schema x
      else if p = ''list'' then JsObj [(p, plain_schema x)]
      else if p = ''map'' \<or> p = ''big_map'' \<or> p = ''lambda'' then JsObj [(p, JsObj (plain_fields (props_of x)))]
      else if p = ''ticket'' \<or> p = ''ticket_deprecated'' then JsObj (plain_fields (ticket_order (props_of x)))
      else if p = ''sapling_state'' \<or> p = ''sapling_transaction'' \<or> p = ''sapling_transaction_deprecated'' then memo_schema p x
      else JsStr p)"
  unfolding plain_schema.simps [of "base_schema p x"] typed_base plain_fields_def option.case prod.case ..

lemma props_of_obj: "props_of (JsObj ps) = ps"
  by (simp add: props_of_def)

lemma plain_base:
  "plain_schema (base_schema ''option'' x) = plain_schema x"
  "plain_schema (base_schema ''list'' x) = JsObj [(''list'', plain_schema x)]"
  "p = ''map'' \<or> p = ''big_map'' \<or> p = ''lambda'' \<Longrightarrow>
     plain_schema (base_schema p (JsObj [(a, u), (b, w)])) = JsObj [(p, JsObj [(a, plain_schema u), (b, plain_schema w)])]"
  "p = ''ticket'' \<or> p = ''ticket_deprecated'' \<Longrightarrow>
     plain_schema (base_schema p (JsObj [(a, u), (b, v), (c, w)])) = JsObj [(b, plain_schema v), (a, plain_schema u), (c, plain_schema w)]"
  "p = ''sapling_state'' \<or> p = ''sapling_transaction'' \<or> p = ''sapling_transaction_deprecated'' \<Longrightarrow>
     plain_schema (base_schema p x) = memo_schema p x"
proof -
  show "plain_schema (base_schema ''option'' x) = plain_schema x"
    "plain_schema (base_schema ''list'' x) = JsObj [(''list'', plain_schema x)]"
    by (subst plain_typed, simp)+
  show "p = ''map'' \<or> p = ''big_map'' \<or> p = ''lambda'' \<Longrightarrow>
     plain_schema (base_schema p (JsObj [(a, u), (b, w)])) = JsObj [(p, JsObj [(a, plain_schema u), (b, plain_schema w)])]"
    by (elim disjE; subst plain_typed; simp add: props_of_obj)
  show "p = ''ticket'' \<or> p = ''ticket_deprecated'' \<Longrightarrow>
     plain_schema (base_schema p (JsObj [(a, u), (b, v), (c, w)])) = JsObj [(b, plain_schema v), (a, plain_schema u), (c, plain_schema w)]"
    by (elim disjE; subst plain_typed; simp add: props_of_obj ticket_order_def)
  show "p = ''sapling_state'' \<or> p = ''sapling_transaction'' \<or> p = ''sapling_transaction_deprecated'' \<Longrightarrow>
     plain_schema (base_schema p x) = memo_schema p x"
    by (elim disjE; subst plain_typed; simp)
qed

lemma plain_leaf:
  "p \<notin> {''pair'', ''or'', ''option'', ''list'', ''map'', ''big_map'', ''lambda'', ''ticket'', ''ticket_deprecated'', ''sapling_state'',
     ''sapling_transaction'', ''sapling_transaction_deprecated''} \<Longrightarrow> plain_schema (base_schema p x) = JsStr p"
  unfolding plain_typed by (simp only: insert_iff de_Morgan_disj if_False simp_thms)

lemma sapling_agrees:
  assumes "sapling_generateSchema tk = Inr g" "sapling_ExtractSchema tk = Inr s"
    and "class_prim (tok_class tk) = ''sapling_state'' \<or> class_prim (tok_class tk) = ''sapling_transaction'' \<or>
      class_prim (tok_class tk) = ''sapling_transaction_deprecated''"
  shows "s = plain_schema g"
proof -
  obtain m n where "memo_text tk = Inr m" "g = base_schema (class_prim (tok_class tk)) (JsObj [(''memoSize'', m)])"
    "memo_number tk = Inr n" "s = JsObj [(class_prim (tok_class tk), JsObj [(''memo-size'', n)])]"
    using assms(1,2) by (auto simp: sapling_generateSchema_def sapling_ExtractSchema_def bindR_eq_Inr)
  then show ?thesis
    by (auto simp: plain_base(5) [OF assms(3)] memo_schema_def props_of_def memo_number_def bindR_eq_Inr split: jsval.splits option.splits)
qed

lemma schemas_agree_step:
  assumes IH: "\<And>k g s. tok_size k < tok_size tk \<Longrightarrow> generateSchema k = Inr g \<Longrightarrow> ExtractSchema k = Inr s \<Longrightarrow> s = plain_schema g"
    and g: "generateSchema tk = Inr g" and s: "ExtractSchema tk = Inr s"
  shows "s = plain_schema g"
proof -
  have below: "x = plain_schema y" if "sub_token tk j i = Inr k" "ExtractSchema k = Inr x" "generateSchema k = Inr y" for j i k x y
    using IH [OF sub_token_size [OF that(1)] that(3,2)] .
  note gen = g [unfolded generateSchema.simps [of tk] Let_def] and ext = s [unfolded ExtractSchema.simps [of tk] Let_def]
  note prims = class_prim_def tokens_def
  show ?thesis
  proof (cases "tok_class tk")
    case PairToken
    then show ?thesis using gen ext pair_agrees [OF IH] by simp
  next
    case OrToken
    then show ?thesis using gen ext or_agrees [OF IH] by simp
  next
    case OptionToken
    then show ?thesis using gen ext by (auto simp: prims bindR_eq_Inr plain_base dest: below)
  next
    case ListToken
    then show ?thesis using gen ext by (auto simp: prims bindR_eq_Inr plain_base dest: below)
  next
    case MapToken
    then show ?thesis using gen ext by (auto simp: prims bindR_eq_Inr plain_base dest: below)
  next
    case BigMapToken
    then show ?thesis using gen ext by (auto simp: prims bindR_eq_Inr plain_base dest: below)
  next
    case LambdaToken
    then show ?thesis using gen ext by (auto simp: prims bindR_eq_Inr plain_base dest: below)
  next
    case TicketToken
    then show ?thesis using gen ext by (auto simp: prims bindR_eq_Inr plain_base plain_leaf dest: below)
  next
    case TicketDeprecatedToken
    then show ?thesis using gen ext by (auto simp: prims bindR_eq_Inr plain_base plain_leaf dest: below)
  next
    case SaplingStateToken
    then show ?thesis using gen ext sapling_agrees [of tk g s] by (simp add: prims)
  next
    case SaplingTransactionToken
    then show ?thesis using gen ext sapling_agrees [of tk g s] by (simp add: prims)
  next
    case SaplingTransactionDeprecatedToken
    then show ?thesis using gen ext sapling_agrees [of tk g s] by (simp add: prims)
  qed (use gen ext in \<open>auto simp: prims leaf_generateSchema_def constant_generateSchema_def bindR_eq_Inr plain_leaf\<close>)
qed

lemma schemas_agree:
  "generateSchema tk = Inr g \<Longrightarrow> ExtractSchema tk = Inr s \<Longrightarrow> s = plain_schema g"
proof (induction "tok_size tk" arbitrary: tk g s rule: less_induct)
  case less
  show ?case by (rule schemas_agree_step [OF less.hyps less.prems])
qed

end
