(* ===== verification/Spec2Isabelle.thy ===== *)
theory Spec2Isabelle
  imports Demo MacroFree ParserProofs ValidatorProofs PackRoundTrip PackForging PackUtilsProofs ContractSoundness CheckerFrame EncoderLosses EncoderMaps EncoderNames
begin

text \<open>
  Taquito, a TypeScript library for Tezos: a verification library for the parts that turn data
  into bytes and text and back.

  \<^bold>\<open>Parts and theories.\<close>

  \<^item> Vocabulary.  \<open>Prelude\<close> (results, bytes, numerals), \<open>JsText\<close> (hexadecimal text, UTF-8,
    numbers and their texts, \<open>parseInt\<close>, \<open>split\<close>), \<open>Environment\<close> (error classes, third-party libraries as the record
    \<open>libs\<close>), \<open>Micheline\<close> (the expressions of \<open>micheline.ts\<close>), \<open>Zarith\<close> (variable-length
    numbers, the specification).

  \<^item> Forging, \<open>packages/taquito-local-forging/src\<close>.  \<open>Consumer\<close> is the byte reader
    (\<open>uint8array-consumer.ts\<close>, a record of bytes and offset), \<open>ForgeConstants\<close> the tables,
    \<open>ForgeMichelson\<close> the codec of Micheline (\<open>michelson/codec.ts\<close>), \<open>ForgeCodec\<close> the field
    codecs (\<open>codec.ts\<close>), \<open>ForgeSchema\<close> the operation schemas, \<open>Forger\<close> the class
    \<open>LocalForger\<close> with its checks.  The \<open>...Proofs\<close> theories hold their lemmas: every field
    codec is an interpretation of the locale \<open>codec\<close>, the round trip of the forger follows from
    the locale.

  \<^item> Prefixes, validators and signatures, \<open>packages/taquito-utils/src\<close>: \<open>TezosPrefix\<close>.

  \<^item> Michelson text, \<open>packages/taquito-michel-codec/src\<close>.  \<open>Scanner\<close> (\<open>scan.ts\<close>), \<open>Parser\<close>
    (\<open>micheline-parser.ts\<close>, recursive descent and JSON), \<open>Macros\<close> (\<open>macros.ts\<close>), \<open>Emitter\<close>
    (\<open>micheline-emitter.ts\<close>).  \<open>StackMachine\<close> is a specification: what the instructions the
    macros expand to do to a stack.  \<open>MacrosProofs\<close> shows that each family of macros does what
    its name says, \<open>ParserTermination\<close> that the parser ends, \<open>MacroFree\<close> that it leaves no macro in
    what it returns, \<open>ParserProofs\<close> that it reads what the emitter writes.

  \<^item> Validation, the same package: \<open>Validator\<close> (\<open>michelson-validator.ts\<close>) and
    \<open>ValidatorProofs\<close>, what is accepted.

  \<^item> \<open>PACK\<close> and \<open>UNPACK\<close>, the same package: \<open>PackUtils\<close> (\<open>utils.ts\<close>, \<open>base58.ts\<close>), \<open>JsDate\<close>
    (\<open>parseDate\<close> and the parts of \<open>Date\<close> it needs), \<open>PackBinary\<close> and \<open>PackData\<close>
    (\<open>binary.ts\<close>).  \<open>PackProofs\<close>, \<open>PackLeaves\<close> and \<open>PackRoundTrip\<close> show that reading inverts
    writing, \<open>PackForging\<close> that the packed bytes are those of the forger, \<open>PackUtilsProofs\<close> and
    \<open>JsDateProofs\<close> what long integers and dates do.

  \<^item> Type checking, the same package: \<open>TypeBase\<close> (types, equality, annotations), \<open>TypeInst\<close> (the
    instructions that hold no code), \<open>TypeCheck\<close> (entrypoints, data, code and contracts, mutually
    recursive) of \<open>michelson-typecheck.ts\<close>; \<open>TypeContract\<close>, its exported functions and the class of
    \<open>michelson-contract.ts\<close>.  \<open>Interpreter\<close> is a specification: the values of a type and a machine
    for 50 instructions.  \<open>TypeSoundness\<close> (annotations do not matter, equal types have equal
    values), \<open>InstSoundness\<close> (each instruction), \<open>CodeSoundness\<close> (branches, loops, sequences) and
    \<open>ContractSoundness\<close> (whole contracts) show that checked code of these instructions does not get
    stuck; \<open>CheckerFrame\<close>, for all instructions, that the checker looks at no more of the stack than
    the code uses.  The machine takes fuel, one unit for each nested call; code without \<open>LOOP\<close> needs
    one more than its size.

  \<^item> Values for contracts, \<open>packages/taquito-michelson-encoder/src\<close>.  \<open>JsValue\<close> is the part of
    JavaScript the package works on (values, properties, conversions, \<open>sort\<close>).  \<open>Tokens\<close> are the
    classes of \<open>tokens\<close> with their names, schemas and signatures, \<open>TokenLeaves\<close> the operations of the
    classes without tokens below them, \<open>Encoder\<close> the class \<open>MichelsonMap\<close>, \<open>EncoderObject\<close> what
    writes Michelson (\<open>EncodeObject\<close> and \<open>compare\<close>, one recursion, then \<open>Encode\<close> and
    \<open>ToBigMapKey\<close>), \<open>EncoderExecute\<close> what reads it (\<open>Execute\<close>, \<open>ToKey\<close>), \<open>EncoderSchemas\<close> the classes
    of \<open>schema\<close>.  \<open>EncoderSpec\<close> is a specification: the relation \<open>reads_data\<close> between Michelson data and
    the values they stand for.  \<open>EncoderProofs\<close> shows that reading and writing both follow it and that
    the two writers agree, \<open>EncoderOrder\<close> what the order of sets and maps depends on,
    \<open>EncoderMaps\<close> that \<open>MichelsonMap\<close> is an instance of the locale \<open>serialised_map\<close> and refines finite
    maps, \<open>EncoderNames\<close> that the two schemas of a type agree, \<open>EncoderLosses\<close> which values are not
    kept.

  \<^bold>\<open>Conventions.\<close>  Exceptions are \<open>Inl\<close>, values \<open>Inr\<close>; \<open>bindR\<close> is sequencing.  Text is the
  list of the UTF-8 bytes of a JavaScript string.  A function that calls itself on a reader takes
  fuel, one unit per call: \<open>valueDecoder\<close> gets \<open>2 n + 4\<close> for \<open>n\<close> bytes that are left, the text
  parser \<open>4 n + 8\<close> for \<open>n\<close> characters, \<open>unpackData\<close> \<open>2 n + 2\<close> for \<open>n\<close> bytes, loops over a
  reader one more than its bytes.  C6 and C19 prove for the first two that the fuel never runs out on
  any input; for the others, the theorems state success, which fuel that has run out would not
  be.

  \<^bold>\<open>Parameters.\<close>  Base58check, \<open>bignumber.js\<close>, BLAKE2b and the elliptic curves are not part of
  the repository: they are fields of \<open>libs\<close> and \<open>curves\<close>; \<open>enc_libs\<close> has
  what the encoder uses of \<open>bignumber.js\<close> and \<open>fast-json-stable-stringify\<close>.  What a theorem needs of them is among
  its hypotheses (that decoding inverts encoding, that a numeral prints as it was read); \<open>Demo\<close> has a
  concrete instance, on which the witnesses are evaluated.

  \<^bold>\<open>Not modelled.\<close>  Token positions, source references and messages of errors; strings with lone
  surrogates; \<open>parseInt\<close> is exact, as it is in JavaScript below \<open>2 ^ 53\<close>; \<open>bytes\<close> literals of
  the \<open>PACK\<close> format are taken to be ASCII, and numbers outside a byte, which \<open>parseInt\<close> makes of
  pairs that are not hexadecimal, modulo 256.  \<open>new Date(text)\<close> is that of Node, but for the years
  before 100 with a blank in place of the \<open>T\<close>.  Inherited properties, fractional numbers and the
  internals of library objects as values for contracts: where the encoder would depend on them the
  model has the error \<open>Unmodelled\<close>.  \<open>Schema.ComputeState\<close>, which is deprecated; that
  \<open>SetToken\<close> sorts the array of its caller.  The RPC client, the HTTP backend, the signers, Sapling and
  the metadata packages are I/O around libraries; the contract, wallet and batch API, the estimates and
  the subscriptions are glue over RPC calls.  Error classes appear as constructors of error
  datatypes.
\<close>

section \<open>Forging operations\<close>



text \<open>C2: \<open>forge\<close> never writes an unchecked operation.  When it returns, the branch is a valid
  block hash and every operation is an object of a known kind that has all properties of the
  schema of its kind, but for at most one, which that kind may leave out.\<close>

theorem forge_only_checked:
  assumes "forge L p = Inr s"
  shows "validateBlock L (branch p) = VALID \<and>
    (\<forall>op\<in>set (contents p). \<exists>props kind. op = VObj props \<and> prop_at props ''kind'' = VStr kind
       \<and> map_of kind_schemas kind \<noteq> None
       \<and> (missing_props kind props = [] \<or> (\<exists>d. missing_props kind props = [d] \<and> may_miss kind d)))"
proof -
  have v: "validateBlock L (branch p) = VALID" and c: "check_contents (contents p) = Inr ()"
    using assms by (auto simp: forge_def bindR_eq_Inr split: if_splits)
  show ?thesis
  proof (intro conjI ballI v)
    fix op assume "op \<in> set (contents p)"
    with c have "check_content op = Inr ()" by (simp add: check_contents_iff)
    then obtain props where "op = VObj props" "check_content (VObj props) = Inr ()"
      using check_content_obj by blast
    then show "\<exists>props kind. op = VObj props \<and> prop_at props ''kind'' = VStr kind
       \<and> map_of kind_schemas kind \<noteq> None
       \<and> (missing_props kind props = [] \<or> (\<exists>d. missing_props kind props = [d] \<and> may_miss kind d))"
      unfolding check_content_iff by blast
  qed
qed

theorem forge_only_checked_witness:
  "validateBlock demo_libs (branch demo_params) = VALID \<and>
    (\<exists>op\<in>set (contents demo_params). \<exists>props. op = VObj props \<and> prop_at props ''kind'' = VStr ''proposals'')"
  using demo_forged forge_only_checked [of demo_libs demo_params]
  by (auto simp: demo_params_def demo_proposals_def prop_at_def)

text \<open>C3: the forged text determines the operations, and nothing else does.  Two lists of operations
  whose fields lie in the range of their codecs (\<open>params_ok\<close>: for example a voting period of 32
  bits) are forged to the same text exactly when they have the same branch and the same normal
  form: the same kinds, and the same values of the properties of their schemas.\<close>

theorem forge_injective:
  assumes "params_ok L p" "params_ok L q" "forge L p = Inr s" "forge L q = Inr t"
  shows "s = t \<longleftrightarrow> normal_params p = normal_params q"
  using forger.same_text [OF assms(1,3,2)] forge_normal [OF assms(3,4)] assms(4) by blast

theorem forge_injective_witness:
  "normal_params demo_params = normal_params demo_params2 \<and> demo_params \<noteq> demo_params2"
proof
  obtain s where "forge demo_libs demo_params = Inr s" "forge demo_libs demo_params2 = Inr s"
    using demo_forged demo_forged2 by auto
  then show "normal_params demo_params = normal_params demo_params2"
    using forge_injective [OF demo_params_ok demo_params2_ok] by blast
qed (simp add: demo_params_def demo_params2_def demo_transaction_def demo_transaction2_def)

text \<open>C4: a well-formed Micheline value is read back from its encoding whatever bytes follow it, and
  the reader stops right behind it.  Well-formed (\<open>micheline_ok\<close>) is: no empty arrays of arguments or
  annotations, integers as they are printed, bytes in lower case, valid UTF-8,
  and primitives in a shape that has an encoding of its own.\<close>

theorem value_roundtrip:
  assumes "micheline_ok L v" "valueEncoder L v = Inr s"
  shows "\<exists>c c'. fromHexString (s @ hexOf rest) = Inr c \<and> valueDecoder L c = Inr (v, c')
    \<and> clen c' = length rest"
proof -
  obtain bs where bs: "s = hexOf bs" "\<forall>c. ahead c bs \<longrightarrow> valueDecoder L c = Inr (v, adv (length bs) c)"
    using michelson.reads_back [OF assms] by blast
  have "ahead (mkConsumer (bs @ rest)) bs"
    using ahead_mk [of "bs @ rest"] by (simp add: ahead_append)
  with bs have "valueDecoder L (mkConsumer (bs @ rest)) = Inr (v, adv (length bs) (mkConsumer (bs @ rest)))"
    by blast
  moreover have "fromHexString (s @ hexOf rest) = Inr (mkConsumer (bs @ rest))"
    using fromHexString_hexOf [of "bs @ rest"] bs(1) by simp
  ultimately show ?thesis by simp
qed

theorem value_roundtrip_witness:
  "\<exists>c c'. fromHexString (''02000000020005'' @ hexOf [1, 2]) = Inr c
    \<and> valueDecoder demo_libs c = Inr (Seq [IntLit ''5''], c') \<and> clen c' = 2"
proof -
  have "micheline_ok demo_libs (Seq [IntLit ''5''])" using demo_int by simp
  from value_roundtrip [OF this demo_value, of "[1, 2]"] show ?thesis
    by (simp only: list.size numeral_2_eq_2 add_0 plus_nat.add_Suc)
qed

text \<open>C5: no encoding of a well-formed value is a prefix of the encoding of another one.\<close>

theorem value_prefix_free:
  assumes "micheline_ok L v" "valueEncoder L v = Inr s" "micheline_ok L w" "valueEncoder L w = Inr t"
    and "s @ x = t @ y"
  shows "v = w"
  by (rule michelson.prefix_free [OF assms])

theorem value_prefix_free_witness:
  "\<exists>s. valueEncoder demo_libs (Seq [IntLit ''5'']) = Inr s \<and>
     \<not> (\<exists>w x. micheline_ok demo_libs w \<and> w \<noteq> Seq [IntLit ''5''] \<and> valueEncoder demo_libs w = Inr (s @ x))"
  using value_prefix_free [OF _ demo_value _ _ , of _ _ _ "[]"] demo_value demo_int(2) by auto

text \<open>C6: \<open>valueDecoder\<close> ends on every input, never for want of fuel, and when it returns it has
  consumed at least one byte.\<close>

theorem value_decoder_total:
  "valueDecoder L c \<noteq> Inl OutOfFuel \<and>
   (\<exists>e. valueDecoder L c = Inl e \<or> (\<exists>v c'. valueDecoder L c = Inr (v, c') \<and> clen c' < clen c))"
proof (cases "valueDecoder L c")
  case (Inr r)
  then obtain v c' where "valueDecoder L c = Inr (v, c')" by (cases r) auto
  then have "clen c' < clen c" using fuel_less [of "2 * clen c + 4" L] by (simp add: valueDecoder_def)
  then show ?thesis using \<open>valueDecoder L c = Inr (v, c')\<close> by simp
qed (use valueDecoder_ends in auto)

text \<open>C7: the string-based number encoder of \<open>michelson/codec.ts\<close> computes the signed
  variable-length encoding of the specification, and the decoder inverts it.\<close>

theorem int_codec_refines:
  assumes "bn_parse L text = Some i"
  shows "intEncoder L text = Inr (''00'' @ hexOf (sleb (i < 0) (nat \<bar>i\<bar>))) \<and>
    intDecoder L (mkConsumer (sleb (i < 0) (nat \<bar>i\<bar>) @ rest))
      = Inr (IntLit (bn_toFixed L i),
          adv (length (sleb (i < 0) (nat \<bar>i\<bar>))) (mkConsumer (sleb (i < 0) (nat \<bar>i\<bar>) @ rest)))"
proof -
  let ?b = "sleb (i < 0) (nat \<bar>i\<bar>)"
  have "ahead (mkConsumer (?b @ rest)) ?b" using ahead_mk [of "?b @ rest"] by (simp add: ahead_append)
  from intDecoder_sleb [OF this, of L] intEncoder_sleb [OF assms] show ?thesis by simp
qed

theorem int_codec_refines_witness: "intEncoder demo_libs ''-65'' = Inr (''00'' @ hexOf (sleb True 65))"
proof -
  have "bn_parse demo_libs ''-65'' = Some (- 65)"
    by (simp add: demo_libs_def dec_to_int_def is_digit_def dig_val_def of_digits_def)
  from int_codec_refines [OF this] show ?thesis by simp
qed

text \<open>C8: the loop of \<open>zarithEncoder\<close> computes the unsigned variable-length encoding of the
  specification, for every natural number, and \<open>zarithDecoder\<close> reads the number back.\<close>

theorem zarith_codec_refines:
  assumes "bn_parse L n = Some (int m)"
  shows "zarithEncoder L n = Inr (hexOf (leb m)) \<and>
    zarithDecoder L (mkConsumer (leb m @ rest))
      = Inr (bn_toString L (int m), adv (length (leb m)) (mkConsumer (leb m @ rest)))"
proof -
  have "ahead (mkConsumer (leb m @ rest)) (leb m)" using ahead_mk [of "leb m @ rest"] by (simp add: ahead_append)
  with zarith_reads [of L m] have "zarithDecoder L (mkConsumer (leb m @ rest))
      = Inr (bn_toString L (int m), adv (length (leb m)) (mkConsumer (leb m @ rest)))"
    unfolding reads_def by blast
  with assms show ?thesis by (simp add: zarithEncoder_def zarithLoop_leb)
qed

theorem zarith_codec_refines_witness: "zarithEncoder demo_libs ''405'' = Inr (hexOf (leb 405))"
proof -
  have "bn_parse demo_libs ''405'' = Some (int 405)"
    by (simp add: demo_libs_def dec_to_int_def is_digit_def dig_val_def of_digits_def)
  from zarith_codec_refines [OF this] show ?thesis by simp
qed

text \<open>C9: a safe integer outside the 32-bit range is not refused but wraps: what \<open>int32Decoder\<close>
  reads from its encoding is its signed value modulo 2 to the 32.  From 10 to the 21, where numbers
  print in exponent form, not even that holds: that number itself is written as 1.\<close>

theorem int32_wraps:
  assumes "\<bar>n\<bar> \<le> 2 ^ 53"
  shows "(\<exists>s. int32Encoder (VNum n) = Inr s \<and> decode_text int32Decoder s = Inr ((n + 2 ^ 31) mod 2 ^ 32 - 2 ^ 31)) \<and>
    int32Encoder (VNum (10 ^ 21)) = Inr ''00000001''"
proof -
  let ?w = "word_of_int n :: 32 word"
  let ?bs = "map (\<lambda>i. byte_at ?w ((4 - (i + 1)) * 8)) [0..<4]"
  have "reads int32Decoder (sint ?w) ?bs"
    unfolding int32Decoder_def [abs_def] by (rule reads_final [OF reads_consume]) (simp_all only: or_bytes_4 length_map length_upt)
  then have "int32Decoder (mkConsumer ?bs) = Inr (sint ?w, adv (length ?bs) (mkConsumer ?bs))" by (rule reads_mk)
  moreover have "int32Encoder (VNum n) = Inr (hexOf ?bs)" using assms by (simp add: int32Encoder_def del: upt_Suc)
  moreover have "sint ?w = (n + 2 ^ 31) mod 2 ^ 32 - 2 ^ 31" using int_word_sint [of n, where 'a = 32] by simp
  ultimately show ?thesis using int32_exponent_form by (simp add: decode_text_def del: upt_Suc)
qed

theorem int32_wraps_witness:
  "\<exists>s. int32Encoder (VNum (2 ^ 32 + 12)) = Inr s \<and> decode_text int32Decoder s = Inr 12"
  using int32_wraps [of "2 ^ 32 + 12"] by simp



section \<open>Macros\<close>

text \<open>C11: the macros \<open>P[PAI]+R\<close> and \<open>UNP[PAI]+R\<close> build and take apart the nested pair whose shape
  their letters spell: run on the stack machine, the expansion of the pair macro of a tree with
  at least three leaves replaces its leaves by the pair, and the expansion of the unpair macro
  does the reverse, before and after the protocol that made \<open>UNPAIR\<close> an instruction and
  whatever the annotations are.\<close>

theorem pair_macros_inverse:
  assumes "3 \<le> length (leaves t)"
  shows "macro_run proto (Prim (pair_macro t) None annots) (leaves t @ s) = Some (Inr (built t # s)) \<and>
    macro_run proto (Prim (unpair_macro t) None annots) (built t # s) = Some (Inr (leaves t @ s))"
  using pair_expansion [OF assms, of proto annots s] unpair_expansion [OF assms, of proto annots s] macro_run_Inr
  by metis

theorem pair_macros_inverse_witness:
  "macro_run (Some PsCARTHA) (Prim ''UNPPAIPAIR'' None None) [PairV (PairV UnitV NoneV) (PairV UnitV (IntV 1))]
     = Some (Inr [UnitV, NoneV, UnitV, IntV 1])"
proof -
  let ?t = "VNode (VNode (VLeaf UnitV) (VLeaf NoneV)) (VNode (VLeaf UnitV) (VLeaf (IntV 1)))"
  have "3 \<le> length (leaves ?t)" by simp
  from pair_macros_inverse [OF this, of "Some PsCARTHA" None "[]"] show ?thesis
    by (simp add: unpair_macro_def pair_letters_def)
qed

text \<open>C12: \<open>C[AD]+R\<close> replaces a value by its component at the path the letters spell,
  \<open>SET_C[AD]+R\<close> replaces that component by the value below, \<open>MAP_C[AD]+R\<close> by what the given
  code makes of it; a value without that component is a type error.\<close>

theorem access_macros:
  assumes "m \<noteq> []" "set m \<subseteq> set ''AD''" "one_field annots"
    and "\<And>v s. exec body (v # s) = bindR (f v) (\<lambda>w. Inr (w # s))"
  shows "(2 \<le> length m \<longrightarrow> macro_run proto (Prim (''C'' @ m @ ''R'') None annots) (v # s)
        = Some (case select m v of Some w \<Rightarrow> Inr (w # s) | None \<Rightarrow> Inl IllTyped)) \<and>
    macro_run proto (Prim (''SET_C'' @ m @ ''R'') None annots) (v # x # s)
        = Some (bindR (modify (\<lambda>_. Inr x) m v) (\<lambda>w. Inr (w # s))) \<and>
    macro_run proto (Prim (''MAP_C'' @ m @ ''R'') (Some [body]) annots) (v # s)
        = Some (bindR (modify f m v) (\<lambda>w. Inr (w # s)))"
proof -
  have m: "1 \<le> length m" using assms(1) by (cases m) auto
  have "2 \<le> length m \<longrightarrow> macro_run proto (Prim (''C'' @ m @ ''R'') None annots) (v # s)
        = Some (case select m v of Some w \<Rightarrow> Inr (w # s) | None \<Rightarrow> Inl IllTyped)"
    using cadr_expansion [OF _ assms(2), of proto annots v s] macro_run_Inr by metis
  moreover have "macro_run proto (Prim (''SET_C'' @ m @ ''R'') None annots) (v # x # s)
        = Some (bindR (modify (\<lambda>_. Inr x) m v) (\<lambda>w. Inr (w # s)))"
    using set_cadr_expansion [OF m assms(2,3), of proto] macro_run_Inr by metis
  moreover have "macro_run proto (Prim (''MAP_C'' @ m @ ''R'') (Some [body]) annots) (v # s)
        = Some (bindR (modify f m v) (\<lambda>w. Inr (w # s)))"
    using map_cadr_expansion [OF m assms(2,3,4), of proto] macro_run_Inr by metis
  ultimately show ?thesis by blast
qed

theorem access_macros_witness:
  "macro_run None (Prim ''SET_CADR'' None (Some [''%x''])) [PairV (PairV UnitV NoneV) UnitV, IntV 7]
     = Some (Inr [PairV (PairV UnitV (IntV 7)) UnitV])"
proof -
  have "exec (Seq []) (v # s) = bindR (Inr v) (\<lambda>w. Inr (w # s))" for v s by simp
  from access_macros [OF _ _ _ this, of "''AD''" "Some [''%x'']" None "PairV (PairV UnitV NoneV) UnitV" "[]" "IntV 7"]
  show ?thesis by (simp add: one_field_def filterAnnotations_def is_field_def)
qed

text \<open>C13: the comparison macros branch on, and the assertions demand, the relation in their name:
  \<open>CMPop\<close>, \<open>IFop\<close>, \<open>IFCMPop\<close>, \<open>ASSERT_op\<close> and \<open>ASSERT_CMPop\<close> for all six relations.\<close>

theorem comparison_macros:
  assumes "r \<in> set cmp_ops"
  shows "macro_run proto (Prim (''CMP'' @ r) None annots) (IntV a # IntV b # s)
      = Some (Inr (BoolV (holds r a b) # s)) \<and>
    macro_run proto (Prim (''IF'' @ r) (Some [Seq x, Seq y]) annots) (IntV a # s)
      = Some (if holds r a 0 then execs x s else execs y s) \<and>
    macro_run proto (Prim (''IFCMP'' @ r) (Some [Seq x, Seq y]) annots) (IntV a # IntV b # s)
      = Some (if holds r a b then execs x s else execs y s) \<and>
    macro_run proto (Prim (''ASSERT_'' @ r) None None) (IntV a # s)
      = Some (if holds r a 0 then Inr s else Inl (FailedWith UnitV)) \<and>
    macro_run proto (Prim (''ASSERT_CMP'' @ r) None None) (IntV a # IntV b # s)
      = Some (if holds r a b then Inr s else Inl (FailedWith UnitV))"
  by (intro conjI cmp_runs [OF assms])

theorem comparison_macros_witness:
  "macro_run None (Prim ''ASSERT_CMPLE'' None None) [IntV 3, IntV 2, UnitV] = Some (Inl (FailedWith UnitV))"
proof -
  have "''LE'' \<in> set cmp_ops" by (simp add: cmp_ops_def)
  from comparison_macros [OF this, of None None 3 2 "[UnitV]" "[]" "[]"] show ?thesis
    by (simp add: holds_def cmp_rel_def)
qed

text \<open>C14: \<open>DUU+P\<close> copies the element at the depth its letters count, \<open>DII+P\<close> runs its code below
  that many elements, \<open>CAR n\<close> and \<open>CDR n\<close> select from a right comb, under every protocol.\<close>

theorem counting_macros:
  assumes "2 \<le> n" "js_parseInt 10 i = Some (int k)"
  shows "macro_run proto (Prim (''D'' @ replicate n CHR ''U'' @ ''P'') None annots) s = Some (dup_op n s) \<and>
    macro_run proto (Prim (''D'' @ replicate n CHR ''I'' @ ''P'') (Some [Seq code]) annots) s
      = Some (dip_op n (execs code) s) \<and>
    macro_run proto (Prim ''CAR'' (Some [IntLit i]) annots) (v # s)
      = Some (case select (replicate k CHR ''D'' @ ''A'') v of Some w \<Rightarrow> Inr (w # s) | None \<Rightarrow> Inl IllTyped) \<and>
    macro_run proto (Prim ''CDR'' (Some [IntLit i]) annots) (v # s)
      = Some (case select (replicate k CHR ''D'') v of Some w \<Rightarrow> Inr (w # s) | None \<Rightarrow> Inl IllTyped)"
  using duup_run [OF assms(1)] diip_run [OF assms(1)] car_cdr_runs [OF assms(2)] by blast

theorem counting_macros_witness:
  "macro_run (Some PsCARTHA) (Prim ''DUUUP'' None None) [UnitV, NoneV, IntV 5]
     = Some (Inr [IntV 5, UnitV, NoneV, IntV 5])"
proof -
  have "js_parseInt 10 ''0'' = Some (int 0)"
    by (simp add: js_parseInt_def parse_sign_def is_space_def in_base_def dig_val_def of_digits_def)
  from counting_macros [OF _ this, of 3 "Some PsCARTHA" None "[UnitV, NoneV, IntV 5]" "[]" UnitV]
  show ?thesis by (simp add: numeral_3_eq_3 dup_op_def)
qed

text \<open>C15: the parsers leave no macro behind.  With macros switched on, and global constants
  replaced by expressions without macros (if at all), whatever text or JSON they accept, every
  primitive application of the result, however deep inside arguments and sequences, is one that
  \<open>expandMacros\<close> leaves as it is.\<close>

theorem parsed_macro_free:
  assumes "expands opt"
  shows "(parseMichelineExpression opt src = Inr (Some e) \<longrightarrow> macro_free (opt_protocol opt) e) \<and>
    (parseScript opt src = Inr (Some es) \<longrightarrow> list_all (macro_free (opt_protocol opt)) es) \<and>
    (parseJSON opt j = Inr e \<longrightarrow> macro_free (opt_protocol opt) e)"
  using parsed_free [OF assms] by blast

theorem parsed_macro_free_witness:
  "macro_free None (Seq [Prim ''EQ'' None None, Prim ''IF'' (Some [Seq [fail_code],
     Seq [Seq [Prim ''CDR'' None None, Prim ''CAR'' None None]]]) None])"
proof -
  have "parseMichelineExpression no_options ''(IFEQ {FAIL} {CDAR})'' = Inr (Some (Seq [Prim ''EQ'' None None,
      Prim ''IF'' (Some [Seq [fail_code], Seq [Seq [Prim ''CDR'' None None, Prim ''CAR'' None None]]]) None]))" by code_simp
  moreover have "expands no_options" by (simp add: expands_def no_options_def)
  ultimately have "macro_free (opt_protocol no_options) (Seq [Prim ''EQ'' None None, Prim ''IF'' (Some [Seq [fail_code],
     Seq [Seq [Prim ''CDR'' None None, Prim ''CAR'' None None]]]) None])"
    using parsed_macro_free by blast
  then show ?thesis by (simp only: no_options_def parser_options.select_convs)
qed

text \<open>C16: the name of a pair macro is not checked to its end: whatever letters \<open>P\<close>, \<open>A\<close>, \<open>I\<close> follow
  a complete pair, the macro is accepted and builds that pair.\<close>

theorem pair_macro_unchecked_end:
  assumes "3 \<le> length (pair_letters (VNode l r) @ rst)" "set rst \<subseteq> set ''PAI''"
  shows "macro_run proto (Prim (''P'' @ pair_letters (VNode l r) @ rst @ ''R'') None annots) (leaves (VNode l r) @ s)
    = Some (Inr (built (VNode l r) # s))"
  using pair_expansion_rest [OF assms, of proto annots s] macro_run_Inr by metis

theorem pair_macro_unchecked_end_witness:
  "macro_run None (Prim ''PAIPPR'' None None) [IntV 1, IntV 2] = Some (Inr [PairV (IntV 1) (IntV 2)])"
  using pair_macro_unchecked_end [of "VLeaf (IntV 1)" "VLeaf (IntV 2)" "''PP''" None None "[]"]
  by (simp add: pair_letters_def)

section \<open>Concrete syntax\<close>

text \<open>C17: whatever the emitter writes of an expression that has a concrete syntax (\<open>syntax_ok\<close>: names,
  annotations, numerals and bytes that the scanner accepts, no empty arrays), with any white space
  for indentation and newlines, the parser reads as the same expression with every primitive
  application expanded bottom-up, and the parser of JSON-encoded Michelson makes the same of the
  JSON form.\<close>

theorem emit_parse:
  assumes "format_ok f" "syntax_ok e"
  shows "parseMichelineExpression opt (emitMicheline e f) = bindR (deep_expand opt e) (\<lambda>x. Inr (Some x)) \<and>
    parseJSON opt (to_json e) = deep_expand opt e"
  using parse_emitted [OF assms] json_emitted [OF assms(2)] by blast

theorem emit_parse_witness:
  "parseMichelineExpression no_options (emitMicheline (Seq [Prim ''FAIL'' None None, StringLit [CHR 0x22]])
     \<lparr>opt_indent = Some '' '', opt_newline = None\<rparr>) = Inr (Some (Seq [fail_code, StringLit [CHR 0x22]]))"
proof -
  let ?e = "Seq [Prim ''FAIL'' None None, StringLit [CHR 0x22]]" and ?f = "\<lparr>opt_indent = Some '' '', opt_newline = None\<rparr>"
  have "deep_expand no_options (Prim ''FAIL'' None None) = Inr fail_code"
    using assert_expansions(1) [of None] by (simp add: expand_def run_macros_def no_options_def)
  moreover have "format_ok ?f" "syntax_ok ?e"
    by (simp_all add: format_ok_def is_space_def prim_ok_def ident_ok_def isIdentStart_def isIdent_def)
  ultimately show ?thesis using emit_parse [of ?f ?e no_options] by simp
qed

text \<open>C18: two expressions that have a concrete syntax (\<open>syntax_ok\<close>) and are written as the same text,
  in whatever formats, are the same.\<close>

theorem emit_injective:
  assumes "format_ok f" "syntax_ok d" "format_ok g" "syntax_ok e" "emitMicheline d f = emitMicheline e g"
  shows "d = e"
  using printed.parses_back [of f d "emitMicheline d f"] printed.parses_back [of g e "emitMicheline e g"] assms by simp

theorem emit_injective_witness:
  "\<not> (\<exists>e. syntax_ok e \<and> e \<noteq> IntLit ''0'' \<and> emitMicheline e \<lparr>opt_indent = None, opt_newline = None\<rparr> = ''0'')"
proof -
  let ?f = "\<lparr>opt_indent = None, opt_newline = None\<rparr>"
  have "format_ok ?f" "syntax_ok (IntLit ''0'')" "emitMicheline (IntLit ''0'') ?f = ''0''"
    by (simp_all add: format_ok_def intRe_def is_digit_def dig_val_def emitMicheline_def)
  then show ?thesis using emit_injective [of ?f _ ?f "IntLit ''0''"] by metis
qed

text \<open>C19: the parser ends on every text, whatever its options: the fuel of the model never runs out.\<close>

theorem parser_ends:
  "parseMichelineExpression opt src \<noteq> Inl ParserFuel \<and> parseList opt src \<noteq> Inl ParserFuel \<and>
   parseSequence opt src \<noteq> Inl ParserFuel"
  using entry_points_end by blast

text \<open>C20: \<open>parseMichelineExpression\<close> reads one expression and ignores the rest of the text, be it
  well-formed or not.\<close>

theorem parse_ignores_rest:
  assumes "syntax_ok e"
  shows "parseMichelineExpression plain_options (emitMicheline e \<lparr>opt_indent = None, opt_newline = None\<rparr> @ CHR '' '' # junk)
    = Inr (Some e)"
  using parse_emitted_rest [OF _ assms, of "\<lparr>opt_indent = None, opt_newline = None\<rparr>" "CHR '' '' # junk" plain_options]
  by (simp add: format_ok_def delim_space is_space_def deep_expand_plain)

theorem parse_ignores_rest_witness:
  "parseMichelineExpression plain_options ''0 }'' = Inr (Some (IntLit ''0''))"
  using parse_ignores_rest [of "IntLit ''0''" "''}''"]
  by (simp add: intRe_def is_digit_def dig_val_def emitMicheline_def)

section \<open>Validating Michelson\<close>

text \<open>C21: the six classes of types.  A type is accepted as packable, pushable, storable,
  passable or storable in a big map exactly when it is accepted as a type and none of the
  primitives the class forbids stands at a visible position: not below a lambda, a set, a ticket
  or a contract, and not in the key of a map.  So a pushable type is also packable and storable,
  a packable one can be stored in a big map, and every storable one can be passed.\<close>

theorem type_classes:
  assumes "k \<noteq> Comparable"
  shows "(typeCheck k t = Inr () \<longleftrightarrow> assertMichelsonType t = Inr () \<and> set (type_prims t) \<inter> set (excluded k) = {}) \<and>
    (assertMichelsonPushableType t = Inr () \<longrightarrow>
       assertMichelsonPackableType t = Inr () \<and> assertMichelsonStorableType t = Inr ()) \<and>
    (assertMichelsonPackableType t = Inr () \<longrightarrow> assertMichelsonBigMapStorableType t = Inr ()) \<and>
    (assertMichelsonStorableType t = Inr () \<longrightarrow> assertMichelsonPassableType t = Inr ())"
  using typeCheck_class [OF assms, of t] by (simp add: type_check_defs class_steps del: typeCheck.simps)

theorem type_classes_witness:
  "assertMichelsonPassableType (Prim ''contract'' (Some [Prim ''nat'' None None]) None) = Inr () \<and>
   assertMichelsonStorableType (Prim ''contract'' (Some [Prim ''nat'' None None]) None) \<noteq> Inr () \<and>
   assertMichelsonBigMapStorableType (Prim ''nat'' None None) = Inr ()"
proof -
  let ?nat = "Prim ''nat'' None None" and ?c = "Prim ''contract'' (Some [Prim ''nat'' None None]) None"
  have ok: "assertMichelsonType ?nat = Inr ()" "assertMichelsonType ?c = Inr ()"
    by (simp_all add: type_check_defs typeIDs_def simpleComparableTypeIDs_def assertArgCount_def)
  have "type_prims ?nat = [''nat'']" "type_prims ?c = [''contract'']" by (simp_all add: in_list_def)
  with ok type_classes [of Passable ?c] type_classes [of Storable ?c] type_classes [of Packable ?nat]
  show ?thesis by (simp add: type_check_defs del: typeCheck.simps type_prims.simps)
qed

text \<open>C22: a script is accepted exactly when every section is in order by itself (a known name,
  the right number of arguments, a passable parameter without annotations, a storable storage,
  valid code, a view with a valid name, pushable types and valid code), no section other than a
  view is repeated, and no two views have the same name.\<close>

theorem contract_sections_checked:
  "isMichelsonScript (Seq secs) \<longleftrightarrow>
     (\<forall>s\<in>set secs. section_ok s) \<and> distinct (section_names secs) \<and> distinct (view_names secs)"
  by (rule contract_accepted)

theorem contract_sections_checked_witness:
  "isMichelsonScript (Seq [Prim ''parameter'' (Some [Prim ''unit'' None None]) None, Prim ''code'' (Some [Seq []]) None]) \<and>
   \<not> isMichelsonScript (Seq [Prim ''code'' (Some [Seq []]) None, Prim ''code'' (Some [Seq []]) None])"
  by (simp add: contract_sections_checked names_simps isMichelsonCode_def typeIDs_def simpleComparableTypeIDs_def
      assertArgCount_def)

section \<open>Packed data\<close>

text \<open>C24: \<open>PACK\<close> and \<open>UNPACK\<close> are inverse.  Data of a type in the form unpacking gives (integers
  as printed, hexadecimal text in lower case, pairs with two arguments, Base58 texts of the leaf
  types, dates with whole seconds), or data taken without a type, always pack; when the packed
  data is at most 4 GiB and the data passes the validator, unpacking gives the same expression,
  from the bytes and from their hexadecimal text.  What follows the packed bytes is not looked at.\<close>

theorem pack_round_trip:
  assumes "readable L (writeTransform t) d" and "isMichelsonData d"
  shows "\<exists>bs. packData L d t = Inr bs \<and> packDataBytes L d t = Inr (BytesLit (hexOf bs)) \<and>
     (length bs \<le> 2 ^ 32 \<longrightarrow> (\<forall>extra. unpackData L (bs @ extra) t = Inr d) \<and> unpackDataBytes L (hexOf bs) t = Inr d)"
  by (rule packed_reads_back [OF assms])

theorem pack_round_trip_witness:
  "let t = Prim ''pair'' (Some [Prim ''key_hash'' None None, Prim ''list'' (Some [Prim ''int'' None None]) None]) None;
       d = Prim ''Pair'' (Some [StringLit (demo_hash ''tz1''), Seq [IntLit ''-5'', IntLit ''12'']]) None in
   \<exists>bs. packData demo_libs d (Some t) = Inr bs \<and> packDataBytes demo_libs d (Some t) = Inr (BytesLit (hexOf bs)) \<and>
     (length bs \<le> 2 ^ 32 \<longrightarrow> (\<forall>extra. unpackData demo_libs (bs @ extra) (Some t) = Inr d) \<and>
        unpackDataBytes demo_libs (hexOf bs) (Some t) = Inr d)"
proof -
  have i: "id_text demo_libs ED25519PublicKeyHash (replicate 20 3) (demo_hash ''tz1'')"
    by (simp add: id_text_def demo_libs_def demo_encode_def demo_decode_def demo_tags_def demo_hash_def)
  have leaf: "leaf_text demo_libs ''key_hash'' (demo_hash ''tz1'') (0 # replicate 20 3)"
    by (rule leaf_text.key_hash [OF _ i]) (simp add: key_hash_ids_def)
  have k: "readable demo_libs (WTyped (Prim ''key_hash'' None None)) (StringLit (demo_hash ''tz1''))"
    by (rule r_leaf) (unfold prim_of_def expr.case, rule leaf)
  have plain: "plain_type (Prim ''int'' None None)"
    by (simp add: plain_type_def isPairType_def prim_of_def in_list_def leaf_types_def)
  have "readable demo_libs WPass (IntLit ''-5'')" "readable demo_libs WPass (IntLit ''12'')"
    using r_int [of demo_libs "- 5"] r_int [of demo_libs 12] by (simp_all add: int_to_dec_def digits.simps dig_def)
  then have l: "readable demo_libs (WTyped (Prim ''list'' (Some [Prim ''int'' None None]) None)) (Seq [IntLit ''-5'', IntLit ''12''])"
    by (intro r_list [of _ "Prim ''int'' None None"]) (auto simp: prim_of_def arg_at_def type_args_def intro: r_other [OF plain])
  have valid: "isMichelsonData (Prim ''Pair'' (Some [StringLit (demo_hash ''tz1''), Seq [IntLit ''-5'', IntLit ''12'']]) None)"
    by (simp add: isMichelsonData_def data_pair data_seq part_valid_def isEltData_def assertMichelsonData.simps(1,2)
        del: assertMichelsonData.simps(4,5))
  show ?thesis
    unfolding Let_def
    by (rule pack_round_trip [OF _ valid])
      (auto simp: writeTransform_def isPairType_def unpackComb_def intro!: r_pair [OF _ _ k l])
qed



text \<open>C26: \<open>LongInteger\<close> refines the integers.  The decimal texts of any two integers are
  accepted, \<open>sign\<close> is the sign of the integer and \<open>cmp\<close> the sign of the difference, however many
  digits they have; the text \<open>-0\<close> is the exception, it is below \<open>0\<close>.\<close>

theorem long_integers:
  "(\<exists>a b. li_of_string (int_to_dec i) = Inr a \<and> li_of_string (int_to_dec j) = Inr b \<and>
      li_cmp a b = sgn (i - j) \<and> li_sign a = sgn i) \<and>
   isDecimal (int_to_dec i) \<and> isNatural (int_to_dec i) = (0 \<le> i) \<and>
   (\<exists>a b. li_of_string ''-0'' = Inr a \<and> li_of_string ''0'' = Inr b \<and> li_cmp a b = - 1 \<and> li_sign a = li_sign b)"
  by (rule decimal_integers)

text \<open>C27: timestamps that \<open>PACK\<close> changes.  A text of digits, seconds by the definition of the
  type, is divided by 1000; a day that its month does not have is packed as the day counted on into
  the next month; a leap second, which the validator accepts, is written as the integer \<open>NaN\<close>; and
  the second with which the year 10000 begins is unpacked as a text that cannot be packed again.\<close>

theorem timestamps_changed:
  assumes t: "prim_of t = ''timestamp''" and n: "n \<le> 8640000000000000"
  shows "write_leaf L t (StringLit (int_to_dec (int n))) = Inr (IntLit (int_to_dec (int n div 1000))) \<and>
     (\<forall>y mo d h mi s. past_month y mo d h mi s \<longrightarrow>
        (\<exists>sec. write_leaf L t (StringLit (date_text y mo d h mi s)) = Inr (IntLit (int_to_dec sec)) \<and>
           write_leaf L t (StringLit (date_text y (mo + 1) (d - months y ! (mo - 1)) h mi s)) = Inr (IntLit (int_to_dec sec)))) \<and>
     (\<forall>y mo d h mi. y \<le> 9999 \<longrightarrow> 1 \<le> mo \<longrightarrow> mo \<le> 12 \<longrightarrow> 1 \<le> d \<longrightarrow> d \<le> 31 \<longrightarrow> h < 24 \<longrightarrow> mi < 60 \<longrightarrow>
        write_leaf L t (StringLit (date_text y mo d h mi 60)) = Inr (IntLit ''NaN'')) \<and>
     read_leaf L t (IntLit (int_to_dec 253402300800)) = Inr (StringLit ''+010000-01-01T00:00Z'') \<and>
     write_leaf L t (StringLit ''+010000-01-01T00:00Z'') = Inl (MichelsonTypeError t (StringLit ''+010000-01-01T00:00Z''))"
proof (intro conjI allI impI)
  show "read_leaf L t (IntLit (int_to_dec 253402300800)) = Inr (StringLit ''+010000-01-01T00:00Z'')"
    using t year_10000 by (simp add: read_leaf_def)
  show "write_leaf L t (StringLit ''+010000-01-01T00:00Z'') = Inl (MichelsonTypeError t (StringLit ''+010000-01-01T00:00Z''))"
    using t year_10000_unread by (simp add: write_leaf_def)
  fix y mo d h mi s assume "past_month y mo d h mi s"
  from write_past_month [OF t this, of L]
  show "\<exists>sec. write_leaf L t (StringLit (date_text y mo d h mi s)) = Inr (IntLit (int_to_dec sec)) \<and>
      write_leaf L t (StringLit (date_text y (mo + 1) (d - months y ! (mo - 1)) h mi s)) = Inr (IntLit (int_to_dec sec))" by metis
qed (rule write_digits_timestamp [OF t n] | erule (6) write_leap_second [OF t])+

theorem timestamps_changed_witness:
  "write_leaf demo_libs (Prim ''timestamp'' None None) (StringLit ''2021-02-30T00:00:00Z'') =
     write_leaf demo_libs (Prim ''timestamp'' None None) (StringLit ''2021-03-02T00:00:00Z'') \<and>
   write_leaf demo_libs (Prim ''timestamp'' None None) (StringLit ''2016-12-31T23:59:60Z'') = Inr (IntLit ''NaN'')"
proof -
  let ?t = "Prim ''timestamp'' None None"
  have "prim_of ?t = ''timestamp''" by (simp add: prim_of_def)
  note all = timestamps_changed [OF this, of 0 demo_libs]
  have "past_month 2021 2 30 0 0 0" by (simp add: past_month_def months_def leap_def)
  then have "write_leaf demo_libs ?t (StringLit (date_text 2021 2 30 0 0 0)) =
      write_leaf demo_libs ?t (StringLit (date_text 2021 (2 + 1) (30 - months 2021 ! (2 - 1)) 0 0 0))" using all by fastforce
  moreover have "date_text 2021 2 30 0 0 0 = ''2021-02-30T00:00:00Z''"
    by (simp add: date_text_def fixd_2 fixd_4 dig_def months_def leap_def)
  moreover have "date_text 2021 (2 + 1) (30 - months 2021 ! (2 - 1)) 0 0 0 = ''2021-03-02T00:00:00Z''"
    by (simp add: date_text_def fixd_2 fixd_4 dig_def months_def leap_def)
  moreover have "date_text 2016 12 31 23 59 60 = ''2016-12-31T23:59:60Z''"
    by (simp add: date_text_def fixd_2 fixd_4 dig_def months_def leap_def)
  moreover have "write_leaf demo_libs ?t (StringLit (date_text 2016 12 31 23 59 60)) = Inr (IntLit ''NaN'')" using all by simp
  ultimately show ?thesis by simp
qed

section \<open>Type checking Michelson\<close>

text \<open>C28: soundness of the type checker.  Code of the reference machine's instructions that
  \<open>functionType\<close> accepts is never stuck on values of the types it was checked with, for any fuel,
  and a stack it leaves has the types \<open>functionType\<close> gives.\<close>

theorem checked_code_sound:
  assumes "functionType L ctx e ts = Inr ret" and "machine_code e" and "typed_stack s ts"
  shows "run n e s \<noteq> Some (Inl IllTyped) \<and> (\<forall>s'. run n e s = Some (Inr s') \<longrightarrow> (\<exists>ts'. ret = Stack ts' \<and> typed_stack s' ts'))"
proof -
  have "safe ret (run n e s)" using checked_code_safe [OF assms(2) functionType_Inr [OF assms(1)] assms(3)] .
  then show ?thesis using safe_cases by fastforce
qed

definition triple_code :: expr where
  "triple_code = Seq [Prim ''DUP'' None None, Prim ''GT'' None None,
     Prim ''IF'' (Some [Seq [Prim ''PUSH'' (Some [Prim ''int'' None None, IntLit ''3'']) None, Prim ''MUL'' None None],
       Seq [Prim ''FAILWITH'' None None]]) None]"

lemma triple_code_checked: "functionType demo_libs no_context triple_code [ty ''int''] = Inr (Stack [ty ''int''])"
  by code_simp

lemma triple_code_plain: "machine_code triple_code"
  by code_simp

theorem checked_code_sound_witness: "run 20 triple_code [IntV 5] \<noteq> Some (Inl IllTyped)"
  using checked_code_sound [OF triple_code_checked triple_code_plain, of "[IntV 5]" 20] by simp

text \<open>C29: the checker looks at no more of the stack than the code uses.  Whatever \<open>functionType\<close>
  finds about code, it finds with further types below the stack, which it leaves there; the types
  must pass the check of annotations and be equal to themselves.  The code is any of the language,
  with loops, functions and \<open>CREATE_CONTRACT\<close>, but for the two instructions whose depth is not
  checked: \<open>EMIT\<close> without a type, and \<open>DUG n\<close>, which is accepted on a stack that is too short and
  is then taken to put the top at the bottom.\<close>

theorem checked_code_frame:
  assumes "functionType L ctx e ts = Inr ret" and "depth_checked e"
    and "eachR (\<lambda>t. assertTypeAnnotationsValid t False) us = Inr ()" and "assertStacksEqual us us = Inr ()"
  shows "functionType L ctx e (ts @ us) = Inr (with_frame us ret) \<and>
    (\<forall>d n x vs. inst_nat (Some [IntLit d]) 0 = Inr n \<longrightarrow> length vs \<le> n \<longrightarrow>
       functionTypeInternal L ctx (Prim ''DUG'' (Some [IntLit d]) None) (x # vs) = Inr (Stack (vs @ [x])))"
  using functionType_frame [OF assms(1,2,4,3)] dug_too_deep by blast

theorem checked_code_frame_witness:
  "functionType demo_libs no_context triple_code [ty ''int'', ty ''string''] = Inr (Stack [ty ''int'', ty ''string'']) \<and>
   functionTypeInternal demo_libs no_context (Prim ''DUG'' (Some [IntLit ''7'']) None) [ty ''int'', ty ''string''] =
     Inr (Stack [ty ''string'', ty ''int''])"
proof -
  have "depth_checked triple_code" "eachR (\<lambda>t. assertTypeAnnotationsValid t False) [ty ''string''] = Inr ()"
      "assertStacksEqual [ty ''string''] [ty ''string''] = Inr ()" by code_simp+
  note all = checked_code_frame [OF triple_code_checked this]
  moreover have "inst_nat (Some [IntLit ''7'']) 0 = Inr 7" by code_simp
  then have "functionTypeInternal demo_libs no_context (Prim ''DUG'' (Some [IntLit ''7'']) None) (ty ''int'' # [ty ''string'']) =
      Inr (Stack ([ty ''string''] @ [ty ''int'']))"
    using all [THEN conjunct2, rule_format, of "''7''" 7 "[ty ''string'']" "ty ''int''"] by simp
  ultimately show ?thesis by simp
qed

lemma new_Contract_fields: "new_Contract L opt secs = Inr c \<Longrightarrow> co_contract c = secs \<and> co_protocol c = opt_protocol opt"
  by (auto simp: new_Contract_def split: sum.splits)

text \<open>C30: a contract that \<open>new Contract\<close> accepts, and whose code is made of the instructions of the
  reference machine (\<open>machine_code\<close>) without \<open>LOOP\<close> and \<open>LOOP_LEFT\<close> (\<open>loop_free\<close>), with a
  parameter and a storage of the machine's types (\<open>machine_type\<close>) in sections without
  annotations, runs on every parameter and every storage that the contract accepts.
  The data denote values of the types; the code, called with them, fails with a value
  or returns the empty list of operations (it has no instruction to make one) and a value of
  the type of the storage.\<close>

theorem accepted_contract_runs:
  assumes "new_Contract L opt secs = Inr c"
    and "co_section c ''parameter'' = Inr (Prim ''parameter'' (Some [pt]) None)" and "co_section c ''storage'' = Inr (Prim ''storage'' (Some [st]) None)"
    and "co_section c ''code'' = Inr (Prim ''code'' (Some [code]) None)" and "is_prim pt" and "is_prim st"
    and "machine_type (embed pt)" and "machine_type (embed st)" and "machine_code code" and "loop_free code"
    and "co_isDataValid L c d (embed pt)" and "co_isDataValid L c e (embed st)"
  shows "\<exists>v w. value_of d (embed pt) = Some v \<and> value_of e (embed st) = Some w \<and>
    ((\<exists>x. run (esize code + 1) code [PairV v w] = Some (Inl (FailedWith x))) \<or>
     (\<exists>w'. run (esize code + 1) code [PairV v w] = Some (Inr [PairV (ListV []) w']) \<and> has_type w' (embed st)))"
proof -
  obtain ret where ret: "assertContractValid L (opt_protocol opt) secs = Inr ret" and c: "co_contract c = secs"
    using assms(1) by (auto simp: new_Contract_def split: sum.splits)
  obtain pp pas pan sp sas san where prims: "pt = Prim pp pas pan" "st = Prim sp sas san" using assms(5,6) by (cases pt; cases st) auto
  have secs: "section_arg secs ''parameter'' = Inr pt" "section_arg secs ''storage'' = Inr st" "section_arg secs ''code'' = Inr code"
    using assms(2-4) c by (auto simp: section_arg_def co_section_def)
  have "dataValid L (co_ctx c) d (embed pt) = Inr ()" "dataValid L (co_ctx c) e (embed st) = Inr ()"
    using assms(11,12) by (auto simp: co_isDataValid_def isDataValid_def is_ok_def assertDataValid_def bindR_def split: sum.splits)
  then obtain v w where vw: "value_of d (embed pt) = Some v" "has_type v (embed pt)" "value_of e (embed st) = Some w" "has_type w (embed st)"
    using valid_value assms(7,8) by blast
  obtain out where out: "run (esize code + 1) code [PairV v w] = Some out" using loop_free_ends [OF assms(10)] by blast
  from contract_code_safe [OF ret _ _ secs(3) _ _ assms(9) out, of pp pas pan sp sas san] secs vw prims
  show ?thesis using vw(1,3) out by blast
qed

definition demo_contract :: "expr list" where
  "demo_contract =
     [Prim ''parameter'' (Some [Prim ''nat'' None None]) None, Prim ''storage'' (Some [Prim ''int'' None None]) None,
      Prim ''code'' (Some [Seq [Prim ''UNPAIR'' None None, Prim ''ADD'' None None,
        Prim ''NIL'' (Some [Prim ''operation'' None None]) None, Prim ''PAIR'' None None]]) None]"

definition demo_object :: contract_object where
  "demo_object = (case new_Contract demo_libs no_options demo_contract of Inr c \<Rightarrow> c | Inl e \<Rightarrow> undefined)"

lemma demo_object: "new_Contract demo_libs no_options demo_contract = Inr demo_object"
  unfolding demo_object_def by code_simp

theorem accepted_contract_runs_witness:
  "\<exists>v w. value_of (IntLit ''4'') (ty ''nat'') = Some v \<and> value_of (IntLit ''-9'') (ty ''int'') = Some w"
proof -
  have c: "co_contract demo_object = demo_contract" "co_protocol demo_object = None"
    using new_Contract_fields [OF demo_object] by (simp_all add: no_options_def)
  have "co_section demo_object ''parameter'' = Inr (Prim ''parameter'' (Some [Prim ''nat'' None None]) None)"
      "co_section demo_object ''storage'' = Inr (Prim ''storage'' (Some [Prim ''int'' None None]) None)"
      "co_section demo_object ''code'' = Inr (Prim ''code'' (Some [Seq [Prim ''UNPAIR'' None None, Prim ''ADD'' None None,
        Prim ''NIL'' (Some [Prim ''operation'' None None]) None, Prim ''PAIR'' None None]]) None)"
    by (simp_all add: co_section_def c demo_contract_def contractSection_def prim_of_def)
  moreover have "isDataValid demo_libs \<lparr>ctx_protocol = None, ctx_contract = Some demo_contract\<rparr> (IntLit ''4'') (ty ''nat'')" by code_simp
  moreover have "isDataValid demo_libs \<lparr>ctx_protocol = None, ctx_contract = Some demo_contract\<rparr> (IntLit ''-9'') (ty ''int'')" by code_simp
  moreover have "machine_code (Seq [Prim ''UNPAIR'' None None, Prim ''ADD'' None None,
        Prim ''NIL'' (Some [Prim ''operation'' None None]) None, Prim ''PAIR'' None None])"
      "loop_free (Seq [Prim ''UNPAIR'' None None, Prim ''ADD'' None None,
        Prim ''NIL'' (Some [Prim ''operation'' None None]) None, Prim ''PAIR'' None None])" by code_simp+
  ultimately have "\<exists>v w. value_of (IntLit ''4'') (embed (Prim ''nat'' None None)) = Some v \<and> value_of (IntLit ''-9'') (embed (Prim ''int'' None None)) = Some w"
    using accepted_contract_runs [OF demo_object, of "Prim ''nat'' None None" "Prim ''int'' None None" _ "IntLit ''4''" "IntLit ''-9''"]
    by (auto simp: co_isDataValid_def co_ctx_def c simp del: machine_code.simps loop_free.simps)
  then show ?thesis by simp
qed

text \<open>C31: \<open>COMPARE\<close> is accepted for any two comparable types, be they different, though values of
  different types cannot be compared: with an integer and a truth value the machine is stuck.\<close>

theorem comparison_unchecked:
  assumes "typeCheck Comparable (plain a) = Inr ()" and "typeCheck Comparable (plain b) = Inr ()"
  shows "functionTypeInternal L ctx (Prim ''COMPARE'' None None) (a # b # ts) = Inr (Stack (ty ''int'' # ts)) \<and>
    run 1 (Prim ''COMPARE'' None None) [IntV 1, BoolV True] = Some (Inl IllTyped)"
  using compare_any [OF assms] by (simp add: run_simple_def run0_def)

theorem comparison_unchecked_witness:
  "functionTypeInternal demo_libs no_context (Prim ''COMPARE'' None None) [ty ''int'', ty ''bool''] = Inr (Stack [ty ''int''])"
proof -
  have "typeCheck Comparable (plain (ty ''int'')) = Inr ()" "typeCheck Comparable (plain (ty ''bool'')) = Inr ()" by code_simp+
  from comparison_unchecked [OF this, of demo_libs no_context "[]"] show ?thesis by simp
qed

text \<open>C32: a function that always fails hides the code after it.  \<open>LAMBDA\<close> of such a function is
  itself taken for failing, at a level at which it may stand anywhere, so that whatever follows
  is not checked: the contract is accepted with any code there.\<close>

theorem failing_function_hides_code:
  "isContractValid L proto (unit_contract (failing_function # rest)) = Some (Failed (ty ''unit'') 3)"
  by (simp add: isContractValid_def unchecked_code)

section \<open>Encoding values for contracts\<close>

text \<open>Concrete libraries, and the type \<open>pair (nat %amount) (or %action (string %open) (unit %close))\<close>.\<close>

definition demo_big :: "jsval \<Rightarrow> string" where
  "demo_big v =
     (case v of
        JsBig s \<Rightarrow> s
      | JsNum n \<Rightarrow> int_to_dec n
      | JsStr s \<Rightarrow> (case dec_to_int s of Some i \<Rightarrow> s | None \<Rightarrow> ''NaN'')
      | _ \<Rightarrow> ''NaN'')"

definition demo_enc :: enc_libs where
  "demo_enc = \<lparr>utils = demo_libs, big_number = demo_big, big_string = (\<lambda>s. s),
     stringify = (\<lambda>v. case v of JsStr s \<Rightarrow> s | JsBig s \<Rightarrow> s | JsNum n \<Rightarrow> int_to_dec n | _ \<Rightarrow> [])\<rparr>"

definition demo_left :: Token where
  "demo_left = \<lparr>tok_class = NatToken, tok_val = Prim ''nat'' None (Some [''%amount'']), tok_idx = 0\<rparr>"

definition demo_open :: Token where
  "demo_open = \<lparr>tok_class = StringToken, tok_val = Prim ''string'' None (Some [''%open'']), tok_idx = 1\<rparr>"

definition demo_close :: Token where
  "demo_close = \<lparr>tok_class = UnitToken, tok_val = Prim ''unit'' None (Some [''%close'']), tok_idx = 2\<rparr>"

definition demo_action :: Token where
  "demo_action = \<lparr>tok_class = OrToken, tok_val = Prim ''or'' (Some [tok_val demo_open, tok_val demo_close]) (Some [''%action'']), tok_idx = 1\<rparr>"

definition demo_token :: Token where
  "demo_token = \<lparr>tok_class = PairToken, tok_val = Prim ''pair'' (Some [tok_val demo_left, tok_val demo_action]) None, tok_idx = 0\<rparr>"

definition demo_value :: jsval where
  "demo_value = JsObj [(''amount'', JsBig ''5''), (''action'', JsObj [(''open'', JsStr ''x'')])]"

definition demo_data :: jsval where
  "demo_data = js_prim ''Pair'' [js_obj1 ''int'' (JsStr ''5''), js_prim ''Left'' [js_obj1 ''string'' (JsStr ''x'')]]"

lemma demo_tokens:
  "pair_tokens demo_token = Inr (demo_left, demo_action)" "or_tokens demo_action = Inr (demo_open, demo_close)"
  "or_labels demo_action = Inr [''open'', ''close'']"
  "annot demo_left = Inr ''amount''" "annot demo_action = Inr ''action''" "annot demo_open = Inr ''open''"
  by code_simp+

lemma demo_reads: "reads_data demo_enc demo_token demo_data demo_value"
proof -
  have "number_text demo_enc ''5''" by code_simp
  then have l: "reads_data demo_enc demo_left (js_obj1 ''int'' (JsStr ''5'')) (JsBig ''5'')"
    by (intro reads_leaf) (simp add: leaf_reads_def demo_left_def startsWith_def)
  have "reads_data demo_enc demo_open (js_obj1 ''string'' (JsStr ''x'')) (JsStr ''x'')"
    by (rule reads_leaf) (simp add: leaf_reads_def demo_open_def)
  then have "reads_data demo_enc demo_action (js_prim ''Left'' [js_obj1 ''string'' (JsStr ''x'')]) (JsObj [(''open'', JsStr ''x'')])"
    by (rule reads_left [OF _ demo_tokens(2,3) _ _ demo_tokens(6), rotated 3]) (simp_all add: demo_action_def demo_open_def)
  from reads_pair [OF _ demo_tokens(1,4,5) l this, of "[(''amount'', JsBig ''5'')]" "[(''action'', JsObj [(''open'', JsStr ''x'')])]"]
  show ?thesis
    by (simp add: demo_token_def demo_data_def demo_value_def contributes.simps inline_pair_def demo_left_def demo_action_def)
qed

text \<open>C33: the encoder is inverse to the decoder.  For a type and Michelson data of it that stand for a
  JavaScript value (in the relation \<open>reads_data\<close>, which does not mention the two), \<open>Execute\<close> gives
  a value that \<open>EncodeObject\<close> takes back to the data: components under the names of their fields,
  unions under labels that are different, sets and maps in the order of their keys.\<close>

theorem encode_execute_roundtrip:
  assumes "reads_data E tk m v"
  shows "bindR (Execute E no_sem tk m) (EncodeObject E no_sem tk) = Inr m"
  using encoder_refines(1) [OF assms] by simp

theorem encode_execute_roundtrip_witness:
  "bindR (Execute demo_enc no_sem demo_token demo_data) (EncodeObject demo_enc no_sem demo_token) = Inr demo_data"
  by (rule encode_execute_roundtrip [OF demo_reads])

text \<open>C34: the two encoders agree.  The arguments of \<open>Encode\<close> that spell out a value (the components
  of pairs in turn, each union after its label) give what \<open>EncodeObject\<close> gives for the value, and
  the arguments after them are left on the stack.\<close>

theorem encode_arguments:
  assumes "EncodeObject E no_sem tk v = Inr m" "arguments_of tk v = Inr xs" "xs \<noteq> []"
  shows "Encode E tk (xs @ rest) = Inr (m, rest)"
  using Encode_arguments [OF assms(1,2)] assms(3) by (simp add: takes_def)

theorem encode_arguments_witness:
  "Encode demo_enc demo_token [JsBig ''5'', JsStr ''open'', JsStr ''x'', JsNull] = Inr (demo_data, [JsNull])"
proof -
  have e: "EncodeObject demo_enc no_sem demo_token demo_value = Inr demo_data"
    using encoder_refines(1) [OF demo_reads] by simp
  have "arguments_of demo_token demo_value = Inr [JsBig ''5'', JsStr ''open'', JsStr ''x'']" by code_simp
  from encode_arguments [OF e this, of "[JsNull]"] show ?thesis by simp
qed

text \<open>C35: a map is encoded the same in whatever order its entries were set, where its keys
  are texts or JavaScript numbers of a type that compares them so, and are serialised apart.\<close>

theorem map_order_free:
  assumes "tok_class tk = MapToken \<or> tok_class tk = BigMapToken" "sub_token tk 0 0 = Inr k"
    and "plain_keys (tok_class k) (map fst es)" "distinct (map (\<lambda>e. stringify E (fst e)) es)" "mset es = mset fs"
  shows "EncodeObject E no_sem tk (JsMap es sch) = EncodeObject E no_sem tk (JsMap fs sch)"
  by (rule map_order [OF assms])

definition demo_map :: Token where
  "demo_map = \<lparr>tok_class = MapToken, tok_val = Prim ''map'' (Some [Prim ''nat'' None None, Prim ''bool'' None None]) None, tok_idx = 0\<rparr>"

theorem map_order_free_witness:
  "EncodeObject demo_enc no_sem demo_map (JsMap [(JsNum 10, JsBool True), (JsNum 9, JsBool False)] None) =
   EncodeObject demo_enc no_sem demo_map (JsMap [(JsNum 9, JsBool False), (JsNum 10, JsBool True)] None)"
proof (rule map_order_free)
  show "sub_token demo_map 0 0 = Inr \<lparr>tok_class = NatToken, tok_val = Prim ''nat'' None None, tok_idx = 0\<rparr>" by code_simp
  show "distinct (map (\<lambda>e. stringify demo_enc (fst e)) [(JsNum 10, JsBool True), (JsNum 9, JsBool False)])" by code_simp
qed (auto simp: demo_map_def plain_keys_def number_class_def)

text \<open>C36: a \<open>MichelsonMap\<close> is a finite map on its keys as they are serialised.  After any sequence of
  \<open>set\<close>, \<open>delete\<close> and \<open>clear\<close> that the types of the map allow, \<open>get\<close> returns what the finite map
  has under the key, and \<open>undefined\<close> where it has nothing.\<close>

theorem michelson_map_refines:
  assumes "map_steps E sch ops [] = Inr es" "map_get E (EncodeObject E no_sem) es sch k = Inr x"
  shows "x = (case fmap_steps E ops (stringify E k) of Some y \<Rightarrow> y | None \<Rightarrow> JsUndefined)"
  by (rule map_get_refines [OF assms])

theorem michelson_map_refines_witness:
  "\<exists>es. map_steps demo_enc None [SetOp (JsStr ''a'') (JsNum 1), SetOp (JsStr ''b'') (JsNum 2), SetOp (JsStr ''a'') (JsNum 3),
      DeleteOp (JsStr ''b'')] [] = Inr es \<and> entry_of demo_enc es (JsStr ''a'') = JsNum 3"
proof -
  let ?ops = "[SetOp (JsStr ''a'') (JsNum 1), SetOp (JsStr ''b'') (JsNum 2), SetOp (JsStr ''a'') (JsNum 3), DeleteOp (JsStr ''b'')]"
  have e: "map_steps demo_enc None ?ops [] = Inr [(JsStr ''a'', JsNum 3)]"
    by (simp add: map_set_def map_delete_def assertTypecheck_def demo_enc_def)
  have "map_get demo_enc (EncodeObject demo_enc no_sem) es None k = Inr (entry_of demo_enc es k)" for es k
    by (simp add: map_get_def assertTypecheck_def)
  from michelson_map_refines [OF e this, of "JsStr ''a''"] e show ?thesis
    by (simp add: fmap_steps_def demo_enc_def)
qed

text \<open>C37: the two descriptions of a type agree.  The schema that \<open>ExtractSchema\<close> gives, with the names
  of all fields, is the one \<open>generateSchema\<close> gives when the Michelson types in it are dropped
  (\<open>plain_schema\<close>, which also writes the memo size of the Sapling types as a number under
  \<open>memo-size\<close>, and puts the value of a ticket before its ticketer).\<close>

theorem extracted_schema_plain:
  assumes "generateSchema tk = Inr g" "ExtractSchema tk = Inr s"
  shows "s = plain_schema g"
  by (rule schemas_agree [OF assms])

theorem extracted_schema_plain_witness:
  "plain_schema (base_schema ''or'' (JsObj [(''open'', base_schema ''string'' (JsStr ''string'')),
      (''close'', base_schema ''unit'' (JsStr ''unit''))])) = JsObj [(''open'', JsStr ''string''), (''close'', JsStr ''unit'')]"
proof (rule extracted_schema_plain [symmetric])
  show "generateSchema demo_action = Inr (base_schema ''or'' (JsObj [(''open'', base_schema ''string'' (JsStr ''string'')),
      (''close'', base_schema ''unit'' (JsStr ''unit''))]))" by code_simp
  show "ExtractSchema demo_action = Inr (JsObj [(''open'', JsStr ''string''), (''close'', JsStr ''unit'')])" by code_simp
qed

text \<open>C38: integers and naturals are compared as JavaScript numbers, which for numerals up to 2 to the
  53 is the comparison of the integers.\<close>

theorem small_numbers_compared:
  assumes "number_class (tok_class k)" "\<bar>m\<bar> \<le> 2 ^ 53" "\<bar>n\<bar> \<le> 2 ^ 53"
  shows "token_compare E k (JsStr (int_to_dec m)) (JsStr (int_to_dec n)) = Inr (Some (sgn (m - n)))"
  by (rule small_numbers_exact [OF assms])

theorem small_numbers_compared_witness:
  "token_compare demo_enc demo_left (JsStr (int_to_dec 9)) (JsStr (int_to_dec 10)) = Inr (Some (- 1))"
  using small_numbers_compared [of demo_left 9 10 demo_enc] by (simp add: demo_left_def number_class_def)

text \<open>C23: nested options lose the \<open>Some\<close>s around a \<open>None\<close>.  With \<open>n\<close> options inside each other,
  \<open>None\<close>, \<open>Some None\<close> and so on below the innermost are all read as \<open>null\<close>, \<open>null\<close> is written as \<open>None\<close>,
  and no value whatever is written as one of the others: what is read and written back is changed.\<close>

theorem nested_option_lost:
  assumes "option_depth tk n" and "0 < j" and "j < n"
  shows "Execute E sem tk (somes j) = Inr JsNull \<and> EncodeObject E sem tk JsNull = Inr (js_prim0 ''None'') \<and>
    (\<forall>v. EncodeObject E sem tk v \<noteq> Inr (somes j))"
  using somes_read [OF assms(1,3), of E sem] null_written [OF assms(1), of E sem] somes_unwritten [OF assms, of E sem] assms(3) by simp

definition demo_option :: Token where
  "demo_option = \<lparr>tok_class = OptionToken, tok_val = Prim ''option'' (Some [Prim ''option'' (Some [Prim ''nat'' None None]) None]) None,
     tok_idx = 0\<rparr>"

theorem nested_option_lost_witness:
  "Execute demo_enc no_sem demo_option (js_prim ''Some'' [js_prim0 ''None'']) = Inr JsNull \<and>
   (\<forall>v. EncodeObject demo_enc no_sem demo_option v \<noteq> Inr (js_prim ''Some'' [js_prim0 ''None'']))"
proof -
  have "option_depth demo_option 2" by code_simp
  from nested_option_lost [OF this, of 1 demo_enc no_sem] show ?thesis by simp
qed

text \<open>C39: a map with boolean keys loses all but its last entry.  \<open>BoolToken.ToKey\<close> encodes the
  key instead of decoding it, and what it is given is an object, therefore true.\<close>

theorem bool_map_collapses:
  assumes "tok_class tk = MapToken" "sub_token tk 0 0 = Inr k" "tok_class k = BoolToken" "sub_token tk 1 0 = Inr w"
    and "Execute E sem tk (JsArr (map (\<lambda>(b, m). js_elt (js_prim0 b) m) (kvs @ [kv]))) = Inr (JsMap es sch)"
  shows "\<exists>x. es = [(js_prim0 ''True'', x)] \<and> Execute E sem w (snd kv) = Inr x"
  by (rule bool_keys_collapse [OF assms])

definition demo_flags :: Token where
  "demo_flags = \<lparr>tok_class = MapToken, tok_val = Prim ''map'' (Some [Prim ''bool'' None None, Prim ''string'' None None]) None, tok_idx = 0\<rparr>"

theorem bool_map_collapses_witness:
  "\<exists>es sch x. Execute demo_enc no_sem demo_flags (JsArr [js_elt (js_prim0 ''False'') (js_obj1 ''string'' (JsStr ''no'')),
      js_elt (js_prim0 ''True'') (js_obj1 ''string'' (JsStr ''yes''))]) = Inr (JsMap es sch) \<and> es = [(js_prim0 ''True'', x)]"
proof -
  have "\<exists>es sch. Execute demo_enc no_sem demo_flags (JsArr [js_elt (js_prim0 ''False'') (js_obj1 ''string'' (JsStr ''no'')),
      js_elt (js_prim0 ''True'') (js_obj1 ''string'' (JsStr ''yes''))]) = Inr (JsMap es sch)"
    by (rule exI [of _ "[(js_prim0 ''True'', JsStr ''yes'')]"], rule exI [of _ "Some (Prim ''bool'' None None, Prim ''string'' None None)"]) code_simp
  moreover have "sub_token demo_flags 0 0 = Inr \<lparr>tok_class = BoolToken, tok_val = Prim ''bool'' None None, tok_idx = 0\<rparr>" by code_simp
  moreover have "sub_token demo_flags 1 0 = Inr \<lparr>tok_class = StringToken, tok_val = Prim ''string'' None None, tok_idx = 0\<rparr>" by code_simp
  moreover have "tok_class demo_flags = MapToken" by (simp add: demo_flags_def)
  ultimately show ?thesis
    using bool_map_collapses [of demo_flags _ _ demo_enc no_sem "[(''False'', js_obj1 ''string'' (JsStr ''no''))]"
      "(''True'', js_obj1 ''string'' (JsStr ''yes''))"] by fastforce
qed

text \<open>C40: a value whose label no branch of a union has is not refused: it is encoded to \<open>null\<close>,
  whatever is under the label.\<close>

theorem unknown_label_null:
  assumes "tok_class tk = OrToken" "or_labels tk = Inr ls" "first_key v = Inr (Some lab)" "lab \<notin> set ls"
  shows "EncodeObject E sem tk v = Inr JsNull"
  by (rule unknown_label [OF assms])

theorem unknown_label_null_witness:
  "EncodeObject demo_enc no_sem demo_action (JsObj [(''shut'', JsNum 1)]) = Inr JsNull"
  by (rule unknown_label_null [OF _ demo_tokens(3) first_key_single]) (simp_all add: demo_action_def)

end
